(* ===== verification/Encoding.thy ===== *)
theory Encoding
  imports Prelude
begin

text \<open>
  \<open>src/src/lib.rs\<close>: the error type of the codecs, the readers and writers they run on, and the
  contract of the encoding traits as interfaces. A writer is the function that receives the bytes
  of each \<open>write_all\<close>; a reader is a cursor over a byte buffer, which is what the file layer
  hands to every decoder.
\<close>

section \<open>Errors\<close>

text \<open>The kinds of \<open>std::io::Error\<close> the code produces or tells apart.\<close>

datatype io_kind =
    NotFound
  | PermissionDenied
  | AlreadyExists
  | InvalidInput
  | UnexpectedEofKind
  | WriteZero
  | StorageFull
  | OtherKind

record raw_date =
  date_year :: u16
  date_month :: u8
  date_day :: u8

record raw_time =
  seconds_from_midnight :: u32
  nanoseconds :: u32

record raw_time_zone =
  tz_offset :: i32

record raw_date_time =
  dt_date :: raw_date
  dt_time :: raw_time
  dt_timezone :: raw_time_zone

datatype chrono_error =
    InvalidNaiveDate raw_date
  | InvalidNaiveTime raw_time
  | InvalidFixedOffset raw_time_zone

text \<open>What \<open>EncodingError::other\<close> boxes: the error of the header-name parser, or of \<open>chrono\<close>.\<close>

datatype boxed_error = InvalidHeaderName | Chrono chrono_error

datatype encoding_error =
    IOError io_kind
  | InvalidMagic
  | UnsupportedVersion u8
  | InvalidCompressionType u8
  | UnexpectedEof
  | UnknownTypeKey u8
  | InvalidUtf8
  | InvalidValue string u8
  | TypeTooLarge string nat nat
  | TooManyEntries string nat nat
  | LengthMismatch string nat nat
  | OtherDecodingError boxed_error
  | MismatchedObjectType u8 u8

section \<open>Readers\<close>

record cursor =
  c_data :: "u8 list"
  c_pos :: nat

type_synonym 'a decoder = "cursor \<Rightarrow> ('a \<times> cursor, encoding_error) res"

text \<open>
  \<open>Read::read_exact\<close> on a cursor: the bytes are taken from what is left after the position, and a
  short buffer is an \<open>io::Error\<close> of kind \<open>UnexpectedEof\<close>, which \<open>?\<close> wraps as \<open>IOError\<close>.
\<close>

definition read_exact :: "nat \<Rightarrow> u8 list decoder" where
  "read_exact n c =
     (if n \<le> length (c_data c) - c_pos c
      then Ok (take n (drop (c_pos c) (c_data c)), c\<lparr>c_pos := c_pos c + n\<rparr>)
      else Err (IOError UnexpectedEofKind))"

text \<open>\<open>Seek\<close>: a cursor moves anywhere, also past its end; \<open>Current\<close> is used with \<open>n \<ge> 0\<close> only.\<close>

definition seek_start :: "nat \<Rightarrow> cursor \<Rightarrow> cursor" where
  "seek_start n c = c\<lparr>c_pos := n\<rparr>"

definition seek_current :: "nat \<Rightarrow> cursor \<Rightarrow> (cursor, encoding_error) res" where
  "seek_current n c =
     (if c_pos c + n < 2 ^ 64 then Ok (c\<lparr>c_pos := c_pos c + n\<rparr>) else Err (IOError InvalidInput))"

definition open_cursor :: "u8 list \<Rightarrow> cursor" where
  "open_cursor bs = \<lparr>c_data = bs, c_pos = 0\<rparr>"

text \<open>\<open>ReadableObjectType::read_from_bytes\<close> and \<open>skip\<close>, as the trait defaults define them.\<close>

definition read_from_bytes_default :: "'a decoder \<Rightarrow> u8 list \<Rightarrow> ('a, encoding_error) res" where
  "read_from_bytes_default rd bs = res_bind (rd (open_cursor bs)) (\<lambda>(v, c). Ok v)"

definition skip_default :: "'a decoder \<Rightarrow> cursor \<Rightarrow> (cursor, encoding_error) res" where
  "skip_default rd c = res_bind (rd c) (\<lambda>(v, c). Ok c)"

definition read_map :: "('a \<Rightarrow> 'b) \<Rightarrow> ('a \<times> cursor, encoding_error) res \<Rightarrow> ('b \<times> cursor, encoding_error) res" where
  "read_map f r = res_bind r (\<lambda>(v, c). Ok (f v, c))"

section \<open>Writers\<close>

type_synonym 'w sink = "u8 list \<Rightarrow> 'w \<Rightarrow> ('w, encoding_error) res"
type_synonym ('a, 'w) encoder = "'w sink \<Rightarrow> 'a \<Rightarrow> 'w \<Rightarrow> ('w, encoding_error) res"

text \<open>A \<open>Vec<u8>\<close> grows; a \<open>Cursor<&mut [u8]>\<close> overwrites a fixed buffer and runs out of room.\<close>

definition vec_write :: "u8 list sink" where
  "vec_write bs w = Ok (w @ bs)"

record slice_cursor =
  s_buf :: "u8 list"
  s_pos :: nat

definition slice_write :: "slice_cursor sink" where
  "slice_write bs c =
     (if length bs \<le> length (s_buf c) - s_pos c
      then Ok \<lparr>s_buf = take (s_pos c) (s_buf c) @ bs @ drop (s_pos c + length bs) (s_buf c),
               s_pos = s_pos c + length bs\<rparr>
      else Err (IOError WriteZero))"

definition set_position :: "nat \<Rightarrow> slice_cursor \<Rightarrow> slice_cursor" where
  "set_position n c = c\<lparr>s_pos := n\<rparr>"

text \<open>\<open>WritableObjectType::write_to_bytes\<close> and \<open>TypedObjectType::write_with_type\<close>.\<close>

definition write_to_bytes :: "('a, u8 list) encoder \<Rightarrow> 'a \<Rightarrow> (u8 list, encoding_error) res" where
  "write_to_bytes wt v = wt vec_write v []"

definition write_with_type :: "u8 \<Rightarrow> ('a, 'w) encoder \<Rightarrow> ('a, 'w) encoder" where
  "write_with_type key wt wr v w = res_bind (wr [key] w) (\<lambda>w. wt wr v w)"

text \<open>The loop \<open>for item in self { item.write_to_writer(writer)?; }\<close> and its reading counterpart.\<close>

fun write_each :: "('a \<Rightarrow> 'w \<Rightarrow> ('w, 'e) res) \<Rightarrow> 'a list \<Rightarrow> 'w \<Rightarrow> ('w, 'e) res" where
  "write_each f [] w = Ok w"
| "write_each f (x # xs) w = res_bind (f x w) (write_each f xs)"

fun read_each :: "'a decoder \<Rightarrow> nat \<Rightarrow> 'a list decoder" where
  "read_each rd 0 c = Ok ([], c)"
| "read_each rd (Suc n) c =
     res_bind (rd c) (\<lambda>(x, c). res_bind (read_each rd n c) (\<lambda>(xs, c). Ok (x # xs, c)))"

text \<open>
  The loop that fills a hash map: a repeated key keeps the later value. The map is the association
  list of its entries in iteration order, with distinct keys.
\<close>

fun read_entries :: "'k decoder \<Rightarrow> 'v decoder \<Rightarrow> nat \<Rightarrow> ('k \<times> 'v) list \<Rightarrow> ('k \<times> 'v) list decoder" where
  "read_entries rk rv 0 m c = Ok (m, c)"
| "read_entries rk rv (Suc n) m c =
     res_bind (rk c) (\<lambda>(k, c). res_bind (rv c) (\<lambda>(v, c). read_entries rk rv n (AList.update k v m) c))"

section \<open>Facts about cursors\<close>

text \<open>
  A cursor between what was read and what is left. Every decoder is specified on such a cursor:
  it moves the encoding of its value from the right part to the left.
\<close>

definition cur :: "u8 list \<Rightarrow> u8 list \<Rightarrow> cursor" where
  "cur pre rest = \<lparr>c_data = pre @ rest, c_pos = length pre\<rparr>"

lemma open_cursor_cur: "open_cursor bs = cur [] bs"
  by (simp add: open_cursor_def cur_def)

lemma c_data_cur [simp]: "c_data (cur pre rest) = pre @ rest"
  by (simp add: cur_def)

lemma c_pos_cur [simp]: "c_pos (cur pre rest) = length pre"
  by (simp add: cur_def)

lemma read_exact_cur [simp]:
  "length bs = n \<Longrightarrow> read_exact n (cur pre (bs @ post)) = Ok (bs, cur (pre @ bs) post)"
  by (simp add: read_exact_def cur_def)

lemma read_exact_cur_end [simp]:
  "length bs = n \<Longrightarrow> read_exact n (cur pre bs) = Ok (bs, cur (pre @ bs) [])"
  using read_exact_cur [of bs n pre "[]"] by simp

lemma read_exact_cur_Cons [simp]:
  "read_exact (Suc 0) (cur pre (b # post)) = Ok ([b], cur (pre @ [b]) post)"
  using read_exact_cur [of "[b]" "Suc 0" pre post] by simp

lemma read_exact_cur_iff:
  "read_exact n (cur pre rest) = Ok (bs, c) \<longleftrightarrow>
     (\<exists>post. rest = bs @ post \<and> length bs = n \<and> c = cur (pre @ bs) post)"
proof
  assume h: "read_exact n (cur pre rest) = Ok (bs, c)"
  then have "n \<le> length rest" by (auto simp: read_exact_def cur_def split: if_splits)
  then obtain ys zs where "rest = ys @ zs" "length ys = n"
    using split_at_length by blast
  with h show "\<exists>post. rest = bs @ post \<and> length bs = n \<and> c = cur (pre @ bs) post"
    by auto
qed auto

lemma read_exact_short:
  "length rest < n \<Longrightarrow> read_exact n (cur pre rest) = Err (IOError UnexpectedEofKind)"
  by (simp add: read_exact_def cur_def)

lemma read_exact_not_Panic [simp]: "read_exact n c \<noteq> Panic"
  by (simp add: read_exact_def)

lemma read_map_Ok_iff [res_dest]: "read_map f r = Ok (y, c) \<longleftrightarrow> (\<exists>x. r = Ok (x, c) \<and> y = f x)"
  by (auto simp: read_map_def res_bind_Ok_iff)

lemma read_map_simps [simp]:
  "read_map f (Ok (x, c)) = Ok (f x, c)"
  "read_map f (Err e) = Err e"
  by (simp_all add: read_map_def)

lemma read_map_Panic_iff [simp]: "read_map f r = Panic \<longleftrightarrow> r = Panic"
  by (auto simp: read_map_def)

lemma seek_start_cur: "seek_start (length pre + length bs) (cur pre' (bs' @ post')) = cur (pre @ bs) post"
  if "pre' @ bs' @ post' = pre @ bs @ post"
  using that by (simp add: seek_start_def cur_def)

section \<open>Interfaces\<close>

text \<open>
  A writer: handing it bytes in two calls is handing it their concatenation, and an empty
  \<open>write_all\<close> does nothing. Inside, every encoder that accepts its value is one \<open>write_all\<close> of
  the value's wire form; the lemmas of the component theories say which.
\<close>

locale byte_sink =
  fixes wr :: "'w sink"
  assumes sink_nil: "wr [] w = Ok w"
    and sink_append: "wr (a @ b) w = res_bind (wr a w) (wr b)"
begin

lemma sink_then [simp]: "res_bind (wr a w) (wr b) = wr (a @ b) w"
  by (simp add: sink_append)

lemma sink_then_bind [simp]:
  "res_bind (wr a w) (\<lambda>w. res_bind (wr b w) f) = res_bind (wr (a @ b) w) f"
  by (simp add: sink_append del: sink_then)

lemma write_each_wire:
  assumes "\<And>x w. x \<in> set xs \<Longrightarrow> f x w = wr (enc x) w"
  shows "write_each f xs w = wr (concat (map enc xs)) w"
  using assms
proof (induction xs arbitrary: w)
  case Nil
  then show ?case by (simp add: sink_nil)
next
  case (Cons x xs)
  then have "write_each f xs = wr (concat (map enc xs))" by (intro ext) simp
  with Cons.prems show ?case by simp
qed

end

interpretation vec: byte_sink vec_write
  by unfold_locales (auto simp: vec_write_def)

lemma slice_write_append: "slice_write (a @ b) w = res_bind (slice_write a w) (slice_write b)"
proof (cases "length a \<le> length (s_buf w) - s_pos w")
  case True
  then have "take (s_pos w + length a)
      (take (s_pos w) (s_buf w) @ a @ drop (s_pos w + length a) (s_buf w)) =
      take (s_pos w) (s_buf w) @ a" if "a \<noteq> []"
    using that by (cases "s_pos w \<le> length (s_buf w)") (auto simp: min_def)
  with True show ?thesis
    by (cases "a = []"; cases "s_pos w \<le> length (s_buf w)")
       (auto simp: slice_write_def min_def ac_simps)
next
  case False
  then show ?thesis by (auto simp: slice_write_def)
qed

interpretation slice: byte_sink slice_write
proof unfold_locales
  show "slice_write [] w = Ok w" for w
    by (simp add: slice_write_def)
  show "slice_write (a @ b) w = res_bind (slice_write a w) (slice_write b)" for a b w
    by (rule slice_write_append)
qed

text \<open>
  The contract of the encoding traits (the size invariant and the round trip): on an acceptable
  value the wire form has the reported size, and the decoder reads it back from anywhere in a
  buffer, leaving the cursor right behind it.
\<close>

locale wire_type =
  fixes sz :: "'a \<Rightarrow> nat"
    and enc :: "'a \<Rightarrow> u8 list"
    and rd :: "'a decoder"
    and ok :: "'a \<Rightarrow> bool"
  assumes size_enc: "ok v \<Longrightarrow> length (enc v) = sz v"
    and rd_enc: "ok v \<Longrightarrow> rd (cur pre (enc v @ post)) = Ok (v, cur (pre @ enc v) post)"
begin

lemma enc_inj: "ok v \<Longrightarrow> ok v' \<Longrightarrow> enc v @ post = enc v' @ post' \<Longrightarrow> v = v' \<and> post = post'"
proof -
  assume "ok v" "ok v'" and eq: "enc v @ post = enc v' @ post'"
  have "Ok (v, cur ([] @ enc v) post) = Ok (v', cur ([] @ enc v') post')"
    using rd_enc [OF \<open>ok v\<close>, of "[]" post] rd_enc [OF \<open>ok v'\<close>, of "[]" post'] eq by simp
  then show ?thesis using eq by simp
qed

lemma read_from_bytes_enc: "ok v \<Longrightarrow> read_from_bytes_default rd (enc v @ post) = Ok v"
  by (simp add: read_from_bytes_default_def open_cursor_cur rd_enc)

lemma read_each_enc:
  assumes "\<And>x. x \<in> set xs \<Longrightarrow> ok x"
  shows "read_each rd (length xs) (cur pre (concat (map enc xs) @ post)) =
         Ok (xs, cur (pre @ concat (map enc xs)) post)"
  using assms by (induction xs arbitrary: pre) (auto simp: rd_enc)

lemma size_each_enc:
  "(\<And>x. x \<in> set xs \<Longrightarrow> ok x) \<Longrightarrow> length (concat (map enc xs)) = (\<Sum>x\<leftarrow>xs. sz x)"
  by (induction xs) (auto simp: size_enc)

end

text \<open>
  A type whose decoder accepts nothing but wire forms: whatever it returns is acceptable and the
  bytes it consumed are the value's encoding. It never panics.
\<close>

locale canonical_type = wire_type +
  assumes rd_inv: "rd (cur pre rest) = Ok (v, c) \<Longrightarrow>
      ok v \<and> (\<exists>post. rest = enc v @ post \<and> c = cur (pre @ enc v) post)"
    and rd_safe: "rd c \<noteq> Panic"
begin

lemma read_each_inv:
  "read_each rd n (cur pre rest) = Ok (xs, c) \<Longrightarrow>
     (\<forall>x \<in> set xs. ok x) \<and> length xs = n \<and>
     (\<exists>post. rest = concat (map enc xs) @ post \<and> c = cur (pre @ concat (map enc xs)) post)"
proof (induction n arbitrary: pre rest xs)
  case 0
  then show ?case by auto
next
  case (Suc n)
  then obtain x c1 ys where x: "rd (cur pre rest) = Ok (x, c1)"
    and ys: "read_each rd n c1 = Ok (ys, c)" and xs: "xs = x # ys"
    by (auto simp: res_dest)
  from rd_inv [OF x] obtain post where "ok x" "rest = enc x @ post" "c1 = cur (pre @ enc x) post"
    by blast
  with Suc.IH [of "pre @ enc x" post ys] ys xs show ?case by auto
qed

lemma read_each_safe: "read_each rd n c \<noteq> Panic"
  by (induction n arbitrary: c) (auto simp: rd_safe)

lemma rd_iff:
  "rd (cur pre rest) = Ok (v, c) \<longleftrightarrow>
     ok v \<and> (\<exists>post. rest = enc v @ post \<and> c = cur (pre @ enc v) post)"
  using rd_inv rd_enc by blast

end

text \<open>One equivalence per decoder gives both directions of the round trip.\<close>

lemma canonical_typeI:
  assumes "\<And>v. ok v \<Longrightarrow> length (enc v) = sz v"
    and "\<And>pre rest v c. rd (cur pre rest) = Ok (v, c) \<longleftrightarrow>
          ok v \<and> (\<exists>post. rest = enc v @ post \<and> c = cur (pre @ enc v) post)"
    and "\<And>c. rd c \<noteq> Panic"
  shows "canonical_type sz enc rd ok"
  using assms by unfold_locales auto

text \<open>A type that can be measured in place: \<open>read_size\<close> reports the size without decoding.\<close>

locale measured_type = wire_type +
  fixes ms :: "nat decoder"
  assumes ms_enc: "ok v \<Longrightarrow> \<exists>c. ms (cur pre (enc v @ post)) = Ok (sz v, c)
      \<and> c_data c = pre @ enc v @ post"

text \<open>The entries of a map: a key codec and a value codec side by side.\<close>

definition wire_entries :: "('k \<Rightarrow> u8 list) \<Rightarrow> ('v \<Rightarrow> u8 list) \<Rightarrow> ('k \<times> 'v) list \<Rightarrow> u8 list" where
  "wire_entries kenc venc es = concat (map (\<lambda>(k, v). kenc k @ venc v) es)"

definition insert_all :: "('k \<times> 'v) list \<Rightarrow> ('k \<times> 'v) list \<Rightarrow> ('k \<times> 'v) list" where
  "insert_all es m = fold (\<lambda>(k, v). AList.update k v) es m"

lemma wire_entries_simps [simp]:
  "wire_entries kenc venc [] = []"
  "wire_entries kenc venc ((k, v) # es) = kenc k @ venc v @ wire_entries kenc venc es"
  by (simp_all add: wire_entries_def)

lemma insert_all_simps [simp]:
  "insert_all [] m = m"
  "insert_all ((k, v) # es) m = insert_all es (AList.update k v m)"
  by (simp_all add: insert_all_def)

lemma insert_all_fresh:
  "distinct (map fst es) \<Longrightarrow> fst ` set es \<inter> fst ` set m = {} \<Longrightarrow> insert_all es m = m @ es"
proof (induction es arbitrary: m)
  case Nil
  then show ?case by simp
next
  case (Cons e es)
  obtain k v where e: "e = (k, v)" by (cases e)
  from Cons.prems e have "k \<notin> fst ` set m" by auto
  then have "AList.update k v m = m @ [(k, v)]" by (rule AList_update_fresh)
  with Cons e show ?case by auto
qed

lemma insert_all_distinct: "distinct (map fst m) \<Longrightarrow> distinct (map fst (insert_all es m))"
proof (induction es arbitrary: m)
  case (Cons e es)
  then show ?case by (cases e) (simp add: distinct_update)
qed simp

lemma length_AList_update: "length (AList.update k v m) \<le> Suc (length m)"
  by (induction m) auto

lemma length_insert_all: "length (insert_all es m) \<le> length es + length m"
proof (induction es arbitrary: m)
  case Nil
  then show ?case by simp
next
  case (Cons e es)
  obtain k v where e: "e = (k, v)" by (cases e)
  show ?case
    using Cons [of "AList.update k v m"] length_AList_update [of k v m] e by simp
qed

lemma map_of_insert_all: "map_of (insert_all es m) k = (case map_of (rev es) k of None \<Rightarrow> map_of m k | Some v \<Rightarrow> Some v)"
proof (induction es arbitrary: m)
  case Nil
  then show ?case by simp
next
  case (Cons e es)
  obtain k' v where e: "e = (k', v)" by (cases e)
  show ?case
    by (simp add: e Cons map_of_append map_add_def split: option.split)
qed

lemma set_AList_update: "set (AList.update k v m) \<subseteq> insert (k, v) (set m)"
  by (induction m) auto

lemma set_insert_all: "set (insert_all es m) \<subseteq> set es \<union> set m"
proof (induction es arbitrary: m)
  case Nil
  then show ?case by simp
next
  case (Cons e es)
  obtain k v where e: "e = (k, v)" by (cases e)
  show ?case
    using Cons [of "AList.update k v m"] set_AList_update [of k v m] e by auto
qed

locale entry_codec =
  key: wire_type ksz kenc krd kok + val: wire_type vsz venc vrd vok
  for ksz :: "'k \<Rightarrow> nat" and kenc krd kok and vsz :: "'v \<Rightarrow> nat" and venc vrd vok
begin

lemma read_entries_wire:
  "list_all (\<lambda>(k, v). kok k \<and> vok v) es \<Longrightarrow>
   read_entries krd vrd (length es) m (cur pre (wire_entries kenc venc es @ post)) =
     Ok (insert_all es m, cur (pre @ wire_entries kenc venc es) post)"
  by (induction es arbitrary: pre m) (auto simp: key.rd_enc val.rd_enc)

lemma size_entries_wire:
  "list_all (\<lambda>(k, v). kok k \<and> vok v) es \<Longrightarrow>
   length (wire_entries kenc venc es) = (\<Sum>(k, v)\<leftarrow>es. ksz k + vsz v)"
  by (induction es) (auto simp: key.size_enc val.size_enc)

end

end
