(* ===== verification/Primitives.thy ===== *)
theory Primitives
  imports Encoding
begin

text \<open>
  \<open>src/src/types.rs\<close>, \<open>types/num.rs\<close>, \<open>types/alloc.rs\<close>, \<open>types/bytes.rs\<close>, \<open>types/option.rs\<close> and
  \<open>types/uuid_impl.rs\<close>: the codecs of booleans, numbers, byte blocks, strings, sets, optional
  values and uuids, with the limit checks they share. A \<open>String\<close> is its UTF-8 bytes, a \<open>Uuid\<close> its
  sixteen bytes, a hash set the list of its elements in iteration order.
\<close>

section \<open>The limit of a length prefix\<close>

definition MAX_PREFIXED_LENGTH :: nat where
  "MAX_PREFIXED_LENGTH = 65535"

definition length_is_allowed :: "string \<Rightarrow> nat \<Rightarrow> (unit, encoding_error) res" where
  "length_is_allowed type_name n =
     (if n > MAX_PREFIXED_LENGTH
      then Err (TypeTooLarge type_name n MAX_PREFIXED_LENGTH) else Ok ())"

definition count_is_allowed :: "string \<Rightarrow> nat \<Rightarrow> (unit, encoding_error) res" where
  "count_is_allowed type_name count =
     (if count > MAX_PREFIXED_LENGTH
      then Err (TooManyEntries type_name count MAX_PREFIXED_LENGTH) else Ok ())"

lemma length_is_allowed_Ok [simp]: "n \<le> 65535 \<Longrightarrow> length_is_allowed t n = Ok ()"
  by (simp add: length_is_allowed_def MAX_PREFIXED_LENGTH_def)

lemma count_is_allowed_Ok [simp]: "n \<le> 65535 \<Longrightarrow> count_is_allowed t n = Ok ()"
  by (simp add: count_is_allowed_def MAX_PREFIXED_LENGTH_def)

lemma length_is_allowed_Err:
  "65535 < n \<Longrightarrow> length_is_allowed t n = Err (TypeTooLarge t n 65535)"
  by (simp add: length_is_allowed_def MAX_PREFIXED_LENGTH_def)

lemma count_is_allowed_Err:
  "65535 < n \<Longrightarrow> count_is_allowed t n = Err (TooManyEntries t n 65535)"
  by (simp add: count_is_allowed_def MAX_PREFIXED_LENGTH_def)

lemma unat_of_nat_u16 [simp]: "n \<le> 65535 \<Longrightarrow> unat (of_nat n :: u16) = n"
  by (simp add: unat_of_nat)

section \<open>Booleans\<close>

definition bool_size :: "bool \<Rightarrow> nat" where
  "bool_size b = 1"

definition write_bool :: "(bool, 'w) encoder" where
  "write_bool wr b w = wr [if b then 1 else 0] w"

definition bool_read_size :: "nat decoder" where
  "bool_read_size c = Ok (1, c)"

definition read_bool :: "bool decoder" where
  "read_bool c = res_bind (read_exact 1 c) (\<lambda>(buffer, c).
     if buffer ! 0 = 0 then Ok (False, c)
     else if buffer ! 0 = 1 then Ok (True, c)
     else Err (InvalidValue ''bool'' (buffer ! 0)))"

section \<open>Numbers\<close>

text \<open>The macro \<open>number!\<close>, once for every width; the literal size of each type is its width in bytes.\<close>

definition num_size :: "'a::len word \<Rightarrow> nat" where
  "num_size x = LENGTH('a) div 8"

definition write_num :: "('a::len word, 'w) encoder" where
  "write_num wr x w = wr (to_le_bytes x) w"

definition num_read_size :: "'a::len itself \<Rightarrow> nat decoder" where
  "num_read_size t c = Ok (LENGTH('a) div 8, c)"

definition read_num :: "'a::len word decoder" where
  "read_num c = res_bind (read_exact (LENGTH('a) div 8) c) (\<lambda>(buffer, c). Ok (from_le_bytes buffer, c))"

definition num_read_from_bytes :: "u8 list \<Rightarrow> ('a::len word, encoding_error) res" where
  "num_read_from_bytes bytes =
     (if LENGTH('a) div 8 \<le> length bytes
      then Ok (from_le_bytes (take (LENGTH('a) div 8) bytes)) else Panic)"

section \<open>Byte blocks\<close>

text \<open>\<open>[u8; N]\<close>, with the width \<open>N\<close> as an argument.\<close>

definition array_size :: "nat \<Rightarrow> u8 list \<Rightarrow> nat" where
  "array_size N a = N + 2"

definition write_array :: "nat \<Rightarrow> (u8 list, 'w) encoder" where
  "write_array N wr a w = res_bind (length_is_allowed ''[u8; N]'' N) (\<lambda>_.
     res_bind (write_num wr (of_nat N :: u16) w) (\<lambda>w. wr a w))"

definition array_read_size :: "nat \<Rightarrow> nat decoder" where
  "array_read_size N c = Ok (N + 2, c)"

definition read_array :: "nat \<Rightarrow> u8 list decoder" where
  "read_array N c = res_bind (read_num c) (\<lambda>(len :: u16, c).
     if unat len \<noteq> N then Err (LengthMismatch ''[u8; N]'' N (unat len))
     else read_exact N c)"

text \<open>\<open>Vec<T>\<close>: the element codec is an argument.\<close>

definition vec_size :: "('a \<Rightarrow> nat) \<Rightarrow> 'a list \<Rightarrow> nat" where
  "vec_size item_size xs = (\<Sum>x\<leftarrow>xs. item_size x) + 2"

definition write_vec :: "('a, 'w) encoder \<Rightarrow> ('a list, 'w) encoder" where
  "write_vec write_item wr xs w = res_bind (count_is_allowed ''Vec'' (length xs)) (\<lambda>_.
     res_bind (write_num wr (of_nat (length xs) :: u16) w) (write_each (write_item wr) xs))"

definition vec_read_size :: "nat decoder" where
  "vec_read_size c = res_bind (read_num c) (\<lambda>(len :: u16, c). Ok (unat len + 2, c))"

definition read_vec :: "'a decoder \<Rightarrow> 'a list decoder" where
  "read_vec read_item c = res_bind (read_num c) (\<lambda>(len :: u16, c). read_each read_item (unat len) c)"

definition vec_read_with_size :: "u16 \<Rightarrow> u8 list decoder" where
  "vec_read_with_size n c = read_exact (unat n) c"

text \<open>\<open>bytes::Bytes\<close> under the feature of that name.\<close>

definition bytes_size :: "u8 list \<Rightarrow> nat" where
  "bytes_size b = length b + 2"

definition write_bytes :: "(u8 list, 'w) encoder" where
  "write_bytes wr b w = res_bind (length_is_allowed ''Bytes'' (length b)) (\<lambda>_.
     res_bind (write_num wr (of_nat (length b) :: u16) w) (\<lambda>w. wr b w))"

definition bytes_read_size :: "nat decoder" where
  "bytes_read_size c = res_bind (read_num c) (\<lambda>(len :: u16, c). Ok (unat len + 2, c))"

definition read_bytes :: "u8 list decoder" where
  "read_bytes c = res_bind (read_num c) (\<lambda>(len :: u16, c). read_exact (unat len) c)"

section \<open>Strings\<close>

text \<open>Well-formed UTF-8, by the byte ranges of the Unicode standard, which \<open>String::from_utf8\<close> checks.\<close>

definition utf8_cont :: "u8 \<Rightarrow> bool" where
  "utf8_cont b \<longleftrightarrow> 0x80 \<le> b \<and> b \<le> 0xBF"

fun utf8_valid :: "u8 list \<Rightarrow> bool" where
  "utf8_valid [] = True"
| "utf8_valid (b # bs) =
     (if b < 0x80 then utf8_valid bs
      else if 0xC2 \<le> b \<and> b \<le> 0xDF then
        (case bs of c1 # rest \<Rightarrow> utf8_cont c1 \<and> utf8_valid rest | _ \<Rightarrow> False)
      else if 0xE0 \<le> b \<and> b \<le> 0xEF then
        (case bs of c1 # c2 # rest \<Rightarrow>
           (if b = 0xE0 then 0xA0 \<le> c1 \<and> c1 \<le> 0xBF
            else if b = 0xED then 0x80 \<le> c1 \<and> c1 \<le> 0x9F else utf8_cont c1)
           \<and> utf8_cont c2 \<and> utf8_valid rest
         | _ \<Rightarrow> False)
      else if 0xF0 \<le> b \<and> b \<le> 0xF4 then
        (case bs of c1 # c2 # c3 # rest \<Rightarrow>
           (if b = 0xF0 then 0x90 \<le> c1 \<and> c1 \<le> 0xBF
            else if b = 0xF4 then 0x80 \<le> c1 \<and> c1 \<le> 0x8F else utf8_cont c1)
           \<and> utf8_cont c2 \<and> utf8_cont c3 \<and> utf8_valid rest
         | _ \<Rightarrow> False)
      else False)"

definition from_utf8 :: "u8 list \<Rightarrow> (u8 list, encoding_error) res" where
  "from_utf8 bs = (if utf8_valid bs then Ok bs else Err InvalidUtf8)"

definition string_size :: "u8 list \<Rightarrow> nat" where
  "string_size s = length s + 2"

definition write_string :: "(u8 list, 'w) encoder" where
  "write_string wr s w = res_bind (length_is_allowed ''String'' (length s)) (\<lambda>_.
     res_bind (write_num wr (of_nat (length s) :: u16) w) (\<lambda>w. wr s w))"

definition read_string :: "u8 list decoder" where
  "read_string c = res_bind (read_num c) (\<lambda>(len :: u16, c).
     res_bind (read_exact (unat len) c) (\<lambda>(buffer, c).
       res_bind (from_utf8 buffer) (\<lambda>s. Ok (s, c))))"

definition string_read_from_bytes :: "u8 list \<Rightarrow> (u8 list, encoding_error) res" where
  "string_read_from_bytes bytes =
     (if length bytes < 2 then Panic
      else res_bind (num_read_from_bytes (take 2 bytes)) (\<lambda>len :: u16.
        if length bytes < unat len + 2 then Err UnexpectedEof
        else from_utf8 (take (unat len) (drop 2 bytes))))"

definition string_read_size :: "nat decoder" where
  "string_read_size c = res_bind (read_num c) (\<lambda>(len :: u16, c). Ok (unat len + 2, c))"

definition string_skip :: "cursor \<Rightarrow> (cursor, encoding_error) res" where
  "string_skip c = res_bind (read_num c) (\<lambda>(len :: u16, c). seek_current (unat len) c)"

definition string_read_with_size :: "u16 \<Rightarrow> u8 list decoder" where
  "string_read_with_size n c = res_bind (read_exact (unat n) c) (\<lambda>(buffer, c).
     res_bind (from_utf8 buffer) (\<lambda>s. Ok (s, c)))"

section \<open>Sets, optional values, uuids\<close>

definition set_insert :: "'a \<Rightarrow> 'a list \<Rightarrow> 'a list" where
  "set_insert x xs = (if x \<in> set xs then xs else xs @ [x])"

definition hash_set_size :: "('a \<Rightarrow> nat) \<Rightarrow> 'a list \<Rightarrow> nat" where
  "hash_set_size item_size xs = (\<Sum>x\<leftarrow>xs. item_size x) + 2"

definition write_hash_set :: "('a, 'w) encoder \<Rightarrow> ('a list, 'w) encoder" where
  "write_hash_set write_item wr xs w = res_bind (count_is_allowed ''HashSet'' (length xs)) (\<lambda>_.
     res_bind (write_num wr (of_nat (length xs) :: u16) w) (write_each (write_item wr) xs))"

definition hash_set_read_size :: "nat decoder" where
  "hash_set_read_size c = res_bind (read_num c) (\<lambda>(len :: u16, c). Ok (unat len + 2, c))"

fun read_items :: "'a decoder \<Rightarrow> nat \<Rightarrow> 'a list \<Rightarrow> 'a list decoder" where
  "read_items rd 0 items c = Ok (items, c)"
| "read_items rd (Suc n) items c = res_bind (rd c) (\<lambda>(x, c). read_items rd n (set_insert x items) c)"

definition read_hash_set :: "'a decoder \<Rightarrow> 'a list decoder" where
  "read_hash_set read_item c = res_bind (read_num c) (\<lambda>(len :: u16, c). read_items read_item (unat len) [] c)"

definition option_size :: "('a \<Rightarrow> nat) \<Rightarrow> 'a option \<Rightarrow> nat" where
  "option_size inner_size v = (case v of Some inner \<Rightarrow> 1 + inner_size inner | None \<Rightarrow> 1)"

definition option_read_size :: "nat decoder \<Rightarrow> nat decoder" where
  "option_read_size inner_read_size c = res_bind (inner_read_size c) (\<lambda>(n, c). Ok (1 + n, c))"

definition read_option :: "'a decoder \<Rightarrow> 'a option decoder" where
  "read_option read_inner c = res_bind (read_num c) (\<lambda>(flag :: u8, c).
     if flag \<noteq> 0 then read_map Some (read_inner c) else Ok (None, c))"

definition write_option :: "('a, 'w) encoder \<Rightarrow> ('a option, 'w) encoder" where
  "write_option write_inner wr v w =
     (case v of None \<Rightarrow> wr [0] w
      | Some inner \<Rightarrow> res_bind (wr [1] w) (\<lambda>w. write_inner wr inner w))"

definition uuid_size :: "u8 list \<Rightarrow> nat" where
  "uuid_size u = 16"

definition write_uuid :: "(u8 list, 'w) encoder" where
  "write_uuid wr u w = wr u w"

definition uuid_read_size :: "nat decoder" where
  "uuid_read_size c = Ok (16, c)"

definition read_uuid :: "u8 list decoder" where
  "read_uuid c = read_exact 16 c"

definition uuid_skip :: "cursor \<Rightarrow> (cursor, encoding_error) res" where
  "uuid_skip c = seek_current 16 c"

section \<open>Wire forms\<close>

text \<open>What the format promises: a byte block is its length in two bytes, then its bytes.\<close>

definition wire_block :: "u8 list \<Rightarrow> u8 list" where
  "wire_block bs = to_le_bytes (of_nat (length bs) :: u16) @ bs"

definition wire_bool :: "bool \<Rightarrow> u8 list" where
  "wire_bool b = [if b then 1 else 0]"

definition block_ok :: "u8 list \<Rightarrow> bool" where
  "block_ok bs \<longleftrightarrow> length bs \<le> 65535"

definition string_ok :: "u8 list \<Rightarrow> bool" where
  "string_ok s \<longleftrightarrow> length s \<le> 65535 \<and> utf8_valid s"

definition uuid_ok :: "u8 list \<Rightarrow> bool" where
  "uuid_ok u \<longleftrightarrow> length u = 16"

lemma concat_to_le_bytes_u8: "concat (map to_le_bytes (bs :: u8 list)) = bs"
  by (induction bs) (auto simp: to_le_bytes_byte)

lemma length_wire_block [simp]: "length (wire_block bs) = length bs + 2"
  by (simp add: wire_block_def)

subsection \<open>Writers\<close>

context byte_sink
begin

lemma write_num_wire: "write_num wr x w = wr (to_le_bytes x) w"
  by (simp add: write_num_def)

lemma write_bool_wire: "write_bool wr b w = wr (wire_bool b) w"
  by (simp add: write_bool_def wire_bool_def)

lemma write_string_wire: "length s \<le> 65535 \<Longrightarrow> write_string wr s w = wr (wire_block s) w"
  by (simp add: write_string_def write_num_def wire_block_def)

lemma write_bytes_wire: "length s \<le> 65535 \<Longrightarrow> write_bytes wr s w = wr (wire_block s) w"
  by (simp add: write_bytes_def write_num_def wire_block_def)

lemma write_array_wire:
  "length a = N \<Longrightarrow> N \<le> 65535 \<Longrightarrow> write_array N wr a w = wr (wire_block a) w"
  by (auto simp: write_array_def write_num_def wire_block_def)

lemma write_vec_wire:
  assumes "length xs \<le> 65535" and "\<And>x w. x \<in> set xs \<Longrightarrow> wi wr x w = wr (enc x) w"
  shows "write_vec wi wr xs w = wr (to_le_bytes (of_nat (length xs) :: u16) @ concat (map enc xs)) w"
proof -
  have "write_each (wi wr) xs = wr (concat (map enc xs))"
    using write_each_wire [of xs "wi wr" enc] assms(2) by blast
  with assms(1) show ?thesis by (simp add: write_vec_def write_num_def)
qed

lemma write_byte_vec_wire: "length bs \<le> 65535 \<Longrightarrow> write_vec write_num wr bs w = wr (wire_block bs) w"
  by (subst write_vec_wire [where enc = to_le_bytes])
     (auto simp: write_num_def wire_block_def concat_to_le_bytes_u8)

lemma write_hash_set_wire:
  assumes "length xs \<le> 65535" and "\<And>x w. x \<in> set xs \<Longrightarrow> wi wr x w = wr (enc x) w"
  shows "write_hash_set wi wr xs w =
         wr (to_le_bytes (of_nat (length xs) :: u16) @ concat (map enc xs)) w"
proof -
  have "write_each (wi wr) xs = wr (concat (map enc xs))"
    using write_each_wire [of xs "wi wr" enc] assms(2) by blast
  with assms(1) show ?thesis by (simp add: write_hash_set_def write_num_def)
qed

lemma write_uuid_wire: "write_uuid wr u w = wr u w"
  by (simp add: write_uuid_def)

lemma write_option_wire:
  assumes "\<And>w. v = Some x \<Longrightarrow> wi wr x w = wr (enc x) w" and "v = Some x \<or> v = None"
  shows "write_option wi wr v w = wr (case v of None \<Rightarrow> [0] | Some x \<Rightarrow> 1 # enc x) w"
proof (cases v)
  case None
  then show ?thesis by (simp add: write_option_def)
next
  case (Some y)
  with assms have "wi wr y = wr (enc y)" by auto
  then show ?thesis
    using Some sink_then [of "[1]" w "enc y"] by (simp add: write_option_def)
qed

end

subsection \<open>Readers\<close>

lemma read_num_cur_iff [simp]:
  assumes "8 dvd LENGTH('a::len)"
  shows "read_num (cur pre rest) = Ok (v :: 'a word, c) \<longleftrightarrow>
     (\<exists>post. rest = to_le_bytes v @ post \<and> c = cur (pre @ to_le_bytes v) post)"
proof
  assume "read_num (cur pre rest) = Ok (v, c)"
  then obtain bs where "read_exact (LENGTH('a) div 8) (cur pre rest) = Ok (bs, c)"
    and v: "v = from_le_bytes bs"
    by (auto simp: read_num_def res_dest)
  then obtain post where "rest = bs @ post" "length bs = LENGTH('a) div 8" "c = cur (pre @ bs) post"
    by (auto simp: read_exact_cur_iff)
  then show "\<exists>post. rest = to_le_bytes v @ post \<and> c = cur (pre @ to_le_bytes v) post"
    using assms v by (auto simp: to_from_le_bytes)
next
  assume "\<exists>post. rest = to_le_bytes v @ post \<and> c = cur (pre @ to_le_bytes v) post"
  then show "read_num (cur pre rest) = Ok (v, c)"
    using assms by (auto simp: read_num_def)
qed

lemma read_num_cur [simp]:
  "8 dvd LENGTH('a::len) \<Longrightarrow>
   read_num (cur pre (to_le_bytes v @ post)) = Ok (v :: 'a word, cur (pre @ to_le_bytes v) post)"
  by simp

lemma read_num_not_Panic [simp]: "read_num c \<noteq> (Panic :: ('a::len word \<times> cursor, encoding_error) res)"
  by (simp add: read_num_def split: prod.splits)

lemma num_canonical:
  assumes "8 dvd LENGTH('a::len)"
  shows "canonical_type num_size to_le_bytes (read_num :: 'a word decoder) (\<lambda>_. True)"
  using assms by (intro canonical_typeI) (auto simp: num_size_def)

interpretation u8: canonical_type num_size to_le_bytes "read_num :: u8 decoder" "\<lambda>_. True"
  by (rule num_canonical) simp

interpretation u16: canonical_type num_size to_le_bytes "read_num :: u16 decoder" "\<lambda>_. True"
  by (rule num_canonical) simp

interpretation u32: canonical_type num_size to_le_bytes "read_num :: u32 decoder" "\<lambda>_. True"
  by (rule num_canonical) simp

interpretation u64: canonical_type num_size to_le_bytes "read_num :: u64 decoder" "\<lambda>_. True"
  by (rule num_canonical) simp

lemma read_bool_cur_iff [simp]:
  "read_bool (cur pre rest) = Ok (v, c) \<longleftrightarrow>
     (\<exists>post. rest = wire_bool v @ post \<and> c = cur (pre @ wire_bool v) post)"
  by (cases rest) (auto simp: read_bool_def wire_bool_def read_exact_short)

lemma read_bool_not_Panic [simp]: "read_bool c \<noteq> Panic"
  by (simp add: read_bool_def split: prod.splits)

interpretation bool: canonical_type bool_size wire_bool read_bool "\<lambda>_. True"
  by (rule canonical_typeI) (auto simp: bool_size_def wire_bool_def)

lemma wire_block_split:
  "(\<exists>len :: u16. \<exists>post. rest = to_le_bytes len @ post \<and>
      (\<exists>post'. post = bs @ post' \<and> length bs = unat len \<and> c = cur (pre @ to_le_bytes len @ bs) post'))
   \<longleftrightarrow> block_ok bs \<and> (\<exists>post. rest = wire_block bs @ post \<and> c = cur (pre @ wire_block bs) post)"
proof -
  have "block_ok bs \<and> of_nat (length bs) = len" if "length bs = unat len" for len :: u16
    using that unsigned_less [of len, where 'a = nat] by (auto simp: block_ok_def)
  then show ?thesis
    by (auto simp: wire_block_def block_ok_def) (metis append.assoc unat_of_nat_u16)
qed

lemma read_bytes_cur_iff [simp]:
  "read_bytes (cur pre rest) = Ok (bs, c) \<longleftrightarrow>
     block_ok bs \<and> (\<exists>post. rest = wire_block bs @ post \<and> c = cur (pre @ wire_block bs) post)"
  by (subst wire_block_split [symmetric]) (auto simp: read_bytes_def res_dest read_exact_cur_iff)

lemma read_each_u8:
  "n \<le> length rest \<Longrightarrow> read_each (read_num :: u8 decoder) n (cur pre rest) = read_exact n (cur pre rest)"
proof (induction n arbitrary: pre rest)
  case 0
  then show ?case by (simp add: read_exact_def cur_def)
next
  case (Suc n)
  then obtain b bs where rest: "rest = b # bs" and n: "n \<le> length bs"
    by (cases rest) auto
  have "read_num (cur pre (b # bs)) = Ok (b, cur (pre @ [b]) bs)"
    by (simp add: to_le_bytes_byte)
  then show ?case
    using Suc.IH [OF n, of "pre @ [b]"] n by (simp add: rest read_exact_def cur_def)
qed

lemma read_byte_vec_cur_iff [simp]:
  "read_vec (read_num :: u8 decoder) (cur pre rest) = Ok (bs, c) \<longleftrightarrow>
     block_ok bs \<and> (\<exists>post. rest = wire_block bs @ post \<and> c = cur (pre @ wire_block bs) post)"
proof -
  have "read_each (read_num :: u8 decoder) n (cur p r) = Ok (bs, c) \<longleftrightarrow>
      read_exact n (cur p r) = Ok (bs, c)" for n p r
    by (cases "n \<le> length r")
       (auto simp: read_each_u8 read_exact_short dest!: u8.read_each_inv
             simp: concat_to_le_bytes_u8)
  then show ?thesis
    by (subst wire_block_split [symmetric]) (auto simp: read_vec_def res_dest read_exact_cur_iff)
qed

lemma from_utf8_simps [simp]:
  "from_utf8 bs = Ok s \<longleftrightarrow> utf8_valid bs \<and> s = bs"
  "from_utf8 bs \<noteq> Panic"
  by (auto simp: from_utf8_def)

lemma read_string_eq: "read_string c = res_bind (read_bytes c) (\<lambda>(s, c). res_bind (from_utf8 s) (\<lambda>s. Ok (s, c)))"
  by (simp add: read_string_def read_bytes_def case_prod_beta')

lemma read_string_cur_iff [simp]:
  "read_string (cur pre rest) = Ok (s, c) \<longleftrightarrow>
     string_ok s \<and> (\<exists>post. rest = wire_block s @ post \<and> c = cur (pre @ wire_block s) post)"
  by (auto simp: read_string_eq res_dest string_ok_def block_ok_def)

lemma block_readers_not_Panic [simp]:
  "read_bytes c \<noteq> Panic"
  "read_string c \<noteq> Panic"
  "read_vec (read_num :: u8 decoder) c \<noteq> Panic"
  by (auto simp: read_bytes_def read_string_def read_vec_def u8.read_each_safe split: prod.splits)

interpretation byte_vec: canonical_type "vec_size num_size" wire_block "read_vec (read_num :: u8 decoder)" block_ok
  by (rule canonical_typeI) (auto simp: vec_size_def num_size_def sum_list_triv)

interpretation bytes: canonical_type bytes_size wire_block read_bytes block_ok
  by (rule canonical_typeI) (auto simp: bytes_size_def)

interpretation string: canonical_type string_size wire_block read_string string_ok
  by (rule canonical_typeI) (auto simp: string_size_def)

interpretation uuid: canonical_type uuid_size "\<lambda>u. u" read_uuid uuid_ok
  by (rule canonical_typeI) (auto simp: uuid_size_def uuid_ok_def read_uuid_def read_exact_cur_iff)

subsection \<open>Measuring\<close>

lemma block_read_size [simp]:
  assumes "block_ok s"
  shows "vec_read_size (cur pre (wire_block s @ post)) =
           Ok (length s + 2, cur (pre @ to_le_bytes (of_nat (length s) :: u16)) (s @ post))"
    and "bytes_read_size (cur pre (wire_block s @ post)) =
           Ok (length s + 2, cur (pre @ to_le_bytes (of_nat (length s) :: u16)) (s @ post))"
    and "string_read_size (cur pre (wire_block s @ post)) =
           Ok (length s + 2, cur (pre @ to_le_bytes (of_nat (length s) :: u16)) (s @ post))"
  using assms
  by (simp_all add: vec_read_size_def bytes_read_size_def string_read_size_def wire_block_def block_ok_def)

lemma string_ok_block: "string_ok s \<Longrightarrow> block_ok s"
  by (simp add: string_ok_def block_ok_def)

lemma block_wire_split: "wire_block s = to_le_bytes (of_nat (length s) :: u16) @ s"
  by (simp add: wire_block_def)

interpretation byte_vec_m: measured_type "vec_size num_size" wire_block "read_vec (read_num :: u8 decoder)" block_ok vec_read_size
  by unfold_locales (auto simp: vec_size_def num_size_def sum_list_triv block_wire_split [symmetric])

interpretation bytes_m: measured_type bytes_size wire_block read_bytes block_ok bytes_read_size
  by unfold_locales (auto simp: bytes_size_def block_wire_split [symmetric])

interpretation string_m: measured_type string_size wire_block read_string string_ok string_read_size
  by unfold_locales (auto simp: string_size_def string_ok_block block_wire_split [symmetric])

text \<open>
  A fixed-width type reports its width and leaves the cursor where it was.
\<close>

lemma num_measured:
  assumes "8 dvd LENGTH('a::len)"
  shows "measured_type num_size to_le_bytes (read_num :: 'a word decoder) (\<lambda>_. True) (num_read_size TYPE('a))"
proof -
  show ?thesis
    using num_canonical [OF assms]
    by (intro measured_type.intro) (auto simp: canonical_type_def measured_type_axioms_def num_size_def num_read_size_def)
qed

section \<open>Properties\<close>

text \<open>Writing a string to memory either gives exactly \<open>size\<close> bytes that decode to the
  string anywhere in a buffer, with the cursor behind them, or it is refused because it is longer
  than a two-byte prefix can say, and then the error names the length and the limit.\<close>

theorem string_codec:
  assumes "utf8_valid s"
  shows "case write_to_bytes write_string s of
           Ok bs \<Rightarrow> length s \<le> 65535 \<and> length bs = string_size s
             \<and> read_string (cur pre (bs @ post)) = Ok (s, cur (pre @ bs) post)
             \<and> string_read_from_bytes (bs @ post) = Ok s
         | Err e \<Rightarrow> 65535 < length s \<and> e = TypeTooLarge ''String'' (length s) 65535
         | Panic \<Rightarrow> False"
proof (cases "length s \<le> 65535")
  case True
  have blk: "read_string (cur pre (wire_block s @ post)) = Ok (s, cur (pre @ wire_block s) post)"
    using True assms by (simp add: string_ok_def)
  have hd: "num_read_from_bytes (take 2 (wire_block s @ post)) = Ok (of_nat (length s) :: u16)"
    by (simp add: num_read_from_bytes_def wire_block_def)
  have bd: "take (length s) (drop 2 (wire_block s @ post)) = s"
    using slice_mid [of "to_le_bytes (of_nat (length s) :: u16)" 2 s "length s" post]
    by (simp add: wire_block_def)
  have "string_read_from_bytes (wire_block s @ post) = Ok s"
    using True assms unfolding string_read_from_bytes_def hd res_bind.simps
    by (simp add: bd del: drop_append take_append)
  moreover have "write_to_bytes write_string s = Ok (wire_block s)"
    using True by (simp add: write_to_bytes_def vec.write_string_wire vec_write_def)
  ultimately show ?thesis using True blk by (simp add: string_size_def)
qed (simp add: write_to_bytes_def write_string_def length_is_allowed_Err)

theorem string_codec_witness:
  "case write_to_bytes write_string [0x68, 0x69] of
     Ok bs \<Rightarrow> length ([0x68, 0x69] :: u8 list) \<le> 65535 \<and> length bs = string_size [0x68, 0x69]
       \<and> read_string (cur [9] (bs @ [7])) = Ok ([0x68, 0x69], cur ([9] @ bs) [7])
       \<and> string_read_from_bytes (bs @ [7]) = Ok [0x68, 0x69]
   | Err e \<Rightarrow> 65535 < length ([0x68, 0x69] :: u8 list)
       \<and> e = TypeTooLarge ''String'' (length ([0x68, 0x69] :: u8 list)) 65535
   | Panic \<Rightarrow> False"
  by (rule string_codec) simp

text \<open>Decoding a string accepts nothing but what the writer produces: it returns a string
  exactly when the bytes at the cursor are the encoding of that valid string, and it never panics
  on any input. The slice form, in contrast, panics exactly on a slice of fewer than two bytes.\<close>

theorem string_read_canonical:
  "(read_string (cur pre rest) = Ok (s, c) \<longleftrightarrow>
      utf8_valid s \<and> (\<exists>bs post. write_to_bytes write_string s = Ok bs \<and> rest = bs @ post
        \<and> c = cur (pre @ bs) post))
   \<and> read_string (cur pre rest) \<noteq> Panic
   \<and> (string_read_from_bytes rest = Panic \<longleftrightarrow> length rest < 2)"
proof -
  have w: "write_to_bytes write_string s = Ok bs \<longleftrightarrow> length s \<le> 65535 \<and> bs = wire_block s" for bs
  proof (cases "length s \<le> 65535")
    case True
    then show ?thesis
      by (auto simp: write_to_bytes_def vec.write_string_wire vec_write_def)
  qed (simp add: write_to_bytes_def write_string_def length_is_allowed_Err)
  have "string_read_from_bytes rest = Panic \<longleftrightarrow> length rest < 2"
    by (auto simp: string_read_from_bytes_def num_read_from_bytes_def)
  with w show ?thesis by (auto simp: string_ok_def)
qed

end
