(* ===== verification/Header.thy ===== *)
theory Header
  imports Primitives
begin

text \<open>
  \<open>src/src/compression_types.rs\<close>, \<open>compression_types/types.rs\<close> and \<open>src/src/header.rs\<close>: the
  five-byte compression field and the 32-byte object header, with the seek helpers of
  \<open>src/src/lib.rs\<close> that use it.
\<close>

section \<open>Compression types\<close>

datatype compression_types =
    NoCompression
  | ZSTD i32
  | Gzip u32

definition compression_size :: "compression_types \<Rightarrow> nat" where
  "compression_size ct = 5"

definition compression_read_size :: "nat decoder" where
  "compression_read_size c = Ok (5, c)"

definition write_zstd :: "(i32, 'w) encoder" where
  "write_zstd wr level w = res_bind (wr [1] w) (\<lambda>w. wr (to_le_bytes level) w)"

definition write_gzip :: "(u32, 'w) encoder" where
  "write_gzip wr level w = res_bind (wr [2] w) (\<lambda>w. wr (to_le_bytes level) w)"

definition write_no_compression :: "(unit, 'w) encoder" where
  "write_no_compression wr u w = wr [0, 0, 0, 0, 0] w"

text \<open>The five bytes of one codec, from a reader and from a slice; both check the discriminator.\<close>

definition read_zstd :: "i32 decoder" where
  "read_zstd c = res_bind (read_exact 5 c) (\<lambda>(buffer, c).
     if buffer ! 0 \<noteq> 1 then Err (InvalidCompressionType (buffer ! 0))
     else Ok (from_le_bytes (take 4 (drop 1 buffer)), c))"

definition zstd_read_from_bytes :: "u8 list \<Rightarrow> (i32, encoding_error) res" where
  "zstd_read_from_bytes bytes =
     (if length bytes < 5 then Err UnexpectedEof
      else if bytes ! 0 \<noteq> 1 then Err (InvalidCompressionType (bytes ! 0))
      else Ok (from_le_bytes (take 4 (drop 1 bytes))))"

definition read_gzip :: "u32 decoder" where
  "read_gzip c = res_bind (read_exact 5 c) (\<lambda>(buffer, c).
     if buffer ! 0 \<noteq> 2 then Err (InvalidCompressionType (buffer ! 0))
     else Ok (from_le_bytes (take 4 (drop 1 buffer)), c))"

definition gzip_read_from_bytes :: "u8 list \<Rightarrow> (u32, encoding_error) res" where
  "gzip_read_from_bytes bytes =
     (if length bytes < 5 then Err UnexpectedEof
      else if bytes ! 0 \<noteq> 2 then Err (InvalidCompressionType (bytes ! 0))
      else Ok (from_le_bytes (take 4 (drop 1 bytes))))"

definition read_no_compression :: "unit decoder" where
  "read_no_compression c = res_bind (read_exact 5 c) (\<lambda>(buffer, c).
     if buffer ! 0 \<noteq> 0 then Err (InvalidCompressionType (buffer ! 0)) else Ok ((), c))"

definition no_compression_read_from_bytes :: "u8 list \<Rightarrow> (unit, encoding_error) res" where
  "no_compression_read_from_bytes bytes =
     (if length bytes < 5 then Err UnexpectedEof
      else if bytes ! 0 \<noteq> 0 then Err (InvalidCompressionType (bytes ! 0))
      else Ok ())"

definition compression_try_from :: "u8 list \<Rightarrow> (compression_types, encoding_error) res" where
  "compression_try_from value =
     (if value ! 0 = 0 then Ok NoCompression
      else if value ! 0 = 1 then res_bind (zstd_read_from_bytes value) (\<lambda>level. Ok (ZSTD level))
      else if value ! 0 = 2 then res_bind (gzip_read_from_bytes value) (\<lambda>level. Ok (Gzip level))
      else Err (InvalidCompressionType (value ! 0)))"

definition compression_try_from_slice :: "u8 list \<Rightarrow> (compression_types, encoding_error) res" where
  "compression_try_from_slice value =
     (if length value < 5 then Err UnexpectedEof else compression_try_from (take 5 value))"

definition write_compression :: "(compression_types, 'w) encoder" where
  "write_compression wr ct w =
     (case ct of
        NoCompression \<Rightarrow> write_no_compression wr () w
      | ZSTD level \<Rightarrow> write_zstd wr level w
      | Gzip level \<Rightarrow> write_gzip wr level w)"

definition read_compression :: "compression_types decoder" where
  "read_compression c = res_bind (read_exact 5 c) (\<lambda>(buffer, c).
     res_bind (compression_try_from buffer) (\<lambda>ct. Ok (ct, c)))"

definition compression_read_from_bytes :: "u8 list \<Rightarrow> (compression_types, encoding_error) res" where
  "compression_read_from_bytes bytes =
     (if length bytes < 5 then Err UnexpectedEof else compression_try_from (take 5 bytes))"

definition wire_compression :: "compression_types \<Rightarrow> u8 list" where
  "wire_compression ct =
     (case ct of
        NoCompression \<Rightarrow> [0, 0, 0, 0, 0]
      | ZSTD level \<Rightarrow> 1 # to_le_bytes level
      | Gzip level \<Rightarrow> 2 # to_le_bytes level)"

lemma length_wire_compression [simp]: "length (wire_compression ct) = 5"
  by (simp add: wire_compression_def split: compression_types.splits)

lemma compression_try_from_wire [simp]: "compression_try_from (wire_compression ct @ post) = Ok ct"
  by (simp add: compression_try_from_def wire_compression_def zstd_read_from_bytes_def
      gzip_read_from_bytes_def split: compression_types.splits)

lemma compression_try_from_wire_end [simp]: "compression_try_from (wire_compression ct) = Ok ct"
  using compression_try_from_wire [of ct "[]"] by simp

context byte_sink
begin

lemma write_compression_wire: "write_compression wr ct w = wr (wire_compression ct) w"
proof (cases ct)
  case (ZSTD level)
  then show ?thesis
    using sink_then [of "[1]" w "to_le_bytes level"]
    by (simp add: write_compression_def write_zstd_def wire_compression_def)
next
  case (Gzip level)
  then show ?thesis
    using sink_then [of "[2]" w "to_le_bytes level"]
    by (simp add: write_compression_def write_gzip_def wire_compression_def)
qed (simp add: write_compression_def write_no_compression_def wire_compression_def)

end

interpretation compression: wire_type compression_size wire_compression read_compression "\<lambda>_. True"
  by unfold_locales (auto simp: compression_size_def read_compression_def)

section \<open>The object header\<close>

datatype file_sections = SectionHeader | SectionMetadata | SectionTags | SectionContent

record object_header =
  version :: u8
  compression_type :: compression_types
  h_tags_start :: u16
  h_content_start :: u32
  content_length :: u64
  bit_flags :: u8

definition MAGIC_VALUE :: "u8 list" where
  "MAGIC_VALUE = [0x54, 0x55, 0x58]"

definition CURRENT_VERSION :: u8 where
  "CURRENT_VERSION = 0"

definition header_default :: object_header where
  "header_default = \<lparr>version = CURRENT_VERSION, compression_type = NoCompression,
     h_tags_start = 0, h_content_start = 0, content_length = 0, bit_flags = 0\<rparr>"

definition header_tags_space :: "object_header \<Rightarrow> (nat, 'e) res" where
  "header_tags_space h = usize_sub (unat (h_content_start h)) (unat (h_tags_start h))"

definition meta_and_tag_space :: "object_header \<Rightarrow> (nat, 'e) res" where
  "meta_and_tag_space h = usize_sub (unat (h_content_start h)) 32"

text \<open>\<open>SeekFrom::Start\<close> of a section, as the offset.\<close>

definition header_seek :: "object_header \<Rightarrow> file_sections \<Rightarrow> nat" where
  "header_seek h section =
     (case section of
        SectionHeader \<Rightarrow> 0
      | SectionMetadata \<Rightarrow> 32
      | SectionTags \<Rightarrow> unat (h_tags_start h)
      | SectionContent \<Rightarrow> unat (h_content_start h))"

text \<open>Indexing past the end of the slice panics, before and after the magic is compared.\<close>

definition header_entry :: "u8 list \<Rightarrow> (u8, encoding_error) res" where
  "header_entry entry =
     (if length entry < 3 then Panic
      else if take 3 entry \<noteq> MAGIC_VALUE then Err InvalidMagic
      else if length entry < 4 then Panic
      else Ok (entry ! 3))"

definition header_size :: "object_header \<Rightarrow> nat" where
  "header_size h = 32"

definition header_const_size :: "object_header \<Rightarrow> nat option" where
  "header_const_size h = Some 32"

definition header_read_size :: "nat decoder" where
  "header_read_size c = Ok (32, c)"

definition header_read_from_bytes :: "u8 list \<Rightarrow> (object_header, encoding_error) res" where
  "header_read_from_bytes content =
     (if length content < 32 then Err UnexpectedEof
      else res_bind (header_entry (take 4 content)) (\<lambda>version.
        if version \<noteq> CURRENT_VERSION then Err (UnsupportedVersion version)
        else res_bind (compression_try_from_slice (take 5 (drop 4 content))) (\<lambda>ct.
          Ok \<lparr>version = version,
              compression_type = ct,
              h_tags_start = from_le_bytes (take 2 (drop 9 content)),
              h_content_start = from_le_bytes (take 4 (drop 11 content)),
              content_length = from_le_bytes (take 8 (drop 15 content)),
              bit_flags = content ! 23\<rparr>)))"

definition read_header :: "object_header decoder" where
  "read_header c = res_bind (read_exact 32 c) (\<lambda>(content, c).
     res_bind (header_read_from_bytes content) (\<lambda>h. Ok (h, c)))"

definition header_skip :: "cursor \<Rightarrow> (cursor, encoding_error) res" where
  "header_skip c = Ok (seek_start 32 c)"

definition write_header :: "(object_header, 'w) encoder" where
  "write_header wr h w =
     res_bind (wr MAGIC_VALUE w) (\<lambda>w.
     res_bind (wr [version h] w) (\<lambda>w.
     res_bind (write_compression wr (compression_type h) w) (\<lambda>w.
     res_bind (write_num wr (h_tags_start h) w) (\<lambda>w.
     res_bind (write_num wr (h_content_start h) w) (\<lambda>w.
     res_bind (write_num wr (content_length h) w) (\<lambda>w.
     res_bind (wr [bit_flags h] w) (\<lambda>w.
     if header_const_size h \<noteq> None then
       (let padding = 32 - (length MAGIC_VALUE + 1 + 5 + 2 + 4 + 8 + 1)
        in if padding > 0 then wr (replicate padding 0) w else Ok w)
     else Ok w)))))))"

text \<open>The seek helpers on a reader: a section other than the first two needs the header first.\<close>

definition seek_to_section_with_header :: "file_sections \<Rightarrow> object_header \<Rightarrow> cursor \<Rightarrow> (cursor, encoding_error) res" where
  "seek_to_section_with_header section h c = Ok (seek_start (header_seek h section) c)"

definition seek_to_section :: "file_sections \<Rightarrow> cursor \<Rightarrow> (cursor, encoding_error) res" where
  "seek_to_section section c =
     (case section of
        SectionHeader \<Rightarrow> Ok (seek_start 0 c)
      | SectionMetadata \<Rightarrow> Ok (seek_start 32 c)
      | other \<Rightarrow>
          res_bind (read_header (seek_start 0 c)) (\<lambda>(h, c). seek_to_section_with_header other h c))"

section \<open>The layout of the header\<close>

definition wire_header :: "object_header \<Rightarrow> u8 list" where
  "wire_header h =
     [0x54, 0x55, 0x58] @ [version h] @ wire_compression (compression_type h)
     @ to_le_bytes (h_tags_start h) @ to_le_bytes (h_content_start h)
     @ to_le_bytes (content_length h) @ [bit_flags h] @ replicate 8 0"

definition header_ok :: "object_header \<Rightarrow> bool" where
  "header_ok h \<longleftrightarrow> version h = CURRENT_VERSION"

lemma length_wire_header [simp]: "length (wire_header h) = 32"
  by (simp add: wire_header_def)

context byte_sink
begin

lemma write_header_wire: "write_header wr h w = wr (wire_header h) w"
  by (simp add: write_header_def MAGIC_VALUE_def header_const_size_def write_num_wire
      write_compression_wire wire_header_def)

end

text \<open>
  Every reserved byte and flag is free when the header is read back: two buffers that agree on the
  first 24 bytes hold the same header.
\<close>

lemma header_entry_wire: "header_entry (take 4 (wire_header h @ post)) = Ok (version h)"
  by (simp add: header_entry_def wire_header_def MAGIC_VALUE_def)

lemma header_fields_wire:
  "take 5 (drop 4 (wire_header h @ post)) = wire_compression (compression_type h)"
  "take 2 (drop 9 (wire_header h @ post)) = to_le_bytes (h_tags_start h)"
  "take 4 (drop 11 (wire_header h @ post)) = to_le_bytes (h_content_start h)"
  "take 8 (drop 15 (wire_header h @ post)) = to_le_bytes (content_length h)"
  "(wire_header h @ post) ! 23 = bit_flags h"
proof -
  define a b c d e where "a = [0x54, 0x55, 0x58, version h]"
    and "b = a @ wire_compression (compression_type h)"
    and "c = b @ to_le_bytes (h_tags_start h)"
    and "d = c @ to_le_bytes (h_content_start h)"
    and "e = d @ to_le_bytes (content_length h)"
  note defs = a_def b_def c_def d_def e_def
  have "length a = 4" "length b = 9" "length c = 11" "length d = 15" "length e = 23"
    by (simp_all add: defs)
  note [simp] = this
  have w: "wire_header h @ post = e @ bit_flags h # (replicate 8 0 @ post)"
    "wire_header h @ post = d @ to_le_bytes (content_length h) @ (bit_flags h # replicate 8 0 @ post)"
    "wire_header h @ post = c @ to_le_bytes (h_content_start h) @ (drop 15 (wire_header h @ post))"
    "wire_header h @ post = b @ to_le_bytes (h_tags_start h) @ (drop 11 (wire_header h @ post))"
    "wire_header h @ post = a @ wire_compression (compression_type h) @ (drop 9 (wire_header h @ post))"
    by (simp_all add: wire_header_def defs)
  show "(wire_header h @ post) ! 23 = bit_flags h"
    by (subst w(1)) (rule nth_mid, simp)
  show "take 8 (drop 15 (wire_header h @ post)) = to_le_bytes (content_length h)"
    by (subst w(2)) (rule slice_mid, simp_all)
  show "take 4 (drop 11 (wire_header h @ post)) = to_le_bytes (h_content_start h)"
    by (subst w(3)) (rule slice_mid, simp_all)
  show "take 2 (drop 9 (wire_header h @ post)) = to_le_bytes (h_tags_start h)"
    by (subst w(4)) (rule slice_mid, simp_all)
  show "take 5 (drop 4 (wire_header h @ post)) = wire_compression (compression_type h)"
    by (subst w(5)) (rule slice_mid, simp_all)
qed

lemma compression_try_from_slice_wire [simp]:
  "compression_try_from_slice (wire_compression ct) = Ok ct"
  by (simp add: compression_try_from_slice_def)

lemma header_read_from_bytes_wire [simp]:
  assumes "header_ok h"
  shows "header_read_from_bytes (wire_header h @ post) = Ok h"
proof -
  have "\<not> length (wire_header h @ post) < 32" by simp
  then show ?thesis
    using assms
    unfolding header_read_from_bytes_def header_entry_wire header_fields_wire header_ok_def
    by simp
qed

lemma header_read_from_bytes_wire_end [simp]:
  "header_ok h \<Longrightarrow> header_read_from_bytes (wire_header h) = Ok h"
  using header_read_from_bytes_wire [of h "[]"] by simp

interpretation header: wire_type header_size wire_header read_header header_ok
  by unfold_locales (auto simp: header_size_def read_header_def)

lemma compression_not_Panic [simp]:
  "compression_try_from bs \<noteq> Panic"
  "compression_try_from_slice bs \<noteq> Panic"
  by (auto simp: compression_try_from_slice_def compression_try_from_def zstd_read_from_bytes_def
      gzip_read_from_bytes_def)

lemma header_read_from_bytes_not_Panic [simp]: "header_read_from_bytes bs \<noteq> Panic"
  by (simp add: header_read_from_bytes_def header_entry_def)

lemma read_header_not_Panic [simp]: "read_header c \<noteq> Panic"
  by (simp add: read_header_def split: prod.splits)

lemma byte_le_2: "\<not> b > 2 \<longleftrightarrow> b = 0 \<or> b = 1 \<or> b = (2 :: u8)"
proof
  assume "\<not> b > 2"
  then have "unat b \<le> 2" by (simp add: word_less_nat_alt)
  then have "unat b = 0 \<or> unat b = 1 \<or> unat b = 2" by linarith
  then show "b = 0 \<or> b = 1 \<or> b = 2"
    by (auto simp: word_unat_eq_iff)
qed auto

section \<open>Properties\<close>

text \<open>C22: Writing a header of the current version gives 32 bytes, in the documented layout, and
  both decoders (from a reader at any position, and from a slice) give the same header back.\<close>

theorem header_round_trip:
  assumes "version h = CURRENT_VERSION"
  shows "\<exists>bs. write_to_bytes write_header h = Ok bs \<and> length bs = header_size h
    \<and> bs = [0x54, 0x55, 0x58, version h] @ wire_compression (compression_type h)
          @ to_le_bytes (h_tags_start h) @ to_le_bytes (h_content_start h)
          @ to_le_bytes (content_length h) @ [bit_flags h] @ replicate 8 0
    \<and> read_header (cur pre (bs @ post)) = Ok (h, cur (pre @ bs) post)
    \<and> header_read_from_bytes (bs @ post) = Ok h"
proof (intro exI conjI)
  show "write_to_bytes write_header h = Ok (wire_header h)"
    by (simp add: write_to_bytes_def vec.write_header_wire vec_write_def)
  show "wire_header h = [0x54, 0x55, 0x58, version h] @ wire_compression (compression_type h)
          @ to_le_bytes (h_tags_start h) @ to_le_bytes (h_content_start h)
          @ to_le_bytes (content_length h) @ [bit_flags h] @ replicate 8 0"
    by (simp add: wire_header_def)
qed (use assms in \<open>simp_all add: header_ok_def header.rd_enc header_size_def\<close>)

theorem header_round_trip_witness:
  "\<exists>bs. write_to_bytes write_header (header_default\<lparr>compression_type := ZSTD 3\<rparr>) = Ok bs
    \<and> length bs = header_size (header_default\<lparr>compression_type := ZSTD 3\<rparr>)
    \<and> bs = [0x54, 0x55, 0x58, version (header_default\<lparr>compression_type := ZSTD 3\<rparr>)]
          @ wire_compression (compression_type (header_default\<lparr>compression_type := ZSTD 3\<rparr>))
          @ to_le_bytes (h_tags_start (header_default\<lparr>compression_type := ZSTD 3\<rparr>))
          @ to_le_bytes (h_content_start (header_default\<lparr>compression_type := ZSTD 3\<rparr>))
          @ to_le_bytes (content_length (header_default\<lparr>compression_type := ZSTD 3\<rparr>))
          @ [bit_flags (header_default\<lparr>compression_type := ZSTD 3\<rparr>)] @ replicate 8 0
    \<and> read_header (cur [1] (bs @ [2])) =
        Ok (header_default\<lparr>compression_type := ZSTD 3\<rparr>, cur ([1] @ bs) [2])
    \<and> header_read_from_bytes (bs @ [2]) = Ok (header_default\<lparr>compression_type := ZSTD 3\<rparr>)"
  by (rule header_round_trip) (simp add: header_default_def)

text \<open>C34: The outcome of decoding a header, on every input: too short, wrong magic, a version
  other than 0 and an unknown codec are reported in that order, and nothing panics. What is
  accepted has its fields at the documented offsets; the reserved bytes are not looked at.\<close>

theorem header_decode_outcome:
  "header_read_from_bytes bs =
     (if length bs < 32 then Err UnexpectedEof
      else if take 3 bs \<noteq> [0x54, 0x55, 0x58] then Err InvalidMagic
      else if bs ! 3 \<noteq> 0 then Err (UnsupportedVersion (bs ! 3))
      else if bs ! 4 > 2 then Err (InvalidCompressionType (bs ! 4))
      else Ok \<lparr>version = 0,
               compression_type =
                 (if bs ! 4 = 0 then NoCompression
                  else if bs ! 4 = 1 then ZSTD (from_le_bytes (take 4 (drop 5 bs)))
                  else Gzip (from_le_bytes (take 4 (drop 5 bs)))),
               h_tags_start = from_le_bytes (take 2 (drop 9 bs)),
               h_content_start = from_le_bytes (take 4 (drop 11 bs)),
               content_length = from_le_bytes (take 8 (drop 15 bs)),
               bit_flags = bs ! 23\<rparr>)"
proof (cases "length bs < 32")
  case True
  then show ?thesis by (simp add: header_read_from_bytes_def)
next
  case False
  have small: "\<not> b > 2 \<longleftrightarrow> b = 0 \<or> b = 1 \<or> b = 2" for b :: u8
    by (rule byte_le_2)
  from False have entry: "header_entry (take 4 bs) =
      (if take 3 bs \<noteq> MAGIC_VALUE then Err InvalidMagic else Ok (bs ! 3))"
    by (simp add: header_entry_def min_def)
  from False have ct: "compression_try_from_slice (take 5 (drop 4 bs)) =
      (if bs ! 4 = 0 then Ok NoCompression
       else if bs ! 4 = 1 then Ok (ZSTD (from_le_bytes (take 4 (drop 5 bs))))
       else if bs ! 4 = 2 then Ok (Gzip (from_le_bytes (take 4 (drop 5 bs))))
       else Err (InvalidCompressionType (bs ! 4)))"
    by (simp add: compression_try_from_slice_def compression_try_from_def zstd_read_from_bytes_def
        gzip_read_from_bytes_def drop_take min_def)
  show ?thesis
    using False small [of "bs ! 4"]
    by (auto simp: header_read_from_bytes_def entry ct MAGIC_VALUE_def CURRENT_VERSION_def)
qed

end
