(* ===== verification/Layout.thy ===== *)
theory Layout
  imports Header
begin

text \<open>
  \<open>src/src/fs/error.rs\<close> and \<open>src/src/fs/layout.rs\<close>: the errors of the file layer, and where the
  sections of an object begin. Offsets are \<open>usize\<close> values with the overflow of each operation
  written out; a section that does not fit the \<open>u16\<close> and \<open>u32\<close> header fields is an error.
\<close>

section \<open>Errors of the file layer\<close>

text \<open>A path is the list of its components; the last one is the file name.\<close>

type_synonym path = "string list"

datatype object_file_error =
    Encoding encoding_error
  | IO io_kind
  | ReservedSpaceExceeded nat nat
  | SectionOffsetTooLarge nat nat
  | RangeOutOfBounds u64 u64 u64
  | ReadOnly path
  | UnsupportedCompression compression_types
  | RangedReadOnCompressed

definition is_not_found :: "object_file_error \<Rightarrow> bool" where
  "is_not_found e =
     (case e of
        IO err \<Rightarrow> err = NotFound
      | Encoding (IOError err) \<Rightarrow> err = NotFound
      | _ \<Rightarrow> False)"

section \<open>Layouts\<close>

definition HEADER_SIZE :: nat where
  "HEADER_SIZE = 32"

definition DEFAULT_ALIGNMENT :: nat where
  "DEFAULT_ALIGNMENT = 32"

definition DEFAULT_METADATA_RESERVE :: nat where
  "DEFAULT_METADATA_RESERVE = 256"

definition DEFAULT_TAG_RESERVE :: nat where
  "DEFAULT_TAG_RESERVE = 256"

record section_layout =
  tags_start :: u16
  content_start :: u32

definition metadata_space :: "section_layout \<Rightarrow> (nat, 'e) res" where
  "metadata_space l = usize_sub (unat (tags_start l)) HEADER_SIZE"

definition tags_space :: "section_layout \<Rightarrow> (nat, 'e) res" where
  "tags_space l = usize_sub (unat (content_start l)) (unat (tags_start l))"

definition prefix_size :: "section_layout \<Rightarrow> nat" where
  "prefix_size l = unat (content_start l)"

record layout_options =
  metadata_reserve :: nat
  tag_reserve :: nat
  alignment :: nat
  min_content_start :: u32

definition layout_default :: layout_options where
  "layout_default = \<lparr>metadata_reserve = DEFAULT_METADATA_RESERVE, tag_reserve = DEFAULT_TAG_RESERVE,
     alignment = DEFAULT_ALIGNMENT, min_content_start = 0\<rparr>"

definition layout_packed :: layout_options where
  "layout_packed = \<lparr>metadata_reserve = 0, tag_reserve = 0, alignment = 1, min_content_start = 0\<rparr>"

text \<open>\<open>usize::div_ceil\<close> itself cannot overflow; the multiplication that follows it can.\<close>

definition div_ceil :: "nat \<Rightarrow> nat \<Rightarrow> nat" where
  "div_ceil a b = (if a mod b = 0 then a div b else a div b + 1)"

definition align_up :: "nat \<Rightarrow> nat \<Rightarrow> (nat, 'e) res" where
  "align_up n align = (let align = max align 1 in usize_mul (div_ceil n align) align)"

definition repartition :: "u32 \<Rightarrow> nat \<Rightarrow> nat \<Rightarrow> nat \<Rightarrow> (section_layout option, 'e) res" where
  "repartition cs metadata_size tags_size align =
     (let align = max align 1; content_start_usize = unat cs
      in res_bind (usize_add HEADER_SIZE metadata_size) (\<lambda>meta_end.
         res_bind (usize_add meta_end tags_size) (\<lambda>required.
         if required > content_start_usize then Ok None
         else res_bind (align_up meta_end align) (\<lambda>aligned.
              res_bind (usize_add aligned tags_size) (\<lambda>aligned_end.
              let start = (if aligned_end \<le> content_start_usize then aligned else meta_end)
              in if start > 65535 then Ok None
                 else Ok (Some \<lparr>tags_start = of_nat start, content_start = cs\<rparr>))))))"

definition compute :: "layout_options \<Rightarrow> nat \<Rightarrow> nat \<Rightarrow> (section_layout, object_file_error) res" where
  "compute opts metadata_size tags_size =
     (let align = max (alignment opts) 1
      in res_bind
           (if min_content_start opts > 0
            then repartition (min_content_start opts) metadata_size tags_size align
            else Ok None)
         (\<lambda>reused. case reused of
            Some layout \<Rightarrow> Ok layout
          | None \<Rightarrow>
              res_bind (usize_add HEADER_SIZE metadata_size) (\<lambda>a.
              res_bind (usize_add a (metadata_reserve opts)) (\<lambda>b.
              res_bind (align_up b align) (\<lambda>start.
              if start > 65535 then Err (SectionOffsetTooLarge start 65535)
              else
                res_bind (usize_add start tags_size) (\<lambda>d.
                res_bind (usize_add d (tag_reserve opts)) (\<lambda>e.
                res_bind (align_up e align) (\<lambda>f.
                res_bind (align_up (unat (min_content_start opts)) align) (\<lambda>g.
                let content = max f g
                in if content > 4294967295 then Err (SectionOffsetTooLarge content 4294967295)
                   else Ok \<lparr>tags_start = of_nat start, content_start = of_nat content\<rparr>)))))))))"

section \<open>Rounding\<close>

definition aligned :: "nat \<Rightarrow> nat \<Rightarrow> nat" where
  "aligned n align = div_ceil n (max align 1) * max align 1"

lemma align_up_eq: "align_up n align = (if aligned n align \<le> usize_max then Ok (aligned n align) else Panic)"
  by (simp add: align_up_def aligned_def usize_mul_def Let_def)

lemma aligned_max_1 [simp]: "aligned n (max align (Suc 0)) = aligned n align"
  by (simp add: aligned_def)

lemma div_ceil_mult_ge: "0 < b \<Longrightarrow> a \<le> div_ceil a b * b"
proof -
  assume b: "0 < b"
  have "a = a div b * b + a mod b" by simp
  moreover have "a mod b < b" using b by simp
  ultimately have "a \<le> a div b * b + b" by linarith
  then show ?thesis by (auto simp: div_ceil_def algebra_simps dest: mod_0_imp_dvd)
qed

lemma div_ceil_mult_less:
  assumes "0 < b"
  shows "div_ceil a b * b < a + b"
proof (cases "a mod b = 0")
  case True
  with assms show ?thesis by (auto simp: div_ceil_def)
next
  case False
  have "a div b * b + a mod b = a" by simp
  with False have "a div b * b < a" by linarith
  with False show ?thesis by (simp add: div_ceil_def algebra_simps)
qed

text \<open>The specification of rounding up: the least multiple of the alignment that is not below.\<close>

lemma aligned_ge: "n \<le> aligned n align"
  by (simp add: aligned_def div_ceil_mult_ge)

lemma aligned_less: "aligned n align < n + max align 1"
  by (simp add: aligned_def div_ceil_mult_less)

lemma aligned_dvd: "max align 1 dvd aligned n align"
  by (simp add: aligned_def)

lemma aligned_least:
  assumes "n \<le> k" and "max align 1 dvd k"
  shows "aligned n align \<le> k"
proof -
  let ?a = "max align 1"
  from assms(2) obtain q where q: "k = q * ?a" by (auto simp: dvd_def mult.commute)
  have "div_ceil n ?a * ?a < n + ?a" by (rule div_ceil_mult_less) simp
  also have "\<dots> \<le> q * ?a + ?a" using assms(1) q by simp
  finally have "div_ceil n ?a * ?a < (q + 1) * ?a" by simp
  then have "div_ceil n ?a < q + 1" by (metis mult_less_cancel2)
  then have "div_ceil n ?a * ?a \<le> q * ?a" by (intro mult_le_mono1) simp
  then show ?thesis by (simp add: aligned_def q)
qed

lemma aligned_mono: "n \<le> n' \<Longrightarrow> aligned n align \<le> aligned n' align"
  using aligned_ge [of n' align] by (intro aligned_least aligned_dvd) simp

lemma aligned_0 [simp]: "aligned 0 align = 0"
  by (simp add: aligned_def div_ceil_def)

section \<open>What a layout promises\<close>

text \<open>
  A layout has room: the header, the metadata and the tags lie one behind the other in front of the
  content.
\<close>

definition layout_fits :: "section_layout \<Rightarrow> nat \<Rightarrow> nat \<Rightarrow> bool" where
  "layout_fits l metadata_size tags_size \<longleftrightarrow>
     HEADER_SIZE + metadata_size \<le> unat (tags_start l) \<and>
     unat (tags_start l) + tags_size \<le> unat (content_start l)"

lemma layout_fits_spaces:
  assumes "layout_fits l ms ts"
  shows "\<exists>a. metadata_space l = Ok a \<and> ms \<le> a" and "\<exists>b. tags_space l = Ok b \<and> ts \<le> b"
  using assms by (auto simp: layout_fits_def metadata_space_def tags_space_def usize_sub_def)

lemma unat_u16_of_nat: "n \<le> 65535 \<Longrightarrow> unat (of_nat n :: u16) = n"
  by (simp add: unat_of_nat)

lemma unat_u32_of_nat: "n \<le> 4294967295 \<Longrightarrow> unat (of_nat n :: u32) = n"
  by (simp add: unat_of_nat)

lemma unat_u16_le: "unat (x :: u16) \<le> 65535"
  using unsigned_less [of x, where 'a = nat] by simp

lemma unat_u32_le: "unat (x :: u32) \<le> 4294967295"
  using unsigned_less [of x, where 'a = nat] by simp

text \<open>The two computations without their sequencing, every exit in its place.\<close>

lemma repartition_eq:
  "repartition cs ms ts align =
     (let e = HEADER_SIZE + ms; a = aligned e align;
          start = (if a + ts \<le> unat cs then a else e)
      in if e + ts > usize_max then Panic
         else if e + ts > unat cs then Ok None
         else if a + ts > usize_max then Panic
         else if start > 65535 then Ok None
         else Ok (Some \<lparr>tags_start = of_nat start, content_start = cs\<rparr>))"
  by (simp add: repartition_def Let_def usize_add_def align_up_eq del: of_nat_add)

lemma compute_fresh_eq:
  assumes "min_content_start opts = 0 \<or>
     repartition (min_content_start opts) ms ts (alignment opts) = (Ok None :: (section_layout option, object_file_error) res)"
  shows "compute opts ms ts =
     (let al = alignment opts;
          b = HEADER_SIZE + ms + metadata_reserve opts; start = aligned b al;
          e = start + ts + tag_reserve opts; f = aligned e al;
          g = aligned (unat (min_content_start opts)) al; content = max f g
      in if start > usize_max then Panic
         else if start > 65535 then Err (SectionOffsetTooLarge start 65535)
         else if f > usize_max \<or> g > usize_max then Panic
         else if content > 4294967295 then Err (SectionOffsetTooLarge content 4294967295)
         else Ok \<lparr>tags_start = of_nat start, content_start = of_nat content\<rparr>)"
proof -
  let ?al = "alignment opts"
  have le: "HEADER_SIZE + ms + metadata_reserve opts \<le> aligned (HEADER_SIZE + ms + metadata_reserve opts) ?al"
    by (rule aligned_ge)
  have le2: "aligned (HEADER_SIZE + ms + metadata_reserve opts) ?al + ts + tag_reserve opts \<le>
     aligned (aligned (HEADER_SIZE + ms + metadata_reserve opts) ?al + ts + tag_reserve opts) ?al"
    by (rule aligned_ge)
  have rep: "repartition (min_content_start opts) ms ts (max ?al (Suc 0)) =
     (repartition (min_content_start opts) ms ts ?al :: (section_layout option, object_file_error) res)"
    by (simp add: repartition_eq)
  show ?thesis
    using assms le le2
    by (auto simp: compute_def Let_def usize_add_def align_up_eq rep word_gt_0 simp del: of_nat_add)
qed

lemma repartition_Some:
  assumes "repartition cs ms ts align = Ok (Some l)"
  shows "layout_fits l ms ts" and "content_start l = cs"
    and "unat (tags_start l) \<in> {HEADER_SIZE + ms, aligned (HEADER_SIZE + ms) align}"
  using assms aligned_ge [of "HEADER_SIZE + ms" align]
  by (auto simp: repartition_eq Let_def layout_fits_def unat_u16_of_nat
      split: if_splits simp del: of_nat_add)

section \<open>Properties\<close>

definition layout_demand :: "layout_options \<Rightarrow> nat \<Rightarrow> nat \<Rightarrow> nat" where
  "layout_demand opts ms ts =
     HEADER_SIZE + ms + metadata_reserve opts + ts + tag_reserve opts + 2 * max (alignment opts) 1
     + unat (min_content_start opts)"

lemma repartition_not_Err: "repartition cs ms ts al \<noteq> Err e"
  by (simp add: repartition_eq Let_def)

lemma repartition_Panic:
  assumes "repartition cs ms ts al = Panic"
  shows "usize_max < HEADER_SIZE + ms + ts + max al 1"
  using assms aligned_less [of "HEADER_SIZE + ms" al]
  by (auto simp: repartition_eq Let_def split: if_splits)

abbreviation reused :: "layout_options \<Rightarrow> nat \<Rightarrow> nat \<Rightarrow> (section_layout option, object_file_error) res" where
  "reused opts ms ts \<equiv> repartition (min_content_start opts) ms ts (alignment opts)"

lemma repartition_max_1: "repartition cs ms ts (max al (Suc 0)) = repartition cs ms ts al"
  by (simp add: repartition_eq)

lemma compute_reused:
  assumes "0 < min_content_start opts"
  shows "reused opts ms ts = Ok (Some l) \<Longrightarrow> compute opts ms ts = Ok l"
    and "reused opts ms ts = Panic \<Longrightarrow> compute opts ms ts = Panic"
  using assms by (simp_all add: compute_def repartition_max_1)

lemma compute_cases:
  obtains (reuse) l where "reused opts ms ts = Ok (Some l)" "compute opts ms ts = Ok l"
  | (panic) "reused opts ms ts = Panic" "compute opts ms ts = Panic"
  | (fresh) "min_content_start opts = 0 \<or> reused opts ms ts = Ok None"
proof (cases "min_content_start opts = 0")
  case False
  then have pos: "0 < min_content_start opts" by (simp add: word_gt_0)
  show ?thesis
  proof (cases "reused opts ms ts")
    case (Ok r)
    then show ?thesis
      using compute_reused(1) [OF pos] reuse fresh by (cases r) auto
  next
    case (Err e)
    then show ?thesis by (simp add: repartition_not_Err)
  next
    case Panic
    then show ?thesis using compute_reused(2) [OF pos] panic by blast
  qed
qed (rule fresh, simp)

text \<open>What a layout computed from scratch promises besides having room.\<close>

definition fresh_layout :: "layout_options \<Rightarrow> nat \<Rightarrow> nat \<Rightarrow> section_layout \<Rightarrow> bool" where
  "fresh_layout opts ms ts l \<longleftrightarrow>
     layout_fits l (ms + metadata_reserve opts) (ts + tag_reserve opts) \<and>
     max (alignment opts) 1 dvd unat (tags_start l) \<and>
     max (alignment opts) 1 dvd unat (content_start l)"

lemma layout_fits_weaken: "layout_fits l (a + b) (c + d) \<Longrightarrow> layout_fits l a c"
  by (auto simp: layout_fits_def)

lemma compute_fresh_Ok:
  assumes "min_content_start opts = 0 \<or> reused opts ms ts = Ok None"
    and "compute opts ms ts = Ok l"
  shows "fresh_layout opts ms ts l" and "unat (min_content_start opts) \<le> unat (content_start l)"
proof -
  let ?al = "alignment opts"
  let ?start = "aligned (HEADER_SIZE + ms + metadata_reserve opts) ?al"
  let ?f = "aligned (?start + ts + tag_reserve opts) ?al"
  let ?g = "aligned (unat (min_content_start opts)) ?al"
  from assms(2) have l: "l = \<lparr>tags_start = of_nat ?start, content_start = of_nat (max ?f ?g)\<rparr>"
    and s: "?start \<le> 65535" and c: "max ?f ?g \<le> 4294967295"
    by (auto simp: compute_fresh_eq [OF assms(1)] Let_def split: if_splits)
  have ts: "unat (tags_start l) = ?start" and cs: "unat (content_start l) = max ?f ?g"
    using l unat_u16_of_nat [OF s] unat_u32_of_nat [OF c] by simp_all
  have "max ?al 1 dvd max ?f ?g"
    using aligned_dvd [of ?al "?start + ts + tag_reserve opts"]
      aligned_dvd [of ?al "unat (min_content_start opts)"]
    by (cases "?f \<le> ?g") (simp_all add: max_absorb1 max_absorb2)
  moreover have "HEADER_SIZE + ms + metadata_reserve opts \<le> ?start"
    and "?start + ts + tag_reserve opts \<le> ?f"
    by (rule aligned_ge)+
  ultimately show "fresh_layout opts ms ts l"
    using aligned_dvd [of ?al "HEADER_SIZE + ms + metadata_reserve opts"]
    by (simp add: fresh_layout_def layout_fits_def ts cs aligned_dvd le_max_iff_disj)
  show "unat (min_content_start opts) \<le> unat (content_start l)"
    using aligned_ge [of "unat (min_content_start opts)" ?al] by (simp add: cs le_max_iff_disj)
qed

text \<open>Where a layout from scratch puts the tags and the content, before the widths of their fields are checked.\<close>

definition fresh_tags_start :: "layout_options \<Rightarrow> nat \<Rightarrow> nat" where
  "fresh_tags_start opts ms = aligned (HEADER_SIZE + ms + metadata_reserve opts) (alignment opts)"

definition fresh_content_start :: "layout_options \<Rightarrow> nat \<Rightarrow> nat \<Rightarrow> nat" where
  "fresh_content_start opts ms ts =
     max (aligned (fresh_tags_start opts ms + ts + tag_reserve opts) (alignment opts))
         (aligned (unat (min_content_start opts)) (alignment opts))"

lemma compute_result:
  "case compute opts ms ts of
     Ok l \<Rightarrow> layout_fits l ms ts \<and> unat (min_content_start opts) \<le> unat (content_start l)
       \<and> (content_start l = min_content_start opts \<or> fresh_layout opts ms ts l)
   | Err e \<Rightarrow> 65535 < fresh_tags_start opts ms \<and> e = SectionOffsetTooLarge (fresh_tags_start opts ms) 65535
       \<or> 4294967295 < fresh_content_start opts ms ts \<and> e = SectionOffsetTooLarge (fresh_content_start opts ms ts) 4294967295
   | Panic \<Rightarrow> usize_max < layout_demand opts ms ts"
proof (rule compute_cases [of opts ms ts])
  fix l
  assume r: "reused opts ms ts = Ok (Some l)" and c: "compute opts ms ts = Ok l"
  show ?thesis unfolding c using repartition_Some(1,2) [OF r] by simp
next
  assume r: "reused opts ms ts = Panic" and c: "compute opts ms ts = Panic"
  show ?thesis unfolding c using repartition_Panic [OF r] by (simp add: layout_demand_def)
next
  assume fresh: "min_content_start opts = 0 \<or> reused opts ms ts = Ok None"
  show ?thesis
  proof (cases "compute opts ms ts")
    case (Ok l)
    then show ?thesis
      using compute_fresh_Ok [OF fresh Ok] layout_fits_weaken by (auto simp: fresh_layout_def)
  next
    case (Err e)
    then show ?thesis
      by (auto simp: compute_fresh_eq [OF fresh] Let_def fresh_tags_start_def fresh_content_start_def split: if_splits)
  next
    case Panic
    let ?b = "HEADER_SIZE + ms + metadata_reserve opts"
    have "aligned ?b (alignment opts) < ?b + max (alignment opts) 1"
      and "aligned (aligned ?b (alignment opts) + ts + tag_reserve opts) (alignment opts) <
           aligned ?b (alignment opts) + ts + tag_reserve opts + max (alignment opts) 1"
      and "aligned (unat (min_content_start opts)) (alignment opts) <
           unat (min_content_start opts) + max (alignment opts) 1"
      by (rule aligned_less)+
    with Panic show ?thesis
      by (auto simp: compute_fresh_eq [OF fresh] Let_def layout_demand_def split: if_splits)
  qed
qed

lemma compute_overflow: "compute opts ms ts = Panic \<Longrightarrow> usize_max < layout_demand opts ms ts"
  using compute_result [where opts = opts and ms = ms and ts = ts] by simp

text \<open>C25: The outcome of computing a layout. A layout is returned with the header, the metadata and
  the tags one behind the other in front of the content, never below the floor the caller set;
  unless it is the floor itself, it also has the reserves and puts both sections on the alignment.
  The only error is a section too far out for its header field, and it reports where the sizes asked
  for would have put that section; arithmetic overflows only when they add up to more than the
  address space.\<close>

theorem compute_outcome:
  "case compute opts ms ts of
     Ok l \<Rightarrow> layout_fits l ms ts \<and> unat (min_content_start opts) \<le> unat (content_start l)
       \<and> (content_start l = min_content_start opts \<or> fresh_layout opts ms ts l)
   | Err e \<Rightarrow> 65535 < fresh_tags_start opts ms \<and> e = SectionOffsetTooLarge (fresh_tags_start opts ms) 65535
       \<or> 4294967295 < fresh_content_start opts ms ts \<and> e = SectionOffsetTooLarge (fresh_content_start opts ms ts) 4294967295
   | Panic \<Rightarrow> usize_max < layout_demand opts ms ts"
  by (rule compute_result)

lemma compute_reuses_floor:
  assumes "0 < min_content_start opts"
    and "HEADER_SIZE + ms + ts \<le> unat (min_content_start opts)"
    and "aligned (HEADER_SIZE + ms) (alignment opts) \<le> 65535"
  shows "\<exists>l. compute opts ms ts = Ok l \<and> content_start l = min_content_start opts \<and> layout_fits l ms ts"
proof -
  have "aligned (HEADER_SIZE + ms) (alignment opts) + ts \<le> 65535 + 4294967295"
    using assms(2,3) unat_u32_le [of "min_content_start opts"] by linarith
  moreover have "HEADER_SIZE + ms + ts \<le> 4294967295"
    using assms(2) unat_u32_le [of "min_content_start opts"] by linarith
  moreover have "HEADER_SIZE + ms \<le> 65535"
    using aligned_ge [of "HEADER_SIZE + ms" "alignment opts"] assms(3) by linarith
  ultimately have "\<exists>l. reused opts ms ts = Ok (Some l)"
    using assms(2,3) by (auto simp: repartition_eq Let_def usize_max_def)
  then obtain l where r: "reused opts ms ts = Ok (Some l)" by blast
  show ?thesis
    using compute_reused(1) [OF assms(1) r] repartition_Some(1,2) [OF r] by blast
qed

text \<open>No creep: an object whose sections still fit in front of its current content start keeps
  that content start, however often it is laid out again (the metadata must end, rounded up, within
  the 16-bit range of the tag offset).\<close>

theorem compute_keeps_content_start:
  assumes "0 < min_content_start opts"
    and "HEADER_SIZE + ms + ts \<le> unat (min_content_start opts)"
    and "aligned (HEADER_SIZE + ms) (alignment opts) \<le> 65535"
  shows "\<exists>l. compute opts ms ts = Ok l \<and> content_start l = min_content_start opts \<and> layout_fits l ms ts"
  by (rule compute_reuses_floor [OF assms])

theorem compute_keeps_content_start_witness:
  "\<exists>l. compute (layout_default\<lparr>min_content_start := 544\<rparr>) 100 60 = Ok l \<and> content_start l = 544
     \<and> layout_fits l 100 60"
  using compute_keeps_content_start [of "layout_default\<lparr>min_content_start := 544\<rparr>" 100 60]
  by (simp add: layout_default_def HEADER_SIZE_def DEFAULT_ALIGNMENT_def aligned_def div_ceil_def)

lemma repartition_fits_again:
  assumes "compute opts ms ts = Ok l"
  shows "\<exists>l'. repartition (content_start l) ms ts (alignment opts) = (Ok (Some l') :: (section_layout option, 'e) res)
    \<and> content_start l' = content_start l \<and> layout_fits l' ms ts"
proof -
  have "\<exists>l'. repartition (content_start l) ms ts (alignment opts) = (Ok (Some l') :: (section_layout option, 'e) res)"
  proof (rule compute_cases [of opts ms ts])
    fix l'
    assume r: "reused opts ms ts = Ok (Some l')" "compute opts ms ts = Ok l'"
    then have "content_start l = min_content_start opts"
      using assms repartition_Some(2) [OF r(1)] by simp
    with r(1) show ?thesis by (auto simp: repartition_eq Let_def split: if_splits)
  next
    assume "compute opts ms ts = Panic"
    with assms show ?thesis by simp
  next
    assume fresh: "min_content_start opts = 0 \<or> reused opts ms ts = Ok None"
    let ?a = "aligned (HEADER_SIZE + ms) (alignment opts)"
    have fits: "layout_fits l (ms + metadata_reserve opts) (ts + tag_reserve opts)"
      and dvd: "max (alignment opts) 1 dvd unat (tags_start l)"
      using compute_fresh_Ok(1) [OF fresh assms] by (simp_all add: fresh_layout_def)
    have "?a \<le> unat (tags_start l)"
      by (rule aligned_least) (use fits dvd in \<open>auto simp: layout_fits_def\<close>)
    moreover have "HEADER_SIZE + ms \<le> ?a" by (rule aligned_ge)
    ultimately show ?thesis
      using fits unat_u16_le [of "tags_start l"] unat_u32_le [of "content_start l"]
      by (simp add: repartition_eq Let_def layout_fits_def usize_max_def)
  qed
  then show ?thesis using repartition_Some by blast
qed

text \<open>C26: The sections that a layout was computed for can always be repartitioned into it, without
  moving the content. So a writer whose sections did not change finishes in place, and the rewriting
  path, which lays out exactly the sections it carries over, is taken at most once.\<close>

theorem repartition_after_compute:
  assumes "compute opts ms ts = Ok l"
  shows "\<exists>l'. repartition (content_start l) ms ts (alignment opts) = (Ok (Some l') :: (section_layout option, 'e) res)
    \<and> content_start l' = content_start l \<and> layout_fits l' ms ts"
  by (rule repartition_fits_again [OF assms])

theorem repartition_after_compute_witness:
  "\<exists>l'. repartition 640 40 2 32 = (Ok (Some l') :: (section_layout option, unit) res)
    \<and> content_start l' = 640 \<and> layout_fits l' 40 2"
proof -
  have "compute layout_default 40 2 = Ok \<lparr>tags_start = 352, content_start = 640\<rparr>"
    by (simp add: compute_def layout_default_def DEFAULT_METADATA_RESERVE_def
        DEFAULT_TAG_RESERVE_def DEFAULT_ALIGNMENT_def HEADER_SIZE_def usize_add_def align_up_def
        div_ceil_def usize_mul_def usize_max_def)
  from repartition_after_compute [OF this] show ?thesis
    by (simp add: layout_default_def DEFAULT_ALIGNMENT_def)
qed

end
