(* ===== verification/FileSystem.thy ===== *)
theory FileSystem
  imports Layout
begin

text \<open>
  The part of \<open>std::fs\<close> and \<open>std::io\<close> the file layer uses, as an explicit state. A world holds the
  directory entries, the bytes of every file, the open file descriptions with their offsets, and
  the counter the temporary names are drawn from. Every system call may fail, and may transfer fewer
  bytes than asked for: an environment, indexed by the number of calls made so far, decides. A ghost
  trace records what every path shows after each call, which is what another process could see.
\<close>

section \<open>State passing with errors\<close>

type_synonym ('s, 'a, 'e) st = "'s \<Rightarrow> ('a, 'e) res \<times> 's"

definition st_lift :: "('a, 'e) res \<Rightarrow> ('s, 'a, 'e) st" where
  "st_lift r s = (r, s)"

definition st_bind :: "('s, 'a, 'e) st \<Rightarrow> ('a \<Rightarrow> ('s, 'b, 'e) st) \<Rightarrow> ('s, 'b, 'e) st" where
  "st_bind m f s =
     (case m s of
        (Ok a, s') \<Rightarrow> f a s'
      | (Err e, s') \<Rightarrow> (Err e, s')
      | (Panic, s') \<Rightarrow> (Panic, s'))"

text \<open>The conversion that \<open>?\<close> applies to an error.\<close>

definition st_map_err :: "('e \<Rightarrow> 'f) \<Rightarrow> ('s, 'a, 'e) st \<Rightarrow> ('s, 'a, 'f) st" where
  "st_map_err h m s = (case m s of (r, s') \<Rightarrow> (map_err h r, s'))"

text \<open>An operation on the world, run by a method that also has a state of its own.\<close>

definition on_world :: "('w, 'a, 'e) st \<Rightarrow> ('o \<times> 'w, 'a, 'e) st" where
  "on_world m s = (case m (snd s) of (r, w') \<Rightarrow> (r, (fst s, w')))"

text \<open>
  The weakest precondition: what must hold so that a normal return satisfies \<open>Q\<close>, an error \<open>e\<close>
  satisfies \<open>R (Some e)\<close>, and a panic satisfies \<open>R None\<close>.
\<close>

definition wp ::
  "('s, 'a, 'e) st \<Rightarrow> ('a \<Rightarrow> 's \<Rightarrow> bool) \<Rightarrow> ('e option \<Rightarrow> 's \<Rightarrow> bool) \<Rightarrow> 's \<Rightarrow> bool" where
  "wp m Q R s \<longleftrightarrow>
     (case m s of
        (Ok a, s') \<Rightarrow> Q a s'
      | (Err e, s') \<Rightarrow> R (Some e) s'
      | (Panic, s') \<Rightarrow> R None s')"

lemma wp_conseq:
  assumes "wp m Q R s"
    and "\<And>a s'. Q a s' \<Longrightarrow> Q' a s'" and "\<And>e s'. R e s' \<Longrightarrow> R' e s'"
  shows "wp m Q' R' s"
  using assms by (auto simp: wp_def split: prod.splits res.splits)

lemma wp_bind: "wp (st_bind m f) Q R s \<longleftrightarrow> wp m (\<lambda>a. wp (f a) Q R) R s"
  by (auto simp: wp_def st_bind_def split: prod.splits res.splits)

lemma wp_lift [simp]:
  "wp (st_lift (Ok a)) Q R s \<longleftrightarrow> Q a s"
  "wp (st_lift (Err e)) Q R s \<longleftrightarrow> R (Some e) s"
  "wp (st_lift Panic) Q R s \<longleftrightarrow> R None s"
  by (simp_all add: wp_def st_lift_def)

lemma wp_map_err: "wp (st_map_err h m) Q R s \<longleftrightarrow> wp m Q (\<lambda>e. R (map_option h e)) s"
  by (auto simp: wp_def st_map_err_def split: prod.splits res.splits)

lemma wp_on_world: "wp (on_world m) Q R s \<longleftrightarrow>
    wp m (\<lambda>a w. Q a (fst s, w)) (\<lambda>e w. R e (fst s, w)) (snd s)"
  by (auto simp: wp_def on_world_def split: prod.splits res.splits)

text \<open>A call that is followed by more: its specification, then the rest from where it left off.\<close>

lemma wp_bind_spec:
  assumes "wp m Qm Rm s"
    and "\<And>a s'. Qm a s' \<Longrightarrow> wp (f a) Q R s'" and "\<And>e s'. Rm e s' \<Longrightarrow> R e s'"
  shows "wp (st_bind m f) Q R s"
  unfolding wp_bind by (rule wp_conseq [OF assms])

lemma st_bind_lift [simp]:
  "st_bind (st_lift (Ok a)) f = f a"
  "st_bind (st_lift (Err e)) f = st_lift (Err e)"
  "st_bind (st_lift Panic) f = st_lift Panic"
  by (simp_all add: st_bind_def st_lift_def fun_eq_iff)

lemma st_bind_assoc [simp]: "st_bind (st_bind m f) g = st_bind m (\<lambda>a. st_bind (f a) g)"
  by (auto simp: st_bind_def fun_eq_iff split: prod.splits res.splits)

lemma wp_bind_map_err:
  assumes "wp m Qm Rm s"
    and "\<And>a s'. Qm a s' \<Longrightarrow> wp (f a) Q R s'" and "\<And>e s'. Rm e s' \<Longrightarrow> R (map_option h e) s'"
  shows "wp (st_bind (st_map_err h m) f) Q R s"
  unfolding wp_bind wp_map_err by (rule wp_conseq [OF assms])

lemma wp_and:
  assumes "wp m Q R s" and "wp m Q' R' s"
  shows "wp m (\<lambda>a s. Q a s \<and> Q' a s) (\<lambda>e s. R e s \<and> R' e s) s"
  using assms by (auto simp: wp_def split: prod.splits res.splits)

lemma wp_run:
  assumes "wp m Q R s" and "m s = (r, s')"
  shows "case r of Ok a \<Rightarrow> Q a s' | Err e \<Rightarrow> R (Some e) s' | Panic \<Rightarrow> R None s'"
  using assms by (simp add: wp_def split: res.splits)

text \<open>Where no error is possible the call returns.\<close>

lemma wp_total:
  assumes "wp m Q R s" and "\<And>e s'. \<not> R e s'"
  obtains a s' where "m s = (Ok a, s')" and "Q a s'"
  using assms by (cases "m s") (auto simp: wp_def split: res.splits)

section \<open>The world\<close>

record open_file =
  of_inode :: nat
  of_pos :: nat
  of_writable :: bool

type_synonym view = "path \<Rightarrow> u8 list option"

record world =
  w_names :: "path \<Rightarrow> nat option"
  w_dirs :: "path list"
  w_data :: "nat \<Rightarrow> u8 list"
  w_next :: nat
  w_open :: "nat \<Rightarrow> open_file option"
  w_next_fd :: nat
  w_counter :: u64
  w_clock :: nat
  w_trace :: "view list"

definition view_of :: "world \<Rightarrow> view" where
  "view_of w p = (case w_names w p of None \<Rightarrow> None | Some i \<Rightarrow> Some (w_data w i))"

record os =
  fault :: "nat \<Rightarrow> io_kind option"
  transfer :: "nat \<Rightarrow> nat"
  process_id :: nat

definition max_offset :: nat where
  "max_offset = 9223372036854775807"

text \<open>
  One system call: it fails when the environment says so, leaving everything but the clock and the
  trace as it was; otherwise it runs, knowing how many bytes it may transfer.
\<close>

definition tick :: "world \<Rightarrow> world" where
  "tick w = w\<lparr>w_clock := w_clock w + 1, w_trace := view_of w # w_trace w\<rparr>"

definition syscall :: "'x os_scheme \<Rightarrow> (nat \<Rightarrow> (world, 'a, io_kind) st) \<Rightarrow> (world, 'a, io_kind) st" where
  "syscall E body w =
     (case fault E (w_clock w) of
        Some k \<Rightarrow> (Err k, tick w)
      | None \<Rightarrow> (case body (transfer E (w_clock w)) w of (r, w') \<Rightarrow> (r, tick w')))"

definition sys_open :: "'x os_scheme \<Rightarrow> path \<Rightarrow> bool \<Rightarrow> (world, nat, io_kind) st" where
  "sys_open E p writable = syscall E (\<lambda>_ w.
     (case w_names w p of
        None \<Rightarrow> (if p \<in> set (w_dirs w) then (Err OtherKind, w) else (Err NotFound, w))
      | Some i \<Rightarrow>
          (Ok (w_next_fd w),
           w\<lparr>w_open := (w_open w)(w_next_fd w \<mapsto> \<lparr>of_inode = i, of_pos = 0, of_writable = writable\<rparr>),
             w_next_fd := w_next_fd w + 1\<rparr>)))"

definition sys_create_new :: "'x os_scheme \<Rightarrow> path \<Rightarrow> (world, nat, io_kind) st" where
  "sys_create_new E p = syscall E (\<lambda>_ w.
     (if w_names w p \<noteq> None \<or> p \<in> set (w_dirs w) then (Err AlreadyExists, w)
      else if butlast p \<notin> set (w_dirs w) then (Err NotFound, w)
      else (Ok (w_next_fd w),
            w\<lparr>w_names := (w_names w)(p \<mapsto> w_next w),
              w_data := (w_data w)(w_next w := []),
              w_next := w_next w + 1,
              w_open := (w_open w)(w_next_fd w \<mapsto> \<lparr>of_inode = w_next w, of_pos = 0, of_writable = True\<rparr>),
              w_next_fd := w_next_fd w + 1\<rparr>)))"

text \<open>A call on a handle that is not open is an error; the code never makes one.\<close>

definition with_file ::
  "nat \<Rightarrow> (open_file \<Rightarrow> (world, 'a, io_kind) st) \<Rightarrow> (world, 'a, io_kind) st" where
  "with_file fd body w = (case w_open w fd of None \<Rightarrow> (Err OtherKind, w) | Some f \<Rightarrow> body f w)"

definition set_pos :: "nat \<Rightarrow> open_file \<Rightarrow> nat \<Rightarrow> world \<Rightarrow> world" where
  "set_pos fd f n w = w\<lparr>w_open := (w_open w)(fd \<mapsto> f\<lparr>of_pos := n\<rparr>)\<rparr>"

definition sys_seek :: "'x os_scheme \<Rightarrow> nat \<Rightarrow> nat \<Rightarrow> (world, unit, io_kind) st" where
  "sys_seek E fd n = syscall E (\<lambda>_. with_file fd (\<lambda>f w.
     if n > max_offset then (Err InvalidInput, w) else (Ok (), set_pos fd f n w)))"

text \<open>A read returns at least one byte unless nothing was asked for or the file ends here.\<close>

definition sys_read :: "'x os_scheme \<Rightarrow> nat \<Rightarrow> nat \<Rightarrow> (world, u8 list, io_kind) st" where
  "sys_read E fd n = syscall E (\<lambda>limit. with_file fd (\<lambda>f w.
     let bs = take (min n (max 1 limit)) (drop (of_pos f) (w_data w (of_inode f)))
     in (Ok bs, set_pos fd f (of_pos f + length bs) w)))"

text \<open>Writing past the end of a file fills the gap with zeros.\<close>

definition splice :: "nat \<Rightarrow> u8 list \<Rightarrow> u8 list \<Rightarrow> u8 list" where
  "splice pos bs old =
     (if bs = [] then old
      else take pos (old @ replicate (pos - length old) 0) @ bs @ drop (pos + length bs) old)"

definition sys_write :: "'x os_scheme \<Rightarrow> nat \<Rightarrow> u8 list \<Rightarrow> (world, nat, io_kind) st" where
  "sys_write E fd bs = syscall E (\<lambda>limit. with_file fd (\<lambda>f w.
     if \<not> of_writable f then (Err OtherKind, w)
     else if of_pos f + length bs > max_offset then (Err OtherKind, w)
     else let out = take limit bs; i = of_inode f
          in (Ok (length out),
              set_pos fd f (of_pos f + length out)
                (w\<lparr>w_data := (w_data w)(i := splice (of_pos f) out (w_data w i))\<rparr>))))"

text \<open>\<open>File::flush\<close> does nothing; \<open>sync_all\<close> changes nothing another process could see.\<close>

definition file_flush :: "nat \<Rightarrow> (world, unit, io_kind) st" where
  "file_flush fd = st_lift (Ok ())"

definition sys_sync_all :: "'x os_scheme \<Rightarrow> nat \<Rightarrow> (world, unit, io_kind) st" where
  "sys_sync_all E fd = syscall E (\<lambda>_ w. (Ok (), w))"

text \<open>The length of an open file; a clone of a handle shares its offset, so it is the same handle.\<close>

definition sys_file_len :: "'x os_scheme \<Rightarrow> nat \<Rightarrow> (world, nat, io_kind) st" where
  "sys_file_len E fd = syscall E (\<lambda>_. with_file fd (\<lambda>f w. (Ok (length (w_data w (of_inode f))), w)))"

definition sys_try_clone :: "'x os_scheme \<Rightarrow> nat \<Rightarrow> (world, nat, io_kind) st" where
  "sys_try_clone E fd = syscall E (\<lambda>_ w. (Ok fd, w))"

definition sys_rename :: "'x os_scheme \<Rightarrow> path \<Rightarrow> path \<Rightarrow> (world, unit, io_kind) st" where
  "sys_rename E p q = syscall E (\<lambda>_ w.
     (case w_names w p of
        None \<Rightarrow> (Err NotFound, w)
      | Some i \<Rightarrow>
          if q \<in> set (w_dirs w) then (Err OtherKind, w)
          else if butlast q \<notin> set (w_dirs w) then (Err NotFound, w)
          else (Ok (), w\<lparr>w_names := (w_names w)(p := None, q \<mapsto> i)\<rparr>)))"

definition sys_remove :: "'x os_scheme \<Rightarrow> path \<Rightarrow> (world, unit, io_kind) st" where
  "sys_remove E p = syscall E (\<lambda>_ w.
     (case w_names w p of
        None \<Rightarrow> (Err NotFound, w)
      | Some i \<Rightarrow> (Ok (), w\<lparr>w_names := (w_names w)(p := None)\<rparr>)))"

definition sys_open_dir :: "'x os_scheme \<Rightarrow> path \<Rightarrow> (world, unit, io_kind) st" where
  "sys_open_dir E p = syscall E (\<lambda>_ w. (if p \<in> set (w_dirs w) then Ok () else Err NotFound, w))"

section \<open>The loops of \<open>std::io\<close>\<close>

text \<open>\<open>Write::write_all\<close> and \<open>Read::read_exact\<close>, for any writer or reader.\<close>

function write_all :: "(u8 list \<Rightarrow> ('s, nat, io_kind) st) \<Rightarrow> u8 list \<Rightarrow> ('s, unit, io_kind) st" where
  "write_all wrt bs s =
     (if bs = [] then (Ok (), s)
      else (case wrt bs s of
              (Ok n, s') \<Rightarrow>
                if n = 0 then (Err WriteZero, s')
                else if n > length bs then (Panic, s')
                else write_all wrt (drop n bs) s'
            | (Err e, s') \<Rightarrow> (Err e, s')
            | (Panic, s') \<Rightarrow> (Panic, s')))"
  by pat_completeness auto
termination
  by (relation "measure (\<lambda>(wrt, bs, s). length bs)") auto

declare write_all.simps [simp del]

function read_full :: "(nat \<Rightarrow> ('s, u8 list, io_kind) st) \<Rightarrow> nat \<Rightarrow> ('s, u8 list, io_kind) st" where
  "read_full rd n s =
     (if n = 0 then (Ok [], s)
      else (case rd n s of
              (Ok bs, s') \<Rightarrow>
                if bs = [] then (Err UnexpectedEofKind, s')
                else if length bs > n then (Panic, s')
                else (case read_full rd (n - length bs) s' of
                        (Ok rest, s'') \<Rightarrow> (Ok (bs @ rest), s'')
                      | (Err e, s'') \<Rightarrow> (Err e, s'')
                      | (Panic, s'') \<Rightarrow> (Panic, s''))
            | (Err e, s') \<Rightarrow> (Err e, s')
            | (Panic, s') \<Rightarrow> (Panic, s')))"
  by pat_completeness auto
termination
  by (relation "measure (\<lambda>(rd, n, s). n)") auto

declare read_full.simps [simp del]

text \<open>The invariant of a loop: what holds of the part already transferred.\<close>

lemma write_all_wp:
  assumes "\<And>out rest s. I out s \<Longrightarrow> bs = out @ rest \<Longrightarrow> rest \<noteq> [] \<Longrightarrow>
      wp (wrt rest) (\<lambda>n s'. n \<le> length rest \<and> I (out @ take n rest) s' \<and> (n = 0 \<longrightarrow> R (Some WriteZero) s')) R s"
    and "I [] s"
  shows "wp (write_all wrt bs) (\<lambda>_ s'. I bs s') R s"
proof -
  have "wp (write_all wrt rest) (\<lambda>_ s'. I bs s') R s" if "I out s" and "bs = out @ rest"
    for out rest s
    using that
  proof (induction "length rest" arbitrary: out rest s rule: less_induct)
    case less
    show ?case
    proof (cases "rest = []")
      case True
      with less.prems show ?thesis by (simp add: wp_def write_all.simps)
    next
      case False
      obtain r s' where r: "wrt rest s = (r, s')" by force
      show ?thesis
      proof (cases r)
        case (Ok n)
        have n: "n \<le> length rest" "I (out @ take n rest) s'" "n = 0 \<longrightarrow> R (Some WriteZero) s'"
          using wp_run [OF assms(1) [OF less.prems False] r] Ok by simp_all
        have "wp (write_all wrt (drop n rest)) (\<lambda>_ s'. I bs s') R s'" if "0 < n"
          by (rule less.hyps [of _ "out @ take n rest"])
            (use n that False less.prems(2) in auto)
        with n r Ok False show ?thesis
          by (cases "n = 0") (auto simp: wp_def write_all.simps [of wrt rest s])
      qed (use wp_run [OF assms(1) [OF less.prems False] r] r False in
          \<open>simp_all add: wp_def write_all.simps [of wrt rest s]\<close>)
    qed
  qed
  from this [of "[]"] assms(2) show ?thesis by simp
qed

lemma read_full_wp:
  assumes "\<And>got m s. I got s \<Longrightarrow> length got + m = n \<Longrightarrow> 0 < m \<Longrightarrow>
      wp (rd m) (\<lambda>bs s'. length bs \<le> m \<and> I (got @ bs) s' \<and> (bs = [] \<longrightarrow> R (Some UnexpectedEofKind) s')) R s"
    and "I [] s"
  shows "wp (read_full rd n) (\<lambda>bs s'. length bs = n \<and> I bs s') R s"
proof -
  have "wp (read_full rd m) (\<lambda>bs s'. length bs = m \<and> I (got @ bs) s') R s"
    if "I got s" and "length got + m = n" for got m s
    using that
  proof (induction m arbitrary: got s rule: less_induct)
    case (less m)
    show ?case
    proof (cases "m = 0")
      case True
      with less.prems show ?thesis by (simp add: wp_def read_full.simps)
    next
      case False
      obtain r s' where r: "rd m s = (r, s')" by force
      have spec: "case r of Ok bs \<Rightarrow> length bs \<le> m \<and> I (got @ bs) s' \<and> (bs = [] \<longrightarrow> R (Some UnexpectedEofKind) s')
          | Err e \<Rightarrow> R (Some e) s' | Panic \<Rightarrow> R None s'"
        using wp_run [OF assms(1) [OF less.prems] r] False by simp
      show ?thesis
      proof (cases r)
        case (Ok bs)
        have "wp (read_full rd (m - length bs)) (\<lambda>xs s'. length xs = m - length bs \<and> I ((got @ bs) @ xs) s') R s'"
          if "bs \<noteq> []"
          by (rule less.IH) (use spec Ok that less.prems(2) False in auto)
        then show ?thesis
          using spec r Ok False
          by (cases "bs = []")
             (auto simp: wp_def read_full.simps [of rd m s] split: prod.splits res.splits)
      qed (use spec r False in \<open>simp_all add: wp_def read_full.simps [of rd m s]\<close>)
    qed
  qed
  from this [of "[]"] assms(2) show ?thesis by simp
qed

section \<open>What each call does\<close>

text \<open>An environment without failures, in which every transfer makes progress.\<close>

definition reliable :: "'x os_scheme \<Rightarrow> bool" where
  "reliable E \<longleftrightarrow> (\<forall>t. fault E t = None) \<and> (\<forall>t. 0 < transfer E t)"

text \<open>Every view another process could have had since \<open>w\<close> satisfies \<open>P\<close>.\<close>

definition shown :: "(view \<Rightarrow> bool) \<Rightarrow> world \<Rightarrow> world \<Rightarrow> bool" where
  "shown P w w' \<longleftrightarrow> (\<exists>tr. w_trace w' = tr @ w_trace w \<and> (\<forall>v \<in> set tr. P v))"

lemma shown_refl [simp]: "shown P w w"
  by (simp add: shown_def)

lemma shown_trans: "shown P a b \<Longrightarrow> shown P b c \<Longrightarrow> shown P a c"
proof -
  assume "shown P a b" and "shown P b c"
  then obtain t u where "w_trace b = t @ w_trace a" "\<forall>v \<in> set t. P v"
    and "w_trace c = u @ w_trace b" "\<forall>v \<in> set u. P v"
    by (auto simp: shown_def)
  then show ?thesis unfolding shown_def by (intro exI [of _ "u @ t"]) auto
qed

lemma shown_mono: "shown P a b \<Longrightarrow> (\<And>v. P v \<Longrightarrow> Q v) \<Longrightarrow> shown Q a b"
  by (auto simp: shown_def)

lemma shown_trace: "shown P w w' \<Longrightarrow> w_trace v = w_trace w' \<Longrightarrow> shown P w v"
  by (simp add: shown_def)

text \<open>
  Between two worlds nothing changed but the offsets of the handles in \<open>F\<close> and the bytes of the
  files in \<open>I\<close>, and no path that names none of those files ever showed anything else.
\<close>

definition frame :: "nat set \<Rightarrow> nat set \<Rightarrow> world \<Rightarrow> world \<Rightarrow> bool" where
  "frame F I w w' \<longleftrightarrow>
     w_names w' = w_names w \<and> w_dirs w' = w_dirs w \<and> w_next w' = w_next w \<and>
     w_next_fd w' = w_next_fd w \<and> w_counter w' = w_counter w \<and>
     (\<forall>i. i \<notin> I \<longrightarrow> w_data w' i = w_data w i) \<and>
     (\<forall>fd. fd \<notin> F \<longrightarrow> w_open w' fd = w_open w fd) \<and>
     (\<forall>fd. map_option (\<lambda>f. (of_inode f, of_writable f)) (w_open w' fd) =
           map_option (\<lambda>f. (of_inode f, of_writable f)) (w_open w fd)) \<and>
     shown (\<lambda>v. \<forall>p. (\<forall>i \<in> I. w_names w p \<noteq> Some i) \<longrightarrow> v p = view_of w p) w w'"

lemma frame_refl [simp]: "frame F I w w"
  by (simp add: frame_def)

lemma frameD:
  assumes "frame F I w w'"
  shows "w_names w' = w_names w" and "w_dirs w' = w_dirs w" and "w_next w' = w_next w"
    and "w_next_fd w' = w_next_fd w" and "w_counter w' = w_counter w"
    and "i \<notin> I \<Longrightarrow> w_data w' i = w_data w i" and "fd \<notin> F \<Longrightarrow> w_open w' fd = w_open w fd"
  using assms by (simp_all add: frame_def)

lemma frame_view: "frame F I w w' \<Longrightarrow> (\<And>i. i \<in> I \<Longrightarrow> w_names w p \<noteq> Some i) \<Longrightarrow> view_of w' p = view_of w p"
  by (auto simp: frame_def view_of_def split: option.splits)

lemma frame_shown: "frame F I w w' \<Longrightarrow>
    shown (\<lambda>v. \<forall>p. (\<forall>i \<in> I. w_names w p \<noteq> Some i) \<longrightarrow> v p = view_of w p) w w'"
  by (simp add: frame_def)

lemma frame_mono: "frame F I w w' \<Longrightarrow> F \<subseteq> F' \<Longrightarrow> I \<subseteq> I' \<Longrightarrow> frame F' I' w w'"
proof -
  assume h: "frame F I w w'" and sub: "F \<subseteq> F'" "I \<subseteq> I'"
  from h have "shown (\<lambda>v. \<forall>p. (\<forall>i \<in> I. w_names w p \<noteq> Some i) \<longrightarrow> v p = view_of w p) w w'"
    by (rule frame_shown)
  then have "shown (\<lambda>v. \<forall>p. (\<forall>i \<in> I'. w_names w p \<noteq> Some i) \<longrightarrow> v p = view_of w p) w w'"
    by (rule shown_mono) (use sub in blast)
  with h sub show ?thesis by (auto simp: frame_def)
qed

lemma frame_trans:
  assumes "frame F I a b" and "frame F I b c"
  shows "frame F I a c"
proof -
  have "shown (\<lambda>v. \<forall>p. (\<forall>i \<in> I. w_names a p \<noteq> Some i) \<longrightarrow> v p = view_of a p) b c"
    using frame_shown [OF assms(2)]
    by (rule shown_mono) (simp add: frameD(1) [OF assms(1)] frame_view [OF assms(1)])
  with frame_shown [OF assms(1)] have "shown (\<lambda>v. \<forall>p. (\<forall>i \<in> I. w_names a p \<noteq> Some i) \<longrightarrow> v p = view_of a p) a c"
    by (rule shown_trans)
  with assms show ?thesis by (simp add: frame_def)
qed

lemma tick_fields [simp]:
  "w_names (tick w) = w_names w" "w_dirs (tick w) = w_dirs w" "w_data (tick w) = w_data w"
  "w_next (tick w) = w_next w" "w_open (tick w) = w_open w" "w_next_fd (tick w) = w_next_fd w"
  "w_counter (tick w) = w_counter w" "w_trace (tick w) = view_of w # w_trace w"
  by (simp_all add: tick_def)

lemma view_of_tick [simp]: "view_of (tick w) = view_of w"
  by (auto simp: view_of_def fun_eq_iff split: option.splits)

lemma shown_tick: "P (view_of w) \<Longrightarrow> shown P w' w \<Longrightarrow> shown P w' (tick w)"
proof -
  assume "P (view_of w)" and "shown P w' w"
  then obtain t where "w_trace w = t @ w_trace w'" "\<forall>v \<in> set t. P v"
    by (auto simp: shown_def)
  with \<open>P (view_of w)\<close> show ?thesis
    unfolding shown_def by (intro exI [of _ "view_of w # t"]) auto
qed

lemma frame_tick: "frame F I w w' \<Longrightarrow> frame F I w (tick w')"
  using frame_view [of F I w w']
  by (simp add: frame_def shown_tick)

lemma wp_syscall:
  "wp (syscall E body) Q R w \<longleftrightarrow>
     (case fault E (w_clock w) of
        Some k \<Rightarrow> R (Some k) (tick w)
      | None \<Rightarrow> wp (body (transfer E (w_clock w))) (\<lambda>a w'. Q a (tick w')) (\<lambda>e w'. R e (tick w')) w)"
  by (auto simp: wp_def syscall_def split: prod.splits res.splits option.splits)

text \<open>The specification of a call: its body, or a failure that a reliable environment rules out.\<close>

lemma syscall_spec:
  assumes "\<And>limit. (reliable E \<Longrightarrow> 0 < limit) \<Longrightarrow>
      wp (body limit) (\<lambda>a w'. Q a (tick w')) (\<lambda>e w'. R e (tick w')) w"
    and "\<And>k. \<not> reliable E \<Longrightarrow> R (Some k) (tick w)"
  shows "wp (syscall E body) Q R w"
  using assms by (auto simp: wp_syscall reliable_def split: option.splits)

lemma frame_set_pos:
  "w_open w fd = Some f \<Longrightarrow> frame {fd} {} w (set_pos fd f n w)"
  by (simp add: frame_def set_pos_def shown_def)

lemma set_pos_fields [simp]:
  "w_names (set_pos fd f n w) = w_names w" "w_data (set_pos fd f n w) = w_data w"
  "w_open (set_pos fd f n w) fd = Some (f\<lparr>of_pos := n\<rparr>)"
  by (simp_all add: set_pos_def)

lemma sys_seek_wp:
  assumes "w_open w fd = Some f"
  shows "wp (sys_seek E fd n)
     (\<lambda>_ w'. frame {fd} {} w w' \<and> w_open w' fd = Some (f\<lparr>of_pos := n\<rparr>) \<and> n \<le> max_offset)
     (\<lambda>e w'. frame {} {} w w' \<and> e \<noteq> None \<and> (reliable E \<longrightarrow> max_offset < n)) w"
  unfolding sys_seek_def
  by (rule syscall_spec)
     (auto simp: wp_def with_file_def assms frame_tick frame_set_pos split: if_splits)

lemma sys_read_wp:
  assumes "w_open w fd = Some f"
  shows "wp (sys_read E fd n)
     (\<lambda>bs w'. frame {fd} {} w w' \<and> length bs \<le> n
        \<and> bs = take (length bs) (drop (of_pos f) (w_data w (of_inode f)))
        \<and> (bs = [] \<longrightarrow> n = 0 \<or> length (w_data w (of_inode f)) \<le> of_pos f)
        \<and> w_open w' fd = Some (f\<lparr>of_pos := of_pos f + length bs\<rparr>))
     (\<lambda>e w'. frame {} {} w w' \<and> e \<noteq> None \<and> \<not> reliable E) w"
  unfolding sys_read_def
  by (rule syscall_spec)
     (auto simp: wp_def with_file_def assms frame_tick frame_set_pos Let_def min_def split: if_splits)

lemma sys_write_wp:
  assumes "w_open w fd = Some f" and "of_writable f"
  shows "wp (sys_write E fd bs)
     (\<lambda>n w'. frame {fd} {of_inode f} w w' \<and> n \<le> length bs \<and> of_pos f + length bs \<le> max_offset
        \<and> w_data w' (of_inode f) = splice (of_pos f) (take n bs) (w_data w (of_inode f))
        \<and> (reliable E \<longrightarrow> bs \<noteq> [] \<longrightarrow> 0 < n)
        \<and> w_open w' fd = Some (f\<lparr>of_pos := of_pos f + n\<rparr>))
     (\<lambda>e w'. frame {} {} w w' \<and> e \<noteq> None \<and> (reliable E \<longrightarrow> max_offset < of_pos f + length bs)) w"
proof -
  have fr: "frame {fd} {of_inode f} w (set_pos fd f n (w\<lparr>w_data := (w_data w)(of_inode f := d)\<rparr>))" for n d
    using assms by (simp add: frame_def set_pos_def shown_def)
  show ?thesis
    unfolding sys_write_def
    by (rule syscall_spec)
       (auto simp: wp_def with_file_def assms frame_tick fr Let_def min_def split: if_splits)
qed

section \<open>Whole transfers\<close>

lemma splice_Nil [simp]: "splice pos [] old = old"
  by (simp add: splice_def)

lemma splice_prefix: "length xs = n \<Longrightarrow> b \<noteq> [] \<Longrightarrow> splice n b (xs @ ys) = xs @ b @ drop (length b) ys"
  by (auto simp: splice_def)

lemma splice_append: "splice (pos + length a) b (splice pos a old) = splice pos (a @ b) old"
proof (cases "a = [] \<or> b = []")
  case False
  define P where "P = take pos old @ replicate (pos - length old) 0"
  have P: "length P = pos" by (simp add: P_def)
  have "splice pos a old = (P @ a) @ drop (pos + length a) old"
    using False by (simp add: splice_def P_def)
  then have "splice (pos + length a) b (splice pos a old) =
      (P @ a) @ b @ drop (length b) (drop (pos + length a) old)"
    using splice_prefix [of "P @ a" "pos + length a" b "drop (pos + length a) old"] P False by simp
  also have "\<dots> = splice pos (a @ b) old"
    using False by (simp add: splice_def P_def ac_simps)
  finally show ?thesis .
qed auto

lemma splice_0: "splice 0 bs old = bs @ drop (length bs) old"
  by (simp add: splice_def)

lemma splice_end: "length old = pos \<Longrightarrow> splice pos bs old = old @ bs"
  by (simp add: splice_def)

lemma drop_splice_0: "n \<le> length bs \<Longrightarrow> length bs \<le> cs \<Longrightarrow> drop cs (splice 0 (take n bs) old) = drop cs old"
  by (simp add: splice_0)

definition file_write_all :: "'x os_scheme \<Rightarrow> nat \<Rightarrow> u8 list \<Rightarrow> (world, unit, io_kind) st" where
  "file_write_all E fd = write_all (sys_write E fd)"

definition file_read_exact :: "'x os_scheme \<Rightarrow> nat \<Rightarrow> nat \<Rightarrow> (world, u8 list, io_kind) st" where
  "file_read_exact E fd = read_full (sys_read E fd)"

lemma file_write_all_wp:
  assumes f: "w_open w fd = Some f" "of_writable f"
  shows "wp (file_write_all E fd bs)
     (\<lambda>_ w'. frame {fd} {of_inode f} w w'
        \<and> w_data w' (of_inode f) = splice (of_pos f) bs (w_data w (of_inode f))
        \<and> w_open w' fd = Some (f\<lparr>of_pos := of_pos f + length bs\<rparr>))
     (\<lambda>e w'. frame {fd} {of_inode f} w w' \<and> e \<noteq> None
        \<and> (\<exists>n \<le> length bs. w_data w' (of_inode f) = splice (of_pos f) (take n bs) (w_data w (of_inode f)))
        \<and> (reliable E \<longrightarrow> max_offset < of_pos f + length bs)) w"
proof -
  let ?i = "of_inode f"
  define I where "I out w' \<longleftrightarrow> frame {fd} {?i} w w'
      \<and> w_data w' ?i = splice (of_pos f) out (w_data w ?i)
      \<and> w_open w' fd = Some (f\<lparr>of_pos := of_pos f + length out\<rparr>)" for out w'
  define R where "R e w' \<longleftrightarrow> frame {fd} {?i} w w' \<and> e \<noteq> None
        \<and> (\<exists>n \<le> length bs. w_data w' ?i = splice (of_pos f) (take n bs) (w_data w ?i))
        \<and> (reliable E \<longrightarrow> max_offset < of_pos f + length bs)" for e :: "io_kind option" and w'
  have "wp (write_all (sys_write E fd) bs) (\<lambda>_. I bs) R w"
  proof (rule write_all_wp)
    fix out rest w1
    assume I: "I out w1" and bs: "bs = out @ rest" and ne: "rest \<noteq> []"
    then have fr: "frame {fd} {?i} w w1"
      and d: "w_data w1 ?i = splice (of_pos f) out (w_data w ?i)"
      and o1: "w_open w1 fd = Some (f\<lparr>of_pos := of_pos f + length out\<rparr>)"
      by (simp_all add: I_def)
    have out: "take (length out) bs = out" "length out \<le> length bs" using bs by simp_all
    show "wp (sys_write E fd rest)
        (\<lambda>n w'. n \<le> length rest \<and> I (out @ take n rest) w' \<and> (n = 0 \<longrightarrow> R (Some WriteZero) w')) R w1"
    proof (rule wp_conseq [OF sys_write_wp [OF o1]])
      show "of_writable (f\<lparr>of_pos := of_pos f + length out\<rparr>)" using f(2) by simp
    next
      fix n w2
      assume "frame {fd} {of_inode (f\<lparr>of_pos := of_pos f + length out\<rparr>)} w1 w2 \<and> n \<le> length rest
        \<and> of_pos (f\<lparr>of_pos := of_pos f + length out\<rparr>) + length rest \<le> max_offset
        \<and> w_data w2 (of_inode (f\<lparr>of_pos := of_pos f + length out\<rparr>)) =
            splice (of_pos (f\<lparr>of_pos := of_pos f + length out\<rparr>)) (take n rest)
              (w_data w1 (of_inode (f\<lparr>of_pos := of_pos f + length out\<rparr>)))
        \<and> (reliable E \<longrightarrow> rest \<noteq> [] \<longrightarrow> 0 < n)
        \<and> w_open w2 fd = Some (f\<lparr>of_pos := of_pos f + length out, of_pos :=
              of_pos (f\<lparr>of_pos := of_pos f + length out\<rparr>) + n\<rparr>)"
      then have s: "frame {fd} {?i} w1 w2" "n \<le> length rest" "reliable E \<Longrightarrow> 0 < n"
        and d2: "w_data w2 ?i = splice (of_pos f + length out) (take n rest) (w_data w1 ?i)"
        and o2: "w_open w2 fd = Some (f\<lparr>of_pos := of_pos f + length out + n\<rparr>)"
        using ne by auto
      have "I (out @ take n rest) w2"
        using frame_trans [OF fr s(1)] s(2) d2 o2 d by (simp add: I_def splice_append add.assoc)
      moreover from this have "R (Some WriteZero) w2" if "n = 0"
        using that s(3) out by (auto simp: I_def R_def intro!: exI [of _ "length out"])
      ultimately show "n \<le> length rest \<and> I (out @ take n rest) w2 \<and> (n = 0 \<longrightarrow> R (Some WriteZero) w2)"
        using s(2) by blast
    next
      fix e :: "io_kind option" and w2
      assume "frame {} {} w1 w2 \<and> e \<noteq> None
        \<and> (reliable E \<longrightarrow> max_offset < of_pos (f\<lparr>of_pos := of_pos f + length out\<rparr>) + length rest)"
      then have s: "frame {} {} w1 w2" "e \<noteq> None"
        "reliable E \<longrightarrow> max_offset < of_pos f + length bs"
        by (simp_all add: bs add.assoc)
      have "frame {fd} {?i} w w2"
        using frame_trans [OF fr frame_mono [OF s(1)]] by simp
      moreover have "w_data w2 ?i = w_data w1 ?i" using frameD(6) [OF s(1)] by simp
      ultimately show "R e w2"
        using s out d by (auto simp: R_def intro!: exI [of _ "length out"])
    qed
  next
    show "I [] w" using f by (simp add: I_def)
  qed
  then show ?thesis
    unfolding file_write_all_def by (rule wp_conseq) (simp_all add: I_def R_def)
qed

lemma file_read_exact_wp:
  assumes f: "w_open w fd = Some f"
  shows "wp (file_read_exact E fd n)
     (\<lambda>bs w'. frame {fd} {} w w' \<and> of_pos f + n \<le> max (length (w_data w (of_inode f))) (of_pos f)
        \<and> length bs = n \<and> bs = take n (drop (of_pos f) (w_data w (of_inode f)))
        \<and> w_open w' fd = Some (f\<lparr>of_pos := of_pos f + n\<rparr>))
     (\<lambda>e w'. frame {fd} {} w w' \<and> e \<noteq> None
        \<and> (reliable E \<longrightarrow> e = Some UnexpectedEofKind \<and> length (w_data w (of_inode f)) < of_pos f + n)) w"
proof -
  let ?d = "w_data w (of_inode f)"
  define I where "I got w' \<longleftrightarrow> frame {fd} {} w w' \<and> got = take (length got) (drop (of_pos f) ?d)
      \<and> w_open w' fd = Some (f\<lparr>of_pos := of_pos f + length got\<rparr>)" for got w'
  define R where "R e w' \<longleftrightarrow> frame {fd} {} w w' \<and> e \<noteq> None
        \<and> (reliable E \<longrightarrow> e = Some UnexpectedEofKind \<and> length ?d < of_pos f + n)" for e w'
  have "wp (read_full (sys_read E fd) n) (\<lambda>bs w'. length bs = n \<and> I bs w') R w"
  proof (rule read_full_wp)
    fix got m w1
    assume I: "I got w1" and m: "length got + m = n" "0 < m"
    then have fr: "frame {fd} {} w w1" and g: "got = take (length got) (drop (of_pos f) ?d)"
      and o1: "w_open w1 fd = Some (f\<lparr>of_pos := of_pos f + length got\<rparr>)"
      by (simp_all add: I_def)
    have d1: "w_data w1 = w_data w" using frameD(6) [OF fr] by (simp add: fun_eq_iff)
    show "wp (sys_read E fd m) (\<lambda>bs w'. length bs \<le> m \<and> I (got @ bs) w'
        \<and> (bs = [] \<longrightarrow> R (Some UnexpectedEofKind) w')) R w1"
    proof (rule wp_conseq [OF sys_read_wp [OF o1]], goal_cases)
      case (1 bs w2)
      then have s: "frame {fd} {} w1 w2" "length bs \<le> m"
        and bs: "bs = take (length bs) (drop (length got) (drop (of_pos f) ?d))"
        and e: "bs = [] \<Longrightarrow> length ?d \<le> of_pos f + length got"
        and o2: "w_open w2 fd = Some (f\<lparr>of_pos := of_pos f + (length got + length bs)\<rparr>)"
        using m(2) by (auto simp: d1 add.commute add.left_commute)
      have "got @ bs = take (length got + length bs) (drop (of_pos f) ?d)"
        using g bs by (metis take_add)
      then have "got @ bs = take (length (got @ bs)) (drop (of_pos f) ?d)"
        by (metis length_append)
      moreover have "w_open w2 fd = Some (f\<lparr>of_pos := of_pos f + length (got @ bs)\<rparr>)"
        using o2 by simp
      ultimately have "I (got @ bs) w2"
        unfolding I_def using frame_trans [OF fr s(1)] by blast
      moreover from this have "R (Some UnexpectedEofKind) w2" if "bs = []"
        using e [OF that] m by (auto simp: I_def R_def)
      ultimately show ?case using s(2) by blast
    next
      case (2 e w2)
      then show ?case
        using frame_trans [OF fr frame_mono [of "{}" "{}" w1 w2]] by (simp add: R_def)
    qed
  next
    show "I [] w" using f by (simp add: I_def)
  qed
  then show ?thesis
    unfolding file_read_exact_def
    by (rule wp_conseq) (auto simp: I_def R_def max_def dest: arg_cong [where f = length])
qed

section \<open>Calls on names\<close>

lemma sys_open_wp:
  "wp (sys_open E p writable)
     (\<lambda>fd w'. fd = w_next_fd w \<and> (\<exists>i. w_names w p = Some i \<and>
        w' = tick (w\<lparr>w_open := (w_open w)(fd \<mapsto> \<lparr>of_inode = i, of_pos = 0, of_writable = writable\<rparr>),
                     w_next_fd := fd + 1\<rparr>)))
     (\<lambda>e w'. w' = tick w \<and> e \<noteq> None \<and> (reliable E \<longrightarrow> w_names w p = None)
        \<and> (reliable E \<and> p \<notin> set (w_dirs w) \<longrightarrow> e = Some NotFound)) w"
  unfolding sys_open_def by (rule syscall_spec) (auto simp: wp_def split: option.splits)

lemma sys_create_new_wp:
  "wp (sys_create_new E p)
     (\<lambda>fd w'. fd = w_next_fd w \<and> w_names w p = None \<and> p \<notin> set (w_dirs w) \<and>
        w' = tick (w\<lparr>w_names := (w_names w)(p \<mapsto> w_next w),
              w_data := (w_data w)(w_next w := []), w_next := w_next w + 1,
              w_open := (w_open w)(fd \<mapsto> \<lparr>of_inode = w_next w, of_pos = 0, of_writable = True\<rparr>),
              w_next_fd := fd + 1\<rparr>))
     (\<lambda>e w'. w' = tick w \<and> e \<noteq> None
        \<and> (reliable E \<longrightarrow> (if e = Some AlreadyExists then w_names w p \<noteq> None \<or> p \<in> set (w_dirs w)
             else butlast p \<notin> set (w_dirs w)))) w"
  unfolding sys_create_new_def by (rule syscall_spec) (auto simp: wp_def)

lemma sys_rename_wp:
  "wp (sys_rename E p q)
     (\<lambda>_ w'. \<exists>i. w_names w p = Some i \<and> w' = tick (w\<lparr>w_names := (w_names w)(p := None, q \<mapsto> i)\<rparr>))
     (\<lambda>e w'. w' = tick w \<and> e \<noteq> None
        \<and> (reliable E \<longrightarrow> w_names w p = None \<or> q \<in> set (w_dirs w) \<or> butlast q \<notin> set (w_dirs w))) w"
  unfolding sys_rename_def by (rule syscall_spec) (auto simp: wp_def split: option.splits)

lemma sys_remove_wp:
  "wp (sys_remove E p)
     (\<lambda>_ w'. w_names w p \<noteq> None \<and> w' = tick (w\<lparr>w_names := (w_names w)(p := None)\<rparr>))
     (\<lambda>e w'. w' = tick w \<and> e \<noteq> None \<and> (reliable E \<longrightarrow> w_names w p = None \<and> e = Some NotFound)) w"
  unfolding sys_remove_def by (rule syscall_spec) (auto simp: wp_def split: option.splits)

lemma sys_sync_all_wp: "wp (sys_sync_all E fd) (\<lambda>_ w'. w' = tick w) (\<lambda>e w'. w' = tick w \<and> e \<noteq> None \<and> \<not> reliable E) w"
  unfolding sys_sync_all_def by (rule syscall_spec) (auto simp: wp_def)

lemma sys_try_clone_wp:
  "wp (sys_try_clone E fd) (\<lambda>fd' w'. fd' = fd \<and> w' = tick w) (\<lambda>e w'. w' = tick w \<and> e \<noteq> None \<and> \<not> reliable E) w"
  unfolding sys_try_clone_def by (rule syscall_spec) (auto simp: wp_def)

lemma sys_open_dir_wp: "wp (sys_open_dir E p) (\<lambda>_ w'. w' = tick w) (\<lambda>e w'. w' = tick w \<and> e \<noteq> None) w"
  unfolding sys_open_dir_def by (rule syscall_spec) (auto simp: wp_def)

section \<open>Well-formed worlds\<close>

text \<open>Every directory entry and every handle refers to a file that exists; new numbers are fresh.\<close>

definition world_ok :: "world \<Rightarrow> bool" where
  "world_ok w \<longleftrightarrow>
     (\<forall>p i. w_names w p = Some i \<longrightarrow> i < w_next w) \<and>
     (\<forall>fd f. w_open w fd = Some f \<longrightarrow> of_inode f < w_next w \<and> fd < w_next_fd w)"

lemma world_ok_frame:
  assumes "frame F I w w'" and "world_ok w"
  shows "world_ok w'"
proof -
  have same: "map_option (\<lambda>f. (of_inode f, of_writable f)) (w_open w' fd) =
      map_option (\<lambda>f. (of_inode f, of_writable f)) (w_open w fd)" for fd
    using assms(1) by (simp add: frame_def)
  have "of_inode f < w_next w \<and> fd < w_next_fd w" if opened: "w_open w' fd = Some f" for fd f
  proof -
    obtain g where "w_open w fd = Some g" "of_inode g = of_inode f"
      using same [of fd] opened by (cases "w_open w fd") auto
    with assms(2) show ?thesis by (metis world_ok_def)
  qed
  with assms frameD [OF assms(1)] show ?thesis by (simp add: world_ok_def)
qed

lemma world_ok_tick [simp]: "world_ok (tick w) \<longleftrightarrow> world_ok w"
  by (simp add: world_ok_def)

end
