(* ===== verification/TimeTypes.thy ===== *)
theory TimeTypes
  imports Primitives
begin

text \<open>
  \<open>src/src/types/time.rs\<close>: the fixed-width date and time types, with the sizes and type keys that
  the derive macro of \<open>src/macros/src/object_type/mod.rs\<close> generates from their attributes.
\<close>

section \<open>The derive macro\<close>

text \<open>
  \<open>ObjectTypeAttributes\<close>: the three optional literals of \<open>#[object_type(...)]\<close>. \<open>const_size\<close> also
  sets \<open>size\<close> when no \<open>size\<close> is given, whatever the order of the attributes.
\<close>

record object_type_attributes =
  attr_size :: "nat option"
  attr_const_size :: "nat option"
  attr_type_key :: "nat option"

datatype attr_token = KwSize | KwConstSize | KwTypeKey | TokEq | TokComma | TokLit nat | TokOther

datatype macro_error =
    ExpectedAttribute \<comment> \<open>\<open>Expected size, const_size, or type_key attribute\<close>\<close>
  | SyntaxError
  | AttributeRequired
  | OneUnnamedField
  | EnumsOnly

fun parse_assignment :: "attr_token list \<Rightarrow> (nat \<times> attr_token list, macro_error) res" where
  "parse_assignment (TokEq # TokLit n # ts) = Ok (n, ts)"
| "parse_assignment ts = Err SyntaxError"

lemma parse_assignment_shorter: "parse_assignment ts = Ok (n, rest) \<Longrightarrow> length rest < length ts"
  by (cases ts rule: parse_assignment.cases) auto

text \<open>
  The parse loop; a comma is required to go on, and what follows the last attribute without a comma
  is left to the caller. A literal is stored as it stands: its range is checked where the generated
  code is compiled.
\<close>

function parse_attributes ::
  "object_type_attributes \<Rightarrow> attr_token list \<Rightarrow> (object_type_attributes \<times> attr_token list, macro_error) res" where
  "parse_attributes a ts =
     (case ts of
        [] \<Rightarrow> Ok (a, [])
      | t # ts' \<Rightarrow>
          if t = KwSize \<or> t = KwConstSize \<or> t = KwTypeKey then
            res_bind (parse_assignment ts') (\<lambda>(n, rest).
              let a' = (if t = KwSize then a\<lparr>attr_size := Some n\<rparr>
                        else if t = KwConstSize then a\<lparr>attr_const_size := Some n\<rparr>
                        else a\<lparr>attr_type_key := Some n\<rparr>)
              in (case rest of TokComma # rest' \<Rightarrow> parse_attributes a' rest' | _ \<Rightarrow> Ok (a', rest)))
          else Err ExpectedAttribute)"
  by pat_completeness auto
termination
  by (relation "measure (\<lambda>(a, ts). length ts)") (auto dest!: parse_assignment_shorter)

declare parse_attributes.simps [simp del]

definition parse_object_type :: "attr_token list \<Rightarrow> (object_type_attributes, macro_error) res" where
  "parse_object_type ts =
     res_bind (parse_attributes \<lparr>attr_size = None, attr_const_size = None, attr_type_key = None\<rparr> ts)
       (\<lambda>(a, rest).
          if rest \<noteq> [] then Err SyntaxError
          else Ok (case attr_const_size a of
                     Some n \<Rightarrow> if attr_size a = None then a\<lparr>attr_size := Some n\<rparr> else a
                   | None \<Rightarrow> a))"

text \<open>
  What \<open>expand\<close> generates: a \<open>TuxIOType\<close> implementation with a constant \<open>size()\<close> only when a size is
  known, \<open>const_size()\<close> inside it only when given, and a type key only when given. \<open>None\<close> is a
  derive without the attribute.
\<close>

record generated_impls =
  gen_size :: "nat option"
  gen_const_size :: "nat option"
  gen_type_key :: "nat option"

definition expand_object_type :: "attr_token list option \<Rightarrow> (generated_impls, macro_error) res" where
  "expand_object_type attr =
     (case attr of
        None \<Rightarrow> Err AttributeRequired
      | Some ts \<Rightarrow> res_bind (parse_object_type ts) (\<lambda>a.
          Ok \<lparr>gen_size = attr_size a,
              gen_const_size = (if attr_size a = None then None else attr_const_size a),
              gen_type_key = attr_type_key a\<rparr>))"

section \<open>Dates and times\<close>

definition raw_date_size :: "raw_date \<Rightarrow> nat" where
  "raw_date_size d = 4"

definition write_raw_date :: "(raw_date, 'w) encoder" where
  "write_raw_date wr d w =
     res_bind (write_num wr (date_year d) w) (\<lambda>w.
     res_bind (write_num wr (date_month d) w) (\<lambda>w.
     write_num wr (date_day d) w))"

definition raw_date_read_size :: "nat decoder" where
  "raw_date_read_size c = Ok (4, c)"

definition read_raw_date :: "raw_date decoder" where
  "read_raw_date c =
     res_bind (read_num c) (\<lambda>(year, c).
     res_bind (read_num c) (\<lambda>(month, c).
     res_bind (read_num c) (\<lambda>(day, c).
     Ok (\<lparr>date_year = year, date_month = month, date_day = day\<rparr>, c))))"

definition raw_time_size :: "raw_time \<Rightarrow> nat" where
  "raw_time_size t = 8"

definition write_raw_time :: "(raw_time, 'w) encoder" where
  "write_raw_time wr t w =
     res_bind (write_num wr (seconds_from_midnight t) w) (\<lambda>w.
     write_num wr (nanoseconds t) w)"

definition raw_time_read_size :: "nat decoder" where
  "raw_time_read_size c = Ok (8, c)"

definition read_raw_time :: "raw_time decoder" where
  "read_raw_time c =
     res_bind (read_num c) (\<lambda>(seconds, c).
     res_bind (read_num c) (\<lambda>(nanos, c).
     Ok (\<lparr>seconds_from_midnight = seconds, nanoseconds = nanos\<rparr>, c)))"

definition raw_time_zone_size :: "raw_time_zone \<Rightarrow> nat" where
  "raw_time_zone_size z = 4"

definition write_raw_time_zone :: "(raw_time_zone, 'w) encoder" where
  "write_raw_time_zone wr z w = write_num wr (tz_offset z) w"

definition raw_time_zone_read_size :: "nat decoder" where
  "raw_time_zone_read_size c = Ok (4, c)"

definition read_raw_time_zone :: "raw_time_zone decoder" where
  "read_raw_time_zone c = res_bind (read_num c) (\<lambda>(offset, c). Ok (\<lparr>tz_offset = offset\<rparr>, c))"

definition raw_date_time_size :: "raw_date_time \<Rightarrow> nat" where
  "raw_date_time_size d = 16"

definition write_raw_date_time :: "(raw_date_time, 'w) encoder" where
  "write_raw_date_time wr d w =
     res_bind (write_raw_date wr (dt_date d) w) (\<lambda>w.
     res_bind (write_raw_time wr (dt_time d) w) (\<lambda>w.
     write_raw_time_zone wr (dt_timezone d) w))"

definition raw_date_time_read_size :: "nat decoder" where
  "raw_date_time_read_size c = Ok (16, c)"

definition read_raw_date_time :: "raw_date_time decoder" where
  "read_raw_date_time c =
     res_bind (read_raw_date c) (\<lambda>(date, c).
     res_bind (read_raw_time c) (\<lambda>(time, c).
     res_bind (read_raw_time_zone c) (\<lambda>(timezone, c).
     Ok (\<lparr>dt_date = date, dt_time = time, dt_timezone = timezone\<rparr>, c))))"

section \<open>Wire forms\<close>

definition wire_raw_date :: "raw_date \<Rightarrow> u8 list" where
  "wire_raw_date d = to_le_bytes (date_year d) @ to_le_bytes (date_month d) @ to_le_bytes (date_day d)"

definition wire_raw_time :: "raw_time \<Rightarrow> u8 list" where
  "wire_raw_time t = to_le_bytes (seconds_from_midnight t) @ to_le_bytes (nanoseconds t)"

definition wire_raw_time_zone :: "raw_time_zone \<Rightarrow> u8 list" where
  "wire_raw_time_zone z = to_le_bytes (tz_offset z)"

definition wire_raw_date_time :: "raw_date_time \<Rightarrow> u8 list" where
  "wire_raw_date_time d =
     wire_raw_date (dt_date d) @ wire_raw_time (dt_time d) @ wire_raw_time_zone (dt_timezone d)"

lemmas wire_time_defs =
  wire_raw_date_def wire_raw_time_def wire_raw_time_zone_def wire_raw_date_time_def

lemma length_wire_times [simp]:
  "length (wire_raw_date d) = 4"
  "length (wire_raw_time t) = 8"
  "length (wire_raw_time_zone z) = 4"
  "length (wire_raw_date_time dt) = 16"
  by (simp_all add: wire_time_defs)

context byte_sink
begin

lemma write_times_wire:
  "write_raw_date wr d w = wr (wire_raw_date d) w"
  "write_raw_time wr t w = wr (wire_raw_time t) w"
  "write_raw_time_zone wr z w = wr (wire_raw_time_zone z) w"
  "write_raw_date_time wr dt w = wr (wire_raw_date_time dt) w"
  by (simp_all add: write_raw_date_def write_raw_time_def write_raw_time_zone_def
      write_raw_date_time_def write_num_def wire_time_defs)

end

lemma read_raw_date_cur_iff [simp]:
  "read_raw_date (cur pre rest) = Ok (d, c) \<longleftrightarrow>
     (\<exists>post. rest = wire_raw_date d @ post \<and> c = cur (pre @ wire_raw_date d) post)"
  by (cases d) (auto simp: read_raw_date_def wire_raw_date_def res_dest)

lemma read_raw_time_cur_iff [simp]:
  "read_raw_time (cur pre rest) = Ok (t, c) \<longleftrightarrow>
     (\<exists>post. rest = wire_raw_time t @ post \<and> c = cur (pre @ wire_raw_time t) post)"
  by (cases t) (auto simp: read_raw_time_def wire_raw_time_def res_dest)

lemma read_raw_time_zone_cur_iff [simp]:
  "read_raw_time_zone (cur pre rest) = Ok (z, c) \<longleftrightarrow>
     (\<exists>post. rest = wire_raw_time_zone z @ post \<and> c = cur (pre @ wire_raw_time_zone z) post)"
  by (cases z) (auto simp: read_raw_time_zone_def wire_raw_time_zone_def res_dest)

lemma read_raw_date_time_cur_iff [simp]:
  "read_raw_date_time (cur pre rest) = Ok (d, c) \<longleftrightarrow>
     (\<exists>post. rest = wire_raw_date_time d @ post \<and> c = cur (pre @ wire_raw_date_time d) post)"
  by (cases d) (auto simp: read_raw_date_time_def wire_raw_date_time_def res_dest)

lemma time_readers_not_Panic [simp]:
  "read_raw_date c \<noteq> Panic"
  "read_raw_time c \<noteq> Panic"
  "read_raw_time_zone c \<noteq> Panic"
  "read_raw_date_time c \<noteq> Panic"
  by (auto simp: read_raw_date_def read_raw_time_def read_raw_time_zone_def read_raw_date_time_def
      split: prod.splits)

interpretation raw_date: canonical_type raw_date_size wire_raw_date read_raw_date "\<lambda>_. True"
  by (rule canonical_typeI) (auto simp: raw_date_size_def)

interpretation raw_time: canonical_type raw_time_size wire_raw_time read_raw_time "\<lambda>_. True"
  by (rule canonical_typeI) (auto simp: raw_time_size_def)

interpretation raw_time_zone: canonical_type raw_time_zone_size wire_raw_time_zone read_raw_time_zone "\<lambda>_. True"
  by (rule canonical_typeI) (auto simp: raw_time_zone_size_def)

interpretation raw_date_time: canonical_type raw_date_time_size wire_raw_date_time read_raw_date_time "\<lambda>_. True"
  by (rule canonical_typeI) (auto simp: raw_date_time_size_def)

end
