(* ===== verification/Value.thy ===== *)
theory Value
  imports TimeTypes
begin

text \<open>
  \<open>src/src/value.rs\<close> with the implementations that the derive macro \<open>ValueEnum\<close> of
  \<open>src/macros/src/value_enum/mod.rs\<close> generates for it: a value is a one-byte type key followed by
  the encoding of the inner type. The build has the \<open>uuid\<close> feature.
\<close>

section \<open>The value enum\<close>

datatype value_type =
    VString "u8 list"
  | VBytes "u8 list"
  | VBool bool
  | VU8 u8
  | VU16 u16
  | VU32 u32
  | VU64 u64
  | VI8 i8
  | VI16 i16
  | VI32 i32
  | VI64 i64
  | VF32 f32
  | VF64 f64
  | VDate raw_date
  | VTime raw_time
  | VRawDateTime raw_date_time
  | VUuid "u8 list"

fun value_as_str :: "value_type \<Rightarrow> u8 list option" where
  "value_as_str (VString s) = Some s"
| "value_as_str _ = None"

text \<open>\<open>ConstTypedObjectType::TYPE_KEY\<close> of the inner type of each variant.\<close>

fun value_key :: "value_type \<Rightarrow> u8" where
  "value_key (VU8 _) = 0"
| "value_key (VU16 _) = 1"
| "value_key (VU32 _) = 2"
| "value_key (VU64 _) = 3"
| "value_key (VI8 _) = 4"
| "value_key (VI16 _) = 5"
| "value_key (VI32 _) = 6"
| "value_key (VI64 _) = 7"
| "value_key (VF32 _) = 8"
| "value_key (VF64 _) = 9"
| "value_key (VBool _) = 10"
| "value_key (VBytes _) = 11"
| "value_key (VString _) = 12"
| "value_key (VDate _) = 13"
| "value_key (VTime _) = 14"
| "value_key (VRawDateTime _) = 16"
| "value_key (VUuid _) = 17"

fun value_const_size :: "value_type \<Rightarrow> nat option" where
  "value_const_size (VString s) = map_option Suc None"
| "value_const_size (VBytes b) = map_option Suc None"
| "value_const_size (VBool b) = map_option Suc (Some 1)"
| "value_const_size (VU8 n) = map_option Suc (Some 1)"
| "value_const_size (VU16 n) = map_option Suc (Some 2)"
| "value_const_size (VU32 n) = map_option Suc (Some 4)"
| "value_const_size (VU64 n) = map_option Suc (Some 8)"
| "value_const_size (VI8 n) = map_option Suc (Some 1)"
| "value_const_size (VI16 n) = map_option Suc (Some 2)"
| "value_const_size (VI32 n) = map_option Suc (Some 4)"
| "value_const_size (VI64 n) = map_option Suc (Some 8)"
| "value_const_size (VF32 n) = map_option Suc (Some 4)"
| "value_const_size (VF64 n) = map_option Suc (Some 8)"
| "value_const_size (VDate d) = map_option Suc (Some 4)"
| "value_const_size (VTime t) = map_option Suc (Some 8)"
| "value_const_size (VRawDateTime d) = map_option Suc (Some 16)"
| "value_const_size (VUuid u) = map_option Suc (Some 16)"

fun value_size :: "value_type \<Rightarrow> nat" where
  "value_size (VString s) = string_size s + 1"
| "value_size (VBytes b) = vec_size num_size b + 1"
| "value_size (VBool b) = bool_size b + 1"
| "value_size (VU8 n) = num_size n + 1"
| "value_size (VU16 n) = num_size n + 1"
| "value_size (VU32 n) = num_size n + 1"
| "value_size (VU64 n) = num_size n + 1"
| "value_size (VI8 n) = num_size n + 1"
| "value_size (VI16 n) = num_size n + 1"
| "value_size (VI32 n) = num_size n + 1"
| "value_size (VI64 n) = num_size n + 1"
| "value_size (VF32 n) = num_size n + 1"
| "value_size (VF64 n) = num_size n + 1"
| "value_size (VDate d) = raw_date_size d + 1"
| "value_size (VTime t) = raw_time_size t + 1"
| "value_size (VRawDateTime d) = raw_date_time_size d + 1"
| "value_size (VUuid u) = uuid_size u + 1"

fun write_inner :: "(value_type, 'w) encoder" where
  "write_inner wr (VString s) w = write_string wr s w"
| "write_inner wr (VBytes b) w = write_vec write_num wr b w"
| "write_inner wr (VBool b) w = write_bool wr b w"
| "write_inner wr (VU8 n) w = write_num wr n w"
| "write_inner wr (VU16 n) w = write_num wr n w"
| "write_inner wr (VU32 n) w = write_num wr n w"
| "write_inner wr (VU64 n) w = write_num wr n w"
| "write_inner wr (VI8 n) w = write_num wr n w"
| "write_inner wr (VI16 n) w = write_num wr n w"
| "write_inner wr (VI32 n) w = write_num wr n w"
| "write_inner wr (VI64 n) w = write_num wr n w"
| "write_inner wr (VF32 n) w = write_num wr n w"
| "write_inner wr (VF64 n) w = write_num wr n w"
| "write_inner wr (VDate d) w = write_raw_date wr d w"
| "write_inner wr (VTime t) w = write_raw_time wr t w"
| "write_inner wr (VRawDateTime d) w = write_raw_date_time wr d w"
| "write_inner wr (VUuid u) w = write_uuid wr u w"

definition write_value :: "(value_type, 'w) encoder" where
  "write_value wr v w = res_bind (wr [value_key v] w) (\<lambda>w. write_inner wr v w)"

text \<open>The generated \<open>match\<close> on the type key, in the order of the variants.\<close>

definition read_value :: "value_type decoder" where
  "read_value c = res_bind (read_num c) (\<lambda>(type_key :: u8, c).
     if type_key = 12 then read_map VString (read_string c)
     else if type_key = 11 then read_map VBytes (read_vec read_num c)
     else if type_key = 10 then read_map VBool (read_bool c)
     else if type_key = 0 then read_map VU8 (read_num c)
     else if type_key = 1 then read_map VU16 (read_num c)
     else if type_key = 2 then read_map VU32 (read_num c)
     else if type_key = 3 then read_map VU64 (read_num c)
     else if type_key = 4 then read_map VI8 (read_num c)
     else if type_key = 5 then read_map VI16 (read_num c)
     else if type_key = 6 then read_map VI32 (read_num c)
     else if type_key = 7 then read_map VI64 (read_num c)
     else if type_key = 8 then read_map VF32 (read_num c)
     else if type_key = 9 then read_map VF64 (read_num c)
     else if type_key = 13 then read_map VDate (read_raw_date c)
     else if type_key = 14 then read_map VTime (read_raw_time c)
     else if type_key = 16 then read_map VRawDateTime (read_raw_date_time c)
     else if type_key = 17 then read_map VUuid (read_uuid c)
     else Err (UnknownTypeKey type_key))"

definition inner_read_size :: "u8 \<Rightarrow> nat decoder" where
  "inner_read_size type_key c =
    (if type_key = 12 then string_read_size c
     else if type_key = 11 then vec_read_size c
     else if type_key = 10 then bool_read_size c
     else if type_key = 0 then num_read_size TYPE(8) c
     else if type_key = 1 then num_read_size TYPE(16) c
     else if type_key = 2 then num_read_size TYPE(32) c
     else if type_key = 3 then num_read_size TYPE(64) c
     else if type_key = 4 then num_read_size TYPE(8) c
     else if type_key = 5 then num_read_size TYPE(16) c
     else if type_key = 6 then num_read_size TYPE(32) c
     else if type_key = 7 then num_read_size TYPE(64) c
     else if type_key = 8 then num_read_size TYPE(32) c
     else if type_key = 9 then num_read_size TYPE(64) c
     else if type_key = 13 then raw_date_read_size c
     else if type_key = 14 then raw_time_read_size c
     else if type_key = 16 then raw_date_time_read_size c
     else if type_key = 17 then uuid_read_size c
     else Err (UnknownTypeKey type_key))"

definition value_read_size :: "nat decoder" where
  "value_read_size c = res_bind (read_num c) (\<lambda>(type_key :: u8, c).
     res_bind (inner_read_size type_key c) (\<lambda>(n, c). Ok (n + 1, c)))"

section \<open>The derive macro\<close>

text \<open>
  What the macro accepts: an enum whose every variant is a tuple variant with exactly one field.
  \<open>None\<close> is any other item. It generates one arm per variant, in order, and a reader tries the arms
  in that order.
\<close>

datatype variant_fields = Unnamed nat | Named nat | Unit

record enum_variant =
  v_ident :: string
  v_fields :: variant_fields

definition value_variant :: "enum_variant \<Rightarrow> (enum_variant, macro_error) res" where
  "value_variant v = (if v_fields v = Unnamed 1 then Ok v else Err OneUnnamedField)"

fun collect_variants :: "enum_variant list \<Rightarrow> (enum_variant list, macro_error) res" where
  "collect_variants [] = Ok []"
| "collect_variants (v # vs) =
     res_bind (value_variant v) (\<lambda>x. res_bind (collect_variants vs) (\<lambda>xs. Ok (x # xs)))"

definition expand_value_enum :: "enum_variant list option \<Rightarrow> (enum_variant list, macro_error) res" where
  "expand_value_enum item = (case item of None \<Rightarrow> Err EnumsOnly | Some vs \<Rightarrow> collect_variants vs)"

section \<open>The wire form of a value\<close>

fun wire_inner :: "value_type \<Rightarrow> u8 list" where
  "wire_inner (VString s) = wire_block s"
| "wire_inner (VBytes b) = wire_block b"
| "wire_inner (VBool b) = wire_bool b"
| "wire_inner (VU8 n) = to_le_bytes n"
| "wire_inner (VU16 n) = to_le_bytes n"
| "wire_inner (VU32 n) = to_le_bytes n"
| "wire_inner (VU64 n) = to_le_bytes n"
| "wire_inner (VI8 n) = to_le_bytes n"
| "wire_inner (VI16 n) = to_le_bytes n"
| "wire_inner (VI32 n) = to_le_bytes n"
| "wire_inner (VI64 n) = to_le_bytes n"
| "wire_inner (VF32 n) = to_le_bytes n"
| "wire_inner (VF64 n) = to_le_bytes n"
| "wire_inner (VDate d) = wire_raw_date d"
| "wire_inner (VTime t) = wire_raw_time t"
| "wire_inner (VRawDateTime d) = wire_raw_date_time d"
| "wire_inner (VUuid u) = u"

definition wire_value :: "value_type \<Rightarrow> u8 list" where
  "wire_value v = value_key v # wire_inner v"

text \<open>What the Rust types guarantee of a value, and the limit of its length prefix.\<close>

fun value_ok :: "value_type \<Rightarrow> bool" where
  "value_ok (VString s) \<longleftrightarrow> string_ok s"
| "value_ok (VBytes b) \<longleftrightarrow> block_ok b"
| "value_ok (VUuid u) \<longleftrightarrow> uuid_ok u"
| "value_ok _ \<longleftrightarrow> True"

lemma value_size_wire: "value_ok v \<Longrightarrow> length (wire_value v) = value_size v"
  by (cases v) (auto simp: wire_value_def string_size_def vec_size_def num_size_def bool_size_def
      raw_date_size_def raw_time_size_def raw_date_time_size_def uuid_size_def uuid_ok_def
      wire_bool_def sum_list_triv)

context byte_sink
begin

lemma write_inner_wire: "value_ok v \<Longrightarrow> write_inner wr v w = wr (wire_inner v) w"
  by (cases v) (auto simp: write_string_wire write_byte_vec_wire write_bool_wire write_num_wire
      write_times_wire write_uuid_wire string_ok_def block_ok_def)

lemma write_value_wire:
  assumes "value_ok v"
  shows "write_value wr v w = wr (wire_value v) w"
proof -
  have "write_inner wr v = wr (wire_inner v)"
    using write_inner_wire [OF assms] by blast
  then show ?thesis
    using sink_then [of "[value_key v]" w "wire_inner v"]
    by (simp add: write_value_def wire_value_def)
qed

end

lemma read_key_cur: "read_num (cur pre (k # post)) = Ok (k :: u8, cur (pre @ [k]) post)"
  by (simp add: to_le_bytes_byte)

lemma read_value_wire:
  "value_ok v \<Longrightarrow> read_value (cur pre (wire_value v @ post)) = Ok (v, cur (pre @ wire_value v) post)"
  by (cases v) (simp_all add: read_value_def wire_value_def read_key_cur string.rd_enc byte_vec.rd_enc
      bool.rd_enc raw_date.rd_enc raw_time.rd_enc raw_date_time.rd_enc uuid.rd_enc)

lemma read_value_inv:
  assumes "read_value (cur pre rest) = Ok (v, c)"
  shows "value_ok v \<and> (\<exists>post. rest = wire_value v @ post \<and> c = cur (pre @ wire_value v) post)"
proof (cases rest)
  case Nil
  with assms show ?thesis by (simp add: read_value_def read_num_def read_exact_short)
next
  case (Cons k post)
  with assms show ?thesis
    by (auto simp: read_value_def read_key_cur res_dest wire_value_def uuid.rd_iff split: if_splits)
qed

lemma read_uuid_not_Panic [simp]: "read_uuid c \<noteq> Panic"
  by (simp add: read_uuid_def)

lemma read_value_not_Panic [simp]: "read_value c \<noteq> Panic"
  by (auto simp: read_value_def split: if_splits)

interpretation val_type: canonical_type value_size wire_value read_value value_ok
proof
  show "value_ok v \<Longrightarrow> length (wire_value v) = value_size v" for v
    by (rule value_size_wire)
  show "value_ok v \<Longrightarrow> read_value (cur pre (wire_value v @ post)) = Ok (v, cur (pre @ wire_value v) post)"
    for v pre post by (rule read_value_wire)
  show "value_ok v \<and> (\<exists>post. rest = wire_value v @ post \<and> c = cur (pre @ wire_value v) post)"
    if "read_value (cur pre rest) = Ok (v, c)" for pre rest v c
    using that by (rule read_value_inv)
qed simp

lemma value_read_size_wire:
  "value_ok v \<Longrightarrow> \<exists>c. value_read_size (cur pre (wire_value v @ post)) = Ok (value_size v, c)
      \<and> c_data c = pre @ wire_value v @ post"
  by (cases v) (simp_all add: value_read_size_def inner_read_size_def wire_value_def read_key_cur
      string_ok_block string_size_def vec_size_def num_size_def num_read_size_def bool_size_def
      bool_read_size_def raw_date_size_def raw_date_read_size_def raw_time_size_def
      raw_time_read_size_def raw_date_time_size_def raw_date_time_read_size_def uuid_size_def
      uuid_read_size_def sum_list_triv block_wire_split [symmetric])

interpretation value_m: measured_type value_size wire_value read_value value_ok value_read_size
  by unfold_locales (rule value_read_size_wire)

section \<open>Properties\<close>

lemma write_value_vec: "value_ok v \<Longrightarrow> write_to_bytes write_value v = Ok (wire_value v)"
  by (simp add: write_to_bytes_def vec.write_value_wire vec_write_def)

lemma value_const_size_eq: "value_const_size v = Some n \<Longrightarrow> n = value_size v"
  by (cases v) (auto simp: num_size_def bool_size_def raw_date_size_def raw_time_size_def
      raw_date_time_size_def uuid_size_def)

text \<open>C23: A value within the limits of its length prefix is written as exactly \<open>size\<close> bytes, the
  first of them its type key; reading them anywhere in a buffer gives the value back with the
  cursor behind it; and measuring them in place, or asking the value for its constant size, gives
  the same number.\<close>

theorem value_round_trip:
  assumes "value_ok v"
  shows "\<exists>bs. write_to_bytes write_value v = Ok bs \<and> length bs = value_size v
    \<and> hd bs = value_key v
    \<and> read_value (cur pre (bs @ post)) = Ok (v, cur (pre @ bs) post)
    \<and> (\<exists>c. value_read_size (cur pre (bs @ post)) = Ok (length bs, c))
    \<and> (value_const_size v = None \<or> value_const_size v = Some (length bs))"
proof (rule exI [of _ "wire_value v"], intro conjI)
  show "write_to_bytes write_value v = Ok (wire_value v)"
    using assms by (rule write_value_vec)
  show "value_const_size v = None \<or> value_const_size v = Some (length (wire_value v))"
    using value_const_size_eq [of v] assms
    by (cases "value_const_size v") (auto simp: value_size_wire)
  show "\<exists>c. value_read_size (cur pre (wire_value v @ post)) = Ok (length (wire_value v), c)"
    using value_read_size_wire [OF assms, of pre post] by (auto simp: value_size_wire assms)
  show "hd (wire_value v) = value_key v"
    by (simp add: wire_value_def)
qed (use assms in \<open>simp_all add: value_size_wire val_type.rd_enc\<close>)

theorem value_round_trip_witness:
  "\<exists>bs. write_to_bytes write_value (VU16 513) = Ok bs \<and> length bs = value_size (VU16 513)
    \<and> hd bs = value_key (VU16 513)
    \<and> read_value (cur [5] (bs @ [6])) = Ok (VU16 513, cur ([5] @ bs) [6])
    \<and> (\<exists>c. value_read_size (cur [5] (bs @ [6])) = Ok (length bs, c))
    \<and> (value_const_size (VU16 513) = None \<or> value_const_size (VU16 513) = Some (length bs))"
  by (rule value_round_trip) simp

text \<open>C30: The value decoder is canonical and safe: on any input it returns a value exactly when the
  bytes at the cursor are the encoding of that acceptable value, and it never panics.\<close>

theorem value_read_canonical:
  "(read_value (cur pre rest) = Ok (v, c) \<longleftrightarrow>
      value_ok v \<and> (\<exists>bs post. write_to_bytes write_value v = Ok bs \<and> rest = bs @ post
        \<and> c = cur (pre @ bs) post))
   \<and> read_value (cur pre rest) \<noteq> Panic"
  using val_type.rd_iff [of pre rest v c] by (auto simp: write_value_vec)

lemma reader_errors_not_key:
  "read_num c \<noteq> (Err (UnknownTypeKey k) :: ('a::len word \<times> cursor, encoding_error) res)"
  "read_exact n c \<noteq> Err (UnknownTypeKey k)"
  "from_utf8 bs \<noteq> Err (UnknownTypeKey k)"
  by (auto simp: read_num_def read_exact_def from_utf8_def res_bind_Err_iff)

lemma read_each_u8_not_key: "read_each (read_num :: u8 decoder) n c \<noteq> Err (UnknownTypeKey k)"
  by (induction n arbitrary: c) (auto simp: res_bind_Err_iff reader_errors_not_key)

lemma read_map_Err_iff: "read_map f r = Err e \<longleftrightarrow> r = Err e"
  by (cases r) (auto simp: read_map_def)

lemma inner_readers_not_key:
  "read_string c \<noteq> Err (UnknownTypeKey k)"
  "read_vec (read_num :: u8 decoder) c \<noteq> Err (UnknownTypeKey k)"
  "read_bool c \<noteq> Err (UnknownTypeKey k)"
  "read_raw_date c \<noteq> Err (UnknownTypeKey k)"
  "read_raw_time c \<noteq> Err (UnknownTypeKey k)"
  "read_raw_time_zone c \<noteq> Err (UnknownTypeKey k)"
  "read_uuid c \<noteq> Err (UnknownTypeKey k)"
  by (auto simp: read_string_def read_vec_def read_bool_def read_raw_date_def read_raw_time_def
      read_raw_time_zone_def read_uuid_def res_bind_Err_iff reader_errors_not_key
      read_each_u8_not_key split: if_splits)

lemma read_raw_date_time_not_key: "read_raw_date_time c \<noteq> Err (UnknownTypeKey k)"
  by (auto simp: read_raw_date_time_def res_bind_Err_iff inner_readers_not_key)

lemma nat_key_cases: "(n = 15 \<or> 17 < n) \<longleftrightarrow> n \<notin> set [12, 11, 10, 0, 1, 2, 3, 4, 5, 6, 7, 8, 9, 13, 14, 16, 17 :: nat]"
  by simp presburger

lemma key_cases: "k = 15 \<or> 17 < k \<longleftrightarrow> k \<notin> set [12, 11, 10, 0, 1, 2, 3, 4, 5, 6, 7, 8, 9, 13, 14, 16, 17]"
  for k :: u8
  using nat_key_cases [of "unat k"] by (simp add: word_less_nat_alt word_unat_eq_iff)

text \<open>The decoder reports an unknown type exactly for the keys that no variant has: 15, and
  everything above 17. For every other key the error, if any, is that of the inner type.\<close>

theorem value_unknown_key:
  "read_value (cur pre (k # rest)) = Err (UnknownTypeKey k') \<longleftrightarrow> (k = 15 \<or> 17 < k) \<and> k' = k"
  unfolding key_cases
  by (simp add: read_value_def read_key_cur read_map_Err_iff inner_readers_not_key
      reader_errors_not_key read_raw_date_time_not_key) blast

end
