(* ===== verification/Tags.thy ===== *)
theory Tags
  imports Value
begin

text \<open>
  \<open>src/src/tags.rs\<close> and \<open>src/src/tags/meta_key.rs\<close>: the tag and metadata maps. A map is the
  association list of its entries in iteration order, with distinct keys; the operations that take
  a key codec take it as an argument, as the source is generic over \<open>TagKeyType\<close>. The parser and
  printer of HTTP header names (\<open>http::HeaderName\<close>) are parameters.
\<close>

section \<open>The map\<close>

type_synonym 'k tags = "('k \<times> value_type) list"

definition tags_new :: "'k tags" where
  "tags_new = []"

definition tags_insert :: "'k \<Rightarrow> value_type \<Rightarrow> 'k tags \<Rightarrow> value_type option \<times> 'k tags" where
  "tags_insert k v t = (map_of t k, AList.update k v t)"

definition tags_get :: "'k tags \<Rightarrow> 'k \<Rightarrow> value_type option" where
  "tags_get t k = map_of t k"

text \<open>\<open>get_mut\<close> hands out a reference into the map: the caller's change is an argument.\<close>

definition tags_get_mut :: "'k \<Rightarrow> (value_type \<Rightarrow> value_type) \<Rightarrow> 'k tags \<Rightarrow> 'k tags" where
  "tags_get_mut k f t = map (\<lambda>(k', v). (k', if k' = k then f v else v)) t"

definition tags_remove :: "'k \<Rightarrow> 'k tags \<Rightarrow> value_type option \<times> 'k tags" where
  "tags_remove k t = (map_of t k, AList.delete k t)"

definition number_of_tags :: "'k tags \<Rightarrow> nat" where
  "number_of_tags t = length t"

definition tags_is_empty :: "'k tags \<Rightarrow> bool" where
  "tags_is_empty t \<longleftrightarrow> t = []"

definition tags_contains_key :: "'k tags \<Rightarrow> 'k \<Rightarrow> bool" where
  "tags_contains_key t k \<longleftrightarrow> map_of t k \<noteq> None"

definition tags_clear :: "'k tags \<Rightarrow> 'k tags" where
  "tags_clear t = []"

definition insert_if_absent :: "'k \<Rightarrow> value_type \<Rightarrow> 'k tags \<Rightarrow> bool \<times> 'k tags" where
  "insert_if_absent k v t =
     (case map_of t k of Some _ \<Rightarrow> (False, t) | None \<Rightarrow> (True, AList.update k v t))"

definition tags_extend :: "('k \<times> value_type) list \<Rightarrow> 'k tags \<Rightarrow> 'k tags" where
  "tags_extend items t = insert_all items t"

definition tags_from_iter :: "('k \<times> value_type) list \<Rightarrow> 'k tags" where
  "tags_from_iter items = insert_all items []"

section \<open>The codec\<close>

definition tags_size :: "('k \<Rightarrow> nat) \<Rightarrow> 'k tags \<Rightarrow> nat" where
  "tags_size key_size t = (\<Sum>(k, v)\<leftarrow>t. key_size k + value_size v) + 2"

definition write_tags :: "('k, 'w) encoder \<Rightarrow> ('k tags, 'w) encoder" where
  "write_tags write_key wr t w =
     res_bind (count_is_allowed ''Tags'' (length t)) (\<lambda>_.
     res_bind (write_num wr (of_nat (length t) :: u16) w)
       (write_each (\<lambda>(k, v) w. res_bind (write_key wr k w) (\<lambda>w. write_value wr v w)) t))"

definition read_tags :: "'k decoder \<Rightarrow> 'k tags decoder" where
  "read_tags read_key c = res_bind (read_num c) (\<lambda>(tag_count :: u16, c).
     read_entries read_key read_value (unat tag_count) [] c)"

definition read_tag_count :: "u16 decoder" where
  "read_tag_count c = read_num c"

fun find_loop :: "'k decoder \<Rightarrow> nat \<Rightarrow> 'k \<Rightarrow> value_type option decoder" where
  "find_loop read_key 0 key c = Ok (None, c)"
| "find_loop read_key (Suc n) key c = res_bind (read_key c) (\<lambda>(tag_key, c).
     if tag_key = key then read_map Some (read_value c)
     else res_bind (skip_default read_value c) (find_loop read_key n key))"

definition find_from_reader :: "'k decoder \<Rightarrow> 'k \<Rightarrow> value_type option decoder" where
  "find_from_reader read_key key c = res_bind (read_num c) (\<lambda>(tags_count :: u16, c).
     find_loop read_key (unat tags_count) key c)"

text \<open>
  The measuring loop seeks to an offset counted from where the block starts, because the
  \<open>read_size\<close> of a key or a value may leave the cursor anywhere.
\<close>

fun measure_loop :: "nat decoder \<Rightarrow> nat \<Rightarrow> nat \<Rightarrow> nat \<Rightarrow> nat decoder" where
  "measure_loop key_read_size block_start 0 total_size c = Ok (total_size, c)"
| "measure_loop key_read_size block_start (Suc n) total_size c =
     res_bind (key_read_size c) (\<lambda>(key_size, c).
       let total_size = total_size + key_size; c = seek_start (block_start + total_size) c
       in res_bind (value_read_size c) (\<lambda>(val_size, c).
            let total_size = total_size + val_size; c = seek_start (block_start + total_size) c
            in measure_loop key_read_size block_start n total_size c))"

definition tags_read_size :: "nat decoder \<Rightarrow> nat decoder" where
  "tags_read_size key_read_size c =
     (let block_start = c_pos c
      in res_bind (read_num c) (\<lambda>(tags_count :: u16, c).
           measure_loop key_read_size block_start (unat tags_count) 2 c))"

section \<open>Metadata keys\<close>

record 'hn header_name_api =
  hn_from_bytes :: "u8 list \<Rightarrow> 'hn option"
  hn_as_str :: "'hn \<Rightarrow> u8 list"
  hn_from_static :: "u8 list \<Rightarrow> 'hn"

text \<open>
  What the code relies on, from the documentation of the \<open>http\<close> crate: a header name is kept in its
  normal form, so parsing what it prints gives it back, and it is at most \<open>2^16 - 1\<close> bytes long.
\<close>

definition header_name_ok :: "'hn header_name_api \<Rightarrow> bool" where
  "header_name_ok H \<longleftrightarrow>
     (\<forall>k. hn_from_bytes H (hn_as_str H k) = Some k) \<and> (\<forall>k. length (hn_as_str H k) \<le> 65535)"

definition metakey_from_bytes :: "'hn header_name_api \<Rightarrow> u8 list \<Rightarrow> ('hn, encoding_error) res" where
  "metakey_from_bytes H bytes =
     (case hn_from_bytes H bytes of Some k \<Rightarrow> Ok k | None \<Rightarrow> Err (OtherDecodingError InvalidHeaderName))"

definition metakey_size :: "'hn header_name_api \<Rightarrow> 'hn \<Rightarrow> nat" where
  "metakey_size H k = length (hn_as_str H k) + 2"

definition write_metakey :: "'hn header_name_api \<Rightarrow> ('hn, 'w) encoder" where
  "write_metakey H wr k w =
     (let bytes = hn_as_str H k
      in res_bind (length_is_allowed ''MetaKey'' (length bytes)) (\<lambda>_.
         res_bind (write_num wr (of_nat (length bytes) :: u16) w) (\<lambda>w. wr bytes w)))"

definition metakey_read_size :: "nat decoder" where
  "metakey_read_size c = vec_read_size c"

definition read_metakey :: "'hn header_name_api \<Rightarrow> 'hn decoder" where
  "read_metakey H c = res_bind (read_vec read_num c) (\<lambda>(content, c).
     res_bind (metakey_from_bytes H content) (\<lambda>k. Ok (k, c)))"

definition metakey_read_from_bytes :: "'hn header_name_api \<Rightarrow> u8 list \<Rightarrow> ('hn, encoding_error) res" where
  "metakey_read_from_bytes H bytes =
     res_bind (read_from_bytes_default (read_vec read_num) bytes) (metakey_from_bytes H)"

text \<open>\<open>MetaKey\<close> is a transparent wrapper, so a lookup by header name is a lookup by key.\<close>

definition get_header :: "'hn tags \<Rightarrow> 'hn \<Rightarrow> value_type option" where
  "get_header m name = tags_get m name"

definition contains_header :: "'hn tags \<Rightarrow> 'hn \<Rightarrow> bool" where
  "contains_header m name = tags_contains_key m name"

definition remove_header :: "'hn \<Rightarrow> 'hn tags \<Rightarrow> value_type option \<times> 'hn tags" where
  "remove_header name m = tags_remove name m"

definition insert_header :: "'hn \<Rightarrow> value_type \<Rightarrow> 'hn tags \<Rightarrow> value_type option \<times> 'hn tags" where
  "insert_header name v m = tags_insert name v m"

section \<open>The wire form of a map\<close>

definition wire_tags :: "('k \<Rightarrow> u8 list) \<Rightarrow> 'k tags \<Rightarrow> u8 list" where
  "wire_tags kenc t = to_le_bytes (of_nat (length t) :: u16) @ wire_entries kenc wire_value t"

text \<open>
  A block of entries a writer can produce or a reader meet: the count fits, and every key and value
  is acceptable. A map has distinct keys besides.
\<close>

definition entries_ok :: "('k \<Rightarrow> bool) \<Rightarrow> ('k \<times> value_type) list \<Rightarrow> bool" where
  "entries_ok kok es \<longleftrightarrow> length es \<le> 65535 \<and> list_all (\<lambda>(k, v). kok k \<and> value_ok v) es"

definition tags_ok :: "('k \<Rightarrow> bool) \<Rightarrow> 'k tags \<Rightarrow> bool" where
  "tags_ok kok t \<longleftrightarrow> distinct (map fst t) \<and> entries_ok kok t"

lemma entries_okD:
  "entries_ok kok es \<Longrightarrow> length es \<le> 65535"
  "entries_ok kok es \<Longrightarrow> (k, v) \<in> set es \<Longrightarrow> kok k \<and> value_ok v"
  by (auto simp: entries_ok_def list_all_iff)

lemma entries_ok_Cons:
  "entries_ok kok ((k, v) # es) \<Longrightarrow> kok k \<and> value_ok v \<and> entries_ok kok es"
  by (auto simp: entries_ok_def)

lemma tags_ok_new: "tags_ok kok tags_new"
  by (simp add: tags_ok_def tags_new_def entries_ok_def)

lemma insert_all_ok: "list_all P es \<Longrightarrow> list_all P m \<Longrightarrow> list_all P (insert_all es m)"
  using set_insert_all [of es m] by (auto simp: list_all_iff)

locale tag_key = measured_type
begin

sublocale entry_codec sz enc rd ok value_size wire_value read_value value_ok
  by unfold_locales

lemma tags_size_wire: "entries_ok ok t \<Longrightarrow> length (wire_tags enc t) = tags_size sz t"
  using size_entries_wire [of t] by (simp add: entries_ok_def wire_tags_def tags_size_def)

lemma read_entries_block:
  assumes "entries_ok ok es"
  shows "read_tags rd (cur pre (wire_tags enc es @ post)) =
         Ok (insert_all es [], cur (pre @ wire_tags enc es) post)"
  using assms read_entries_wire [of es "[]" "pre @ to_le_bytes (of_nat (length es) :: u16)" post]
  by (simp add: entries_ok_def read_tags_def wire_tags_def)

lemma read_tags_wire:
  assumes "tags_ok ok t"
  shows "read_tags rd (cur pre (wire_tags enc t @ post)) = Ok (t, cur (pre @ wire_tags enc t) post)"
  using assms read_entries_block [of t pre post] insert_all_fresh [of t "[]"]
  by (simp add: tags_ok_def)

lemma find_loop_wire:
  assumes "list_all (\<lambda>(k, v). ok k \<and> value_ok v) es"
  shows "\<exists>c. find_loop rd (length es) key (cur pre (wire_entries enc wire_value es @ post)) =
             Ok (map_of es key, c)"
  using assms
proof (induction es arbitrary: pre)
  case Nil
  then show ?case by simp
next
  case (Cons e es)
  obtain k v where e: "e = (k, v)" by (cases e)
  with Cons.prems have "ok k" "value_ok v" by auto
  with Cons e show ?case
    by (auto simp: rd_enc val_type.rd_enc skip_default_def)
qed

lemma find_wire:
  assumes "entries_ok ok es"
  shows "\<exists>c. find_from_reader rd key (cur pre (wire_tags enc es @ post)) = Ok (map_of es key, c)"
  using assms find_loop_wire [of es key "pre @ to_le_bytes (of_nat (length es) :: u16)" post]
  by (simp add: find_from_reader_def wire_tags_def entries_ok_def)

lemma measure_loop_wire:
  assumes "list_all (\<lambda>(k, v). ok k \<and> value_ok v) es"
    and "c_data c = blk @ done_part @ wire_entries enc wire_value es @ post"
    and "c_pos c = length blk + length done_part"
  shows "measure_loop ms (length blk) (length es) (length done_part) c =
         Ok (length done_part + length (wire_entries enc wire_value es),
             cur (blk @ done_part @ wire_entries enc wire_value es) post)"
  using assms
proof (induction es arbitrary: c done_part)
  case Nil
  then have "c = cur (blk @ done_part) post" by (simp add: cur_def)
  then show ?case by simp
next
  case (Cons e es)
  obtain k v where e: "e = (k, v)" by (cases e)
  with Cons.prems have ok: "ok k" "value_ok v" by auto
  let ?rest = "wire_entries enc wire_value es"
  have c: "c = cur (blk @ done_part) (enc k @ (wire_value v @ ?rest @ post))"
    using Cons.prems(2,3) e by (simp add: cur_def)
  from ms_enc [OF ok(1), of "blk @ done_part" "wire_value v @ ?rest @ post"]
  obtain c1 where c1: "ms c = Ok (sz k, c1)"
    and d1: "c_data c1 = blk @ done_part @ enc k @ wire_value v @ ?rest @ post"
    using c by auto
  have s1: "seek_start (length blk + (length done_part + sz k)) c1 =
      cur (blk @ done_part @ enc k) (wire_value v @ (?rest @ post))"
    using d1 size_enc [OF ok(1)] by (simp add: seek_start_def cur_def)
  from value_m.ms_enc [OF ok(2), of "blk @ done_part @ enc k" "?rest @ post"]
  obtain c2 where c2: "value_read_size (cur (blk @ done_part @ enc k) (wire_value v @ (?rest @ post)))
      = Ok (value_size v, c2)"
    and d2: "c_data c2 = blk @ (done_part @ enc k @ wire_value v) @ ?rest @ post"
    by auto
  let ?done = "done_part @ enc k @ wire_value v"
  have len: "length done_part + sz k + value_size v = length ?done"
    using size_enc [OF ok(1)] val_type.size_enc [OF ok(2)] by simp
  have "measure_loop ms (length blk) (length es) (length ?done) (seek_start (length blk + length ?done) c2) =
        Ok (length ?done + length ?rest, cur (blk @ ?done @ ?rest) post)"
    by (rule Cons.IH) (use Cons.prems(1) e d2 in \<open>auto simp: seek_start_def\<close>)
  moreover have "length done_part + (sz k + value_size v) = length ?done"
    using len by simp
  ultimately show ?case
    using len by (simp add: e c1 s1 c2 Let_def add.assoc)
qed

lemma tags_read_size_wire:
  assumes "entries_ok ok t"
  shows "tags_read_size ms (cur pre (wire_tags enc t @ post)) =
         Ok (tags_size sz t, cur (pre @ wire_tags enc t) post)"
proof -
  let ?count = "to_le_bytes (of_nat (length t) :: u16)"
  have "measure_loop ms (length pre) (length t) (length ?count)
          (cur (pre @ ?count) (wire_entries enc wire_value t @ post)) =
        Ok (length ?count + length (wire_entries enc wire_value t),
            cur (pre @ ?count @ wire_entries enc wire_value t) post)"
    by (rule measure_loop_wire) (use assms in \<open>auto simp: entries_ok_def\<close>)
  then show ?thesis
    using assms tags_size_wire [OF assms]
    by (simp add: tags_read_size_def wire_tags_def entries_ok_def Let_def)
qed

end

context byte_sink
begin

lemma write_tags_wire:
  assumes "entries_ok kok t"
    and "\<And>k w. kok k \<Longrightarrow> wk wr k w = wr (kenc k) w"
  shows "write_tags wk wr t w = wr (wire_tags kenc t) w"
proof -
  have "(case e of (k, v) \<Rightarrow> \<lambda>w. res_bind (wk wr k w) (\<lambda>w. write_value wr v w)) w' =
        wr (case e of (k, v) \<Rightarrow> kenc k @ wire_value v) w'" if e_in: "e \<in> set t" for e w'
  proof (cases e)
    case (Pair k v)
    with e_in assms(1) have "kok k" "value_ok v"
      using entries_okD(2) by fastforce+
    then have "write_value wr v = wr (wire_value v)" and "wk wr k w' = wr (kenc k) w'"
      using write_value_wire [of v] assms(2) [of k] by blast+
    with Pair show ?thesis by simp
  qed
  then have "write_each (\<lambda>(k, v) w. res_bind (wk wr k w) (\<lambda>w. write_value wr v w)) t =
        wr (wire_entries kenc wire_value t)"
    using write_each_wire [of t "\<lambda>(k, v) w. res_bind (wk wr k w) (\<lambda>w. write_value wr v w)"
        "\<lambda>(k, v). kenc k @ wire_value v"]
    by (fastforce simp: wire_entries_def)
  then show ?thesis
    using entries_okD(1) [OF assms(1)] by (simp add: write_tags_def write_num_def wire_tags_def)
qed

lemma write_metakey_wire:
  "header_name_ok H \<Longrightarrow> write_metakey H wr k w = wr (wire_block (hn_as_str H k)) w"
  by (simp add: write_metakey_def write_num_def wire_block_def header_name_ok_def Let_def)

end

interpretation string_tag: tag_key string_size wire_block read_string string_ok string_read_size
  by unfold_locales

lemma metakey_tag_key:
  assumes "header_name_ok H"
  shows "tag_key (metakey_size H) (\<lambda>k. wire_block (hn_as_str H k)) (read_metakey H) (\<lambda>_. True)
           metakey_read_size"
proof
  have block: "block_ok (hn_as_str H k)" for k
    using assms by (simp add: header_name_ok_def block_ok_def)
  show "length (wire_block (hn_as_str H k)) = metakey_size H k" for k
    by (simp add: metakey_size_def)
  show "read_metakey H (cur pre (wire_block (hn_as_str H k) @ post)) =
        Ok (k, cur (pre @ wire_block (hn_as_str H k)) post)" for k pre post
    using assms
    by (simp add: read_metakey_def metakey_from_bytes_def header_name_ok_def byte_vec.rd_enc [OF block])
  show "\<exists>c. metakey_read_size (cur pre (wire_block (hn_as_str H k) @ post)) = Ok (metakey_size H k, c)
          \<and> c_data c = pre @ wire_block (hn_as_str H k) @ post" for k pre post
    using byte_vec_m.ms_enc [OF block] byte_vec.size_enc [OF block]
    by (simp add: metakey_read_size_def metakey_size_def)
qed

section \<open>The map as an interface\<close>

text \<open>
  The contract of a map from keys to values, as the tag map offers it: what a lookup returns after
  each operation, and the invariant every operation keeps.
\<close>

locale tag_map =
  fixes lookup :: "'t \<Rightarrow> 'k \<Rightarrow> 'v option"
    and insert :: "'k \<Rightarrow> 'v \<Rightarrow> 't \<Rightarrow> 'v option \<times> 't"
    and remove :: "'k \<Rightarrow> 't \<Rightarrow> 'v option \<times> 't"
    and count :: "'t \<Rightarrow> nat"
    and inv :: "'t \<Rightarrow> bool"
  assumes insert_old: "fst (insert k v t) = lookup t k"
    and lookup_insert: "inv t \<Longrightarrow> lookup (snd (insert k v t)) = (lookup t)(k \<mapsto> v)"
    and remove_old: "fst (remove k t) = lookup t k"
    and lookup_remove: "inv t \<Longrightarrow> lookup (snd (remove k t)) = (lookup t)(k := None)"
    and inv_insert: "inv t \<Longrightarrow> inv (snd (insert k v t))"
    and inv_remove: "inv t \<Longrightarrow> inv (snd (remove k t))"
    and count_dom: "inv t \<Longrightarrow> finite (dom (lookup t)) \<and> count t = card (dom (lookup t))"
begin

lemma remove_insert:
  "inv t \<Longrightarrow> lookup (snd (remove k (snd (insert k v t)))) = (lookup t)(k := None)"
  by (simp add: lookup_remove inv_insert lookup_insert)

lemma count_insert:
  "inv t \<Longrightarrow> count (snd (insert k v t)) = (if lookup t k = None then count t + 1 else count t)"
  using count_dom [of t] count_dom [OF inv_insert, of t k v]
  by (auto simp: lookup_insert insert_absorb domIff)

end

lemma card_dom_map_of: "distinct (map fst t) \<Longrightarrow> finite (dom (map_of t)) \<and> card (dom (map_of t)) = length t"
  using distinct_card [of "map fst t"] by (simp add: dom_map_of_conv_image_fst finite_dom_map_of)

interpretation tagmap: tag_map tags_get tags_insert tags_remove number_of_tags "\<lambda>t. distinct (map fst t)"
proof
  show "distinct (map fst t) \<Longrightarrow> finite (dom (tags_get t)) \<and> number_of_tags t = card (dom (tags_get t))"
    for t :: "('a \<times> value_type) list"
    using card_dom_map_of [of t] by (simp add: tags_get_def [abs_def] number_of_tags_def)
qed (auto simp: tags_get_def [abs_def] tags_insert_def tags_remove_def distinct_update
    distinct_delete delete_conv')

section \<open>What a decoder accepts\<close>

locale canonical_entries =
  key: canonical_type ksz kenc krd kok
  for ksz :: "'k \<Rightarrow> nat" and kenc krd kok
begin

lemma read_entries_inv:
  "read_entries krd read_value n m (cur pre rest) = Ok (t, c) \<Longrightarrow>
   \<exists>es post. length es = n \<and> list_all (\<lambda>(k, v). kok k \<and> value_ok v) es
     \<and> rest = wire_entries kenc wire_value es @ post
     \<and> c = cur (pre @ wire_entries kenc wire_value es) post \<and> t = insert_all es m"
proof (induction n arbitrary: m pre rest)
  case 0
  then show ?case by (intro exI [of _ "[]"] exI [of _ rest]) auto
next
  case (Suc n)
  then obtain k c1 v c2 where k: "krd (cur pre rest) = Ok (k, c1)" and v: "read_value c1 = Ok (v, c2)"
    and r: "read_entries krd read_value n (AList.update k v m) c2 = Ok (t, c)"
    by (auto simp: res_dest)
  from key.rd_inv [OF k] obtain p1 where p1: "kok k" "rest = kenc k @ p1" "c1 = cur (pre @ kenc k) p1"
    by auto
  from val_type.rd_inv [OF v [unfolded p1(3)]]
  obtain p2 where p2: "value_ok v" "p1 = wire_value v @ p2" "c2 = cur ((pre @ kenc k) @ wire_value v) p2"
    by auto
  from Suc.IH [OF r [unfolded p2(3)]] obtain es post where es: "length es = n"
    "list_all (\<lambda>(k, v). kok k \<and> value_ok v) es" "p2 = wire_entries kenc wire_value es @ post"
    "c = cur (((pre @ kenc k) @ wire_value v) @ wire_entries kenc wire_value es) post"
    "t = insert_all es (AList.update k v m)"
    by blast
  show ?case
    by (intro exI [of _ "(k, v) # es"] exI [of _ post]) (use p1 p2 es in auto)
qed

lemma read_tags_inv:
  assumes "read_tags krd (cur pre rest) = Ok (t, c)"
  shows "\<exists>es post. entries_ok kok es \<and> rest = wire_tags kenc es @ post
    \<and> c = cur (pre @ wire_tags kenc es) post \<and> t = insert_all es []"
proof -
  from assms obtain n c1 where n: "read_num (cur pre rest) = Ok (n :: u16, c1)"
    and r: "read_entries krd read_value (unat n) [] c1 = Ok (t, c)"
    by (auto simp: read_tags_def res_dest)
  from n obtain p1 where p1: "rest = to_le_bytes n @ p1" "c1 = cur (pre @ to_le_bytes n) p1"
    by auto
  from read_entries_inv [OF r [unfolded p1(2)]] obtain es post where es: "length es = unat n"
    "list_all (\<lambda>(k, v). kok k \<and> value_ok v) es" "p1 = wire_entries kenc wire_value es @ post"
    "c = cur ((pre @ to_le_bytes n) @ wire_entries kenc wire_value es) post" "t = insert_all es []"
    by blast
  have len: "length es \<le> 65535"
    using es(1) unsigned_less [of n, where 'a = nat] by simp
  have "of_nat (length es) = n" using es(1) by simp
  with p1 es len show ?thesis
    by (intro exI [of _ es] exI [of _ post]) (auto simp: entries_ok_def wire_tags_def)
qed

lemma read_entries_safe: "read_entries krd read_value n m c \<noteq> Panic"
  by (induction n arbitrary: m c) (auto simp: key.rd_safe)

lemma read_tags_safe: "read_tags krd c \<noteq> Panic"
  by (auto simp: read_tags_def read_entries_safe)

end

interpretation string_entries: canonical_entries string_size wire_block read_string string_ok
  by unfold_locales

lemma sum_AList_update:
  fixes f :: "'k \<times> 'v \<Rightarrow> nat"
  shows "(\<Sum>e\<leftarrow>AList.update k v m. f e) \<le> f (k, v) + (\<Sum>e\<leftarrow>m. f e)"
  by (induction m) auto

lemma sum_insert_all:
  fixes f :: "'k \<times> 'v \<Rightarrow> nat"
  shows "(\<Sum>e\<leftarrow>insert_all es m. f e) \<le> (\<Sum>e\<leftarrow>es. f e) + (\<Sum>e\<leftarrow>m. f e)"
proof (induction es arbitrary: m)
  case Nil
  then show ?case by simp
next
  case (Cons e es)
  obtain k v where e: "e = (k, v)" by (cases e)
  show ?case
    using Cons [of "AList.update k v m"] sum_AList_update [where f = f and k = k and v = v and m = m]
    by (simp add: e)
qed

lemma tags_size_insert_all: "tags_size ksz (insert_all es []) \<le> tags_size ksz es"
  using sum_insert_all [of "\<lambda>(k, v). ksz k + value_size v" es "[]"] by (simp add: tags_size_def)

lemma tags_ok_insert_all:
  assumes "entries_ok kok es"
  shows "tags_ok kok (insert_all es [])"
  using assms insert_all_distinct [of "[]" es] length_insert_all [of es "[]"]
    insert_all_ok [of "\<lambda>(k, v). kok k \<and> value_ok v" es "[]"]
  by (auto simp: tags_ok_def entries_ok_def)

section \<open>Properties\<close>

lemma write_tags_vec:
  assumes "entries_ok string_ok t"
  shows "write_to_bytes (write_tags write_string) t = Ok (wire_tags wire_block t)"
proof -
  have "write_tags write_string vec_write t [] = vec_write (wire_tags wire_block t) []"
    by (rule vec.write_tags_wire [OF assms]) (simp add: vec.write_string_wire string_ok_def)
  then show ?thesis by (simp add: write_to_bytes_def vec_write_def)
qed

lemma write_metadata_vec:
  assumes "header_name_ok H" and "entries_ok (\<lambda>_. True) t"
  shows "write_to_bytes (write_tags (write_metakey H)) t =
         Ok (wire_tags (\<lambda>k. wire_block (hn_as_str H k)) t)"
proof -
  have "write_tags (write_metakey H) vec_write t [] =
        vec_write (wire_tags (\<lambda>k. wire_block (hn_as_str H k)) t) []"
    by (rule vec.write_tags_wire [OF assms(2)]) (simp add: vec.write_metakey_wire assms(1))
  then show ?thesis by (simp add: write_to_bytes_def vec_write_def)
qed

text \<open>C21: A tag map with at most 65535 entries, each within its own limits, is written as exactly
  \<open>size\<close> bytes; reading them from anywhere in a buffer gives the same map, entry for entry, with the
  cursor behind the block; and measuring the block in place gives its length.\<close>

theorem tags_round_trip:
  assumes "tags_ok string_ok t"
  shows "\<exists>bs. write_to_bytes (write_tags write_string) t = Ok bs
    \<and> length bs = tags_size string_size t
    \<and> read_tags read_string (cur pre (bs @ post)) = Ok (t, cur (pre @ bs) post)
    \<and> tags_read_size string_read_size (cur pre (bs @ post)) = Ok (length bs, cur (pre @ bs) post)"
proof -
  from assms have ok: "entries_ok string_ok t" by (simp add: tags_ok_def)
  show ?thesis
    using write_tags_vec [OF ok] string_tag.tags_size_wire [OF ok]
      string_tag.read_tags_wire [OF assms] string_tag.tags_read_size_wire [OF ok]
    by simp
qed

theorem tags_round_trip_witness:
  "\<exists>bs. write_to_bytes (write_tags write_string) [([0x61], VU8 1), ([0x62], VBool True)] = Ok bs
    \<and> length bs = tags_size string_size [([0x61], VU8 1), ([0x62], VBool True)]
    \<and> read_tags read_string (cur [1] (bs @ [2])) =
        Ok ([([0x61], VU8 1), ([0x62], VBool True)], cur ([1] @ bs) [2])
    \<and> tags_read_size string_read_size (cur [1] (bs @ [2])) = Ok (length bs, cur ([1] @ bs) [2])"
  by (rule tags_round_trip) (simp add: tags_ok_def entries_ok_def string_ok_def)

text \<open>The same for the metadata map, whose keys are HTTP header names: with a header-name type
  that prints what it parses, writing, measuring and reading a metadata block agree.\<close>

theorem metadata_round_trip:
  assumes "header_name_ok H" and "tags_ok (\<lambda>_. True) t"
  shows "\<exists>bs. write_to_bytes (write_tags (write_metakey H)) t = Ok bs
    \<and> length bs = tags_size (metakey_size H) t
    \<and> read_tags (read_metakey H) (cur pre (bs @ post)) = Ok (t, cur (pre @ bs) post)
    \<and> tags_read_size metakey_read_size (cur pre (bs @ post)) = Ok (length bs, cur (pre @ bs) post)"
proof -
  from assms(2) have ok: "entries_ok (\<lambda>_. True) t" by (simp add: tags_ok_def)
  note key = metakey_tag_key [OF assms(1)]
  show ?thesis
    using write_metadata_vec [OF assms(1) ok] tag_key.tags_size_wire [OF key ok]
      tag_key.read_tags_wire [OF key assms(2)] tag_key.tags_read_size_wire [OF key ok]
    by simp
qed

text \<open>A header-name type for the witnesses: names of one lower-case letter.\<close>

definition letter_names :: "u8 header_name_api" where
  "letter_names = \<lparr>hn_from_bytes = (\<lambda>bs. case bs of [b] \<Rightarrow> Some b | _ \<Rightarrow> None), hn_as_str = (\<lambda>k. [k]),
     hn_from_static = hd\<rparr>"

lemma letter_names_ok: "header_name_ok letter_names"
  by (simp add: header_name_ok_def letter_names_def)

theorem metadata_round_trip_witness:
  "\<exists>bs. write_to_bytes (write_tags (write_metakey letter_names)) [(0x65, VBytes [7, 7])] = Ok bs
    \<and> length bs = tags_size (metakey_size letter_names) [(0x65, VBytes [7, 7])]
    \<and> read_tags (read_metakey letter_names) (cur [] (bs @ [0])) =
        Ok ([(0x65, VBytes [7, 7])], cur ([] @ bs) [0])
    \<and> tags_read_size metakey_read_size (cur [] (bs @ [0])) = Ok (length bs, cur ([] @ bs) [0])"
  by (rule metadata_round_trip) (simp_all add: letter_names_ok tags_ok_def entries_ok_def block_ok_def)

text \<open>On any well-formed block of entries, also one that repeats a key, the search returns the
  first entry of the key and the full reader keeps the last; on a block with distinct keys, which is
  what the writer produces, the search agrees with looking the key up in the decoded map.\<close>

theorem find_against_read:
  assumes "entries_ok string_ok es"
  shows "\<exists>t c c'. read_tags read_string (cur pre (wire_tags wire_block es @ post)) = Ok (t, c)
    \<and> find_from_reader read_string key (cur pre (wire_tags wire_block es @ post)) = Ok (map_of es key, c')
    \<and> tags_get t key = map_of (rev es) key
    \<and> (distinct (map fst es) \<longrightarrow> map_of es key = tags_get t key)"
proof -
  obtain c' where find: "find_from_reader read_string key (cur pre (wire_tags wire_block es @ post)) =
      Ok (map_of es key, c')"
    using string_tag.find_wire [OF assms, of key pre post] by blast
  have "tags_get (insert_all es []) key = map_of (rev es) key"
    by (simp add: tags_get_def map_of_insert_all split: option.split)
  moreover have "distinct (map fst es) \<longrightarrow> map_of es key = tags_get (insert_all es []) key"
    using insert_all_fresh [of es "[]"] by (simp add: tags_get_def)
  ultimately show ?thesis
    using find string_tag.read_entries_block [OF assms, of pre post] by blast
qed

theorem find_against_read_witness:
  "\<exists>t c c'. read_tags read_string (cur [] (wire_tags wire_block [([0x61], VU8 1), ([0x61], VU8 2)])) = Ok (t, c)
    \<and> find_from_reader read_string [0x61]
        (cur [] (wire_tags wire_block [([0x61], VU8 1), ([0x61], VU8 2)])) = Ok (Some (VU8 1), c')
    \<and> tags_get t [0x61] = Some (VU8 2)"
  using find_against_read [of "[([0x61], VU8 1), ([0x61], VU8 2)]" "[]" "[]" "[0x61]"]
  by (simp add: entries_ok_def string_ok_def)

text \<open>C29: Decoding a tag block never panics, whatever the bytes. A block it accepts gives a
  well-formed map (distinct keys, every entry within its limits) that never encodes to more bytes
  than were consumed, so a decoded block can always be written back into the space it came from.\<close>

theorem tags_decode_safe:
  "case read_tags read_string (cur pre rest) of
     Ok (t, c) \<Rightarrow> tags_ok string_ok t \<and> c_pos c \<le> length pre + length rest
       \<and> length pre + tags_size string_size t \<le> c_pos c
   | Err e \<Rightarrow> True
   | Panic \<Rightarrow> False"
proof (cases "read_tags read_string (cur pre rest)")
  case (Ok r)
  obtain t c where r: "r = (t, c)" by (cases r)
  from string_entries.read_tags_inv [OF Ok [unfolded r]] obtain es post where es:
    "entries_ok string_ok es" "rest = wire_tags wire_block es @ post"
    "c = cur (pre @ wire_tags wire_block es) post" "t = insert_all es []"
    by blast
  show ?thesis
    using Ok r es tags_ok_insert_all [OF es(1)] tags_size_insert_all [of string_size es]
      string_tag.tags_size_wire [OF es(1)]
    by simp
qed (use string_entries.read_tags_safe in auto)

text \<open>The map operations behave as a finite map: a lookup after \<open>insert\<close> or \<open>remove\<close> is the
  updated function, both return the value that was there before, \<open>insert_if_absent\<close> inserts exactly
  when the key was absent and says so, and the entries stay distinct throughout.\<close>

theorem tags_operations:
  assumes "distinct (map fst t)"
  shows "tags_get (snd (tags_insert k v t)) = (tags_get t)(k \<mapsto> v)
    \<and> tags_get (snd (tags_remove k t)) = (tags_get t)(k := None)
    \<and> fst (tags_insert k v t) = tags_get t k \<and> fst (tags_remove k t) = tags_get t k
    \<and> fst (insert_if_absent k v t) = (\<not> tags_contains_key t k)
    \<and> tags_get (snd (insert_if_absent k v t)) =
        (if tags_contains_key t k then tags_get t else (tags_get t)(k \<mapsto> v))
    \<and> number_of_tags (snd (tags_insert k v t)) =
        (if tags_contains_key t k then number_of_tags t else number_of_tags t + 1)
    \<and> distinct (map fst (snd (tags_insert k v t))) \<and> distinct (map fst (snd (tags_remove k t)))
    \<and> distinct (map fst (snd (insert_if_absent k v t)))"
proof -
  have if_absent: "insert_if_absent k v t =
      (if tags_contains_key t k then (False, t) else (True, snd (tags_insert k v t)))"
    by (auto simp: insert_if_absent_def tags_contains_key_def tags_insert_def split: option.split)
  show ?thesis
    using assms
    by (auto simp: if_absent tagmap.lookup_insert tagmap.lookup_remove tagmap.insert_old
        tagmap.remove_old tagmap.count_insert tagmap.inv_insert tagmap.inv_remove)
       (auto simp: tags_contains_key_def tags_get_def)
qed

theorem tags_operations_witness:
  "tags_get (snd (tags_insert 2 (VU8 9) [(1 :: nat, VU8 7)])) = (tags_get [(1, VU8 7)])(2 \<mapsto> VU8 9)
    \<and> number_of_tags (snd (tags_insert 2 (VU8 9) [(1 :: nat, VU8 7)])) = 2
    \<and> fst (insert_if_absent (2 :: nat) (VU8 9) [(1, VU8 7)])"
  using tags_operations [of "[(1 :: nat, VU8 7)]" 2 "VU8 9"]
  by (simp add: tags_contains_key_def number_of_tags_def)

end
