(* ===== verification/Prefix.thy ===== *)
theory Prefix
  imports FileSystem Tags
begin

text \<open>
  What surrounds the content of an object file: \<open>encode_prefix\<close> of \<open>src/src/fs/writer.rs\<close>, which
  lays the header, the metadata and the tags out in one buffer, and the exact bytes it produces. The
  environment of the file layer is fixed here too: the operating system, the header-name type, and
  the content codecs of the \<open>zstd\<close> and \<open>gzip\<close> features.
\<close>

section \<open>The environment\<close>

text \<open>
  A codec of a feature, which is a crate of its own. An encoder is known by what it was given so far:
  opening it at a level may fail; a write accepts some of the bytes offered and emits some output; a
  flush and the end of the stream emit output. A decoder is known by what it makes of a whole stream.
\<close>

datatype codec_step = Offered "u8 list" | Flushed

record codec =
  cd_start :: "int \<Rightarrow> (unit, io_kind) res"
  cd_write :: "int \<Rightarrow> codec_step list \<Rightarrow> u8 list \<Rightarrow> (nat \<times> u8 list, io_kind) res"
  cd_flush :: "int \<Rightarrow> codec_step list \<Rightarrow> (u8 list, io_kind) res"
  cd_finish :: "int \<Rightarrow> codec_step list \<Rightarrow> (u8 list, io_kind) res"
  cd_decode :: "u8 list \<Rightarrow> (u8 list, io_kind) res"

record 'hn env = os +
  header_names :: "'hn header_name_api"
  zstd_codec :: "codec option"
  gzip_codec :: "codec option"

definition is_supported :: "'hn env \<Rightarrow> compression_types \<Rightarrow> bool" where
  "is_supported E ct =
     (case ct of
        NoCompression \<Rightarrow> True
      | ZSTD _ \<Rightarrow> zstd_codec E \<noteq> None
      | Gzip _ \<Rightarrow> gzip_codec E \<noteq> None)"

definition ensure_supported :: "'hn env \<Rightarrow> compression_types \<Rightarrow> (unit, object_file_error) res" where
  "ensure_supported E ct = (if is_supported E ct then Ok () else Err (UnsupportedCompression ct))"

section \<open>Encoding the prefix\<close>

definition metadata_size :: "'hn env \<Rightarrow> 'hn tags \<Rightarrow> nat" where
  "metadata_size E metadata = tags_size (metakey_size (header_names E)) metadata"

definition tag_block_size :: "u8 list tags \<Rightarrow> nat" where
  "tag_block_size t = tags_size string_size t"

definition encode_prefix ::
  "'hn env \<Rightarrow> object_header \<Rightarrow> 'hn tags \<Rightarrow> u8 list tags \<Rightarrow> section_layout \<Rightarrow> (u8 list, object_file_error) res" where
  "encode_prefix E header metadata t l =
     res_bind (metadata_space l) (\<lambda>mspace.
     if metadata_size E metadata > mspace
     then Err (ReservedSpaceExceeded (metadata_size E metadata) mspace)
     else res_bind (tags_space l) (\<lambda>tspace.
     if tag_block_size t > tspace
     then Err (ReservedSpaceExceeded (tag_block_size t) tspace)
     else map_err Encoding
       (let buffer = replicate (prefix_size l) 0
        in res_bind (write_header slice_write header \<lparr>s_buf = buffer, s_pos = 0\<rparr>) (\<lambda>c.
           res_bind (write_tags (write_metakey (header_names E)) slice_write metadata
                       (set_position HEADER_SIZE c)) (\<lambda>c.
           res_bind (write_tags write_string slice_write t
                       (set_position (unat (tags_start l)) c)) (\<lambda>c.
           Ok (s_buf c)))))))"

section \<open>The bytes of a prefix\<close>

definition wire_metadata :: "'hn env \<Rightarrow> 'hn tags \<Rightarrow> u8 list" where
  "wire_metadata E = wire_tags (\<lambda>k. wire_block (hn_as_str (header_names E) k))"

definition wire_tag_block :: "u8 list tags \<Rightarrow> u8 list" where
  "wire_tag_block = wire_tags wire_block"

text \<open>Header, metadata, zeros up to the tags, tags, zeros up to the content.\<close>

definition prefix_image :: "'hn env \<Rightarrow> object_header \<Rightarrow> 'hn tags \<Rightarrow> u8 list tags \<Rightarrow> section_layout \<Rightarrow> u8 list" where
  "prefix_image E header metadata t l =
     wire_header header @
     wire_metadata E metadata @
     replicate (unat (tags_start l) - (HEADER_SIZE + length (wire_metadata E metadata))) 0 @
     wire_tag_block t @
     replicate (unat (content_start l) - (unat (tags_start l) + length (wire_tag_block t))) 0"

text \<open>What the sections of an object must satisfy to be encodable at all.\<close>

definition sections_ok :: "'hn tags \<Rightarrow> u8 list tags \<Rightarrow> bool" where
  "sections_ok metadata t \<longleftrightarrow> tags_ok (\<lambda>_. True) metadata \<and> tags_ok string_ok t"

lemma length_wire_metadata:
  "header_name_ok (header_names E) \<Longrightarrow> entries_ok (\<lambda>_. True) md \<Longrightarrow> length (wire_metadata E md) = metadata_size E md"
  using tag_key.tags_size_wire [OF metakey_tag_key] by (simp add: wire_metadata_def metadata_size_def)

lemma length_wire_tag_block: "entries_ok string_ok t \<Longrightarrow> length (wire_tag_block t) = tag_block_size t"
  using string_tag.tags_size_wire by (simp add: wire_tag_block_def tag_block_size_def)

lemma slice_write_mid:
  "length a = n \<Longrightarrow> length b = length bs \<Longrightarrow>
   slice_write bs \<lparr>s_buf = a @ b @ c, s_pos = n\<rparr> = Ok \<lparr>s_buf = a @ bs @ c, s_pos = n + length bs\<rparr>"
  by (auto simp: slice_write_def)

lemma slice_write_header:
  "write_header slice_write h w = slice_write (wire_header h) w"
  by (rule slice.write_header_wire)

lemma slice_write_metadata:
  assumes "header_name_ok (header_names E)" and "entries_ok (\<lambda>_. True) md"
  shows "write_tags (write_metakey (header_names E)) slice_write md w = slice_write (wire_metadata E md) w"
  unfolding wire_metadata_def
  by (rule slice.write_tags_wire [OF assms(2)]) (rule slice.write_metakey_wire [OF assms(1)])

lemma slice_write_tags:
  assumes "entries_ok string_ok t"
  shows "write_tags write_string slice_write t w = slice_write (wire_tag_block t) w"
  unfolding wire_tag_block_def
  by (rule slice.write_tags_wire [OF assms]) (simp add: slice.write_string_wire string_ok_def)

lemma set_position_simp [simp]: "set_position n \<lparr>s_buf = b, s_pos = m\<rparr> = \<lparr>s_buf = b, s_pos = n\<rparr>"
  by (simp add: set_position_def)

lemma encode_prefix_image:
  assumes H: "header_name_ok (header_names E)" and ok: "sections_ok md t"
    and fits: "layout_fits l (metadata_size E md) (tag_block_size t)"
  shows "encode_prefix E h md t l = Ok (prefix_image E h md t l)"
proof -
  from ok have md: "entries_ok (\<lambda>_. True) md" and t: "entries_ok string_ok t"
    by (simp_all add: sections_ok_def tags_ok_def)
  let ?m = "wire_metadata E md" and ?t = "wire_tag_block t"
  let ?ts = "unat (tags_start l)" and ?cs = "unat (content_start l)"
  have lens: "length ?m = metadata_size E md" "length ?t = tag_block_size t"
    using length_wire_metadata [OF H md] length_wire_tag_block [OF t] by simp_all
  have f: "HEADER_SIZE + length ?m \<le> ?ts" "?ts + length ?t \<le> ?cs"
    using fits lens by (simp_all add: layout_fits_def)
  define z1 where "z1 = replicate (?ts - (HEADER_SIZE + length ?m)) (0 :: u8)"
  define z2 where "z2 = replicate (?cs - (?ts + length ?t)) (0 :: u8)"
  have zero: "replicate (prefix_size l) (0 :: u8) =
      [] @ replicate 32 0 @ (replicate (length ?m) 0 @ z1 @ replicate (length ?t) 0 @ z2)"
    using f by (simp add: prefix_size_def z1_def z2_def HEADER_SIZE_def flip: replicate_add)
  have w1: "slice_write (wire_header h) \<lparr>s_buf = replicate (prefix_size l) 0, s_pos = 0\<rparr> =
      Ok \<lparr>s_buf = wire_header h @ replicate (length ?m) 0 @ (z1 @ replicate (length ?t) 0 @ z2), s_pos = 32\<rparr>"
    unfolding zero by (subst slice_write_mid) simp_all
  have w2: "slice_write ?m \<lparr>s_buf = wire_header h @ replicate (length ?m) 0 @ (z1 @ replicate (length ?t) 0 @ z2),
        s_pos = HEADER_SIZE\<rparr> =
      Ok \<lparr>s_buf = (wire_header h @ ?m @ z1) @ replicate (length ?t) 0 @ z2, s_pos = 32 + length ?m\<rparr>"
    by (subst slice_write_mid) (simp_all add: HEADER_SIZE_def)
  have w3: "slice_write ?t \<lparr>s_buf = (wire_header h @ ?m @ z1) @ replicate (length ?t) 0 @ z2, s_pos = ?ts\<rparr> =
      Ok \<lparr>s_buf = (wire_header h @ ?m @ z1) @ ?t @ z2, s_pos = ?ts + length ?t\<rparr>"
    by (rule slice_write_mid) (use f in \<open>simp_all add: z1_def HEADER_SIZE_def\<close>)
  have spaces: "metadata_space l = Ok (?ts - HEADER_SIZE)" "tags_space l = Ok (?cs - ?ts)"
    using f by (simp_all add: metadata_space_def tags_space_def)
  have room: "\<not> metadata_size E md > ?ts - HEADER_SIZE" "\<not> tag_block_size t > ?cs - ?ts"
    using f lens by linarith+
  show ?thesis
    unfolding encode_prefix_def slice_write_header slice_write_metadata [OF H md] slice_write_tags [OF t]
      spaces Let_def res_bind.simps w1 set_position_simp w2 w3
    using room by (simp add: prefix_image_def z1_def z2_def)
qed

lemma length_prefix_image:
  assumes "header_name_ok (header_names E)" and "sections_ok md t"
    and "layout_fits l (metadata_size E md) (tag_block_size t)"
  shows "length (prefix_image E h md t l) = unat (content_start l)"
  using assms length_wire_metadata [of E md] length_wire_tag_block [of t]
  by (auto simp: prefix_image_def layout_fits_def sections_ok_def tags_ok_def HEADER_SIZE_def)

text \<open>The three sections, cut out of the image and of anything that starts with it.\<close>

lemma prefix_image_sections:
  assumes H: "header_name_ok (header_names E)" and ok: "sections_ok md t"
    and fits: "layout_fits l (metadata_size E md) (tag_block_size t)"
  shows "take 32 (prefix_image E h md t l @ content) = wire_header h"
    and "\<exists>z. take (unat (tags_start l) - HEADER_SIZE) (drop 32 (prefix_image E h md t l @ content)) = wire_metadata E md @ z"
    and "\<exists>z. take (unat (content_start l) - unat (tags_start l)) (drop (unat (tags_start l)) (prefix_image E h md t l @ content)) =
           wire_tag_block t @ z"
    and "drop (unat (content_start l)) (prefix_image E h md t l @ content) = content"
proof -
  from ok have md: "entries_ok (\<lambda>_. True) md" and t: "entries_ok string_ok t"
    by (simp_all add: sections_ok_def tags_ok_def)
  let ?m = "wire_metadata E md" and ?t = "wire_tag_block t"
  let ?ts = "unat (tags_start l)" and ?cs = "unat (content_start l)"
  have f: "HEADER_SIZE + length ?m \<le> ?ts" "?ts + length ?t \<le> ?cs"
    using fits length_wire_metadata [OF H md] length_wire_tag_block [OF t] by (simp_all add: layout_fits_def)
  define z1 where "z1 = replicate (?ts - (HEADER_SIZE + length ?m)) (0 :: u8)"
  define z2 where "z2 = replicate (?cs - (?ts + length ?t)) (0 :: u8)"
  have z: "length z1 = ?ts - (HEADER_SIZE + length ?m)" "length z2 = ?cs - (?ts + length ?t)"
    by (simp_all add: z1_def z2_def)
  have img: "prefix_image E h md t l @ content = wire_header h @ (?m @ z1) @ (?t @ z2) @ content"
    by (simp add: prefix_image_def z1_def z2_def)
  show "take 32 (prefix_image E h md t l @ content) = wire_header h"
    unfolding img by simp
  have "take (?ts - HEADER_SIZE) (drop 32 (prefix_image E h md t l @ content)) = ?m @ z1"
    unfolding img by (rule slice_mid) (use f z in simp_all)
  then show "\<exists>z. take (?ts - HEADER_SIZE) (drop 32 (prefix_image E h md t l @ content)) = ?m @ z"
    by blast
  have "take (?cs - ?ts) (drop ?ts ((wire_header h @ ?m @ z1) @ (?t @ z2) @ content)) = ?t @ z2"
    by (rule slice_mid) (use f z in \<open>simp_all add: HEADER_SIZE_def\<close>)
  then show "\<exists>z. take (?cs - ?ts) (drop ?ts (prefix_image E h md t l @ content)) = ?t @ z"
    unfolding img by auto
  show "drop ?cs (prefix_image E h md t l @ content) = content"
    by (rule drop_append_length) (rule length_prefix_image [OF H ok fits])
qed

text \<open>What the decoders make of them.\<close>

lemma decode_metadata:
  assumes "header_name_ok (header_names E)" and "tags_ok (\<lambda>_. True) md"
  shows "\<exists>c. read_tags (read_metakey (header_names E)) (open_cursor (wire_metadata E md @ z)) = Ok (md, c)"
  using tag_key.read_tags_wire [OF metakey_tag_key [OF assms(1)] assms(2), of "[]" z]
  by (simp add: open_cursor_cur wire_metadata_def)

lemma decode_tag_block:
  assumes "tags_ok string_ok t"
  shows "\<exists>c. read_tags read_string (open_cursor (wire_tag_block t @ z)) = Ok (t, c)"
  using string_tag.read_tags_wire [OF assms, of "[]" z] by (simp add: open_cursor_cur wire_tag_block_def)

lemma find_tag_block:
  assumes "entries_ok string_ok t"
  shows "\<exists>c. find_from_reader read_string key (open_cursor (wire_tag_block t @ z)) = Ok (map_of t key, c)"
  using string_tag.find_wire [OF assms, of key "[]" z] by (simp add: open_cursor_cur wire_tag_block_def)

lemma tag_block_count:
  assumes "entries_ok string_ok t"
  shows "take 2 (wire_tag_block t @ z) = to_le_bytes (of_nat (length t) :: u16)"
  using assms by (simp add: wire_tag_block_def wire_tags_def)

lemma slice_write_length: "slice_write bs c = Ok c' \<Longrightarrow> length (s_buf c') = length (s_buf c)"
  by (auto simp: slice_write_def split: if_splits)

text \<open>
  Whatever is encoded, a slice writer keeps the length of its buffer and never panics; so an encoding
  that succeeds fills exactly the space in front of the content.
\<close>

definition keeps_buffer :: "(slice_cursor \<Rightarrow> (slice_cursor, 'e) res) \<Rightarrow> bool" where
  "keeps_buffer f \<longleftrightarrow> (\<forall>c. f c \<noteq> Panic \<and> (\<forall>c'. f c = Ok c' \<longrightarrow> length (s_buf c') = length (s_buf c)))"

lemma keeps_slice_write [intro, simp]: "keeps_buffer (slice_write bs)"
  by (auto simp: keeps_buffer_def slice_write_def)

lemma keeps_bind [intro]:
  assumes "keeps_buffer f" and "keeps_buffer g"
  shows "keeps_buffer (\<lambda>c. res_bind (f c) g)"
  unfolding keeps_buffer_def
proof (intro allI conjI impI)
  fix c c'
  show "res_bind (f c) g \<noteq> Panic"
    using assms by (auto simp: keeps_buffer_def)
  assume "res_bind (f c) g = Ok c'"
  then obtain c1 where "f c = Ok c1" "g c1 = Ok c'" by (auto simp: res_dest)
  with assms show "length (s_buf c') = length (s_buf c)"
    unfolding keeps_buffer_def by (metis (no_types))
qed

lemma keeps_check [intro]: "r \<noteq> Panic \<Longrightarrow> keeps_buffer f \<Longrightarrow> keeps_buffer (\<lambda>c. res_bind r (\<lambda>_. f c))"
  by (cases r) (auto simp: keeps_buffer_def)

lemma keeps_each: "(\<And>x. keeps_buffer (f x)) \<Longrightarrow> keeps_buffer (write_each f xs)"
proof (induction xs)
  case Nil
  then show ?case by (simp add: keeps_buffer_def)
next
  case (Cons x xs)
  then have "keeps_buffer (\<lambda>c. res_bind (f x c) (write_each f xs))" by blast
  then show ?case by (simp add: keeps_buffer_def)
qed

lemma checks_not_Panic [simp]: "length_is_allowed t n \<noteq> Panic" "count_is_allowed t n \<noteq> Panic"
  by (simp_all add: length_is_allowed_def count_is_allowed_def)

lemma keeps_num [intro, simp]: "keeps_buffer (write_num slice_write x)"
  by (simp add: write_num_def [abs_def])

lemma keeps_string [intro, simp]: "keeps_buffer (write_string slice_write s)"
  unfolding write_string_def [abs_def] by (intro keeps_check keeps_bind) simp_all

lemma keeps_byte_vec [intro, simp]: "keeps_buffer (write_vec write_num slice_write (b :: u8 list))"
  unfolding write_vec_def [abs_def] by (intro keeps_check keeps_bind keeps_each) simp_all

lemma keeps_cong: "keeps_buffer f \<Longrightarrow> (\<And>c. g c = f c) \<Longrightarrow> keeps_buffer g"
  by (simp add: keeps_buffer_def)

lemma keeps_inner [intro, simp]: "keeps_buffer (write_inner slice_write v)"
proof (cases "(\<exists>s. v = VString s) \<or> (\<exists>b. v = VBytes b)")
  case True
  then show ?thesis
    by (auto intro: keeps_cong [OF keeps_string] keeps_cong [OF keeps_byte_vec])
next
  case False
  then show ?thesis
    by (intro keeps_cong [OF keeps_slice_write [of "wire_inner v"]])
       (cases v; simp add: slice.write_num_wire slice.write_bool_wire slice.write_times_wire
         slice.write_uuid_wire)
qed

lemma keeps_value [intro, simp]: "keeps_buffer (write_value slice_write v)"
  unfolding write_value_def [abs_def] by (intro keeps_bind) simp_all

lemma keeps_metakey [intro, simp]: "keeps_buffer (write_metakey H slice_write k)"
  unfolding write_metakey_def [abs_def] Let_def by (intro keeps_check keeps_bind) simp_all

lemma keeps_tags:
  assumes "\<And>k. keeps_buffer (wk slice_write k)"
  shows "keeps_buffer (write_tags wk slice_write t)"
proof -
  have "keeps_buffer (case e of (k, v) \<Rightarrow> \<lambda>c. res_bind (wk slice_write k c) (write_value slice_write v))" for e
    using assms by (cases e) (auto intro!: keeps_bind)
  then show ?thesis
    unfolding write_tags_def [abs_def] by (intro keeps_check keeps_bind keeps_each) simp_all
qed

lemma keeps_metadata_block: "keeps_buffer (write_tags (write_metakey (header_names E)) slice_write md)"
  by (rule keeps_tags) simp

lemma keeps_tag_block: "keeps_buffer (write_tags write_string slice_write t)"
  by (rule keeps_tags) simp

lemma select_convs_set_position: "s_buf (set_position n c) = s_buf c"
  by (simp add: set_position_def)

lemma encode_prefix_length:
  assumes "encode_prefix E h md t l = Ok bs"
  shows "length bs = unat (content_start l)"
proof -
  let ?H = "header_names E"
  obtain c1 c2 c3 where c: "write_header slice_write h \<lparr>s_buf = replicate (prefix_size l) 0, s_pos = 0\<rparr> = Ok c1"
    "write_tags (write_metakey ?H) slice_write md (set_position HEADER_SIZE c1) = Ok c2"
    "write_tags write_string slice_write t (set_position (unat (tags_start l)) c2) = Ok c3"
    and bs: "bs = s_buf c3"
    using assms by (auto simp: encode_prefix_def res_dest Let_def split: if_splits)
  have "length (s_buf c1) = prefix_size l"
    using slice_write_length [of "wire_header h"] c(1) by (fastforce simp: slice_write_header)
  moreover have "length (s_buf c2) = length (s_buf c1)"
    using c(2) keeps_metadata_block [of E md] unfolding keeps_buffer_def
    by (metis select_convs_set_position)
  moreover have "length (s_buf c3) = length (s_buf c2)"
    using c(3) keeps_tag_block [of t] unfolding keeps_buffer_def
    by (metis select_convs_set_position)
  ultimately show ?thesis by (simp add: bs prefix_size_def)
qed

lemma spaces_Ok:
  assumes "layout_fits l ms ts"
  shows "metadata_space l = Ok (unat (tags_start l) - HEADER_SIZE)"
    and "tags_space l = Ok (unat (content_start l) - unat (tags_start l))"
  using assms by (simp_all add: metadata_space_def tags_space_def layout_fits_def)

lemma encode_prefix_not_Panic:
  assumes "layout_fits l ms ts"
  shows "encode_prefix E h md t l \<noteq> Panic"
proof -
  have "write_tags (write_metakey (header_names E)) slice_write md c \<noteq> Panic"
    "write_tags write_string slice_write t c \<noteq> Panic" "write_header slice_write h c \<noteq> Panic" for c
    using keeps_metadata_block [of E md] keeps_tag_block [of t] keeps_slice_write [of "wire_header h"]
    by (auto simp only: keeps_buffer_def slice_write_header)
  then show ?thesis
    unfolding encode_prefix_def Let_def by (simp add: spaces_Ok [OF assms])
qed

text \<open>
  What the Rust types of the sections guarantee by themselves: keys are distinct, strings are UTF-8 and
  a UUID has sixteen bytes. Such sections are refused exactly by the limits on lengths and counts, so
  whatever is encoded is within them.
\<close>

fun value_typed :: "value_type \<Rightarrow> bool" where
  "value_typed (VString s) \<longleftrightarrow> utf8_valid s"
| "value_typed (VUuid u) \<longleftrightarrow> uuid_ok u"
| "value_typed _ \<longleftrightarrow> True"

definition sections_typed :: "'hn tags \<Rightarrow> u8 list tags \<Rightarrow> bool" where
  "sections_typed metadata t \<longleftrightarrow>
     distinct (map fst metadata) \<and> distinct (map fst t) \<and> list_all value_typed (map snd metadata) \<and>
     list_all (\<lambda>(k, v). utf8_valid k \<and> value_typed v) t"

lemma value_ok_typed: "value_ok v \<Longrightarrow> value_typed v"
  by (cases v) (simp_all add: string_ok_def)

lemma sections_ok_typed: "sections_ok md t \<Longrightarrow> sections_typed md t"
  by (auto simp: sections_ok_def sections_typed_def tags_ok_def entries_ok_def list_all_iff string_ok_def value_ok_typed)

lemma checks_Ok: "length_is_allowed ty n = Ok u \<longleftrightarrow> n \<le> 65535" "count_is_allowed ty n = Ok u \<longleftrightarrow> n \<le> 65535"
  by (auto simp: length_is_allowed_def count_is_allowed_def MAX_PREFIXED_LENGTH_def)

lemma write_value_limits: "value_typed v \<Longrightarrow> write_value wr v c = Ok c' \<Longrightarrow> value_ok v"
  by (cases v) (auto simp: write_value_def write_string_def write_vec_def res_dest checks_Ok string_ok_def block_ok_def)

lemma write_each_Ok: "write_each f xs c = Ok c' \<Longrightarrow> x \<in> set xs \<Longrightarrow> \<exists>c1 c2. f x c1 = Ok c2"
  by (induction xs arbitrary: c) (auto simp: res_dest)

lemma write_tags_limits:
  assumes "write_tags wk wr t c = Ok c'"
  shows "length t \<le> 65535" and "(k, v) \<in> set t \<Longrightarrow> \<exists>c1 c2. wk wr k c1 = Ok c2" "(k, v) \<in> set t \<Longrightarrow> \<exists>c1 c2. write_value wr v c1 = Ok c2"
proof -
  from assms show "length t \<le> 65535" by (auto simp: write_tags_def res_dest checks_Ok)
  from assms obtain c0 where "write_each (\<lambda>(k, v) w. res_bind (wk wr k w) (\<lambda>w. write_value wr v w)) t c0 = Ok c'"
    by (auto simp: write_tags_def res_dest)
  note each = write_each_Ok [OF this]
  show "(k, v) \<in> set t \<Longrightarrow> \<exists>c1 c2. wk wr k c1 = Ok c2" "(k, v) \<in> set t \<Longrightarrow> \<exists>c1 c2. write_value wr v c1 = Ok c2"
    using each [of "(k, v)"] by (auto simp: res_dest)
qed

lemma encode_prefix_limits:
  assumes typed: "sections_typed md t" and enc: "encode_prefix E h md t l = Ok bs"
  shows "sections_ok md t"
proof -
  obtain a b c d where m: "write_tags (write_metakey (header_names E)) slice_write md a = Ok b"
    and t: "write_tags write_string slice_write t c = Ok d"
    using enc by (auto simp: encode_prefix_def res_dest Let_def split: if_splits)
  have v: "value_ok v" if "value_typed v" "\<exists>c1 c2. write_value slice_write v c1 = Ok c2" for v
    using that by (auto dest: write_value_limits)
  have k: "length s \<le> 65535" if "\<exists>c1 c2. write_string slice_write s c1 = Ok c2" for s
    using that by (auto simp: write_string_def res_dest checks_Ok)
  show ?thesis
    using typed v [OF _ write_tags_limits(3) [OF m]] v [OF _ write_tags_limits(3) [OF t]] k [OF write_tags_limits(2) [OF t]]
      write_tags_limits(1) [OF m] write_tags_limits(1) [OF t]
    by (auto simp: sections_typed_def sections_ok_def tags_ok_def entries_ok_def list_all_iff string_ok_def)
qed

text \<open>Sections that do not fit their layout are refused before anything is written.\<close>

lemma encode_prefix_fits:
  assumes "encode_prefix E h md t l = Ok bs"
  shows "layout_fits l (metadata_size E md) (tag_block_size t)"
proof -
  have "HEADER_SIZE \<le> unat (tags_start l)"
    using assms by (rule contrapos_pp) (simp add: encode_prefix_def metadata_space_def usize_sub_def)
  then have a: "metadata_space l = Ok (unat (tags_start l) - HEADER_SIZE)"
    by (simp add: metadata_space_def)
  have m: "metadata_size E md \<le> unat (tags_start l) - HEADER_SIZE"
    using assms by (rule contrapos_pp) (simp add: encode_prefix_def metadata_space_def usize_sub_def)
  have "unat (tags_start l) \<le> unat (content_start l)"
    by (rule ccontr) (use assms m in \<open>simp add: encode_prefix_def a tags_space_def usize_sub_def\<close>)
  moreover have "tag_block_size t \<le> unat (content_start l) - unat (tags_start l)"
    by (rule ccontr)
       (use assms m calculation in \<open>simp add: encode_prefix_def a tags_space_def usize_sub_def\<close>)
  ultimately show ?thesis
    using m \<open>HEADER_SIZE \<le> unat (tags_start l)\<close> unfolding layout_fits_def by linarith
qed

end
