(* ===== verification/ObjectFile.thy ===== *)
theory ObjectFile
  imports Prefix
begin

text \<open>
  \<open>src/src/fs/object.rs\<close> without the rewriting updates, and \<open>src/src/fs/reader.rs\<close>: opening an
  object, reading its tags and its content, whole or in ranges, and overwriting its sections in
  place. A method runs on the pair of its object and the world.
\<close>

section \<open>Methods\<close>

definition with_self :: "('o \<Rightarrow> ('o \<times> 'w, 'a, 'e) st) \<Rightarrow> ('o \<times> 'w, 'a, 'e) st" where
  "with_self f s = f (fst s) s"

definition put_self :: "'o \<Rightarrow> ('o \<times> 'w, unit, 'e) st" where
  "put_self ob s = (Ok (), (ob, snd s))"

lemma wp_with_self [simp]: "wp (with_self f) Q R s \<longleftrightarrow> wp (f (fst s)) Q R s"
  by (simp add: wp_def with_self_def)

lemma st_bind_with_self [simp]: "st_bind (with_self f) g = with_self (\<lambda>ob. st_bind (f ob) g)"
  by (simp add: st_bind_def with_self_def fun_eq_iff)

lemma wp_put_self [simp]: "wp (put_self ob) Q R s \<longleftrightarrow> Q () (ob, snd s)"
  by (simp add: wp_def put_self_def)

text \<open>A system call inside a method; \<open>?\<close> wraps its error.\<close>

definition io :: "('w, 'a, io_kind) st \<Rightarrow> ('o \<times> 'w, 'a, object_file_error) st" where
  "io m = on_world (st_map_err IO m)"

lemma wp_io: "wp (io m) Q R s \<longleftrightarrow>
    wp m (\<lambda>a w. Q a (fst s, w)) (\<lambda>e w. R (map_option IO e) (fst s, w)) (snd s)"
  by (simp add: io_def wp_on_world wp_map_err)

lemma wp_bind_io:
  assumes "wp m Qm Rm w"
    and "\<And>a w'. Qm a w' \<Longrightarrow> wp (f a) Q R (ob, w')" and "\<And>e w'. Rm e w' \<Longrightarrow> R (map_option IO e) (ob, w')"
  shows "wp (st_bind (io m) f) Q R (ob, w)"
  unfolding wp_bind wp_io using wp_conseq [OF assms(1)] assms(2,3) by auto

section \<open>Objects\<close>

record 'hn tux_object =
  ob_file :: nat
  ob_path :: path
  ob_header :: object_header
  ob_metadata :: "'hn tags"
  ob_writable :: bool

type_synonym ('hn, 'a) object_method = "('hn tux_object \<times> world, 'a, object_file_error) st"

definition from_parts :: "nat \<Rightarrow> path \<Rightarrow> object_header \<Rightarrow> 'hn tags \<Rightarrow> bool \<Rightarrow> 'hn tux_object" where
  "from_parts file p header metadata writable =
     \<lparr>ob_file = file, ob_path = p, ob_header = header, ob_metadata = metadata, ob_writable = writable\<rparr>"

definition decode_with :: "'a decoder \<Rightarrow> u8 list \<Rightarrow> ('a, object_file_error) res" where
  "decode_with rd buffer = map_err Encoding (res_bind (rd (open_cursor buffer)) (\<lambda>(v, c). Ok v))"

definition from_file :: "'hn env \<Rightarrow> nat \<Rightarrow> path \<Rightarrow> bool \<Rightarrow> (world, 'hn tux_object, object_file_error) st" where
  "from_file E file p writable =
     st_bind (st_map_err IO (sys_seek E file 0)) (\<lambda>_.
     st_bind (st_map_err IO (file_read_exact E file HEADER_SIZE)) (\<lambda>header_bytes.
     st_bind (st_lift (map_err Encoding (header_read_from_bytes header_bytes))) (\<lambda>header.
     let space = unat (h_tags_start header) - HEADER_SIZE
     in st_bind
          (if space = 0 then st_lift (Ok tags_new)
           else st_bind (st_map_err IO (file_read_exact E file space)) (\<lambda>buffer.
                st_lift (decode_with (read_tags (read_metakey (header_names E))) buffer)))
        (\<lambda>metadata. st_lift (Ok (from_parts file p header metadata writable))))))"

definition open_object :: "'hn env \<Rightarrow> path \<Rightarrow> (world, 'hn tux_object, object_file_error) st" where
  "open_object E p =
     st_bind (st_map_err IO (sys_open E p False)) (\<lambda>file. from_file E file p False)"

definition open_writable :: "'hn env \<Rightarrow> path \<Rightarrow> (world, 'hn tux_object, object_file_error) st" where
  "open_writable E p =
     st_bind (st_map_err IO (sys_open E p True)) (\<lambda>file. from_file E file p True)"

definition open_optional :: "'hn env \<Rightarrow> path \<Rightarrow> (world, 'hn tux_object option, object_file_error) st" where
  "open_optional E p w =
     (case open_object E p w of
        (Ok ob, w') \<Rightarrow> (Ok (Some ob), w')
      | (Err e, w') \<Rightarrow> if is_not_found e then (Ok None, w') else (Err e, w')
      | (Panic, w') \<Rightarrow> (Panic, w'))"

definition object_content_length :: "'hn tux_object \<Rightarrow> u64" where
  "object_content_length ob = content_length (ob_header ob)"

definition is_compressed :: "'hn tux_object \<Rightarrow> bool" where
  "is_compressed ob \<longleftrightarrow> compression_type (ob_header ob) \<noteq> NoCompression"

definition header_layout :: "object_header \<Rightarrow> section_layout" where
  "header_layout h = \<lparr>tags_start = h_tags_start h, content_start = h_content_start h\<rparr>"

definition object_layout :: "'hn tux_object \<Rightarrow> section_layout" where
  "object_layout ob = header_layout (ob_header ob)"

definition file_size :: "'hn env \<Rightarrow> ('hn, nat) object_method" where
  "file_size E = with_self (\<lambda>ob. io (sys_file_len E (ob_file ob)))"

section \<open>Tags\<close>

definition object_read_tags :: "'hn env \<Rightarrow> ('hn, u8 list tags) object_method" where
  "object_read_tags E = with_self (\<lambda>ob.
     st_bind (st_lift (tags_space (object_layout ob))) (\<lambda>space.
     if space = 0 then st_lift (Ok tags_new)
     else st_bind (io (sys_seek E (ob_file ob) (unat (h_tags_start (ob_header ob))))) (\<lambda>_.
          st_bind (io (file_read_exact E (ob_file ob) space)) (\<lambda>buffer.
          st_lift (decode_with (read_tags read_string) buffer)))))"

definition tag_count :: "'hn env \<Rightarrow> ('hn, u16) object_method" where
  "tag_count E = with_self (\<lambda>ob.
     st_bind (st_lift (tags_space (object_layout ob))) (\<lambda>space.
     if space = 0 then st_lift (Ok 0)
     else st_bind (io (sys_seek E (ob_file ob) (unat (h_tags_start (ob_header ob))))) (\<lambda>_.
          st_bind (io (file_read_exact E (ob_file ob) 2)) (\<lambda>buffer.
          st_lift (Ok (from_le_bytes buffer))))))"

definition find_tag :: "'hn env \<Rightarrow> u8 list \<Rightarrow> ('hn, value_type option) object_method" where
  "find_tag E key = with_self (\<lambda>ob.
     st_bind (st_lift (tags_space (object_layout ob))) (\<lambda>space.
     if space = 0 then st_lift (Ok None)
     else st_bind (io (sys_seek E (ob_file ob) (unat (h_tags_start (ob_header ob))))) (\<lambda>_.
          st_bind (io (file_read_exact E (ob_file ob) space)) (\<lambda>buffer.
          st_lift (decode_with (find_from_reader read_string key) buffer)))))"

section \<open>Content\<close>

record content_reader =
  cr_file :: nat
  remaining :: u64

text \<open>One \<open>read\<close> into a buffer of \<open>n\<close> bytes, and \<open>read_to_end\<close>, whose buffers are of any size.\<close>

definition content_read :: "'x os_scheme \<Rightarrow> nat \<Rightarrow> (content_reader \<times> world, u8 list, io_kind) st" where
  "content_read E n = with_self (\<lambda>r.
     if remaining r = 0 \<or> n = 0 then st_lift (Ok [])
     else st_bind (on_world (sys_read E (cr_file r) (min (unat (remaining r)) n))) (\<lambda>bs.
          st_bind (put_self (r\<lparr>remaining := remaining r - of_nat (length bs)\<rparr>)) (\<lambda>_.
          st_lift (Ok bs))))"

lemma sys_read_length: "sys_read E fd n w = (Ok bs, w') \<Longrightarrow> length bs \<le> n"
  by (auto simp: sys_read_def syscall_def with_file_def Let_def split: option.splits prod.splits)

lemma remaining_less:
  assumes "bs \<noteq> []" and "length bs \<le> unat (r :: u64)"
  shows "unat (r - of_nat (length bs)) < unat r"
proof -
  have "length bs < 2 ^ 64"
    using assms(2) unsigned_less [of r, where 'a = nat] by simp
  then have n: "unat (of_nat (length bs) :: u64) = length bs" by (simp add: unat_of_nat)
  then have "of_nat (length bs) \<le> r" using assms(2) by (simp add: word_le_nat_alt)
  then have "unat (r - of_nat (length bs)) = unat r - length bs" by (simp add: unat_sub n)
  with assms show ?thesis by (cases bs) auto
qed

lemma content_read_decreases:
  assumes "content_read E n (r, w) = (Ok bs, (r', w'))" and "bs \<noteq> []"
  shows "unat (remaining r') < unat (remaining r)"
proof -
  have "length bs \<le> unat (remaining r)" and "remaining r' = remaining r - of_nat (length bs)"
    using assms sys_read_length [of E "cr_file r" "min (unat (remaining r)) n" w bs]
    by (auto simp: content_read_def with_self_def st_lift_def st_bind_def on_world_def put_self_def
        split: if_splits prod.splits res.splits)
  with remaining_less [OF assms(2)] show ?thesis by simp
qed

function content_read_to_end :: "'x os_scheme \<Rightarrow> (content_reader \<times> world, u8 list, io_kind) st" where
  "content_read_to_end E s =
     (case content_read E usize_max s of
        (Ok bs, s') \<Rightarrow>
          if bs = [] then (Ok [], s')
          else (case content_read_to_end E s' of
                  (Ok rest, s'') \<Rightarrow> (Ok (bs @ rest), s'')
                | (Err e, s'') \<Rightarrow> (Err e, s'')
                | (Panic, s'') \<Rightarrow> (Panic, s''))
      | (Err e, s') \<Rightarrow> (Err e, s')
      | (Panic, s') \<Rightarrow> (Panic, s'))"
  by pat_completeness auto
termination
  by (relation "measure (\<lambda>(E, s). unat (remaining (fst s)))") (auto dest: content_read_decreases [OF sym])

declare content_read_to_end.simps [simp del]

definition stored_content_reader :: "'hn env \<Rightarrow> ('hn, content_reader) object_method" where
  "stored_content_reader E = with_self (\<lambda>ob.
     st_bind (io (sys_seek E (ob_file ob) (unat (h_content_start (ob_header ob))))) (\<lambda>_.
     st_lift (Ok \<lparr>cr_file = ob_file ob, remaining = content_length (ob_header ob)\<rparr>)))"

definition u64_saturating_add :: "u64 \<Rightarrow> u64 \<Rightarrow> u64" where
  "u64_saturating_add a b = (if unat a + unat b < 2 ^ 64 then a + b else - 1)"

definition content_range_reader :: "'hn env \<Rightarrow> u64 \<Rightarrow> u64 option \<Rightarrow> ('hn, content_reader) object_method" where
  "content_range_reader E offset len = with_self (\<lambda>ob.
     if is_compressed ob then st_lift (Err RangedReadOnCompressed)
     else let cl = content_length (ob_header ob)
          in if offset > cl then st_lift (Err (RangeOutOfBounds offset offset cl))
             else let available = cl - offset; n = (case len of Some n \<Rightarrow> n | None \<Rightarrow> available)
                  in if n > available
                     then st_lift (Err (RangeOutOfBounds offset (u64_saturating_add offset n) cl))
                     else if unat (h_content_start (ob_header ob)) + unat offset \<ge> 2 ^ 64
                     then st_lift Panic
                     else st_bind (io (sys_seek E (ob_file ob)
                              (unat (h_content_start (ob_header ob)) + unat offset))) (\<lambda>_.
                          st_lift (Ok \<lparr>cr_file = ob_file ob, remaining = n\<rparr>)))"

datatype decoded_reader = Stored content_reader | Decoding codec content_reader

definition decompressed_content_reader :: "'hn env \<Rightarrow> ('hn, decoded_reader) object_method" where
  "decompressed_content_reader E = with_self (\<lambda>ob.
     let ct = compression_type (ob_header ob)
     in st_bind (stored_content_reader E) (\<lambda>reader.
        case ct of
          NoCompression \<Rightarrow> st_lift (Ok (Stored reader))
        | ZSTD _ \<Rightarrow> (case zstd_codec E of
              Some cd \<Rightarrow> st_lift (Ok (Decoding cd reader))
            | None \<Rightarrow> st_lift (Err (UnsupportedCompression ct)))
        | Gzip _ \<Rightarrow> (case gzip_codec E of
              Some cd \<Rightarrow> st_lift (Ok (Decoding cd reader))
            | None \<Rightarrow> st_lift (Err (UnsupportedCompression ct)))))"

text \<open>\<open>read_to_end\<close> on either kind of reader; a decoder gets everything that is stored.\<close>

definition with_reader :: "content_reader \<Rightarrow> (content_reader \<times> 'w, 'a, 'e) st \<Rightarrow> ('w, 'a, 'e) st" where
  "with_reader r m w = (case m (r, w) of (a, (r', w')) \<Rightarrow> (a, w'))"

definition decoded_read_to_end :: "'hn env \<Rightarrow> decoded_reader \<Rightarrow> (world, u8 list, io_kind) st" where
  "decoded_read_to_end E d =
     (case d of
        Stored r \<Rightarrow> with_reader r (content_read_to_end E)
      | Decoding cd r \<Rightarrow> st_bind (with_reader r (content_read_to_end E)) (\<lambda>bs. st_lift (cd_decode cd bs)))"

text \<open>\<open>Vec::with_capacity\<close> panics when the capacity exceeds \<open>isize::MAX\<close>.\<close>

definition read_content_to_vec :: "'hn env \<Rightarrow> ('hn, u8 list) object_method" where
  "read_content_to_vec E = with_self (\<lambda>ob.
     if unat (content_length (ob_header ob)) > max_offset then st_lift Panic
     else st_bind (decompressed_content_reader E) (\<lambda>reader. io (decoded_read_to_end E reader)))"

section \<open>Updates in place\<close>

definition ensure_writable :: "'hn tux_object \<Rightarrow> (unit, object_file_error) res" where
  "ensure_writable ob = (if ob_writable ob then Ok () else Err (ReadOnly (ob_path ob)))"

definition set_sections_in_place :: "'hn env \<Rightarrow> 'hn tags \<Rightarrow> u8 list tags \<Rightarrow> ('hn, unit) object_method" where
  "set_sections_in_place E metadata t = with_self (\<lambda>ob.
     st_bind (st_lift (ensure_writable ob)) (\<lambda>_.
     let ms = metadata_size E metadata; ts = tag_block_size t
     in st_bind (st_lift (repartition (h_content_start (ob_header ob)) ms ts DEFAULT_ALIGNMENT)) (\<lambda>fit.
        case fit of
          None \<Rightarrow> st_lift (Err (ReservedSpaceExceeded (HEADER_SIZE + ms + ts)
                                    (unat (h_content_start (ob_header ob)))))
        | Some l \<Rightarrow>
            let header = (ob_header ob)\<lparr>h_tags_start := tags_start l, h_content_start := content_start l\<rparr>
            in st_bind (st_lift (encode_prefix E header metadata t l)) (\<lambda>prefix.
               st_bind (io (sys_seek E (ob_file ob) 0)) (\<lambda>_.
               st_bind (io (file_write_all E (ob_file ob) prefix)) (\<lambda>_.
               st_bind (io (file_flush (ob_file ob))) (\<lambda>_.
               put_self (ob\<lparr>ob_header := header, ob_metadata := metadata\<rparr>))))))))"

section \<open>What reading does\<close>

text \<open>Reading changes no file and no name, and every other process sees what it saw before.\<close>

definition same_files :: "world \<Rightarrow> world \<Rightarrow> bool" where
  "same_files w w' \<longleftrightarrow> w_names w' = w_names w \<and> w_dirs w' = w_dirs w \<and> w_data w' = w_data w
     \<and> shown (\<lambda>v. v = view_of w) w w'"

lemma frame_same_files: "frame F {} w w' \<Longrightarrow> same_files w w'"
  unfolding same_files_def
  by (auto simp: frameD(1,2) frameD(6) fun_eq_iff elim!: frame_shown [THEN shown_mono])

lemma same_files_refl [simp]: "same_files w w"
  by (simp add: same_files_def)

lemma same_files_trans: "same_files a b \<Longrightarrow> same_files b c \<Longrightarrow> same_files a c"
proof -
  assume ab: "same_files a b" and bc: "same_files b c"
  then have "view_of b = view_of a" by (auto simp: same_files_def view_of_def fun_eq_iff split: option.splits)
  with ab bc show ?thesis unfolding same_files_def by (auto elim: shown_trans)
qed

text \<open>
  What a file holds: the bytes of a header, a metadata map, a tag map and a content, laid out as the
  header says. An object is at a file when it is a handle to it and agrees with it.
\<close>

definition holds_object ::
  "'hn env \<Rightarrow> u8 list \<Rightarrow> object_header \<Rightarrow> 'hn tags \<Rightarrow> u8 list tags \<Rightarrow> u8 list \<Rightarrow> bool" where
  "holds_object E d h metadata t content \<longleftrightarrow>
     header_ok h \<and> sections_ok metadata t \<and>
     layout_fits (header_layout h) (metadata_size E metadata) (tag_block_size t) \<and>
     unat (content_length h) = length content \<and>
     d = prefix_image E h metadata t (header_layout h) @ content"

definition object_at ::
  "'hn env \<Rightarrow> 'hn tux_object \<Rightarrow> world \<Rightarrow> u8 list tags \<Rightarrow> u8 list \<Rightarrow> bool" where
  "object_at E ob w t content \<longleftrightarrow>
     (\<exists>f. w_open w (ob_file ob) = Some f \<and>
        holds_object E (w_data w (of_inode f)) (ob_header ob) (ob_metadata ob) t content)"

lemma holds_objectD:
  assumes H: "header_name_ok (header_names E)" and h: "holds_object E d h md t content"
  shows "take 32 d = wire_header h" and "32 \<le> length d"
    and "\<exists>z. take (unat (h_tags_start h) - HEADER_SIZE) (drop 32 d) = wire_metadata E md @ z"
    and "unat (h_tags_start h) \<le> length d" and "HEADER_SIZE < unat (h_tags_start h)"
    and "\<exists>z. take (unat (h_content_start h) - unat (h_tags_start h)) (drop (unat (h_tags_start h)) d) =
           wire_tag_block t @ z"
    and "unat (h_tags_start h) + 2 \<le> unat (h_content_start h)"
    and "length d = unat (h_content_start h) + length content"
    and "drop (unat (h_content_start h)) d = content"
proof -
  let ?l = "header_layout h"
  have ok: "sections_ok md t" and fits: "layout_fits ?l (metadata_size E md) (tag_block_size t)"
    and d: "d = prefix_image E h md t ?l @ content"
    using h by (simp_all add: holds_object_def)
  note cut = prefix_image_sections [OF H ok fits, of h content]
  note len = length_prefix_image [OF H ok fits, of h]
  have l: "tags_start ?l = h_tags_start h" "content_start ?l = h_content_start h"
    by (simp_all add: header_layout_def)
  have sizes: "2 \<le> metadata_size E md" "2 \<le> tag_block_size t"
    by (simp_all add: metadata_size_def tag_block_size_def tags_size_def)
  have f: "HEADER_SIZE + metadata_size E md \<le> unat (h_tags_start h)"
    "unat (h_tags_start h) + tag_block_size t \<le> unat (h_content_start h)"
    using fits by (simp_all add: layout_fits_def l)
  show len_d: "length d = unat (h_content_start h) + length content"
    using len by (simp add: d l)
  show "HEADER_SIZE < unat (h_tags_start h)"
    and "unat (h_tags_start h) + 2 \<le> unat (h_content_start h)"
    using f sizes by linarith+
  show "unat (h_tags_start h) \<le> length d" and "32 \<le> length d"
    using len_d f unfolding HEADER_SIZE_def by linarith+
qed (use prefix_image_sections [OF H, of md t "header_layout h" h content] h
     in \<open>auto simp: holds_object_def header_layout_def\<close>)

lemma from_file_wp:
  assumes f: "w_open w fd = Some f"
    and H: "header_name_ok (header_names E)" and holds: "holds_object E (w_data w (of_inode f)) h md t content"
  shows "wp (from_file E fd p wr)
     (\<lambda>ob w'. frame {fd} {} w w' \<and> ob = from_parts fd p h md wr)
     (\<lambda>e w'. frame {fd} {} w w' \<and> \<not> reliable E) w"
proof -
  let ?d = "w_data w (of_inode f)"
  note D = holds_objectD [OF H holds]
  obtain z where z: "take (unat (h_tags_start h) - HEADER_SIZE) (drop 32 ?d) = wire_metadata E md @ z"
    using D(3) by blast
  have ok: "header_ok h" "tags_ok (\<lambda>_. True) md"
    using holds by (simp_all add: holds_object_def sections_ok_def)
  have hdr: "header_read_from_bytes (take 32 ?d) = Ok h"
    using D(1) ok by simp
  have meta: "decode_with (read_tags (read_metakey (header_names E))) (wire_metadata E md @ z) = Ok md"
    using decode_metadata [OF H ok(2), of z] by (auto simp: decode_with_def)
  have space: "unat (h_tags_start h) - HEADER_SIZE \<noteq> 0" using D(5) by simp
  show ?thesis
    unfolding from_file_def
  proof (rule wp_bind_map_err [OF sys_seek_wp [OF f]], goal_cases)
    case (1 _ w1)
    then have fr1: "frame {fd} {} w w1" and o1: "w_open w1 fd = Some (f\<lparr>of_pos := 0\<rparr>)" by auto
    have d1: "w_data w1 (of_inode f) = ?d" using frameD(6) [OF fr1] by simp
    show ?case
    proof (rule wp_bind_map_err [OF file_read_exact_wp [OF o1]], goal_cases)
      case (1 bs w2)
      then have fr2: "frame {fd} {} w1 w2" and bs: "bs = take 32 ?d"
        and o2: "w_open w2 fd = Some (f\<lparr>of_pos := 32\<rparr>)"
        by (auto simp: d1 HEADER_SIZE_def)
      note fr = frame_trans [OF fr1 fr2]
      have d2: "w_data w2 (of_inode f) = ?d" using frameD(6) [OF fr] by simp
      have "wp (st_bind (st_map_err IO (file_read_exact E fd (unat (h_tags_start h) - HEADER_SIZE)))
              (\<lambda>buffer. st_bind (st_lift (decode_with (read_tags (read_metakey (header_names E))) buffer))
                (\<lambda>metadata. st_lift (Ok (from_parts fd p h metadata wr)))))
           (\<lambda>ob w'. frame {fd} {} w w' \<and> ob = from_parts fd p h md wr)
           (\<lambda>e w'. frame {fd} {} w w' \<and> \<not> reliable E) w2"
      proof (rule wp_bind_map_err [OF file_read_exact_wp [OF o2]], goal_cases)
        case (1 bs w3)
        then show ?case
          using frame_trans [OF fr, of w3] by (simp add: d2 z meta)
      next
        case (2 e w3)
        then show ?case
          using frame_trans [OF fr, of w3] D(4,5) by (auto simp: d2 HEADER_SIZE_def)
      qed
      then show ?case
        using space by (simp add: bs hdr Let_def)
    next
      case (2 e w2)
      then show ?case
        using frame_trans [OF fr1, of w2] D(2) by (auto simp: d1 HEADER_SIZE_def)
    qed
  next
    case (2 e w1)
    then show ?case using frame_mono [of "{}" "{}" w w1 "{fd}" "{}"] by (auto simp: max_offset_def)
  qed
qed

lemma object_at_frame:
  assumes "frame {ob_file ob} {} w w'" and "object_at E ob w t content"
  shows "object_at E ob w' t content"
proof -
  obtain f where f: "w_open w (ob_file ob) = Some f"
    "holds_object E (w_data w (of_inode f)) (ob_header ob) (ob_metadata ob) t content"
    using assms(2) by (auto simp: object_at_def)
  have "map_option (\<lambda>f. (of_inode f, of_writable f)) (w_open w' (ob_file ob)) = Some (of_inode f, of_writable f)"
    using assms(1) f(1) by (simp add: frame_def)
  then obtain g where g: "w_open w' (ob_file ob) = Some g" "of_inode g = of_inode f" by auto
  moreover have "w_data w' (of_inode f) = w_data w (of_inode f)"
    using frameD(6) [OF assms(1)] by simp
  ultimately show ?thesis using f(2) by (auto simp: object_at_def)
qed

lemma wp_seek_read:
  assumes f: "w_open w fd = Some f"
    and len: "n + k \<le> length (w_data w (of_inode f))" "n \<le> max_offset"
    and ok: "\<And>w'. frame {fd} {} w w' \<Longrightarrow> wp (g (take k (drop n (w_data w (of_inode f))))) Q R (ob, w')"
    and err: "\<And>e w'. frame {fd} {} w w' \<Longrightarrow> \<not> reliable E \<Longrightarrow> R e (ob, w')"
  shows "wp (st_bind (io (sys_seek E fd n)) (\<lambda>_. st_bind (io (file_read_exact E fd k)) g)) Q R (ob, w)"
proof (rule wp_bind_io [OF sys_seek_wp [OF f]], goal_cases)
  case (1 _ w1)
  then have fr: "frame {fd} {} w w1" and o1: "w_open w1 fd = Some (f\<lparr>of_pos := n\<rparr>)" by auto
  have d: "w_data w1 (of_inode f) = w_data w (of_inode f)" using frameD(6) [OF fr] by simp
  show ?case
  proof (rule wp_bind_io [OF file_read_exact_wp [OF o1]], goal_cases)
    case (1 bs w2)
    then show ?case using ok frame_trans [OF fr, of w2] by (simp add: d)
  next
    case (2 e w2)
    then show ?case using err frame_trans [OF fr, of w2] len by (auto simp: d)
  qed
next
  case (2 e w1)
  then show ?case using err frame_mono [of "{}" "{}" w w1 "{fd}" "{}"] len by auto
qed

lemma u32_below_max: "unat (x :: u32) \<le> max_offset"
  using unat_u32_le [of x] by (simp add: max_offset_def)

lemma u16_below_max: "unat (x :: u16) \<le> max_offset"
  using unat_u16_le [of x] by (simp add: max_offset_def)

text \<open>
  The tag section of an object: the three methods decode it, count it and search it, and the object
  stays as it was, also when the environment fails.
\<close>

lemma object_tags_wp:
  assumes H: "header_name_ok (header_names E)" and at: "object_at E ob w t content"
  shows "wp (object_read_tags E) (\<lambda>r s. r = t \<and> fst s = ob \<and> frame {ob_file ob} {} w (snd s))
           (\<lambda>e s. fst s = ob \<and> frame {ob_file ob} {} w (snd s) \<and> \<not> reliable E) (ob, w)"
    and "wp (tag_count E) (\<lambda>r s. r = of_nat (length t) \<and> fst s = ob \<and> frame {ob_file ob} {} w (snd s))
           (\<lambda>e s. fst s = ob \<and> frame {ob_file ob} {} w (snd s) \<and> \<not> reliable E) (ob, w)"
    and "wp (find_tag E key) (\<lambda>r s. r = tags_get t key \<and> fst s = ob \<and> frame {ob_file ob} {} w (snd s))
           (\<lambda>e s. fst s = ob \<and> frame {ob_file ob} {} w (snd s) \<and> \<not> reliable E) (ob, w)"
proof -
  obtain f where f: "w_open w (ob_file ob) = Some f"
    and holds: "holds_object E (w_data w (of_inode f)) (ob_header ob) (ob_metadata ob) t content"
    using at by (auto simp: object_at_def)
  let ?d = "w_data w (of_inode f)" and ?ts = "unat (h_tags_start (ob_header ob))"
    and ?cs = "unat (h_content_start (ob_header ob))"
  note D = holds_objectD [OF H holds]
  obtain z where z: "take (?cs - ?ts) (drop ?ts ?d) = wire_tag_block t @ z" using D(6) by blast
  have t: "tags_ok string_ok t" "entries_ok string_ok t"
    using holds by (simp_all add: holds_object_def sections_ok_def tags_ok_def)
  have space: "tags_space (object_layout ob) = Ok (?cs - ?ts)"
    using D(7) by (simp add: tags_space_def object_layout_def header_layout_def)
  have ne: "?cs - ?ts \<noteq> 0" using D(7) by simp
  have len: "?ts + (?cs - ?ts) \<le> length ?d" "?ts + 2 \<le> length ?d" using D(7,8) by simp_all
  have count: "from_le_bytes (take 2 (drop ?ts ?d)) = (of_nat (length t) :: u16)"
  proof -
    have "take 2 (take (?cs - ?ts) (drop ?ts ?d)) = to_le_bytes (of_nat (length t) :: u16)"
      unfolding z by (rule tag_block_count [OF t(2)])
    moreover have "take 2 (take (?cs - ?ts) (drop ?ts ?d)) = take 2 (drop ?ts ?d)"
      using D(7) by (simp add: min_def)
    ultimately have "take 2 (drop ?ts ?d) = to_le_bytes (of_nat (length t) :: u16)"
      by (rule trans [OF sym, rotated])
    then show ?thesis by (simp only:) simp
  qed
  have dec: "decode_with (read_tags read_string) (take (?cs - ?ts) (drop ?ts ?d)) = Ok t"
    using decode_tag_block [OF t(1), of z] by (auto simp: decode_with_def z)
  have fnd: "decode_with (find_from_reader read_string key) (take (?cs - ?ts) (drop ?ts ?d)) = Ok (tags_get t key)"
    using find_tag_block [OF t(2), of key z] by (auto simp: decode_with_def z tags_get_def)
  show "wp (object_read_tags E) (\<lambda>r s. r = t \<and> fst s = ob \<and> frame {ob_file ob} {} w (snd s))
           (\<lambda>e s. fst s = ob \<and> frame {ob_file ob} {} w (snd s) \<and> \<not> reliable E) (ob, w)"
    unfolding object_read_tags_def wp_with_self fst_conv space st_bind_lift
    using ne by (simp add: wp_seek_read [OF f len(1) u16_below_max] dec)
  show "wp (tag_count E) (\<lambda>r s. r = of_nat (length t) \<and> fst s = ob \<and> frame {ob_file ob} {} w (snd s))
           (\<lambda>e s. fst s = ob \<and> frame {ob_file ob} {} w (snd s) \<and> \<not> reliable E) (ob, w)"
    unfolding tag_count_def wp_with_self fst_conv space st_bind_lift
    using ne by (simp add: wp_seek_read [OF f len(2) u16_below_max] count)
  show "wp (find_tag E key) (\<lambda>r s. r = tags_get t key \<and> fst s = ob \<and> frame {ob_file ob} {} w (snd s))
           (\<lambda>e s. fst s = ob \<and> frame {ob_file ob} {} w (snd s) \<and> \<not> reliable E) (ob, w)"
    unfolding find_tag_def wp_with_self fst_conv space st_bind_lift
    using ne by (simp add: wp_seek_read [OF f len(1) u16_below_max] fnd)
qed

section \<open>What reading content does\<close>

lemma content_read_wp:
  assumes f: "w_open w (cr_file r) = Some f"
  shows "wp (content_read E n)
     (\<lambda>bs s. frame {cr_file r} {} w (snd s) \<and> length bs \<le> unat (remaining r) \<and> length bs \<le> n
        \<and> bs = take (length bs) (drop (of_pos f) (w_data w (of_inode f)))
        \<and> (bs = [] \<longrightarrow> remaining r = 0 \<or> n = 0 \<or> length (w_data w (of_inode f)) \<le> of_pos f)
        \<and> cr_file (fst s) = cr_file r \<and> unat (remaining (fst s)) = unat (remaining r) - length bs
        \<and> w_open (snd s) (cr_file r) = Some (f\<lparr>of_pos := of_pos f + length bs\<rparr>))
     (\<lambda>e s. frame {cr_file r} {} w (snd s) \<and> e \<noteq> None \<and> \<not> reliable E \<and> fst s = r) (r, w)"
proof (cases "remaining r = 0 \<or> n = 0")
  case True
  then show ?thesis using f by (auto simp: content_read_def)
next
  case False
  then have pos: "min (unat (remaining r)) n \<noteq> 0" by (simp add: min_def unat_gt_0)
  have sub: "unat (remaining r - of_nat k) = unat (remaining r) - k" if "k \<le> unat (remaining r)" for k
  proof -
    have "k < 2 ^ 64" using that unsigned_less [of "remaining r", where 'a = nat] by simp
    then have k: "unat (of_nat k :: u64) = k" by (simp add: unat_of_nat)
    then show ?thesis using that by (simp add: unat_sub word_le_nat_alt)
  qed
  have "wp (st_bind (on_world (sys_read E (cr_file r) (min (unat (remaining r)) n))) (\<lambda>bs.
          st_bind (put_self (r\<lparr>remaining := remaining r - of_nat (length bs)\<rparr>)) (\<lambda>_. st_lift (Ok bs))))
     (\<lambda>bs s. frame {cr_file r} {} w (snd s) \<and> length bs \<le> unat (remaining r) \<and> length bs \<le> n
        \<and> bs = take (length bs) (drop (of_pos f) (w_data w (of_inode f)))
        \<and> (bs = [] \<longrightarrow> remaining r = 0 \<or> n = 0 \<or> length (w_data w (of_inode f)) \<le> of_pos f)
        \<and> cr_file (fst s) = cr_file r \<and> unat (remaining (fst s)) = unat (remaining r) - length bs
        \<and> w_open (snd s) (cr_file r) = Some (f\<lparr>of_pos := of_pos f + length bs\<rparr>))
     (\<lambda>e s. frame {cr_file r} {} w (snd s) \<and> e \<noteq> None \<and> \<not> reliable E \<and> fst s = r) (r, w)"
    unfolding wp_bind wp_on_world snd_conv
    by (rule wp_conseq [OF sys_read_wp [OF f]])
       (use False pos in \<open>auto simp: wp_bind sub elim: frame_mono\<close>)
  then show ?thesis using False by (simp add: content_read_def)
qed

lemma content_read_to_end_wp:
  assumes "w_open w (cr_file r) = Some f"
  shows "wp (content_read_to_end E)
     (\<lambda>bs s. frame {cr_file r} {} w (snd s)
        \<and> bs = take (unat (remaining r)) (drop (of_pos f) (w_data w (of_inode f)))
        \<and> unat (remaining (fst s)) = unat (remaining r) - length bs)
     (\<lambda>e s. frame {cr_file r} {} w (snd s) \<and> e \<noteq> None \<and> \<not> reliable E) (r, w)"
  using assms
proof (induction "unat (remaining r)" arbitrary: r w f rule: less_induct)
  case less
  let ?d = "w_data w (of_inode f)"
  obtain a r1 w1 where run: "content_read E usize_max (r, w) = (a, (r1, w1))" by (metis prod.collapse)
  note spec = wp_run [OF content_read_wp [OF less.prems] run]
  show ?case
  proof (cases a)
    case (Ok bs)
    from spec Ok have fr: "frame {cr_file r} {} w w1" and len: "length bs \<le> unat (remaining r)"
      and bs: "bs = take (length bs) (drop (of_pos f) ?d)"
      and e: "bs = [] \<Longrightarrow> remaining r = 0 \<or> usize_max = 0 \<or> length ?d \<le> of_pos f"
      and r1: "cr_file r1 = cr_file r" "unat (remaining r1) = unat (remaining r) - length bs"
      and o1: "w_open w1 (cr_file r) = Some (f\<lparr>of_pos := of_pos f + length bs\<rparr>)"
      by auto
    have d: "w_data w1 (of_inode f) = ?d" using frameD(6) [OF fr] by simp
    show ?thesis
    proof (cases "bs = []")
      case True
      have "take (unat (remaining r)) (drop (of_pos f) ?d) = []"
        using e [OF True] by (auto simp: usize_max_def)
      with True Ok run fr r1 show ?thesis
        by (simp add: wp_def content_read_to_end.simps [of E "(r, w)"])
    next
      case False
      obtain b s2 where run2: "content_read_to_end E (r1, w1) = (b, s2)" by (metis surj_pair)
      have "wp (content_read_to_end E)
         (\<lambda>bs' s. frame {cr_file r1} {} w1 (snd s)
            \<and> bs' = take (unat (remaining r1)) (drop (of_pos f + length bs) (w_data w1 (of_inode f)))
            \<and> unat (remaining (fst s)) = unat (remaining r1) - length bs')
         (\<lambda>e s. frame {cr_file r1} {} w1 (snd s) \<and> e \<noteq> None \<and> \<not> reliable E) (r1, w1)"
        using less.hyps [of r1 w1 "f\<lparr>of_pos := of_pos f + length bs\<rparr>"] r1 o1 False len
        by (cases bs) simp_all
      note spec2 = wp_run [OF this run2]
      have whole: "take (unat (remaining r)) (drop (of_pos f) ?d) =
          bs @ take (unat (remaining r) - length bs) (drop (of_pos f + length bs) ?d)"
        using bs len by (metis add.commute drop_drop le_add_diff_inverse take_add)
      from spec2 show ?thesis
        using frame_trans [OF fr, of "snd s2"] False Ok run run2 r1 whole d
        by (cases b; cases s2)
           (simp_all add: wp_def content_read_to_end.simps [of E "(r, w)"])
    qed
  qed (use spec run in \<open>simp_all add: wp_def content_read_to_end.simps [of E "(r, w)"]\<close>)
qed

lemma range_available:
  assumes "unat (content_length h) = length content"
  shows "offset > content_length h \<longleftrightarrow> length content < unat offset"
    and "\<not> offset > content_length h \<Longrightarrow> unat (content_length h - offset) = length content - unat offset"
  using assms by (simp_all add: word_less_nat_alt unat_sub word_le_nat_alt)

text \<open>The window of the content that a range request names, or nothing if it is out of bounds.\<close>

definition window :: "u8 list \<Rightarrow> u64 \<Rightarrow> u64 option \<Rightarrow> u8 list option" where
  "window content offset len =
     (let n = (case len of Some n \<Rightarrow> unat n | None \<Rightarrow> length content - unat offset)
      in if unat offset + n \<le> length content then Some (take n (drop (unat offset) content)) else None)"

lemma content_range_reader_wp:
  assumes H: "header_name_ok (header_names E)" and at: "object_at E ob w t content"
    and plain: "\<not> is_compressed ob" and small: "unat (h_content_start (ob_header ob)) + length content \<le> max_offset"
  shows "wp (content_range_reader E offset len)
     (\<lambda>r s. frame {ob_file ob} {} w (snd s) \<and> fst s = ob \<and> cr_file r = ob_file ob
        \<and> (\<exists>f. w_open (snd s) (ob_file ob) = Some f
            \<and> window content offset len = Some (take (unat (remaining r)) (drop (of_pos f) (w_data (snd s) (of_inode f))))))
     (\<lambda>e s. frame {ob_file ob} {} w (snd s) \<and> fst s = ob
        \<and> (if window content offset len = None
           then \<exists>end. e = Some (RangeOutOfBounds offset end (of_nat (length content)))
           else e \<noteq> None \<and> \<not> reliable E)) (ob, w)"
proof -
  obtain f where f: "w_open w (ob_file ob) = Some f"
    and holds: "holds_object E (w_data w (of_inode f)) (ob_header ob) (ob_metadata ob) t content"
    using at by (auto simp: object_at_def)
  let ?h = "ob_header ob" and ?d = "w_data w (of_inode f)"
  have cl: "unat (content_length ?h) = length content"
    using holds by (simp add: holds_object_def)
  then have clw: "content_length ?h = of_nat (length content)" by (simp flip: cl)
  have content: "drop (unat (h_content_start ?h)) ?d = content" by (rule holds_objectD(9) [OF H holds])
  define n where "n = (case len of Some n \<Rightarrow> n | None \<Rightarrow> content_length ?h - offset)"
  show ?thesis
  proof (cases "offset > content_length ?h")
    case True
    then have "window content offset len = None"
      using range_available(1) [OF cl, of offset] by (auto simp: window_def Let_def)
    with True plain show ?thesis
      by (simp add: content_range_reader_def Let_def clw)
  next
    case False
    note av = range_available [OF cl, of offset]
    have off: "unat offset \<le> length content" using False av(1) by simp
    have un: "unat n = (case len of Some n \<Rightarrow> unat n | None \<Rightarrow> length content - unat offset)"
      using av(2) [OF False] by (simp add: n_def split: option.splits)
    have win: "window content offset len =
        (if unat n \<le> length content - unat offset then Some (take (unat n) (drop (unat offset) content)) else None)"
      using off by (auto simp: window_def Let_def un split: option.splits)
    have gt: "n > content_length ?h - offset \<longleftrightarrow> \<not> unat n \<le> length content - unat offset"
      using av(2) [OF False] by (simp add: word_less_nat_alt not_le)
    show ?thesis
    proof (cases "unat n \<le> length content - unat offset")
      case False
      with \<open>\<not> offset > content_length ?h\<close> plain win gt show ?thesis
        by (simp add: content_range_reader_def Let_def n_def [symmetric] clw [symmetric])
    next
      case True
      have small': "unat (h_content_start ?h) + unat offset \<le> max_offset" using small off by linarith
      then have no_panic: "\<not> unat (h_content_start ?h) + unat offset \<ge> 2 ^ 64" by (simp add: max_offset_def)
      have cut: "take (unat n) (drop (unat offset) content) =
          take (unat n) (drop (unat (h_content_start ?h) + unat offset) ?d)"
        by (simp add: content [symmetric] add.commute)
      have "wp (st_bind (io (sys_seek E (ob_file ob) (unat (h_content_start ?h) + unat offset)))
                 (\<lambda>_. st_lift (Ok \<lparr>cr_file = ob_file ob, remaining = n\<rparr>)))
         (\<lambda>r s. frame {ob_file ob} {} w (snd s) \<and> fst s = ob \<and> cr_file r = ob_file ob
            \<and> (\<exists>f. w_open (snd s) (ob_file ob) = Some f
                \<and> window content offset len = Some (take (unat (remaining r)) (drop (of_pos f) (w_data (snd s) (of_inode f))))))
         (\<lambda>e s. frame {ob_file ob} {} w (snd s) \<and> fst s = ob \<and> e \<noteq> None \<and> \<not> reliable E) (ob, w)"
        by (rule wp_bind_io [OF sys_seek_wp [OF f]])
           (use small' True in \<open>auto simp: win cut frameD(6) elim: frame_mono\<close>)
      then have "wp (content_range_reader E offset len)
         (\<lambda>r s. frame {ob_file ob} {} w (snd s) \<and> fst s = ob \<and> cr_file r = ob_file ob
            \<and> (\<exists>f. w_open (snd s) (ob_file ob) = Some f
                \<and> window content offset len = Some (take (unat (remaining r)) (drop (of_pos f) (w_data (snd s) (of_inode f))))))
         (\<lambda>e s. frame {ob_file ob} {} w (snd s) \<and> fst s = ob \<and> e \<noteq> None \<and> \<not> reliable E) (ob, w)"
        using \<open>\<not> offset > content_length ?h\<close> plain gt True no_panic
        by (simp add: content_range_reader_def Let_def n_def [symmetric])
      then show ?thesis
        by (rule wp_conseq) (use True win in auto)
    qed
  qed
qed

lemma with_reader_wp: "wp (with_reader r m) Q R w \<longleftrightarrow> wp m (\<lambda>a s. Q a (snd s)) (\<lambda>e s. R e (snd s)) (r, w)"
  by (auto simp: wp_def with_reader_def split: prod.splits res.splits)

lemma stored_content_wp:
  assumes H: "header_name_ok (header_names E)" and at: "object_at E ob w t content"
  shows "wp (stored_content_reader E)
     (\<lambda>r s. frame {ob_file ob} {} w (snd s) \<and> fst s = ob \<and> cr_file r = ob_file ob
        \<and> unat (remaining r) = length content
        \<and> (\<exists>f. w_open (snd s) (ob_file ob) = Some f \<and> of_pos f = unat (h_content_start (ob_header ob))
            \<and> drop (of_pos f) (w_data (snd s) (of_inode f)) = content))
     (\<lambda>e s. frame {ob_file ob} {} w (snd s) \<and> fst s = ob \<and> e \<noteq> None \<and> \<not> reliable E) (ob, w)"
proof -
  obtain f where f: "w_open w (ob_file ob) = Some f"
    and holds: "holds_object E (w_data w (of_inode f)) (ob_header ob) (ob_metadata ob) t content"
    using at by (auto simp: object_at_def)
  have "unat (content_length (ob_header ob)) = length content"
    using holds by (simp add: holds_object_def)
  moreover have "drop (unat (h_content_start (ob_header ob))) (w_data w (of_inode f)) = content"
    by (rule holds_objectD(9) [OF H holds])
  ultimately show ?thesis
    unfolding stored_content_reader_def wp_with_self fst_conv
    by (intro wp_bind_io [OF sys_seek_wp [OF f]])
       (auto simp: frameD(6) leD [OF u32_below_max] elim: frame_mono)
qed

text \<open>
  What the content decodes to: itself, or what the codec of the header makes of it.
\<close>

definition decoded_content :: "'hn env \<Rightarrow> compression_types \<Rightarrow> u8 list \<Rightarrow> (u8 list, object_file_error) res" where
  "decoded_content E ct stored =
     (case ct of
        NoCompression \<Rightarrow> Ok stored
      | ZSTD _ \<Rightarrow> (case zstd_codec E of None \<Rightarrow> Err (UnsupportedCompression ct)
           | Some cd \<Rightarrow> map_err IO (cd_decode cd stored))
      | Gzip _ \<Rightarrow> (case gzip_codec E of None \<Rightarrow> Err (UnsupportedCompression ct)
           | Some cd \<Rightarrow> map_err IO (cd_decode cd stored)))"

lemma decoded_read_wp:
  assumes f: "w_open w fd = Some f" "cr_file r = fd"
    and content: "take (unat (remaining r)) (drop (of_pos f) (w_data w (of_inode f))) = content"
  shows "wp (io (decoded_read_to_end E (Stored r)))
      (\<lambda>bs s. bs = content \<and> frame {fd} {} w (snd s) \<and> fst s = ob)
      (\<lambda>e s. frame {fd} {} w (snd s) \<and> fst s = ob \<and> \<not> reliable E) (ob, w)"
    and "wp (io (decoded_read_to_end E (Decoding cd r)))
      (\<lambda>bs s. Ok bs = map_err IO (cd_decode cd content) \<and> frame {fd} {} w (snd s) \<and> fst s = ob)
      (\<lambda>e s. frame {fd} {} w (snd s) \<and> fst s = ob
         \<and> (reliable E \<longrightarrow> (case e of None \<Rightarrow> Panic | Some e \<Rightarrow> Err e) = map_err IO (cd_decode cd content))) (ob, w)"
proof -
  note rd = content_read_to_end_wp [of w r f E, unfolded f(2) content, OF f(1)]
  show "wp (io (decoded_read_to_end E (Stored r)))
      (\<lambda>bs s. bs = content \<and> frame {fd} {} w (snd s) \<and> fst s = ob)
      (\<lambda>e s. frame {fd} {} w (snd s) \<and> fst s = ob \<and> \<not> reliable E) (ob, w)"
    unfolding wp_io decoded_read_to_end_def decoded_reader.case with_reader_wp snd_conv
    by (rule wp_conseq [OF rd]) auto
  show "wp (io (decoded_read_to_end E (Decoding cd r)))
      (\<lambda>bs s. Ok bs = map_err IO (cd_decode cd content) \<and> frame {fd} {} w (snd s) \<and> fst s = ob)
      (\<lambda>e s. frame {fd} {} w (snd s) \<and> fst s = ob
         \<and> (reliable E \<longrightarrow> (case e of None \<Rightarrow> Panic | Some e \<Rightarrow> Err e) = map_err IO (cd_decode cd content))) (ob, w)"
    unfolding wp_io decoded_read_to_end_def decoded_reader.case wp_bind with_reader_wp snd_conv
    by (rule wp_conseq [OF rd]; cases "cd_decode cd content") auto
qed

lemma read_content_wp:
  assumes H: "header_name_ok (header_names E)" and at: "object_at E ob w t content"
    and small: "length content \<le> max_offset"
  shows "wp (read_content_to_vec E)
     (\<lambda>bs s. decoded_content E (compression_type (ob_header ob)) content = Ok bs
        \<and> frame {ob_file ob} {} w (snd s) \<and> fst s = ob)
     (\<lambda>e s. frame {ob_file ob} {} w (snd s) \<and> fst s = ob
        \<and> (reliable E \<longrightarrow> decoded_content E (compression_type (ob_header ob)) content =
              (case e of None \<Rightarrow> Panic | Some e \<Rightarrow> Err e))) (ob, w)"
proof -
  let ?ct = "compression_type (ob_header ob)"
  define Q where "Q bs s \<longleftrightarrow> decoded_content E ?ct content = Ok bs
      \<and> frame {ob_file ob} {} w (snd s) \<and> fst s = ob" for bs s
  define R where "R e s \<longleftrightarrow> frame {ob_file ob} {} w (snd s) \<and> fst s = ob
        \<and> (reliable E \<longrightarrow> decoded_content E ?ct content = (case e of None \<Rightarrow> Panic | Some e \<Rightarrow> Err e))" for e s
  have "unat (content_length (ob_header ob)) = length content"
    using at by (auto simp: object_at_def holds_object_def)
  then have cap: "\<not> unat (content_length (ob_header ob)) > max_offset" using small by simp
  have "wp (st_bind (stored_content_reader E) (\<lambda>reader. st_bind
           (case ?ct of
              NoCompression \<Rightarrow> st_lift (Ok (Stored reader))
            | ZSTD _ \<Rightarrow> (case zstd_codec E of Some cd \<Rightarrow> st_lift (Ok (Decoding cd reader))
                | None \<Rightarrow> st_lift (Err (UnsupportedCompression ?ct)))
            | Gzip _ \<Rightarrow> (case gzip_codec E of Some cd \<Rightarrow> st_lift (Ok (Decoding cd reader))
                | None \<Rightarrow> st_lift (Err (UnsupportedCompression ?ct))))
           (\<lambda>reader. io (decoded_read_to_end E reader)))) Q R (ob, w)"
  proof (rule wp_bind_spec [OF stored_content_wp [OF H at]], goal_cases)
    case (1 r s)
    then obtain w1 f where s: "s = (ob, w1)" and fr: "frame {ob_file ob} {} w w1"
      and r: "cr_file r = ob_file ob" "w_open w1 (ob_file ob) = Some f"
      and c: "take (unat (remaining r)) (drop (of_pos f) (w_data w1 (of_inode f))) = content"
      by (cases s) auto
    have Q: "Q bs s'" if "decoded_content E ?ct content = Ok bs" "frame {ob_file ob} {} w1 (snd s')" "fst s' = ob" for bs s'
      using that frame_trans [OF fr] by (simp add: Q_def)
    have R: "R e s'" if "frame {ob_file ob} {} w1 (snd s')" "fst s' = ob"
      "reliable E \<longrightarrow> decoded_content E ?ct content = (case e of None \<Rightarrow> Panic | Some e \<Rightarrow> Err e)" for e s'
      using that frame_trans [OF fr] by (simp add: R_def)
    have stored: "wp (io (decoded_read_to_end E (Stored r))) Q R (ob, w1)" if "?ct = NoCompression"
      by (rule wp_conseq [OF decoded_read_wp(1) [OF r(2,1) c]])
         (auto intro!: Q R simp: that decoded_content_def)
    have decoding: "wp (io (decoded_read_to_end E (Decoding cd r))) Q R (ob, w1)"
      if "decoded_content E ?ct content = map_err IO (cd_decode cd content)" for cd
      by (rule wp_conseq [OF decoded_read_wp(2) [OF r(2,1) c]])
         (auto intro!: Q R simp: that)
    have unsupported: "R (Some (UnsupportedCompression ?ct)) (ob, w1)"
      if "decoded_content E ?ct content = Err (UnsupportedCompression ?ct)"
      using that by (auto intro!: R)
    show ?case
      unfolding s
      by (cases ?ct; cases "zstd_codec E"; cases "gzip_codec E")
         (use stored decoding unsupported in \<open>simp_all add: decoded_content_def\<close>)
  next
    case (2 e s)
    then show ?case by (auto simp: R_def)
  qed
  then have "wp (read_content_to_vec E) Q R (ob, w)"
    using cap
    unfolding read_content_to_vec_def decompressed_content_reader_def Let_def st_bind_with_self
      wp_with_self fst_conv st_bind_assoc
    by (simp only: if_False wp_with_self fst_conv)
  then show ?thesis by (rule wp_conseq) (simp_all add: Q_def R_def)
qed

section \<open>What an update in place does\<close>

lemma prefix_written:
  assumes H: "header_name_ok (header_names E)" and holds: "holds_object E d h md t content"
    and ok: "sections_ok md' t'" and fits: "layout_fits l (metadata_size E md') (tag_block_size t')"
    and l: "content_start l = h_content_start h"
    and h': "h' = h\<lparr>h_tags_start := tags_start l, h_content_start := content_start l\<rparr>"
  shows "holds_object E (splice 0 (prefix_image E h' md' t' l) d) h' md' t' content"
proof -
  have "header_layout h' = l" by (simp add: header_layout_def h')
  moreover have "splice 0 (prefix_image E h' md' t' l) d = prefix_image E h' md' t' l @ content"
    using length_prefix_image [OF H ok fits, of h'] holds_objectD(9) [OF H holds] by (simp add: splice_0 l)
  ultimately show ?thesis
    using holds ok fits by (simp add: holds_object_def h' header_ok_def)
qed

text \<open>Overwriting the front of the file: all of it, or a front of what was to be written.\<close>

lemma overwrite_wp:
  assumes f: "w_open w (ob_file ob) = Some f" "of_writable f"
  shows "wp (st_bind (io (sys_seek E (ob_file ob) 0)) (\<lambda>_.
         st_bind (io (file_write_all E (ob_file ob) prefix)) (\<lambda>_.
         st_bind (io (file_flush (ob_file ob))) (\<lambda>_. put_self ob'))))
     (\<lambda>_ s. fst s = ob' \<and> frame {ob_file ob} {of_inode f} w (snd s)
        \<and> w_data (snd s) (of_inode f) = splice 0 prefix (w_data w (of_inode f))
        \<and> w_open (snd s) (ob_file ob) = Some (f\<lparr>of_pos := length prefix\<rparr>))
     (\<lambda>e s. fst s = ob \<and> frame {ob_file ob} {of_inode f} w (snd s)
        \<and> (\<exists>n \<le> length prefix. w_data (snd s) (of_inode f) = splice 0 (take n prefix) (w_data w (of_inode f)))
        \<and> (reliable E \<longrightarrow> max_offset < length prefix)) (ob, w)"
proof (rule wp_bind_io [OF sys_seek_wp [OF f(1)]], goal_cases)
  case (1 _ w1)
  then have fr: "frame {ob_file ob} {} w w1" and o1: "w_open w1 (ob_file ob) = Some (f\<lparr>of_pos := 0\<rparr>)" by auto
  have d1: "w_data w1 (of_inode f) = w_data w (of_inode f)" using frameD(6) [OF fr] by simp
  have fr': "frame {ob_file ob} {of_inode f} w w1" by (rule frame_mono [OF fr]) auto
  show ?case
  proof (rule wp_bind_io [OF file_write_all_wp [OF o1]], goal_cases)
    case (2 _ w2)
    then show ?case
      using frame_trans [OF fr', of w2] by (auto simp: d1 file_flush_def io_def wp_bind wp_on_world wp_map_err)
  next
    case (3 e w2)
    then show ?case using frame_trans [OF fr', of w2] by (auto simp: d1)
  qed (simp add: f(2))
next
  case (2 e w1)
  then show ?case
    using frame_mono [of "{}" "{}" w w1 "{ob_file ob}" "{of_inode f}"] frameD(6) [of "{}" "{}" w w1 "of_inode f"]
    by (auto simp: max_offset_def intro!: exI [of _ 0])
qed

lemma set_sections_in_place_wp:
  assumes H: "header_name_ok (header_names E)" and f: "w_open w (ob_file ob) = Some f"
    and rw: "ob_writable ob \<longrightarrow> of_writable f"
    and holds: "holds_object E (w_data w (of_inode f)) (ob_header ob) (ob_metadata ob) t content"
  shows "wp (set_sections_in_place E md' t')
     (\<lambda>_ s. frame {ob_file ob} {of_inode f} w (snd s) \<and> ob_writable ob
        \<and> drop (unat (h_content_start (ob_header ob))) (w_data (snd s) (of_inode f)) = content
        \<and> (sections_ok md' t' \<longrightarrow> ob_metadata (fst s) = md' \<and> object_at E (fst s) (snd s) t' content))
     (\<lambda>e s. frame {ob_file ob} {of_inode f} w (snd s) \<and> fst s = ob
        \<and> drop (unat (h_content_start (ob_header ob))) (w_data (snd s) (of_inode f)) = content
        \<and> (\<not> ob_writable ob \<longrightarrow> e = Some (ReadOnly (ob_path ob)) \<and> snd s = w)
        \<and> (ob_writable ob \<and> unat (h_content_start (ob_header ob)) < HEADER_SIZE + metadata_size E md' + tag_block_size t'
             \<longrightarrow> snd s = w)
        \<and> (reliable E \<and> ob_writable ob \<and> sections_ok md' t' \<longrightarrow>
             (\<forall>l. repartition (h_content_start (ob_header ob)) (metadata_size E md') (tag_block_size t')
                DEFAULT_ALIGNMENT \<noteq> (Ok (Some l) :: (section_layout option, object_file_error) res)))) (ob, w)"
proof -
  let ?h = "ob_header ob" and ?i = "of_inode f" and ?d = "w_data w (of_inode f)"
  let ?cs = "unat (h_content_start ?h)"
  let ?rep = "repartition (h_content_start ?h) (metadata_size E md') (tag_block_size t') DEFAULT_ALIGNMENT
      :: (section_layout option, object_file_error) res"
  define R where "R e s \<longleftrightarrow> frame {ob_file ob} {?i} w (snd s) \<and> fst s = ob
        \<and> drop ?cs (w_data (snd s) ?i) = content
        \<and> (\<not> ob_writable ob \<longrightarrow> e = Some (ReadOnly (ob_path ob)) \<and> snd s = w)
        \<and> (ob_writable ob \<and> ?cs < HEADER_SIZE + metadata_size E md' + tag_block_size t' \<longrightarrow> snd s = w)
        \<and> (reliable E \<and> ob_writable ob \<and> sections_ok md' t' \<longrightarrow> (\<forall>l. ?rep \<noteq> Ok (Some l)))"
    for e :: "object_file_error option" and s :: "'a tux_object \<times> world"
  define Q where "Q s \<longleftrightarrow> frame {ob_file ob} {?i} w (snd s) \<and> ob_writable ob
        \<and> drop ?cs (w_data (snd s) ?i) = content
        \<and> (sections_ok md' t' \<longrightarrow> ob_metadata (fst s) = md' \<and> object_at E (fst s) (snd s) t' content)"
    for s :: "'a tux_object \<times> world"
  have content: "drop ?cs ?d = content" by (rule holds_objectD(9) [OF H holds])
  have R0: "R e (ob, w)" if "ob_writable ob \<Longrightarrow> reliable E \<Longrightarrow> sections_ok md' t' \<Longrightarrow> \<forall>l. ?rep \<noteq> Ok (Some l)"
    "\<not> ob_writable ob \<Longrightarrow> e = Some (ReadOnly (ob_path ob))" for e
    using that content by (simp add: R_def)
  have "wp (set_sections_in_place E md' t') (\<lambda>_. Q) R (ob, w)"
  proof (cases "ob_writable ob")
    case False
    then show ?thesis
      by (auto simp: set_sections_in_place_def ensure_writable_def intro!: R0)
  next
    case True
    show ?thesis
    proof (cases "\<exists>l. ?rep = Ok (Some l)")
      case False
      then consider "?rep = Ok None" | "?rep = Panic"
        using repartition_not_Err by (metis option.exhaust res.exhaust)
      then show ?thesis
        using True False by cases (auto simp: set_sections_in_place_def ensure_writable_def Let_def intro!: R0)
    next
      case ex: True
      then obtain l where l: "?rep = Ok (Some l)" by blast
      note rep = repartition_Some(1,2) [OF l]
      have fit: "\<not> ?cs < HEADER_SIZE + metadata_size E md' + tag_block_size t'"
        using l by (auto simp: repartition_eq Let_def split: if_splits)
      let ?h' = "?h\<lparr>h_tags_start := tags_start l, h_content_start := content_start l\<rparr>"
      let ?enc = "encode_prefix E ?h' md' t' l"
      have img: "sections_ok md' t' \<Longrightarrow> ?enc = Ok (prefix_image E ?h' md' t' l)"
        by (rule encode_prefix_image [OF H _ rep(1)])
      show ?thesis
      proof (cases ?enc)
        case (Ok prefix)
        have len: "length prefix = ?cs" using encode_prefix_length [OF Ok] rep(2) by simp
        have torn: "drop ?cs (splice 0 (take n prefix) ?d) = content" if "n \<le> length prefix" for n
          using drop_splice_0 [of n prefix ?cs ?d] that len content by simp
        have "wp (st_bind (io (sys_seek E (ob_file ob) 0)) (\<lambda>_.
               st_bind (io (file_write_all E (ob_file ob) prefix)) (\<lambda>_.
               st_bind (io (file_flush (ob_file ob))) (\<lambda>_.
               put_self (ob\<lparr>ob_header := ?h', ob_metadata := md'\<rparr>))))) (\<lambda>_. Q) R (ob, w)"
        proof (rule wp_conseq [OF overwrite_wp [OF f]], goal_cases)
          case (2 _ s)
          then have "object_at E (fst s) (snd s) t' content" if ok: "sections_ok md' t'"
            using prefix_written [OF H holds ok rep(1,2) refl] img [OF ok] Ok by (auto simp: object_at_def)
          with 2 show ?case using torn [of "length prefix"] True by (simp add: Q_def)
        next
          case (3 e s)
          then show ?case using torn True fit len l u32_below_max [of "h_content_start ?h"] by (auto simp: R_def)
        qed (use rw True in simp)
        then show ?thesis
          using True l Ok by (simp add: set_sections_in_place_def ensure_writable_def Let_def)
      next
        case (Err e)
        then show ?thesis
          using True l img by (auto simp: set_sections_in_place_def ensure_writable_def Let_def intro: R0)
      next
        case Panic
        then show ?thesis using encode_prefix_not_Panic [OF rep(1)] by blast
      qed
    qed
  qed
  then show ?thesis by (rule wp_conseq) (auto simp: Q_def R_def)
qed

end
