(* ===== verification/Writer.thy ===== *)
theory Writer
  imports ObjectFile
begin

text \<open>
  \<open>src/src/fs/writer.rs\<close>: the writer of a complete object. Content is streamed into a temporary file
  behind the space its layout reserves; \<open>finish\<close> writes the prefix in front of it and renames the
  file over the destination, after laying the object out again when the sections outgrew their
  space. A writer that goes out of scope removes its temporary file.
\<close>

section \<open>Options and state\<close>

record 'hn create_options =
  co_metadata :: "'hn tags"
  co_tags :: "u8 list tags"
  co_layout :: layout_options
  co_compression :: compression_types
  co_sync :: bool

definition create_options_new :: "'hn create_options" where
  "create_options_new = \<lparr>co_metadata = tags_new, co_tags = tags_new, co_layout = layout_default,
     co_compression = NoCompression, co_sync = False\<rparr>"

definition with_metadata :: "'hn tags \<Rightarrow> 'hn create_options \<Rightarrow> 'hn create_options" where
  "with_metadata metadata opts = opts\<lparr>co_metadata := metadata\<rparr>"

definition with_tags :: "u8 list tags \<Rightarrow> 'hn create_options \<Rightarrow> 'hn create_options" where
  "with_tags t opts = opts\<lparr>co_tags := t\<rparr>"

definition with_layout :: "layout_options \<Rightarrow> 'hn create_options \<Rightarrow> 'hn create_options" where
  "with_layout l opts = opts\<lparr>co_layout := l\<rparr>"

definition with_compression :: "compression_types \<Rightarrow> 'hn create_options \<Rightarrow> 'hn create_options" where
  "with_compression ct opts = opts\<lparr>co_compression := ct\<rparr>"

definition with_sync :: "bool \<Rightarrow> 'hn create_options \<Rightarrow> 'hn create_options" where
  "with_sync sync opts = opts\<lparr>co_sync := sync\<rparr>"

record 'hn object_writer =
  wr_file :: nat
  wr_temp_path :: "path option"
  wr_final_path :: path
  wr_layout :: section_layout
  wr_layout_options :: layout_options
  wr_compression :: compression_types
  wr_metadata :: "'hn tags"
  wr_tags :: "u8 list tags"
  wr_content_length :: u64
  wr_sync :: bool
  wr_allow_raw_writes :: bool

type_synonym ('hn, 'a, 'e) writer_method = "('hn object_writer \<times> world, 'a, 'e) st"

section \<open>Temporary files\<close>

definition next_temp_counter :: "(world, u64, 'e) st" where
  "next_temp_counter w = (Ok (w_counter w), w\<lparr>w_counter := w_counter w + 1\<rparr>)"

definition temp_candidate :: "'hn env \<Rightarrow> path \<Rightarrow> u64 \<Rightarrow> path" where
  "temp_candidate E final counter =
     butlast final @
       [''.'' @ (if final = [] then ''object'' else last final) @ ''.'' @ decimal (process_id E) @ ''.''
        @ decimal (unat counter) @ ''.tuxtmp'']"

fun temp_file_loop :: "'hn env \<Rightarrow> path \<Rightarrow> nat \<Rightarrow> (world, nat \<times> path, object_file_error) st" where
  "temp_file_loop E final 0 = st_lift (Err (IO AlreadyExists))"
| "temp_file_loop E final (Suc n) =
     st_bind next_temp_counter (\<lambda>counter.
       let candidate = temp_candidate E final counter
       in (\<lambda>w. case sys_create_new E candidate w of
             (Ok file, w') \<Rightarrow> (Ok (file, candidate), w')
           | (Err k, w') \<Rightarrow> if k = AlreadyExists then temp_file_loop E final n w' else (Err (IO k), w')
           | (Panic, w') \<Rightarrow> (Panic, w')))"

definition create_temp_file :: "'hn env \<Rightarrow> path \<Rightarrow> (world, nat \<times> path, object_file_error) st" where
  "create_temp_file E final = temp_file_loop E final 32"

section \<open>Operations\<close>

text \<open>\<open>Drop\<close>: what happens to the file when a writer goes out of scope.\<close>

definition drop_writer :: "'hn env \<Rightarrow> 'hn object_writer \<Rightarrow> world \<Rightarrow> world" where
  "drop_writer E ow w =
     (case wr_temp_path ow of Some temp \<Rightarrow> snd (sys_remove E temp w) | None \<Rightarrow> w)"

definition create_writer :: "'hn env \<Rightarrow> path \<Rightarrow> 'hn create_options \<Rightarrow> (world, 'hn object_writer, object_file_error) st" where
  "create_writer E p opts =
     st_bind (st_lift (ensure_supported E (co_compression opts))) (\<lambda>_.
     st_bind (st_lift (compute (co_layout opts) (metadata_size E (co_metadata opts))
                         (tag_block_size (co_tags opts)))) (\<lambda>l.
     st_bind (create_temp_file E p) (\<lambda>(file, temp).
       let writer = \<lparr>wr_file = file, wr_temp_path = Some temp, wr_final_path = p, wr_layout = l,
             wr_layout_options = co_layout opts, wr_compression = co_compression opts,
             wr_metadata = co_metadata opts, wr_tags = co_tags opts, wr_content_length = 0,
             wr_sync = co_sync opts, wr_allow_raw_writes = (co_compression opts = NoCompression)\<rparr>
       in (\<lambda>w. case sys_seek E file (unat (content_start l)) w of
             (Ok _, w') \<Rightarrow> (Ok writer, w')
           | (Err k, w') \<Rightarrow> (Err (IO k), drop_writer E writer w')
           | (Panic, w') \<Rightarrow> (Panic, drop_writer E writer w')))))"

definition reserved_space :: "'hn object_writer \<Rightarrow> (nat, 'e) res" where
  "reserved_space ow = usize_sub (prefix_size (wr_layout ow)) HEADER_SIZE"

definition set_metadata_mut :: "('hn tags \<Rightarrow> 'hn tags) \<Rightarrow> 'hn object_writer \<Rightarrow> 'hn object_writer" where
  "set_metadata_mut f ow = ow\<lparr>wr_metadata := f (wr_metadata ow)\<rparr>"

definition set_tags_mut :: "(u8 list tags \<Rightarrow> u8 list tags) \<Rightarrow> 'hn object_writer \<Rightarrow> 'hn object_writer" where
  "set_tags_mut f ow = ow\<lparr>wr_tags := f (wr_tags ow)\<rparr>"

definition writer_write :: "'hn env \<Rightarrow> u8 list \<Rightarrow> ('hn, nat, io_kind) writer_method" where
  "writer_write E buf = with_self (\<lambda>ow.
     if \<not> wr_allow_raw_writes ow then st_lift (Err OtherKind)
     else st_bind (on_world (sys_write E (wr_file ow) buf)) (\<lambda>written.
          if unat (wr_content_length ow) + written \<ge> 2 ^ 64 then st_lift Panic
          else st_bind (put_self (ow\<lparr>wr_content_length := wr_content_length ow + of_nat written\<rparr>)) (\<lambda>_.
               st_lift (Ok written))))"

definition writer_write_all :: "'hn env \<Rightarrow> u8 list \<Rightarrow> ('hn, unit, io_kind) writer_method" where
  "writer_write_all E = write_all (writer_write E)"

definition writer_flush :: "('hn, unit, io_kind) writer_method" where
  "writer_flush = with_self (\<lambda>ow. on_world (file_flush (wr_file ow)))"

definition build_header :: "'hn object_writer \<Rightarrow> object_header" where
  "build_header ow =
     \<lparr>version = 0, compression_type = wr_compression ow, h_tags_start = tags_start (wr_layout ow),
      h_content_start = content_start (wr_layout ow), content_length = wr_content_length ow, bit_flags = 0\<rparr>"

text \<open>The directory is flushed when \<open>sync\<close> asks for it; that it may fail is ignored.\<close>

definition sync_parent :: "'hn env \<Rightarrow> path \<Rightarrow> (world, unit, 'e) st" where
  "sync_parent E p w =
     (if p = [] then (Ok (), w)
      else (case sys_open_dir E (butlast p) w of
              (Ok _, w') \<Rightarrow> (Ok (), snd (sys_sync_all E 0 w'))
            | (_, w') \<Rightarrow> (Ok (), w')))"

definition publish :: "'hn env \<Rightarrow> ('hn, unit, object_file_error) writer_method" where
  "publish E = with_self (\<lambda>ow.
     case wr_temp_path ow of
       None \<Rightarrow> st_lift (Ok ())
     | Some temp \<Rightarrow>
         st_bind (put_self (ow\<lparr>wr_temp_path := None\<rparr>)) (\<lambda>_.
         st_bind (io (sys_rename E temp (wr_final_path ow))) (\<lambda>_.
         if wr_sync ow then on_world (sync_parent E (wr_final_path ow)) else st_lift (Ok ()))))"

definition finish_in_place :: "'hn env \<Rightarrow> section_layout \<Rightarrow> ('hn, 'hn tux_object, object_file_error) writer_method" where
  "finish_in_place E l = with_self (\<lambda>ow0.
     let ow = ow0\<lparr>wr_layout := l\<rparr>; header = build_header ow; file = wr_file ow
     in st_bind (put_self ow) (\<lambda>_.
        st_bind (st_lift (encode_prefix E header (wr_metadata ow) (wr_tags ow) l)) (\<lambda>prefix.
        st_bind (io (file_flush file)) (\<lambda>_.
        st_bind (io (sys_seek E file 0)) (\<lambda>_.
        st_bind (io (file_write_all E file prefix)) (\<lambda>_.
        st_bind (io (file_flush file)) (\<lambda>_.
        st_bind (if wr_sync ow then io (sys_sync_all E file) else st_lift (Ok ())) (\<lambda>_.
        st_bind (publish E) (\<lambda>_.
        st_bind (io (sys_try_clone E file)) (\<lambda>clone.
        st_lift (Ok (from_parts clone (wr_final_path ow) header (wr_metadata ow) True))))))))))))"

text \<open>A method that consumes the writer: it is dropped on the way out, whatever the outcome.\<close>

definition consume :: "'hn env \<Rightarrow> ('hn, 'a, 'e) writer_method \<Rightarrow> 'hn object_writer \<Rightarrow> (world, 'a, 'e) st" where
  "consume E m ow w = (case m (ow, w) of (r, (ow', w')) \<Rightarrow> (r, drop_writer E ow' w'))"

text \<open>\<open>std::io::copy\<close> from a content reader to a writer, through a buffer of 8192 bytes.\<close>

function copy_content :: "'hn env \<Rightarrow> nat \<Rightarrow> (content_reader \<times> 'hn object_writer \<times> world, nat, io_kind) st" where
  "copy_content E copied (r, ow, w) =
     (case content_read E 8192 (r, w) of
        (Ok bs, (r', w')) \<Rightarrow>
          if bs = [] then (Ok copied, (r', ow, w'))
          else (case writer_write_all E bs (ow, w') of
                  (Ok _, (ow', w'')) \<Rightarrow> copy_content E (copied + length bs) (r', ow', w'')
                | (Err e, (ow', w'')) \<Rightarrow> (Err e, (r', ow', w''))
                | (Panic, (ow', w'')) \<Rightarrow> (Panic, (r', ow', w'')))
      | (Err e, (r', w')) \<Rightarrow> (Err e, (r', ow, w'))
      | (Panic, (r', w')) \<Rightarrow> (Panic, (r', ow, w')))"
  by pat_completeness auto
termination
  by (relation "measure (\<lambda>(E, copied, r, ow, w). unat (remaining r))")
     (auto dest: content_read_decreases [OF sym])

declare copy_content.simps [simp del]

definition DEFAULT_REWRITE_RESERVE :: nat where
  "DEFAULT_REWRITE_RESERVE = 256"

definition rewrite_options :: "'hn object_writer \<Rightarrow> 'hn create_options" where
  "rewrite_options ow =
     \<lparr>co_metadata = wr_metadata ow, co_tags = wr_tags ow,
      co_layout = (wr_layout_options ow)\<lparr>
        metadata_reserve := max (metadata_reserve (wr_layout_options ow)) DEFAULT_REWRITE_RESERVE,
        tag_reserve := max (tag_reserve (wr_layout_options ow)) DEFAULT_REWRITE_RESERVE\<rparr>,
      co_compression = wr_compression ow, co_sync = wr_sync ow\<rparr>"

definition finish_layout :: "'hn env \<Rightarrow> 'hn object_writer \<Rightarrow> (section_layout option, object_file_error) res" where
  "finish_layout E ow =
     repartition (content_start (wr_layout ow)) (metadata_size E (wr_metadata ow))
       (tag_block_size (wr_tags ow)) (alignment (wr_layout_options ow))"

text \<open>
  The first half of the rewriting path: a replacement with a fresh layout, and the content copied
  over. An error drops the replacement; the caller drops the writer itself.
\<close>

definition start_rewrite :: "'hn env \<Rightarrow> 'hn object_writer \<Rightarrow> (world, 'hn object_writer, object_file_error) st" where
  "start_rewrite E ow =
     st_bind (create_writer E (wr_final_path ow) (rewrite_options ow)) (\<lambda>replacement w.
       case sys_seek E (wr_file ow) (unat (content_start (wr_layout ow))) w of
         (Err k, w') \<Rightarrow> (Err (IO k), drop_writer E replacement w')
       | (Panic, w') \<Rightarrow> (Panic, drop_writer E replacement w')
       | (Ok _, w') \<Rightarrow>
           (case copy_content E 0 (\<lparr>cr_file = wr_file ow, remaining = wr_content_length ow\<rparr>, replacement, w') of
              (Ok _, (_, replacement', w'')) \<Rightarrow> (Ok replacement', w'')
            | (Err k, (_, replacement', w'')) \<Rightarrow> (Err (IO k), drop_writer E replacement' w'')
            | (Panic, (_, replacement', w'')) \<Rightarrow> (Panic, drop_writer E replacement' w'')))"

section \<open>Finishing rewrites at most once\<close>

text \<open>Copying content leaves everything but the recorded length of the writer alone.\<close>

definition same_writer :: "'hn object_writer \<Rightarrow> 'hn object_writer \<Rightarrow> bool" where
  "same_writer ow ow' \<longleftrightarrow> (\<exists>n. ow' = ow\<lparr>wr_content_length := n\<rparr>)"

lemma same_writer_refl [simp]: "same_writer ow ow"
  unfolding same_writer_def by (rule exI [of _ "wr_content_length ow"]) simp

lemma same_writer_trans: "same_writer a b \<Longrightarrow> same_writer b c \<Longrightarrow> same_writer a c"
  by (auto simp: same_writer_def)

lemma same_writerD:
  assumes "same_writer ow ow'"
  shows "wr_file ow' = wr_file ow" "wr_temp_path ow' = wr_temp_path ow" "wr_final_path ow' = wr_final_path ow"
    "wr_layout ow' = wr_layout ow" "wr_layout_options ow' = wr_layout_options ow"
    "wr_compression ow' = wr_compression ow" "wr_metadata ow' = wr_metadata ow" "wr_tags ow' = wr_tags ow"
    "wr_sync ow' = wr_sync ow" "wr_allow_raw_writes ow' = wr_allow_raw_writes ow"
  using assms by (auto simp: same_writer_def)

lemma writer_write_same: "writer_write E bs (ow, w) = (r, (ow', w')) \<Longrightarrow> same_writer ow ow'"
  by (auto simp: writer_write_def with_self_def st_lift_def st_bind_def on_world_def put_self_def
      same_writer_def split: if_splits prod.splits res.splits intro: exI [of _ "wr_content_length ow"])

lemma writer_write_all_same: "writer_write_all E bs (ow, w) = (r, (ow', w')) \<Longrightarrow> same_writer ow ow'"
proof (induction "length bs" arbitrary: bs ow w r rule: less_induct)
  case less
  obtain a ow1 w1 where one: "writer_write E bs (ow, w) = (a, (ow1, w1))" by (metis surj_pair)
  note same = writer_write_same [OF one]
  show ?case
  proof (cases "bs = [] \<or> (\<forall>n. a = Ok n \<longrightarrow> n = 0 \<or> n > length bs)")
    case True
    with less.prems one same show ?thesis
      by (cases a) (auto simp: writer_write_all_def write_all.simps [of _ bs] split: if_splits)
  next
    case False
    then obtain n where n: "a = Ok n" "0 < n" "n \<le> length bs" "bs \<noteq> []" by auto
    then have "writer_write_all E (drop n bs) (ow1, w1) = (r, (ow', w'))"
      using less.prems one by (simp add: writer_write_all_def write_all.simps [of _ bs])
    then have "same_writer ow1 ow'"
      by (rule less.hyps [rotated]) (use n in auto)
    with same show ?thesis by (rule same_writer_trans)
  qed
qed

lemma copy_content_same: "copy_content E copied (r, ow, w) = (res, (r', ow', w')) \<Longrightarrow> same_writer ow ow'"
proof (induction E copied "(r, ow, w)" arbitrary: r ow w res rule: copy_content.induct)
  case (1 E copied r ow w)
  obtain a r1 w1 where rd: "content_read E 8192 (r, w) = (a, (r1, w1))" by (metis surj_pair)
  show ?case
  proof (cases "\<exists>bs. a = Ok bs \<and> bs \<noteq> []")
    case False
    with 1(2) rd show ?thesis
      by (cases a) (auto simp: copy_content.simps [of E copied r ow w])
  next
    case True
    then obtain bs where a: "a = Ok bs" and bs: "bs \<noteq> []" by blast
    obtain b ow1 w2 where wr: "writer_write_all E bs (ow, w1) = (b, (ow1, w2))" by (metis surj_pair)
    note same = writer_write_all_same [OF wr]
    show ?thesis
    proof (cases b)
      case (Ok u)
      then have "copy_content E (copied + length bs) (r1, ow1, w2) = (res, (r', ow', w'))"
        using 1(2) rd a bs wr by (simp add: copy_content.simps [of E copied r ow w])
      then have "same_writer ow1 ow'"
        by (rule 1(1) [OF rd [symmetric] a refl bs wr [symmetric] Ok refl])
      with same show ?thesis by (rule same_writer_trans)
    qed (use 1(2) rd a bs wr same in \<open>auto simp: copy_content.simps [of E copied r ow w]\<close>)
  qed
qed

lemma create_temp_file_Panic: "(sys_create_new E p w = (Panic, w')) = False"
  by (auto simp: sys_create_new_def syscall_def split: option.splits prod.splits)

lemma create_writer_fields:
  assumes "create_writer E p opts w = (Ok ow, w')"
  shows "compute (co_layout opts) (metadata_size E (co_metadata opts)) (tag_block_size (co_tags opts)) = Ok (wr_layout ow)"
    and "wr_layout_options ow = co_layout opts" "wr_metadata ow = co_metadata opts" "wr_tags ow = co_tags opts"
  using assms
  by (cases "compute (co_layout opts) (metadata_size E (co_metadata opts)) (tag_block_size (co_tags opts))";
      auto simp: create_writer_def st_bind_def st_lift_def Let_def split: prod.splits res.splits)+

lemma start_rewrite_same:
  assumes "start_rewrite E ow w = (Ok rep, w')"
  shows "\<exists>rep0 w0. create_writer E (wr_final_path ow) (rewrite_options ow) w = (Ok rep0, w0) \<and> same_writer rep0 rep"
  using assms
  by (auto simp: start_rewrite_def st_bind_def dest: copy_content_same split: prod.splits res.splits)

lemma start_rewrite_fits:
  assumes "start_rewrite E ow w = (Ok rep, w')"
  shows "\<exists>l. finish_layout E rep = Ok (Some l)"
proof -
  obtain rep0 w0 where c: "create_writer E (wr_final_path ow) (rewrite_options ow) w = (Ok rep0, w0)"
    and s: "same_writer rep0 rep"
    using start_rewrite_same [OF assms] by blast
  show ?thesis
    using repartition_fits_again [OF create_writer_fields(1) [OF c]] create_writer_fields(2-4) [OF c]
      same_writerD [OF s]
    by (auto simp: finish_layout_def)
qed

definition empty_sections :: "'hn object_writer \<Rightarrow> 'hn object_writer" where
  "empty_sections ow = ow\<lparr>wr_metadata := tags_new, wr_tags := tags_new\<rparr>"

function finish :: "'hn env \<Rightarrow> 'hn object_writer \<Rightarrow> (world, 'hn tux_object, object_file_error) st" where
  "finish E ow w =
     (case finish_layout E ow of
        Ok (Some l) \<Rightarrow> consume E (finish_in_place E l) ow w
      | Ok None \<Rightarrow>
          (case start_rewrite E ow w of
             (Ok replacement, w') \<Rightarrow>
               (case finish E replacement w' of (r, w'') \<Rightarrow> (r, drop_writer E (empty_sections ow) w''))
           | (Err e, w') \<Rightarrow> (Err e, drop_writer E (empty_sections ow) w')
           | (Panic, w') \<Rightarrow> (Panic, drop_writer E (empty_sections ow) w'))
      | Err e \<Rightarrow> (Err e, drop_writer E ow w)
      | Panic \<Rightarrow> (Panic, drop_writer E ow w))"
  by pat_completeness auto
termination
  by (relation "measure (\<lambda>(E, ow, w). if \<exists>l. finish_layout E ow = Ok (Some l) then 0 else 1)")
     (auto dest: start_rewrite_fits [OF sym])

declare finish.simps [simp del]

definition abort :: "'hn env \<Rightarrow> 'hn object_writer \<Rightarrow> (world, unit, object_file_error) st" where
  "abort E = consume E (with_self (\<lambda>ow.
     case wr_temp_path ow of
       None \<Rightarrow> st_lift (Ok ())
     | Some temp \<Rightarrow>
         st_bind (put_self (ow\<lparr>wr_temp_path := None\<rparr>)) (\<lambda>_.
         on_world (\<lambda>w. case sys_remove E temp w of
             (Ok _, w') \<Rightarrow> (Ok (), w')
           | (Err k, w') \<Rightarrow> if k = NotFound then (Ok (), w') else (Err (IO k), w')
           | (Panic, w') \<Rightarrow> (Panic, w')))))"

end
