(* ===== verification/Publishing.thy ===== *)
theory Publishing
  imports Writer
begin

text \<open>
  What the writer of \<open>src/src/fs/writer.rs\<close> guarantees: while it streams, only its temporary file
  changes; finishing shows the destination either as it was or as the complete new object, whatever
  fails in between; and the temporary file is gone afterwards.
\<close>

section \<open>Calm and quiet\<close>

text \<open>Nothing but the clock, the trace and the counter of temporary names moved.\<close>

definition calm :: "world \<Rightarrow> world \<Rightarrow> bool" where
  "calm w w' \<longleftrightarrow> w_names w' = w_names w \<and> w_dirs w' = w_dirs w \<and> w_data w' = w_data w \<and>
     w_next w' = w_next w \<and> w_open w' = w_open w \<and> w_next_fd w' = w_next_fd w \<and>
     shown (\<lambda>v. v = view_of w) w w'"

lemma calm_refl [simp]: "calm w w"
  by (simp add: calm_def)

lemma calm_view: "calm w w' \<Longrightarrow> view_of w' = view_of w"
  by (auto simp: calm_def view_of_def fun_eq_iff split: option.splits)

lemma calm_trans: "calm a b \<Longrightarrow> calm b c \<Longrightarrow> calm a c"
  using calm_view [of a b] by (auto simp: calm_def elim: shown_trans)

lemma calm_tick: "calm w w' \<Longrightarrow> calm w (tick w')"
  using calm_view [of w w'] by (auto simp: calm_def intro: shown_tick)

lemma calm_counter [simp]: "calm w (w\<lparr>w_counter := c\<rparr>)"
  by (simp add: calm_def shown_def)

text \<open>The paths in \<open>N\<close> never showed anything else.\<close>

definition quiet :: "path set \<Rightarrow> world \<Rightarrow> world \<Rightarrow> bool" where
  "quiet N w w' \<longleftrightarrow> shown (\<lambda>v. \<forall>q \<in> N. v q = view_of w q) w w' \<and> (\<forall>q \<in> N. view_of w' q = view_of w q)"

lemma quiet_refl [simp]: "quiet N w w"
  by (simp add: quiet_def)

lemma quiet_trans:
  assumes "quiet N a b" and "quiet N b c"
  shows "quiet N a c"
proof -
  have "shown (\<lambda>v. \<forall>q \<in> N. v q = view_of a q) b c"
    using assms by (auto simp: quiet_def elim!: shown_mono)
  with assms show ?thesis by (auto simp: quiet_def elim: shown_trans)
qed

lemma quiet_mono: "quiet N w w' \<Longrightarrow> M \<subseteq> N \<Longrightarrow> quiet M w w'"
  by (auto simp: quiet_def elim!: shown_mono)

lemma calm_quiet: "calm w w' \<Longrightarrow> quiet N w w'"
  using calm_view [of w w'] by (auto simp: quiet_def calm_def elim!: shown_mono)

lemma frame_quiet:
  assumes "frame F I w w'" and "\<And>q i. q \<in> N \<Longrightarrow> i \<in> I \<Longrightarrow> w_names w q \<noteq> Some i"
  shows "quiet N w w'"
  unfolding quiet_def
proof
  show "shown (\<lambda>v. \<forall>q \<in> N. v q = view_of w q) w w'"
    by (rule shown_mono [OF frame_shown [OF assms(1)]]) (use assms(2) in blast)
  show "\<forall>q \<in> N. view_of w' q = view_of w q"
    using frame_view [OF assms(1)] assms(2) by blast
qed

lemma quiet_tick: "quiet N w w' \<Longrightarrow> quiet N w (tick w')"
  by (auto simp: quiet_def intro!: shown_tick)

text \<open>Every view of \<open>p\<close> is the old one or a file that satisfies \<open>P\<close>.\<close>

definition atomic_update :: "path \<Rightarrow> (u8 list \<Rightarrow> bool) \<Rightarrow> world \<Rightarrow> world \<Rightarrow> bool" where
  "atomic_update p P w w' \<longleftrightarrow>
     shown (\<lambda>v. v p = view_of w p \<or> (\<exists>d. v p = Some d \<and> P d)) w w' \<and>
     (view_of w' p = view_of w p \<or> (\<exists>d. view_of w' p = Some d \<and> P d))"

lemma quiet_atomic: "quiet {p} w w' \<Longrightarrow> atomic_update p P w w'"
  by (auto simp: quiet_def atomic_update_def elim!: shown_mono)

lemma atomic_trans:
  assumes "atomic_update p P a b" and "atomic_update p P b c"
  shows "atomic_update p P a c"
proof -
  have "shown (\<lambda>v. v p = view_of a p \<or> (\<exists>d. v p = Some d \<and> P d)) b c"
    using assms by (auto simp: atomic_update_def elim!: shown_mono)
  with assms show ?thesis
    unfolding atomic_update_def by (auto elim: shown_trans)
qed

section \<open>Creating\<close>

text \<open>The names that only temporary files have.\<close>

definition temporary :: "path \<Rightarrow> bool" where
  "temporary p \<longleftrightarrow> p \<noteq> [] \<and> drop (length (last p) - 7) (last p) = ''.tuxtmp''"

lemma temp_candidate_temporary: "temporary (temp_candidate E p n)"
  by (simp add: temporary_def temp_candidate_def)

lemma temp_candidate_facts:
  "temp_candidate E p c \<noteq> p" "butlast (temp_candidate E p c) = butlast p"
proof -
  show "temp_candidate E p c \<noteq> p"
  proof
    assume eq: "temp_candidate E p c = p"
    then have ne: "p \<noteq> []" by (auto simp: temp_candidate_def)
    then have "length (last (temp_candidate E p c)) > length (last p)"
      by (simp add: temp_candidate_def)
    with eq show False by simp
  qed
qed (simp add: temp_candidate_def)

text \<open>The world right after the temporary file was created.\<close>

definition with_new_file :: "path \<Rightarrow> world \<Rightarrow> world" where
  "with_new_file tp w =
     w\<lparr>w_names := (w_names w)(tp \<mapsto> w_next w), w_data := (w_data w)(w_next w := []), w_next := w_next w + 1,
       w_open := (w_open w)(w_next_fd w \<mapsto> \<lparr>of_inode = w_next w, of_pos = 0, of_writable = True\<rparr>),
       w_next_fd := w_next_fd w + 1\<rparr>"

text \<open>The first name the loop would try is free.\<close>

definition name_free :: "'hn env \<Rightarrow> path \<Rightarrow> world \<Rightarrow> bool" where
  "name_free E p w \<longleftrightarrow> (let tp = temp_candidate E p (w_counter w) in w_names w tp = None \<and> tp \<notin> set (w_dirs w))"

lemma temp_file_loop_wp:
  "wp (temp_file_loop E p n)
     (\<lambda>(file, tp) w'. \<exists>w1. calm w w1 \<and> file = w_next_fd w \<and> tp \<noteq> p \<and> butlast tp = butlast p
        \<and> butlast p \<in> set (w_dirs w) \<and> w_names w tp = None \<and> temporary tp \<and> w' = tick (with_new_file tp w1))
     (\<lambda>e w'. calm w w' \<and> e \<noteq> None
        \<and> (reliable E \<and> butlast p \<in> set (w_dirs w) \<longrightarrow> e = Some (IO AlreadyExists) \<and> (0 < n \<longrightarrow> \<not> name_free E p w))
        \<and> (reliable E \<and> butlast p \<notin> set (w_dirs w) \<longrightarrow> e = Some (IO NotFound) \<or> e = Some (IO AlreadyExists))) w"
proof (induction n arbitrary: w)
  case 0
  then show ?case by simp
next
  case (Suc n)
  let ?w1 = "w\<lparr>w_counter := w_counter w + 1\<rparr>" and ?tp = "temp_candidate E p (w_counter w)"
  obtain r w2 where run: "sys_create_new E ?tp ?w1 = (r, w2)" by (metis surj_pair)
  note spec = wp_run [OF sys_create_new_wp run]
  show ?case
  proof (cases r)
    case (Ok fd)
    with spec have "w_names w ?tp = None" "fd = w_next_fd w" "w2 = tick (with_new_file ?tp ?w1)"
      by (simp_all add: with_new_file_def)
    moreover have "butlast p \<in> set (w_dirs w)"
      using run Ok temp_candidate_facts(2) [of E p "w_counter w"]
      by (auto simp: sys_create_new_def syscall_def split: option.splits prod.splits if_splits)
    ultimately show ?thesis
      using run Ok temp_candidate_facts [of E p "w_counter w"] temp_candidate_temporary [of E p "w_counter w"]
      by (auto simp: wp_def st_bind_def next_temp_counter_def Let_def intro!: exI [of _ ?w1])
  next
    case (Err k)
    with spec have w2: "w2 = tick ?w1" and k: "reliable E \<longrightarrow> (if k = AlreadyExists then
        w_names w ?tp \<noteq> None \<or> ?tp \<in> set (w_dirs w) else butlast p \<notin> set (w_dirs w))"
      using temp_candidate_facts(2) [of E p "w_counter w"] by auto
    have kind: "\<not> reliable E \<or> k = AlreadyExists \<or> k = NotFound"
      using run Err by (auto simp: sys_create_new_def syscall_def reliable_def split: option.splits prod.splits if_splits)
    have c: "calm w w2" by (simp add: w2 calm_tick)
    have f: "w_dirs w2 = w_dirs w" "w_names w2 = w_names w" "w_next_fd w2 = w_next_fd w" by (simp_all add: w2)
    show ?thesis
    proof (cases "k = AlreadyExists")
      case True
      then have again: "wp (temp_file_loop E p (Suc n)) Q R w \<longleftrightarrow> wp (temp_file_loop E p n) Q R w2" for Q R
        using run Err by (simp add: wp_def st_bind_def next_temp_counter_def Let_def)
      have taken: "reliable E \<longrightarrow> \<not> name_free E p w"
        using k True by (auto simp: name_free_def Let_def)
      show ?thesis
        unfolding again
        by (rule wp_conseq [OF Suc [of w2]]) (use taken in \<open>force simp: f dest: calm_trans [OF c]\<close>)+
    next
      case False
      then show ?thesis
        using run Err c k kind by (auto simp: wp_def st_bind_def next_temp_counter_def Let_def)
    qed
  next
    case Panic
    with run show ?thesis by (simp add: create_temp_file_Panic)
  qed
qed

text \<open>
  A writer in progress: its temporary file is the only name of its file, which holds the content
  behind the space reserved for the prefix, with the handle at its end.
\<close>

definition stored_content :: "nat \<Rightarrow> u8 list \<Rightarrow> u8 list \<Rightarrow> bool" where
  "stored_content cs content d \<longleftrightarrow> content = [] \<and> d = [] \<or> d = replicate cs 0 @ content"

definition writer_at :: "'hn object_writer \<Rightarrow> world \<Rightarrow> path \<Rightarrow> nat \<Rightarrow> u8 list \<Rightarrow> bool" where
  "writer_at ow w tp i content \<longleftrightarrow>
     wr_temp_path ow = Some tp \<and> tp \<noteq> wr_final_path ow \<and> butlast (wr_final_path ow) \<in> set (w_dirs w) \<and>
     w_names w tp = Some i \<and> (\<forall>q. w_names w q = Some i \<longrightarrow> q = tp) \<and>
     w_open w (wr_file ow) = Some \<lparr>of_inode = i,
        of_pos = unat (content_start (wr_layout ow)) + length content, of_writable = True\<rparr> \<and>
     stored_content (unat (content_start (wr_layout ow))) content (w_data w i) \<and>
     unat (wr_content_length ow) = length content"

lemma stored_content_splice:
  "stored_content cs content d \<Longrightarrow> stored_content cs (content @ bs) (splice (cs + length content) bs d)"
  by (auto simp: stored_content_def splice_def)

lemma stored_content_prefix: "stored_content cs content d \<Longrightarrow> length bs = cs \<Longrightarrow> splice 0 bs d = bs @ content"
  by (auto simp: stored_content_def splice_0)

lemma stored_content_drop: "stored_content cs content d \<Longrightarrow> drop cs d = content"
  by (auto simp: stored_content_def)

lemma writer_at_frame:
  assumes "frame F I w w'" and "wr_file ow \<notin> F" and "i \<notin> I" and "writer_at ow w tp i content"
  shows "writer_at ow w' tp i content"
  using assms(4) frameD(1,2) [OF assms(1)] frameD(6,7) [OF assms(1)] assms(2,3)
  by (simp add: writer_at_def)

text \<open>
  What a creation leaves behind, and what it left alone: every name there was, every name no temporary
  file can have, and the destination.
\<close>

definition fresh_writer :: "'hn env \<Rightarrow> path \<Rightarrow> 'hn create_options \<Rightarrow> section_layout \<Rightarrow> path \<Rightarrow> nat \<Rightarrow> 'hn object_writer" where
  "fresh_writer E p opts l tp fd =
     \<lparr>wr_file = fd, wr_temp_path = Some tp, wr_final_path = p, wr_layout = l,
      wr_layout_options = co_layout opts, wr_compression = co_compression opts,
      wr_metadata = co_metadata opts, wr_tags = co_tags opts, wr_content_length = 0,
      wr_sync = co_sync opts, wr_allow_raw_writes = (co_compression opts = NoCompression)\<rparr>"

definition old_names :: "world \<Rightarrow> path \<Rightarrow> path set" where
  "old_names w p = {q. w_names w q \<noteq> None \<or> \<not> temporary q} \<union> {p}"


lemma view_of_with_new_file:
  "world_ok w \<Longrightarrow> q \<noteq> tp \<Longrightarrow> view_of (with_new_file tp w) q = view_of w q"
  by (auto simp: view_of_def with_new_file_def world_ok_def split: option.splits)

lemma with_new_file_fields:
  "w_names (with_new_file tp w) = (w_names w)(tp \<mapsto> w_next w)" "w_dirs (with_new_file tp w) = w_dirs w"
  "w_data (with_new_file tp w) = (w_data w)(w_next w := [])" "w_next (with_new_file tp w) = w_next w + 1"
  "w_open (with_new_file tp w) = (w_open w)(w_next_fd w \<mapsto> \<lparr>of_inode = w_next w, of_pos = 0, of_writable = True\<rparr>)"
  "w_next_fd (with_new_file tp w) = w_next_fd w + 1" "w_trace (with_new_file tp w) = w_trace w"
  by (simp_all add: with_new_file_def)

lemma world_ok_with_new_file: "world_ok w \<Longrightarrow> world_ok (with_new_file tp w)"
  by (auto simp: world_ok_def with_new_file_fields less_Suc_eq)

lemma world_ok_calm: "calm w w' \<Longrightarrow> world_ok w' \<longleftrightarrow> world_ok w"
  by (simp add: world_ok_def calm_def)

lemma quiet_new_file:
  assumes "calm w w1" and "world_ok w" and "tp \<notin> N"
  shows "quiet N w (tick (with_new_file tp w1))"
proof -
  have ok: "world_ok w1" using world_ok_calm [OF assms(1)] assms(2) by simp
  have v: "view_of (with_new_file tp w1) q = view_of w q" if "q \<in> N" for q
    using view_of_with_new_file [OF ok, of q tp] that assms(3) calm_view [OF assms(1)] by auto
  have "shown (\<lambda>v. v = view_of w) w (with_new_file tp w1)"
    using assms(1) by (auto simp: calm_def with_new_file_fields intro: shown_trace)
  then have "shown (\<lambda>v. \<forall>q \<in> N. v q = view_of w q) w (with_new_file tp w1)"
    by (rule shown_mono) simp
  with v have "quiet N w (with_new_file tp w1)" by (simp add: quiet_def)
  then show ?thesis by (rule quiet_tick)
qed

text \<open>Dropping a writer: at most its temporary name disappears.\<close>

lemma drop_writer_cases:
  "drop_writer E ow w = w \<or> drop_writer E ow w = tick w \<or>
     (\<exists>tp. wr_temp_path ow = Some tp \<and> drop_writer E ow w = tick (w\<lparr>w_names := (w_names w)(tp := None)\<rparr>))"
proof (cases "wr_temp_path ow")
  case None
  then show ?thesis by (simp add: drop_writer_def)
next
  case (Some tp)
  obtain r w' where run: "sys_remove E tp w = (r, w')" by (metis surj_pair)
  show ?thesis
    using wp_run [OF sys_remove_wp run] run Some by (cases r) (auto simp: drop_writer_def)
qed

lemma drop_writer_quiet:
  assumes "\<And>tp. wr_temp_path ow = Some tp \<Longrightarrow> tp \<notin> N"
  shows "quiet N w (drop_writer E ow w)"
proof -
  have "quiet N w (w\<lparr>w_names := (w_names w)(tp := None)\<rparr>)" if "wr_temp_path ow = Some tp" for tp
    using assms [OF that] by (auto simp: quiet_def view_of_def shown_def split: option.splits)
  then show ?thesis
    using drop_writer_cases [of E ow w] by (auto intro: quiet_tick quiet_tick [OF quiet_refl])
qed

lemma drop_writer_fields:
  "w_dirs (drop_writer E ow w) = w_dirs w" "w_data (drop_writer E ow w) = w_data w"
  "w_open (drop_writer E ow w) = w_open w" "w_next (drop_writer E ow w) = w_next w"
  "w_next_fd (drop_writer E ow w) = w_next_fd w"
  "wr_temp_path ow \<noteq> Some q \<Longrightarrow> w_names (drop_writer E ow w) q = w_names w q"
  "w_names (drop_writer E ow w) q = w_names w q \<or> w_names (drop_writer E ow w) q = None"
  using drop_writer_cases [of E ow w] by (auto split: if_splits)

lemma drop_writer_removes:
  assumes "reliable E" and "wr_temp_path ow = Some tp"
  shows "w_names (drop_writer E ow w) tp = None"
proof -
  obtain r w' where run: "sys_remove E tp w = (r, w')" by (metis surj_pair)
  show ?thesis
    using wp_run [OF sys_remove_wp run] run assms by (cases r) (auto simp: drop_writer_def)
qed

lemma world_ok_drop: "world_ok w \<Longrightarrow> world_ok (drop_writer E ow w)"
  unfolding world_ok_def drop_writer_fields using drop_writer_fields(7) by (metis option.distinct(1))

text \<open>A name that names a file it did not name before names one of these.\<close>

definition names_within :: "nat set \<Rightarrow> world \<Rightarrow> world \<Rightarrow> bool" where
  "names_within J w w' \<longleftrightarrow> (\<forall>q j. w_names w' q = Some j \<longrightarrow> w_names w q = Some j \<or> j \<in> J)"

lemma names_withinI:
  "(\<And>q j. w_names w' q = Some j \<Longrightarrow> w_names w q \<noteq> Some j \<Longrightarrow> j \<in> J) \<Longrightarrow> names_within J w w'"
  unfolding names_within_def by blast

lemma names_withinD: "names_within J w w' \<Longrightarrow> w_names w' q = Some j \<Longrightarrow> w_names w q = Some j \<or> j \<in> J"
  unfolding names_within_def by blast

lemma names_within_same: "w_names w' = w_names w \<Longrightarrow> names_within J w w'"
  by (simp add: names_within_def)

lemma names_within_trans: "names_within J a b \<Longrightarrow> names_within J b c \<Longrightarrow> names_within J a c"
  unfolding names_within_def by blast

lemma names_within_mono: "names_within J w w' \<Longrightarrow> J \<subseteq> J' \<Longrightarrow> names_within J' w w'"
  unfolding names_within_def by blast

lemma names_within_drop: "names_within J w (drop_writer E ow w)"
  unfolding names_within_def using drop_writer_fields(7) by (metis option.distinct(1))

text \<open>The two outcomes of creating a writer.\<close>

definition created ::
  "'hn env \<Rightarrow> path \<Rightarrow> 'hn create_options \<Rightarrow> world \<Rightarrow> 'hn object_writer \<Rightarrow> world \<Rightarrow> path \<Rightarrow> bool" where
  "created E p opts w ow w' tp \<longleftrightarrow>
     (\<exists>l. compute (co_layout opts) (metadata_size E (co_metadata opts)) (tag_block_size (co_tags opts)) = Ok l
        \<and> ow = fresh_writer E p opts l tp (w_next_fd w)) \<and>
     is_supported E (co_compression opts) \<and> w_names w tp = None \<and> tp \<noteq> p \<and> temporary tp \<and>
     writer_at ow w' tp (w_next w) [] \<and> quiet (- {tp}) w w' \<and> world_ok w' \<and>
     w_dirs w' = w_dirs w \<and> w_names w' = (w_names w)(tp \<mapsto> w_next w) \<and>
     (\<forall>i. i \<noteq> w_next w \<longrightarrow> w_data w' i = w_data w i) \<and>
     (\<forall>fd. fd \<noteq> w_next_fd w \<longrightarrow> w_open w' fd = w_open w fd)"

definition not_created :: "'hn env \<Rightarrow> path \<Rightarrow> world \<Rightarrow> world \<Rightarrow> bool" where
  "not_created E p w w' \<longleftrightarrow>
     quiet (old_names w p) w w' \<and> world_ok w' \<and> w_dirs w' = w_dirs w \<and>
     (\<forall>i. i \<noteq> w_next w \<longrightarrow> w_data w' i = w_data w i) \<and>
     (\<forall>fd. fd \<noteq> w_next_fd w \<longrightarrow> w_open w' fd = w_open w fd) \<and>
     (\<forall>q \<in> old_names w p. w_names w' q = w_names w q) \<and>
     names_within {w_next w} w w' \<and>
     (reliable E \<longrightarrow> w_names w' = w_names w) \<and>
     (butlast p \<notin> set (w_dirs w) \<longrightarrow> calm w w')"

lemma calm_not_created: "calm w w' \<Longrightarrow> world_ok w \<Longrightarrow> not_created E p w w'"
  using world_ok_calm [of w w'] by (simp add: not_created_def calm_quiet) (simp add: calm_def names_within_same)

lemma created_after_seek:
  assumes ok: "world_ok w" and c: "calm w w1" and tp: "w_names w tp = None" "tp \<noteq> p" "butlast p \<in> set (w_dirs w)" "temporary tp"
    and l: "compute (co_layout opts) (metadata_size E (co_metadata opts)) (tag_block_size (co_tags opts)) = Ok l"
    and sup: "is_supported E (co_compression opts)"
    and fr: "frame {w_next_fd w} {} (tick (with_new_file tp w1)) w2"
    and o2: "w_open w2 (w_next_fd w) = Some \<lparr>of_inode = w_next w, of_pos = unat (content_start l), of_writable = True\<rparr>"
  shows "created E p opts w (fresh_writer E p opts l tp (w_next_fd w)) w2 tp"
proof -
  have c': "w_names w1 = w_names w" "w_dirs w1 = w_dirs w" "w_data w1 = w_data w" "w_next w1 = w_next w"
    "w_open w1 = w_open w" "w_next_fd w1 = w_next_fd w"
    using c by (simp_all add: calm_def)
  have names: "w_names w2 = (w_names w)(tp \<mapsto> w_next w)" and dirs: "w_dirs w2 = w_dirs w"
    using frameD(1,2) [OF fr] by (simp_all add: with_new_file_fields c')
  have data: "w_data w2 i = (if i = w_next w then [] else w_data w i)" for i
    using frameD(6) [OF fr, of i] by (simp add: with_new_file_fields c')
  have opened: "w_open w2 fd = w_open w fd" if "fd \<noteq> w_next_fd w" for fd
    using frameD(7) [OF fr, of fd] that by (simp add: with_new_file_fields c')
  have fresh: "w_names w q \<noteq> Some (w_next w)" for q
    using ok by (auto simp: world_ok_def)
  have "quiet (- {tp}) w w2"
    using quiet_trans [OF quiet_new_file [OF c ok] frame_quiet [OF fr]] by simp
  moreover have "world_ok w2"
    using world_ok_frame [OF fr] world_ok_with_new_file world_ok_calm [OF c] ok by simp
  moreover have "writer_at (fresh_writer E p opts l tp (w_next_fd w)) w2 tp (w_next w) []"
    using tp names dirs data o2 fresh by (auto simp: writer_at_def fresh_writer_def stored_content_def)
  ultimately show ?thesis
    using l sup tp names dirs data opened by (auto simp: created_def)
qed

lemma not_created_after_drop:
  assumes ok: "world_ok w" and c: "calm w w1" and tp: "w_names w tp = None" "tp \<noteq> p" "butlast p \<in> set (w_dirs w)" "temporary tp"
    and fr: "frame {} {} (tick (with_new_file tp w1)) w2" and ow: "wr_temp_path ow = Some tp"
    and unrel: "\<not> reliable E"
  shows "not_created E p w (drop_writer E ow w2)"
proof -
  have c': "w_names w1 = w_names w" "w_dirs w1 = w_dirs w" "w_data w1 = w_data w" "w_next w1 = w_next w"
    "w_open w1 = w_open w" "w_next_fd w1 = w_next_fd w"
    using c by (simp_all add: calm_def)
  have "quiet (old_names w p) w (tick (with_new_file tp w1))"
    by (rule quiet_new_file [OF c ok]) (use tp in \<open>simp add: old_names_def\<close>)
  then have "quiet (old_names w p) w w2"
    by (rule quiet_trans) (rule frame_quiet [OF fr], simp)
  then have q: "quiet (old_names w p) w (drop_writer E ow w2)"
    by (rule quiet_trans) (rule drop_writer_quiet, use ow tp in \<open>auto simp: old_names_def\<close>)
  have "world_ok w2"
    using world_ok_frame [OF fr] world_ok_with_new_file world_ok_calm [OF c] ok by simp
  moreover have "w_names (drop_writer E ow w2) q = w_names w q" if "q \<in> old_names w p" for q
  proof -
    have "q \<noteq> tp" using that tp by (auto simp: old_names_def)
    then show ?thesis
      using ow frameD(1) [OF fr] drop_writer_fields(6) [of ow q E w2] by (simp add: with_new_file_fields c')
  qed
  moreover have "names_within {w_next w} w (drop_writer E ow w2)"
    by (rule names_within_trans [OF _ names_within_drop], rule names_withinI)
       (use frameD(1) [OF fr] in \<open>simp add: with_new_file_fields c' split: if_splits\<close>)
  ultimately show ?thesis
    using q unrel tp frameD(1,2) [OF fr] frameD(6,7) [OF fr]
    by (simp add: not_created_def world_ok_drop drop_writer_fields(1-5) with_new_file_fields c')
qed

lemma create_writer_wp:
  assumes ok: "world_ok w"
  shows "wp (create_writer E p opts) (\<lambda>ow w'. \<exists>tp. created E p opts w ow w' tp)
     (\<lambda>e w'. not_created E p w w'
        \<and> (butlast p \<notin> set (w_dirs w) \<longrightarrow> e \<noteq> None \<or> usize_max < layout_demand (co_layout opts)
             (metadata_size E (co_metadata opts)) (tag_block_size (co_tags opts)))
        \<and> (reliable E \<and> butlast p \<in> set (w_dirs w) \<and> is_supported E (co_compression opts)
           \<and> (\<exists>l. compute (co_layout opts) (metadata_size E (co_metadata opts)) (tag_block_size (co_tags opts)) = Ok l)
           \<longrightarrow> e = Some (IO AlreadyExists) \<and> \<not> name_free E p w)) w"
  (is "wp _ ?Q ?R w")
proof -
  let ?c = "compute (co_layout opts) (metadata_size E (co_metadata opts)) (tag_block_size (co_tags opts))"
  have stay: "not_created E p w w" by (rule calm_not_created) (simp_all add: ok)
  show ?thesis
  proof (cases "is_supported E (co_compression opts)")
    case False
    then show ?thesis using stay by (simp add: create_writer_def ensure_supported_def)
  next
    case sup: True
    show ?thesis
    proof (cases ?c)
      case (Ok l)
      have "wp (st_bind (create_temp_file E p) (\<lambda>(fd, tp).
              let writer = fresh_writer E p opts l tp fd
              in (\<lambda>w. case sys_seek E fd (unat (content_start l)) w of
                    (Ok _, w') \<Rightarrow> (Ok writer, w')
                  | (Err k, w') \<Rightarrow> (Err (IO k), drop_writer E writer w')
                  | (Panic, w') \<Rightarrow> (Panic, drop_writer E writer w')))) ?Q ?R w"
        unfolding create_temp_file_def
      proof (rule wp_bind_spec [OF temp_file_loop_wp], goal_cases)
        case (1 a w')
        obtain fd tp where a: "a = (fd, tp)" by (cases a)
        with 1 obtain w1 where c: "calm w w1" and fd: "fd = w_next_fd w" and tp: "w_names w tp = None" "tp \<noteq> p"
          "butlast p \<in> set (w_dirs w)" "temporary tp" and w': "w' = tick (with_new_file tp w1)"
          by auto
        have f: "w_open w' fd = Some \<lparr>of_inode = w_next w, of_pos = 0, of_writable = True\<rparr>"
          using c by (simp add: w' with_new_file_fields fd calm_def)
        obtain r w2 where run: "sys_seek E fd (unat (content_start l)) w' = (r, w2)" by (metis surj_pair)
        note spec = wp_run [OF sys_seek_wp [OF f] run]
        show ?case
        proof (cases r)
          case (Ok u)
          with spec have "created E p opts w (fresh_writer E p opts l tp (w_next_fd w)) w2 tp"
            by (intro created_after_seek [OF ok c tp \<open>?c = Ok l\<close> sup]) (simp_all add: fd w')
          with run Ok a fd show ?thesis by (auto simp: wp_def Let_def)
        next
          case (Err k)
          with spec have fr: "frame {} {} (tick (with_new_file tp w1)) w2" and unrel: "\<not> reliable E"
            using u32_below_max [of "content_start l"] by (auto simp: w')
          have "not_created E p w (drop_writer E (fresh_writer E p opts l tp fd) w2)"
            by (rule not_created_after_drop [OF ok c tp fr _ unrel]) (simp add: fresh_writer_def)
          with run Err a unrel tp(3) show ?thesis by (simp add: wp_def Let_def)
        next
          case Panic
          with spec show ?thesis by simp
        qed
      next
        case (2 e w')
        then show ?case using calm_not_created [OF _ ok, of w'] by auto
      qed
      then show ?thesis
        using sup Ok unfolding fresh_writer_def by (simp add: create_writer_def ensure_supported_def Let_def)
    next
      case (Err e)
      then show ?thesis using sup stay by (simp add: create_writer_def ensure_supported_def)
    next
      case Panic
      then show ?thesis
        using sup stay compute_overflow by (simp add: create_writer_def ensure_supported_def)
    qed
  qed
qed

end
