(* ===== verification/Finishing.thy ===== *)
theory Finishing
  imports Publishing
begin

text \<open>
  The rest of the writer's life: writing content, copying it into a replacement, and finishing,
  which shows the destination either as it was or as the complete new object.
\<close>

section \<open>Writing content\<close>

lemma unat_add_of_nat:
  assumes "unat (a :: u64) + n < 2 ^ 64"
  shows "unat (a + of_nat n) = unat a + n"
proof -
  have "unat (of_nat n :: u64) = n" using assms by (simp add: unat_of_nat)
  then show ?thesis using assms unat_add_lem [of a "of_nat n"] by simp
qed

lemma writer_write_wp:
  assumes at: "writer_at ow w tp i content" and raw: "wr_allow_raw_writes ow"
  shows "wp (writer_write E bs)
     (\<lambda>n s. frame {wr_file ow} {i} w (snd s) \<and> n \<le> length bs \<and> same_writer ow (fst s)
        \<and> writer_at (fst s) (snd s) tp i (content @ take n bs) \<and> (reliable E \<longrightarrow> bs \<noteq> [] \<longrightarrow> 0 < n))
     (\<lambda>e s. frame {wr_file ow} {i} w (snd s) \<and> same_writer ow (fst s) \<and> e \<noteq> None
        \<and> writer_at (fst s) (snd s) tp i content
        \<and> (reliable E \<longrightarrow> max_offset < unat (content_start (wr_layout ow)) + length (content @ bs))) (ow, w)"
proof -
  let ?cs = "unat (content_start (wr_layout ow))"
  let ?f = "\<lparr>of_inode = i, of_pos = ?cs + length content, of_writable = True\<rparr>"
  from at have f: "w_open w (wr_file ow) = Some ?f" and stored: "stored_content ?cs content (w_data w i)"
    and len: "unat (wr_content_length ow) = length content"
    by (simp_all add: writer_at_def)
  have "wp (st_bind (on_world (sys_write E (wr_file ow) bs)) (\<lambda>written.
          if unat (wr_content_length ow) + written \<ge> 2 ^ 64 then st_lift Panic
          else st_bind (put_self (ow\<lparr>wr_content_length := wr_content_length ow + of_nat written\<rparr>)) (\<lambda>_.
               st_lift (Ok written))))
     (\<lambda>n s. frame {wr_file ow} {i} w (snd s) \<and> n \<le> length bs \<and> same_writer ow (fst s)
        \<and> writer_at (fst s) (snd s) tp i (content @ take n bs) \<and> (reliable E \<longrightarrow> bs \<noteq> [] \<longrightarrow> 0 < n))
     (\<lambda>e s. frame {wr_file ow} {i} w (snd s) \<and> same_writer ow (fst s) \<and> e \<noteq> None
        \<and> writer_at (fst s) (snd s) tp i content
        \<and> (reliable E \<longrightarrow> max_offset < ?cs + length (content @ bs))) (ow, w)"
    unfolding wp_bind wp_on_world snd_conv
  proof (rule wp_conseq [OF sys_write_wp [OF f]], goal_cases)
    case 1
    then show ?case by simp
  next
    case (2 n w')
    then have fr: "frame {wr_file ow} {i} w w'" and n: "n \<le> length bs"
      and room: "?cs + length content + length bs \<le> max_offset"
      and d: "w_data w' i = splice (?cs + length content) (take n bs) (w_data w i)"
      and o': "w_open w' (wr_file ow) = Some (?f\<lparr>of_pos := ?cs + length content + n\<rparr>)"
      and progress: "reliable E \<longrightarrow> bs \<noteq> [] \<longrightarrow> 0 < n"
      by auto
    have small: "unat (wr_content_length ow) + n < 2 ^ 64"
      using room n by (simp add: len max_offset_def)
    let ?ow = "ow\<lparr>wr_content_length := wr_content_length ow + of_nat n\<rparr>"
    have "unat (wr_content_length ?ow) = length (content @ take n bs)"
      using unat_add_of_nat [OF small] n len by simp
    then have "writer_at ?ow w' tp i (content @ take n bs)"
      using at o' n frameD(1,2) [OF fr] stored_content_splice [OF stored, of "take n bs"] d
      by (simp add: writer_at_def add.assoc)
    moreover have "same_writer ow ?ow" by (auto simp: same_writer_def)
    ultimately show ?case using small fr n progress by (simp add: wp_bind)
  next
    case (3 e w')
    then have "frame {} {} w w'" by simp
    then have "frame {wr_file ow} {i} w w'" and "writer_at ow w' tp i content"
      using writer_at_frame [OF _ _ _ at] by (auto elim: frame_mono)
    with 3 show ?case by (simp add: add.assoc)
  qed
  then show ?thesis
    unfolding writer_write_def wp_with_self fst_conv using raw by (simp only: not_True_eq_False if_False)
qed

text \<open>
  A whole buffer: all of it ends up behind the content so far, or a failure leaves a prefix of it.
\<close>

lemma writer_write_all_wp:
  assumes at: "writer_at ow w tp i content" and raw: "wr_allow_raw_writes ow"
  shows "wp (writer_write_all E bs)
     (\<lambda>_ s. frame {wr_file ow} {i} w (snd s) \<and> same_writer ow (fst s)
        \<and> writer_at (fst s) (snd s) tp i (content @ bs))
     (\<lambda>e s. frame {wr_file ow} {i} w (snd s) \<and> same_writer ow (fst s) \<and> e \<noteq> None
        \<and> (\<exists>n \<le> length bs. writer_at (fst s) (snd s) tp i (content @ take n bs))
        \<and> (reliable E \<longrightarrow> max_offset < unat (content_start (wr_layout ow)) + length (content @ bs))) (ow, w)"
proof -
  let ?cs = "unat (content_start (wr_layout ow))"
  define I where "I out s \<longleftrightarrow> frame {wr_file ow} {i} w (snd s) \<and> same_writer ow (fst s)
      \<and> writer_at (fst s) (snd s) tp i (content @ out)" for out s
  define R where "R e s \<longleftrightarrow> frame {wr_file ow} {i} w (snd s) \<and> same_writer ow (fst s) \<and> e \<noteq> None
        \<and> (\<exists>n \<le> length bs. writer_at (fst s) (snd s) tp i (content @ take n bs))
        \<and> (reliable E \<longrightarrow> max_offset < ?cs + length (content @ bs))" for e :: "io_kind option" and s
  have "wp (write_all (writer_write E) bs) (\<lambda>_. I bs) R (ow, w)"
  proof (rule write_all_wp)
    fix out rest s
    assume I: "I out s" and bs: "bs = out @ rest" and ne: "rest \<noteq> []"
    obtain ow1 w1 where s: "s = (ow1, w1)" by (cases s)
    from I have fr: "frame {wr_file ow} {i} w w1" and same: "same_writer ow ow1"
      and at1: "writer_at ow1 w1 tp i (content @ out)"
      by (simp_all add: I_def s)
    note D = same_writerD [OF same]
    have take_out: "content @ take (length out) bs = content @ out" "length out \<le> length bs"
      using bs by simp_all
    have stop: "R e s'" if "frame {wr_file ow} {i} w1 (snd s')" "same_writer ow1 (fst s')" "e \<noteq> None"
      "writer_at (fst s') (snd s') tp i (content @ out)"
      "reliable E \<longrightarrow> max_offset < ?cs + length (content @ bs)" for e s'
      unfolding R_def
      using that frame_trans [OF fr that(1)] same_writer_trans [OF same that(2)] take_out by metis
    show "wp (writer_write E rest)
        (\<lambda>n s'. n \<le> length rest \<and> I (out @ take n rest) s' \<and> (n = 0 \<longrightarrow> R (Some WriteZero) s')) R s"
      unfolding s
    proof (rule wp_conseq [OF writer_write_wp [OF at1]], goal_cases)
      case 1
      then show ?case using raw D by simp
    next
      case (2 n s')
      moreover from this have "R (Some WriteZero) s'" if "n = 0"
        using that ne by (intro stop) (simp_all add: D)
      ultimately show ?case
        using frame_trans [OF fr, of "snd s'"] same_writer_trans [OF same, of "fst s'"]
        by (simp add: I_def D)
    next
      case (3 e s')
      then show ?case by (intro stop) (simp_all add: D bs)
    qed
  next
    show "I [] (ow, w)" using at by (simp add: I_def)
  qed
  then show ?thesis
    unfolding writer_write_all_def by (rule wp_conseq) (simp_all add: I_def R_def)
qed

text \<open>A compressed object takes no raw bytes at all.\<close>

lemma writer_write_all_refused:
  "\<not> wr_allow_raw_writes ow \<Longrightarrow> bs \<noteq> [] \<Longrightarrow> writer_write_all E bs (ow, w) = (Err OtherKind, (ow, w))"
  by (simp add: writer_write_all_def write_all.simps [of _ bs] writer_write_def with_self_def st_lift_def)

section \<open>Copying content into a replacement\<close>

text \<open>
  The source is read through a handle to another file. Everything that remains in the reader ends up
  behind the content of the writer; on a failure some prefix of it.
\<close>

lemma copy_content_wp:
  assumes at: "writer_at ow w tp i content" and f: "w_open w (cr_file r) = Some f"
    and other: "cr_file r \<noteq> wr_file ow" "of_inode f \<noteq> i"
    and raw: "wr_allow_raw_writes ow \<or> remaining r = 0"
  shows "wp (copy_content E copied)
     (\<lambda>_ (r', ow', w'). frame {cr_file r, wr_file ow} {i} w w' \<and> same_writer ow ow'
        \<and> writer_at ow' w' tp i (content @ take (unat (remaining r)) (drop (of_pos f) (w_data w (of_inode f)))))
     (\<lambda>e (r', ow', w'). frame {cr_file r, wr_file ow} {i} w w' \<and> same_writer ow ow' \<and> e \<noteq> None
        \<and> wr_temp_path ow' = Some tp
        \<and> (reliable E \<longrightarrow> max_offset < unat (content_start (wr_layout ow)) + length content + unat (remaining r)))
     (r, ow, w)"
  using assms
proof (induction "unat (remaining r)" arbitrary: copied r ow w f content rule: less_induct)
  case less
  let ?F = "{cr_file r, wr_file ow}" and ?d = "w_data w (of_inode f)"
  have tpo: "wr_temp_path ow = Some tp" using less.prems(1) by (simp add: writer_at_def)
  obtain a r1 w1 where run: "content_read E 8192 (r, w) = (a, (r1, w1))" by (metis prod.collapse)
  note spec = wp_run [OF content_read_wp [OF less.prems(2)] run]
  show ?case
  proof (cases a)
    case (Ok bs)
    from spec Ok have fr: "frame {cr_file r} {} w w1" and len: "length bs \<le> unat (remaining r)"
      and bs: "bs = take (length bs) (drop (of_pos f) ?d)"
      and e: "bs = [] \<Longrightarrow> remaining r = 0 \<or> length ?d \<le> of_pos f"
      and r1: "cr_file r1 = cr_file r" "unat (remaining r1) = unat (remaining r) - length bs"
      and o1: "w_open w1 (cr_file r) = Some (f\<lparr>of_pos := of_pos f + length bs\<rparr>)"
      by auto
    have d: "w_data w1 (of_inode f) = ?d" using frameD(6) [OF fr] by simp
    have fr': "frame ?F {i} w w1" by (rule frame_mono [OF fr]) auto
    have at1: "writer_at ow w1 tp i content"
      by (rule writer_at_frame [OF fr _ _ less.prems(1)]) (use less.prems(3) in auto)
    show ?thesis
    proof (cases "bs = []")
      case True
      have none: "take (unat (remaining r)) (drop (of_pos f) ?d) = []" using e [OF True] by auto
      show ?thesis
        unfolding none using True Ok run fr' at1
        by (simp add: wp_def copy_content.simps [of E copied r ow w])
    next
      case False
      with len less.prems(5) have raw: "wr_allow_raw_writes ow" by auto
      obtain b ow2 w2 where wr: "writer_write_all E bs (ow, w1) = (b, (ow2, w2))" by (metis prod.collapse)
      note spec2 = wp_run [OF writer_write_all_wp [OF at1 raw] wr]
      show ?thesis
      proof (cases b)
        case (Ok u)
        with spec2 have fr2: "frame {wr_file ow} {i} w1 w2" and same: "same_writer ow ow2"
          and at2: "writer_at ow2 w2 tp i (content @ bs)" by auto
        note D = same_writerD [OF same]
        have o2: "w_open w2 (cr_file r1) = Some (f\<lparr>of_pos := of_pos f + length bs\<rparr>)"
          using frameD(7) [OF fr2, of "cr_file r"] less.prems(3) o1 r1 by simp
        have d2: "w_data w2 (of_inode f) = ?d" using frameD(6) [OF fr2, of "of_inode f"] less.prems(4) d by simp
        have shorter: "unat (remaining r1) < unat (remaining r)" using r1 len False by (cases bs) auto
        obtain c s3 where rest: "copy_content E (copied + length bs) (r1, ow2, w2) = (c, s3)" by (metis surj_pair)
        obtain r3 ow3 w3 where s3: "s3 = (r3, ow3, w3)" by (cases s3) auto
        note ih = less.hyps [OF shorter at2 o2, of "copied + length bs"]
        have "case c of
              Ok _ \<Rightarrow> frame ?F {i} w2 w3 \<and> same_writer ow2 ow3
                \<and> writer_at ow3 w3 tp i (content @ bs @ take (unat (remaining r) - length bs) (drop (of_pos f + length bs) ?d))
            | Err e \<Rightarrow> frame ?F {i} w2 w3 \<and> same_writer ow2 ow3 \<and> wr_temp_path ow3 = Some tp
                \<and> (reliable E \<longrightarrow> max_offset < unat (content_start (wr_layout ow)) + length content + unat (remaining r))
            | Panic \<Rightarrow> False"
          using wp_run [OF ih rest] less.prems(3,4) raw len
          by (simp add: D r1 d2 s3 add.assoc split: res.splits)
        moreover have "take (unat (remaining r)) (drop (of_pos f) ?d) =
            bs @ take (unat (remaining r) - length bs) (drop (of_pos f + length bs) ?d)"
          using bs len by (metis add.commute drop_drop le_add_diff_inverse take_add)
        moreover have "frame ?F {i} w w3" if "frame ?F {i} w2 w3"
          by (rule frame_trans [OF frame_trans [OF fr' frame_mono [OF fr2]] that]) auto
        ultimately show ?thesis
          using False Ok run wr rest s3 same_writer_trans [OF same] \<open>a = Ok bs\<close>
          by (cases c) (simp_all add: wp_def copy_content.simps [of E copied r ow w])
      next
        case (Err k)
        with spec2 have fr2: "frame {wr_file ow} {i} w1 w2" and same: "same_writer ow ow2"
          and big: "reliable E \<longrightarrow> max_offset < unat (content_start (wr_layout ow)) + length (content @ bs)" by auto
        have "frame ?F {i} w w2"
          by (rule frame_trans [OF fr' frame_mono [OF fr2]]) auto
        then show ?thesis
          using Err False run wr same big len same_writerD(2) [OF same] tpo \<open>a = Ok bs\<close>
          by (auto simp: wp_def copy_content.simps [of E copied r ow w])
      next
        case Panic
        with spec2 show ?thesis by simp
      qed
    qed
  next
    case (Err k)
    with spec have "frame ?F {i} w w1" and "\<not> reliable E" by (auto elim: frame_mono)
    then show ?thesis
      using Err run tpo by (simp add: wp_def copy_content.simps [of E copied r ow w])
  next
    case Panic
    with spec show ?thesis by simp
  qed
qed

section \<open>Publishing\<close>

definition renamed :: "path \<Rightarrow> path \<Rightarrow> nat \<Rightarrow> world \<Rightarrow> world" where
  "renamed tp p i w = w\<lparr>w_names := (w_names w)(tp := None, p \<mapsto> i)\<rparr>"

lemma renamed_fields [simp]:
  "w_names (renamed tp p i w) = (w_names w)(tp := None, p \<mapsto> i)" "w_dirs (renamed tp p i w) = w_dirs w"
  "w_data (renamed tp p i w) = w_data w" "w_open (renamed tp p i w) = w_open w"
  "w_next (renamed tp p i w) = w_next w" "w_next_fd (renamed tp p i w) = w_next_fd w"
  "w_trace (renamed tp p i w) = w_trace w"
  by (simp_all add: renamed_def)

lemma view_of_renamed:
  "view_of (renamed tp p i w) q =
     (if q = p then Some (w_data w i) else if q = tp then None else view_of w q)"
  by (simp add: view_of_def split: option.splits)

text \<open>A rename shows the whole new file, or what was there before; no third thing, at no time.\<close>

lemma renamed_shows:
  assumes "calm (renamed tp p i w) w'" and "P (w_data w i)"
  shows "atomic_update p P w w'" and "quiet (- {p, tp}) w w'"
proof -
  have "shown (\<lambda>v. v = view_of (renamed tp p i w)) (renamed tp p i w) w'"
    using assms(1) unfolding calm_def by blast
  then have seen: "shown (\<lambda>v. v = view_of (renamed tp p i w)) w w'"
    unfolding shown_def renamed_fields .
  show "atomic_update p P w w'"
    unfolding atomic_update_def calm_view [OF assms(1)]
    by (rule conjI [OF shown_mono [OF seen]]) (simp_all add: view_of_renamed assms(2))
  show "quiet (- {p, tp}) w w'"
    unfolding quiet_def calm_view [OF assms(1)]
    by (rule conjI [OF shown_mono [OF seen]]) (simp_all add: view_of_renamed)
qed

lemma sync_parent_calm: "calm w (snd (sync_parent E p w))" "fst (sync_parent E p w) = Ok ()"
proof -
  have d: "calm v v'" if "sys_open_dir E q v = (r, v')" for q v r v'
    using wp_run [OF sys_open_dir_wp that] by (cases r) (auto simp: calm_tick)
  have y: "calm v v'" if "sys_sync_all E fd v = (r, v')" for fd v r v'
    using wp_run [OF sys_sync_all_wp that] by (cases r) (auto simp: calm_tick)
  show "calm w (snd (sync_parent E p w))"
  proof -
    obtain r v where dir: "sys_open_dir E (butlast p) w = (r, v)" by (metis surj_pair)
    obtain r' v' where sync: "sys_sync_all E 0 v = (r', v')" by (metis surj_pair)
    show ?thesis
      using d [OF dir] calm_trans [OF d [OF dir] y [OF sync]] dir sync
      by (cases r) (simp_all add: sync_parent_def)
  qed
  show "fst (sync_parent E p w) = Ok ()"
    by (auto simp: sync_parent_def split: prod.splits res.splits)
qed

lemma publish_wp:
  assumes "wr_temp_path ow = Some tp" and "w_names w tp = Some i"
  shows "wp (publish E)
     (\<lambda>_ s. fst s = ow\<lparr>wr_temp_path := None\<rparr> \<and> calm (renamed tp (wr_final_path ow) i w) (snd s))
     (\<lambda>e s. fst s = ow\<lparr>wr_temp_path := None\<rparr> \<and> snd s = tick w \<and> e \<noteq> None
        \<and> (reliable E \<longrightarrow> wr_final_path ow \<in> set (w_dirs w) \<or> butlast (wr_final_path ow) \<notin> set (w_dirs w))) (ow, w)"
  (is "wp _ ?Q ?R _")
proof -
  let ?p = "wr_final_path ow"
  have "wp (st_bind (put_self (ow\<lparr>wr_temp_path := None\<rparr>)) (\<lambda>_.
         st_bind (io (sys_rename E tp ?p)) (\<lambda>_.
         if wr_sync ow then on_world (sync_parent E ?p) else st_lift (Ok ())))) ?Q ?R (ow, w)"
    unfolding wp_bind [of "put_self _"] wp_put_self snd_conv
  proof (rule wp_bind_io [OF sys_rename_wp], goal_cases)
    case (1 _ w')
    then have w': "w' = tick (renamed tp ?p i w)" using assms(2) by (auto simp: renamed_def)
    then have c: "calm (renamed tp ?p i w) w'" by (simp add: calm_tick)
    obtain w'' where sp: "(sync_parent E ?p w' :: (unit, object_file_error) res \<times> world) = (Ok (), w'')"
      using sync_parent_calm(2) [where E = E and p = ?p and w = w'] by (metis prod.collapse)
    have "calm w' (snd (sync_parent E ?p w' :: (unit, object_file_error) res \<times> world))"
      by (rule sync_parent_calm)
    then have "calm (renamed tp ?p i w) w''" using calm_trans [OF c] sp by simp
    with c sp show ?case by (simp add: wp_def on_world_def st_lift_def)
  next
    case (2 e w')
    then show ?case using assms(2) by auto
  qed
  then show ?thesis
    unfolding publish_def wp_with_self fst_conv assms(1) by (simp only: option.case)
qed

text \<open>A failed rename leaves the temporary file behind: its path was already given up.\<close>

lemma publish_failed_rename:
  assumes "wr_temp_path ow = Some tp" and "fault E (w_clock w) = Some k"
  shows "consume E (publish E) ow w = (Err (IO k), tick w)"
  by (simp add: consume_def publish_def with_self_def put_self_def st_bind_def io_def st_map_err_def
      on_world_def sys_rename_def syscall_def assms drop_writer_def)

end
