(* ===== verification/Lifecycle.thy ===== *)
theory Lifecycle
  imports Finishing
begin

text \<open>
  \<open>ObjectWriter::finish\<close> as a whole: in place, and by rewriting when the sections outgrew their
  space; and what that means for a file from its creation to its opening.
\<close>

section \<open>What a finish leaves alone\<close>

definition finish_header :: "'hn object_writer \<Rightarrow> section_layout \<Rightarrow> object_header" where
  "finish_header ow l = build_header (ow\<lparr>wr_layout := l\<rparr>)"

text \<open>The file a finish is to publish: the sections of the writer in front of the content.\<close>

definition new_object :: "'hn env \<Rightarrow> 'hn object_writer \<Rightarrow> section_layout \<Rightarrow> u8 list \<Rightarrow> u8 list \<Rightarrow> bool" where
  "new_object E ow l content d \<longleftrightarrow> holds_object E d (finish_header ow l) (wr_metadata ow) (wr_tags ow) content"

text \<open>All names but two, all files but one, all handles but one are as they were.\<close>

definition settled :: "path \<Rightarrow> path \<Rightarrow> nat \<Rightarrow> nat \<Rightarrow> world \<Rightarrow> world \<Rightarrow> bool" where
  "settled p tp i fd w w' \<longleftrightarrow> quiet (- {p, tp}) w w' \<and> world_ok w' \<and> w_dirs w' = w_dirs w \<and>
     (\<forall>j. j \<noteq> i \<longrightarrow> w_data w' j = w_data w j) \<and> (\<forall>fd'. fd' \<noteq> fd \<longrightarrow> w_open w' fd' = w_open w fd') \<and>
     (\<forall>q. q \<noteq> p \<longrightarrow> q \<noteq> tp \<longrightarrow> w_names w' q = w_names w q) \<and>
     names_within {i} w w'"

lemma wp_consume:
  "wp (consume E m ow) Q R w \<longleftrightarrow>
     wp m (\<lambda>a s. Q a (drop_writer E (fst s) (snd s))) (\<lambda>e s. R e (drop_writer E (fst s) (snd s))) (ow, w)"
  by (auto simp: wp_def consume_def split: prod.splits res.splits)

lemma drop_writer_published: "wr_temp_path ow = None \<Longrightarrow> drop_writer E ow w = w"
  by (simp add: drop_writer_def)

text \<open>A failure before the rename.\<close>

lemma unpublished:
  assumes ok: "world_ok w" and fr: "frame {fd} {i} w w1" and tmp: "wr_temp_path ow = Some tp"
    and only: "\<forall>q. w_names w q = Some i \<longrightarrow> q = tp"
  shows "settled p tp i fd w (drop_writer E ow w1)" and "quiet (- {tp}) w (drop_writer E ow w1)"
proof -
  have "quiet (- {tp}) w w1" by (rule frame_quiet [OF fr]) (use only in auto)
  then show q: "quiet (- {tp}) w (drop_writer E ow w1)"
    by (rule quiet_trans) (rule drop_writer_quiet, use tmp in simp)
  have "world_ok (drop_writer E ow w1)"
    by (rule world_ok_drop [OF world_ok_frame [OF fr ok]])
  moreover have "w_names (drop_writer E ow w1) q' = w_names w q'" if "q' \<noteq> tp" for q'
    using drop_writer_fields(6) [of ow q' E w1] tmp that frameD(1) [OF fr] by simp
  moreover have "names_within {i} w (drop_writer E ow w1)"
    by (rule names_within_trans [OF names_within_same names_within_drop]) (rule frameD(1) [OF fr])
  ultimately show "settled p tp i fd w (drop_writer E ow w1)"
    using quiet_mono [OF q, of "- {p, tp}"] frameD(2) [OF fr] frameD(6,7) [OF fr]
    by (auto simp: settled_def drop_writer_fields(1-5))
qed

text \<open>The rename, and everything after it.\<close>

lemma published:
  assumes ok: "world_ok w" and fr: "frame {fd} {i} w w1" and c: "calm (renamed tp p i w1) w2"
    and only: "\<forall>q. w_names w q = Some i \<longrightarrow> q = tp" and tp: "w_names w tp = Some i" "tp \<noteq> p"
    and P: "P (w_data w1 i)"
  shows "settled p tp i fd w w2" and "atomic_update p P w w2"
    and "w_names w2 p = Some i" "w_names w2 tp = None" "w_data w2 i = w_data w1 i" "w_open w2 fd = w_open w1 fd"
proof -
  have q: "quiet (- {tp}) w w1" by (rule frame_quiet [OF fr]) (use only in auto)
  have "world_ok w1" by (rule world_ok_frame [OF fr ok])
  then have "world_ok (renamed tp p i w1)"
    using tp(1) frameD(1) [OF fr] by (auto simp: world_ok_def)
  then have ok2: "world_ok w2" using world_ok_calm [OF c] by simp
  have f: "w_names w2 = (w_names w1)(tp := None, p \<mapsto> i)" "w_dirs w2 = w_dirs w1" "w_data w2 = w_data w1"
    "w_open w2 = w_open w1"
    using c by (simp_all add: calm_def)
  have "quiet (- {p, tp}) w w2"
    by (rule quiet_trans [OF quiet_mono [OF q] renamed_shows(2) [where P = P, OF c P]]) auto
  moreover have "names_within {i} w w2"
    using frameD(1) [OF fr] by (intro names_withinI) (auto simp: f split: if_splits)
  ultimately show "settled p tp i fd w w2"
    using ok2 frameD(1,2) [OF fr] frameD(6,7) [OF fr] by (simp add: settled_def f)
  show "atomic_update p P w w2"
    by (rule atomic_trans [OF quiet_atomic [OF quiet_mono [OF q]] renamed_shows(1) [where P = P, OF c P]])
       (use tp in auto)
  show "w_names w2 p = Some i" "w_names w2 tp = None" "w_data w2 i = w_data w1 i" "w_open w2 fd = w_open w1 fd"
    using tp(2) by (simp_all add: f)
qed

section \<open>Finishing in place\<close>

lemma new_object_image:
  assumes "unat (wr_content_length ow) = length content" and "sections_ok (wr_metadata ow) (wr_tags ow)"
    and "layout_fits l (metadata_size E (wr_metadata ow)) (tag_block_size (wr_tags ow))"
  shows "new_object E ow l content
     (prefix_image E (finish_header ow l) (wr_metadata ow) (wr_tags ow) l @ content)"
proof -
  have "header_layout (finish_header ow l) = l"
    by (simp add: header_layout_def finish_header_def build_header_def)
  then show ?thesis
    using assms
    by (simp add: new_object_def holds_object_def finish_header_def build_header_def header_ok_def CURRENT_VERSION_def)
qed

text \<open>The steps of \<open>finish\<close> behind the encoding of the prefix, up to the rename.\<close>

definition write_prefix :: "'hn env \<Rightarrow> 'hn object_writer \<Rightarrow> u8 list \<Rightarrow> ('hn, unit, object_file_error) writer_method" where
  "write_prefix E ow prefix =
     st_bind (io (file_flush (wr_file ow))) (\<lambda>_.
     st_bind (io (sys_seek E (wr_file ow) 0)) (\<lambda>_.
     st_bind (io (file_write_all E (wr_file ow) prefix)) (\<lambda>_.
     st_bind (io (file_flush (wr_file ow))) (\<lambda>_.
     if wr_sync ow then io (sys_sync_all E (wr_file ow)) else st_lift (Ok ())))))"

lemma write_prefix_wp:
  assumes at: "writer_at ow w tp i content" and len: "length prefix = unat (content_start (wr_layout ow))"
  shows "wp (write_prefix E ow prefix)
     (\<lambda>_ s. fst s = ow' \<and> frame {wr_file ow} {i} w (snd s) \<and> w_data (snd s) i = prefix @ content
        \<and> (\<exists>f. w_open (snd s) (wr_file ow) = Some f \<and> of_inode f = i \<and> of_writable f))
     (\<lambda>e s. fst s = ow' \<and> frame {wr_file ow} {i} w (snd s) \<and> e \<noteq> None \<and> \<not> reliable E) (ow', w)"
  (is "wp _ ?Q ?R _")
proof -
  let ?fd = "wr_file ow" and ?cs = "unat (content_start (wr_layout ow))"
  let ?f = "\<lparr>of_inode = i, of_pos = ?cs + length content, of_writable = True\<rparr>"
  from at have f: "w_open w ?fd = Some ?f" and stored: "stored_content ?cs content (w_data w i)"
    by (simp_all add: writer_at_def)
  have "wp (st_bind (io (sys_seek E ?fd 0)) (\<lambda>_.
     st_bind (io (file_write_all E ?fd prefix)) (\<lambda>_.
     if wr_sync ow then io (sys_sync_all E ?fd) else st_lift (Ok ())))) ?Q ?R (ow', w)"
  proof (rule wp_bind_io [OF sys_seek_wp [OF f]], goal_cases)
    case (1 _ w1)
    then have fr: "frame {?fd} {} w w1" and o1: "w_open w1 ?fd = Some (?f\<lparr>of_pos := 0\<rparr>)" by auto
    have d1: "w_data w1 i = w_data w i" using frameD(6) [OF fr] by simp
    note fr' = frame_mono [OF fr subset_refl empty_subsetI [of "{i}"]]
    show ?case
    proof (rule wp_bind_io [OF file_write_all_wp [OF o1]], goal_cases)
      case 1
      then show ?case by simp
    next
      case (2 _ w2)
      then have fr2: "frame {?fd} {i} w w2" and d2: "w_data w2 i = prefix @ content"
        and o2: "w_open w2 ?fd = Some (?f\<lparr>of_pos := length prefix\<rparr>)"
        using frame_trans [OF fr', of w2] stored_content_prefix [OF stored len] by (auto simp: d1)
      show ?case
      proof (cases "wr_sync ow")
        case False
        then show ?thesis using fr2 d2 o2 by simp
      next
        case True
        have "wp (io (sys_sync_all E ?fd)) ?Q ?R (ow', w2)"
          unfolding wp_io snd_conv
          by (rule wp_conseq [OF sys_sync_all_wp]) (use fr2 d2 o2 in \<open>auto simp: frame_tick\<close>)
        with True show ?thesis by simp
      qed
    next
      case (3 e w2)
      then show ?case
        using frame_trans [OF fr', of w2] len u32_below_max [of "content_start (wr_layout ow)"] by auto
    qed
  next
    case (2 e w1)
    then show ?case using frame_mono [of "{}" "{}" w w1 "{?fd}" "{i}"] by (auto simp: max_offset_def)
  qed
  then show ?thesis
    by (simp add: write_prefix_def file_flush_def io_def st_map_err_def wp_bind wp_on_world wp_map_err)
qed

lemma finish_in_place_eq:
  "finish_in_place E l = with_self (\<lambda>ow0.
     let ow = ow0\<lparr>wr_layout := l\<rparr>
     in st_bind (put_self ow) (\<lambda>_.
        st_bind (st_lift (encode_prefix E (build_header ow) (wr_metadata ow) (wr_tags ow) l)) (\<lambda>prefix.
        st_bind (write_prefix E ow prefix) (\<lambda>_.
        st_bind (publish E) (\<lambda>_.
        st_bind (io (sys_try_clone E (wr_file ow))) (\<lambda>clone.
        st_lift (Ok (from_parts clone (wr_final_path ow) (build_header ow) (wr_metadata ow) True))))))))"
  by (simp add: finish_in_place_def write_prefix_def Let_def)

text \<open>
  The destination of a finish is only ever seen as it was or as the new object; and unless the
  environment failed, or the destination is a directory, it is the new object.
\<close>

lemma finish_in_place_wp:
  assumes H: "header_name_ok (header_names E)" and ok: "world_ok w" and at: "writer_at ow w tp i content"
    and secs: "sections_ok (wr_metadata ow) (wr_tags ow)"
    and fits: "layout_fits l (metadata_size E (wr_metadata ow)) (tag_block_size (wr_tags ow))"
    and cs: "content_start l = content_start (wr_layout ow)"
  shows "wp (consume E (finish_in_place E l) ow)
     (\<lambda>ob w'. settled (wr_final_path ow) tp i (wr_file ow) w w'
        \<and> atomic_update (wr_final_path ow) (new_object E ow l content) w w'
        \<and> w_names w' (wr_final_path ow) = Some i \<and> w_names w' tp = None \<and> new_object E ow l content (w_data w' i)
        \<and> ob = from_parts (wr_file ow) (wr_final_path ow) (finish_header ow l) (wr_metadata ow) True
        \<and> (\<exists>f. w_open w' (wr_file ow) = Some f \<and> of_inode f = i \<and> of_writable f))
     (\<lambda>e w'. settled (wr_final_path ow) tp i (wr_file ow) w w'
        \<and> atomic_update (wr_final_path ow) (new_object E ow l content) w w' \<and> e \<noteq> None
        \<and> (reliable E \<longrightarrow> wr_final_path ow \<in> set (w_dirs w))) w"
  (is "wp _ ?Q ?R w")
proof -
  let ?p = "wr_final_path ow" and ?fd = "wr_file ow" and ?h = "finish_header ow l"
    and ?ow = "ow\<lparr>wr_layout := l\<rparr>"
  let ?prefix = "prefix_image E ?h (wr_metadata ow) (wr_tags ow) l"
  from at have tmp: "wr_temp_path ow = Some tp" "tp \<noteq> ?p" "w_names w tp = Some i" "butlast ?p \<in> set (w_dirs w)"
    and only: "\<forall>q. w_names w q = Some i \<longrightarrow> q = tp" and len: "unat (wr_content_length ow) = length content"
    by (simp_all add: writer_at_def)
  have at': "writer_at ?ow w tp i content" using at by (simp add: writer_at_def cs)
  have enc: "encode_prefix E ?h (wr_metadata ow) (wr_tags ow) l = Ok ?prefix"
    by (rule encode_prefix_image [OF H secs fits])
  have plen: "length ?prefix = unat (content_start (wr_layout ?ow))"
    using length_prefix_image [OF H secs fits] by simp
  note image = new_object_image [OF len secs fits]
  let ?Q' = "\<lambda>a s. ?Q a (drop_writer E (fst s) (snd s))" and ?R' = "\<lambda>e s. ?R e (drop_writer E (fst s) (snd s))"
  have "wp (st_bind (write_prefix E ?ow ?prefix) (\<lambda>_. st_bind (publish E) (\<lambda>_.
        st_bind (io (sys_try_clone E ?fd)) (\<lambda>clone.
        st_lift (Ok (from_parts clone ?p ?h (wr_metadata ow) True)))))) ?Q' ?R' (?ow, w)"
  proof (rule wp_bind_spec [OF write_prefix_wp [OF at' plen]], goal_cases)
    case (1 _ s)
    then obtain w1 f where s: "s = (?ow, w1)" and fr: "frame {?fd} {i} w w1" and d1: "w_data w1 i = ?prefix @ content"
      and o1: "w_open w1 ?fd = Some f" "of_inode f = i" "of_writable f"
      by (cases s) auto
    have tmp1: "wr_temp_path ?ow = Some tp" "w_names w1 tp = Some i" using tmp frameD(1) [OF fr] by simp_all
    have P: "new_object E ow l content (w_data w1 i)" using image by (simp add: d1)
    show ?case
      unfolding s
    proof (rule wp_bind_spec [OF publish_wp [OF tmp1]], goal_cases)
      case (1 _ s2)
      then obtain w2 where s2: "s2 = (?ow\<lparr>wr_temp_path := None\<rparr>, w2)" and c: "calm (renamed tp ?p i w1) w2"
        by (cases s2) auto
      have fin: "calm (renamed tp ?p i w1) w3 \<Longrightarrow>
          settled ?p tp i ?fd w w3 \<and> atomic_update ?p (new_object E ow l content) w w3
          \<and> w_names w3 ?p = Some i \<and> w_names w3 tp = None \<and> new_object E ow l content (w_data w3 i)
          \<and> w_open w3 ?fd = Some f" for w3
        using published [OF ok fr _ only tmp(3,2), of w3 "new_object E ow l content"] P o1 by simp
      show ?case
        unfolding s2
        by (rule wp_bind_io [OF sys_try_clone_wp])
           (use fin [OF c] fin [OF calm_tick [OF c]] o1 in \<open>auto simp: drop_writer_published\<close>)
    next
      case (2 e s2)
      then have s2: "s2 = (?ow\<lparr>wr_temp_path := None\<rparr>, tick w1)" and e: "e \<noteq> None"
        and why: "reliable E \<longrightarrow> ?p \<in> set (w_dirs w)"
        using tmp(4) frameD(2) [OF fr] by (cases s2, auto)+
      have frt: "frame {?fd} {i} w (tick w1)" by (rule frame_tick [OF fr])
      have q: "quiet (- {tp}) w (tick w1)" by (rule frame_quiet [OF frt]) (use only in auto)
      have "settled ?p tp i ?fd w (tick w1)"
        using quiet_mono [OF q, of "- {?p, tp}"] world_ok_frame [OF frt ok] frameD(1,2) [OF frt] frameD(6,7) [OF frt]
          names_within_same [OF frameD(1) [OF frt]]
        by (auto simp: settled_def)
      moreover have "atomic_update ?p (new_object E ow l content) w (tick w1)"
        by (rule quiet_atomic [OF quiet_mono [OF q]]) (use tmp in auto)
      ultimately show ?case using e why by (simp add: s2 drop_writer_published)
    qed
  next
    case (2 e s)
    then obtain w1 where s: "s = (?ow, w1)" and fr: "frame {?fd} {i} w w1" and e: "e \<noteq> None" "\<not> reliable E"
      by (cases s) auto
    have un: "settled ?p tp i ?fd w (drop_writer E ?ow w1)" "quiet (- {tp}) w (drop_writer E ?ow w1)"
      by (rule unpublished [OF ok fr _ only]; simp add: tmp)+
    have "atomic_update ?p (new_object E ow l content) w (drop_writer E ?ow w1)"
      by (rule quiet_atomic [OF quiet_mono [OF un(2)]]) (use tmp(2) in simp)
    then show ?case using un(1) e by (simp add: s)
  qed
  then show ?thesis
    unfolding wp_consume finish_in_place_eq wp_with_self fst_conv Let_def
    using enc by (simp add: wp_bind [of "put_self _"] finish_header_def)
qed

section \<open>Moving content into a new file\<close>

text \<open>Every file and every handle there was is as it was, up to the offset of the handle.\<close>

definition kept :: "world \<Rightarrow> world \<Rightarrow> bool" where
  "kept w w' \<longleftrightarrow>
     (\<forall>j < w_next w. w_data w' j = w_data w j) \<and>
     (\<forall>fd < w_next_fd w. map_option (\<lambda>f. (of_inode f, of_writable f)) (w_open w' fd) =
        map_option (\<lambda>f. (of_inode f, of_writable f)) (w_open w fd))"

lemma kept_refl [simp]: "kept w w"
  by (simp add: kept_def)

lemma kept_calm: "calm w w' \<Longrightarrow> kept w w'"
  by (simp add: kept_def calm_def)

lemma kept_frame:
  assumes "kept w w1" and "frame F I w1 w2" and "\<And>i. i \<in> I \<Longrightarrow> w_next w \<le> i"
  shows "kept w w2"
proof -
  have "w_data w2 j = w_data w1 j" if "j < w_next w" for j
    using frameD(6) [OF assms(2)] assms(3) that by (metis not_le)
  moreover have "map_option (\<lambda>f. (of_inode f, of_writable f)) (w_open w2 fd) =
      map_option (\<lambda>f. (of_inode f, of_writable f)) (w_open w1 fd)" for fd
    using assms(2) by (simp add: frame_def)
  ultimately show ?thesis using assms(1) by (simp add: kept_def)
qed

lemma kept_settled:
  assumes "kept w w1" and "settled p tp i fd w1 w2" and "w_next w \<le> i" and "w_next_fd w \<le> fd"
  shows "kept w w2"
  using assms by (auto simp: kept_def settled_def)

lemma kept_drop: "kept w w1 \<Longrightarrow> kept w (drop_writer E ow w1)"
  by (simp add: kept_def drop_writer_fields(2,3))

lemma kept_created: "created E p opts w rep w1 tp' \<Longrightarrow> kept w w1"
  by (simp add: kept_def created_def)

lemma writer_atD:
  assumes "writer_at ow w tp i content"
  shows "stored_content (unat (content_start (wr_layout ow))) content (w_data w i)"
    and "unat (wr_content_length ow) = length content"
    and "\<exists>f. w_open w (wr_file ow) = Some f \<and> of_inode f = i"
  using assms unfolding writer_at_def by auto

text \<open>Other files, other handles, and what the names of other files are.\<close>

definition others_kept :: "nat \<Rightarrow> nat \<Rightarrow> world \<Rightarrow> world \<Rightarrow> bool" where
  "others_kept i fd w w' \<longleftrightarrow>
     (\<forall>j < w_next w. j \<noteq> i \<longrightarrow> w_data w' j = w_data w j) \<and>
     (\<forall>g < w_next_fd w. g \<noteq> fd \<longrightarrow> w_open w' g = w_open w g) \<and>
     names_within ({i} \<union> {w_next w..}) w w'"

lemma others_kept_refl [simp]: "others_kept i fd w w"
  by (simp add: others_kept_def names_within_same)

lemma others_kept_settled: "settled p tp i fd w w' \<Longrightarrow> others_kept i fd w w'"
  by (auto simp: others_kept_def settled_def elim: names_within_mono)

lemma others_kept_created: "created E p opts w rep w1 tp' \<Longrightarrow> others_kept i fd w w1"
  by (auto simp: others_kept_def created_def intro!: names_withinI split: if_splits)

lemma others_kept_frame:
  assumes "others_kept i fd w w1" and "frame F I w1 w2"
    and "\<And>j. j \<in> I \<Longrightarrow> j = i \<or> w_next w \<le> j" and "\<And>g. g \<in> F \<Longrightarrow> g = fd \<or> w_next_fd w \<le> g"
  shows "others_kept i fd w w2"
proof -
  have "w_data w2 j = w_data w1 j" if "j < w_next w" "j \<noteq> i" for j
    using frameD(6) [OF assms(2)] assms(3) that by (metis not_le)
  moreover have "w_open w2 g = w_open w1 g" if "g < w_next_fd w" "g \<noteq> fd" for g
    using frameD(7) [OF assms(2)] assms(4) that by (metis not_le)
  ultimately show ?thesis
    using assms(1) names_within_trans [OF _ names_within_same [OF frameD(1) [OF assms(2)]]]
    by (simp add: others_kept_def)
qed

lemma others_kept_trans_settled:
  assumes "others_kept i fd w w1" and "settled p tp j g w1 w2" and "w_next w \<le> j" and "w_next_fd w \<le> g"
  shows "others_kept i fd w w2"
  unfolding others_kept_def
proof (intro conjI allI impI)
  show "w_data w2 k = w_data w k" if "k < w_next w" "k \<noteq> i" for k
    using assms that by (auto simp: others_kept_def settled_def)
  show "w_open w2 k = w_open w k" if "k < w_next_fd w" "k \<noteq> fd" for k
    using assms that by (auto simp: others_kept_def settled_def)
  show "names_within ({i} \<union> {w_next w..}) w w2"
    by (rule names_within_trans [of _ _ w1])
       (use assms in \<open>auto simp: others_kept_def settled_def elim: names_within_mono\<close>)
qed

lemma others_kept_drop: "others_kept i fd w w1 \<Longrightarrow> others_kept i fd w (drop_writer E ow w1)"
  by (auto simp: others_kept_def drop_writer_fields(2,3) intro: names_within_trans [OF _ names_within_drop])

text \<open>
  Both ways of rewriting an object begin alike: a new writer, and the stored content copied into it
  from an open file. An error drops the new writer.
\<close>

definition transplant ::
  "'hn env \<Rightarrow> path \<Rightarrow> 'hn create_options \<Rightarrow> nat \<Rightarrow> nat \<Rightarrow> u64 \<Rightarrow> (world, 'hn object_writer, object_file_error) st" where
  "transplant E p opts fd start len =
     st_bind (create_writer E p opts) (\<lambda>writer w.
       case sys_seek E fd start w of
         (Err k, w') \<Rightarrow> (Err (IO k), drop_writer E writer w')
       | (Panic, w') \<Rightarrow> (Panic, drop_writer E writer w')
       | (Ok _, w') \<Rightarrow>
           (case copy_content E 0 (\<lparr>cr_file = fd, remaining = len\<rparr>, writer, w') of
              (Ok _, (_, writer', w'')) \<Rightarrow> (Ok writer', w'')
            | (Err k, (_, writer', w'')) \<Rightarrow> (Err (IO k), drop_writer E writer' w'')
            | (Panic, (_, writer', w'')) \<Rightarrow> (Panic, drop_writer E writer' w'')))"

lemma start_rewrite_transplant:
  "start_rewrite E ow = transplant E (wr_final_path ow) (rewrite_options ow) (wr_file ow)
     (unat (content_start (wr_layout ow))) (wr_content_length ow)"
  by (simp add: start_rewrite_def transplant_def)

text \<open>The new writer when it has taken over the content.\<close>

definition replaced ::
  "'hn env \<Rightarrow> path \<Rightarrow> 'hn create_options \<Rightarrow> u8 list \<Rightarrow> world \<Rightarrow> 'hn object_writer \<Rightarrow> world \<Rightarrow> path \<Rightarrow> section_layout \<Rightarrow> bool" where
  "replaced E p opts content w rep w' tp' l \<longleftrightarrow>
     compute (co_layout opts) (metadata_size E (co_metadata opts)) (tag_block_size (co_tags opts)) = Ok l \<and>
     same_writer (fresh_writer E p opts l tp' (w_next_fd w)) rep \<and>
     w_names w tp' = None \<and> tp' \<noteq> p \<and> temporary tp' \<and>
     writer_at rep w' tp' (w_next w) content \<and> quiet (- {tp'}) w w' \<and> world_ok w' \<and> w_dirs w' = w_dirs w \<and>
     w_names w' = (w_names w)(tp' \<mapsto> w_next w) \<and> kept w w' \<and>
     (co_compression opts = NoCompression \<or> content = [])"

definition not_replaced :: "path \<Rightarrow> world \<Rightarrow> world \<Rightarrow> bool" where
  "not_replaced p w w' \<longleftrightarrow>
     quiet (old_names w p) w w' \<and> world_ok w' \<and> w_dirs w' = w_dirs w \<and> kept w w' \<and>
     (\<forall>q \<in> old_names w p. w_names w' q = w_names w q)"

text \<open>When the environment is reliable and moving \<open>n\<close> bytes of content cannot fail.\<close>

definition replaceable :: "'hn env \<Rightarrow> path \<Rightarrow> 'hn create_options \<Rightarrow> nat \<Rightarrow> world \<Rightarrow> bool" where
  "replaceable E p opts n w \<longleftrightarrow> reliable E \<and> butlast p \<in> set (w_dirs w) \<and> name_free E p w \<and>
     (co_compression opts = NoCompression \<or> n = 0 \<and> is_supported E (co_compression opts)) \<and>
     (\<exists>l. compute (co_layout opts) (metadata_size E (co_metadata opts)) (tag_block_size (co_tags opts)) = Ok l
        \<and> unat (content_start l) + n \<le> max_offset)"

lemma abandoned_replacement:
  assumes c: "created E p opts w rep w1 tp'" and fr: "frame F {w_next w} w1 w2"
    and tmp: "wr_temp_path rep' = Some tp'"
  shows "not_replaced p w (drop_writer E rep' w2)"
proof -
  from c have tp': "w_names w tp' = None" "tp' \<noteq> p" "temporary tp'" and q1: "quiet (- {tp'}) w w1" and ok1: "world_ok w1"
    and f1: "w_dirs w1 = w_dirs w" "w_names w1 = (w_names w)(tp' \<mapsto> w_next w)"
    and only: "\<forall>q. w_names w1 q = Some (w_next w) \<longrightarrow> q = tp'"
    unfolding created_def writer_at_def by blast+
  have out: "tp' \<notin> old_names w p" using tp' by (simp add: old_names_def)
  have "quiet (- {tp'}) w (drop_writer E rep' w2)"
    by (rule quiet_trans [OF quiet_trans [OF q1 frame_quiet [OF fr]] drop_writer_quiet])
       (use only tmp in auto)
  then have "quiet (old_names w p) w (drop_writer E rep' w2)"
    by (rule quiet_mono) (use out in auto)
  moreover have "world_ok (drop_writer E rep' w2)"
    by (rule world_ok_drop [OF world_ok_frame [OF fr ok1]])
  moreover have "w_names (drop_writer E rep' w2) q = w_names w q" if "q \<in> old_names w p" for q
  proof -
    have "q \<noteq> tp'" using that out by auto
    then show ?thesis
      using drop_writer_fields(6) [of rep' q E w2] tmp frameD(1) [OF fr] f1 by simp
  qed
  moreover have "kept w (drop_writer E rep' w2)"
    by (rule kept_drop [OF kept_frame [OF kept_created [OF c] fr]]) simp
  ultimately show ?thesis
    using frameD(2) [OF fr] f1 by (simp add: not_replaced_def drop_writer_fields(1))
qed

lemma copy_refused:
  assumes f: "w_open w (cr_file r) = Some f" and "\<not> wr_allow_raw_writes ow" and "remaining r \<noteq> 0"
    and "of_pos f < length (w_data w (of_inode f))"
  shows "\<exists>k r' w'. copy_content E n (r, ow, w) = (Err k, (r', ow, w')) \<and> frame {cr_file r} {} w w'"
proof -
  obtain d r' w' where rd: "content_read E 8192 (r, w) = (d, (r', w'))" by (metis prod.collapse)
  note spec = wp_run [OF content_read_wp [OF f] rd]
  show ?thesis
    using spec rd assms
    by (cases d) (auto simp: copy_content.simps [of E n r] writer_write_all_refused)
qed

text \<open>The copy into a writer just created, from a handle at the start of the content.\<close>

lemma transplant_copy_wp:
  assumes ok: "world_ok w" and f: "w_open w fd = Some f" and c: "created E p opts w rep w1 tp'"
    and fr: "frame {fd} {} w1 w2" and o2: "w_open w2 fd = Some (f\<lparr>of_pos := start\<rparr>)"
    and content: "drop start (w_data w (of_inode f)) = content" and len: "unat len = length content"
  shows "wp (copy_content E 0)
     (\<lambda>_ x. (\<exists>l. replaced E p opts content w (fst (snd x)) (snd (snd x)) tp' l) \<and> others_kept (w_next w) fd w (snd (snd x)))
     (\<lambda>e x. let w' = drop_writer E (fst (snd x)) (snd (snd x))
        in not_replaced p w w' \<and> \<not> replaceable E p opts (length content) w \<and> others_kept (w_next w) fd w w')
     (\<lparr>cr_file = fd, remaining = len\<rparr>, rep, w2)"
  (is "wp _ ?Q ?R (?r, rep, w2)")
proof -
  have "of_inode f < w_next w" "fd < w_next_fd w" using ok f unfolding world_ok_def by blast+
  then have old: "of_inode f \<noteq> w_next w" "fd \<noteq> w_next_fd w" by simp_all
  from c obtain l where l: "compute (co_layout opts) (metadata_size E (co_metadata opts)) (tag_block_size (co_tags opts)) = Ok l"
    and rep: "rep = fresh_writer E p opts l tp' (w_next_fd w)"
    by (auto simp: created_def)
  from c have at1: "writer_at rep w1 tp' (w_next w) []" and ok1: "world_ok w1"
    and f1: "w_data w1 (of_inode f) = w_data w (of_inode f)" "w_dirs w1 = w_dirs w" "w_names w1 = (w_names w)(tp' \<mapsto> w_next w)"
    and tp': "w_names w tp' = None" "tp' \<noteq> p" "quiet (- {tp'}) w w1" "temporary tp'"
    using f old by (auto simp: created_def)
  have only: "\<forall>q. w_names w1 q = Some (w_next w) \<longrightarrow> q = tp'" using at1 by (simp add: writer_at_def)
  have repf: "wr_file rep = w_next_fd w" "wr_temp_path rep = Some tp'"
    "wr_layout rep = l" "wr_allow_raw_writes rep = (co_compression opts = NoCompression)"
    by (simp_all add: rep fresh_writer_def)
  have at2: "writer_at rep w2 tp' (w_next w) []"
    by (rule writer_at_frame [OF fr _ _ at1]) (use old repf in auto)
  have d2: "w_data w2 (of_inode f) = w_data w (of_inode f)" using frameD(6) [OF fr] f1 by simp
  have others: "others_kept (w_next w) fd w w3" if "frame {fd, w_next_fd w} {w_next w} w1 w3" for w3
    by (rule others_kept_frame [OF others_kept_created [OF c] that]) auto
  have failed: "?R e (r3, rep3, w3)"
    if "frame {fd, w_next_fd w} {w_next w} w1 w3" "wr_temp_path rep3 = Some tp'" "\<not> replaceable E p opts (length content) w" for e r3 rep3 w3
    using abandoned_replacement [OF c that(1,2)] others_kept_drop [OF others [OF that(1)]] that(3) by (simp add: Let_def)
  show ?thesis
  proof (cases "wr_allow_raw_writes rep \<or> len = 0")
    case raw: True
    have taken: "take (unat len) (drop start (w_data w2 (of_inode f))) = content"
      using content by (simp add: d2 len)
    have fr3: "frame {fd, w_next_fd w} {w_next w} w1 w3" if "frame {fd, w_next_fd w} {w_next w} w2 w3" for w3
      by (rule frame_trans [OF frame_mono [OF fr] that]) auto
    show ?thesis
    proof (rule wp_conseq [OF copy_content_wp [where r = ?r and f = "f\<lparr>of_pos := start\<rparr>", OF at2]], goal_cases)
      case (5 n x)
      then obtain r3 rep3 w3 where x: "x = (r3, rep3, w3)" and fr3': "frame {fd, w_next_fd w} {w_next w} w1 w3"
        and same: "same_writer rep rep3" and at3: "writer_at rep3 w3 tp' (w_next w) content"
        using fr3 taken repf(1) by (cases x) auto
      have "quiet (- {tp'}) w w3"
        by (rule quiet_trans [OF tp'(3) frame_quiet [OF fr3']]) (use only in auto)
      moreover have "kept w w3" by (rule kept_frame [OF kept_created [OF c] fr3']) simp
      ultimately have "replaced E p opts content w rep3 w3 tp' l"
        using same at3 tp' f1 l frameD(1,2) [OF fr3'] world_ok_frame [OF fr3' ok1] raw repf(4) len
        by (auto simp: replaced_def rep)
      then show ?case using others [OF fr3'] by (auto simp: x)
    next
      case (6 e x)
      then show ?case
        using fr3 failed [of "snd (snd x)" "fst (snd x)"] l repf len by (cases x) (auto simp: replaceable_def)
    qed (use o2 old repf raw taken len in auto)
  next
    case False
    then have not_empty: "length content \<noteq> 0" using len by (auto simp: unat_eq_0)
    have no: "\<not> replaceable E p opts (length content) w" using False repf not_empty by (simp add: replaceable_def)
    have "start < length (w_data w2 (of_inode f))"
      using not_empty content by (metis d2 drop_all length_0_conv not_le)
    then obtain k r3 w3 where "copy_content E 0 (?r, rep, w2) = (Err k, (r3, rep, w3))" and "frame {fd} {} w2 w3"
      using copy_refused [of w2 ?r "f\<lparr>of_pos := start\<rparr>" rep E 0] False o2 by auto
    moreover from this(2) have "frame {fd, w_next_fd w} {w_next w} w1 w3"
      by (rule frame_mono [OF frame_trans [OF fr]]) auto
    ultimately show ?thesis using failed [OF _ repf(2) no] by (simp add: wp_def)
  qed
qed

lemma transplant_wp:
  assumes ok: "world_ok w" and f: "w_open w fd = Some f" and start: "start \<le> max_offset"
    and content: "drop start (w_data w (of_inode f)) = content" and len: "unat len = length content"
  shows "wp (transplant E p opts fd start len)
     (\<lambda>rep w'. (\<exists>tp' l. replaced E p opts content w rep w' tp' l) \<and> others_kept (w_next w) fd w w')
     (\<lambda>e w'. not_replaced p w w' \<and> \<not> replaceable E p opts (length content) w
        \<and> others_kept (w_next w) fd w w') w"
  (is "wp _ ?Q ?R w")
  unfolding transplant_def
proof (rule wp_bind_spec [OF create_writer_wp [OF ok]], goal_cases)
  case (1 rep w1)
  then obtain tp' where c: "created E p opts w rep w1 tp'" by blast
  have f1: "w_open w1 fd = Some f" using c f ok unfolding created_def world_ok_def by fastforce
  have tmp: "wr_temp_path rep = Some tp'" using c by (auto simp: created_def fresh_writer_def)
  obtain a w2 where seek: "sys_seek E fd start w1 = (a, w2)" by (metis surj_pair)
  note spec = wp_run [OF sys_seek_wp [OF f1] seek]
  show ?case
  proof (cases a)
    case (Ok u)
    with spec have fr: "frame {fd} {} w1 w2" and o2: "w_open w2 fd = Some (f\<lparr>of_pos := start\<rparr>)" by auto
    obtain b r3 rep3 w3 where copy: "copy_content E 0 (\<lparr>cr_file = fd, remaining = len\<rparr>, rep, w2) = (b, (r3, rep3, w3))"
      by (metis prod.collapse)
    show ?thesis
      using wp_run [OF transplant_copy_wp [OF ok f c fr o2 content len] copy] seek copy Ok
      by (cases b) (auto simp: wp_def Let_def)
  next
    case (Err k)
    with spec have fr: "frame {} {} w1 w2" and no: "\<not> reliable E" using start by auto
    have "frame {} {w_next w} w1 w2" by (rule frame_mono [OF fr]) auto
    from abandoned_replacement [OF c this tmp] others_kept_drop [OF others_kept_frame [OF others_kept_created [OF c] this]] show ?thesis
      using seek Err no by (simp add: wp_def replaceable_def)
  next
    case Panic
    with spec show ?thesis by simp
  qed
next
  case (2 e w')
  then have n: "not_created E p w w'" and no: "\<not> replaceable E p opts (length content) w"
    by (auto simp: replaceable_def is_supported_def)
  have "kept w w'" using n by (simp add: not_created_def kept_def)
  moreover have "others_kept (w_next w) fd w w'" using n by (auto simp: not_created_def others_kept_def intro: names_within_mono [of "{w_next w}"])
  ultimately show ?case using n no by (simp add: not_created_def not_replaced_def)
qed

section \<open>Finishing\<close>

text \<open>
  A file that holds the sections and the content of a writer, whatever layout it was given; and what
  every finish leaves alone: all names there were except the destination and the temporary one.
\<close>

definition complete_object :: "'hn env \<Rightarrow> 'hn object_writer \<Rightarrow> u8 list \<Rightarrow> u8 list \<Rightarrow> bool" where
  "complete_object E ow content d \<longleftrightarrow>
     (\<exists>h. holds_object E d h (wr_metadata ow) (wr_tags ow) content \<and> compression_type h = wr_compression ow)"

definition finish_frame :: "'hn env \<Rightarrow> 'hn object_writer \<Rightarrow> path \<Rightarrow> u8 list \<Rightarrow> world \<Rightarrow> world \<Rightarrow> bool" where
  "finish_frame E ow tp content w w' \<longleftrightarrow>
     atomic_update (wr_final_path ow) (complete_object E ow content) w w' \<and>
     quiet (old_names w (wr_final_path ow) - {wr_final_path ow, tp}) w w' \<and> world_ok w' \<and> w_dirs w' = w_dirs w \<and>
     (\<forall>q \<in> old_names w (wr_final_path ow) - {wr_final_path ow, tp}. w_names w' q = w_names w q)"

text \<open>The object a finish returns: an open handle to the file the destination now names.\<close>

definition finished_object :: "'hn env \<Rightarrow> 'hn object_writer \<Rightarrow> u8 list \<Rightarrow> 'hn tux_object \<Rightarrow> world \<Rightarrow> bool" where
  "finished_object E ow content ob w' \<longleftrightarrow>
     object_at E ob w' (wr_tags ow) content \<and> ob_path ob = wr_final_path ow \<and> ob_metadata ob = wr_metadata ow \<and>
     ob_writable ob \<and> compression_type (ob_header ob) = wr_compression ow \<and>
     (\<exists>f. w_open w' (ob_file ob) = Some f \<and> of_writable f \<and> w_names w' (wr_final_path ow) = Some (of_inode f))"

lemma new_object_complete: "new_object E ow l content d \<Longrightarrow> complete_object E ow content d"
  unfolding new_object_def complete_object_def
  by (rule exI [of _ "finish_header ow l"]) (simp add: finish_header_def build_header_def)

lemma atomic_mono: "atomic_update p P w w' \<Longrightarrow> (\<And>d. P d \<Longrightarrow> Q d) \<Longrightarrow> atomic_update p Q w w'"
  unfolding atomic_update_def by (blast intro: shown_mono)

text \<open>The path a finish takes is fixed by the sizes of the sections alone.\<close>

lemma finish_fits_wp:
  assumes H: "header_name_ok (header_names E)" and ok: "world_ok w" and at: "writer_at ow w tp i content"
    and secs: "sections_ok (wr_metadata ow) (wr_tags ow)" and fit: "finish_layout E ow = Ok (Some l)"
  shows "wp (finish E ow)
     (\<lambda>ob w'. settled (wr_final_path ow) tp i (wr_file ow) w w' \<and> w_names w' tp = None
        \<and> atomic_update (wr_final_path ow) (complete_object E ow content) w w'
        \<and> finished_object E ow content ob w' \<and> h_content_start (ob_header ob) = content_start (wr_layout ow)
        \<and> ob_file ob = wr_file ow \<and> ob_header ob = finish_header ow l \<and> w_names w' (wr_final_path ow) = Some i)
     (\<lambda>e w'. settled (wr_final_path ow) tp i (wr_file ow) w w'
        \<and> atomic_update (wr_final_path ow) (complete_object E ow content) w w' \<and> e \<noteq> None
        \<and> (reliable E \<longrightarrow> wr_final_path ow \<in> set (w_dirs w))) w"
proof -
  have run: "finish E ow w = consume E (finish_in_place E l) ow w"
    by (simp add: finish.simps [of E ow w] fit)
  note l = repartition_Some(1,2) [OF fit [unfolded finish_layout_def]]
  have "wp (consume E (finish_in_place E l) ow)
     (\<lambda>ob w'. settled (wr_final_path ow) tp i (wr_file ow) w w' \<and> w_names w' tp = None
        \<and> atomic_update (wr_final_path ow) (complete_object E ow content) w w'
        \<and> finished_object E ow content ob w' \<and> h_content_start (ob_header ob) = content_start (wr_layout ow)
        \<and> ob_file ob = wr_file ow \<and> ob_header ob = finish_header ow l \<and> w_names w' (wr_final_path ow) = Some i)
     (\<lambda>e w'. settled (wr_final_path ow) tp i (wr_file ow) w w'
        \<and> atomic_update (wr_final_path ow) (complete_object E ow content) w w' \<and> e \<noteq> None
        \<and> (reliable E \<longrightarrow> wr_final_path ow \<in> set (w_dirs w))) w"
  proof (rule wp_conseq [OF finish_in_place_wp [OF H ok at secs l]], goal_cases)
    case (1 ob w')
    moreover from this have "finished_object E ow content ob w'"
      by (auto simp: finished_object_def object_at_def from_parts_def new_object_def
          finish_header_def build_header_def)
    moreover from 1 l(2) have "h_content_start (ob_header ob) = content_start (wr_layout ow)" "ob_file ob = wr_file ow"
      "ob_header ob = finish_header ow l" by (auto simp: from_parts_def finish_header_def build_header_def)
    ultimately show ?case by (blast intro: atomic_mono new_object_complete)
  next
    case (2 e w')
    then show ?case by (blast intro: atomic_mono new_object_complete)
  qed
  then show ?thesis unfolding wp_def run .
qed

text \<open>Sections that cannot be encoded are refused before the file is touched again, which removes it.\<close>

lemma finish_refused:
  assumes ok: "world_ok w" and at: "writer_at ow w tp i content" and fit: "finish_layout E ow = Ok (Some l)"
    and typed: "sections_typed (wr_metadata ow) (wr_tags ow)" and bad: "\<not> sections_ok (wr_metadata ow) (wr_tags ow)"
  shows "wp (finish E ow) (\<lambda>_ _. False)
     (\<lambda>e w'. settled (wr_final_path ow) tp i (wr_file ow) w w'
        \<and> atomic_update (wr_final_path ow) (complete_object E ow content) w w' \<and> e \<noteq> None) w"
proof -
  let ?ow = "ow\<lparr>wr_layout := l\<rparr>"
  from at have tmp: "wr_temp_path ow = Some tp" "tp \<noteq> wr_final_path ow"
    and only: "\<forall>q. w_names w q = Some i \<longrightarrow> q = tp" by (simp_all add: writer_at_def)
  have "encode_prefix E (finish_header ow l) (wr_metadata ow) (wr_tags ow) l \<noteq> Ok bs" for bs
    using encode_prefix_limits [OF typed] bad by blast
  moreover have "encode_prefix E (finish_header ow l) (wr_metadata ow) (wr_tags ow) l \<noteq> Panic"
    by (rule encode_prefix_not_Panic [OF repartition_Some(1) [OF fit [unfolded finish_layout_def]]])
  ultimately obtain e where e: "encode_prefix E (finish_header ow l) (wr_metadata ow) (wr_tags ow) l = Err e"
    by (metis res.exhaust)
  have "finish E ow w = (Err e, drop_writer E ?ow w)"
    using e fit
    by (simp add: finish.simps [of E ow w] consume_def finish_in_place_eq with_self_def Let_def st_bind_def put_self_def
        st_lift_def finish_header_def)
  moreover have un: "settled (wr_final_path ow) tp i (wr_file ow) w (drop_writer E ?ow w)" "quiet (- {tp}) w (drop_writer E ?ow w)"
    by (rule unpublished [OF ok _ _ only]; simp add: tmp)+
  moreover have "atomic_update (wr_final_path ow) (complete_object E ow content) w (drop_writer E ?ow w)"
    by (rule quiet_atomic [OF quiet_mono [OF un(2)]]) (use tmp(2) in simp)
  ultimately show ?thesis by (simp add: wp_def)
qed

lemma finish_fits_typed_wp:
  assumes H: "header_name_ok (header_names E)" and ok: "world_ok w" and at: "writer_at ow w tp i content"
    and typed: "sections_typed (wr_metadata ow) (wr_tags ow)" and fit: "finish_layout E ow = Ok (Some l)"
  shows "wp (finish E ow)
     (\<lambda>ob w'. settled (wr_final_path ow) tp i (wr_file ow) w w' \<and> w_names w' tp = None
        \<and> atomic_update (wr_final_path ow) (complete_object E ow content) w w'
        \<and> finished_object E ow content ob w' \<and> h_content_start (ob_header ob) = content_start (wr_layout ow)
        \<and> ob_file ob = wr_file ow \<and> ob_header ob = finish_header ow l \<and> w_names w' (wr_final_path ow) = Some i)
     (\<lambda>e w'. settled (wr_final_path ow) tp i (wr_file ow) w w'
        \<and> atomic_update (wr_final_path ow) (complete_object E ow content) w w' \<and> e \<noteq> None
        \<and> (reliable E \<and> sections_ok (wr_metadata ow) (wr_tags ow) \<longrightarrow> wr_final_path ow \<in> set (w_dirs w))) w"
proof (cases "sections_ok (wr_metadata ow) (wr_tags ow)")
  case True
  show ?thesis by (rule wp_conseq [OF finish_fits_wp [OF H ok at True fit]]) blast+
next
  case False
  then show ?thesis by (intro wp_conseq [OF finish_refused [OF ok at fit typed]]) simp_all
qed

lemma settled_view: "settled p tp i fd w w' \<Longrightarrow> q \<noteq> p \<Longrightarrow> q \<noteq> tp \<Longrightarrow> view_of w' q = view_of w q"
  by (simp add: settled_def quiet_def)

lemma settled_frame:
  assumes "settled (wr_final_path ow) tp i fd w w'" and "atomic_update (wr_final_path ow) (complete_object E ow content) w w'"
  shows "finish_frame E ow tp content w w'"
proof -
  have "quiet (- {wr_final_path ow, tp}) w w'" using assms(1) by (simp add: settled_def)
  then have "quiet (old_names w (wr_final_path ow) - {wr_final_path ow, tp}) w w'"
    by (rule quiet_mono) blast
  with assms show ?thesis by (simp add: finish_frame_def settled_def)
qed

text \<open>When a reliable environment finishes a writer.\<close>

definition finishable :: "'hn env \<Rightarrow> 'hn object_writer \<Rightarrow> nat \<Rightarrow> world \<Rightarrow> bool" where
  "finishable E ow n w \<longleftrightarrow> reliable E \<and> wr_final_path ow \<notin> set (w_dirs w) \<and>
     (case finish_layout E ow of Ok (Some l) \<Rightarrow> True | Ok None \<Rightarrow> replaceable E (wr_final_path ow) (rewrite_options ow) n w | _ \<Rightarrow> False)"

lemma same_complete:
  assumes "same_writer (fresh_writer E (wr_final_path ow) (rewrite_options ow) l tp fd) rep"
  shows "wr_final_path rep = wr_final_path ow" "wr_metadata rep = wr_metadata ow" "wr_tags rep = wr_tags ow"
    "complete_object E rep = complete_object E ow" "wr_file rep = fd"
    "finished_object E rep content ob w' = finished_object E ow content ob w'"
  using same_writerD [OF assms]
  by (simp_all add: fresh_writer_def rewrite_options_def complete_object_def finished_object_def fun_eq_iff)

text \<open>A replacement that took over the content and was published.\<close>

lemma replaced_settled:
  assumes r: "replaced E p opts content w rep w1 tp' l" and st: "settled p tp' (w_next w) (w_next_fd w) w1 w2"
    and au: "atomic_update p P w1 w2"
  shows "atomic_update p P w w2" and "quiet (old_names w p - {p}) w w2" and "world_ok w2" and "w_dirs w2 = w_dirs w"
    and "\<forall>q \<in> old_names w p - {p}. w_names w2 q = w_names w q"
    and "w_names w2 tp' = None \<Longrightarrow> q \<noteq> p \<Longrightarrow> view_of w2 q = view_of w q"
proof -
  from r have tp': "w_names w tp' = None" "tp' \<noteq> p" "temporary tp'" and q1: "quiet (- {tp'}) w w1"
    and f1: "w_dirs w1 = w_dirs w" "w_names w1 = (w_names w)(tp' \<mapsto> w_next w)"
    by (simp_all add: replaced_def)
  have out: "tp' \<notin> old_names w p" using tp' by (simp add: old_names_def)
  show "atomic_update p P w w2"
    by (rule atomic_trans [OF quiet_atomic [OF quiet_mono [OF q1]] au]) (use tp' in auto)
  show "quiet (old_names w p - {p}) w w2"
    by (rule quiet_trans [OF quiet_mono [OF q1] quiet_mono]) (use st out in \<open>auto simp: settled_def\<close>)
  show "world_ok w2" "w_dirs w2 = w_dirs w" using st f1 by (simp_all add: settled_def)
  show "\<forall>q \<in> old_names w p - {p}. w_names w2 q = w_names w q"
  proof
    fix q
    assume "q \<in> old_names w p - {p}"
    then have "q \<noteq> p" "q \<noteq> tp'" using out by auto
    then show "w_names w2 q = w_names w q" using st f1(2) by (simp add: settled_def)
  qed
  show "view_of w2 q = view_of w q" if "w_names w2 tp' = None" "q \<noteq> p"
  proof (cases "q = tp'")
    case True
    then show ?thesis using that(1) tp'(1) by (simp add: view_of_def)
  next
    case False
    then show ?thesis using settled_view [OF st that(2)] q1 by (simp add: quiet_def)
  qed
qed

text \<open>The frame of a finish, when the writer that is finished has been dropped.\<close>

lemma dropped_frame:
  assumes au: "atomic_update (wr_final_path ow) (complete_object E ow content) w w'"
    and q: "quiet (old_names w (wr_final_path ow) - {wr_final_path ow}) w w'"
    and ok: "world_ok w'" "w_dirs w' = w_dirs w" and names: "\<forall>q \<in> old_names w (wr_final_path ow) - {wr_final_path ow}. w_names w' q = w_names w q"
    and tp: "wr_temp_path ow' = Some tp" "tp \<noteq> wr_final_path ow"
  shows "finish_frame E ow tp content w (drop_writer E ow' w')"
proof -
  let ?p = "wr_final_path ow"
  have d: "quiet (- {tp}) w' (drop_writer E ow' w')" by (rule drop_writer_quiet) (simp add: tp)
  have "atomic_update ?p (complete_object E ow content) w (drop_writer E ow' w')"
    by (rule atomic_trans [OF au quiet_atomic [OF quiet_mono [OF d]]]) (use tp in simp)
  moreover have "quiet (old_names w ?p - {?p, tp}) w (drop_writer E ow' w')"
    by (rule quiet_trans [OF quiet_mono [OF q] quiet_mono [OF d]]) auto
  moreover have "\<forall>q \<in> old_names w ?p - {?p, tp}. w_names (drop_writer E ow' w') q = w_names w q"
  proof
    fix q
    assume "q \<in> old_names w ?p - {?p, tp}"
    then show "w_names (drop_writer E ow' w') q = w_names w q"
      using names tp(1) drop_writer_fields(6) [of ow' q E w'] by auto
  qed
  ultimately show ?thesis
    using ok by (simp add: finish_frame_def world_ok_drop drop_writer_fields(1))
qed

lemma dropped_unreplaced:
  assumes "not_replaced (wr_final_path ow) w w'" and "wr_temp_path ow' = Some tp" and "tp \<noteq> wr_final_path ow"
  shows "finish_frame E ow tp content w (drop_writer E ow' w')"
proof (rule dropped_frame [OF _ _ _ _ _ assms(2,3)])
  have q: "quiet (old_names w (wr_final_path ow)) w w'" using assms(1) by (simp add: not_replaced_def)
  show "atomic_update (wr_final_path ow) (complete_object E ow content) w w'"
    by (rule quiet_atomic [OF quiet_mono [OF q]]) (simp add: old_names_def)
  show "quiet (old_names w (wr_final_path ow) - {wr_final_path ow}) w w'" by (rule quiet_mono [OF q]) blast
qed (use assms(1) in \<open>simp_all add: not_replaced_def\<close>)

text \<open>Finishing by rewriting, the replacement made.\<close>

lemma finish_replaced_wp:
  assumes H: "header_name_ok (header_names E)" and at: "writer_at ow w tp i content"
    and typed: "sections_typed (wr_metadata ow) (wr_tags ow)" and moves: "finish_layout E ow = Ok None"
    and start: "start_rewrite E ow w = (Ok rep, w1)"
    and r: "replaced E (wr_final_path ow) (rewrite_options ow) content w rep w1 tp' l"
    and k: "others_kept (w_next w) (wr_file ow) w w1"
  shows "wp (finish E ow)
     (\<lambda>ob w'. finish_frame E ow tp content w w' \<and> finished_object E ow content ob w'
        \<and> others_kept i (wr_file ow) w w' \<and> (\<forall>q. q \<noteq> wr_final_path ow \<longrightarrow> q \<noteq> tp \<longrightarrow> view_of w' q = view_of w q)
        \<and> (reliable E \<longrightarrow> w_names w' tp = None) \<and> ob_file ob = w_next_fd w)
     (\<lambda>e w'. finish_frame E ow tp content w w'
        \<and> (sections_ok (wr_metadata ow) (wr_tags ow) \<longrightarrow> \<not> finishable E ow (length content) w)
        \<and> others_kept i (wr_file ow) w w') w"
proof -
  let ?p = "wr_final_path ow" and ?drop = "drop_writer E (empty_sections ow)"
  from at have tmp: "wr_temp_path ow = Some tp" "tp \<noteq> ?p" by (simp_all add: writer_at_def)
  have tmp': "wr_temp_path (empty_sections ow) = Some tp" by (simp add: empty_sections_def tmp)
  from r have same: "same_writer (fresh_writer E ?p (rewrite_options ow) l tp' (w_next_fd w)) rep"
    and at1: "writer_at rep w1 tp' (w_next w) content" and ok1: "world_ok w1" and d1: "w_dirs w1 = w_dirs w"
    by (simp_all add: replaced_def)
  note same' = same_complete [OF same]
  obtain l' where fit: "finish_layout E rep = Ok (Some l')" using start_rewrite_fits [OF start] by blast
  have typed': "sections_typed (wr_metadata rep) (wr_tags rep)" using typed same' by simp
  have run: "finish E ow w = (b, ?drop w2)" if "finish E rep w1 = (b, w2)" for b w2
    by (simp add: finish.simps [of E ow w] moves start that)
  have after: "finish_frame E ow tp content w (?drop w2) \<and> others_kept i (wr_file ow) w (?drop w2)"
    if "settled ?p tp' (w_next w) (w_next_fd w) w1 w2" "atomic_update ?p (complete_object E ow content) w1 w2" for w2
  proof
    note rs = replaced_settled [OF r that]
    show "finish_frame E ow tp content w (?drop w2)" by (rule dropped_frame [OF rs(1-5) tmp' tmp(2)])
    have "others_kept i (wr_file ow) w w1" using k by (auto simp: others_kept_def names_within_def)
    then show "others_kept i (wr_file ow) w (?drop w2)"
      by (rule others_kept_drop [OF others_kept_trans_settled [OF _ that(1)]]) simp_all
  qed
  have complete: "finished_object E ow content ob (?drop w2)" if "finished_object E ow content ob w2" for ob w2
    using that drop_writer_fields(6) [of "empty_sections ow" ?p E w2] tmp tmp'
    by (auto simp: finished_object_def object_at_def drop_writer_fields(2,3))
  have view: "view_of (?drop w2) q = view_of w2 q" if "q \<noteq> tp" for w2 q
    using drop_writer_quiet [where ow = "empty_sections ow" and N = "{q}" and E = E and w = w2] tmp' that by (simp add: quiet_def)
  obtain b w2 where fin: "finish E rep w1 = (b, w2)" by (metis surj_pair)
  note spec = wp_run [OF finish_fits_typed_wp [OF H ok1 at1 typed' fit] fin, unfolded same']
  then have "settled ?p tp' (w_next w) (w_next_fd w) w1 w2" "atomic_update ?p (complete_object E ow content) w1 w2"
    by (cases b; simp)+
  note after' = after [OF this] and rs = replaced_settled(6) [OF r this]
  show ?thesis
  proof (cases b)
    case (Ok ob)
    have "w_names (?drop w2) tp = None" if "reliable E"
      by (rule drop_writer_removes [OF that tmp'])
    then show ?thesis using spec Ok after' run [OF fin] complete rs view by (simp add: wp_def)
  next
    case (Err e)
    with spec d1 show ?thesis using after' run [OF fin] by (auto simp: wp_def finishable_def)
  next
    case Panic
    with spec show ?thesis by simp
  qed
qed

lemma finish_typed_wp:
  assumes H: "header_name_ok (header_names E)" and ok: "world_ok w" and at: "writer_at ow w tp i content"
    and typed: "sections_typed (wr_metadata ow) (wr_tags ow)"
  shows "wp (finish E ow)
     (\<lambda>ob w'. finish_frame E ow tp content w w' \<and> finished_object E ow content ob w'
        \<and> others_kept i (wr_file ow) w w' \<and> (\<forall>q. q \<noteq> wr_final_path ow \<longrightarrow> q \<noteq> tp \<longrightarrow> view_of w' q = view_of w q)
        \<and> (reliable E \<longrightarrow> w_names w' tp = None) \<and> ob_file ob \<in> {wr_file ow, w_next_fd w}
        \<and> (finish_layout E ow = Ok None \<longrightarrow> wr_compression ow = NoCompression \<or> content = []))
     (\<lambda>e w'. finish_frame E ow tp content w w'
        \<and> (sections_ok (wr_metadata ow) (wr_tags ow) \<longrightarrow> \<not> finishable E ow (length content) w)
        \<and> others_kept i (wr_file ow) w w') w"
  (is "wp _ ?Q ?R w")
proof -
  let ?p = "wr_final_path ow" and ?drop = "drop_writer E (empty_sections ow)"
  from at have tmp: "wr_temp_path ow = Some tp" "tp \<noteq> ?p" by (simp_all add: writer_at_def)
  have tmp': "wr_temp_path (empty_sections ow) = Some tp" by (simp add: empty_sections_def tmp)
  consider (fits) l where "finish_layout E ow = Ok (Some l)" | (moves) "finish_layout E ow = Ok None"
    | (stops) "finish_layout E ow = Panic"
    by (metis finish_layout_def option.exhaust repartition_not_Err res.exhaust)
  then show ?thesis
  proof cases
    case (fits l)
    show ?thesis
      by (rule wp_conseq [OF finish_fits_typed_wp [OF H ok at typed fits]])
         (auto simp: finishable_def fits intro: settled_frame others_kept_settled settled_view)
  next
    case stops
    then have "finish E ow w = (Panic, drop_writer E ow w)" by (simp add: finish.simps [of E ow w])
    moreover have "not_replaced ?p w w" using ok by (simp add: not_replaced_def)
    then have "finish_frame E ow tp content w (drop_writer E ow w)" by (rule dropped_unreplaced [OF _ tmp])
    moreover have "others_kept i (wr_file ow) w (drop_writer E ow w)" by (rule others_kept_drop [OF others_kept_refl])
    ultimately show ?thesis using stops by (simp add: wp_def finishable_def)
  next
    case moves
    obtain a w1 where start: "start_rewrite E ow w = (a, w1)" by (metis surj_pair)
    obtain f where f: "w_open w (wr_file ow) = Some f" "of_inode f = i" using writer_atD(3) [OF at] by blast
    have content: "drop (unat (content_start (wr_layout ow))) (w_data w (of_inode f)) = content"
      unfolding f(2) by (rule stored_content_drop [OF writer_atD(1) [OF at]])
    note spec = wp_run [OF transplant_wp [OF ok f(1) u32_below_max content writer_atD(2) [OF at]] start [unfolded start_rewrite_transplant]]
    show ?thesis
    proof (cases "\<exists>rep. a = Ok rep")
      case True
      then obtain rep where a: "a = Ok rep" ..
      with spec obtain tp' l where r: "replaced E ?p (rewrite_options ow) content w rep w1 tp' l"
        and k: "others_kept (w_next w) (wr_file ow) w w1" by auto
      then have "wr_compression ow = NoCompression \<or> content = []" by (simp add: replaced_def rewrite_options_def)
      then show ?thesis
        by (intro wp_conseq [OF finish_replaced_wp [OF H at typed moves start [unfolded a] r k]]) auto
    next
      case False
      with spec have no: "not_replaced ?p w w1" "\<not> replaceable E ?p (rewrite_options ow) (length content) w"
        and k: "others_kept (w_next w) (wr_file ow) w w1" by (cases a; simp)+
      have "others_kept i (wr_file ow) w (?drop w1)"
        by (rule others_kept_drop) (use k in \<open>auto simp: others_kept_def names_within_def\<close>)
      moreover have "finish_frame E ow tp content w (?drop w1)" by (rule dropped_unreplaced [OF no(1) tmp' tmp(2)])
      ultimately show ?thesis
        using False no(2) moves by (cases a) (simp_all add: wp_def finishable_def finish.simps [of E ow w] start)
    qed
  qed
qed

lemma finish_wp:
  assumes H: "header_name_ok (header_names E)" and ok: "world_ok w" and at: "writer_at ow w tp i content"
    and secs: "sections_ok (wr_metadata ow) (wr_tags ow)"
  shows "wp (finish E ow)
     (\<lambda>ob w'. finish_frame E ow tp content w w' \<and> finished_object E ow content ob w'
        \<and> others_kept i (wr_file ow) w w' \<and> (\<forall>q. q \<noteq> wr_final_path ow \<longrightarrow> q \<noteq> tp \<longrightarrow> view_of w' q = view_of w q)
        \<and> (reliable E \<longrightarrow> w_names w' tp = None) \<and> ob_file ob \<in> {wr_file ow, w_next_fd w}
        \<and> (finish_layout E ow = Ok None \<longrightarrow> wr_compression ow = NoCompression \<or> content = []))
     (\<lambda>e w'. finish_frame E ow tp content w w' \<and> \<not> finishable E ow (length content) w
        \<and> others_kept i (wr_file ow) w w') w"
  by (rule wp_conseq [OF finish_typed_wp [OF H ok at sections_ok_typed [OF secs]]]) (use secs in simp_all)

end
