(* ===== verification/Updates.thy ===== *)
theory Updates
  imports Lifecycle
begin

text \<open>
  The rewriting updates of \<open>src/src/fs/object.rs\<close>: a new version of the object is written to a
  temporary file behind the same content and renamed into place. An object that was updated names
  the new file; an object whose update failed is still the old one.
\<close>

section \<open>Operations\<close>

definition rewrite_create_options :: "'hn tux_object \<Rightarrow> 'hn tags \<Rightarrow> u8 list tags \<Rightarrow> 'hn create_options" where
  "rewrite_create_options ob metadata t =
     \<lparr>co_metadata = metadata, co_tags = t,
      co_layout = layout_default\<lparr>min_content_start := h_content_start (ob_header ob)\<rparr>,
      co_compression = compression_type (ob_header ob), co_sync = True\<rparr>"

text \<open>
  The writer is a local of the method: it is dropped when reading or copying fails, and consumed by
  its \<open>finish\<close> otherwise.
\<close>

definition rewrite :: "'hn env \<Rightarrow> 'hn tags \<Rightarrow> u8 list tags \<Rightarrow> ('hn, unit) object_method" where
  "rewrite E metadata t = with_self (\<lambda>ob.
     st_bind (st_lift (ensure_writable ob)) (\<lambda>_.
     st_bind (on_world (create_writer E (ob_path ob) (rewrite_create_options ob metadata t))) (\<lambda>writer s.
       case stored_content_reader E s of
         (Err e, (ob, w)) \<Rightarrow> (Err e, (ob, drop_writer E writer w))
       | (Panic, (ob, w)) \<Rightarrow> (Panic, (ob, drop_writer E writer w))
       | (Ok reader, (ob, w)) \<Rightarrow>
           (case copy_content E 0 (reader, writer, w) of
              (Err k, (_, writer, w)) \<Rightarrow> (Err (IO k), (ob, drop_writer E writer w))
            | (Panic, (_, writer, w)) \<Rightarrow> (Panic, (ob, drop_writer E writer w))
            | (Ok _, (_, writer, w)) \<Rightarrow>
                st_bind (on_world (finish E writer)) (\<lambda>replacement. put_self replacement) (ob, w)))))"

definition set_metadata :: "'hn env \<Rightarrow> 'hn tags \<Rightarrow> ('hn, unit) object_method" where
  "set_metadata E metadata = st_bind (object_read_tags E) (\<lambda>t. rewrite E metadata t)"

definition set_tags :: "'hn env \<Rightarrow> u8 list tags \<Rightarrow> ('hn, unit) object_method" where
  "set_tags E t = with_self (\<lambda>ob. rewrite E (ob_metadata ob) t)"

definition set_sections :: "'hn env \<Rightarrow> 'hn tags \<Rightarrow> u8 list tags \<Rightarrow> ('hn, unit) object_method" where
  "set_sections E metadata t = rewrite E metadata t"

definition modify_metadata :: "'hn env \<Rightarrow> ('hn tags \<Rightarrow> 'hn tags) \<Rightarrow> ('hn, unit) object_method" where
  "modify_metadata E f = with_self (\<lambda>ob. set_metadata E (f (ob_metadata ob)))"

section \<open>What a rewriting update does\<close>

lemma rewrite_transplant:
  "rewrite E metadata t (ob, w) =
     (if \<not> ob_writable ob then (Err (ReadOnly (ob_path ob)), (ob, w))
      else st_bind (on_world (transplant E (ob_path ob) (rewrite_create_options ob metadata t) (ob_file ob)
             (unat (h_content_start (ob_header ob))) (content_length (ob_header ob)))) (\<lambda>writer.
           st_bind (on_world (finish E writer)) put_self) (ob, w))"
  by (auto simp: rewrite_def with_self_def ensure_writable_def transplant_def stored_content_reader_def st_bind_def
      st_lift_def on_world_def io_def st_map_err_def put_self_def split: prod.splits res.splits)

text \<open>A file with given sections and content, compressed as given, under whatever layout.\<close>

definition version_of ::
  "'hn env \<Rightarrow> compression_types \<Rightarrow> 'hn tags \<Rightarrow> u8 list tags \<Rightarrow> u8 list \<Rightarrow> u8 list \<Rightarrow> bool" where
  "version_of E ct metadata t content d \<longleftrightarrow>
     (\<exists>h. holds_object E d h metadata t content \<and> compression_type h = ct)"

lemma complete_object_version:
  "complete_object E ow content = version_of E (wr_compression ow) (wr_metadata ow) (wr_tags ow) content"
  by (simp add: complete_object_def version_of_def fun_eq_iff)

text \<open>Whatever happens, only the path of the object shows anything new, and that is the new version.\<close>

definition update_frame ::
  "'hn env \<Rightarrow> 'hn tux_object \<Rightarrow> 'hn tags \<Rightarrow> u8 list tags \<Rightarrow> u8 list \<Rightarrow> world \<Rightarrow> world \<Rightarrow> bool" where
  "update_frame E ob metadata t content w w' \<longleftrightarrow>
     atomic_update (ob_path ob) (version_of E (compression_type (ob_header ob)) metadata t content) w w' \<and>
     quiet (old_names w (ob_path ob) - {ob_path ob}) w w' \<and> world_ok w' \<and> w_dirs w' = w_dirs w \<and>
     (\<forall>q \<in> old_names w (ob_path ob) - {ob_path ob}. w_names w' q = w_names w q)"

text \<open>The updated object: the new sections, the same content, which moves back only if it must.\<close>

definition updated_object ::
  "'hn env \<Rightarrow> 'hn tux_object \<Rightarrow> 'hn tags \<Rightarrow> u8 list tags \<Rightarrow> u8 list \<Rightarrow> 'hn tux_object \<Rightarrow> world \<Rightarrow> bool" where
  "updated_object E ob metadata t content ob' w' \<longleftrightarrow>
     object_at E ob' w' t content \<and> ob_path ob' = ob_path ob \<and> ob_metadata ob' = metadata \<and> ob_writable ob' \<and>
     compression_type (ob_header ob') = compression_type (ob_header ob) \<and>
     (\<exists>l. compute (co_layout (rewrite_create_options ob metadata t)) (metadata_size E metadata) (tag_block_size t) = Ok l
        \<and> h_content_start (ob_header ob') = content_start l) \<and>
     (\<exists>f. w_open w' (ob_file ob') = Some f \<and> of_writable f \<and> w_names w' (ob_path ob) = Some (of_inode f))"

lemma object_at_kept:
  assumes ok: "world_ok w" and "kept w w'" and "object_at E ob w t content"
  shows "object_at E ob w' t content"
proof -
  obtain f where f: "w_open w (ob_file ob) = Some f"
    "holds_object E (w_data w (of_inode f)) (ob_header ob) (ob_metadata ob) t content"
    using assms(3) by (auto simp: object_at_def)
  then have "of_inode f < w_next w" "ob_file ob < w_next_fd w" using ok unfolding world_ok_def by blast+
  then have "w_data w' (of_inode f) = w_data w (of_inode f)"
    and "map_option (\<lambda>f. (of_inode f, of_writable f)) (w_open w' (ob_file ob)) = Some (of_inode f, of_writable f)"
    using assms(2) f(1) by (simp_all add: kept_def)
  then show ?thesis using f(2) by (auto simp: object_at_def)
qed

text \<open>The replacement made: the finish publishes it, or leaves the object as it was.\<close>

lemma update_frame_settled:
  assumes r: "replaced E (ob_path ob) (rewrite_create_options ob metadata t) content w rep w1 tp l"
    and st: "settled (ob_path ob) tp (w_next w) (w_next_fd w) w1 w2"
    and au: "atomic_update (ob_path ob) (version_of E (compression_type (ob_header ob)) metadata t content) w1 w2"
  shows "update_frame E ob metadata t content w w2"
  using replaced_settled(1-5) [OF r st au] by (simp add: update_frame_def)

lemma finish_update_wp:
  assumes H: "header_name_ok (header_names E)" and typed: "sections_typed metadata t"
    and r: "replaced E (ob_path ob) (rewrite_create_options ob metadata t) content w rep w1 tp l"
    and k1: "others_kept (w_next w) (ob_file ob) w w1"
  shows "wp (finish E rep)
     (\<lambda>ob' w2. update_frame E ob metadata t content w w2 \<and> updated_object E ob metadata t content ob' w2
        \<and> (\<forall>q. q \<noteq> ob_path ob \<longrightarrow> view_of w2 q = view_of w q) \<and> (\<not> is_compressed ob \<or> content = [])
        \<and> others_kept (w_next w) (ob_file ob) w w2 \<and> ob_file ob' = w_next_fd w)
     (\<lambda>e w2. update_frame E ob metadata t content w w2
        \<and> others_kept (w_next w) (ob_file ob) w w2 \<and> kept w w2
        \<and> \<not> (sections_ok metadata t \<and> ob_path ob \<notin> set (w_dirs w)
             \<and> replaceable E (ob_path ob) (rewrite_create_options ob metadata t) (length content) w)) w1"
proof -
  let ?p = "ob_path ob" and ?opts = "rewrite_create_options ob metadata t" and ?ct = "compression_type (ob_header ob)"
  from r have l: "compute (co_layout ?opts) (metadata_size E metadata) (tag_block_size t) = Ok l"
    and same: "same_writer (fresh_writer E ?p ?opts l tp (w_next_fd w)) rep" and at1: "writer_at rep w1 tp (w_next w) content"
    and ok1: "world_ok w1" and d1: "w_dirs w1 = w_dirs w" and k: "kept w w1" and raw: "\<not> is_compressed ob \<or> content = []"
    by (auto simp: replaced_def is_compressed_def rewrite_create_options_def)
  have rep: "wr_final_path rep = ?p" "wr_metadata rep = metadata" "wr_tags rep = t" "wr_compression rep = ?ct"
    "wr_file rep = w_next_fd w" "wr_layout rep = l" "wr_layout_options rep = co_layout ?opts"
    using same_writerD [OF same] by (simp_all add: fresh_writer_def rewrite_create_options_def)
  obtain l2 where fit: "finish_layout E rep = Ok (Some l2)"
    using repartition_fits_again [OF l] by (auto simp: finish_layout_def rep)
  have typed': "sections_typed (wr_metadata rep) (wr_tags rep)" using typed by (simp add: rep)
  note fin = finish_fits_typed_wp [OF H ok1 at1 typed' fit, unfolded rep complete_object_version]
  have others: "others_kept (w_next w) (ob_file ob) w w2" if "settled ?p tp (w_next w) (w_next_fd w) w1 w2" for w2
    by (rule others_kept_trans_settled [OF k1 that]) simp_all
  show ?thesis
  proof (rule wp_conseq [OF fin], goal_cases)
    case (1 ob' w2)
    then have st: "settled ?p tp (w_next w) (w_next_fd w) w1 w2" "atomic_update ?p (version_of E ?ct metadata t content) w1 w2"
      by simp_all
    from 1 have "updated_object E ob metadata t content ob' w2"
      using l by (auto simp: finished_object_def updated_object_def rep)
    with 1 show ?case
      using update_frame_settled [OF r st] replaced_settled(6) [OF r st] others [OF st(1)] raw by simp
  next
    case (2 e w2)
    then have st: "settled ?p tp (w_next w) (w_next_fd w) w1 w2" "atomic_update ?p (version_of E ?ct metadata t content) w1 w2"
      by simp_all
    then have k2: "kept w w2" by (intro kept_settled [OF k]) auto
    with 2 show ?case
      using update_frame_settled [OF r st] others [OF st(1)] d1 by (auto simp: replaceable_def)
  qed
qed

text \<open>
  All a rewrite needs of the object is the content behind its handle, where its header says; the
  prefix in front of it, and what the handle knows of the sections, play no part.
\<close>

definition content_behind :: "'hn tux_object \<Rightarrow> world \<Rightarrow> u8 list \<Rightarrow> bool" where
  "content_behind ob w content \<longleftrightarrow> unat (content_length (ob_header ob)) = length content \<and>
     (\<exists>f. w_open w (ob_file ob) = Some f \<and> drop (unat (h_content_start (ob_header ob))) (w_data w (of_inode f)) = content)"

lemma rewrite_behind_wp:
  assumes H: "header_name_ok (header_names E)" and ok: "world_ok w" and behind: "content_behind ob w content"
    and typed: "sections_typed metadata t"
  shows "wp (rewrite E metadata t)
     (\<lambda>_ s. ob_writable ob \<and> update_frame E ob metadata t content w (snd s)
        \<and> updated_object E ob metadata t content (fst s) (snd s) \<and> (\<forall>q. q \<noteq> ob_path ob \<longrightarrow> view_of (snd s) q = view_of w q)
        \<and> (\<not> is_compressed ob \<or> content = []) \<and> others_kept (w_next w) (ob_file ob) w (snd s)
        \<and> ob_file (fst s) = w_next_fd w)
     (\<lambda>e s. fst s = ob
        \<and> update_frame E ob metadata t content w (snd s) \<and> others_kept (w_next w) (ob_file ob) w (snd s) \<and> kept w (snd s)
        \<and> (\<not> ob_writable ob \<longrightarrow> e = Some (ReadOnly (ob_path ob)) \<and> snd s = w)
        \<and> \<not> (sections_ok metadata t \<and> ob_writable ob \<and> ob_path ob \<notin> set (w_dirs w)
             \<and> replaceable E (ob_path ob) (rewrite_create_options ob metadata t) (length content) w)) (ob, w)"
  (is "wp _ ?Q ?R _")
proof -
  let ?p = "ob_path ob" and ?opts = "rewrite_create_options ob metadata t"
  let ?m = "transplant E ?p ?opts (ob_file ob) (unat (h_content_start (ob_header ob))) (content_length (ob_header ob))"
  obtain f where f: "w_open w (ob_file ob) = Some f"
    and content: "drop (unat (h_content_start (ob_header ob))) (w_data w (of_inode f)) = content"
    and len: "unat (content_length (ob_header ob)) = length content"
    using behind by (auto simp: content_behind_def)
  note moved = transplant_wp [where p = ?p and opts = ?opts, OF ok f u32_below_max content len]
  show ?thesis
  proof (cases "ob_writable ob")
    case False
    then show ?thesis
      using ok by (simp add: wp_def rewrite_transplant update_frame_def quiet_atomic)
  next
    case rw: True
    have "wp (st_bind (on_world ?m) (\<lambda>writer. st_bind (on_world (finish E writer)) put_self)) ?Q ?R (ob, w)"
      unfolding wp_bind [of "on_world ?m"] wp_on_world snd_conv
    proof (rule wp_conseq [OF moved], goal_cases)
      case (1 rep w1)
      then obtain tp l where r: "replaced E ?p ?opts content w rep w1 tp l" and k: "others_kept (w_next w) (ob_file ob) w w1"
        by blast
      show ?case
        unfolding wp_bind wp_on_world wp_put_self snd_conv fst_conv
        by (rule wp_conseq [OF finish_update_wp [OF H typed r k]]) (use rw in auto)
    next
      case (2 e w1)
      then have n: "not_replaced ?p w w1" and no: "\<not> replaceable E ?p ?opts (length content) w"
        and others: "others_kept (w_next w) (ob_file ob) w w1" by auto
      have q: "quiet (old_names w ?p) w w1" and k: "kept w w1" using n by (simp_all add: not_replaced_def)
      have "update_frame E ob metadata t content w w1"
        using n quiet_mono [OF q, of "{?p}"] quiet_mono [OF q, of "old_names w ?p - {?p}"]
        by (auto simp: update_frame_def not_replaced_def old_names_def intro: quiet_atomic)
      then show ?case using rw no others k by simp
    qed
    then show ?thesis using rw by (simp add: wp_def rewrite_transplant)
  qed
qed

lemma object_at_behind:
  assumes "header_name_ok (header_names E)" and "object_at E ob w t content"
  shows "content_behind ob w content"
  using assms(2) holds_objectD(9) [OF assms(1)] by (auto simp: object_at_def content_behind_def holds_object_def)

lemma rewrite_wp:
  assumes H: "header_name_ok (header_names E)" and ok: "world_ok w" and at: "object_at E ob w t0 content"
    and secs: "sections_ok metadata t"
  shows "wp (rewrite E metadata t)
     (\<lambda>_ s. ob_writable ob \<and> update_frame E ob metadata t content w (snd s)
        \<and> updated_object E ob metadata t content (fst s) (snd s) \<and> (\<forall>q. q \<noteq> ob_path ob \<longrightarrow> view_of (snd s) q = view_of w q)
        \<and> (\<not> is_compressed ob \<or> content = []) \<and> others_kept (w_next w) (ob_file ob) w (snd s)
        \<and> ob_file (fst s) = w_next_fd w)
     (\<lambda>e s. fst s = ob \<and> object_at E ob (snd s) t0 content
        \<and> update_frame E ob metadata t content w (snd s) \<and> others_kept (w_next w) (ob_file ob) w (snd s) \<and> kept w (snd s)
        \<and> (\<not> ob_writable ob \<longrightarrow> e = Some (ReadOnly (ob_path ob)) \<and> snd s = w)
        \<and> \<not> (ob_writable ob \<and> ob_path ob \<notin> set (w_dirs w)
             \<and> replaceable E (ob_path ob) (rewrite_create_options ob metadata t) (length content) w)) (ob, w)"
  by (rule wp_conseq [OF rewrite_behind_wp [OF H ok object_at_behind [OF H at] sections_ok_typed [OF secs]]])
     (use secs object_at_kept [OF ok _ at] in auto)

text \<open>The setters: what a read of the tags leaves behind is as good as what was there before.\<close>

lemma replaceable_frame: "frame F I w w' \<Longrightarrow> replaceable E p opts n w' \<longleftrightarrow> replaceable E p opts n w"
  using frameD(1,2,5) [of F I w w'] by (simp add: replaceable_def name_free_def)

lemma update_frame_refl: "frame F {} w w' \<Longrightarrow> world_ok w \<Longrightarrow> update_frame E ob metadata t content w w'"
  using world_ok_frame [of F "{}" w w'] frameD(1,2) [of F "{}" w w']
  by (auto simp: update_frame_def intro!: quiet_atomic frame_quiet)

lemma update_frame_trans:
  assumes "frame F {} w w1" and "update_frame E ob metadata t content w1 w2"
  shows "update_frame E ob metadata t content w w2"
proof -
  have q: "quiet N w w1" for N by (rule frame_quiet [OF assms(1)]) simp
  have "old_names w1 = old_names w" using frameD(1) [OF assms(1)] by (simp add: old_names_def fun_eq_iff)
  then show ?thesis
    using assms(2) frameD(1,2) [OF assms(1)] quiet_trans [OF q] atomic_trans [OF quiet_atomic [OF q]]
    by (simp add: update_frame_def)
qed

lemma set_metadata_wp:
  assumes H: "header_name_ok (header_names E)" and ok: "world_ok w" and at: "object_at E ob w t content"
    and md: "tags_ok (\<lambda>_. True) metadata"
  shows "wp (set_metadata E metadata)
     (\<lambda>_ s. ob_writable ob \<and> update_frame E ob metadata t content w (snd s)
        \<and> updated_object E ob metadata t content (fst s) (snd s) \<and> (\<forall>q. q \<noteq> ob_path ob \<longrightarrow> view_of (snd s) q = view_of w q))
     (\<lambda>e s. fst s = ob \<and> object_at E ob (snd s) t content \<and> update_frame E ob metadata t content w (snd s)
        \<and> (reliable E \<and> \<not> ob_writable ob \<longrightarrow> e = Some (ReadOnly (ob_path ob)))
        \<and> \<not> (ob_writable ob \<and> ob_path ob \<notin> set (w_dirs w)
             \<and> replaceable E (ob_path ob) (rewrite_create_options ob metadata t) (length content) w)) (ob, w)"
proof -
  have secs: "sections_ok metadata t"
    using at md by (auto simp: object_at_def holds_object_def sections_ok_def)
  show ?thesis
    unfolding set_metadata_def
  proof (rule wp_bind_spec [OF object_tags_wp(1) [OF H at]], goal_cases)
    case (1 r s)
    then obtain w1 where s: "s = (ob, w1)" and r: "r = t" and fr: "frame {ob_file ob} {} w w1" by (cases s) auto
    have view: "view_of w1 q = view_of w q" for q using frame_view [OF fr] by simp
    show ?case
      unfolding s r
      by (rule wp_conseq [OF rewrite_wp [OF H world_ok_frame [OF fr ok] object_at_frame [OF fr at] secs]])
         (auto simp: view frameD(2) [OF fr] replaceable_frame [OF fr] intro: update_frame_trans [OF fr])
  next
    case (2 e s)
    then show ?case
      using object_at_frame [OF _ at, of "snd s"] update_frame_refl [OF _ ok, of "{ob_file ob}" "snd s"]
      by (auto simp: replaceable_def)
  qed
qed

lemma set_tags_wp:
  assumes H: "header_name_ok (header_names E)" and ok: "world_ok w" and at: "object_at E ob w t0 content"
    and t: "tags_ok string_ok t"
  shows "wp (set_tags E t)
     (\<lambda>_ s. ob_writable ob \<and> update_frame E ob (ob_metadata ob) t content w (snd s)
        \<and> updated_object E ob (ob_metadata ob) t content (fst s) (snd s) \<and> (\<forall>q. q \<noteq> ob_path ob \<longrightarrow> view_of (snd s) q = view_of w q))
     (\<lambda>e s. fst s = ob \<and> object_at E ob (snd s) t0 content \<and> update_frame E ob (ob_metadata ob) t content w (snd s)
        \<and> (\<not> ob_writable ob \<longrightarrow> e = Some (ReadOnly (ob_path ob)) \<and> snd s = w)
        \<and> \<not> (ob_writable ob \<and> ob_path ob \<notin> set (w_dirs w)
             \<and> replaceable E (ob_path ob) (rewrite_create_options ob (ob_metadata ob) t) (length content) w)) (ob, w)"
proof -
  have "sections_ok (ob_metadata ob) t"
    using at t by (auto simp: object_at_def holds_object_def sections_ok_def)
  then show ?thesis
    unfolding set_tags_def wp_with_self fst_conv by (rule wp_conseq [OF rewrite_wp [OF H ok at]]) auto
qed

end
