(* ===== verification/Compression.thy ===== *)
theory Compression
  imports Lifecycle
begin

text \<open>
  \<open>src/src/fs/compression.rs\<close>: the encoder that compresses content on its way into a writer. It
  borrows the writer, so a method runs on the encoder, the writer and the world. The codecs are
  crates of their own; what they promise is stated by \<open>codec_ok\<close>.
\<close>

section \<open>State\<close>

text \<open>The name \<open>x-tuxio-uncompressed-length\<close>, byte by byte.\<close>

definition UNCOMPRESSED_LENGTH_NAME :: "u8 list" where
  "UNCOMPRESSED_LENGTH_NAME = map of_char ''x-tuxio-uncompressed-length''"

definition uncompressed_length_key :: "'hn env \<Rightarrow> 'hn" where
  "uncompressed_length_key E = hn_from_static (header_names E) UNCOMPRESSED_LENGTH_NAME"

record codec_encoder =
  ce_codec :: codec
  ce_level :: int
  ce_steps :: "codec_step list"

datatype content_encoder =
    StoredEncoder u64
  | ZstdEncoder codec_encoder u64
  | GzipEncoder codec_encoder u64

type_synonym ('hn, 'a, 'e) encoder_method = "(content_encoder \<times> 'hn object_writer \<times> world, 'a, 'e) st"

section \<open>Operations\<close>

text \<open>
  Opening an encoder. Handing one out allows raw writes for good, also when it cannot be opened.
\<close>

definition content_encoder_new ::
  "'hn env \<Rightarrow> compression_types \<Rightarrow> (content_encoder, object_file_error) res" where
  "content_encoder_new E compression =
     res_bind (ensure_supported E compression) (\<lambda>_.
     case compression of
       NoCompression \<Rightarrow> Ok (StoredEncoder 0)
     | ZSTD level \<Rightarrow> (case zstd_codec E of
           Some cd \<Rightarrow> res_bind (map_err IO (cd_start cd (sint level))) (\<lambda>_.
             Ok (ZstdEncoder \<lparr>ce_codec = cd, ce_level = sint level, ce_steps = []\<rparr> 0))
         | None \<Rightarrow> Err (UnsupportedCompression compression))
     | Gzip level \<Rightarrow> (case gzip_codec E of
           Some cd \<Rightarrow> Ok (GzipEncoder \<lparr>ce_codec = cd, ce_level = uint level, ce_steps = []\<rparr> 0)
         | None \<Rightarrow> Err (UnsupportedCompression compression)))"

definition open_content_encoder :: "'hn env \<Rightarrow> ('hn, content_encoder, object_file_error) writer_method" where
  "open_content_encoder E = with_self (\<lambda>ow.
     st_bind (put_self (ow\<lparr>wr_allow_raw_writes := True\<rparr>)) (\<lambda>_.
     st_lift (content_encoder_new E (wr_compression ow))))"

fun encoder_uncompressed_length :: "content_encoder \<Rightarrow> u64" where
  "encoder_uncompressed_length (StoredEncoder n) = n"
| "encoder_uncompressed_length (ZstdEncoder _ n) = n"
| "encoder_uncompressed_length (GzipEncoder _ n) = n"

fun add_uncompressed_length :: "u64 \<Rightarrow> content_encoder \<Rightarrow> content_encoder" where
  "add_uncompressed_length k (StoredEncoder n) = StoredEncoder (n + k)"
| "add_uncompressed_length k (ZstdEncoder ce n) = ZstdEncoder ce (n + k)"
| "add_uncompressed_length k (GzipEncoder ce n) = GzipEncoder ce (n + k)"

definition encoder_record :: "nat \<Rightarrow> ('hn, unit, 'e) encoder_method" where
  "encoder_record written = with_self (\<lambda>enc.
     if unat (encoder_uncompressed_length enc) + written \<ge> 2 ^ 64 then st_lift Panic
     else put_self (add_uncompressed_length (of_nat written) enc))"

text \<open>What a codec emits goes to the writer with \<open>write_all\<close>.\<close>

definition codec_encoder_write ::
  "'hn env \<Rightarrow> codec_encoder \<Rightarrow> u8 list \<Rightarrow> ('hn, nat \<times> codec_encoder, io_kind) writer_method" where
  "codec_encoder_write E ce buf =
     st_bind (st_lift (cd_write (ce_codec ce) (ce_level ce) (ce_steps ce) buf)) (\<lambda>(written, out).
     st_bind (writer_write_all E out) (\<lambda>_.
     st_lift (Ok (written, ce\<lparr>ce_steps := ce_steps ce @ [Offered buf]\<rparr>))))"

definition codec_encoder_flush ::
  "'hn env \<Rightarrow> codec_encoder \<Rightarrow> ('hn, codec_encoder, io_kind) writer_method" where
  "codec_encoder_flush E ce =
     st_bind (st_lift (cd_flush (ce_codec ce) (ce_level ce) (ce_steps ce))) (\<lambda>out.
     st_bind (writer_write_all E out) (\<lambda>_.
     st_bind writer_flush (\<lambda>_.
     st_lift (Ok (ce\<lparr>ce_steps := ce_steps ce @ [Flushed]\<rparr>)))))"

definition codec_encoder_finish ::
  "'hn env \<Rightarrow> codec_encoder \<Rightarrow> ('hn, unit, io_kind) writer_method" where
  "codec_encoder_finish E ce =
     st_bind (st_lift (cd_finish (ce_codec ce) (ce_level ce) (ce_steps ce))) (writer_write_all E)"

definition encoder_write :: "'hn env \<Rightarrow> u8 list \<Rightarrow> ('hn, nat, io_kind) encoder_method" where
  "encoder_write E buf = with_self (\<lambda>enc.
     st_bind
       (case enc of
          StoredEncoder _ \<Rightarrow> on_world (writer_write E buf)
        | ZstdEncoder ce n \<Rightarrow>
            st_bind (on_world (codec_encoder_write E ce buf)) (\<lambda>(written, ce).
            st_bind (put_self (ZstdEncoder ce n)) (\<lambda>_. st_lift (Ok written)))
        | GzipEncoder ce n \<Rightarrow>
            st_bind (on_world (codec_encoder_write E ce buf)) (\<lambda>(written, ce).
            st_bind (put_self (GzipEncoder ce n)) (\<lambda>_. st_lift (Ok written))))
       (\<lambda>written. st_bind (encoder_record written) (\<lambda>_. st_lift (Ok written))))"

definition encoder_flush :: "'hn env \<Rightarrow> ('hn, unit, io_kind) encoder_method" where
  "encoder_flush E = with_self (\<lambda>enc.
     case enc of
       StoredEncoder _ \<Rightarrow> on_world writer_flush
     | ZstdEncoder ce n \<Rightarrow> st_bind (on_world (codec_encoder_flush E ce)) (\<lambda>ce. put_self (ZstdEncoder ce n))
     | GzipEncoder ce n \<Rightarrow> st_bind (on_world (codec_encoder_flush E ce)) (\<lambda>ce. put_self (GzipEncoder ce n)))"

definition encoder_write_all :: "'hn env \<Rightarrow> u8 list \<Rightarrow> ('hn, unit, io_kind) encoder_method" where
  "encoder_write_all E = write_all (encoder_write E)"

text \<open>The end of the stream: the tail, then the length before compression, if it differs.\<close>

definition encoder_finish :: "'hn env \<Rightarrow> content_encoder \<Rightarrow> ('hn, u64, object_file_error) writer_method" where
  "encoder_finish E enc =
     (let n = encoder_uncompressed_length enc
      in st_bind
           (case enc of
              StoredEncoder _ \<Rightarrow> st_lift (Ok ())
            | ZstdEncoder ce _ \<Rightarrow> st_map_err IO (codec_encoder_finish E ce)
            | GzipEncoder ce _ \<Rightarrow> st_map_err IO (codec_encoder_finish E ce)) (\<lambda>_.
         st_bind (st_map_err IO writer_flush) (\<lambda>_.
         with_self (\<lambda>ow.
           st_bind (if wr_content_length ow \<noteq> n
                    then put_self (set_metadata_mut (\<lambda>md. snd (tags_insert (uncompressed_length_key E) (VU64 n) md)) ow)
                    else st_lift (Ok ())) (\<lambda>_.
           st_lift (Ok n))))))"

section \<open>What a codec promises\<close>

text \<open>
  A run of an encoder: the steps taken, the bytes it accepted, and what it emitted for them. A codec
  accepts no more than it is offered and at least one byte of it, does not panic, and decodes
  everything it emitted up to its end to what it accepted.
\<close>

inductive codec_run :: "codec \<Rightarrow> int \<Rightarrow> codec_step list \<Rightarrow> u8 list \<Rightarrow> u8 list \<Rightarrow> bool" for cd level where
  codec_start: "codec_run cd level [] [] []"
| codec_offer: "codec_run cd level steps acc out \<Longrightarrow> cd_write cd level steps buf = Ok (n, emitted) \<Longrightarrow>
    codec_run cd level (steps @ [Offered buf]) (acc @ take n buf) (out @ emitted)"
| codec_flush: "codec_run cd level steps acc out \<Longrightarrow> cd_flush cd level steps = Ok emitted \<Longrightarrow>
    codec_run cd level (steps @ [Flushed]) acc (out @ emitted)"

definition codec_ok :: "codec \<Rightarrow> bool" where
  "codec_ok cd \<longleftrightarrow>
     (\<forall>level steps. cd_start cd level \<noteq> Panic \<and> cd_flush cd level steps \<noteq> Panic \<and> cd_finish cd level steps \<noteq> Panic) \<and>
     (\<forall>level steps buf. cd_write cd level steps buf \<noteq> Panic \<and>
        (\<forall>n emitted. cd_write cd level steps buf = Ok (n, emitted) \<longrightarrow> n \<le> length buf \<and> (buf \<noteq> [] \<longrightarrow> 0 < n))) \<and>
     (\<forall>level steps acc out emitted. codec_run cd level steps acc out \<longrightarrow> cd_finish cd level steps = Ok emitted \<longrightarrow>
        cd_decode cd (out @ emitted) = Ok acc)"

definition codecs_ok :: "'hn env \<Rightarrow> bool" where
  "codecs_ok E \<longleftrightarrow> (\<forall>cd. zstd_codec E = Some cd \<or> gzip_codec E = Some cd \<longrightarrow> codec_ok cd)"

lemma codec_okD:
  assumes "codec_ok cd"
  shows "cd_write cd level steps buf \<noteq> Panic" and "cd_finish cd level steps \<noteq> Panic" "cd_flush cd level steps \<noteq> Panic"
    and "cd_write cd level steps buf = Ok (n, emitted) \<Longrightarrow> n \<le> length buf"
    and "cd_write cd level steps buf = Ok (n, emitted) \<Longrightarrow> buf \<noteq> [] \<Longrightarrow> 0 < n"
    and "codec_run cd level steps acc out \<Longrightarrow> cd_finish cd level steps = Ok emitted \<Longrightarrow> cd_decode cd (out @ emitted) = Ok acc"
  using assms unfolding codec_ok_def by blast+

section \<open>What the encoder does\<close>

text \<open>
  The encoder in use by a writer of its compression: the bytes it took so far went through the codec,
  and what came out is the content of the writer.
\<close>

fun encoder_for :: "'hn env \<Rightarrow> compression_types \<Rightarrow> content_encoder \<Rightarrow> u8 list \<Rightarrow> u8 list \<Rightarrow> bool" where
  "encoder_for E NoCompression (StoredEncoder n) bytes stored \<longleftrightarrow> stored = bytes"
| "encoder_for E (ZSTD level) (ZstdEncoder ce n) bytes stored \<longleftrightarrow>
     zstd_codec E = Some (ce_codec ce) \<and> codec_run (ce_codec ce) (ce_level ce) (ce_steps ce) bytes stored"
| "encoder_for E (Gzip level) (GzipEncoder ce n) bytes stored \<longleftrightarrow>
     gzip_codec E = Some (ce_codec ce) \<and> codec_run (ce_codec ce) (ce_level ce) (ce_steps ce) bytes stored"
| "encoder_for E _ _ bytes stored \<longleftrightarrow> False"

lemma encoder_forE:
  assumes "encoder_for E ct enc bytes stored"
  obtains (stored) n where "ct = NoCompression" "enc = StoredEncoder n" "stored = bytes"
  | (zstd) level ce n where "ct = ZSTD level" "enc = ZstdEncoder ce n" "zstd_codec E = Some (ce_codec ce)"
      "codec_run (ce_codec ce) (ce_level ce) (ce_steps ce) bytes stored"
  | (gzip) level ce n where "ct = Gzip level" "enc = GzipEncoder ce n" "gzip_codec E = Some (ce_codec ce)"
      "codec_run (ce_codec ce) (ce_level ce) (ce_steps ce) bytes stored"
  using assms by (cases ct; cases enc) auto

definition encoder_at ::
  "'hn env \<Rightarrow> content_encoder \<Rightarrow> 'hn object_writer \<Rightarrow> world \<Rightarrow> path \<Rightarrow> nat \<Rightarrow> u8 list \<Rightarrow> u8 list \<Rightarrow> bool" where
  "encoder_at E enc ow w tp i bytes stored \<longleftrightarrow>
     wr_allow_raw_writes ow \<and> writer_at ow w tp i stored \<and> encoder_for E (wr_compression ow) enc bytes stored \<and>
     unat (encoder_uncompressed_length enc) = length bytes"

lemma encoder_for_start:
  "content_encoder_new E ct = Ok enc \<Longrightarrow> encoder_for E ct enc [] [] \<and> encoder_uncompressed_length enc = 0"
  by (cases ct; cases "zstd_codec E"; cases "gzip_codec E")
     (auto simp: content_encoder_new_def ensure_supported_def is_supported_def res_dest codec_start split: if_splits)

lemma open_content_encoder_wp:
  assumes at: "writer_at ow w tp i []"
  shows "wp (open_content_encoder E)
     (\<lambda>enc (ow', w'). w' = w \<and> ow' = ow\<lparr>wr_allow_raw_writes := True\<rparr> \<and> encoder_at E enc ow' w tp i [] [])
     (\<lambda>e (ow', w'). w' = w \<and> ow' = ow\<lparr>wr_allow_raw_writes := True\<rparr>
        \<and> content_encoder_new E (wr_compression ow) = (case e of Some e \<Rightarrow> Err e | None \<Rightarrow> Panic)) (ow, w)"
proof -
  have "writer_at (ow\<lparr>wr_allow_raw_writes := True\<rparr>) w tp i []" using at by (simp add: writer_at_def)
  then show ?thesis
    by (cases "content_encoder_new E (wr_compression ow)")
       (auto simp: open_content_encoder_def wp_bind encoder_at_def dest: encoder_for_start)
qed

lemma codec_encoder_write_wp:
  assumes at: "writer_at ow w tp i stored" and raw: "wr_allow_raw_writes ow" and cd: "codec_ok (ce_codec ce)"
    and run: "codec_run (ce_codec ce) (ce_level ce) (ce_steps ce) bytes stored"
  shows "wp (codec_encoder_write E ce buf)
     (\<lambda>(n, ce') s. frame {wr_file ow} {i} w (snd s) \<and> same_writer ow (fst s) \<and> n \<le> length buf
        \<and> (buf \<noteq> [] \<longrightarrow> 0 < n) \<and> ce_codec ce' = ce_codec ce
        \<and> (\<exists>stored'. writer_at (fst s) (snd s) tp i stored'
             \<and> codec_run (ce_codec ce) (ce_level ce') (ce_steps ce') (bytes @ take n buf) stored'))
     (\<lambda>e s. frame {wr_file ow} {i} w (snd s) \<and> same_writer ow (fst s) \<and> e \<noteq> None) (ow, w)"
proof (cases "cd_write (ce_codec ce) (ce_level ce) (ce_steps ce) buf")
  case (Ok r)
  obtain n out where r: "r = (n, out)" by (cases r)
  note w = Ok [unfolded r]
  show ?thesis
    unfolding codec_encoder_write_def w st_bind_lift prod.case
    by (rule wp_bind_spec [OF writer_write_all_wp [OF at raw]])
       (use codec_okD(4,5) [OF cd w] codec_offer [OF run w] in auto)
next
  case (Err e)
  then show ?thesis by (simp add: codec_encoder_write_def)
next
  case Panic
  then show ?thesis using codec_okD(1) [OF cd] by blast
qed

text \<open>What holds of an encoder, its writer and the world once it has taken \<open>bytes\<close>.\<close>

definition encoding ::
  "'hn env \<Rightarrow> 'hn object_writer \<Rightarrow> world \<Rightarrow> path \<Rightarrow> nat \<Rightarrow> u8 list \<Rightarrow> content_encoder \<times> 'hn object_writer \<times> world \<Rightarrow> bool" where
  "encoding E ow w tp i bytes s \<longleftrightarrow>
     (case s of (enc, ow', w') \<Rightarrow>
        frame {wr_file ow} {i} w w' \<and> same_writer ow ow' \<and> (\<exists>stored. encoder_at E enc ow' w' tp i bytes stored))"

definition encoding_failed ::
  "'hn object_writer \<Rightarrow> world \<Rightarrow> path \<Rightarrow> nat \<Rightarrow> content_encoder \<times> 'hn object_writer \<times> world \<Rightarrow> bool" where
  "encoding_failed ow w tp i s \<longleftrightarrow>
     (case s of (enc, ow', w') \<Rightarrow> frame {wr_file ow} {i} w w' \<and> same_writer ow ow')"

lemma added_length:
  "unat (encoder_uncompressed_length enc) + n < 2 ^ 64 \<Longrightarrow>
     unat (encoder_uncompressed_length (add_uncompressed_length (of_nat n) enc)) = unat (encoder_uncompressed_length enc) + n"
  by (cases enc) (simp_all add: unat_add_of_nat)

lemma encoder_for_added [simp]:
  "encoder_for E ct (add_uncompressed_length k enc) bytes stored \<longleftrightarrow> encoder_for E ct enc bytes stored"
  by (cases ct; cases enc) simp_all

lemma record_written:
  assumes for': "encoder_for E (wr_compression ow1) enc (bytes @ take n buf) stored"
    and at: "writer_at ow1 w1 tp i stored" and raw: "wr_allow_raw_writes ow1"
    and fr: "frame {wr_file ow} {i} w w1" and same: "same_writer ow ow1"
    and len: "unat (encoder_uncompressed_length enc) = length bytes" and n: "n \<le> length buf"
  shows "wp (st_bind (encoder_record n) (\<lambda>_. st_lift (Ok n)))
     (\<lambda>n s. n \<le> length buf \<and> encoding E ow w tp i (bytes @ take n buf) s)
     (\<lambda>e s. encoding_failed ow w tp i s \<and> (e = None \<longrightarrow> 2 ^ 64 \<le> length (bytes @ buf))) (enc, ow1, w1)"
  unfolding wp_bind
proof (cases "unat (encoder_uncompressed_length enc) + n \<ge> 2 ^ 64")
  case True
  then show "wp (encoder_record n) (\<lambda>_. wp (st_lift (Ok n))
      (\<lambda>n s. n \<le> length buf \<and> encoding E ow w tp i (bytes @ take n buf) s)
      (\<lambda>e s. encoding_failed ow w tp i s \<and> (e = None \<longrightarrow> 2 ^ 64 \<le> length (bytes @ buf))))
      (\<lambda>e s. encoding_failed ow w tp i s \<and> (e = None \<longrightarrow> 2 ^ 64 \<le> length (bytes @ buf))) (enc, ow1, w1)"
    using fr same n len by (simp add: encoder_record_def encoding_failed_def)
next
  case False
  then have "encoder_at E (add_uncompressed_length (of_nat n) enc) ow1 w1 tp i (bytes @ take n buf) stored"
    using for' at raw len n added_length [of enc n] by (simp add: encoder_at_def)
  then show "wp (encoder_record n) (\<lambda>_. wp (st_lift (Ok n))
      (\<lambda>n s. n \<le> length buf \<and> encoding E ow w tp i (bytes @ take n buf) s)
      (\<lambda>e s. encoding_failed ow w tp i s \<and> (e = None \<longrightarrow> 2 ^ 64 \<le> length (bytes @ buf))))
      (\<lambda>e s. encoding_failed ow w tp i s \<and> (e = None \<longrightarrow> 2 ^ 64 \<le> length (bytes @ buf))) (enc, ow1, w1)"
    using False fr same n by (auto simp: encoder_record_def encoding_def)
qed

text \<open>A write through a codec, wherever the encoder keeps it.\<close>

lemma codec_write_wp:
  assumes fr: "frame {wr_file ow} {i} w w0" and same: "same_writer ow ow0" and at0: "writer_at ow0 w0 tp i stored"
    and raw: "wr_allow_raw_writes ow0" and len: "unat (encoder_uncompressed_length enc) = length bytes"
    and cd: "codec_ok (ce_codec ce)" and run: "codec_run (ce_codec ce) (ce_level ce) (ce_steps ce) bytes stored"
    and mk: "\<And>ce' n stored'. ce_codec ce' = ce_codec ce \<Longrightarrow>
          codec_run (ce_codec ce') (ce_level ce') (ce_steps ce') (bytes @ take n buf) stored' \<Longrightarrow>
          encoder_for E (wr_compression ow0) (mk ce') (bytes @ take n buf) stored'"
      "\<And>ce'. encoder_uncompressed_length (mk ce') = encoder_uncompressed_length enc"
  shows "wp (st_bind (on_world (codec_encoder_write E ce buf)) (\<lambda>(n, ce).
        st_bind (put_self (mk ce)) (\<lambda>_. st_bind (encoder_record n) (\<lambda>_. st_lift (Ok n)))))
     (\<lambda>n s. n \<le> length buf \<and> encoding E ow w tp i (bytes @ take n buf) s)
     (\<lambda>e s. encoding_failed ow w tp i s \<and> (e = None \<longrightarrow> 2 ^ 64 \<le> length (bytes @ buf))) (enc, ow0, w0)"
  unfolding wp_bind [of "on_world _"] wp_on_world snd_conv fst_conv
proof (rule wp_conseq [OF codec_encoder_write_wp [OF at0 raw cd run]], goal_cases)
  case (1 a s1)
  have fd: "wr_file ow0 = wr_file ow" using same_writerD(1) [OF same] .
  obtain n ce' ow1 w1 where a: "a = (n, ce')" "s1 = (ow1, w1)" by (cases a; cases s1)
  with 1 obtain stored' where one: "frame {wr_file ow} {i} w0 w1" "same_writer ow0 ow1" "n \<le> length buf"
    "writer_at ow1 w1 tp i stored'" "ce_codec ce' = ce_codec ce"
    "codec_run (ce_codec ce) (ce_level ce') (ce_steps ce') (bytes @ take n buf) stored'"
    by (auto simp: fd)
  have "encoder_for E (wr_compression ow1) (mk ce') (bytes @ take n buf) stored'"
    using mk(1) one same_writerD(6) [OF one(2)] by simp
  moreover have "wr_allow_raw_writes ow1" using raw same_writerD(10) [OF one(2)] by simp
  ultimately show ?case
    unfolding a prod.case wp_bind [of "put_self _"] wp_put_self snd_conv
    using one frame_trans [OF fr one(1)] same_writer_trans [OF same one(2)] mk(2) len
    by (intro record_written) simp_all
next
  case (2 e s1)
  then show ?case
    using frame_trans [OF fr, of "snd s1"] same_writer_trans [OF same, of "fst s1"] same_writerD(1) [OF same]
    by (auto simp: encoding_failed_def split: prod.splits)
qed

lemma encoder_write_wp:
  assumes C: "codecs_ok E" and at: "encoding E ow w tp i bytes s"
  shows "wp (encoder_write E buf)
     (\<lambda>n s. n \<le> length buf \<and> encoding E ow w tp i (bytes @ take n buf) s)
     (\<lambda>e s. encoding_failed ow w tp i s \<and> (e = None \<longrightarrow> 2 ^ 64 \<le> length (bytes @ buf))) s"
  (is "wp _ ?Q ?R _")
proof -
  obtain enc ow0 w0 stored where s: "s = (enc, ow0, w0)" and fr: "frame {wr_file ow} {i} w w0"
    and same: "same_writer ow ow0" and at0: "writer_at ow0 w0 tp i stored" and raw: "wr_allow_raw_writes ow0"
    and for': "encoder_for E (wr_compression ow0) enc bytes stored"
    and len: "unat (encoder_uncompressed_length enc) = length bytes"
    using at by (cases s) (auto simp: encoding_def encoder_at_def)
  have fd: "wr_file ow0 = wr_file ow" using same_writerD(1) [OF same] .
  note codec = codec_write_wp [OF fr same at0 raw len]
  show ?thesis
    using for'
  proof (cases rule: encoder_forE)
    case (stored n)
    then have enc: "enc = StoredEncoder n" "stored = bytes" and ct: "wr_compression ow0 = NoCompression" by auto
    have "wp (st_bind (on_world (writer_write E buf)) (\<lambda>n. st_bind (encoder_record n) (\<lambda>_. st_lift (Ok n)))) ?Q ?R (enc, ow0, w0)"
      unfolding wp_bind [of "on_world _"] wp_on_world snd_conv fst_conv
    proof (rule wp_conseq [OF writer_write_wp [OF at0 raw]], goal_cases)
      case (1 n s1)
      obtain ow1 w1 where s1: "s1 = (ow1, w1)" by (cases s1)
      with 1 have one: "frame {wr_file ow} {i} w0 w1" "same_writer ow0 ow1" "n \<le> length buf"
        "writer_at ow1 w1 tp i (bytes @ take n buf)" by (auto simp: fd enc)
      then show ?case
        unfolding s1
        by (intro record_written)
           (use frame_trans [OF fr one(1)] same_writer_trans [OF same one(2)] raw len ct
              same_writerD(6,10) [OF one(2)] in \<open>simp_all add: enc\<close>)
    next
      case (2 e s1)
      then show ?case
        using frame_trans [OF fr, of "snd s1"] same_writer_trans [OF same, of "fst s1"]
        by (auto simp: encoding_failed_def fd split: prod.splits)
    qed
    then show ?thesis by (simp add: encoder_write_def enc s)
  next
    case (zstd level ce n)
    then have "codec_ok (ce_codec ce)" using C by (auto simp: codecs_ok_def)
    then show ?thesis
      using codec [of ce buf E "\<lambda>ce. ZstdEncoder ce n"] zstd by (simp add: encoder_write_def case_prod_beta' s)
  next
    case (gzip level ce n)
    then have "codec_ok (ce_codec ce)" using C by (auto simp: codecs_ok_def)
    then show ?thesis
      using codec [of ce buf E "\<lambda>ce. GzipEncoder ce n"] gzip by (simp add: encoder_write_def case_prod_beta' s)
  qed
qed

lemma encoder_write_all_wp:
  assumes C: "codecs_ok E" and at: "encoding E ow w tp i bytes s"
  shows "wp (encoder_write_all E buf)
     (\<lambda>_ s. encoding E ow w tp i (bytes @ buf) s)
     (\<lambda>e s. encoding_failed ow w tp i s \<and> (e = None \<longrightarrow> 2 ^ 64 \<le> length (bytes @ buf))) s"
  unfolding encoder_write_all_def
proof (rule write_all_wp [where I = "\<lambda>out s. encoding E ow w tp i (bytes @ out) s"])
  fix out rest s
  assume "encoding E ow w tp i (bytes @ out) s" and "buf = out @ rest"
  then show "wp (encoder_write E rest)
      (\<lambda>n s'. n \<le> length rest \<and> encoding E ow w tp i (bytes @ out @ take n rest) s'
        \<and> (n = 0 \<longrightarrow> encoding_failed ow w tp i s' \<and> (Some WriteZero = None \<longrightarrow> 2 ^ 64 \<le> length (bytes @ buf))))
      (\<lambda>e s. encoding_failed ow w tp i s \<and> (e = None \<longrightarrow> 2 ^ 64 \<le> length (bytes @ buf))) s"
    by (intro wp_conseq [OF encoder_write_wp [OF C]])
       (auto simp: encoding_def encoding_failed_def)
qed (use at in simp)

lemma wp_writer_flush: "wp writer_flush Q R s \<longleftrightarrow> Q () s"
  by (cases s) (simp add: writer_flush_def file_flush_def wp_on_world)

lemma codec_flush_wp:
  assumes at: "writer_at ow w tp i stored" and raw: "wr_allow_raw_writes ow" and cd: "codec_ok (ce_codec ce)"
    and run: "codec_run (ce_codec ce) (ce_level ce) (ce_steps ce) bytes stored"
  shows "wp (codec_encoder_flush E ce)
     (\<lambda>ce' s. frame {wr_file ow} {i} w (snd s) \<and> same_writer ow (fst s) \<and> ce_codec ce' = ce_codec ce
        \<and> (\<exists>stored'. writer_at (fst s) (snd s) tp i stored'
             \<and> codec_run (ce_codec ce) (ce_level ce') (ce_steps ce') bytes stored'))
     (\<lambda>e s. frame {wr_file ow} {i} w (snd s) \<and> same_writer ow (fst s) \<and> e \<noteq> None) (ow, w)"
    and "wp (codec_encoder_finish E ce)
     (\<lambda>_ s. frame {wr_file ow} {i} w (snd s) \<and> same_writer ow (fst s)
        \<and> (\<exists>stored'. writer_at (fst s) (snd s) tp i stored' \<and> cd_decode (ce_codec ce) stored' = Ok bytes))
     (\<lambda>e s. frame {wr_file ow} {i} w (snd s) \<and> same_writer ow (fst s) \<and> e \<noteq> None) (ow, w)"
proof -
  show "wp (codec_encoder_flush E ce)
     (\<lambda>ce' s. frame {wr_file ow} {i} w (snd s) \<and> same_writer ow (fst s) \<and> ce_codec ce' = ce_codec ce
        \<and> (\<exists>stored'. writer_at (fst s) (snd s) tp i stored'
             \<and> codec_run (ce_codec ce) (ce_level ce') (ce_steps ce') bytes stored'))
     (\<lambda>e s. frame {wr_file ow} {i} w (snd s) \<and> same_writer ow (fst s) \<and> e \<noteq> None) (ow, w)"
  proof (cases "cd_flush (ce_codec ce) (ce_level ce) (ce_steps ce)")
    case (Ok out)
    show ?thesis
      unfolding codec_encoder_flush_def Ok st_bind_lift
      by (rule wp_bind_spec [OF writer_write_all_wp [OF at raw]])
         (use codec_flush [OF run Ok] in \<open>auto simp: wp_bind wp_writer_flush\<close>)
  qed (use codec_okD(3) [OF cd] in \<open>simp_all add: codec_encoder_flush_def\<close>)
  show "wp (codec_encoder_finish E ce)
     (\<lambda>_ s. frame {wr_file ow} {i} w (snd s) \<and> same_writer ow (fst s)
        \<and> (\<exists>stored'. writer_at (fst s) (snd s) tp i stored' \<and> cd_decode (ce_codec ce) stored' = Ok bytes))
     (\<lambda>e s. frame {wr_file ow} {i} w (snd s) \<and> same_writer ow (fst s) \<and> e \<noteq> None) (ow, w)"
  proof (cases "cd_finish (ce_codec ce) (ce_level ce) (ce_steps ce)")
    case (Ok out)
    show ?thesis
      unfolding codec_encoder_finish_def Ok st_bind_lift
      by (rule wp_conseq [OF writer_write_all_wp [OF at raw]])
         (use codec_okD(6) [OF cd run Ok] in auto)
  qed (use codec_okD(2) [OF cd] in \<open>simp_all add: codec_encoder_finish_def\<close>)
qed

lemma encoder_flush_wp:
  assumes C: "codecs_ok E" and at: "encoding E ow w tp i bytes s"
  shows "wp (encoder_flush E) (\<lambda>_. encoding E ow w tp i bytes) (\<lambda>e s. encoding_failed ow w tp i s \<and> e \<noteq> None) s"
  (is "wp _ ?Q ?R _")
proof -
  obtain enc ow0 w0 stored where s: "s = (enc, ow0, w0)" and fr: "frame {wr_file ow} {i} w w0"
    and same: "same_writer ow ow0" and at0: "writer_at ow0 w0 tp i stored" and raw: "wr_allow_raw_writes ow0"
    and for': "encoder_for E (wr_compression ow0) enc bytes stored"
    and len: "unat (encoder_uncompressed_length enc) = length bytes"
    using at by (cases s) (auto simp: encoding_def encoder_at_def)
  have fd: "wr_file ow0 = wr_file ow" using same_writerD(1) [OF same] .
  have codec: "wp (st_bind (on_world (codec_encoder_flush E ce)) (\<lambda>ce. put_self (mk ce))) ?Q ?R (enc, ow0, w0)"
    if cd: "codec_ok (ce_codec ce)" and run: "codec_run (ce_codec ce) (ce_level ce) (ce_steps ce) bytes stored"
      and mk: "\<And>ce' stored'. ce_codec ce' = ce_codec ce \<Longrightarrow>
          codec_run (ce_codec ce') (ce_level ce') (ce_steps ce') bytes stored' \<Longrightarrow>
          encoder_for E (wr_compression ow0) (mk ce') bytes stored'"
        "\<And>ce'. encoder_uncompressed_length (mk ce') = encoder_uncompressed_length enc" for ce mk
    unfolding wp_bind [of "on_world _"] wp_on_world snd_conv fst_conv
  proof (rule wp_conseq [OF codec_flush_wp(1) [OF at0 raw cd run]], goal_cases)
    case (1 ce' s1)
    obtain ow1 w1 where s1: "s1 = (ow1, w1)" by (cases s1)
    with 1 obtain stored' where one: "frame {wr_file ow} {i} w0 w1" "same_writer ow0 ow1"
      "writer_at ow1 w1 tp i stored'" "ce_codec ce' = ce_codec ce"
      "codec_run (ce_codec ce) (ce_level ce') (ce_steps ce') bytes stored'"
      by (auto simp: fd)
    then have "encoder_at E (mk ce') ow1 w1 tp i bytes stored'"
      using mk raw len same_writerD(6,10) [OF one(2)] by (simp add: encoder_at_def)
    then show ?case
      using frame_trans [OF fr one(1)] same_writer_trans [OF same one(2)] by (auto simp: encoding_def s1)
  next
    case (2 e s1)
    then show ?case
      using frame_trans [OF fr, of "snd s1"] same_writer_trans [OF same, of "fst s1"]
      by (auto simp: encoding_failed_def fd split: prod.splits)
  qed
  show ?thesis
    using for'
  proof (cases rule: encoder_forE)
    case (stored n)
    then show ?thesis using at by (simp add: encoder_flush_def s wp_on_world wp_writer_flush)
  next
    case (zstd level ce n)
    then have "codec_ok (ce_codec ce)" using C by (auto simp: codecs_ok_def)
    then show ?thesis using codec [of ce "\<lambda>ce. ZstdEncoder ce n"] zstd by (simp add: encoder_flush_def s)
  next
    case (gzip level ce n)
    then have "codec_ok (ce_codec ce)" using C by (auto simp: codecs_ok_def)
    then show ?thesis using codec [of ce "\<lambda>ce. GzipEncoder ce n"] gzip by (simp add: encoder_flush_def s)
  qed
qed

text \<open>The writer after its encoder is finished: the length before compression is on record.\<close>

definition recorded :: "'hn env \<Rightarrow> nat \<Rightarrow> u64 \<Rightarrow> 'hn tags \<Rightarrow> 'hn tags" where
  "recorded E stored_length n md =
     (if stored_length = unat n then md else snd (tags_insert (uncompressed_length_key E) (VU64 n) md))"

text \<open>What follows the end of the codec: the length is put on record when the stored one differs.\<close>

definition record_length :: "'hn env \<Rightarrow> u64 \<Rightarrow> ('hn object_writer \<times> world, u64, object_file_error) st" where
  "record_length E n = st_bind (st_map_err IO writer_flush) (\<lambda>_. with_self (\<lambda>ow.
     st_bind (if wr_content_length ow \<noteq> n
              then put_self (set_metadata_mut (\<lambda>md. snd (tags_insert (uncompressed_length_key E) (VU64 n) md)) ow)
              else st_lift (Ok ())) (\<lambda>_. st_lift (Ok n))))"

lemma record_length_wp:
  assumes fr: "frame {wr_file ow} {i} w w1" and same: "same_writer ow ow1" and at1: "writer_at ow1 w1 tp i stored'"
    and dec: "decoded_content E (wr_compression ow) stored' = Ok bytes" and len: "unat n = length bytes"
  shows "wp (record_length E n)
     (\<lambda>n s. frame {wr_file ow} {i} w (snd s) \<and> unat n = length bytes
        \<and> (\<exists>stored'. writer_at (fst s) (snd s) tp i stored' \<and> decoded_content E (wr_compression ow) stored' = Ok bytes
             \<and> wr_metadata (fst s) = recorded E (length stored') n (wr_metadata ow))
        \<and> same_writer (ow\<lparr>wr_metadata := wr_metadata (fst s)\<rparr>) (fst s))
     (\<lambda>e s. frame {wr_file ow} {i} w (snd s) \<and> same_writer ow (fst s) \<and> e \<noteq> None) (ow1, w1)"
proof -
  have same_len: "wr_content_length ow1 = n \<longleftrightarrow> length stored' = unat n"
    using writer_atD(2) [OF at1] by (metis unsigned_word_eqI)
  have at2: "writer_at (set_metadata_mut f ow1) w1 tp i stored'" for f
    using at1 by (simp add: writer_at_def set_metadata_mut_def)
  have sm: "same_writer (ow\<lparr>wr_metadata := f (wr_metadata ow1)\<rparr>) (set_metadata_mut f ow1)" for f
    using same unfolding same_writer_def set_metadata_mut_def
    by (metis (no_types) object_writer.surjective object_writer.update_convs(7,9) object_writer.select_convs(7))
  have md: "wr_metadata ow1 = wr_metadata ow" using same_writerD(7) [OF same] .
  have sm': "same_writer (ow\<lparr>wr_metadata := wr_metadata ow1\<rparr>) ow1"
    using same by (auto simp: same_writer_def)
  show ?thesis
  proof (cases "wr_content_length ow1 = n")
    case True
    then have "recorded E (length stored') n (wr_metadata ow) = wr_metadata ow1"
      using same_len md by (simp add: recorded_def)
    with True at1 dec fr len sm' show ?thesis
      by (auto simp: record_length_def wp_bind wp_map_err wp_writer_flush)
  next
    case False
    let ?f = "\<lambda>md. snd (tags_insert (uncompressed_length_key E) (VU64 n) md)"
    have "wr_metadata (set_metadata_mut ?f ow1) = recorded E (length stored') n (wr_metadata ow)"
      using False same_len md by (simp add: recorded_def set_metadata_mut_def)
    with False at2 [of ?f] dec fr len sm [of ?f] show ?thesis
      by (auto simp: record_length_def wp_bind wp_map_err wp_writer_flush set_metadata_mut_def)
  qed
qed

lemma encoder_finish_wp:
  assumes C: "codecs_ok E" and at: "encoder_at E enc ow w tp i bytes stored"
  shows "wp (encoder_finish E enc)
     (\<lambda>n s. frame {wr_file ow} {i} w (snd s) \<and> unat n = length bytes
        \<and> (\<exists>stored'. writer_at (fst s) (snd s) tp i stored' \<and> decoded_content E (wr_compression ow) stored' = Ok bytes
             \<and> wr_metadata (fst s) = recorded E (length stored') n (wr_metadata ow))
        \<and> same_writer (ow\<lparr>wr_metadata := wr_metadata (fst s)\<rparr>) (fst s))
     (\<lambda>e s. frame {wr_file ow} {i} w (snd s) \<and> same_writer ow (fst s) \<and> e \<noteq> None) (ow, w)"
  (is "wp _ ?Q ?R _")
proof -
  let ?n = "encoder_uncompressed_length enc"
  from at have at0: "writer_at ow w tp i stored" and raw: "wr_allow_raw_writes ow"
    and for': "encoder_for E (wr_compression ow) enc bytes stored" and len: "unat ?n = length bytes"
    by (simp_all add: encoder_at_def)
  let ?rest = "st_bind (st_map_err IO writer_flush) (\<lambda>_. with_self (\<lambda>ow.
           st_bind (if wr_content_length ow \<noteq> ?n
                    then put_self (set_metadata_mut (\<lambda>md. snd (tags_insert (uncompressed_length_key E) (VU64 ?n) md)) ow)
                    else st_lift (Ok ())) (\<lambda>_. st_lift (Ok ?n))))"
  have eq: "?rest = record_length E ?n" by (simp add: record_length_def)
  note rest = record_length_wp [of ow i w, OF _ _ _ _ len, where E = E and tp = tp, folded eq]
  have codec: "wp (st_bind (st_map_err IO (codec_encoder_finish E ce)) (\<lambda>_. ?rest)) ?Q ?R (ow, w)"
    if cd: "codec_ok (ce_codec ce)" and run: "codec_run (ce_codec ce) (ce_level ce) (ce_steps ce) bytes stored"
      and dec: "\<And>d. cd_decode (ce_codec ce) d = Ok bytes \<Longrightarrow> decoded_content E (wr_compression ow) d = Ok bytes" for ce
  proof (rule wp_bind_map_err [OF codec_flush_wp(2) [OF at0 raw cd run]], goal_cases)
    case (1 u s)
    then obtain ow1 w1 stored' where "s = (ow1, w1)" "frame {wr_file ow} {i} w w1" "same_writer ow ow1"
      "writer_at ow1 w1 tp i stored'" "decoded_content E (wr_compression ow) stored' = Ok bytes"
      using dec by (cases s) auto
    with rest show ?case by simp
  next
    case (2 e s)
    then show ?case by auto
  qed
  show ?thesis
    using for'
  proof (cases rule: encoder_forE)
    case (stored n)
    then have "wp ?rest ?Q ?R (ow, w)"
      by (intro rest) (use at0 in \<open>simp_all add: decoded_content_def\<close>)
    then show ?thesis
      unfolding encoder_finish_def Let_def stored(2) content_encoder.case st_bind_lift .
  next
    case (zstd level ce n)
    then have "codec_ok (ce_codec ce)" using C by (auto simp: codecs_ok_def)
    then show ?thesis
      using codec [of ce] zstd(1,3,4) unfolding encoder_finish_def Let_def zstd(2) content_encoder.case
      by (simp add: decoded_content_def)
  next
    case (gzip level ce n)
    then have "codec_ok (ce_codec ce)" using C by (auto simp: codecs_ok_def)
    then show ?thesis
      using codec [of ce] gzip(1,3,4) unfolding encoder_finish_def Let_def gzip(2) content_encoder.case
      by (simp add: decoded_content_def)
  qed
qed

end
