(* ===== verification/Store.thy ===== *)
theory Store
  imports Updates Compression
begin

text \<open>
  What a directory of object files is to its users: a map from paths to objects. The abstraction
  reads every visible file the way the library does; the lemmas are about finished writers and
  rewriting updates as single assignments to that map. At the end stand the sample environment,
  writer and object that the witnesses of the file layer run on.
\<close>

section \<open>The abstract store\<close>

record 'hn stored_object =
  so_compression :: compression_types
  so_metadata :: "'hn tags"
  so_tags :: "u8 list tags"
  so_content :: "u8 list"

type_synonym 'hn store = "path \<Rightarrow> 'hn stored_object option"

text \<open>What the library reads from a file; a file that ends before its content does holds no object.\<close>

definition parse_object :: "'hn env \<Rightarrow> u8 list \<Rightarrow> 'hn stored_object option" where
  "parse_object E d =
     (case header_read_from_bytes (take 32 d) of
        Ok h \<Rightarrow>
          (let ts = unat (h_tags_start h); cs = unat (h_content_start h)
           in if length d < cs + unat (content_length h) then None
              else case decode_with (read_tags (read_metakey (header_names E))) (take (ts - 32) (drop 32 d)) of
                Ok md \<Rightarrow>
                  (case decode_with (read_tags read_string) (take (cs - ts) (drop ts d)) of
                     Ok t \<Rightarrow> Some \<lparr>so_compression = compression_type h, so_metadata = md, so_tags = t,
                        so_content = take (unat (content_length h)) (drop cs d)\<rparr>
                   | _ \<Rightarrow> None)
              | _ \<Rightarrow> None)
      | _ \<Rightarrow> None)"

definition abs_store :: "'hn env \<Rightarrow> world \<Rightarrow> 'hn store" where
  "abs_store E w p = Option.bind (view_of w p) (parse_object E)"

lemma parse_held:
  assumes H: "header_name_ok (header_names E)" and holds: "holds_object E d h md t content"
  shows "parse_object E d = Some \<lparr>so_compression = compression_type h, so_metadata = md, so_tags = t, so_content = content\<rparr>"
proof -
  note D = holds_objectD [OF H holds]
  have ok: "header_ok h" "tags_ok (\<lambda>_. True) md" "tags_ok string_ok t" "unat (content_length h) = length content"
    using holds by (simp_all add: holds_object_def sections_ok_def)
  obtain z where z: "take (unat (h_tags_start h) - 32) (drop 32 d) = wire_metadata E md @ z"
    using D(3) by (auto simp: HEADER_SIZE_def)
  obtain y where y: "take (unat (h_content_start h) - unat (h_tags_start h)) (drop (unat (h_tags_start h)) d) =
      wire_tag_block t @ y"
    using D(6) by blast
  have "decode_with (read_tags (read_metakey (header_names E))) (wire_metadata E md @ z) = Ok md"
    using decode_metadata [OF H ok(2), of z] by (auto simp: decode_with_def)
  moreover have "decode_with (read_tags read_string) (wire_tag_block t @ y) = Ok t"
    using decode_tag_block [OF ok(3), of y] by (auto simp: decode_with_def)
  ultimately show ?thesis
    using D(1,8,9) ok by (simp add: parse_object_def z y)
qed

lemma parse_version:
  "header_name_ok (header_names E) \<Longrightarrow> version_of E ct md t content d \<Longrightarrow>
   parse_object E d = Some \<lparr>so_compression = ct, so_metadata = md, so_tags = t, so_content = content\<rparr>"
  by (auto simp: version_of_def parse_held)

text \<open>The object a writer stands for.\<close>

definition object_of :: "'hn object_writer \<Rightarrow> u8 list \<Rightarrow> 'hn stored_object" where
  "object_of ow content =
     \<lparr>so_compression = wr_compression ow, so_metadata = wr_metadata ow, so_tags = wr_tags ow, so_content = content\<rparr>"

lemma parse_complete:
  "header_name_ok (header_names E) \<Longrightarrow> complete_object E ow content d \<Longrightarrow> parse_object E d = Some (object_of ow content)"
  by (simp add: complete_object_version parse_version object_of_def)

lemma abs_store_view: "view_of w' p = view_of w p \<Longrightarrow> abs_store E w' p = abs_store E w p"
  by (simp add: abs_store_def)

lemma abs_store_atomic:
  assumes "header_name_ok (header_names E)" and "atomic_update p P w w'" and "\<And>d. P d \<Longrightarrow> parse_object E d = Some so"
  shows "abs_store E w' p = abs_store E w p \<or> abs_store E w' p = Some so"
  using assms by (auto simp: atomic_update_def abs_store_def)

lemma abs_store_finished:
  assumes H: "header_name_ok (header_names E)" and fin: "finished_object E ow content ob w'"
  shows "abs_store E w' (wr_final_path ow) = Some (object_of ow content)"
proof -
  obtain f where f: "w_open w' (ob_file ob) = Some f"
    and holds: "holds_object E (w_data w' (of_inode f)) (ob_header ob) (ob_metadata ob) (wr_tags ow) content"
    and rest: "ob_metadata ob = wr_metadata ow" "compression_type (ob_header ob) = wr_compression ow"
      "w_names w' (wr_final_path ow) = Some (of_inode f)"
    using fin by (auto simp: finished_object_def object_at_def)
  then show ?thesis
    using parse_held [OF H holds] by (simp add: abs_store_def view_of_def object_of_def)
qed

lemma abs_store_updated:
  assumes H: "header_name_ok (header_names E)" and upd: "updated_object E ob md t content ob' w'"
  shows "abs_store E w' (ob_path ob) =
     Some \<lparr>so_compression = compression_type (ob_header ob), so_metadata = md, so_tags = t, so_content = content\<rparr>"
proof -
  obtain f where f: "w_open w' (ob_file ob') = Some f"
    and holds: "holds_object E (w_data w' (of_inode f)) (ob_header ob') (ob_metadata ob') t content"
    and rest: "ob_metadata ob' = md" "compression_type (ob_header ob') = compression_type (ob_header ob)"
      "w_names w' (ob_path ob) = Some (of_inode f)"
    using upd by (auto simp: updated_object_def object_at_def)
  then show ?thesis
    using parse_held [OF H holds] by (simp add: abs_store_def view_of_def)
qed

section \<open>Samples\<close>

text \<open>A codec that stores what it is given and marks the end; an environment without faults.\<close>

definition tail_codec :: codec where
  "tail_codec = \<lparr>cd_start = (\<lambda>_. Ok ()), cd_write = (\<lambda>_ _ buf. Ok (length buf, buf)), cd_flush = (\<lambda>_ _. Ok []),
     cd_finish = (\<lambda>_ _. Ok [0]), cd_decode = (\<lambda>d. if d = [] then Err UnexpectedEofKind else Ok (butlast d))\<rparr>"

definition sample_env :: "u8 env" where
  "sample_env = \<lparr>fault = (\<lambda>_. None), transfer = (\<lambda>_. 4096), process_id = 7, header_names = letter_names,
     zstd_codec = None, gzip_codec = Some tail_codec\<rparr>"

text \<open>The same with every tenth call failing.\<close>

definition faulty_env :: "u8 env" where
  "faulty_env = sample_env\<lparr>fault := (\<lambda>t. if t mod 10 = 9 then Some StorageFull else None)\<rparr>"

lemma codec_run_tail: "codec_run tail_codec level steps acc out \<Longrightarrow> out = acc"
  by (induction rule: codec_run.induct) (auto simp: tail_codec_def)

lemma tail_codec_ok: "codec_ok tail_codec"
  unfolding codec_ok_def
proof (intro conjI allI impI)
  fix level steps acc out emitted
  assume "codec_run tail_codec level steps acc out" and "cd_finish tail_codec level steps = Ok emitted"
  then show "cd_decode tail_codec (out @ emitted) = Ok acc"
    using codec_run_tail by (auto simp: tail_codec_def)
qed (auto simp: tail_codec_def)

lemma sample_env_ok: "reliable sample_env" "header_name_ok (header_names sample_env)" "codecs_ok sample_env"
    "header_name_ok (header_names faulty_env)"
  by (simp_all add: sample_env_def faulty_env_def reliable_def letter_names_ok codecs_ok_def tail_codec_ok)

definition sample_dir :: path where "sample_dir = [''d'']"
definition sample_path :: path where "sample_path = [''d'', ''o'']"
definition sample_temp :: path where "sample_temp = [''d'', ''.o.7.0.tuxtmp'']"

definition empty_world :: world where
  "empty_world = \<lparr>w_names = (\<lambda>_. None), w_dirs = [[], sample_dir], w_data = (\<lambda>_. []), w_next = 0,
     w_open = (\<lambda>_. None), w_next_fd = 0, w_counter = 0, w_clock = 0, w_trace = []\<rparr>"

text \<open>Three bytes were streamed behind a prefix of 96 bytes.\<close>

definition sample_writer :: "u8 object_writer" where
  "sample_writer = \<lparr>wr_file = 0, wr_temp_path = Some sample_temp, wr_final_path = sample_path,
     wr_layout = \<lparr>tags_start = 64, content_start = 96\<rparr>, wr_layout_options = layout_default,
     wr_compression = NoCompression, wr_metadata = [], wr_tags = [], wr_content_length = 3, wr_sync = True,
     wr_allow_raw_writes = True\<rparr>"

definition streaming_world :: world where
  "streaming_world = empty_world\<lparr>w_names := [sample_temp \<mapsto> 0], w_data := (\<lambda>_. replicate 96 0 @ [1, 2, 3]),
     w_next := 1, w_open := [0 \<mapsto> \<lparr>of_inode = 0, of_pos = 99, of_writable = True\<rparr>], w_next_fd := 1, w_counter := 1\<rparr>"

text \<open>The same object, published and opened for writing.\<close>

definition sample_object :: "u8 tux_object" where
  "sample_object = from_parts 0 sample_path
     \<lparr>version = 0, compression_type = NoCompression, h_tags_start = 64, h_content_start = 96, content_length = 3,
      bit_flags = 0\<rparr> [] True"

definition published_world :: world where
  "published_world = empty_world\<lparr>w_names := [sample_path \<mapsto> 0],
     w_data := (\<lambda>_. prefix_image sample_env (ob_header sample_object) [] [] \<lparr>tags_start = 64, content_start = 96\<rparr> @ [1, 2, 3]),
     w_next := 1, w_open := [0 \<mapsto> \<lparr>of_inode = 0, of_pos = 0, of_writable = True\<rparr>], w_next_fd := 1\<rparr>"

lemma sample_sections_ok: "sections_ok [] []"
  by (simp add: sections_ok_def tags_ok_def entries_ok_def)

lemma worlds_ok: "world_ok empty_world" "world_ok streaming_world" "world_ok published_world"
  by (simp_all add: world_ok_def empty_world_def streaming_world_def published_world_def)

lemma sample_writer_at: "writer_at sample_writer streaming_world sample_temp 0 [1, 2, 3]"
  by (simp add: writer_at_def sample_writer_def streaming_world_def empty_world_def sample_temp_def sample_path_def
      sample_dir_def stored_content_def)

lemma sample_layout_fits: "layout_fits \<lparr>tags_start = 64, content_start = 96\<rparr> (metadata_size E []) (tag_block_size [])"
  by (simp add: layout_fits_def metadata_size_def tag_block_size_def tags_size_def HEADER_SIZE_def)

lemma sample_holds: "holds_object sample_env (w_data published_world 0) (ob_header sample_object) [] [] [1, 2, 3]"
  using sample_layout_fits [of sample_env]
  by (simp add: holds_object_def published_world_def sample_object_def from_parts_def header_layout_def header_ok_def
      CURRENT_VERSION_def sample_sections_ok)

lemma sample_object_at: "object_at sample_env sample_object published_world [] [1, 2, 3]"
proof -
  have "w_open published_world (ob_file sample_object) = Some \<lparr>of_inode = 0, of_pos = 0, of_writable = True\<rparr>"
    and "ob_metadata sample_object = []"
    by (simp_all add: published_world_def sample_object_def from_parts_def)
  then show ?thesis using sample_holds by (simp add: object_at_def)
qed

end
