(* ===== verification/Guarantees.thy ===== *)
theory Guarantees
  imports Store
begin

text \<open>
  The properties of the object files of \<open>src/src/fs\<close>: what each operation of the writer and of an
  opened object does on every outcome, under any faults the environment produces; and what a
  sequence of them amounts to.
\<close>

section \<open>Opening\<close>

lemma wp_returns: "wp m Q R s \<Longrightarrow> (\<And>e s'. \<not> R e s') \<Longrightarrow> \<exists>a s'. m s = (Ok a, s') \<and> Q a s'"
  by (erule wp_total) auto

lemma open_wp:
  assumes H: "header_name_ok (header_names E)" and named: "w_names w p = Some i"
    and holds: "holds_object E (w_data w i) h md t content"
  shows "wp (st_bind (st_map_err IO (sys_open E p wr)) (\<lambda>fd. from_file E fd p wr))
     (\<lambda>ob w'. same_files w w' \<and> ob = from_parts (w_next_fd w) p h md wr \<and> object_at E ob w' t content
        \<and> map_option (\<lambda>f. (of_inode f, of_writable f)) (w_open w' (ob_file ob)) = Some (i, wr) \<and> (world_ok w \<longrightarrow> world_ok w'))
     (\<lambda>e w'. same_files w w' \<and> \<not> reliable E) w"
proof (rule wp_bind_map_err [OF sys_open_wp], goal_cases)
  case (1 fd w1)
  let ?f = "\<lparr>of_inode = i, of_pos = 0, of_writable = wr\<rparr>"
  from 1 named have fd: "fd = w_next_fd w" and w1: "w1 = tick (w\<lparr>w_open := (w_open w)(fd \<mapsto> ?f), w_next_fd := fd + 1\<rparr>)"
    by auto
  have "view_of (w\<lparr>w_open := (w_open w)(fd \<mapsto> ?f), w_next_fd := fd + 1\<rparr>) = view_of w"
    by (simp add: view_of_def fun_eq_iff split: option.splits)
  then have same: "same_files w w1"
    using shown_tick [of "\<lambda>v. v = view_of w" "w\<lparr>w_open := (w_open w)(fd \<mapsto> ?f), w_next_fd := fd + 1\<rparr>" w]
    by (simp add: same_files_def w1 shown_def)
  have o1: "w_open w1 fd = Some ?f" and d1: "w_data w1 = w_data w" by (simp_all add: w1)
  have holds1: "holds_object E (w_data w1 (of_inode ?f)) h md t content" using holds by (simp add: d1)
  then have at: "object_at E (from_parts fd p h md wr) w1 t content"
    by (simp add: object_at_def from_parts_def o1)
  show ?case
  proof (rule wp_conseq [OF from_file_wp [OF o1 H holds1]], goal_cases)
    case (1 ob w2)
    then have fr: "frame {fd} {} w1 w2" by simp
    then have "map_option (\<lambda>f. (of_inode f, of_writable f)) (w_open w2 fd) = Some (i, wr)"
      by (simp add: frame_def o1)
    moreover have "world_ok w2" if "world_ok w"
      by (rule world_ok_frame [OF fr]) (use that named in \<open>auto simp: world_ok_def w1 fd intro: less_SucI\<close>)
    ultimately show ?case
      using 1 same_files_trans [OF same frame_same_files] object_at_frame [OF _ at, of w2]
      by (auto simp: from_parts_def fd)
  next
    case (2 e w2)
    then show ?case using same_files_trans [OF same frame_same_files] by auto
  qed
next
  case (2 e w1)
  then show ?case
    using named frame_same_files [OF frame_tick [OF frame_refl]] by auto
qed

section \<open>Storing an object\<close>

lemma quiet_view: "quiet N w w' \<Longrightarrow> q \<in> N \<Longrightarrow> view_of w' q = view_of w q"
  by (simp add: quiet_def)

text \<open>
  The two halves of storing an object without faults: a writer is created and written to, and a
  finished object reads back.
\<close>

lemma writing_succeeds:
  assumes R: "reliable E" and ok: "world_ok w"
    and path: "butlast p \<in> set (w_dirs w)" "p \<notin> set (w_dirs w)" "name_free E p w"
    and plain: "co_compression opts = NoCompression"
    and l: "compute (co_layout opts) (metadata_size E (co_metadata opts)) (tag_block_size (co_tags opts)) = Ok l"
    and room: "unat (content_start l) + length content \<le> max_offset"
  obtains ow w1 ow' w2 tp where "create_writer E p opts w = (Ok ow, w1)" "created E p opts w ow w1 tp"
    and "writer_write_all E content (ow, w1) = (Ok (), (ow', w2))" "frame {wr_file ow} {w_next w} w1 w2"
    and "writer_at ow' w2 tp (w_next w) content" "world_ok w2" "wr_final_path ow' = p" "wr_metadata ow' = co_metadata opts"
    and "wr_tags ow' = co_tags opts" "wr_compression ow' = NoCompression" "\<exists>l'. finish_layout E ow' = Ok (Some l')"
proof -
  have "wp (create_writer E p opts) (\<lambda>ow w'. \<exists>tp. created E p opts w ow w' tp) (\<lambda>_ _. False) w"
    by (rule wp_conseq [OF create_writer_wp [OF ok]]) (use R path plain l in \<open>auto simp: is_supported_def\<close>)
  then obtain ow w1 tp where create: "create_writer E p opts w = (Ok ow, w1)" and c: "created E p opts w ow w1 tp"
    by (auto dest: wp_returns)
  then have ow: "ow = fresh_writer E p opts l tp (w_next_fd w)" using l by (auto simp: created_def)
  have at1: "writer_at ow w1 tp (w_next w) []" and ok1: "world_ok w1" using c by (simp_all add: created_def)
  have "wp (writer_write_all E content) (\<lambda>_ s. frame {wr_file ow} {w_next w} w1 (snd s) \<and> same_writer ow (fst s)
        \<and> writer_at (fst s) (snd s) tp (w_next w) content) (\<lambda>_ _. False) (ow, w1)"
    by (rule wp_conseq [OF writer_write_all_wp [OF at1]])
       (use R plain room in \<open>auto simp: ow fresh_writer_def\<close>)
  then obtain ow' w2 where wrt: "writer_write_all E content (ow, w1) = (Ok (), (ow', w2))"
    and fr: "frame {wr_file ow} {w_next w} w1 w2" and same: "same_writer ow ow'"
    and at2: "writer_at ow' w2 tp (w_next w) content"
    by (auto dest!: wp_returns)
  note D = same_writerD [OF same]
  have ow': "wr_final_path ow' = p" "wr_metadata ow' = co_metadata opts" "wr_tags ow' = co_tags opts"
    "wr_compression ow' = NoCompression" "wr_layout ow' = l" "wr_layout_options ow' = co_layout opts"
    using D plain by (simp_all add: ow fresh_writer_def)
  have fit: "\<exists>l'. finish_layout E ow' = Ok (Some l')"
    using repartition_fits_again [OF l] by (auto simp: finish_layout_def ow')
  show ?thesis by (rule that [OF create c wrt fr at2 world_ok_frame [OF fr ok1] ow'(1-4) fit])
qed

lemma finishing_succeeds:
  assumes H: "header_name_ok (header_names E)" and R: "reliable E" and ok: "world_ok w" and at: "writer_at ow w tp i content"
    and secs: "sections_ok (wr_metadata ow) (wr_tags ow)" and fit: "\<exists>l. finish_layout E ow = Ok (Some l)"
    and path: "wr_final_path ow \<notin> set (w_dirs w)"
  obtains ob w' where "finish E ow w = (Ok ob, w')" "finished_object E ow content ob w'" "w_names w' tp = None"
    and "\<And>q. q \<noteq> wr_final_path ow \<Longrightarrow> q \<noteq> tp \<Longrightarrow> view_of w' q = view_of w q"
proof -
  have "wp (finish E ow) (\<lambda>ob w'. finished_object E ow content ob w' \<and> w_names w' tp = None
        \<and> (\<forall>q. q \<noteq> wr_final_path ow \<longrightarrow> q \<noteq> tp \<longrightarrow> view_of w' q = view_of w q)) (\<lambda>_ _. False) w"
    by (rule wp_conseq [OF finish_wp [OF H ok at secs]]) (use R path fit in \<open>auto simp: finishable_def\<close>)
  then show ?thesis using that by (auto dest!: wp_returns)
qed

lemma reading_back:
  assumes H: "header_name_ok (header_names E)" and R: "reliable E" and obj: "finished_object E ow content ob w"
    and plain: "wr_compression ow = NoCompression" and room: "length content \<le> max_offset"
  obtains ob' w' where "open_object E (wr_final_path ow) w = (Ok ob', w')" "ob_metadata ob' = wr_metadata ow"
    and "compression_type (ob_header ob') = NoCompression"
    and "fst (object_read_tags E (ob', w')) = Ok (wr_tags ow)" "fst (read_content_to_vec E (ob', w')) = Ok content"
proof -
  obtain i where named: "w_names w (wr_final_path ow) = Some i"
    and holds: "holds_object E (w_data w i) (ob_header ob) (wr_metadata ow) (wr_tags ow) content"
    and ct: "compression_type (ob_header ob) = NoCompression"
    using obj plain by (auto simp: finished_object_def object_at_def)
  have "wp (open_object E (wr_final_path ow)) (\<lambda>ob' w'. ob' = from_parts (w_next_fd w) (wr_final_path ow) (ob_header ob) (wr_metadata ow) False
        \<and> object_at E ob' w' (wr_tags ow) content) (\<lambda>_ _. False) w"
    unfolding open_object_def by (rule wp_conseq [OF open_wp [OF H named holds]]) (use R in auto)
  then obtain ob' w' where opn: "open_object E (wr_final_path ow) w = (Ok ob', w')"
    and ob': "ob' = from_parts (w_next_fd w) (wr_final_path ow) (ob_header ob) (wr_metadata ow) False"
    and at: "object_at E ob' w' (wr_tags ow) content"
    by (auto dest!: wp_returns)
  have "wp (object_read_tags E) (\<lambda>r s. r = wr_tags ow) (\<lambda>_ _. False) (ob', w')"
    by (rule wp_conseq [OF object_tags_wp(1) [OF H at]]) (use R in auto)
  moreover have "wp (read_content_to_vec E) (\<lambda>r s. r = content) (\<lambda>_ _. False) (ob', w')"
    by (rule wp_conseq [OF read_content_wp [OF H at]])
       (use R ct room in \<open>auto simp: ob' from_parts_def decoded_content_def split: option.splits\<close>)
  moreover have "ob_metadata ob' = wr_metadata ow" "compression_type (ob_header ob') = NoCompression"
    by (simp_all add: ob' from_parts_def ct)
  ultimately show ?thesis using that opn by (auto dest!: wp_returns)
qed

text \<open>C1: Storing and reading back. In an environment without faults, creating an uncompressed object
  whose sections can be laid out, writing its content and finishing it returns an object; opening the
  path then gives the same metadata, tags and content. The directory holds exactly one object more.\<close>

theorem store_round_trip:
  assumes H: "header_name_ok (header_names E)" and R: "reliable E" and ok: "world_ok w"
    and path: "butlast p \<in> set (w_dirs w)" "p \<notin> set (w_dirs w)" "name_free E p w"
    and secs: "sections_ok (co_metadata opts) (co_tags opts)" and plain: "co_compression opts = NoCompression"
    and l: "compute (co_layout opts) (metadata_size E (co_metadata opts)) (tag_block_size (co_tags opts)) = Ok l"
    and room: "unat (content_start l) + length content \<le> max_offset"
  shows "\<exists>ow w1 ow' w2 ob w3 ob' w4.
     create_writer E p opts w = (Ok ow, w1) \<and>
     writer_write_all E content (ow, w1) = (Ok (), (ow', w2)) \<and>
     finish E ow' w2 = (Ok ob, w3) \<and> open_object E p w3 = (Ok ob', w4) \<and>
     ob_metadata ob' = co_metadata opts \<and> fst (object_read_tags E (ob', w4)) = Ok (co_tags opts) \<and>
     fst (read_content_to_vec E (ob', w4)) = Ok content \<and>
     abs_store E w3 = (abs_store E w)(p \<mapsto> \<lparr>so_compression = NoCompression, so_metadata = co_metadata opts,
        so_tags = co_tags opts, so_content = content\<rparr>)"
proof -
  obtain ow w1 ow' w2 tp where create: "create_writer E p opts w = (Ok ow, w1)" and c: "created E p opts w ow w1 tp"
    and wrt: "writer_write_all E content (ow, w1) = (Ok (), (ow', w2))" and fr: "frame {wr_file ow} {w_next w} w1 w2"
    and at2: "writer_at ow' w2 tp (w_next w) content" and ok2: "world_ok w2" and ow': "wr_final_path ow' = p"
      "wr_metadata ow' = co_metadata opts" "wr_tags ow' = co_tags opts" "wr_compression ow' = NoCompression"
    and fit: "\<exists>l'. finish_layout E ow' = Ok (Some l')"
    by (rule writing_succeeds [OF R ok path plain l room])
  have at1: "writer_at ow w1 tp (w_next w) []" and q1: "quiet (- {tp}) w w1"
    and d1: "w_dirs w1 = w_dirs w" and tp: "w_names w tp = None" "tp \<noteq> p"
    using c by (simp_all add: created_def)
  have "wr_final_path ow' \<notin> set (w_dirs w2)" using path d1 frameD(2) [OF fr] by (simp add: ow')
  from finishing_succeeds [OF H R ok2 at2 secs [folded ow'] fit this, unfolded ow']
  obtain ob w3 where fin: "finish E ow' w2 = (Ok ob, w3)" and obj: "finished_object E ow' content ob w3"
    and gone: "w_names w3 tp = None" and view: "\<And>q. q \<noteq> p \<Longrightarrow> q \<noteq> tp \<Longrightarrow> view_of w3 q = view_of w2 q"
    by blast
  have "view_of w3 q = view_of w q" if "q \<noteq> p" for q
  proof (cases "q = tp")
    case True
    then show ?thesis using gone tp by (simp add: view_of_def)
  next
    case False
    have "view_of w2 q = view_of w1 q"
      by (rule frame_view [OF fr]) (use at1 False in \<open>auto simp: writer_at_def\<close>)
    then show ?thesis using view [OF that False] q1 False by (simp add: quiet_def)
  qed
  then have "abs_store E w3 = (abs_store E w)(p \<mapsto> object_of ow' content)"
    using abs_store_finished [OF H obj] by (auto simp: fun_eq_iff ow' intro: abs_store_view)
  moreover have "length content \<le> max_offset" using room by simp
  from reading_back [OF H R obj ow'(4) this, unfolded ow'] obtain ob' w4 where "open_object E p w3 = (Ok ob', w4)" "ob_metadata ob' = co_metadata opts"
    and "fst (object_read_tags E (ob', w4)) = Ok (co_tags opts)" "fst (read_content_to_vec E (ob', w4)) = Ok content" .
  ultimately show ?thesis using create wrt fin by (auto simp: object_of_def ow')
qed

theorem store_round_trip_witness:
  "\<exists>ow w1 ow' w2 ob w3 ob' w4.
     create_writer sample_env sample_path (create_options_new\<lparr>co_layout := layout_packed\<rparr>) empty_world = (Ok ow, w1) \<and>
     writer_write_all sample_env [1, 2, 3] (ow, w1) = (Ok (), (ow', w2)) \<and>
     finish sample_env ow' w2 = (Ok ob, w3) \<and> open_object sample_env sample_path w3 = (Ok ob', w4) \<and>
     ob_metadata ob' = [] \<and> fst (object_read_tags sample_env (ob', w4)) = Ok [] \<and>
     fst (read_content_to_vec sample_env (ob', w4)) = Ok [1, 2, 3] \<and>
     abs_store sample_env w3 = (abs_store sample_env empty_world)(sample_path \<mapsto>
        \<lparr>so_compression = NoCompression, so_metadata = [], so_tags = [], so_content = [1, 2, 3]\<rparr>)"
proof -
  let ?opts = "create_options_new\<lparr>co_layout := layout_packed\<rparr> :: u8 create_options"
  have new: "co_metadata (create_options_new :: u8 create_options) = []" "co_tags (create_options_new :: u8 create_options) = []"
    "co_compression (create_options_new :: u8 create_options) = NoCompression"
    by (simp_all add: create_options_new_def tags_new_def)
  then have plain: "co_compression ?opts = NoCompression" by simp
  have l: "compute (co_layout ?opts) (metadata_size sample_env (co_metadata ?opts)) (tag_block_size (co_tags ?opts))
      = Ok \<lparr>tags_start = 34, content_start = 36\<rparr>"
    by (simp add: new compute_def layout_packed_def metadata_size_def tag_block_size_def tags_size_def usize_add_def
        align_up_def usize_mul_def div_ceil_def HEADER_SIZE_def usize_max_def)
  show ?thesis
    using store_round_trip [of sample_env empty_world sample_path ?opts _ "[1, 2, 3]",
        OF sample_env_ok(2,1) worlds_ok(1) _ _ _ _ plain l]
    by (simp add: new sample_sections_ok empty_world_def sample_path_def sample_dir_def name_free_def
        temp_candidate_def max_offset_def)
qed

section \<open>The writer\<close>

text \<open>The ways a creation can end before any file is touched.\<close>

abbreviation planned_layout :: "'hn env \<Rightarrow> 'hn create_options \<Rightarrow> (section_layout, object_file_error) res" where
  "planned_layout E opts \<equiv> compute (co_layout opts) (metadata_size E (co_metadata opts)) (tag_block_size (co_tags opts))"

lemma temp_file_loop_no_panic: "fst (temp_file_loop E p n w) \<noteq> Panic"
proof (induction n arbitrary: w)
  case (Suc n)
  then show ?case
    by (auto simp: st_bind_def next_temp_counter_def Let_def create_temp_file_Panic split: prod.splits res.splits)
qed (simp add: st_lift_def)

lemma sys_seek_no_panic: "fst (sys_seek E fd n w) \<noteq> Panic"
  by (simp add: sys_seek_def syscall_def with_file_def split: option.splits prod.splits)

lemma create_unsupported:
  "\<not> is_supported E (co_compression opts) \<Longrightarrow>
   create_writer E p opts w = (Err (UnsupportedCompression (co_compression opts)), w)"
  by (simp add: create_writer_def ensure_supported_def st_lift_def)

lemma create_unplanned:
  assumes "is_supported E (co_compression opts)"
  shows "planned_layout E opts = Err e \<Longrightarrow> create_writer E p opts w = (Err e, w)"
    and "planned_layout E opts = Panic \<Longrightarrow> create_writer E p opts w = (Panic, w)"
  using assms by (simp_all add: create_writer_def ensure_supported_def st_lift_def)

lemma create_panics:
  assumes "fst (create_writer E p opts w) = Panic"
  shows "is_supported E (co_compression opts) \<and> planned_layout E opts = Panic"
proof -
  have sup: "is_supported E (co_compression opts)" using assms create_unsupported [of E opts p w] by force
  have "planned_layout E opts \<noteq> Ok l" for l
  proof
    assume l: "planned_layout E opts = Ok l"
    obtain r w1 where t: "temp_file_loop E p 32 w = (r, w1)" by (metis surj_pair)
    have "fst (temp_file_loop E p 32 w) \<noteq> Panic" by (rule temp_file_loop_no_panic)
    then show False
      using assms sup l t
      by (cases r) (auto simp: create_writer_def ensure_supported_def st_lift_def st_bind_def create_temp_file_def Let_def
          dest: arg_cong [of _ _ fst] simp: sys_seek_no_panic split: prod.splits res.splits)
  qed
  moreover have "planned_layout E opts \<noteq> Err e" for e using assms create_unplanned(1) [OF sup, where e = e and p = p and w = w] by auto
  ultimately show ?thesis using sup by (cases "planned_layout E opts") auto
qed

text \<open>C35: Creating a writer. It opens a new temporary file next to the destination, with the layout that
  the sizes of the sections give, and changes nothing any other path shows. Compression that is not
  supported, and a layout that cannot be computed, are reported before anything is touched; it
  panics exactly when the sizes of the layout overflow, and then nothing is touched either. Any
  other failure leaves every path there was as before, and creates nothing at all if the parent
  directory does not exist. Where nothing fails, the directory is there, and a first temporary name
  is free, the writer is created.\<close>

theorem create_outcome:
  assumes "world_ok w"
  shows "case create_writer E p opts w of
     (Ok ow, w') \<Rightarrow> butlast p \<in> set (w_dirs w) \<and> is_supported E (co_compression opts)
       \<and> (\<exists>tp. w_names w tp = None \<and> tp \<noteq> p \<and> writer_at ow w' tp (w_next w) [] \<and> quiet (- {tp}) w w')
       \<and> planned_layout E opts = Ok (wr_layout ow)
       \<and> layout_fits (wr_layout ow) (metadata_size E (co_metadata opts)) (tag_block_size (co_tags opts))
   | (Err e, w') \<Rightarrow> quiet (old_names w p) w w' \<and> (butlast p \<notin> set (w_dirs w) \<longrightarrow> calm w w')
       \<and> (if \<not> is_supported E (co_compression opts) then e = UnsupportedCompression (co_compression opts) \<and> w' = w
          else planned_layout E opts = Err e \<and> w' = w
            \<or> (\<exists>l. planned_layout E opts = Ok l)
              \<and> \<not> (reliable E \<and> butlast p \<in> set (w_dirs w) \<and> name_free E p w))
   | (Panic, w') \<Rightarrow> w' = w \<and> is_supported E (co_compression opts) \<and> planned_layout E opts = Panic
       \<and> usize_max < layout_demand (co_layout opts) (metadata_size E (co_metadata opts)) (tag_block_size (co_tags opts))"
proof -
  obtain r w' where run: "create_writer E p opts w = (r, w')" by (metis surj_pair)
  note spec = wp_run [OF create_writer_wp [OF assms] run]
  show ?thesis
  proof (cases r)
    case (Ok ow)
    with spec obtain tp where c: "created E p opts w ow w' tp" by auto
    then obtain l where l: "planned_layout E opts = Ok l"
      and ow: "ow = fresh_writer E p opts l tp (w_next_fd w)" by (auto simp: created_def)
    then have fits: "planned_layout E opts = Ok (wr_layout ow)"
      "layout_fits (wr_layout ow) (metadata_size E (co_metadata opts)) (tag_block_size (co_tags opts))"
      using compute_result [where opts = "co_layout opts" and ms = "metadata_size E (co_metadata opts)"
          and ts = "tag_block_size (co_tags opts)"]
      by (simp_all add: fresh_writer_def)
    moreover have at: "writer_at ow w' tp (w_next w) []" and "w_dirs w' = w_dirs w"
      and "is_supported E (co_compression opts)" "w_names w tp = None" "tp \<noteq> p" "quiet (- {tp}) w w'"
      using c unfolding created_def by blast+
    moreover from at have "butlast (wr_final_path ow) \<in> set (w_dirs w')" unfolding writer_at_def by blast
    ultimately have "butlast p \<in> set (w_dirs w)" by (simp add: ow fresh_writer_def)
    then show ?thesis unfolding run Ok prod.case res.case using at fits c unfolding created_def by blast
  next
    case (Err e)
    with spec have n: "quiet (old_names w p) w w' \<and> (butlast p \<notin> set (w_dirs w) \<longrightarrow> calm w w')"
      by (simp add: not_created_def)
    have "if \<not> is_supported E (co_compression opts) then e = UnsupportedCompression (co_compression opts) \<and> w' = w
        else planned_layout E opts = Err e \<and> w' = w \<or> (\<exists>l. planned_layout E opts = Ok l)
              \<and> \<not> (reliable E \<and> butlast p \<in> set (w_dirs w) \<and> name_free E p w)"
    proof (cases "is_supported E (co_compression opts)")
      case False
      then show ?thesis using run Err create_unsupported [OF False, of p w] by simp
    next
      case sup: True
      show ?thesis
        by (cases "planned_layout E opts")
           (use sup run Err spec create_unplanned [OF sup, where p = p and w = w] in auto)
    qed
    with n show ?thesis unfolding run Err prod.case res.case by blast
  next
    case Panic
    then have "is_supported E (co_compression opts)" "planned_layout E opts = Panic"
      using create_panics [of E p opts w] run by simp_all
    moreover from this have "w' = w" using run create_unplanned(2) [where E = E and opts = opts and p = p and w = w] by simp
    moreover have "usize_max < layout_demand (co_layout opts) (metadata_size E (co_metadata opts)) (tag_block_size (co_tags opts))"
      using compute_result [where opts = "co_layout opts" and ms = "metadata_size E (co_metadata opts)"
          and ts = "tag_block_size (co_tags opts)"] calculation(2) by simp
    ultimately show ?thesis by (simp only: run Panic prod.case res.case)
  qed
qed

theorem create_outcome_witness:
  "\<exists>ow w' tp. create_writer sample_env sample_path (create_options_new\<lparr>co_layout := layout_packed\<rparr>) empty_world = (Ok ow, w')
     \<and> writer_at ow w' tp 0 [] \<and> wr_layout ow = \<lparr>tags_start = 34, content_start = 36\<rparr>"
proof -
  let ?opts = "create_options_new\<lparr>co_layout := layout_packed\<rparr> :: u8 create_options"
  have l: "planned_layout sample_env ?opts = Ok \<lparr>tags_start = 34, content_start = 36\<rparr>"
    by (simp add: create_options_new_def tags_new_def compute_def layout_packed_def metadata_size_def tag_block_size_def
        tags_size_def usize_add_def align_up_def usize_mul_def div_ceil_def HEADER_SIZE_def usize_max_def)
  have place: "is_supported sample_env (co_compression ?opts)" "butlast sample_path \<in> set (w_dirs empty_world)"
    "name_free sample_env sample_path empty_world" "w_next empty_world = 0"
    by (simp_all add: create_options_new_def is_supported_def empty_world_def sample_path_def sample_dir_def name_free_def
        temp_candidate_def)
  show ?thesis
    using create_outcome [OF worlds_ok(1), where E = sample_env and p = sample_path and opts = ?opts] l place sample_env_ok(1)
    by (auto split: prod.splits res.splits)
qed

text \<open>C36: Streaming content. A write to an uncompressed object appends the whole buffer to the temporary
  file, whatever the sizes of the transfers; a failure leaves a prefix of it appended, and without
  faults happens only beyond the largest file offset. No path but the temporary one shows anything
  new. A writer that allows no raw writes refuses the buffer and changes nothing.\<close>

theorem streaming_outcome:
  assumes at: "writer_at ow w tp i content"
  shows "case writer_write_all E bs (ow, w) of
     (Ok _, (ow', w')) \<Rightarrow> writer_at ow' w' tp i (content @ bs) \<and> same_writer ow ow' \<and> quiet (- {tp}) w w'
       \<and> (wr_allow_raw_writes ow \<or> bs = [])
   | (Err e, (ow', w')) \<Rightarrow>
       if wr_allow_raw_writes ow
       then (\<exists>n \<le> length bs. writer_at ow' w' tp i (content @ take n bs)) \<and> same_writer ow ow' \<and> quiet (- {tp}) w w'
         \<and> (reliable E \<longrightarrow> max_offset < unat (content_start (wr_layout ow)) + length (content @ bs))
       else e = OtherKind \<and> ow' = ow \<and> w' = w
   | (Panic, _) \<Rightarrow> False"
proof (cases "wr_allow_raw_writes ow")
  case True
  have q: "quiet (- {tp}) w w'" if "frame {wr_file ow} {i} w w'" for w'
    by (rule frame_quiet [OF that]) (use at in \<open>auto simp: writer_at_def\<close>)
  show ?thesis
    using writer_write_all_wp [OF at True, of E bs] q True
    by (auto simp: wp_def split: prod.splits res.splits)
next
  case False
  then show ?thesis
    using at writer_write_all_refused [of ow bs E w]
    by (cases "bs = []") (auto simp: writer_write_all_def write_all.simps [of _ "[]"])
qed

theorem streaming_outcome_witness:
  "case writer_write_all faulty_env [4, 5] (sample_writer, streaming_world) of
     (Ok _, (ow', w')) \<Rightarrow> writer_at ow' w' sample_temp 0 [1, 2, 3, 4, 5]
   | (Err e, (ow', w')) \<Rightarrow> \<exists>n \<le> 2. writer_at ow' w' sample_temp 0 ([1, 2, 3] @ take n [4, 5])
   | (Panic, _) \<Rightarrow> False"
proof -
  have raw: "wr_allow_raw_writes sample_writer" by (simp add: sample_writer_def)
  show ?thesis
    using streaming_outcome [OF sample_writer_at, where E = faulty_env and bs = "[4, 5]"]
    by (auto simp: raw eval_nat_numeral split: prod.splits res.splits)
qed

text \<open>C2: Publishing is atomic. Whatever faults the environment produces during a finish, in place or by
  rewriting, every view of the destination another process could have had is the old one or the
  complete new object, and so is the last; and no other path that existed shows anything new, the
  temporary one apart.\<close>

theorem finish_atomic:
  assumes H: "header_name_ok (header_names E)" and ok: "world_ok w" and at: "writer_at ow w tp i content"
    and secs: "sections_ok (wr_metadata ow) (wr_tags ow)" and run: "finish E ow w = (r, w')"
  shows "atomic_update (wr_final_path ow) (complete_object E ow content) w w'
    \<and> quiet (old_names w (wr_final_path ow) - {wr_final_path ow, tp}) w w' \<and> world_ok w'
    \<and> (\<forall>ob. r = Ok ob \<longrightarrow> finished_object E ow content ob w' \<and> (reliable E \<longrightarrow> w_names w' tp = None))"
  using wp_run [OF finish_wp [OF H ok at secs] run] by (cases r) (auto simp: finish_frame_def)

theorem finish_atomic_witness:
  "\<exists>r w'. finish faulty_env sample_writer streaming_world = (r, w')
    \<and> atomic_update sample_path (complete_object faulty_env sample_writer [1, 2, 3]) streaming_world w'"
proof -
  obtain r w' where run: "finish faulty_env sample_writer streaming_world = (r, w')" by (metis surj_pair)
  have "sections_ok (wr_metadata sample_writer) (wr_tags sample_writer)" "wr_final_path sample_writer = sample_path"
    using sample_sections_ok by (simp_all add: sample_writer_def)
  then show ?thesis
    using finish_atomic [OF sample_env_ok(4) worlds_ok(2) sample_writer_at _ run] run by auto
qed

text \<open>C9: Finishing succeeds. Without faults a finish returns the object, provided that the destination is
  no directory and the sections fit their space; or that they can be laid out again, the content is
  not compressed, and the first temporary name is free. The abstract store then maps the destination
  to the new object, and nothing else changed.\<close>

theorem finish_succeeds:
  assumes H: "header_name_ok (header_names E)" and ok: "world_ok w" and at: "writer_at ow w tp i content"
    and secs: "sections_ok (wr_metadata ow) (wr_tags ow)" and can: "finishable E ow (length content) w"
  shows "\<exists>ob w'. finish E ow w = (Ok ob, w') \<and> finished_object E ow content ob w'
    \<and> abs_store E w' = (abs_store E w)(tp := None, wr_final_path ow \<mapsto> object_of ow content)"
proof -
  have "wp (finish E ow) (\<lambda>ob w'. finished_object E ow content ob w' \<and> w_names w' tp = None
        \<and> (\<forall>q. q \<noteq> wr_final_path ow \<longrightarrow> q \<noteq> tp \<longrightarrow> view_of w' q = view_of w q)) (\<lambda>_ _. False) w"
    by (rule wp_conseq [OF finish_wp [OF H ok at secs]]) (use can in \<open>auto simp: finishable_def\<close>)
  then obtain ob w' where run: "finish E ow w = (Ok ob, w')" and obj: "finished_object E ow content ob w'"
    and gone: "w_names w' tp = None"
    and view: "\<And>q. q \<noteq> wr_final_path ow \<Longrightarrow> q \<noteq> tp \<Longrightarrow> view_of w' q = view_of w q"
    by (auto dest!: wp_returns)
  have "abs_store E w' tp = None" using gone by (simp add: abs_store_def view_of_def)
  then have "abs_store E w' = (abs_store E w)(tp := None, wr_final_path ow \<mapsto> object_of ow content)"
    using abs_store_finished [OF H obj] by (auto simp: fun_eq_iff intro: abs_store_view view)
  with run obj show ?thesis by blast
qed

lemma sample_finish_layout: "\<exists>l. finish_layout sample_env sample_writer = Ok (Some l)"
  by (simp add: finish_layout_def sample_writer_def repartition_eq metadata_size_def tag_block_size_def tags_size_def
      HEADER_SIZE_def layout_default_def DEFAULT_ALIGNMENT_def aligned_def div_ceil_def usize_max_def Let_def)

theorem finish_succeeds_witness:
  "\<exists>ob w'. finish sample_env sample_writer streaming_world = (Ok ob, w')
    \<and> finished_object sample_env sample_writer [1, 2, 3] ob w'
    \<and> abs_store sample_env w' = (abs_store sample_env streaming_world)(sample_temp := None,
        sample_path \<mapsto> object_of sample_writer [1, 2, 3])"
proof -
  have "finishable sample_env sample_writer 3 streaming_world"
    using sample_finish_layout sample_env_ok(1)
    by (auto simp: finishable_def sample_writer_def streaming_world_def empty_world_def sample_path_def sample_dir_def)
  then have can: "finishable sample_env sample_writer (length [1, 2, 3 :: u8]) streaming_world" by (simp add: eval_nat_numeral)
  have "sections_ok (wr_metadata sample_writer) (wr_tags sample_writer)" "wr_final_path sample_writer = sample_path"
    using sample_sections_ok by (simp_all add: sample_writer_def)
  then show ?thesis
    using finish_succeeds [OF sample_env_ok(2) worlds_ok(2) sample_writer_at _ can] by auto
qed

text \<open>Giving up a writer. Dropping or aborting it changes nothing that any path but the temporary one
  shows, and unless the removal fails, the temporary file is gone; an abort reports the failure.\<close>

theorem discard_outcome:
  assumes tmp: "wr_temp_path ow = Some tp"
  shows "quiet (- {tp}) w (drop_writer E ow w) \<and> quiet (- {tp}) w (snd (abort E ow w))
    \<and> (fault E (w_clock w) = None \<longrightarrow> w_names (drop_writer E ow w) tp = None
         \<and> fst (abort E ow w) = Ok () \<and> w_names (snd (abort E ow w)) tp = None)
    \<and> (\<forall>k. fault E (w_clock w) = Some k \<longrightarrow> k \<noteq> NotFound \<longrightarrow> fst (abort E ow w) = Err (IO k))"
proof -
  obtain r w' where run: "sys_remove E tp w = (r, w')" by (metis surj_pair)
  have same: "snd (abort E ow w) = drop_writer E ow w"
    by (cases r) (auto simp: abort_def consume_def with_self_def tmp st_bind_def put_self_def on_world_def run
        drop_writer_def)
  have "quiet (- {tp}) w (drop_writer E ow w)" by (rule drop_writer_quiet) (simp add: tmp)
  then show ?thesis
    unfolding same using run
    by (auto simp: abort_def consume_def with_self_def tmp st_bind_def put_self_def on_world_def
        drop_writer_def sys_remove_def syscall_def split: option.splits)
qed

theorem discard_outcome_witness:
  "quiet (- {sample_temp}) streaming_world (drop_writer faulty_env sample_writer streaming_world)
    \<and> w_names (drop_writer faulty_env sample_writer streaming_world) sample_temp = None
    \<and> fst (abort faulty_env sample_writer streaming_world) = Ok ()"
  using discard_outcome [of sample_writer sample_temp streaming_world faulty_env]
  by (simp add: sample_writer_def faulty_env_def streaming_world_def empty_world_def)

text \<open>The temporary file a failed rename leaks. Publishing gives up the temporary path before the
  rename; when the rename fails, the writer that is dropped on the way out no longer knows the file,
  which stays in the directory with the whole object in it.\<close>

theorem rename_failure_leaks:
  assumes "wr_temp_path ow = Some tp" and "fault E (w_clock w) = Some k"
  shows "consume E (publish E) ow w = (Err (IO k), tick w) \<and> w_names (tick w) tp = w_names w tp"
  by (simp add: publish_failed_rename [OF assms])

theorem rename_failure_leaks_witness:
  "consume faulty_env (publish faulty_env) sample_writer (streaming_world\<lparr>w_clock := 9\<rparr>)
     = (Err (IO StorageFull), tick (streaming_world\<lparr>w_clock := 9\<rparr>))
   \<and> w_names (tick (streaming_world\<lparr>w_clock := 9\<rparr>)) sample_temp = Some 0"
  using rename_failure_leaks [of sample_writer sample_temp faulty_env "streaming_world\<lparr>w_clock := 9\<rparr>" StorageFull]
  by (simp add: sample_writer_def faulty_env_def streaming_world_def)

end
