(* ===== verification/Handles.thy ===== *)
theory Handles
  imports Guarantees
begin

text \<open>
  The properties of opened objects (\<open>src/src/fs/object.rs\<close>, \<open>src/src/fs/reader.rs\<close>): opening whatever a
  path names, reading tags, content and ranges of it, and updating an object in place or by rewriting.
\<close>

section \<open>Opening anything\<close>

text \<open>Whatever bytes a file holds, opening it changes nothing and does not panic.\<close>

lemma read_metakey_safe: "read_metakey H c \<noteq> Panic"
  using byte_vec.rd_safe [of c]
  by (auto simp: read_metakey_def metakey_from_bytes_def split: option.splits)

lemma read_entries_not_Panic: "(\<And>c. krd c \<noteq> Panic) \<Longrightarrow> read_entries krd read_value n m c \<noteq> Panic"
  by (induction n arbitrary: m c) auto

lemma decode_metadata_safe: "decode_with (read_tags (read_metakey H)) bs \<noteq> Panic"
  by (auto simp: decode_with_def read_tags_def read_entries_not_Panic read_metakey_safe)

lemma from_file_safe:
  assumes f: "w_open w fd = Some f"
  shows "wp (from_file E fd p wr) (\<lambda>_ w'. frame {fd} {} w w') (\<lambda>e w'. frame {fd} {} w w' \<and> e \<noteq> None) w"
  unfolding from_file_def
proof (rule wp_bind_map_err [OF sys_seek_wp [OF f]], goal_cases)
  case (1 _ w1)
  then have fr1: "frame {fd} {} w w1" and o1: "w_open w1 fd = Some (f\<lparr>of_pos := 0\<rparr>)" by auto
  show ?case
  proof (rule wp_bind_map_err [OF file_read_exact_wp [OF o1]], goal_cases)
    case (1 bs w2)
    then have fr2: "frame {fd} {} w w2" and o2: "w_open w2 fd = Some (f\<lparr>of_pos := 32\<rparr>)"
      using frame_trans [OF fr1] by (auto simp: HEADER_SIZE_def)
    show ?case
    proof (cases "header_read_from_bytes bs")
      case (Ok h)
      have read: "wp (st_bind (st_map_err IO (file_read_exact E fd n))
              (\<lambda>buffer. st_bind (st_lift (decode_with (read_tags (read_metakey (header_names E))) buffer))
                (\<lambda>md. st_lift (Ok (from_parts fd p h md wr)))))
           (\<lambda>_ w'. frame {fd} {} w w') (\<lambda>e w'. frame {fd} {} w w' \<and> e \<noteq> None) w2" for n
      proof (rule wp_bind_map_err [OF file_read_exact_wp [OF o2]], goal_cases)
        case (1 buffer w3)
        then show ?case
          using frame_trans [OF fr2, of w3] decode_metadata_safe [of "header_names E" buffer]
          by (cases "decode_with (read_tags (read_metakey (header_names E))) buffer") auto
      next
        case (2 e w3)
        then show ?case using frame_trans [OF fr2, of w3] by auto
      qed
      show ?thesis using fr2 read [of "unat (h_tags_start h) - HEADER_SIZE"] by (simp add: Ok Let_def)
    next
      case (Err e)
      then show ?thesis using fr2 by simp
    qed simp
  next
    case (2 e w2)
    then show ?case using frame_trans [OF fr1, of w2] by auto
  qed
next
  case (2 e w1)
  then show ?case using frame_mono [of "{}" "{}" w w1 "{fd}" "{}"] by auto
qed

lemma opened_same_files:
  assumes w': "w' = tick (w\<lparr>w_open := (w_open w)(fd \<mapsto> f), w_next_fd := n\<rparr>)"
  shows "same_files w w'"
proof -
  have "view_of (w\<lparr>w_open := (w_open w)(fd \<mapsto> f), w_next_fd := n\<rparr>) = view_of w"
    by (simp add: view_of_def fun_eq_iff split: option.splits)
  then show ?thesis
    using shown_tick [of "\<lambda>v. v = view_of w" "w\<lparr>w_open := (w_open w)(fd \<mapsto> f), w_next_fd := n\<rparr>" w]
    by (simp add: same_files_def w' shown_def)
qed

lemma open_safe:
  "wp (st_bind (st_map_err IO (sys_open E p wr)) (\<lambda>fd. from_file E fd p wr))
     (\<lambda>_ w'. same_files w w' \<and> w_names w p \<noteq> None)
     (\<lambda>e w'. same_files w w' \<and> (\<exists>e'. e = Some e'
        \<and> (reliable E \<and> w_names w p = None \<and> p \<notin> set (w_dirs w) \<longrightarrow> e' = IO NotFound))) w"
proof (rule wp_bind_map_err [OF sys_open_wp], goal_cases)
  case (1 fd w1)
  then obtain i where i: "w_names w p = Some i" and fd: "fd = w_next_fd w"
    and w1: "w1 = tick (w\<lparr>w_open := (w_open w)(fd \<mapsto> \<lparr>of_inode = i, of_pos = 0, of_writable = wr\<rparr>), w_next_fd := fd + 1\<rparr>)"
    by auto
  have o1: "w_open w1 fd = Some \<lparr>of_inode = i, of_pos = 0, of_writable = wr\<rparr>" by (simp add: w1)
  show ?case
    by (rule wp_conseq [OF from_file_safe [OF o1]])
       (use i same_files_trans [OF opened_same_files [OF w1] frame_same_files] in auto)
next
  case (2 e w1)
  then show ?case using frame_same_files [OF frame_tick [OF frame_refl]] by auto
qed

text \<open>C16: Opening. Whatever a path names and whatever fails, opening it optionally changes no file and
  no name and never panics. A path that is absent gives no object, and none is created; a file that
  holds an object gives that object.\<close>

theorem open_outcome:
  assumes H: "header_name_ok (header_names E)"
  shows "case open_optional E p w of (r, w') \<Rightarrow>
     same_files w w' \<and> r \<noteq> Panic \<and>
     (w_names w p = None \<longrightarrow> (\<forall>ob. r \<noteq> Ok (Some ob)) \<and> (reliable E \<and> p \<notin> set (w_dirs w) \<longrightarrow> r = Ok None)) \<and>
     (\<forall>i h md t content. w_names w p = Some i \<longrightarrow> holds_object E (w_data w i) h md t content \<longrightarrow>
        (\<forall>ob. r = Ok (Some ob) \<longrightarrow> ob = from_parts (w_next_fd w) p h md False \<and> object_at E ob w' t content) \<and>
        (reliable E \<longrightarrow> (\<exists>ob. r = Ok (Some ob))))"
proof -
  obtain r0 w' where run: "open_object E p w = (r0, w')" by (metis surj_pair)
  obtain r where opt: "open_optional E p w = (r, w')"
    and r: "r = (case r0 of Ok ob \<Rightarrow> Ok (Some ob) | Err e \<Rightarrow> if is_not_found e then Ok None else Err e | Panic \<Rightarrow> Panic)"
    using run by (cases r0) (simp_all add: open_optional_def)
  have safe: "same_files w w' \<and> r \<noteq> Panic \<and>
     (w_names w p = None \<longrightarrow> (\<forall>ob. r \<noteq> Ok (Some ob)) \<and> (reliable E \<and> p \<notin> set (w_dirs w) \<longrightarrow> r = Ok None))"
    using wp_run [OF open_safe run [unfolded open_object_def]] by (cases r0) (auto simp: r is_not_found_def)
  have held: "(\<forall>ob. r = Ok (Some ob) \<longrightarrow> ob = from_parts (w_next_fd w) p h md False \<and> object_at E ob w' t content) \<and>
        (reliable E \<longrightarrow> (\<exists>ob. r = Ok (Some ob)))"
    if "w_names w p = Some i" "holds_object E (w_data w i) h md t content" for i h md t content
    using wp_run [OF open_wp [OF H that, of False, folded open_object_def] run]
    by (cases r0) (auto simp: r split: if_splits)
  show ?thesis using safe held by (simp add: opt)
qed

theorem open_outcome_witness:
  "\<exists>ob w'. open_optional sample_env sample_path published_world = (Ok (Some ob), w')
    \<and> ob = from_parts 1 sample_path (ob_header sample_object) [] False"
proof -
  have n: "w_names published_world sample_path = Some 0" "w_next_fd published_world = 1"
    by (simp_all add: published_world_def)
  obtain r w' where run: "open_optional sample_env sample_path published_world = (r, w')" by (metis surj_pair)
  note spec = open_outcome [OF sample_env_ok(2), where p = sample_path and w = published_world, unfolded run prod.case]
  have "(\<forall>ob. r = Ok (Some ob) \<longrightarrow> ob = from_parts (w_next_fd published_world) sample_path (ob_header sample_object) [] False
        \<and> object_at sample_env ob w' [] [1, 2, 3]) \<and> (reliable sample_env \<longrightarrow> (\<exists>ob. r = Ok (Some ob)))"
    using spec n(1) sample_holds by blast
  then show ?thesis using run sample_env_ok(1) unfolding n(2) by blast
qed

section \<open>Reading\<close>

lemma same_files_object: "frame {ob_file ob} {} w w' \<Longrightarrow> object_at E ob w t content \<Longrightarrow>
    same_files w w' \<and> object_at E ob w' t content"
  using frame_same_files object_at_frame by blast

text \<open>C15: The tag methods. On an object with tags \<open>t\<close> the three methods return \<open>t\<close>, its size, and the value
  it maps the key to, or fail with the environment; the object stays as it was and nothing visible
  changes.\<close>

theorem tag_methods:
  assumes H: "header_name_ok (header_names E)" and at: "object_at E ob w t content"
  shows "(case object_read_tags E (ob, w) of (r, (ob', w')) \<Rightarrow> ob' = ob \<and> same_files w w' \<and> object_at E ob w' t content
       \<and> (if reliable E then r = Ok t else \<forall>t'. r = Ok t' \<longrightarrow> t' = t))
     \<and> (case tag_count E (ob, w) of (r, (ob', w')) \<Rightarrow> ob' = ob \<and> same_files w w' \<and> object_at E ob w' t content
       \<and> (if reliable E then r = Ok (of_nat (length t)) else \<forall>n. r = Ok n \<longrightarrow> unat n = length t))
     \<and> (case find_tag E key (ob, w) of (r, (ob', w')) \<Rightarrow> ob' = ob \<and> same_files w w' \<and> object_at E ob w' t content
       \<and> (if reliable E then r = Ok (tags_get t key) else \<forall>v. r = Ok v \<longrightarrow> v = tags_get t key))"
proof (intro conjI)
  note kept = same_files_object [OF _ at]
  show "case object_read_tags E (ob, w) of (r, (ob', w')) \<Rightarrow> ob' = ob \<and> same_files w w' \<and> object_at E ob w' t content
       \<and> (if reliable E then r = Ok t else \<forall>t'. r = Ok t' \<longrightarrow> t' = t)"
    using object_tags_wp(1) [OF H at] kept by (auto simp: wp_def split: prod.splits res.splits)
  have "length t \<le> 65535" using at by (auto simp: object_at_def holds_object_def sections_ok_def tags_ok_def entries_ok_def)
  then have n: "unat (of_nat (length t) :: u16) = length t" by (rule unat_u16_of_nat)
  show "case tag_count E (ob, w) of (r, (ob', w')) \<Rightarrow> ob' = ob \<and> same_files w w' \<and> object_at E ob w' t content
       \<and> (if reliable E then r = Ok (of_nat (length t)) else \<forall>n. r = Ok n \<longrightarrow> unat n = length t)"
    using object_tags_wp(2) [OF H at] kept n by (auto simp: wp_def split: prod.splits res.splits)
  show "case find_tag E key (ob, w) of (r, (ob', w')) \<Rightarrow> ob' = ob \<and> same_files w w' \<and> object_at E ob w' t content
       \<and> (if reliable E then r = Ok (tags_get t key) else \<forall>v. r = Ok v \<longrightarrow> v = tags_get t key)"
    using object_tags_wp(3) [OF H at, of key] kept by (auto simp: wp_def split: prod.splits res.splits)
qed

theorem tag_methods_witness:
  "fst (object_read_tags sample_env (sample_object, published_world)) = Ok []
   \<and> fst (tag_count sample_env (sample_object, published_world)) = Ok 0
   \<and> fst (find_tag sample_env [107] (sample_object, published_world)) = Ok None"
  using tag_methods [OF sample_env_ok(2) sample_object_at, where key = "[107]"] sample_env_ok(1)
  by (simp add: tags_get_def split: prod.splits)

text \<open>C13: Reading the content. On every outcome the object is as it was; what is returned is the content
  decoded by the codec of the object; and without faults the outcome is exactly that of decoding.\<close>

theorem content_outcome:
  assumes H: "header_name_ok (header_names E)" and at: "object_at E ob w t content"
    and small: "length content \<le> max_offset"
  shows "case read_content_to_vec E (ob, w) of (r, (ob', w')) \<Rightarrow>
     ob' = ob \<and> same_files w w' \<and> object_at E ob w' t content
     \<and> (\<forall>bs. r = Ok bs \<longrightarrow> decoded_content E (compression_type (ob_header ob)) content = Ok bs)
     \<and> (reliable E \<longrightarrow> r = decoded_content E (compression_type (ob_header ob)) content)"
  using read_content_wp [OF H at small] same_files_object [OF _ at]
  by (auto simp: wp_def split: prod.splits res.splits)

theorem content_outcome_witness:
  "fst (read_content_to_vec sample_env (sample_object, published_world)) = Ok [1, 2, 3]"
proof -
  have dec: "decoded_content sample_env (compression_type (ob_header sample_object)) [1, 2, 3] = Ok [1, 2, 3]"
    by (simp add: sample_object_def from_parts_def decoded_content_def)
  obtain r ob' w' where run: "read_content_to_vec sample_env (sample_object, published_world) = (r, (ob', w'))"
    by (metis surj_pair)
  have "length [1, 2, 3 :: u8] \<le> max_offset" by (simp add: max_offset_def)
  note spec = content_outcome [OF sample_env_ok(2) sample_object_at this, unfolded run prod.case]
  have "r = Ok [1, 2, 3]" using spec sample_env_ok(1) unfolding dec by blast
  then show ?thesis using run by simp
qed

text \<open>Bounds of a reader. A read into a buffer of \<open>n\<close> bytes returns at most \<open>n\<close> bytes and at most what
  remains of the range, namely the bytes of the file at the position of the handle; what remains
  shrinks by exactly that, without wrapping, and no file changes.\<close>

theorem reader_bounds:
  assumes f: "w_open w (cr_file r) = Some f"
  shows "case content_read E n (r, w) of
     (Ok bs, (r', w')) \<Rightarrow> length bs \<le> n \<and> unat (remaining r') + length bs = unat (remaining r)
       \<and> bs = take (length bs) (drop (of_pos f) (w_data w (of_inode f))) \<and> same_files w w'
       \<and> w_open w' (cr_file r) = Some (f\<lparr>of_pos := of_pos f + length bs\<rparr>)
   | (Err _, (r', w')) \<Rightarrow> r' = r \<and> same_files w w' \<and> \<not> reliable E
   | (Panic, _) \<Rightarrow> False"
  using content_read_wp [OF f, of E n] frame_same_files
  by (auto simp: wp_def split: prod.splits res.splits)

theorem reader_bounds_witness:
  "case content_read faulty_env 2 (\<lparr>cr_file = 0, remaining = 3\<rparr>, streaming_world) of
     (Ok bs, (r', w')) \<Rightarrow> length bs \<le> 2 \<and> unat (remaining r') + length bs = 3
   | (Err _, _) \<Rightarrow> True
   | (Panic, _) \<Rightarrow> False"
proof -
  have "w_open streaming_world (cr_file \<lparr>cr_file = 0, remaining = 3\<rparr>) = Some \<lparr>of_inode = 0, of_pos = 99, of_writable = True\<rparr>"
    by (simp add: streaming_world_def)
  from reader_bounds [OF this, where E = faulty_env and n = 2] show ?thesis
    by (auto split: prod.splits res.splits)
qed

text \<open>A client reads a range: it asks for the reader and reads it to its end.\<close>

definition read_range :: "'hn env \<Rightarrow> u64 \<Rightarrow> u64 option \<Rightarrow> ('hn, u8 list) object_method" where
  "read_range E offset len =
     st_bind (content_range_reader E offset len) (\<lambda>r. io (with_reader r (content_read_to_end E)))"

lemma read_range_wp:
  assumes H: "header_name_ok (header_names E)" and at: "object_at E ob w t content"
    and plain: "\<not> is_compressed ob" and small: "unat (h_content_start (ob_header ob)) + length content \<le> max_offset"
  shows "wp (read_range E offset len)
     (\<lambda>bs s. frame {ob_file ob} {} w (snd s) \<and> fst s = ob \<and> window content offset len = Some bs)
     (\<lambda>e s. frame {ob_file ob} {} w (snd s) \<and> fst s = ob \<and> (window content offset len \<noteq> None \<longrightarrow> e \<noteq> None \<and> \<not> reliable E)
        \<and> (window content offset len = None \<longrightarrow>
            (\<exists>end. e = Some (RangeOutOfBounds offset end (of_nat (length content)))))) (ob, w)"
  unfolding read_range_def
proof (rule wp_bind_spec [OF content_range_reader_wp [OF H at plain small]], goal_cases)
  case (1 r s)
  then obtain w1 f where s: "s = (ob, w1)" and fr: "frame {ob_file ob} {} w w1" and r: "cr_file r = ob_file ob"
    and f: "w_open w1 (cr_file r) = Some f"
    and win: "window content offset len = Some (take (unat (remaining r)) (drop (of_pos f) (w_data w1 (of_inode f))))"
    by (cases s) auto
  show ?case
    unfolding s wp_io with_reader_wp fst_conv snd_conv
    by (rule wp_conseq [OF content_read_to_end_wp [OF f]]) (use win r frame_trans [OF fr] in auto)
next
  case (2 e s)
  then show ?case by (cases s) (auto split: if_splits)
qed

text \<open>C14: Ranged reads. Of an uncompressed object they return exactly the window of the content that was
  asked for; a window that does not lie within the content is refused as out of bounds, whatever the
  offsets; and of a compressed object every range is refused.\<close>

theorem range_outcome:
  assumes H: "header_name_ok (header_names E)" and at: "object_at E ob w t content"
    and small: "unat (h_content_start (ob_header ob)) + length content \<le> max_offset"
  shows "case read_range E offset len (ob, w) of (r, (ob', w')) \<Rightarrow>
     ob' = ob \<and> same_files w w' \<and> object_at E ob w' t content \<and>
     (if is_compressed ob then r = Err RangedReadOnCompressed
      else case window content offset len of
          Some bs \<Rightarrow> r \<noteq> Panic \<and> (\<forall>bs'. r = Ok bs' \<longrightarrow> bs' = bs) \<and> (reliable E \<longrightarrow> r = Ok bs)
        | None \<Rightarrow> \<exists>end. r = Err (RangeOutOfBounds offset end (of_nat (length content))))"
proof (cases "is_compressed ob")
  case True
  then show ?thesis
    using at by (simp add: read_range_def content_range_reader_def with_self_def st_lift_def st_bind_def)
next
  case False
  obtain r ob' w' where run: "read_range E offset len (ob, w) = (r, (ob', w'))" by (metis surj_pair)
  show ?thesis
    using wp_run [OF read_range_wp [OF H at False small] run] same_files_object [OF _ at, of w'] False
    by (cases r) (auto simp: run split: option.splits)
qed

theorem range_outcome_witness:
  "fst (read_range sample_env 1 (Some 2) (sample_object, published_world)) = Ok [2, 3]
   \<and> (\<exists>end. fst (read_range sample_env 1 (Some 3) (sample_object, published_world)) = Err (RangeOutOfBounds 1 end 3))"
proof -
  have small: "unat (h_content_start (ob_header sample_object)) + length [1, 2, 3 :: u8] \<le> max_offset"
    and plain: "\<not> is_compressed sample_object"
    by (simp_all add: sample_object_def from_parts_def max_offset_def is_compressed_def)
  have win: "window [1, 2, 3] 1 (Some 2) = Some [2, 3]" "window [1, 2, 3] 1 (Some 3) = None"
    by (simp_all add: window_def)
  obtain r ob' w' where run: "read_range sample_env 1 (Some 2) (sample_object, published_world) = (r, (ob', w'))"
    by (metis surj_pair)
  obtain r2 ob2 w2 where run2: "read_range sample_env 1 (Some 3) (sample_object, published_world) = (r2, (ob2, w2))"
    by (metis surj_pair)
  note range = range_outcome [OF sample_env_ok(2) sample_object_at small, of 1]
  have "r = Ok [2, 3]" using range [of "Some 2", unfolded run prod.case win(1) if_not_P [OF plain] option.case] sample_env_ok(1) by blast
  moreover have "\<exists>end. r2 = Err (RangeOutOfBounds 1 end (of_nat (length [1, 2, 3 :: u8])))"
    using range [of "Some 3", unfolded run2 prod.case win(2) if_not_P [OF plain] option.case] by blast
  ultimately show ?thesis using run run2 by simp
qed

end
