(* ===== verification/Revisions.thy ===== *)
theory Revisions
  imports Handles
begin

text \<open>
  The properties of updates (\<open>set_sections_in_place\<close> and the rewriting setters of
  \<open>src/src/fs/object.rs\<close>): what they guarantee of the object, of its content and of its place in the
  file, and where they must fail.
\<close>

section \<open>In place\<close>

text \<open>C10: Updating in place. On every outcome the content and all other files are untouched. A
  read-only object refuses; sections that exceed the space in front of the content are refused and
  nothing is written; a success makes the object the one with the new sections; and without faults it
  succeeds whenever the sections can be laid out there.\<close>

theorem in_place_outcome:
  assumes H: "header_name_ok (header_names E)" and f: "w_open w (ob_file ob) = Some f"
    and rw: "ob_writable ob \<longrightarrow> of_writable f"
    and holds: "holds_object E (w_data w (of_inode f)) (ob_header ob) (ob_metadata ob) t content"
  shows "case set_sections_in_place E md' t' (ob, w) of (r, (ob', w')) \<Rightarrow>
     drop (unat (h_content_start (ob_header ob))) (w_data w' (of_inode f)) = content
     \<and> frame {ob_file ob} {of_inode f} w w'
     \<and> (\<not> ob_writable ob \<longrightarrow> r = Err (ReadOnly (ob_path ob)) \<and> ob' = ob \<and> w' = w)
     \<and> (ob_writable ob \<and> unat (h_content_start (ob_header ob)) < HEADER_SIZE + metadata_size E md' + tag_block_size t'
          \<longrightarrow> r \<noteq> Ok () \<and> ob' = ob \<and> w' = w)
     \<and> (sections_ok md' t' \<and> r = Ok () \<longrightarrow> ob_metadata ob' = md' \<and> object_at E ob' w' t' content)
     \<and> (reliable E \<and> ob_writable ob \<and> sections_ok md' t'
          \<and> (\<exists>l. repartition (h_content_start (ob_header ob)) (metadata_size E md') (tag_block_size t')
                DEFAULT_ALIGNMENT = (Ok (Some l) :: (section_layout option, object_file_error) res)) \<longrightarrow> r = Ok ())"
proof -
  obtain r ob' w' where run: "set_sections_in_place E md' t' (ob, w) = (r, (ob', w'))" by (metis surj_pair)
  have full: "r \<noteq> Ok ()"
    if "unat (h_content_start (ob_header ob)) < HEADER_SIZE + metadata_size E md' + tag_block_size t'" "ob_writable ob"
  proof -
    have "repartition (h_content_start (ob_header ob)) (metadata_size E md') (tag_block_size t') DEFAULT_ALIGNMENT
        \<in> {Ok None, Panic :: (section_layout option, object_file_error) res}"
      using that(1) by (auto simp: repartition_eq Let_def)
    then show ?thesis
      using run that(2) by (auto simp: set_sections_in_place_def with_self_def ensure_writable_def st_lift_def st_bind_def Let_def)
  qed
  note spec = wp_run [OF set_sections_in_place_wp [OF H f rw holds] run]
  show ?thesis
    unfolding run prod.case
    using spec full by (cases r) (simp_all, (blast | fastforce)+)
qed

theorem in_place_outcome_witness:
  "case set_sections_in_place sample_env [] [([107], VBool True)] (sample_object, published_world) of (r, (ob', w')) \<Rightarrow>
     r = Ok () \<and> object_at sample_env ob' w' [([107], VBool True)] [1, 2, 3]"
proof -
  let ?t = "[([107 :: u8], VBool True)]"
  obtain r ob' w' where run: "set_sections_in_place sample_env [] ?t (sample_object, published_world) = (r, (ob', w'))"
    by (metis surj_pair)
  have o: "w_open published_world (ob_file sample_object) = Some \<lparr>of_inode = 0, of_pos = 0, of_writable = True\<rparr>"
    and ob: "ob_writable sample_object" "ob_metadata sample_object = []" "h_content_start (ob_header sample_object) = 96"
    by (simp_all add: published_world_def sample_object_def from_parts_def)
  have secs: "sections_ok ([] :: u8 tags) ?t"
    by (simp add: sections_ok_def tags_ok_def entries_ok_def string_ok_def)
  have fit: "\<exists>l. repartition 96 (metadata_size sample_env []) (tag_block_size ?t) DEFAULT_ALIGNMENT
      = (Ok (Some l) :: (section_layout option, object_file_error) res)"
    by (simp add: repartition_eq metadata_size_def tag_block_size_def tags_size_def string_size_def HEADER_SIZE_def
        DEFAULT_ALIGNMENT_def aligned_def div_ceil_def usize_max_def Let_def bool_size_def)
  show ?thesis
    using in_place_outcome [OF sample_env_ok(2) o, where md' = "[]" and t' = ?t and t = "[]" and content = "[1, 2, 3]"]
      sample_holds ob secs fit sample_env_ok(1)
    unfolding run by simp
qed

section \<open>By rewriting\<close>

text \<open>The new version as the abstract store holds it.\<close>

definition revised :: "'hn tux_object \<Rightarrow> 'hn tags \<Rightarrow> u8 list tags \<Rightarrow> u8 list \<Rightarrow> 'hn stored_object" where
  "revised ob md t content =
     \<lparr>so_compression = compression_type (ob_header ob), so_metadata = md, so_tags = t, so_content = content\<rparr>"

lemma update_frame_store:
  assumes H: "header_name_ok (header_names E)" and fr: "update_frame E ob md t content w w'"
  shows "abs_store E w' (ob_path ob) \<in> {abs_store E w (ob_path ob), Some (revised ob md t content)}"
    and "q \<noteq> ob_path ob \<Longrightarrow> \<not> temporary q \<Longrightarrow> abs_store E w' q = abs_store E w q"
proof -
  have "atomic_update (ob_path ob) (version_of E (compression_type (ob_header ob)) md t content) w w'"
    using fr by (simp add: update_frame_def)
  then show "abs_store E w' (ob_path ob) \<in> {abs_store E w (ob_path ob), Some (revised ob md t content)}"
    using abs_store_atomic [OF H, of "ob_path ob"] parse_version [OF H] unfolding revised_def by blast
  assume "q \<noteq> ob_path ob" "\<not> temporary q"
  moreover have "quiet (old_names w (ob_path ob) - {ob_path ob}) w w'" using fr by (simp add: update_frame_def)
  ultimately have "view_of w' q = view_of w q" by (auto simp: quiet_def old_names_def)
  then show "abs_store E w' q = abs_store E w q" by (rule abs_store_view)
qed

text \<open>C7: Updating by rewriting. Whatever fails, no other process ever sees anything at the path but the
  old object or the complete new one, and nothing new at any other path. On success the object is the
  new version, with the same content, and the abstract store maps its path to it; on failure the
  handle is the one it was and still valid, and the store has at most the new version in place of the
  old. A writable object whose new sections can be laid out is updated if nothing fails.\<close>

theorem update_outcome:
  assumes H: "header_name_ok (header_names E)" and ok: "world_ok w" and at: "object_at E ob w t0 content"
    and secs: "sections_ok md t"
  shows "case set_sections E md t (ob, w) of (r, (ob', w')) \<Rightarrow>
     update_frame E ob md t content w w' \<and>
     (\<forall>q. q \<noteq> ob_path ob \<longrightarrow> \<not> temporary q \<longrightarrow> abs_store E w' q = abs_store E w q) \<and>
     (if r = Ok () then updated_object E ob md t content ob' w'
         \<and> abs_store E w' = (abs_store E w)(ob_path ob \<mapsto> revised ob md t content)
      else ob' = ob \<and> object_at E ob w' t0 content
         \<and> abs_store E w' (ob_path ob) \<in> {abs_store E w (ob_path ob), Some (revised ob md t content)}
         \<and> (\<not> ob_writable ob \<longrightarrow> r = Err (ReadOnly (ob_path ob)) \<and> w' = w)
         \<and> \<not> (ob_writable ob \<and> ob_path ob \<notin> set (w_dirs w)
              \<and> replaceable E (ob_path ob) (rewrite_create_options ob md t) (length content) w))"
proof -
  obtain r ob' w' where run: "set_sections E md t (ob, w) = (r, (ob', w'))" by (metis surj_pair)
  note spec = wp_run [OF rewrite_wp [OF H ok at secs, folded set_sections_def] run]
  have fr: "update_frame E ob md t content w w'" using spec by (cases r) auto
  note others = update_frame_store(2) [OF H fr]
  show ?thesis
  proof (cases r)
    case (Ok u)
    with spec have upd: "updated_object E ob md t content ob' w'"
      and view: "\<And>q. q \<noteq> ob_path ob \<Longrightarrow> view_of w' q = view_of w q" by auto
    have "abs_store E w' = (abs_store E w)(ob_path ob \<mapsto> revised ob md t content)"
      using abs_store_updated [OF H upd] abs_store_view [OF view] by (auto simp: fun_eq_iff revised_def)
    then show ?thesis unfolding run prod.case using fr others upd Ok by simp
  next
    case (Err e)
    then show ?thesis
      unfolding run prod.case using fr others spec update_frame_store(1) [OF H fr] by simp
  next
    case Panic
    then show ?thesis
      unfolding run prod.case using fr others spec update_frame_store(1) [OF H fr] by simp
  qed
qed

lemma sample_replaceable:
  "replaceable sample_env (ob_path sample_object) (rewrite_create_options sample_object [] [([107], VBool True)]) 3 published_world"
proof -
  have "\<exists>l. compute (co_layout (rewrite_create_options sample_object [] [([107], VBool True)]))
      (metadata_size sample_env []) (tag_block_size [([107], VBool True)]) = Ok l \<and> unat (content_start l) + 3 \<le> max_offset"
    by (rule exI [of _ "\<lparr>tags_start = 64, content_start = 96\<rparr>"])
       (simp add: rewrite_create_options_def compute_def repartition_eq metadata_size_def tag_block_size_def tags_size_def
        string_size_def HEADER_SIZE_def layout_default_def DEFAULT_ALIGNMENT_def aligned_def div_ceil_def usize_max_def
        Let_def bool_size_def sample_object_def from_parts_def max_offset_def)
  moreover have "co_compression (rewrite_create_options sample_object [] [([107], VBool True)]) = NoCompression"
    by (simp add: rewrite_create_options_def sample_object_def from_parts_def)
  moreover have "name_free sample_env sample_path published_world"
    by (simp add: name_free_def published_world_def empty_world_def sample_path_def sample_dir_def temp_candidate_def)
  moreover have "ob_path sample_object = sample_path" "butlast sample_path \<in> set (w_dirs published_world)"
    by (simp_all add: sample_object_def from_parts_def published_world_def empty_world_def sample_path_def sample_dir_def)
  moreover have "co_metadata (rewrite_create_options sample_object [] t) = []" "co_tags (rewrite_create_options sample_object [] t) = t" for t
    by (simp_all add: rewrite_create_options_def)
  ultimately show ?thesis using sample_env_ok(1) unfolding replaceable_def by simp
qed

lemma sample_revision_ok: "sections_ok ([] :: u8 tags) [([107], VBool True)]"
  by (simp add: sections_ok_def tags_ok_def entries_ok_def string_ok_def)

lemma sample_update:
  "\<exists>ob' w'. set_sections sample_env [] [([107], VBool True)] (sample_object, published_world) = (Ok (), (ob', w'))"
proof -
  let ?t = "[([107 :: u8], VBool True)]"
  obtain r ob' w' where run: "set_sections sample_env [] ?t (sample_object, published_world) = (r, (ob', w'))"
    by (metis surj_pair)
  have ob: "ob_path sample_object = sample_path" "ob_writable sample_object" "sample_path \<notin> set (w_dirs published_world)"
    by (simp_all add: sample_object_def from_parts_def published_world_def empty_world_def sample_path_def sample_dir_def)
  show ?thesis
    using wp_run [OF rewrite_wp [OF sample_env_ok(2) worlds_ok(3) sample_object_at sample_revision_ok, folded set_sections_def] run]
      sample_replaceable ob run by (cases r) (auto simp: numeral_3_eq_3)
qed

theorem update_outcome_witness:
  "\<exists>ob' w'. set_sections sample_env [] [([107], VBool True)] (sample_object, published_world) = (Ok (), (ob', w'))
     \<and> abs_store sample_env w' = (abs_store sample_env published_world)(sample_path \<mapsto>
         revised sample_object [] [([107], VBool True)] [1, 2, 3])"
proof -
  have "ob_path sample_object = sample_path" by (simp add: sample_object_def from_parts_def)
  then show ?thesis
    using update_outcome [OF sample_env_ok(2) worlds_ok(3) sample_object_at sample_revision_ok] sample_update by fastforce
qed

section \<open>Sequences of updates\<close>

fun apply_updates :: "'hn env \<Rightarrow> ('hn tags \<times> u8 list tags) list \<Rightarrow> ('hn, unit) object_method" where
  "apply_updates E [] = st_lift (Ok ())"
| "apply_updates E ((md, t) # us) = st_bind (set_sections E md t) (\<lambda>_. apply_updates E us)"

text \<open>Sections that fit in front of content at a given place.\<close>

definition fits_before :: "'hn env \<Rightarrow> nat \<Rightarrow> 'hn tags \<times> u8 list tags \<Rightarrow> bool" where
  "fits_before E start u \<longleftrightarrow>
     (case u of (md, t) \<Rightarrow> HEADER_SIZE + metadata_size E md + tag_block_size t \<le> start)"

text \<open>A layout with a floor stays on it exactly if the sections fit in front of it.\<close>

lemma floor_kept:
  assumes floor: "0 < min_content_start opts" and c: "compute opts ms ts = Ok l"
  shows "content_start l = min_content_start opts \<longleftrightarrow> HEADER_SIZE + ms + ts \<le> unat (min_content_start opts)"
proof
  assume start: "content_start l = min_content_start opts"
  have "layout_fits l ms ts" using compute_result [where opts = opts and ms = ms and ts = ts] c by simp
  then show "HEADER_SIZE + ms + ts \<le> unat (min_content_start opts)" by (simp add: layout_fits_def flip: start)
next
  assume fits: "HEADER_SIZE + ms + ts \<le> unat (min_content_start opts)"
  show "content_start l = min_content_start opts"
  proof (cases "aligned (HEADER_SIZE + ms) (alignment opts) \<le> 65535")
    case True
    then show ?thesis using compute_reuses_floor [OF floor fits] c by simp
  next
    case False
    show ?thesis
    proof (rule compute_cases [of opts ms ts])
      fix l' assume "reused opts ms ts = Ok (Some l')" "compute opts ms ts = Ok l'"
      then show ?thesis using c repartition_Some(2) by fastforce
    next
      assume "reused opts ms ts = Panic" "compute opts ms ts = Panic"
      then show ?thesis using c by simp
    next
      assume "min_content_start opts = 0 \<or> reused opts ms ts = Ok None"
      from compute_fresh_Ok(1) [OF this c] have "HEADER_SIZE + ms \<le> unat (tags_start l)"
        and "max (alignment opts) 1 dvd unat (tags_start l)"
        by (simp_all add: fresh_layout_def layout_fits_def)
      then have "aligned (HEADER_SIZE + ms) (alignment opts) \<le> unat (tags_start l)" by (intro aligned_least)
      moreover have "unat (tags_start l) \<le> 65535" by (rule unat_u16_le)
      ultimately show ?thesis using False by simp
    qed
  qed
qed

lemma update_start:
  assumes H: "header_name_ok (header_names E)" and at: "object_at E ob w t0 content"
    and upd: "updated_object E ob md t content ob' w'"
  shows "unat (h_content_start (ob_header ob)) \<le> unat (h_content_start (ob_header ob'))"
    and "h_content_start (ob_header ob') = h_content_start (ob_header ob) \<longleftrightarrow>
      fits_before E (unat (h_content_start (ob_header ob))) (md, t)"
proof -
  let ?opts = "rewrite_create_options ob md t"
  obtain l where l: "compute (co_layout ?opts) (metadata_size E md) (tag_block_size t) = Ok l"
    and cs: "h_content_start (ob_header ob') = content_start l"
    using upd by (auto simp: updated_object_def)
  have start: "min_content_start (co_layout ?opts) = h_content_start (ob_header ob)"
    by (simp add: rewrite_create_options_def layout_default_def)
  obtain f where "w_open w (ob_file ob) = Some f"
    and held: "holds_object E (w_data w (of_inode f)) (ob_header ob) (ob_metadata ob) t0 content"
    using at by (auto simp: object_at_def)
  note D = holds_objectD [OF H held]
  have floor: "0 < min_content_start (co_layout ?opts)" using D(5,7) by (simp add: start word_less_nat_alt)
  show "unat (h_content_start (ob_header ob)) \<le> unat (h_content_start (ob_header ob'))"
    using compute_result [where opts = "co_layout ?opts" and ms = "metadata_size E md" and ts = "tag_block_size t"] l by (simp add: cs start)
  show "h_content_start (ob_header ob') = h_content_start (ob_header ob) \<longleftrightarrow>
      fits_before E (unat (h_content_start (ob_header ob))) (md, t)"
    using floor_kept [OF floor l] by (simp add: cs start fits_before_def)
qed

text \<open>C11: Updates do not creep. After any number of updates that succeeded the object has the sections of
  the last of them, behind the path and in front of the content it always had. Its content never
  starts earlier than before, and it starts exactly where it did if and only if the sections of
  every version fit in front of that place: only a version that has outgrown the space moves it.\<close>

theorem updates_do_not_creep:
  assumes H: "header_name_ok (header_names E)" and "world_ok w" and "object_at E ob w t content"
    and "\<forall>(md, t) \<in> set us. sections_ok md t" and "apply_updates E us (ob, w) = (Ok (), (ob', w'))"
  shows "unat (h_content_start (ob_header ob)) \<le> unat (h_content_start (ob_header ob'))
    \<and> (h_content_start (ob_header ob') = h_content_start (ob_header ob) \<longleftrightarrow>
         (\<forall>u \<in> set us. fits_before E (unat (h_content_start (ob_header ob))) u))
    \<and> ob_metadata ob' = fst (last ((ob_metadata ob, t) # us))
    \<and> object_at E ob' w' (snd (last ((ob_metadata ob, t) # us))) content \<and> ob_path ob' = ob_path ob"
  using assms(2-)
proof (induction us arbitrary: ob w t)
  case Nil
  then show ?case by (simp add: st_lift_def)
next
  case (Cons u us)
  obtain md t1 where u: "u = (md, t1)" by (cases u)
  from Cons.prems(4) obtain ob1 w1 where run: "set_sections E md t1 (ob, w) = (Ok (), (ob1, w1))"
    and rest: "apply_updates E us (ob1, w1) = (Ok (), (ob', w'))"
    by (auto simp: u st_bind_def split: prod.splits res.splits)
  have secs: "sections_ok md t1" using Cons.prems(3) by (simp add: u)
  note spec = wp_run [OF rewrite_wp [OF H Cons.prems(1,2) secs, folded set_sections_def] run]
  then have upd: "updated_object E ob md t1 content ob1 w1" and ok1: "world_ok w1" by (auto simp: update_frame_def)
  have at1: "object_at E ob1 w1 t1 content" "ob_path ob1 = ob_path ob" "ob_metadata ob1 = md"
    using upd by (simp_all add: updated_object_def)
  let ?a = "unat (h_content_start (ob_header ob))" and ?b = "unat (h_content_start (ob_header ob1))"
    and ?c = "unat (h_content_start (ob_header ob'))"
  have step: "?a \<le> ?b" "?b = ?a \<longleftrightarrow> fits_before E ?a u"
    using update_start [OF H Cons.prems(2) upd] by (simp_all add: u word_unat_eq_iff)
  have IH: "?b \<le> ?c" "?c = ?b \<longleftrightarrow> (\<forall>u \<in> set us. fits_before E ?b u)"
    "ob_metadata ob' = fst (last ((md, t1) # us))" "object_at E ob' w' (snd (last ((md, t1) # us))) content"
    "ob_path ob' = ob_path ob"
    using Cons.IH [OF ok1 at1(1) _ rest] Cons.prems(3) by (simp_all add: at1 word_unat_eq_iff)
  have "?c = ?a \<longleftrightarrow> ?b = ?a \<and> ?c = ?b" using step(1) IH(1) by linarith
  then have "?c = ?a \<longleftrightarrow> (\<forall>x \<in> set (u # us). fits_before E ?a x)" using step(2) IH(2) by auto
  moreover have "?a \<le> ?c" using step(1) IH(1) by linarith
  ultimately show ?case using IH(3-) by (simp add: u word_unat_eq_iff)
qed

text \<open>C37: A compressed object cannot be rewritten. Its replacement is a writer that takes content only
  through an encoder, so copying the stored content into it is refused: unless the content is empty,
  setting the sections of a compressed object fails whatever they are, and the object stays.\<close>

theorem compressed_update_fails:
  assumes H: "header_name_ok (header_names E)" and ok: "world_ok w" and at: "object_at E ob w t0 content"
    and secs: "sections_ok md t" and compressed: "is_compressed ob" "content \<noteq> []"
  shows "fst (set_sections E md t (ob, w)) \<noteq> Ok () \<and> fst (snd (set_sections E md t (ob, w))) = ob
    \<and> object_at E ob (snd (snd (set_sections E md t (ob, w)))) t0 content"
proof -
  obtain r ob' w' where run: "set_sections E md t (ob, w) = (r, (ob', w'))" by (metis surj_pair)
  show ?thesis
    using wp_run [OF rewrite_wp [OF H ok at secs, folded set_sections_def] run] compressed
    by (cases r) (simp_all add: run)
qed

theorem updates_do_not_creep_witness:
  "\<exists>ob' w'. apply_updates sample_env [([], [([107], VBool True)])] (sample_object, published_world) = (Ok (), (ob', w'))
     \<and> h_content_start (ob_header ob') = 96"
proof -
  have cs: "h_content_start (ob_header sample_object) = 96" by (simp add: sample_object_def from_parts_def)
  have fits: "fits_before sample_env (unat (h_content_start (ob_header sample_object))) ([], [([107], VBool True)])"
    by (simp add: cs fits_before_def metadata_size_def tag_block_size_def tags_size_def string_size_def HEADER_SIZE_def
        bool_size_def)
  obtain ob' w' where "apply_updates sample_env [([], [([107], VBool True)])] (sample_object, published_world) = (Ok (), (ob', w'))"
    using sample_update by (auto simp: st_bind_def st_lift_def)
  then show ?thesis
    using updates_do_not_creep [OF sample_env_ok(2) worlds_ok(3) sample_object_at, of "[([], [([107], VBool True)])]" ob' w'] fits
      sample_revision_ok
    by (simp add: cs del: apply_updates.simps)
qed

text \<open>The object that cannot be rewritten: one compressed by the sample codec.\<close>

definition packed_object :: "u8 tux_object" where
  "packed_object = sample_object\<lparr>ob_header := (ob_header sample_object)\<lparr>compression_type := Gzip 6\<rparr>\<rparr>"

definition packed_world :: world where
  "packed_world = published_world\<lparr>w_data := (\<lambda>_. prefix_image sample_env (ob_header packed_object) [] []
     \<lparr>tags_start = 64, content_start = 96\<rparr> @ [1, 2, 0])\<rparr>"

lemma packed_object_at: "object_at sample_env packed_object packed_world [] [1, 2, 0]" "world_ok packed_world"
proof -
  have "w_open packed_world (ob_file packed_object) = Some \<lparr>of_inode = 0, of_pos = 0, of_writable = True\<rparr>"
    by (simp add: packed_world_def published_world_def packed_object_def sample_object_def from_parts_def)
  moreover have "holds_object sample_env (w_data packed_world 0) (ob_header packed_object) (ob_metadata packed_object) [] [1, 2, 0]"
    using sample_layout_fits [of sample_env]
    by (simp add: holds_object_def packed_world_def packed_object_def sample_object_def from_parts_def header_layout_def
        header_ok_def CURRENT_VERSION_def sample_sections_ok)
  ultimately show "object_at sample_env packed_object packed_world [] [1, 2, 0]" by (simp add: object_at_def)
  show "world_ok packed_world" using worlds_ok(3) by (simp add: world_ok_def packed_world_def)
qed

theorem compressed_update_fails_witness:
  "fst (set_sections sample_env [] [([107], VBool True)] (packed_object, packed_world)) \<noteq> Ok ()"
  using compressed_update_fails [OF sample_env_ok(2) packed_object_at(2,1) sample_revision_ok]
  by (simp add: is_compressed_def packed_object_def sample_object_def from_parts_def)

end
