(* ===== verification/Encoders.thy ===== *)
theory Encoders
  imports Handles
begin

text \<open>
  The properties of the content encoder (\<open>src/src/fs/compression.rs\<close>): what a client that streams its
  content through an encoder stores, and that reading the finished object gives the content back.
\<close>

section \<open>Streaming through an encoder\<close>

text \<open>A client opens the encoder, writes its content in pieces with a flush after each, and finishes.\<close>

fun write_chunks :: "'hn env \<Rightarrow> u8 list list \<Rightarrow> ('hn, unit, io_kind) encoder_method" where
  "write_chunks E [] = st_lift (Ok ())"
| "write_chunks E (bs # bss) =
     st_bind (encoder_write_all E bs) (\<lambda>_. st_bind (encoder_flush E) (\<lambda>_. write_chunks E bss))"

definition encode_content :: "'hn env \<Rightarrow> u8 list list \<Rightarrow> ('hn, u64, object_file_error) writer_method" where
  "encode_content E chunks = st_bind (open_content_encoder E) (\<lambda>enc s.
     case write_chunks E chunks (enc, s) of
       (Ok _, (enc, s)) \<Rightarrow> encoder_finish E enc s
     | (Err k, (_, s)) \<Rightarrow> (Err (IO k), s)
     | (Panic, (_, s)) \<Rightarrow> (Panic, s))"

lemma write_chunks_wp:
  assumes C: "codecs_ok E" and at: "encoding E ow w tp i bytes s"
  shows "wp (write_chunks E chunks)
     (\<lambda>_ s. encoding E ow w tp i (bytes @ concat chunks) s)
     (\<lambda>e s. encoding_failed ow w tp i s \<and> (e = None \<longrightarrow> 2 ^ 64 \<le> length (bytes @ concat chunks))) s"
  using at
proof (induction chunks arbitrary: bytes s)
  case (Cons bs bss)
  show ?case
    unfolding write_chunks.simps
  proof (rule wp_bind_spec [OF encoder_write_all_wp [OF C Cons.prems]], goal_cases)
    case (1 _ s1)
    show ?case
    proof (rule wp_bind_spec [OF encoder_flush_wp [OF C 1]], goal_cases)
      case (1 _ s2)
      then show ?case using Cons.IH [of "bytes @ bs" s2] by simp
    qed auto
  qed auto
qed simp

lemma encode_content_wp:
  assumes C: "codecs_ok E" and at: "writer_at ow w tp i []"
  shows "wp (encode_content E chunks)
     (\<lambda>n s. frame {wr_file ow} {i} w (snd s) \<and> unat n = length (concat chunks)
        \<and> (\<exists>stored. writer_at (fst s) (snd s) tp i stored \<and> decoded_content E (wr_compression ow) stored = Ok (concat chunks)
             \<and> wr_metadata (fst s) = recorded E (length stored) n (wr_metadata ow))
        \<and> wr_tags (fst s) = wr_tags ow \<and> wr_compression (fst s) = wr_compression ow \<and> wr_final_path (fst s) = wr_final_path ow
        \<and> wr_layout (fst s) = wr_layout ow \<and> wr_layout_options (fst s) = wr_layout_options ow)
     (\<lambda>e s. frame {wr_file ow} {i} w (snd s) \<and> wr_temp_path (fst s) = Some tp) (ow, w)"
  unfolding encode_content_def
proof (rule wp_bind_spec [OF open_content_encoder_wp [OF at]], goal_cases)
  case (1 enc s)
  let ?ow = "ow\<lparr>wr_allow_raw_writes := True\<rparr>"
  from 1 have s: "s = (?ow, w)" and enc: "encoder_at E enc ?ow w tp i [] []" by (cases s; simp)+
  have start: "encoding E ?ow w tp i [] (enc, ?ow, w)" using enc by (auto simp: encoding_def)
  obtain r enc1 ow1 w1 where run: "write_chunks E chunks (enc, ?ow, w) = (r, (enc1, ow1, w1))" by (metis surj_pair)
  have tmp: "wr_temp_path ow = Some tp" using at by (simp add: writer_at_def)
  note spec = wp_run [OF write_chunks_wp [OF C start] run]
  show ?case
  proof (cases r)
    case (Ok u)
    with spec have fr: "frame {wr_file ow} {i} w w1" and same: "same_writer ?ow ow1"
      and "\<exists>stored. encoder_at E enc1 ow1 w1 tp i (concat chunks) stored"
      by (auto simp: encoding_def)
    then obtain stored where at1: "encoder_at E enc1 ow1 w1 tp i (concat chunks) stored" by blast
    note D = same_writerD [OF same]
    have "wp (encoder_finish E enc1)
       (\<lambda>n s. frame {wr_file ow} {i} w (snd s) \<and> unat n = length (concat chunks)
          \<and> (\<exists>stored. writer_at (fst s) (snd s) tp i stored \<and> decoded_content E (wr_compression ow) stored = Ok (concat chunks)
               \<and> wr_metadata (fst s) = recorded E (length stored) n (wr_metadata ow))
          \<and> wr_tags (fst s) = wr_tags ow \<and> wr_compression (fst s) = wr_compression ow \<and> wr_final_path (fst s) = wr_final_path ow
          \<and> wr_layout (fst s) = wr_layout ow \<and> wr_layout_options (fst s) = wr_layout_options ow)
       (\<lambda>e s. frame {wr_file ow} {i} w (snd s) \<and> wr_temp_path (fst s) = Some tp) (ow1, w1)"
    proof (rule wp_conseq [OF encoder_finish_wp [OF C at1]], goal_cases)
      case (1 n s1)
      then have same1: "same_writer (ow1\<lparr>wr_metadata := wr_metadata (fst s1)\<rparr>) (fst s1)" by blast
      note D1 = same_writerD [OF same1]
      show ?case using 1 D D1 frame_trans [OF fr, of "snd s1"] by auto
    next
      case (2 e s1)
      then show ?case using D same_writerD(2) [of ow1 "fst s1"] frame_trans [OF fr, of "snd s1"] tmp by auto
    qed
    then show ?thesis by (simp add: wp_def s run Ok)
  qed (use spec tmp in \<open>auto simp: wp_def s run encoding_failed_def dest: same_writerD(2)\<close>)
next
  case (2 e s)
  then show ?case using at by (cases s) (simp add: writer_at_def)
qed

text \<open>C8: Storing through an encoder. Content streamed in any pieces through the encoder of any supported
  compression is stored as something that decodes to it: the encoder returns the length of the
  content, which is on record in the metadata exactly when what is stored has another length; and
  reading the finished object gives the content back.\<close>

theorem encoder_round_trip:
  assumes H: "header_name_ok (header_names E)" and C: "codecs_ok E" and ok: "world_ok w" and at: "writer_at ow w tp i []"
    and enc: "encode_content E chunks (ow, w) = (Ok n, (ow1, w1))"
    and secs: "sections_ok (wr_metadata ow1) (wr_tags ow1)" and fin: "finish E ow1 w1 = (Ok ob, w2)"
    and small: "unat (content_length (ob_header ob)) \<le> max_offset"
  shows "unat n = length (concat chunks)
    \<and> (\<exists>stored. finished_object E ow1 stored ob w2 \<and> wr_metadata ow1 = recorded E (length stored) n (wr_metadata ow))
    \<and> (\<forall>bs. fst (read_content_to_vec E (ob, w2)) = Ok bs \<longrightarrow> bs = concat chunks)
    \<and> (reliable E \<longrightarrow> fst (read_content_to_vec E (ob, w2)) = Ok (concat chunks))"
proof -
  from wp_run [OF encode_content_wp [OF C at, of chunks] enc] obtain stored
    where fr: "frame {wr_file ow} {i} w w1" and n: "unat n = length (concat chunks)"
      and at1: "writer_at ow1 w1 tp i stored" and dec: "decoded_content E (wr_compression ow) stored = Ok (concat chunks)"
      and md: "wr_metadata ow1 = recorded E (length stored) n (wr_metadata ow)" and ct: "wr_compression ow1 = wr_compression ow"
    by auto
  have ok1: "world_ok w1" by (rule world_ok_frame [OF fr ok])
  have complete: "finished_object E ow1 stored ob w2"
    using wp_run [OF finish_wp [OF H ok1 at1 secs] fin] by simp
  then have obj: "object_at E ob w2 (wr_tags ow1) stored" and ct2: "compression_type (ob_header ob) = wr_compression ow"
    using ct by (simp_all add: finished_object_def)
  have "length stored \<le> max_offset" using obj small by (auto simp: object_at_def holds_object_def)
  from read_content_wp [OF H obj this] have
    "(\<forall>bs. fst (read_content_to_vec E (ob, w2)) = Ok bs \<longrightarrow> bs = concat chunks)
     \<and> (reliable E \<longrightarrow> fst (read_content_to_vec E (ob, w2)) = Ok (concat chunks))"
    by (auto simp: wp_def ct2 dec split: prod.splits res.splits)
  with n complete md show ?thesis by blast
qed

text \<open>A writer for an object of the sample codec, as it was created.\<close>

definition packing_writer :: "u8 object_writer" where
  "packing_writer = sample_writer\<lparr>wr_compression := Gzip 6, wr_content_length := 0, wr_allow_raw_writes := False\<rparr>"

definition packing_world :: world where
  "packing_world = streaming_world\<lparr>w_data := (\<lambda>_. []), w_open := [0 \<mapsto> \<lparr>of_inode = 0, of_pos = 96, of_writable = True\<rparr>]\<rparr>"

lemma packing_writer_at: "writer_at packing_writer packing_world sample_temp 0 []" "world_ok packing_world"
proof -
  have "wr_temp_path packing_writer = Some sample_temp" "wr_final_path packing_writer = sample_path"
    "wr_file packing_writer = 0" "content_start (wr_layout packing_writer) = 96" "wr_content_length packing_writer = 0"
    by (simp_all add: packing_writer_def sample_writer_def)
  moreover have "w_dirs packing_world = [[], sample_dir]" "w_names packing_world = [sample_temp \<mapsto> 0]"
    "w_open packing_world = [0 \<mapsto> \<lparr>of_inode = 0, of_pos = 96, of_writable = True\<rparr>]" "w_data packing_world 0 = []"
    by (simp_all add: packing_world_def streaming_world_def empty_world_def)
  moreover have "butlast sample_path = sample_dir" "sample_temp \<noteq> sample_path"
    by (simp_all add: sample_path_def sample_dir_def sample_temp_def)
  ultimately show "writer_at packing_writer packing_world sample_temp 0 []"
    unfolding writer_at_def by (simp add: stored_content_def)
  show "world_ok packing_world"
    by (simp add: world_ok_def packing_world_def streaming_world_def empty_world_def)
qed

lemma writes_all:
  assumes "writer_at ow w tp i stored" and "wr_allow_raw_writes ow" and "reliable E"
    and "unat (content_start (wr_layout ow)) + length (stored @ bs) \<le> max_offset"
  shows "\<exists>ow' w'. writer_write_all E bs (ow, w) = (Ok (), (ow', w')) \<and> same_writer ow ow' \<and> writer_at ow' w' tp i (stored @ bs)"
proof -
  have "wp (writer_write_all E bs) (\<lambda>_ s. same_writer ow (fst s) \<and> writer_at (fst s) (snd s) tp i (stored @ bs)) (\<lambda>_ _. False) (ow, w)"
    by (rule wp_conseq [OF writer_write_all_wp [OF assms(1,2), of E bs]]) (use assms(3,4) in auto)
  then show ?thesis by (auto dest!: wp_returns)
qed

lemma packing_runs:
  "\<exists>ow w. encode_content sample_env [[7]] (packing_writer, packing_world) = (Ok 1, (ow, w))
     \<and> wr_metadata ow = [(120, VU64 1)] \<and> wr_tags ow = [] \<and> unat (wr_content_length ow) = 2"
proof -
  let ?ow = "packing_writer\<lparr>wr_allow_raw_writes := True\<rparr>"
  have at: "writer_at ?ow packing_world sample_temp 0 []"
    using packing_writer_at(1) by (simp add: writer_at_def)
  have ow: "wr_allow_raw_writes ?ow" "content_start (wr_layout packing_writer) = 96" "wr_metadata packing_writer = []"
    "wr_tags packing_writer = []" "wr_compression packing_writer = Gzip 6"
    by (simp_all add: packing_writer_def sample_writer_def)
  obtain ow1 w1 where run1: "writer_write_all sample_env [7] (?ow, packing_world) = (Ok (), (ow1, w1))"
    and same1: "same_writer ?ow ow1" and at1: "writer_at ow1 w1 sample_temp 0 [7]"
    using writes_all [OF at ow(1) sample_env_ok(1), of "[7]"] by (auto simp: ow(2) max_offset_def)
  note D1 = same_writerD [OF same1]
  have run2: "writer_write_all sample_env [] (ow1, w1) = (Ok (), (ow1, w1))"
    by (simp add: writer_write_all_def write_all.simps [of _ "[]"])
  obtain ow3 w3 where run3: "writer_write_all sample_env [0] (ow1, w1) = (Ok (), (ow3, w3))"
    and same3: "same_writer ow1 ow3" and at3: "writer_at ow3 w3 sample_temp 0 ([7] @ [0])"
    using writes_all [OF at1 _ sample_env_ok(1), of "[0]"] D1(4,10) ow(1,2) by (auto simp: max_offset_def)
  note D3 = same_writerD [OF same3]
  have two: "unat (wr_content_length ow3) = 2" using writer_atD(2) [OF at3] by simp
  then have len: "wr_content_length ow3 \<noteq> 1" by auto
  have gz: "gzip_codec sample_env = Some tail_codec" by (simp add: sample_env_def)
  have key: "uncompressed_length_key sample_env = 120"
    by (simp add: uncompressed_length_key_def sample_env_def letter_names_def UNCOMPRESSED_LENGTH_NAME_def of_char_def)
  show ?thesis
    using ow D1 D3 len two
    by (simp add: encode_content_def open_content_encoder_def content_encoder_new_def ensure_supported_def is_supported_def gz
        encoder_write_all_def write_all.simps [of _ "[7]"] write_all.simps [of _ "[]"] encoder_write_def codec_encoder_write_def
        encoder_flush_def codec_encoder_flush_def encoder_finish_def codec_encoder_finish_def tail_codec_def run1 run2 run3
        st_bind_def with_self_def put_self_def on_world_def st_lift_def st_map_err_def encoder_record_def writer_flush_def file_flush_def
        set_metadata_mut_def key tags_insert_def)

qed

theorem encoder_round_trip_witness:
  "\<exists>ow1 w1 ob w2. encode_content sample_env [[7]] (packing_writer, packing_world) = (Ok 1, (ow1, w1))
     \<and> finish sample_env ow1 w1 = (Ok ob, w2) \<and> fst (read_content_to_vec sample_env (ob, w2)) = Ok [7]"
proof -
  obtain ow1 w1 where enc: "encode_content sample_env [[7]] (packing_writer, packing_world) = (Ok 1, (ow1, w1))"
    and md: "wr_metadata ow1 = [(120, VU64 1)]" and t: "wr_tags ow1 = []"
    and two: "unat (wr_content_length ow1) = 2" using packing_runs by blast
  have secs: "sections_ok (wr_metadata ow1) (wr_tags ow1)"
    by (simp add: md t sections_ok_def tags_ok_def entries_ok_def)
  from wp_run [OF encode_content_wp [OF sample_env_ok(3) packing_writer_at(1), of "[[7]]"] enc] obtain stored
    where fr: "frame {wr_file packing_writer} {0} packing_world w1" and at1: "writer_at ow1 w1 sample_temp 0 stored"
      and keep: "wr_layout ow1 = wr_layout packing_writer" "wr_layout_options ow1 = wr_layout_options packing_writer"
        "wr_final_path ow1 = wr_final_path packing_writer"
    by auto
  have "\<exists>l. finish_layout sample_env ow1 = Ok (Some l)"
    using keep
    by (simp add: finish_layout_def md t packing_writer_def sample_writer_def repartition_eq metadata_size_def
        tag_block_size_def tags_size_def HEADER_SIZE_def layout_default_def DEFAULT_ALIGNMENT_def aligned_def div_ceil_def
        usize_max_def Let_def metakey_size_def sample_env_def letter_names_def num_size_def)
  moreover have "wr_final_path ow1 \<notin> set (w_dirs w1)"
    using keep(3) frameD(2) [OF fr]
    by (simp add: packing_writer_def sample_writer_def packing_world_def streaming_world_def empty_world_def
        sample_path_def sample_dir_def)
  ultimately have can: "finishable sample_env ow1 (length stored) w1"
    using sample_env_ok(1) by (auto simp: finishable_def)
  have "wp (finish sample_env ow1) (\<lambda>_ _. True) (\<lambda>_ _. False) w1"
    by (rule wp_conseq [OF finish_wp [OF sample_env_ok(2) world_ok_frame [OF fr packing_writer_at(2)] at1 secs]])
       (use can in simp_all)
  then obtain ob w2 where fin: "finish sample_env ow1 w1 = (Ok ob, w2)" by (auto dest!: wp_returns)
  have "finished_object sample_env ow1 stored ob w2"
    using wp_run [OF finish_wp [OF sample_env_ok(2) world_ok_frame [OF fr packing_writer_at(2)] at1 secs] fin]
    unfolding res.case by blast
  then have "unat (content_length (ob_header ob)) = length stored"
    unfolding finished_object_def object_at_def holds_object_def by blast
  then have small: "unat (content_length (ob_header ob)) \<le> max_offset"
    using writer_atD(2) [OF at1] two by (simp add: max_offset_def)
  show ?thesis
    using encoder_round_trip [OF sample_env_ok(2,3) packing_writer_at(2,1) enc secs fin small] enc fin sample_env_ok(1)
    by (metis concat.simps append_Nil2)
qed

end
