(* ===== verification/InPlace.thy ===== *)
theory InPlace
  imports Revisions
begin

text \<open>
  What \<open>set_sections_in_place\<close> of \<open>src/src/fs/object.rs\<close> does to a file at every moment. It is not
  crash safe: the prefix is overwritten where it is, so a failure can leave it torn. But it only
  ever rewrites the bytes in front of the content, and in the header nothing but the offset of the
  tags; so at every moment the header is one that says where the content is, and the content is
  there. Everything here holds of any handle, also one whose prefix another handle has rewritten.
\<close>

section \<open>Files with their content in place\<close>

text \<open>A file whose header is \<open>h\<close> and whose content lies where \<open>h\<close> says, whatever is in between.\<close>

definition headed :: "u8 list \<Rightarrow> object_header \<Rightarrow> u8 list \<Rightarrow> bool" where
  "headed d h content \<longleftrightarrow> header_ok h \<and> take 32 d = wire_header h \<and> 32 \<le> unat (h_content_start h) \<and>
     length d = unat (h_content_start h) + length content \<and> drop (unat (h_content_start h)) d = content \<and>
     unat (content_length h) = length content"

lemma holds_headed:
  assumes "header_name_ok (header_names E)" and holds: "holds_object E d h md t content"
  shows "headed d h content"
proof -
  note D = holds_objectD [OF assms]
  have "32 \<le> unat (h_content_start h)" using D(5,7) by (simp add: HEADER_SIZE_def)
  then show ?thesis using D(1,8,9) holds by (simp add: headed_def holds_object_def)
qed

lemma headed_header: "headed d h content \<Longrightarrow> header_read_from_bytes (take 32 d) = Ok h"
  by (simp add: headed_def)

lemma headed_same:
  assumes "headed d h content" and "headed d h' content'"
  shows "h' = h" and "content' = content"
proof -
  show "h' = h" using headed_header [OF assms(1)] headed_header [OF assms(2)] by simp
  then show "content' = content" using assms by (simp add: headed_def)
qed

text \<open>Whatever such a file reads as, if it can be read at all, it has that content.\<close>

lemma headed_parse:
  assumes "headed d h content" and "parse_object E d = Some so"
  shows "so_compression so = compression_type h" and "so_content so = content"
proof -
  note h = headed_header [OF assms(1)]
  have c: "take (unat (content_length h)) (drop (unat (h_content_start h)) d) = content"
    using assms(1) by (simp add: headed_def)
  obtain md t where "so = \<lparr>so_compression = compression_type h, so_metadata = md, so_tags = t, so_content = content\<rparr>"
    using assms(2) unfolding parse_object_def h res.case Let_def c by (auto split: res.splits if_splits)
  then show "so_compression so = compression_type h" and "so_content so = content" by simp_all
qed

section \<open>Torn prefixes\<close>

lemma two_bytes:
  assumes "length bs = 2"
  shows "\<exists>x :: u16. bs = to_le_bytes x"
  using to_from_le_bytes [of bs, where 'a = 16] assms by (intro exI [of _ "from_le_bytes bs"]) simp

lemma mixed_two_bytes: "\<exists>z :: u16. take n (to_le_bytes (x :: u16)) @ drop n (to_le_bytes (y :: u16)) = to_le_bytes z"
proof -
  have "length (take n (to_le_bytes x) @ drop n (to_le_bytes y)) = 2" by simp
  from two_bytes [OF this] show ?thesis .
qed

text \<open>Two headers that differ in the offset of the tags only, one written over the other up to some byte.\<close>

lemma torn_header:
  "\<exists>z. take n (wire_header (h\<lparr>h_tags_start := x\<rparr>)) @ drop n (wire_header (h\<lparr>h_tags_start := y\<rparr>)) =
     wire_header (h\<lparr>h_tags_start := z\<rparr>)"
proof -
  define a where "a = [0x54, 0x55, 0x58] @ [version h] @ wire_compression (compression_type h)"
  define c where "c = to_le_bytes (h_content_start h) @ to_le_bytes (content_length h) @ [bit_flags h] @ replicate 8 0"
  have w: "wire_header (h\<lparr>h_tags_start := z\<rparr>) = a @ to_le_bytes z @ c" for z
    by (simp add: wire_header_def a_def c_def)
  have a: "take n a @ drop n a = a" "take m c @ drop m c = c" for m by simp_all
  obtain z :: u16 where z: "take (n - length a) (to_le_bytes x) @ drop (n - length a) (to_le_bytes y) = to_le_bytes z"
    using mixed_two_bytes by blast
  consider "n \<le> length a" | "length a < n" "n \<le> length a + 2" | "length a + 2 < n" by linarith
  then show ?thesis
  proof cases
    case 1
    then have "take n (wire_header (h\<lparr>h_tags_start := x\<rparr>)) @ drop n (wire_header (h\<lparr>h_tags_start := y\<rparr>)) =
        wire_header (h\<lparr>h_tags_start := y\<rparr>)"
      by (simp add: w)
    then show ?thesis by blast
  next
    case 2
    then have "take n (wire_header (h\<lparr>h_tags_start := x\<rparr>)) @ drop n (wire_header (h\<lparr>h_tags_start := y\<rparr>)) =
        a @ (take (n - length a) (to_le_bytes x) @ drop (n - length a) (to_le_bytes y)) @ c"
      by (simp add: w)
    then show ?thesis using z w by metis
  next
    case 3
    then have "take n (wire_header (h\<lparr>h_tags_start := x\<rparr>)) @ drop n (wire_header (h\<lparr>h_tags_start := y\<rparr>)) =
        wire_header (h\<lparr>h_tags_start := x\<rparr>)"
      by (simp add: w)
    then show ?thesis by blast
  qed
qed

text \<open>A new prefix for the same place, written over the old one up to some byte, leaves the file headed.\<close>

lemma torn_headed:
  assumes d: "headed d h content" and len: "length bs = unat (h_content_start h)"
    and bs: "take 32 bs = wire_header (h\<lparr>h_tags_start := x\<rparr>)"
  shows "\<exists>y. headed (splice 0 (take n bs) d) (h\<lparr>h_tags_start := y\<rparr>) content"
proof -
  let ?d = "splice 0 (take n bs) d"
  have h: "h\<lparr>h_tags_start := h_tags_start h\<rparr> = h" by simp
  have cs: "32 \<le> length bs" "length bs \<le> length d" using d len by (simp_all add: headed_def)
  have new: "?d = take n bs @ drop (min n (length bs)) d" by (simp add: splice_0 min.commute)
  have "take 32 ?d = take n (take 32 bs) @ drop n (take 32 d)"
  proof (cases "n \<le> 32")
    case True
    then have "take n bs @ take (32 - n) (drop n d) = take n (take 32 bs) @ drop n (take 32 d)"
      by (simp add: min_def drop_take)
    moreover have "min n (length bs) = n" using True cs by simp
    ultimately show ?thesis using True cs by (simp add: new)
  next
    case False
    then show ?thesis using cs by (simp add: new min_def)
  qed
  moreover have "take 32 d = wire_header (h\<lparr>h_tags_start := h_tags_start h\<rparr>)" using d by (simp add: headed_def)
  moreover obtain y where "take n (wire_header (h\<lparr>h_tags_start := x\<rparr>)) @ drop n (wire_header (h\<lparr>h_tags_start := h_tags_start h\<rparr>)) =
      wire_header (h\<lparr>h_tags_start := y\<rparr>)"
    using torn_header by blast
  ultimately have "take 32 ?d = wire_header (h\<lparr>h_tags_start := y\<rparr>)" using bs by simp
  moreover have "drop (unat (h_content_start h)) ?d = content"
    using d by (simp add: new len headed_def min_def)
  moreover have "length ?d = length d" using cs by (simp add: new)
  ultimately show ?thesis using d by (auto simp: headed_def header_ok_def)
qed

section \<open>Every moment of an update in place\<close>

text \<open>Whatever could be seen: at the names of one file, bytes that satisfy \<open>P\<close>; at all others, what was there.\<close>

definition shows_at :: "nat \<Rightarrow> (u8 list \<Rightarrow> bool) \<Rightarrow> world \<Rightarrow> world \<Rightarrow> bool" where
  "shows_at i P w w' \<longleftrightarrow>
     shown (\<lambda>v. \<forall>q. if w_names w q = Some i then (\<exists>d. v q = Some d \<and> P d) else v q = view_of w q) w w'"

lemma shows_at_refl [simp]: "shows_at i P w w"
  by (simp add: shows_at_def)

lemma shows_at_mono: "shows_at i P w w' \<Longrightarrow> (\<And>d. P d \<Longrightarrow> Q d) \<Longrightarrow> shows_at i Q w w'"
  unfolding shows_at_def by (erule shown_mono) (metis (full_types))

lemma shows_at_step:
  assumes a: "shows_at i P w w1" and fr: "frame F {i} w w1" and fr2: "frame F2 {i} w1 w2"
    and tr: "w_trace w2 = view_of w2 # w_trace w1" and P: "P (w_data w2 i)"
  shows "shows_at i P w w2"
proof -
  have n: "w_names w2 = w_names w" using frameD(1) [OF fr] frameD(1) [OF fr2] by simp
  have "view_of w2 q = view_of w q" if "w_names w q \<noteq> Some i" for q
    using frame_view [OF fr2, of q] frame_view [OF fr, of q] that frameD(1) [OF fr] by simp
  moreover have "view_of w2 q = Some (w_data w2 i)" if "w_names w q = Some i" for q
    using that by (simp add: view_of_def n)
  ultimately have "shown (\<lambda>v. \<forall>q. if w_names w q = Some i then (\<exists>d. v q = Some d \<and> P d) else v q = view_of w q) w1 w2"
    unfolding shown_def using tr P by (intro exI [of _ "[view_of w2]"]) auto
  then show ?thesis using a unfolding shows_at_def by (rule shown_trans [rotated])
qed

text \<open>A call that does not look at the trace adds to it what is visible after it.\<close>

lemma sys_write_trace: "sys_write E fd bs w = (r, w') \<Longrightarrow> w_trace w' = view_of w' # w_trace w"
  by (auto simp: sys_write_def syscall_def with_file_def set_pos_def Let_def split: option.splits prod.splits if_splits)

lemma sys_seek_trace: "sys_seek E fd n w = (r, w') \<Longrightarrow> w_trace w' = view_of w' # w_trace w"
  by (auto simp: sys_seek_def syscall_def with_file_def set_pos_def split: option.splits prod.splits if_splits)

text \<open>A buffer written from the start of a file: at every moment a front of it.\<close>

lemma overwrite_views:
  assumes f: "w_open w fd = Some f" "of_writable f" "of_pos f = 0"
    and P: "\<And>n. P (splice 0 (take n bs) (w_data w (of_inode f)))"
  shows "wp (file_write_all E fd bs) (\<lambda>_ w'. shows_at (of_inode f) P w w') (\<lambda>e w'. shows_at (of_inode f) P w w') w"
proof -
  let ?i = "of_inode f"
  define I where "I out w' \<longleftrightarrow> frame {fd} {?i} w w' \<and> shows_at ?i P w w'
      \<and> w_data w' ?i = splice 0 out (w_data w ?i) \<and> w_open w' fd = Some (f\<lparr>of_pos := length out\<rparr>)" for out w'
  have "wp (write_all (sys_write E fd) bs) (\<lambda>_. I bs) (\<lambda>e w'. shows_at ?i P w w') w"
  proof (rule write_all_wp)
    fix out rest w1
    assume I: "I out w1" and bs: "bs = out @ rest" and ne: "rest \<noteq> []"
    then have fr: "frame {fd} {?i} w w1" and sh: "shows_at ?i P w w1" and d: "w_data w1 ?i = splice 0 out (w_data w ?i)"
      and o1: "w_open w1 fd = Some (f\<lparr>of_pos := length out\<rparr>)"
      by (simp_all add: I_def)
    have front: "P (splice 0 (out @ take n rest) (w_data w ?i))" for n
      using P [of "length out + n"] by (simp add: bs)
    obtain r w2 where run: "sys_write E fd rest w1 = (r, w2)" by (metis surj_pair)
    have "of_writable (f\<lparr>of_pos := length out\<rparr>)" using f(2) by simp
    note spec = wp_run [OF sys_write_wp [OF o1 this] run]
    have fr2: "frame {fd} {?i} w1 w2" using spec by (cases r) (auto elim: frame_mono)
    show "wp (sys_write E fd rest) (\<lambda>n w'. n \<le> length rest \<and> I (out @ take n rest) w' \<and> (n = 0 \<longrightarrow> shows_at ?i P w w'))
        (\<lambda>e w'. shows_at ?i P w w') w1"
    proof (cases r)
      case (Ok n)
      with spec have n: "n \<le> length rest" and d2: "w_data w2 ?i = splice (length out) (take n rest) (w_data w1 ?i)"
        and o2: "w_open w2 fd = Some (f\<lparr>of_pos := length out + n\<rparr>)"
        by auto
      have d2': "w_data w2 ?i = splice 0 (out @ take n rest) (w_data w ?i)"
        using splice_append [of 0 out "take n rest"] by (simp add: d2 d)
      have "shows_at ?i P w w2"
        by (rule shows_at_step [OF sh fr fr2 sys_write_trace [OF run]]) (simp add: d2' front)
      then show ?thesis
        using run Ok n d2' o2 frame_trans [OF fr fr2] by (simp add: wp_def I_def)
    next
      case (Err e)
      with spec have "w_data w2 ?i = splice 0 out (w_data w ?i)" using frameD(6) [of "{}" "{}" w1 w2 ?i] by (simp add: d)
      then have "shows_at ?i P w w2"
        using front [of 0] by (intro shows_at_step [OF sh fr fr2 sys_write_trace [OF run]]) simp
      then show ?thesis using run Err by (simp add: wp_def)
    next
      case Panic
      with spec show ?thesis by simp
    qed
  next
    show "I [] w" using f by (cases f) (simp add: I_def)
  qed
  then show ?thesis unfolding file_write_all_def by (rule wp_conseq) (simp_all add: I_def)
qed

section \<open>The operation\<close>

text \<open>
  A handle behind which the content lies: the header it was opened with is that of the file, but for
  the offset of the tags, which another handle may have moved since.
\<close>

definition handle_at :: "'hn tux_object \<Rightarrow> world \<Rightarrow> object_header \<Rightarrow> u8 list \<Rightarrow> bool" where
  "handle_at ob w h content \<longleftrightarrow>
     (\<exists>f. w_open w (ob_file ob) = Some f \<and> (ob_writable ob \<longrightarrow> of_writable f) \<and> headed (w_data w (of_inode f)) h content)
     \<and> (\<exists>x. ob_header ob = h\<lparr>h_tags_start := x\<rparr>)"

lemma headedD:
  assumes "headed d h content"
  shows "header_ok h" "take 32 d = wire_header h" "32 \<le> unat (h_content_start h)"
    "length d = unat (h_content_start h) + length content" "drop (unat (h_content_start h)) d = content"
    "unat (content_length h) = length content"
  using assms by (simp_all only: headed_def)

lemma handle_at_behind:
  assumes "handle_at ob w h content"
  shows "content_behind ob w content"
proof -
  obtain f x where f: "w_open w (ob_file ob) = Some f" "headed (w_data w (of_inode f)) h content"
    and x: "ob_header ob = h\<lparr>h_tags_start := x\<rparr>"
    using assms unfolding handle_at_def by blast
  show ?thesis using f(1) headedD(5,6) [OF f(2)] by (simp add: content_behind_def x)
qed

lemma object_at_handle:
  assumes "header_name_ok (header_names E)" and at: "object_at E ob w t content"
    and "\<And>f. w_open w (ob_file ob) = Some f \<Longrightarrow> ob_writable ob \<Longrightarrow> of_writable f"
  shows "handle_at ob w (ob_header ob) content"
proof -
  obtain f where f: "w_open w (ob_file ob) = Some f"
    "holds_object E (w_data w (of_inode f)) (ob_header ob) (ob_metadata ob) t content"
    using at unfolding object_at_def by blast
  have x: "ob_header ob = (ob_header ob)\<lparr>h_tags_start := h_tags_start (ob_header ob)\<rparr>" by simp
  show ?thesis
    unfolding handle_at_def using f(1) holds_headed [OF assms(1) f(2)] assms(3) [OF f(1)] x by blast
qed

lemma new_prefix_holds:
  assumes H: "header_name_ok (header_names E)" and d: "headed d h content" and h': "h' = h\<lparr>h_tags_start := tags_start l\<rparr>"
    and ok: "sections_ok md t" and fits: "layout_fits l (metadata_size E md) (tag_block_size t)"
    and l: "content_start l = h_content_start h"
  shows "holds_object E (splice 0 (prefix_image E h' md t l) d) h' md t content"
proof -
  have "header_layout h' = l" by (cases l) (use l in \<open>simp add: header_layout_def h'\<close>)
  moreover have "splice 0 (prefix_image E h' md t l) d = prefix_image E h' md t l @ content"
    using length_prefix_image [OF H ok fits, of h'] d by (simp add: splice_0 l headed_def)
  ultimately show ?thesis using d ok fits by (simp add: holds_object_def h' headed_def header_ok_def)
qed

text \<open>
  Whatever handle it is called on: at every moment the file is headed, and its content in place. On
  success the file holds the new object, and the handle names it; a failure leaves the file headed.
\<close>

lemma in_place_wp:
  assumes H: "header_name_ok (header_names E)" and f: "w_open w (ob_file ob) = Some f"
    and at: "handle_at ob w h content" and typed: "sections_typed md t"
  defines "P \<equiv> \<lambda>d. \<exists>x. headed d (h\<lparr>h_tags_start := x\<rparr>) content"
  shows "wp (set_sections_in_place E md t)
     (\<lambda>_ s. frame {ob_file ob} {of_inode f} w (snd s) \<and> shows_at (of_inode f) P w (snd s) \<and> ob_writable ob
        \<and> object_at E (fst s) (snd s) t content \<and> ob_metadata (fst s) = md
        \<and> (\<exists>x. fst s = ob\<lparr>ob_header := h\<lparr>h_tags_start := x\<rparr>, ob_metadata := md\<rparr>))
     (\<lambda>e s. frame {ob_file ob} {of_inode f} w (snd s) \<and> shows_at (of_inode f) P w (snd s) \<and> fst s = ob
        \<and> P (w_data (snd s) (of_inode f)) \<and> (\<not> ob_writable ob \<longrightarrow> snd s = w)) (ob, w)"
proof -
  let ?i = "of_inode f" and ?d = "w_data w (of_inode f)"
  have d: "headed ?d h content" and rw: "ob_writable ob \<longrightarrow> of_writable f" using at f by (auto simp: handle_at_def)
  obtain x0 where h0: "ob_header ob = h\<lparr>h_tags_start := x0\<rparr>" using at by (auto simp: handle_at_def)
  have same: "h\<lparr>h_tags_start := h_tags_start h\<rparr> = h" by simp
  have P0: "P ?d" unfolding P_def using d same by metis
  define Q where "Q s \<longleftrightarrow> frame {ob_file ob} {?i} w (snd s) \<and> shows_at ?i P w (snd s) \<and> ob_writable ob
        \<and> object_at E (fst s) (snd s) t content \<and> ob_metadata (fst s) = md
        \<and> (\<exists>x. fst s = ob\<lparr>ob_header := h\<lparr>h_tags_start := x\<rparr>, ob_metadata := md\<rparr>)" for s :: "'a tux_object \<times> world"
  define R where "R e s \<longleftrightarrow> frame {ob_file ob} {?i} w (snd s) \<and> shows_at ?i P w (snd s) \<and> fst s = ob
        \<and> P (w_data (snd s) ?i) \<and> (\<not> ob_writable ob \<longrightarrow> snd s = w)"
    for e :: "object_file_error option" and s :: "'a tux_object \<times> world"
  have R0: "R e (ob, w)" for e using P0 by (simp add: R_def)
  let ?rep = "repartition (h_content_start h) (metadata_size E md) (tag_block_size t) DEFAULT_ALIGNMENT
      :: (section_layout option, object_file_error) res"
  have "wp (set_sections_in_place E md t) (\<lambda>_. Q) R (ob, w)"
  proof (cases "ob_writable ob \<and> (\<exists>l. ?rep = Ok (Some l))")
    case False
    then consider "\<not> ob_writable ob" | "ob_writable ob" "?rep = Ok None" | "ob_writable ob" "?rep = Panic"
      using repartition_not_Err by (metis option.exhaust res.exhaust)
    then show ?thesis
      by cases (auto simp: set_sections_in_place_def ensure_writable_def Let_def h0 intro!: R0)
  next
    case True
    then obtain l where wr: "ob_writable ob" and l: "?rep = Ok (Some l)" by blast
    note rep = repartition_Some(1,2) [OF l]
    let ?h' = "h\<lparr>h_tags_start := tags_start l\<rparr>"
    have h': "h\<lparr>h_tags_start := tags_start l, h_content_start := content_start l\<rparr> = ?h'"
      by (simp add: rep(2))
    show ?thesis
    proof (cases "encode_prefix E ?h' md t l")
      case (Ok prefix)
      have ok: "sections_ok md t" by (rule encode_prefix_limits [OF typed Ok])
      have img: "prefix = prefix_image E ?h' md t l" using encode_prefix_image [OF H ok rep(1), of ?h'] Ok by simp
      have len: "length prefix = unat (h_content_start h)" using encode_prefix_length [OF Ok] rep(2) by simp
      have hdr: "take 32 prefix = wire_header ?h'"
        using prefix_image_sections(1) [OF H ok rep(1), of ?h' "[]"] by (simp add: img)
      have torn: "P (splice 0 (take n prefix) ?d)" for n
        unfolding P_def using torn_headed [OF d len hdr] by simp
      have new: "holds_object E (splice 0 prefix ?d) ?h' md t content"
        unfolding img by (rule new_prefix_holds [OF H d refl ok rep])
      let ?ob = "ob\<lparr>ob_header := ?h', ob_metadata := md\<rparr>"
      have "wp (st_bind (io (sys_seek E (ob_file ob) 0)) (\<lambda>_.
             st_bind (io (file_write_all E (ob_file ob) prefix)) (\<lambda>_.
             st_bind (io (file_flush (ob_file ob))) (\<lambda>_. put_self ?ob)))) (\<lambda>_. Q) R (ob, w)"
        unfolding wp_bind [of "io (sys_seek E (ob_file ob) 0)"] wp_io snd_conv
      proof -
        obtain a w1 where seek: "sys_seek E (ob_file ob) 0 w = (a, w1)" by (metis surj_pair)
        note spec = wp_run [OF sys_seek_wp [OF f] seek]
        have fr1: "frame {ob_file ob} {} w w1" using spec by (cases a) (auto elim: frame_mono)
        have fr1': "frame {ob_file ob} {?i} w w1" by (rule frame_mono [OF fr1]) auto
        have d1: "w_data w1 ?i = ?d" using frameD(6) [OF fr1] by simp
        have sh1: "shows_at ?i P w w1"
          by (rule shows_at_step [OF shows_at_refl frame_refl fr1' sys_seek_trace [OF seek]]) (simp add: d1 P0)
        show "wp (sys_seek E (ob_file ob) 0)
          (\<lambda>a w'. wp (st_bind (io (file_write_all E (ob_file ob) prefix)) (\<lambda>_. st_bind (io (file_flush (ob_file ob)))
             (\<lambda>_. put_self ?ob))) (\<lambda>_. Q) R (fst (ob, w), w'))
          (\<lambda>e w'. R (map_option IO e) (fst (ob, w), w')) w"
        proof (cases a)
          case (Ok u)
          with spec have o1: "w_open w1 (ob_file ob) = Some (f\<lparr>of_pos := 0\<rparr>)" by auto
          have wf: "of_writable (f\<lparr>of_pos := 0\<rparr>)" "of_pos (f\<lparr>of_pos := 0\<rparr>) = 0" using rw wr by simp_all
          have front: "P (splice 0 (take n prefix) (w_data w1 (of_inode (f\<lparr>of_pos := 0\<rparr>))))" for n
            using torn by (simp add: d1)
          have v1: "view_of w1 = view_of w" by (rule ext) (rule frame_view [OF fr1], simp)
          have sh: "shows_at ?i P w w2" if "shows_at ?i P w1 w2" for w2
            using shown_trans [OF sh1 [unfolded shows_at_def] that [unfolded shows_at_def frameD(1) [OF fr1] v1]]
            by (simp only: shows_at_def)
          have "wp (st_bind (io (file_write_all E (ob_file ob) prefix)) (\<lambda>_. st_bind (io (file_flush (ob_file ob)))
             (\<lambda>_. put_self ?ob))) (\<lambda>_. Q) R (ob, w1)"
          proof (rule wp_bind_io [OF wp_and [OF file_write_all_wp [OF o1 wf(1)] overwrite_views [where P = P, OF o1 wf front]]], goal_cases)
            case (1 _ w2)
            then have fr: "frame {ob_file ob} {?i} w w2" and v: "shows_at ?i P w w2"
              and d2: "w_data w2 ?i = splice 0 prefix ?d" and o2: "\<exists>g. w_open w2 (ob_file ob) = Some g \<and> of_inode g = ?i"
              using frame_trans [OF fr1', of w2] sh [of w2] by (auto simp: d1)
            have "object_at E ?ob w2 t content" using new o2 by (auto simp: object_at_def d2)
            then show ?case using fr v wr by (auto simp: Q_def file_flush_def io_def wp_bind wp_on_world wp_map_err)
          next
            case (2 e w2)
            then show ?case using frame_trans [OF fr1', of w2] sh [of w2] torn wr by (auto simp: R_def d1)
          qed
          then show ?thesis using seek Ok by (simp add: wp_def)
        qed (use spec seek fr1' sh1 d1 P0 wr in \<open>simp_all add: wp_def R_def\<close>)
      qed
      then show ?thesis
        using wr l Ok by (simp add: set_sections_in_place_def ensure_writable_def Let_def h0 h')
    next
      case (Err e)
      then show ?thesis
        using wr l by (auto simp: set_sections_in_place_def ensure_writable_def Let_def h0 h' intro: R0)
    next
      case Panic
      then show ?thesis using encode_prefix_not_Panic [OF rep(1)] by blast
    qed
  qed
  then show ?thesis by (rule wp_conseq) (simp_all add: Q_def R_def)
qed

section \<open>Reading\<close>

text \<open>Every way of reading an object, as far as its state goes: only the offset of its handle moves.\<close>

datatype read_op = Read_tags | Count_tags | Find_tag "u8 list" | Read_range u64 "u64 option" | Read_content
  | Stored_reader | Read_some content_reader nat | Measure_file

fun read_effect :: "'hn env \<Rightarrow> read_op \<Rightarrow> 'hn tux_object \<times> world \<Rightarrow> 'hn tux_object \<times> world" where
  "read_effect E Read_tags s = snd (object_read_tags E s)"
| "read_effect E Count_tags s = snd (tag_count E s)"
| "read_effect E (Find_tag key) s = snd (find_tag E key s)"
| "read_effect E (Read_range offset len) s = snd (read_range E offset len s)"
| "read_effect E Read_content s = snd (read_content_to_vec E s)"
| "read_effect E Stored_reader s = snd (stored_content_reader E s)"
| "read_effect E (Read_some r n) s =
     (fst s, snd (snd (content_read E n (r\<lparr>cr_file := ob_file (fst s)\<rparr>, snd s))))"
| "read_effect E Measure_file s = snd (file_size E s)"

definition only_moves :: "'hn tux_object \<Rightarrow> ('hn tux_object \<times> world, 'a, 'e) st \<Rightarrow> bool" where
  "only_moves ob m \<longleftrightarrow> (\<forall>w r s. w_open w (ob_file ob) \<noteq> None \<longrightarrow> m (ob, w) = (r, s) \<longrightarrow>
     fst s = ob \<and> frame {ob_file ob} {} w (snd s))"

lemma only_movesI:
  "(\<And>w f. w_open w (ob_file ob) = Some f \<Longrightarrow>
      wp m (\<lambda>_ s. fst s = ob \<and> frame {ob_file ob} {} w (snd s)) (\<lambda>_ s. fst s = ob \<and> frame {ob_file ob} {} w (snd s)) (ob, w)) \<Longrightarrow>
   only_moves ob m"
  unfolding only_moves_def wp_def by (fastforce split: res.splits)

lemma only_movesD:
  assumes "only_moves ob m" and "w_open w (ob_file ob) \<noteq> None" and "m (ob, w) = (r, s)"
  shows "fst s = ob" and "frame {ob_file ob} {} w (snd s)"
  using assms unfolding only_moves_def by blast+

lemma frame_open: "frame F I w w' \<Longrightarrow> w_open w fd \<noteq> None \<Longrightarrow> w_open w' fd \<noteq> None"
proof -
  assume "frame F I w w'" "w_open w fd \<noteq> None"
  then have "map_option (\<lambda>f. (of_inode f, of_writable f)) (w_open w' fd) \<noteq> None" by (simp add: frame_def)
  then show ?thesis by simp
qed

lemma only_moves_lift: "only_moves ob (st_lift r)"
  by (simp add: only_moves_def st_lift_def)

lemma only_moves_self [simp]: "only_moves ob (with_self f) \<longleftrightarrow> only_moves ob (f ob)"
  by (simp add: only_moves_def with_self_def)

lemma only_moves_bind:
  assumes m: "only_moves ob m" and f: "\<And>a. only_moves ob (f a)"
  shows "only_moves ob (st_bind m f)"
  unfolding only_moves_def
proof (intro allI impI)
  fix w :: world and r2 s2
  assume o: "w_open w (ob_file ob) \<noteq> None" and run2: "st_bind m f (ob, w) = (r2, s2)"
  obtain r w1 where run: "m (ob, w) = (r, (ob, w1))" and fr: "frame {ob_file ob} {} w w1"
    using only_movesD [OF m o] by (metis prod.collapse)
  show "fst s2 = ob \<and> frame {ob_file ob} {} w (snd s2)"
  proof (cases r)
    case (Ok a)
    then have "f a (ob, w1) = (r2, s2)" using run2 by (simp add: st_bind_def run)
    from only_movesD [OF f frame_open [OF fr o] this] show ?thesis using frame_trans [OF fr] by blast
  next
    case (Err e)
    then show ?thesis using run2 fr by (auto simp: st_bind_def run)
  next
    case Panic
    then show ?thesis using run2 fr by (auto simp: st_bind_def run)
  qed
qed

lemma only_moves_seek: "only_moves ob (io (sys_seek E (ob_file ob) n))"
  by (rule only_movesI, unfold wp_io snd_conv, rule wp_conseq [OF sys_seek_wp]) (auto elim: frame_mono)

lemma only_moves_read: "only_moves ob (io (file_read_exact E (ob_file ob) n))"
  by (rule only_movesI, unfold wp_io snd_conv, rule wp_conseq [OF file_read_exact_wp]) auto

lemma only_moves_to_end: "cr_file r = ob_file ob \<Longrightarrow> only_moves ob (io (with_reader r (content_read_to_end E)))"
  by (rule only_movesI, unfold wp_io snd_conv with_reader_wp, rule wp_conseq [OF content_read_to_end_wp]) auto

text \<open>A reader that a method of the object makes reads from the file of the object.\<close>

definition makes_reader :: "'hn tux_object \<Rightarrow> ('r \<Rightarrow> nat) \<Rightarrow> ('hn tux_object \<times> world, 'r, 'e) st \<Rightarrow> bool" where
  "makes_reader ob file m \<longleftrightarrow> only_moves ob m \<and> (\<forall>w r s. m (ob, w) = (Ok r, s) \<longrightarrow> file r = ob_file ob)"

fun decoded_file :: "decoded_reader \<Rightarrow> nat" where
  "decoded_file (Stored r) = cr_file r"
| "decoded_file (Decoding cd r) = cr_file r"

lemma only_moves_reader:
  assumes m: "makes_reader ob file m" and f: "\<And>r. file r = ob_file ob \<Longrightarrow> only_moves ob (f r)"
  shows "only_moves ob (st_bind m f)"
  unfolding only_moves_def
proof (intro allI impI)
  fix w :: world and r2 s2
  assume o: "w_open w (ob_file ob) \<noteq> None" and run2: "st_bind m f (ob, w) = (r2, s2)"
  have mv: "only_moves ob m" and mk: "\<And>w r s. m (ob, w) = (Ok r, s) \<Longrightarrow> file r = ob_file ob"
    using m unfolding makes_reader_def by blast+
  obtain r w1 where run: "m (ob, w) = (r, (ob, w1))" and fr: "frame {ob_file ob} {} w w1"
    using only_movesD [OF mv o] by (metis prod.collapse)
  show "fst s2 = ob \<and> frame {ob_file ob} {} w (snd s2)"
  proof (cases r)
    case (Ok a)
    then have "f a (ob, w1) = (r2, s2)" using run2 by (simp add: st_bind_def run)
    from only_movesD [OF f [OF mk [OF run [unfolded Ok]]] frame_open [OF fr o] this] show ?thesis using frame_trans [OF fr] by blast
  next
    case (Err e)
    then show ?thesis using run2 fr by (auto simp: st_bind_def run)
  next
    case Panic
    then show ?thesis using run2 fr by (auto simp: st_bind_def run)
  qed
qed

lemma only_moves_decoded: "decoded_file d = ob_file ob \<Longrightarrow> only_moves ob (io (decoded_read_to_end E d))"
proof (cases d)
  case (Stored r)
  then show "decoded_file d = ob_file ob \<Longrightarrow> ?thesis"
    using only_moves_to_end [of r ob E] by (simp add: decoded_read_to_end_def)
next
  case (Decoding cd r)
  assume "decoded_file d = ob_file ob"
  then show ?thesis
    using Decoding
    by (intro only_movesI, unfold wp_io snd_conv decoded_read_to_end_def, simp add: wp_bind with_reader_wp,
        intro wp_conseq [OF content_read_to_end_wp]) (auto simp: wp_def st_lift_def split: res.splits)
qed

lemma stored_makes: "makes_reader ob cr_file (stored_content_reader E)"
  by (auto simp: makes_reader_def stored_content_reader_def with_self_def st_bind_def st_lift_def
      intro!: only_moves_bind only_moves_seek only_moves_lift split: prod.splits res.splits)

lemma range_makes: "makes_reader ob cr_file (content_range_reader E offset len)"
  by (auto simp: makes_reader_def content_range_reader_def with_self_def st_bind_def st_lift_def Let_def
      intro!: only_moves_bind only_moves_seek only_moves_lift split: prod.splits res.splits if_splits)

lemma decompressed_makes: "makes_reader ob decoded_file (decompressed_content_reader E)"
proof -
  have "only_moves ob (decompressed_content_reader E)"
    using stored_makes [of ob E]
    by (auto simp: decompressed_content_reader_def makes_reader_def Let_def
        intro!: only_moves_bind only_moves_lift split: compression_types.splits option.splits)
  moreover have "decoded_file d = ob_file ob" if run: "decompressed_content_reader E (ob, w) = (Ok d, s)" for w d s
  proof -
    obtain a ob1 w1 where st: "stored_content_reader E (ob, w) = (a, (ob1, w1))" by (metis surj_pair)
    have "cr_file r = ob_file ob" if "a = Ok r" for r
      using stored_makes [of ob E] st that unfolding makes_reader_def by blast
    then show ?thesis
      using run st
      by (cases a) (auto simp: decompressed_content_reader_def with_self_def st_bind_def st_lift_def Let_def
          split: compression_types.splits option.splits)
  qed
  ultimately show ?thesis unfolding makes_reader_def by blast
qed

lemma file_len_moves: "only_moves ob (io (sys_file_len E (ob_file ob)))"
proof (rule only_movesI)
  fix w :: world and f
  assume "w_open w (ob_file ob) = Some f"
  then show "wp (io (sys_file_len E (ob_file ob))) (\<lambda>_ s. fst s = ob \<and> frame {ob_file ob} {} w (snd s))
      (\<lambda>_ s. fst s = ob \<and> frame {ob_file ob} {} w (snd s)) (ob, w)"
    unfolding wp_io snd_conv sys_file_len_def
    by (intro syscall_spec) (auto simp: wp_def with_file_def frame_tick)
qed

lemma content_read_moves:
  fixes w :: world
  shows "w_open w (cr_file r) \<noteq> None \<Longrightarrow> frame {cr_file r} {} w (snd (snd (content_read E n (r, w))))"
proof -
  assume "w_open w (cr_file r) \<noteq> None"
  then obtain f where "w_open w (cr_file r) = Some f" by blast
  from content_read_wp [OF this, of E n] show ?thesis by (auto simp: wp_def split: prod.splits res.splits)
qed

lemmas moves = only_moves_bind only_moves_lift only_moves_seek only_moves_read

lemma methods_move:
  "only_moves ob (object_read_tags E)" "only_moves ob (tag_count E)" "only_moves ob (find_tag E key)"
  "only_moves ob (read_range E offset len)" "only_moves ob (read_content_to_vec E)" "only_moves ob (file_size E)"
proof -
  show "only_moves ob (object_read_tags E)" "only_moves ob (tag_count E)" "only_moves ob (find_tag E key)"
    by (auto simp: object_read_tags_def tag_count_def find_tag_def intro!: moves)
  show "only_moves ob (read_range E offset len)"
    unfolding read_range_def by (rule only_moves_reader [OF range_makes only_moves_to_end])
  show "only_moves ob (read_content_to_vec E)"
    by (simp add: read_content_to_vec_def only_moves_lift only_moves_reader [OF decompressed_makes only_moves_decoded])
  show "only_moves ob (file_size E)" by (simp add: file_size_def file_len_moves)
qed

lemma read_effect_moves:
  assumes o: "w_open w (ob_file ob) \<noteq> None"
  shows "fst (read_effect E op (ob, w)) = ob \<and> frame {ob_file ob} {} w (snd (read_effect E op (ob, w)))"
proof -
  have one: "fst (snd (m (ob, w))) = ob \<and> frame {ob_file ob} {} w (snd (snd (m (ob, w))))" if "only_moves ob m"
    for m :: "('a tux_object \<times> world, 'b, 'c) st"
    using only_movesD [OF that o, of "fst (m (ob, w))" "snd (m (ob, w))"] by simp
  have "only_moves ob (stored_content_reader E)" using stored_makes [of ob E] by (simp add: makes_reader_def)
  note ms = methods_move [of ob E, THEN one] this [THEN one]
  show ?thesis
    using ms content_read_moves [where w = w and r = "r\<lparr>cr_file := ob_file ob\<rparr>" for r] o
    by (cases op) simp_all
qed

section \<open>Opening\<close>

text \<open>What is opened has the header of the file, whatever has become of its sections.\<close>

lemma from_file_header:
  assumes f: "w_open w fd = Some f" and d: "headed (w_data w (of_inode f)) h content"
  shows "wp (from_file E fd p wr)
     (\<lambda>ob w'. frame {fd} {} w w' \<and> (\<exists>md. ob = from_parts fd p h md wr)) (\<lambda>_ w'. frame {fd} {} w w') w"
proof -
  let ?Q = "\<lambda>ob w'. frame {fd} {} w w' \<and> (\<exists>md. ob = from_parts fd p h md wr)"
  show ?thesis
    unfolding from_file_def
  proof (rule wp_bind_map_err [OF sys_seek_wp [OF f]], goal_cases)
    case (1 _ w1)
    then have fr1: "frame {fd} {} w w1" and o1: "w_open w1 fd = Some (f\<lparr>of_pos := 0\<rparr>)" by auto
    have d1: "w_data w1 (of_inode f) = w_data w (of_inode f)" using frameD(6) [OF fr1] by simp
    show ?case
    proof (rule wp_bind_map_err [OF file_read_exact_wp [OF o1]], goal_cases)
      case (1 bs w2)
      then have fr2: "frame {fd} {} w w2" and o2: "w_open w2 fd = Some (f\<lparr>of_pos := 32\<rparr>)"
        and bs: "bs = take 32 (w_data w (of_inode f))"
        using frame_trans [OF fr1] by (auto simp: HEADER_SIZE_def d1)
      have hd: "header_read_from_bytes bs = Ok h" using headed_header [OF d] by (simp add: bs)
      have read: "wp (st_bind (st_map_err IO (file_read_exact E fd n))
              (\<lambda>buffer. st_bind (st_lift (decode_with (read_tags (read_metakey (header_names E))) buffer))
                (\<lambda>md. st_lift (Ok (from_parts fd p h md wr)))))
           ?Q (\<lambda>_ w'. frame {fd} {} w w') w2" for n
      proof (rule wp_bind_map_err [OF file_read_exact_wp [OF o2]], goal_cases)
        case (1 buffer w3)
        then show ?case
          using frame_trans [OF fr2, of w3]
          by (cases "decode_with (read_tags (read_metakey (header_names E))) buffer") auto
      next
        case (2 e w3)
        then show ?case using frame_trans [OF fr2, of w3] by auto
      qed
      show ?case using fr2 read [of "unat (h_tags_start h) - HEADER_SIZE"] by (auto simp: hd Let_def)
    next
      case (2 e w2)
      then show ?case using frame_trans [OF fr1, of w2] by auto
    qed
  next
    case (2 e w1)
    then show ?case using frame_mono [of "{}" "{}" w w1 "{fd}" "{}"] by auto
  qed
qed

end
