(* ===== verification/Directory.thy ===== *)
theory Directory
  imports InPlace
begin

text \<open>
  Many writers and opened objects at work on one directory, in any order, under any faults: a state
  machine with a step for every way an operation of the blocking layer of \<open>src/src/fs\<close> can end,
  updates in place and aborted writers included. Each step says what it does to the store of objects.
  The state carries what the operations promise to keep: the bytes a writer was given, the content of
  an opened object, and which paths an update in place may have torn. The invariant, kept by every
  step, is that the promises hold.
\<close>

section \<open>The state machine\<close>

type_synonym 'hn streaming = "'hn object_writer \<times> u8 list"
type_synonym 'hn opened = "'hn tux_object \<times> u8 list \<times> bool"

text \<open>
  A writer with the bytes streamed into it; an opened object with its content, and whether what its
  handle knows of the sections is current, which it is until another handle updates the same file in
  place. \<open>sy_torn\<close> are the paths whose prefix a failed update in place may have left torn;
  \<open>sy_exposed\<close> those on which one was ever begun.
\<close>

record 'hn system =
  sy_world :: world
  sy_writers :: "nat \<Rightarrow> 'hn streaming option"
  sy_objects :: "nat \<Rightarrow> 'hn opened option"
  sy_torn :: "path set"
  sy_exposed :: "path set"

text \<open>What a step does to the store.\<close>

datatype 'hn event = Unseen
  | Puts path "'hn stored_object"
  | May_put path "'hn stored_object"
  | Amends "path set" "'hn stored_object"
  | Tears "path set" compression_types "u8 list"

definition inode_of :: "world \<Rightarrow> nat \<Rightarrow> nat option" where
  "inode_of w fd = map_option of_inode (w_open w fd)"

definition names_of :: "world \<Rightarrow> nat \<Rightarrow> path set" where
  "names_of w fd = {p. w_names w p \<noteq> None \<and> w_names w p = inode_of w fd}"

text \<open>Every handle to a file is out of date once another one has updated the file in place.\<close>

definition outdated :: "world \<Rightarrow> nat \<Rightarrow> (nat \<Rightarrow> 'hn opened option) \<Rightarrow> nat \<Rightarrow> 'hn opened option" where
  "outdated w fd obs h = map_option (\<lambda>(ob, content, current).
     (ob, content, current \<and> inode_of w (ob_file ob) \<noteq> inode_of w fd)) (obs h)"

text \<open>The bytes a call to \<open>write_all\<close> or \<open>write\<close> took.\<close>

definition taken_by_all :: "(unit, io_kind) res \<Rightarrow> 'hn object_writer \<Rightarrow> 'hn object_writer \<Rightarrow> u8 list \<Rightarrow> u8 list" where
  "taken_by_all r ow ow' bs =
     (if r = Ok () then bs else take (unat (wr_content_length ow') - unat (wr_content_length ow)) bs)"

fun taken_by :: "(nat, io_kind) res \<Rightarrow> u8 list \<Rightarrow> u8 list" where
  "taken_by (Ok n) bs = take n bs"
| "taken_by _ bs = []"

definition open_for :: "'hn env \<Rightarrow> bool \<Rightarrow> path \<Rightarrow> (world, 'hn tux_object, object_file_error) st" where
  "open_for E wr p = (if wr then open_writable E p else open_object E p)"

text \<open>The content of the file at a path, where the handle opened on it says.\<close>

definition opened_content :: "world \<Rightarrow> path \<Rightarrow> 'hn tux_object \<Rightarrow> u8 list" where
  "opened_content w p ob = (case view_of w p of
     Some d \<Rightarrow> drop (unat (h_content_start (ob_header ob))) d | None \<Rightarrow> [])"

inductive step :: "'hn env \<Rightarrow> 'hn system \<Rightarrow> 'hn event \<Rightarrow> 'hn system \<Rightarrow> bool" for E s where
  creates: "sy_writers s k = None \<Longrightarrow> \<not> temporary p \<Longrightarrow> sections_typed (co_metadata opts) (co_tags opts) \<Longrightarrow>
    create_writer E p opts (sy_world s) = (Ok ow, w') \<Longrightarrow>
    step E s Unseen (s\<lparr>sy_world := w', sy_writers := (sy_writers s)(k \<mapsto> (ow, []))\<rparr>)"
| creates_not: "\<not> temporary p \<Longrightarrow> create_writer E p opts (sy_world s) = (r, w') \<Longrightarrow> (\<And>ow. r \<noteq> Ok ow) \<Longrightarrow>
    step E s Unseen (s\<lparr>sy_world := w'\<rparr>)"
| streams: "sy_writers s k = Some (ow, bytes) \<Longrightarrow> writer_write_all E bs (ow, sy_world s) = (r, (ow', w')) \<Longrightarrow>
    step E s Unseen (s\<lparr>sy_world := w', sy_writers := (sy_writers s)(k \<mapsto> (ow', bytes @ taken_by_all r ow ow' bs))\<rparr>)"
| writes: "sy_writers s k = Some (ow, bytes) \<Longrightarrow> writer_write E bs (ow, sy_world s) = (r, (ow', w')) \<Longrightarrow>
    step E s Unseen (s\<lparr>sy_world := w', sy_writers := (sy_writers s)(k \<mapsto> (ow', bytes @ taken_by r bs))\<rparr>)"
| encodes: "sy_writers s k = Some (ow, bytes) \<Longrightarrow> open_content_encoder E (ow, sy_world s) = (r, (ow', w')) \<Longrightarrow>
    step E s Unseen (s\<lparr>sy_world := w', sy_writers := (sy_writers s)(k \<mapsto> (ow', bytes))\<rparr>)"
| edits: "sy_writers s k = Some (ow, bytes) \<Longrightarrow> sections_typed (f (wr_metadata ow)) (g (wr_tags ow)) \<Longrightarrow>
    step E s Unseen (s\<lparr>sy_writers := (sy_writers s)(k \<mapsto> (set_metadata_mut f (set_tags_mut g ow), bytes))\<rparr>)"
| finishes: "sy_writers s k = Some (ow, bytes) \<Longrightarrow> finish E ow (sy_world s) = (Ok ob, w') \<Longrightarrow>
    step E s (Puts (wr_final_path ow) (object_of ow bytes))
      (s\<lparr>sy_world := w', sy_writers := (sy_writers s)(k := None), sy_objects := (sy_objects s)(h \<mapsto> (ob, bytes, True)),
         sy_torn := sy_torn s - {wr_final_path ow}\<rparr>)"
| finishes_not: "sy_writers s k = Some (ow, bytes) \<Longrightarrow> finish E ow (sy_world s) = (r, w') \<Longrightarrow> (\<And>ob. r \<noteq> Ok ob) \<Longrightarrow>
    step E s (May_put (wr_final_path ow) (object_of ow bytes))
      (s\<lparr>sy_world := w', sy_writers := (sy_writers s)(k := None)\<rparr>)"
| aborts: "sy_writers s k = Some (ow, bytes) \<Longrightarrow> abort E ow (sy_world s) = (r, w') \<Longrightarrow>
    step E s Unseen (s\<lparr>sy_world := w', sy_writers := (sy_writers s)(k := None)\<rparr>)"
| discards: "sy_writers s k = Some (ow, bytes) \<Longrightarrow>
    step E s Unseen (s\<lparr>sy_world := drop_writer E ow (sy_world s), sy_writers := (sy_writers s)(k := None)\<rparr>)"
| opens: "\<not> temporary p \<Longrightarrow> open_for E wr p (sy_world s) = (Ok ob, w') \<Longrightarrow>
    step E s Unseen (s\<lparr>sy_world := w',
      sy_objects := (sy_objects s)(h \<mapsto> (ob, opened_content (sy_world s) p ob, p \<notin> sy_torn s))\<rparr>)"
| opens_not: "open_for E wr p (sy_world s) = (r, w') \<Longrightarrow> (\<And>ob. r \<noteq> Ok ob) \<Longrightarrow>
    step E s Unseen (s\<lparr>sy_world := w'\<rparr>)"
| reads: "sy_objects s h = Some (ob, content, current) \<Longrightarrow> read_effect E op (ob, sy_world s) = (ob', w') \<Longrightarrow>
    step E s Unseen (s\<lparr>sy_world := w', sy_objects := (sy_objects s)(h \<mapsto> (ob', content, current))\<rparr>)"
| updates: "sy_objects s h = Some (ob, content, current) \<Longrightarrow> sections_typed md t \<Longrightarrow>
    set_sections E md t (ob, sy_world s) = (Ok (), (ob', w')) \<Longrightarrow>
    step E s (Puts (ob_path ob) (revised ob md t content))
      (s\<lparr>sy_world := w', sy_objects := (sy_objects s)(h \<mapsto> (ob', content, True)), sy_torn := sy_torn s - {ob_path ob}\<rparr>)"
| updates_not: "sy_objects s h = Some (ob, content, current) \<Longrightarrow> sections_typed md t \<Longrightarrow>
    set_sections E md t (ob, sy_world s) = (r, (ob', w')) \<Longrightarrow> r \<noteq> Ok () \<Longrightarrow>
    step E s (May_put (ob_path ob) (revised ob md t content))
      (s\<lparr>sy_world := w', sy_objects := (sy_objects s)(h \<mapsto> (ob', content, current))\<rparr>)"
| amends: "sy_objects s h = Some (ob, content, current) \<Longrightarrow> sections_typed md t \<Longrightarrow>
    set_sections_in_place E md t (ob, sy_world s) = (Ok (), (ob', w')) \<Longrightarrow>
    step E s (Amends (names_of (sy_world s) (ob_file ob)) (revised ob md t content))
      (s\<lparr>sy_world := w', sy_objects := (outdated (sy_world s) (ob_file ob) (sy_objects s))(h \<mapsto> (ob', content, True)),
         sy_torn := sy_torn s - names_of (sy_world s) (ob_file ob),
         sy_exposed := sy_exposed s \<union> names_of (sy_world s) (ob_file ob)\<rparr>)"
| refuses: "sy_objects s h = Some (ob, content, current) \<Longrightarrow> sections_typed md t \<Longrightarrow>
    set_sections_in_place E md t (ob, sy_world s) = (r, (ob', sy_world s)) \<Longrightarrow> r \<noteq> Ok () \<Longrightarrow>
    step E s Unseen (s\<lparr>sy_objects := (sy_objects s)(h \<mapsto> (ob', content, current))\<rparr>)"
| breaks_off: "sy_objects s h = Some (ob, content, current) \<Longrightarrow> sections_typed md t \<Longrightarrow>
    set_sections_in_place E md t (ob, sy_world s) = (r, (ob', w')) \<Longrightarrow> r \<noteq> Ok () \<Longrightarrow> w' \<noteq> sy_world s \<Longrightarrow>
    step E s (Tears (names_of (sy_world s) (ob_file ob)) (compression_type (ob_header ob)) content)
      (s\<lparr>sy_world := w', sy_objects := (outdated (sy_world s) (ob_file ob) (sy_objects s))(h \<mapsto> (ob', content, False)),
         sy_torn := sy_torn s \<union> names_of (sy_world s) (ob_file ob),
         sy_exposed := sy_exposed s \<union> names_of (sy_world s) (ob_file ob)\<rparr>)"
| closes: "step E s Unseen (s\<lparr>sy_objects := (sy_objects s)(h := None)\<rparr>)"

text \<open>Runs of the machine, whatever the events; they begin with nobody at work.\<close>

definition reaches :: "'hn env \<Rightarrow> 'hn system \<Rightarrow> 'hn system \<Rightarrow> bool" where
  "reaches E = (\<lambda>s s'. \<exists>ev. step E s ev s')\<^sup>*\<^sup>*"

definition start_system :: "world \<Rightarrow> 'hn system" where
  "start_system w = \<lparr>sy_world = w, sy_writers = (\<lambda>_. None), sy_objects = (\<lambda>_. None), sy_torn = {}, sy_exposed = {}\<rparr>"

section \<open>What is visible\<close>

text \<open>
  Every file under a name that is no temporary file's has its content behind a header that says so;
  and is a complete object, unless its path is one of the exceptions.
\<close>

definition complete_file :: "'hn env \<Rightarrow> u8 list \<Rightarrow> bool" where
  "complete_file E d \<longleftrightarrow> (\<exists>h md t content. holds_object E d h md t content)"

abbreviation public :: "path set" where "public \<equiv> {p. \<not> temporary p}"

definition sound :: "'hn env \<Rightarrow> path set \<Rightarrow> view \<Rightarrow> bool" where
  "sound E X v \<longleftrightarrow> (\<forall>p d. \<not> temporary p \<longrightarrow> v p = Some d \<longrightarrow>
     (\<exists>h content. headed d h content) \<and> (p \<notin> X \<longrightarrow> complete_file E d))"

text \<open>A directory nobody is at work on, in which every visible file is a complete object.\<close>

definition at_rest :: "'hn env \<Rightarrow> world \<Rightarrow> bool" where
  "at_rest E w \<longleftrightarrow> world_ok w \<and> sound E {} (view_of w) \<and> w_trace w = []"

lemma sound_viewD:
  assumes "sound E X v" and "\<not> temporary p" and "v p = Some d"
  shows "\<exists>h content. headed d h content" and "p \<notin> X \<Longrightarrow> complete_file E d"
  using assms unfolding sound_def by blast+

lemma sound_mono: "sound E X v \<Longrightarrow> X \<subseteq> Y \<Longrightarrow> sound E Y v"
  unfolding sound_def by blast

lemma complete_headed: "header_name_ok (header_names E) \<Longrightarrow> complete_file E d \<Longrightarrow> \<exists>h content. headed d h content"
  using holds_headed unfolding complete_file_def by blast

lemma shown_conj: "shown P w w' \<Longrightarrow> shown Q w w' \<Longrightarrow> shown (\<lambda>v. P v \<and> Q v) w w'"
  by (auto simp: shown_def)

lemma trace_shown: "shown P w w' \<Longrightarrow> \<forall>v \<in> set (w_trace w). P v \<Longrightarrow> \<forall>v \<in> set (w_trace w'). P v"
  by (auto simp: shown_def)

lemma sound_atomic:
  assumes g: "sound E X (view_of w)" and q: "quiet N w w'" and a: "atomic_update p P w w'"
    and H: "header_name_ok (header_names E)" and P: "\<And>d. P d \<Longrightarrow> complete_file E d"
    and N: "\<And>q. \<not> temporary q \<Longrightarrow> q \<noteq> p \<Longrightarrow> q \<in> N"
  shows "shown (sound E X) w w' \<and> sound E X (view_of w')"
proof
  have one: "sound E X v"
    if v: "\<forall>q \<in> N. v q = view_of w q" "v p = view_of w p \<or> (\<exists>d. v p = Some d \<and> P d)" for v
    unfolding sound_def
  proof (intro allI impI)
    fix q d
    assume q: "\<not> temporary q" "v q = Some d"
    show "(\<exists>h content. headed d h content) \<and> (q \<notin> X \<longrightarrow> complete_file E d)"
    proof (cases "view_of w q = Some d")
      case True
      then show ?thesis using sound_viewD [OF g q(1)] by blast
    next
      case False
      then have "q = p" using v(1) N [OF q(1)] q(2) by metis
      then have "complete_file E d" using False v(2) q(2) P by auto
      then show ?thesis using complete_headed [OF H] by blast
    qed
  qed
  have "shown (\<lambda>v. (\<forall>q \<in> N. v q = view_of w q) \<and> (v p = view_of w p \<or> (\<exists>d. v p = Some d \<and> P d))) w w'"
    by (rule shown_conj) (use q a in \<open>simp_all add: quiet_def atomic_update_def\<close>)
  then show "shown (sound E X) w w'" by (rule shown_mono) (use one in blast)
  show "sound E X (view_of w')"
    by (rule one) (use q a in \<open>simp_all add: quiet_def atomic_update_def\<close>)
qed

lemma sound_quiet:
  assumes "sound E X (view_of w)" and "quiet N w w'" and "\<And>q. \<not> temporary q \<Longrightarrow> q \<in> N"
  shows "shown (sound E X) w w' \<and> sound E X (view_of w')"
proof
  have one: "sound E X v" if "\<forall>q \<in> N. v q = view_of w q" for v
    using sound_viewD [OF assms(1)] that assms(3) unfolding sound_def by metis
  have "shown (\<lambda>v. \<forall>q \<in> N. v q = view_of w q) w w'" using assms(2) by (simp add: quiet_def)
  then show "shown (sound E X) w w'" by (rule shown_mono) (rule one)
  show "sound E X (view_of w')" by (rule one) (use assms(2) in \<open>simp add: quiet_def\<close>)
qed

lemma sound_except:
  assumes "sound E X v" and "\<And>p d. p \<in> N \<Longrightarrow> \<not> temporary p \<Longrightarrow> v p = Some d \<Longrightarrow> complete_file E d"
  shows "sound E (X - N) v"
  using assms unfolding sound_def by blast

lemma sound_headed:
  assumes g: "sound E X (view_of w)"
    and v: "\<And>q. if q \<in> N then (\<exists>d. v q = Some d \<and> (\<exists>h content. headed d h content)) else v q = view_of w q"
  shows "sound E (X \<union> N) v"
  unfolding sound_def
proof (intro allI impI)
  fix q d
  assume "\<not> temporary q" "v q = Some d"
  then show "(\<exists>h content. headed d h content) \<and> (q \<notin> X \<union> N \<longrightarrow> complete_file E d)"
    using v [of q] sound_viewD [OF g, of q d] by (cases "q \<in> N") auto
qed

section \<open>Who is at work\<close>

text \<open>A writer at its temporary file, which holds exactly the bytes it was given.\<close>

definition writer_ok :: "world \<Rightarrow> 'hn streaming \<Rightarrow> bool" where
  "writer_ok w x \<longleftrightarrow> (\<exists>tp i. writer_at (fst x) w tp i (snd x) \<and> temporary tp) \<and>
     \<not> temporary (wr_final_path (fst x)) \<and> sections_typed (wr_metadata (fst x)) (wr_tags (fst x))"

text \<open>A handle with its content behind it; one that is current is the object of its file.\<close>

fun object_ok :: "'hn env \<Rightarrow> world \<Rightarrow> 'hn opened \<Rightarrow> bool" where
  "object_ok E w (ob, content, current) \<longleftrightarrow> \<not> temporary (ob_path ob) \<and> (\<exists>h. handle_at ob w h content) \<and>
     (current \<longrightarrow> (\<exists>t. object_at E ob w t content))"

text \<open>No two writers share a file, no writer shares one with an object, and no two objects a handle.\<close>

abbreviation wfile :: "'hn streaming \<Rightarrow> nat" where "wfile x \<equiv> wr_file (fst x)"
abbreviation ofile :: "'hn opened \<Rightarrow> nat" where "ofile y \<equiv> ob_file (fst y)"

definition parties_ok ::
  "'hn env \<Rightarrow> world \<Rightarrow> (nat \<Rightarrow> 'hn streaming option) \<Rightarrow> (nat \<Rightarrow> 'hn opened option) \<Rightarrow> bool" where
  "parties_ok E w ws obs \<longleftrightarrow>
     (\<forall>k x. ws k = Some x \<longrightarrow> writer_ok w x) \<and>
     (\<forall>h y. obs h = Some y \<longrightarrow> object_ok E w y) \<and>
     (\<forall>k x k' x'. ws k = Some x \<longrightarrow> ws k' = Some x' \<longrightarrow> k \<noteq> k' \<longrightarrow> inode_of w (wfile x) \<noteq> inode_of w (wfile x')) \<and>
     (\<forall>k x h y. ws k = Some x \<longrightarrow> obs h = Some y \<longrightarrow> inode_of w (wfile x) \<noteq> inode_of w (ofile y)) \<and>
     (\<forall>h y h' y'. obs h = Some y \<longrightarrow> obs h' = Some y' \<longrightarrow> h \<noteq> h' \<longrightarrow> ofile y \<noteq> ofile y')"

definition system_ok :: "'hn env \<Rightarrow> 'hn system \<Rightarrow> bool" where
  "system_ok E s \<longleftrightarrow> world_ok (sy_world s) \<and> sound E (sy_torn s) (view_of (sy_world s)) \<and>
     (\<forall>v \<in> set (w_trace (sy_world s)). sound E (sy_exposed s) v) \<and> sy_torn s \<subseteq> sy_exposed s \<and>
     parties_ok E (sy_world s) (sy_writers s) (sy_objects s)"

lemma parties_okD:
  assumes "parties_ok E w ws obs"
  shows "ws k = Some x \<Longrightarrow> writer_ok w x" and "obs h = Some y \<Longrightarrow> object_ok E w y"
    and "ws k = Some x \<Longrightarrow> ws k' = Some x' \<Longrightarrow> k \<noteq> k' \<Longrightarrow> inode_of w (wfile x) \<noteq> inode_of w (wfile x')"
    and "ws k = Some x \<Longrightarrow> obs h = Some y \<Longrightarrow> inode_of w (wfile x) \<noteq> inode_of w (ofile y)"
    and "obs h = Some y \<Longrightarrow> obs h' = Some y' \<Longrightarrow> h \<noteq> h' \<Longrightarrow> ofile y \<noteq> ofile y'"
  using assms unfolding parties_ok_def by blast+

lemma parties_okI:
  assumes "\<And>k x. ws k = Some x \<Longrightarrow> writer_ok w x" and "\<And>h y. obs h = Some y \<Longrightarrow> object_ok E w y"
    and "\<And>k x k' x'. ws k = Some x \<Longrightarrow> ws k' = Some x' \<Longrightarrow> k \<noteq> k' \<Longrightarrow> inode_of w (wfile x) \<noteq> inode_of w (wfile x')"
    and "\<And>k x h y. ws k = Some x \<Longrightarrow> obs h = Some y \<Longrightarrow> inode_of w (wfile x) \<noteq> inode_of w (ofile y)"
    and "\<And>h y h' y'. obs h = Some y \<Longrightarrow> obs h' = Some y' \<Longrightarrow> h \<noteq> h' \<Longrightarrow> ofile y \<noteq> ofile y'"
  shows "parties_ok E w ws obs"
  unfolding parties_ok_def using assms by blast

lemma parties_remove:
  "parties_ok E w ws obs \<Longrightarrow> parties_ok E w (ws(k := None)) obs"
  "parties_ok E w ws obs \<Longrightarrow> parties_ok E w ws (obs(h := None))"
  unfolding parties_ok_def by (simp_all split: if_splits)

lemma parties_add_writer:
  assumes "parties_ok E w (ws(k := None)) obs" and "writer_ok w x"
    and "\<And>k' x'. k' \<noteq> k \<Longrightarrow> ws k' = Some x' \<Longrightarrow> inode_of w (wfile x) \<noteq> inode_of w (wfile x')"
    and "\<And>h y. obs h = Some y \<Longrightarrow> inode_of w (wfile x) \<noteq> inode_of w (ofile y)"
  shows "parties_ok E w (ws(k \<mapsto> x)) obs"
  using assms unfolding parties_ok_def fun_upd_apply by (intro conjI allI impI) (metis option.inject option.distinct(1))+

lemma parties_add_object:
  assumes "parties_ok E w ws (obs(h := None))" and "object_ok E w y"
    and "\<And>k x. ws k = Some x \<Longrightarrow> inode_of w (wfile x) \<noteq> inode_of w (ofile y)"
    and "\<And>h' y'. h' \<noteq> h \<Longrightarrow> obs h' = Some y' \<Longrightarrow> ofile y \<noteq> ofile y'"
  shows "parties_ok E w ws (obs(h \<mapsto> y))"
  using assms unfolding parties_ok_def fun_upd_apply by (intro conjI allI impI) (metis option.inject option.distinct(1))+

lemma writer_at_name: "writer_at ow w tp i content \<Longrightarrow> w_names w tp = Some i"
  unfolding writer_at_def by blast

lemma writer_at_inode: "writer_at ow w tp i content \<Longrightarrow> inode_of w (wr_file ow) = Some i"
  using writer_atD(3) [of ow w tp i content] by (auto simp: inode_of_def)

lemma writer_okD:
  assumes "writer_ok w x"
  obtains tp i where "writer_at (fst x) w tp i (snd x)" "wr_temp_path (fst x) = Some tp" "temporary tp"
    "inode_of w (wfile x) = Some i" "\<not> temporary (wr_final_path (fst x))"
    "sections_typed (wr_metadata (fst x)) (wr_tags (fst x))"
proof -
  obtain tp i where at: "writer_at (fst x) w tp i (snd x)" and rest: "temporary tp" "\<not> temporary (wr_final_path (fst x))"
      "sections_typed (wr_metadata (fst x)) (wr_tags (fst x))"
    using assms unfolding writer_ok_def by blast
  have "wr_temp_path (fst x) = Some tp" using at unfolding writer_at_def by blast
  from that [OF at this rest(1) writer_at_inode [OF at] rest(2,3)] show ?thesis .
qed

lemma inode_known: "world_ok w \<Longrightarrow> inode_of w fd = Some i \<Longrightarrow> i < w_next w \<and> fd < w_next_fd w"
  by (auto simp: world_ok_def inode_of_def)

lemma inode_kept: "others_kept i fd w w' \<Longrightarrow> g < w_next_fd w \<Longrightarrow> g \<noteq> fd \<Longrightarrow> inode_of w' g = inode_of w g"
  by (simp add: others_kept_def inode_of_def)

lemma inode_elsewhere:
  "others_kept i fd w w' \<Longrightarrow> inode_of w fd = Some i \<Longrightarrow> g < w_next_fd w \<Longrightarrow> inode_of w g \<noteq> Some i \<Longrightarrow>
   inode_of w' g \<noteq> Some i"
  by (metis inode_kept)

text \<open>What a handle is at depends on the bytes of its file, and not on its offset.\<close>

definition same_handle :: "nat \<Rightarrow> world \<Rightarrow> world \<Rightarrow> bool" where
  "same_handle fd w w' \<longleftrightarrow>
     map_option (\<lambda>f. (of_inode f, of_writable f)) (w_open w' fd) = map_option (\<lambda>f. (of_inode f, of_writable f)) (w_open w fd)"

lemma same_handleD: "same_handle fd w w' \<Longrightarrow> w_open w fd = Some f \<Longrightarrow>
    \<exists>g. w_open w' fd = Some g \<and> of_inode g = of_inode f \<and> of_writable g = of_writable f"
  unfolding same_handle_def by auto

lemma same_handle_inode: "same_handle fd w w' \<Longrightarrow> inode_of w' fd = inode_of w fd"
  unfolding same_handle_def inode_of_def by (cases "w_open w' fd"; cases "w_open w fd") auto

lemma frame_handle: "frame F I w w' \<Longrightarrow> same_handle fd w w'"
  by (simp add: frame_def same_handle_def)

lemmas frame_inode = same_handle_inode [OF frame_handle]

lemma handle_at_open: "handle_at ob w h content \<Longrightarrow> \<exists>f. w_open w (ob_file ob) = Some f"
  unfolding handle_at_def by blast

lemma object_ok_same:
  assumes ok: "object_ok E w y" and same: "same_handle (ofile y) w w'"
    and d: "\<And>j. inode_of w (ofile y) = Some j \<Longrightarrow> w_data w' j = w_data w j"
  shows "object_ok E w' y"
proof -
  obtain ob content current where y: "y = (ob, content, current)" by (metis prod_cases3)
  obtain h where h: "handle_at ob w h content" and p: "\<not> temporary (ob_path ob)"
    and cur: "current \<longrightarrow> (\<exists>t. object_at E ob w t content)"
    using ok unfolding y by auto
  obtain f where f: "w_open w (ob_file ob) = Some f" using handle_at_open [OF h] by blast
  obtain g where g: "w_open w' (ob_file ob) = Some g" "of_inode g = of_inode f" "of_writable g = of_writable f"
    using same_handleD [OF same [unfolded y fst_conv] f] by blast
  have data: "w_data w' (of_inode f) = w_data w (of_inode f)" using d [of "of_inode f"] f by (simp add: y inode_of_def)
  have "handle_at ob w' h content" using h f g data by (auto simp: handle_at_def)
  moreover have "object_at E ob w' t content" if "object_at E ob w t content" for t
    using that f g data by (auto simp: object_at_def)
  ultimately show ?thesis using p cur unfolding y by auto
qed

lemma object_ok_open: "object_ok E w y \<Longrightarrow> \<exists>i. inode_of w (ofile y) = Some i"
  using handle_at_open by (cases y rule: prod_cases3) (fastforce simp: inode_of_def)

lemma writer_at_kept:
  assumes ok: "world_ok w" and at: "writer_at ow w tp j content" and k: "others_kept i fd w w'"
    and ne: "j \<noteq> i" "wr_file ow \<noteq> fd" and names: "w_names w' tp = w_names w tp" and d: "w_dirs w' = w_dirs w"
  shows "writer_at ow w' tp j content"
proof -
  have j: "j < w_next w" "wr_file ow < w_next_fd w" using inode_known [OF ok writer_at_inode [OF at]] by simp_all
  have data: "w_data w' j = w_data w j" "w_open w' (wr_file ow) = w_open w (wr_file ow)"
    using k j ne by (simp_all add: others_kept_def)
  have only: "q = tp" if "w_names w' q = Some j" for q
  proof -
    have "names_within ({i} \<union> {w_next w..}) w w'" using k by (simp add: others_kept_def)
    from names_withinD [OF this that] have "w_names w q = Some j" using ne(1) j(1) by auto
    then show ?thesis using at unfolding writer_at_def by blast
  qed
  show ?thesis using at only unfolding writer_at_def data names d by blast
qed

lemma others_handle: "others_kept i fd w w' \<Longrightarrow> g < w_next_fd w \<Longrightarrow> g \<noteq> fd \<Longrightarrow> same_handle g w w'"
  by (simp add: others_kept_def same_handle_def)

text \<open>An operation keeps everybody it does not work for.\<close>

lemma parties_kept:
  assumes P: "parties_ok E w ws obs" and ok: "world_ok w" and k: "others_kept i fd w w'" and d: "w_dirs w' = w_dirs w"
    and W: "\<And>k x. ws k = Some x \<Longrightarrow> inode_of w (wfile x) \<noteq> Some i \<and> wfile x \<noteq> fd
          \<and> (\<forall>tp. wr_temp_path (fst x) = Some tp \<longrightarrow> w_names w tp \<noteq> None \<longrightarrow> w_names w' tp = w_names w tp)"
    and O: "\<And>h y. obs h = Some y \<Longrightarrow> inode_of w (ofile y) \<noteq> Some i \<and> ofile y \<noteq> fd"
  shows "parties_ok E w' ws obs"
proof -
  have wk: "writer_ok w' x \<and> inode_of w' (wfile x) = inode_of w (wfile x)" if wsk: "ws k = Some x" for k x
  proof -
    obtain tp j where at: "writer_at (fst x) w tp j (snd x)" and tp: "wr_temp_path (fst x) = Some tp" "temporary tp"
      and j: "inode_of w (wfile x) = Some j" and rest: "\<not> temporary (wr_final_path (fst x))"
        "sections_typed (wr_metadata (fst x)) (wr_tags (fst x))"
      by (rule writer_okD [OF parties_okD(1) [OF P wsk]])
    have "writer_at (fst x) w' tp j (snd x)"
      by (intro writer_at_kept [OF ok at k _ _ _ d]) (use W [OF wsk] j tp(1) writer_at_name [OF at] in auto)
    then show ?thesis
      using inode_kept [OF k, of "wfile x"] inode_known [OF ok j] W [OF wsk] tp(2) rest by (auto simp: writer_ok_def)
  qed
  have ok': "object_ok E w' y \<and> inode_of w' (ofile y) = inode_of w (ofile y)" if obsh: "obs h = Some y" for h y
  proof -
    have y: "object_ok E w y" by (rule parties_okD(2) [OF P obsh])
    obtain j where j: "inode_of w (ofile y) = Some j" using object_ok_open [OF y] by blast
    have same: "same_handle (ofile y) w w'" using others_handle [OF k] inode_known [OF ok j] O [OF obsh] by blast
    have "w_data w' j = w_data w j" using k inode_known [OF ok j] O [OF obsh] j by (auto simp: others_kept_def)
    then show ?thesis using object_ok_same [OF y same] same_handle_inode [OF same] j by simp
  qed
  show ?thesis
  proof (rule parties_okI)
    show "inode_of w' (wfile x) \<noteq> inode_of w' (wfile x')" if "ws k = Some x" "ws k' = Some x'" "k \<noteq> k'" for k x k' x'
      using that wk parties_okD(3) [OF P] by metis
    show "inode_of w' (wfile x) \<noteq> inode_of w' (ofile y)" if "ws k = Some x" "obs h = Some y" for k x h y
      using that wk ok' parties_okD(4) [OF P] by metis
    show "ofile y \<noteq> ofile y'" if "obs h = Some y" "obs h' = Some y'" "h \<noteq> h'" for h y h' y'
      by (rule parties_okD(5) [OF P that])
  qed (use wk ok' in blast)+
qed

section \<open>Writers\<close>

lemma system_okD:
  assumes "system_ok E s"
  shows "world_ok (sy_world s)" and "sound E (sy_torn s) (view_of (sy_world s))"
    and "\<forall>v \<in> set (w_trace (sy_world s)). sound E (sy_exposed s) v" and "sy_torn s \<subseteq> sy_exposed s"
    and "parties_ok E (sy_world s) (sy_writers s) (sy_objects s)"
  using assms unfolding system_ok_def by blast+

lemma system_okI:
  assumes "system_ok E s" and "world_ok (sy_world s')"
    and "shown (sound E (sy_exposed s')) (sy_world s) (sy_world s')" and "sound E (sy_torn s') (view_of (sy_world s'))"
    and "parties_ok E (sy_world s') (sy_writers s') (sy_objects s')"
    and "sy_torn s' \<subseteq> sy_exposed s'" and "sy_exposed s \<subseteq> sy_exposed s'"
  shows "system_ok E s'"
proof -
  have "\<forall>v \<in> set (w_trace (sy_world s)). sound E (sy_exposed s') v"
    using system_okD(3) [OF assms(1)] sound_mono [OF _ assms(7)] by blast
  then show ?thesis using assms trace_shown [OF assms(3)] unfolding system_ok_def by blast
qed

text \<open>The usual case: no update in place.\<close>

lemma system_okI':
  assumes S: "system_ok E s" and "world_ok (sy_world s')"
    and v: "shown (sound E (sy_torn s)) (sy_world s) (sy_world s') \<and> sound E (sy_torn s') (view_of (sy_world s'))"
    and "parties_ok E (sy_world s') (sy_writers s') (sy_objects s')"
    and "sy_torn s' \<subseteq> sy_torn s" and "sy_exposed s' = sy_exposed s"
  shows "system_ok E s'"
proof (rule system_okI [OF S assms(2) _ _ assms(4)])
  note X = system_okD(4) [OF S]
  show "shown (sound E (sy_exposed s')) (sy_world s) (sy_world s')"
    using v X assms(6) by (auto elim!: shown_mono intro: sound_mono)
qed (use v assms(5,6) system_okD(4) [OF S] in auto)

text \<open>What an operation on a writer's file, or on fresh files only, keeps.\<close>

lemma writer_others:
  assumes P: "parties_ok E w ws obs" and ok: "world_ok w" and k: "ws k = Some (ow, bytes)" and at: "writer_at ow w tp i bytes"
    and others: "others_kept i (wr_file ow) w w'" and d: "w_dirs w' = w_dirs w"
    and names: "\<And>q. temporary q \<Longrightarrow> q \<noteq> tp \<Longrightarrow> w_names w q \<noteq> None \<Longrightarrow> w_names w' q = w_names w q"
  shows "parties_ok E w' (ws(k := None)) obs"
proof (rule parties_kept [OF parties_remove(1) [OF P] ok others d])
  note i = writer_at_inode [OF at]
  fix k' x'
  assume "(ws(k := None)) k' = Some x'"
  then have k': "k' \<noteq> k" "ws k' = Some x'" by (simp_all split: if_splits)
  have ne: "inode_of w (wfile x') \<noteq> Some i" using parties_okD(3) [OF P k'(2) k k'(1)] i by simp
  have "w_names w' tp' = w_names w tp'" if "wr_temp_path (fst x') = Some tp'" for tp'
  proof -
    obtain tp2 i' where at': "writer_at (fst x') w tp2 i' (snd x')" "wr_temp_path (fst x') = Some tp2" "temporary tp2"
      "inode_of w (wfile x') = Some i'"
      by (rule writer_okD [OF parties_okD(1) [OF P k'(2)]])
    have "tp2 = tp'" using at'(2) that by simp
    then have n': "w_names w tp' = Some i'" using writer_at_name [OF at'(1)] by simp
    have "i' \<noteq> i" using ne at'(4) by simp
    then have "tp' \<noteq> tp" using n' writer_at_name [OF at] by auto
    then show ?thesis using names [of tp'] n' at'(3) \<open>tp2 = tp'\<close> by simp
  qed
  then show "inode_of w (wfile x') \<noteq> Some i \<and> wfile x' \<noteq> wr_file ow
      \<and> (\<forall>tp. wr_temp_path (fst x') = Some tp \<longrightarrow> w_names w tp \<noteq> None \<longrightarrow> w_names w' tp = w_names w tp)"
    using ne i by auto
next
  fix h y
  assume "obs h = Some y"
  then show "inode_of w (ofile y) \<noteq> Some i \<and> ofile y \<noteq> wr_file ow"
    using parties_okD(4) [OF P k, of h y] writer_at_inode [OF at] by auto
qed

lemma party_known:
  assumes "parties_ok E w ws obs" and "world_ok w"
  shows "ws k = Some x \<Longrightarrow> wfile x < w_next_fd w \<and> (\<exists>i < w_next w. inode_of w (wfile x) = Some i)"
    and "obs h = Some y \<Longrightarrow> ofile y < w_next_fd w \<and> (\<exists>i < w_next w. inode_of w (ofile y) = Some i)"
proof -
  show "wfile x < w_next_fd w \<and> (\<exists>i < w_next w. inode_of w (wfile x) = Some i)" if "ws k = Some x"
    by (rule writer_okD [OF parties_okD(1) [OF assms(1) that]]) (use inode_known [OF assms(2)] in blast)
  show "ofile y < w_next_fd w \<and> (\<exists>i < w_next w. inode_of w (ofile y) = Some i)" if "obs h = Some y"
    using object_ok_open [OF parties_okD(2) [OF assms(1) that]] inode_known [OF assms(2)] by blast
qed

lemma fresh_others:
  assumes P: "parties_ok E w ws obs" and ok: "world_ok w"
    and others: "others_kept (w_next w) fd w w'" and d: "w_dirs w' = w_dirs w"
    and fd: "\<And>k x. ws k = Some x \<Longrightarrow> wfile x \<noteq> fd" "\<And>h y. obs h = Some y \<Longrightarrow> ofile y \<noteq> fd"
    and names: "\<And>q. temporary q \<Longrightarrow> w_names w q \<noteq> None \<Longrightarrow> w_names w' q = w_names w q"
  shows "parties_ok E w' ws obs"
proof (rule parties_kept [OF P ok others d])
  fix k x
  assume k: "ws k = Some x"
  show "inode_of w (wfile x) \<noteq> Some (w_next w) \<and> wfile x \<noteq> fd
      \<and> (\<forall>tp. wr_temp_path (fst x) = Some tp \<longrightarrow> w_names w tp \<noteq> None \<longrightarrow> w_names w' tp = w_names w tp)"
    by (rule writer_okD [OF parties_okD(1) [OF P k]]) (use inode_known [OF ok] fd(1) [OF k] names in auto)
next
  fix h y
  assume "obs h = Some y"
  then show "inode_of w (ofile y) \<noteq> Some (w_next w) \<and> ofile y \<noteq> fd"
    using inode_known [OF ok, of "ofile y"] fd(2) by auto
qed

lemma party_fresh:
  assumes "parties_ok E w ws obs" and "world_ok w"
  shows "ws k = Some x \<Longrightarrow> wfile x \<noteq> w_next_fd w" and "obs h = Some y \<Longrightarrow> ofile y \<noteq> w_next_fd w"
  using party_known [OF assms] by (metis less_irrefl)+

lemma not_created_others: "not_created E p w w' \<Longrightarrow> others_kept (w_next w) (w_next_fd w) w w'"
  unfolding not_created_def others_kept_def by (auto intro: names_within_mono [of "{w_next w}"])

lemma creates_ok:
  assumes S: "system_ok E s" and k: "sy_writers s k = None" and p: "\<not> temporary p"
    and typed: "sections_typed (co_metadata opts) (co_tags opts)"
    and run: "create_writer E p opts (sy_world s) = (Ok ow, w')"
  shows "system_ok E (s\<lparr>sy_world := w', sy_writers := (sy_writers s)(k \<mapsto> (ow, []))\<rparr>)"
proof -
  let ?w = "sy_world s"
  note ok = system_okD(1) [OF S] and P = system_okD(5) [OF S]
  obtain tp where c: "created E p opts ?w ow w' tp" using wp_run [OF create_writer_wp [OF ok] run] by auto
  then have at: "writer_at ow w' tp (w_next ?w) []" and q: "quiet (- {tp}) ?w w'" and ok': "world_ok w'"
    and n: "w_names w' = (w_names ?w)(tp \<mapsto> w_next ?w)" "w_names ?w tp = None" and d: "w_dirs w' = w_dirs ?w" and tp: "temporary tp"
    unfolding created_def by blast+
  have fin: "wr_final_path ow = p" "wr_metadata ow = co_metadata opts" "wr_tags ow = co_tags opts"
    using c by (auto simp: created_def fresh_writer_def)
  note others = others_kept_created [OF c, of "w_next ?w" "w_next_fd ?w"]
  have P': "parties_ok E w' (sy_writers s) (sy_objects s)"
    by (rule fresh_others [OF P ok others d])
       (use party_known [OF P ok] n in \<open>force+\<close>)
  have new: "inode_of w' (wr_file ow) = Some (w_next ?w)" by (rule writer_at_inode [OF at])
  have wf: "inode_of w' (wfile x) \<noteq> Some (w_next ?w)" if "sy_writers s k' = Some x" for k' x
    using party_known(1) [OF P ok that] inode_kept [OF others, of "wfile x"] by auto
  have of: "inode_of w' (ofile y) \<noteq> Some (w_next ?w)" if "sy_objects s h = Some y" for h y
    using party_known(2) [OF P ok that] inode_kept [OF others, of "ofile y"] by auto
  have "parties_ok E w' ((sy_writers s)(k \<mapsto> (ow, []))) (sy_objects s)"
  proof (rule parties_add_writer [OF parties_remove(1) [OF P']])
    show "writer_ok w' (ow, [])" using at tp p fin typed by (auto simp: writer_ok_def)
    show "inode_of w' (wfile (ow, [])) \<noteq> inode_of w' (wfile x')" if "sy_writers s k' = Some x'" for k' x'
      using wf [OF that] new by simp
    show "inode_of w' (wfile (ow, [])) \<noteq> inode_of w' (ofile y)" if "sy_objects s h = Some y" for h y
      using of [OF that] new by simp
  qed
  moreover have "shown (sound E (sy_torn s)) ?w w' \<and> sound E (sy_torn s) (view_of w')"
    by (rule sound_quiet [OF system_okD(2) [OF S] q]) (use tp in auto)
  ultimately show ?thesis using ok' by (intro system_okI' [OF S]) simp_all
qed

lemma creates_not_ok:
  assumes S: "system_ok E s" and p: "\<not> temporary p"
    and run: "create_writer E p opts (sy_world s) = (r, w')" and no: "\<And>ow. r \<noteq> Ok ow"
  shows "system_ok E (s\<lparr>sy_world := w'\<rparr>)"
proof -
  let ?w = "sy_world s"
  note ok = system_okD(1) [OF S] and P = system_okD(5) [OF S]
  have n: "not_created E p ?w w'" using wp_run [OF create_writer_wp [OF ok] run] no by (cases r) auto
  then have ok': "world_ok w'" and d: "w_dirs w' = w_dirs ?w" and q: "quiet (old_names ?w p) ?w w'"
    and names: "\<And>q. q \<in> old_names ?w p \<Longrightarrow> w_names w' q = w_names ?w q"
    unfolding not_created_def by blast+
  have "parties_ok E w' (sy_writers s) (sy_objects s)"
    by (rule fresh_others [OF P ok not_created_others [OF n] d])
       (use party_fresh [OF P ok] names in \<open>auto simp: old_names_def\<close>)
  moreover have "shown (sound E (sy_torn s)) ?w w' \<and> sound E (sy_torn s) (view_of w')"
    by (rule sound_quiet [OF system_okD(2) [OF S] q]) (simp add: old_names_def)
  ultimately show ?thesis using ok' by (intro system_okI' [OF S]) simp_all
qed

text \<open>What streaming does: the bytes taken are behind those there were.\<close>

definition streamed :: "world \<Rightarrow> 'hn object_writer \<Rightarrow> u8 list \<Rightarrow> world \<Rightarrow> 'hn object_writer \<Rightarrow> u8 list \<Rightarrow> bool" where
  "streamed w ow bytes w' ow' bytes' \<longleftrightarrow> (\<forall>tp i. writer_at ow w tp i bytes \<longrightarrow>
     frame {wr_file ow} {i} w w' \<and> same_writer ow ow' \<and> writer_at ow' w' tp i bytes')"

lemma stream_effect:
  assumes run: "writer_write_all E bs (ow, w) = (r, (ow', w'))"
  shows "streamed w ow bytes w' ow' (bytes @ taken_by_all r ow ow' bs)"
  unfolding streamed_def
proof (intro allI impI)
  fix tp i
  assume at: "writer_at ow w tp i bytes"
  have len: "unat (wr_content_length ow) = length bytes" by (rule writer_atD(2) [OF at])
  show "frame {wr_file ow} {i} w w' \<and> same_writer ow ow' \<and> writer_at ow' w' tp i (bytes @ taken_by_all r ow ow' bs)"
  proof (cases "wr_allow_raw_writes ow")
    case raw: True
    note spec = wp_run [OF writer_write_all_wp [OF at raw] run]
    show ?thesis
    proof (cases "r = Ok ()")
      case True
      then show ?thesis using spec by (simp add: taken_by_all_def)
    next
      case False
      with spec obtain n where n: "n \<le> length bs" "writer_at ow' w' tp i (bytes @ take n bs)"
        and rest: "frame {wr_file ow} {i} w w'" "same_writer ow ow'"
        by (cases r) auto
      have "unat (wr_content_length ow') = length bytes + n" using writer_atD(2) [OF n(2)] n(1) by simp
      then have "taken_by_all r ow ow' bs = take n bs" using False len by (simp add: taken_by_all_def)
      then show ?thesis using n(2) rest by simp
    qed
  next
    case False
    then show ?thesis
      using run at writer_write_all_refused [of ow bs E w]
      by (cases "bs = []") (auto simp: writer_write_all_def write_all.simps [of _ "[]"] taken_by_all_def)
  qed
qed

lemma write_effect:
  assumes run: "writer_write E bs (ow, w) = (r, (ow', w'))"
  shows "streamed w ow bytes w' ow' (bytes @ taken_by r bs)"
  unfolding streamed_def
proof (intro allI impI)
  fix tp i
  assume at: "writer_at ow w tp i bytes"
  show "frame {wr_file ow} {i} w w' \<and> same_writer ow ow' \<and> writer_at ow' w' tp i (bytes @ taken_by r bs)"
  proof (cases "wr_allow_raw_writes ow")
    case raw: True
    from wp_run [OF writer_write_wp [OF at raw] run] show ?thesis by (cases r) auto
  next
    case False
    then show ?thesis using run at by (auto simp: writer_write_def with_self_def st_lift_def)
  qed
qed

lemma streams_ok:
  assumes S: "system_ok E s" and k: "sy_writers s k = Some (ow, bytes)"
    and st: "streamed (sy_world s) ow bytes w' ow' bytes'"
  shows "system_ok E (s\<lparr>sy_world := w', sy_writers := (sy_writers s)(k \<mapsto> (ow', bytes'))\<rparr>)"
    and "quiet public (sy_world s) w'"
proof -
  let ?w = "sy_world s"
  note ok = system_okD(1) [OF S] and P = system_okD(5) [OF S]
  obtain tp i where at: "writer_at ow ?w tp i bytes" and tp: "temporary tp" and i: "inode_of ?w (wr_file ow) = Some i"
    and rest: "\<not> temporary (wr_final_path ow)" "sections_typed (wr_metadata ow) (wr_tags ow)"
    by (rule writer_okD [OF parties_okD(1) [OF P k]]) simp
  have fr: "frame {wr_file ow} {i} ?w w'" and same: "same_writer ow ow'" and at': "writer_at ow' w' tp i bytes'"
    using st at unfolding streamed_def by blast+
  have others: "others_kept i (wr_file ow) ?w w'" by (rule others_kept_frame [OF others_kept_refl fr]) auto
  have P': "parties_ok E w' ((sy_writers s)(k := None)) (sy_objects s)"
    by (rule writer_others [OF P ok k at others frameD(2) [OF fr]]) (simp add: frameD(1) [OF fr])
  have i': "inode_of w' (wr_file ow') = Some i" by (rule writer_at_inode [OF at'])
  have "parties_ok E w' ((sy_writers s)(k \<mapsto> (ow', bytes'))) (sy_objects s)"
  proof (rule parties_add_writer [OF P'])
    show "writer_ok w' (ow', bytes')" using at' tp rest same_writerD(3,7,8) [OF same] by (auto simp: writer_ok_def)
    show "inode_of w' (wfile (ow', bytes')) \<noteq> inode_of w' (wfile x)" if "k' \<noteq> k" "sy_writers s k' = Some x" for k' x
      using inode_elsewhere [OF others i, of "wfile x"] party_known(1) [OF P ok that(2)] parties_okD(3) [OF P that(2) k that(1)] i i'
      by simp
    show "inode_of w' (wfile (ow', bytes')) \<noteq> inode_of w' (ofile y)" if "sy_objects s h = Some y" for h y
      using inode_elsewhere [OF others i, of "ofile y"] party_known(2) [OF P ok that] parties_okD(4) [OF P k that] i i' by simp
  qed
  moreover have q: "quiet (- {tp}) ?w w'"
    by (rule frame_quiet [OF fr]) (use at in \<open>auto simp: writer_at_def\<close>)
  moreover have "shown (sound E (sy_torn s)) ?w w' \<and> sound E (sy_torn s) (view_of w')"
    by (rule sound_quiet [OF system_okD(2) [OF S] q]) (use tp in auto)
  ultimately show "system_ok E (s\<lparr>sy_world := w', sy_writers := (sy_writers s)(k \<mapsto> (ow', bytes'))\<rparr>)"
    using world_ok_frame [OF fr ok] by (intro system_okI' [OF S]) simp_all
  show "quiet public (sy_world s) w'" by (rule quiet_mono [OF q]) (use tp in auto)
qed

lemma encoder_effect:
  assumes "open_content_encoder E (ow, w) = (r, (ow', w'))"
  shows "w' = w" and "ow' = ow\<lparr>wr_allow_raw_writes := True\<rparr>"
  using assms by (auto simp: open_content_encoder_def with_self_def st_bind_def put_self_def st_lift_def)

text \<open>A step that changes the writer only in what is neither its file nor its paths.\<close>

lemma rewrites_ok:
  assumes S: "system_ok E s" and k: "sy_writers s k = Some (ow, bytes)"
    and at: "\<And>tp i. writer_at ow (sy_world s) tp i bytes \<Longrightarrow> writer_at ow' (sy_world s) tp i bytes"
    and fields: "wr_file ow' = wr_file ow" "wr_final_path ow' = wr_final_path ow"
    and typed: "sections_typed (wr_metadata ow') (wr_tags ow')"
  shows "system_ok E (s\<lparr>sy_writers := (sy_writers s)(k \<mapsto> (ow', bytes))\<rparr>)"
proof -
  let ?w = "sy_world s"
  note P = system_okD(5) [OF S]
  have "parties_ok E ?w ((sy_writers s)(k \<mapsto> (ow', bytes))) (sy_objects s)"
  proof (rule parties_add_writer [OF parties_remove(1) [OF P]])
    show "writer_ok ?w (ow', bytes)"
      using parties_okD(1) [OF P k] typed at by (auto simp: writer_ok_def fields)
    show "inode_of ?w (wfile (ow', bytes)) \<noteq> inode_of ?w (wfile x)" if "k' \<noteq> k" "sy_writers s k' = Some x" for k' x
      using parties_okD(3) [OF P k that(2)] that(1) by (simp add: fields)
    show "inode_of ?w (wfile (ow', bytes)) \<noteq> inode_of ?w (ofile y)" if "sy_objects s h = Some y" for h y
      using parties_okD(4) [OF P k that] by (simp add: fields)
  qed
  then show ?thesis using system_okD(1,2) [OF S] by (intro system_okI' [OF S]) (simp_all add: shown_def)
qed

lemma edits_ok:
  assumes S: "system_ok E s" and k: "sy_writers s k = Some (ow, bytes)"
    and typed: "sections_typed (f (wr_metadata ow)) (g (wr_tags ow))"
  shows "system_ok E (s\<lparr>sy_writers := (sy_writers s)(k \<mapsto> (set_metadata_mut f (set_tags_mut g ow), bytes))\<rparr>)"
  by (rule rewrites_ok [OF S k]) (use typed in \<open>simp_all add: set_metadata_mut_def set_tags_mut_def writer_at_def\<close>)

lemma encodes_ok:
  assumes S: "system_ok E s" and k: "sy_writers s k = Some (ow, bytes)"
    and run: "open_content_encoder E (ow, sy_world s) = (r, (ow', w'))"
  shows "system_ok E (s\<lparr>sy_world := w', sy_writers := (sy_writers s)(k \<mapsto> (ow', bytes))\<rparr>)"
proof -
  have "sections_typed (wr_metadata ow) (wr_tags ow)"
    using parties_okD(1) [OF system_okD(5) [OF S] k] by (simp add: writer_ok_def)
  then have "system_ok E (s\<lparr>sy_writers := (sy_writers s)(k \<mapsto> (ow\<lparr>wr_allow_raw_writes := True\<rparr>, bytes))\<rparr>)"
    by (intro rewrites_ok [OF S k]) (simp_all add: writer_at_def)
  then show ?thesis using encoder_effect [OF run] by simp
qed

lemma discards_ok:
  assumes S: "system_ok E s" and k: "sy_writers s k = Some (ow, bytes)"
  shows "system_ok E (s\<lparr>sy_world := drop_writer E ow (sy_world s), sy_writers := (sy_writers s)(k := None)\<rparr>)"
    and "quiet public (sy_world s) (drop_writer E ow (sy_world s))"
proof -
  let ?w = "sy_world s"
  note ok = system_okD(1) [OF S] and P = system_okD(5) [OF S]
  obtain tp i where at: "writer_at ow ?w tp i bytes" and tp: "wr_temp_path ow = Some tp" "temporary tp"
    by (rule writer_okD [OF parties_okD(1) [OF P k]]) simp
  have "parties_ok E (drop_writer E ow ?w) ((sy_writers s)(k := None)) (sy_objects s)"
    by (rule writer_others [OF P ok k at others_kept_drop [OF others_kept_refl]])
       (use tp in \<open>auto simp: drop_writer_fields(1) intro!: drop_writer_fields(6)\<close>)
  moreover have q: "quiet (- {tp}) ?w (drop_writer E ow ?w)" by (rule drop_writer_quiet) (use tp in auto)
  moreover have "shown (sound E (sy_torn s)) ?w (drop_writer E ow ?w) \<and> sound E (sy_torn s) (view_of (drop_writer E ow ?w))"
    by (rule sound_quiet [OF system_okD(2) [OF S] q]) (use tp in auto)
  ultimately show "system_ok E (s\<lparr>sy_world := drop_writer E ow (sy_world s), sy_writers := (sy_writers s)(k := None)\<rparr>)"
    using world_ok_drop [OF ok] by (intro system_okI' [OF S]) simp_all
  show "quiet public (sy_world s) (drop_writer E ow (sy_world s))" by (rule quiet_mono [OF q]) (use tp in auto)
qed

text \<open>An abort removes the file itself, and reports what that gave; it leaves the world a drop leaves.\<close>

lemma abort_drops:
  assumes "abort E ow w = (r, w')"
  shows "w' = drop_writer E ow w"
  using assms
  by (cases "wr_temp_path ow"; cases "sys_remove E (the (wr_temp_path ow)) w")
     (auto simp: abort_def consume_def with_self_def st_bind_def st_lift_def put_self_def on_world_def drop_writer_def
       split: res.splits if_splits)

text \<open>The file a writer is at has no other name than a temporary one.\<close>

lemma party_named:
  assumes P: "parties_ok E w ws obs" and k: "ws k = Some x" and p: "w_names w p = Some j" "\<not> temporary p"
  shows "inode_of w (wfile x) \<noteq> Some j"
proof
  assume eq: "inode_of w (wfile x) = Some j"
  obtain tp i where w: "writer_at (fst x) w tp i (snd x)" "temporary tp" "inode_of w (wfile x) = Some i"
    by (rule writer_okD [OF parties_okD(1) [OF P k]])
  then have "p = tp" using eq p(1) unfolding writer_at_def by auto
  then show False using p(2) w(2) by simp
qed

lemma finish_effect:
  assumes H: "header_name_ok (header_names E)" and S: "system_ok E s" and k: "sy_writers s k = Some (ow, bytes)"
    and run: "finish E ow (sy_world s) = (r, w')"
  shows "world_ok w' \<and> (shown (sound E (sy_torn s)) (sy_world s) w' \<and> sound E (sy_torn s) (view_of w'))
    \<and> parties_ok E w' ((sy_writers s)(k := None)) (sy_objects s)"
proof -
  let ?w = "sy_world s" and ?p = "wr_final_path ow"
  note ok = system_okD(1) [OF S] and P = system_okD(5) [OF S]
  obtain tp i where at: "writer_at ow ?w tp i bytes" and tp: "temporary tp" and p: "\<not> temporary ?p"
    and typed: "sections_typed (wr_metadata ow) (wr_tags ow)"
    by (rule writer_okD [OF parties_okD(1) [OF P k]]) simp
  have fr: "finish_frame E ow tp bytes ?w w'" and others: "others_kept i (wr_file ow) ?w w'"
    using wp_run [OF finish_typed_wp [OF H ok at typed] run] by (cases r; simp)+
  then have ok': "world_ok w'" and d: "w_dirs w' = w_dirs ?w" and au: "atomic_update ?p (complete_object E ow bytes) ?w w'"
    and q: "quiet (old_names ?w ?p - {?p, tp}) ?w w'"
    and names: "\<forall>q \<in> old_names ?w ?p - {?p, tp}. w_names w' q = w_names ?w q"
    unfolding finish_frame_def by blast+
  have "parties_ok E w' ((sy_writers s)(k := None)) (sy_objects s)"
    by (rule writer_others [OF P ok k at others d]) (use names p in \<open>auto simp: old_names_def\<close>)
  moreover have "shown (sound E (sy_torn s)) ?w w' \<and> sound E (sy_torn s) (view_of w')"
  proof (rule sound_atomic [OF system_okD(2) [OF S] q au H])
    show "complete_object E ow bytes d \<Longrightarrow> complete_file E d" for d
      by (auto simp: complete_object_def complete_file_def)
  qed (use tp in \<open>auto simp: old_names_def\<close>)
  ultimately show ?thesis using ok' by blast
qed

text \<open>A handle at which the file of its path is, fresh from being written.\<close>

lemma published_file:
  assumes "header_name_ok (header_names E)" and at: "object_at E ob w t content"
    and f: "w_open w (ob_file ob) = Some f" "of_writable f" and n: "w_names w (ob_path ob) = Some (of_inode f)"
    and p: "\<not> temporary (ob_path ob)"
  shows "object_ok E w (ob, content, True)" and "view_of w (ob_path ob) = Some d \<Longrightarrow> complete_file E d"
    and "inode_of w (ob_file ob) = Some (of_inode f)"
proof -
  show "object_ok E w (ob, content, True)"
    using object_at_handle [OF assms(1) at] f p at by auto
  show "complete_file E d" if "view_of w (ob_path ob) = Some d"
    using that n f at by (auto simp: view_of_def complete_file_def object_at_def)
  show "inode_of w (ob_file ob) = Some (of_inode f)" using f by (simp add: inode_of_def)
qed

lemma finishes_ok:
  assumes H: "header_name_ok (header_names E)" and S: "system_ok E s" and k: "sy_writers s k = Some (ow, bytes)"
    and run: "finish E ow (sy_world s) = (Ok ob, w')"
  shows "system_ok E (s\<lparr>sy_world := w', sy_writers := (sy_writers s)(k := None),
    sy_objects := (sy_objects s)(h \<mapsto> (ob, bytes, True)), sy_torn := sy_torn s - {wr_final_path ow}\<rparr>)"
proof -
  let ?w = "sy_world s" and ?p = "wr_final_path ow"
  note ok = system_okD(1) [OF S] and P = system_okD(5) [OF S]
  have eff: "world_ok w'" "shown (sound E (sy_torn s)) ?w w'" "sound E (sy_torn s) (view_of w')"
    "parties_ok E w' ((sy_writers s)(k := None)) (sy_objects s)"
    using finish_effect [OF H S k run] by blast+
  obtain tp i where at: "writer_at ow ?w tp i bytes" and p: "\<not> temporary ?p"
    and i: "inode_of ?w (wr_file ow) = Some i" and typed: "sections_typed (wr_metadata ow) (wr_tags ow)"
    by (rule writer_okD [OF parties_okD(1) [OF P k]]) simp
  have obj: "finished_object E ow bytes ob w'" and fd: "ob_file ob \<in> {wr_file ow, w_next_fd ?w}"
    and others: "others_kept i (wr_file ow) ?w w'"
    using wp_run [OF finish_typed_wp [OF H ok at typed] run] by simp_all
  obtain f where pub: "object_at E ob w' (wr_tags ow) bytes" "w_open w' (ob_file ob) = Some f" "of_writable f"
    "w_names w' (ob_path ob) = Some (of_inode f)" "ob_path ob = ?p"
    using obj by (auto simp: finished_object_def)
  have p': "\<not> temporary (ob_path ob)" using p pub(5) by simp
  note new = published_file [OF H pub(1-4) p']
  have "parties_ok E w' ((sy_writers s)(k := None)) ((sy_objects s)(h \<mapsto> (ob, bytes, True)))"
  proof (rule parties_add_object [OF parties_remove(2) [OF eff(4)] new(1)])
    show "inode_of w' (wfile x) \<noteq> inode_of w' (ofile (ob, bytes, True))" if "((sy_writers s)(k := None)) k' = Some x" for k' x
      using party_named [OF eff(4) that pub(4) p'] new(3) by simp
    show "ofile (ob, bytes, True) \<noteq> ofile y" if "sy_objects s h' = Some y" for h' y
      using fd party_known(2) [OF P ok that] parties_okD(4) [OF P k that] by auto
  qed
  moreover have "sound E (sy_torn s - {?p}) (view_of w')"
    by (rule sound_except [OF eff(3)]) (use new(2) pub(5) in simp)
  ultimately show ?thesis using eff(1,2) by (intro system_okI' [OF S]) auto
qed

lemma finishes_not_ok:
  assumes H: "header_name_ok (header_names E)" and S: "system_ok E s" and k: "sy_writers s k = Some (ow, bytes)"
    and run: "finish E ow (sy_world s) = (r, w')"
  shows "system_ok E (s\<lparr>sy_world := w', sy_writers := (sy_writers s)(k := None)\<rparr>)"
  using finish_effect [OF H S k run] by (intro system_okI' [OF S]) simp_all

section \<open>Opened objects\<close>

lemma open_for_eq: "open_for E wr p = st_bind (st_map_err IO (sys_open E p wr)) (\<lambda>fd. from_file E fd p wr)"
  by (simp add: open_for_def open_writable_def open_object_def)

lemma same_files_view: "same_files w w' \<Longrightarrow> view_of w' = view_of w \<and> shown (\<lambda>v. v = view_of w) w w'"
  by (auto simp: same_files_def view_of_def fun_eq_iff split: option.splits)

lemma same_files_quiet: "same_files w w' \<Longrightarrow> quiet UNIV w w'"
  using same_files_view [of w w'] by (auto simp: quiet_def elim!: shown_mono)

lemma open_world:
  assumes ok: "world_ok w" and run: "open_for E wr p w = (r, w')"
  shows "w_names w' = w_names w" "w_dirs w' = w_dirs w" "others_kept (w_next w) (w_next_fd w) w w'" "world_ok w'"
    "same_files w w'"
proof -
  have "wp (open_for E wr p) (\<lambda>_ w'. w_names w' = w_names w \<and> w_dirs w' = w_dirs w
      \<and> others_kept (w_next w) (w_next_fd w) w w' \<and> world_ok w')
    (\<lambda>_ w'. w_names w' = w_names w \<and> w_dirs w' = w_dirs w \<and> others_kept (w_next w) (w_next_fd w) w w' \<and> world_ok w') w"
    unfolding open_for_eq
  proof (rule wp_bind_map_err [OF sys_open_wp], goal_cases)
    case (1 fd w1)
    then obtain i where i: "w_names w p = Some i" and fd: "fd = w_next_fd w"
      and w1: "w1 = tick (w\<lparr>w_open := (w_open w)(fd \<mapsto> \<lparr>of_inode = i, of_pos = 0, of_writable = wr\<rparr>), w_next_fd := fd + 1\<rparr>)"
      by auto
    have o1: "w_open w1 fd = Some \<lparr>of_inode = i, of_pos = 0, of_writable = wr\<rparr>" by (simp add: w1)
    have "i < w_next w" using ok i unfolding world_ok_def by blast
    then have ok1: "world_ok w1" using ok unfolding world_ok_def by (auto simp: w1 fd less_Suc_eq split: if_splits)
    have k1: "others_kept (w_next w) fd w w1" by (simp add: others_kept_def w1 names_within_same)
    show ?case
    proof (rule wp_conseq [OF from_file_safe [OF o1]], goal_cases)
      case (1 ob w2)
      then have fr: "frame {fd} {} w1 w2" by simp
      show ?case
        using world_ok_frame [OF fr ok1] others_kept_frame [OF k1 fr] frameD(1,2) [OF fr] by (simp add: fd w1)
    next
      case (2 e w2)
      then have fr: "frame {fd} {} w1 w2" by simp
      show ?case
        using world_ok_frame [OF fr ok1] others_kept_frame [OF k1 fr] frameD(1,2) [OF fr] by (simp add: fd w1)
    qed
  next
    case (2 e w1)
    then have fr: "frame {} {} w w1" using frame_tick [OF frame_refl] by auto
    show ?case
      using world_ok_frame [OF fr ok] others_kept_frame [OF others_kept_refl fr] frameD(1,2) [OF fr] by simp
  qed
  from wp_run [OF this run] show "w_names w' = w_names w" "w_dirs w' = w_dirs w"
      "others_kept (w_next w) (w_next_fd w) w w'" "world_ok w'"
    by (cases r; simp)+
  show "same_files w w'" using wp_run [OF open_safe run [unfolded open_for_eq]] by (cases r) auto
qed

text \<open>What is opened has the content of the file at the path; and all of it, if the prefix is not torn.\<close>

lemma opened:
  assumes H: "header_name_ok (header_names E)" and S: "system_ok E s" and p: "\<not> temporary p"
    and run: "open_for E wr p (sy_world s) = (Ok ob, w')"
  obtains i where "w_names (sy_world s) p = Some i" "ob_file ob = w_next_fd (sy_world s)" "ob_path ob = p"
    "inode_of w' (ob_file ob) = Some i" "w_names w' = w_names (sy_world s)" "w_dirs w' = w_dirs (sy_world s)"
    "others_kept (w_next (sy_world s)) (ob_file ob) (sy_world s) w'" "world_ok w'" "same_files (sy_world s) w'"
    "object_ok E w' (ob, opened_content (sy_world s) p ob, p \<notin> sy_torn s)"
proof -
  let ?w = "sy_world s" and ?fd = "w_next_fd (sy_world s)"
  note ok = system_okD(1) [OF S]
  obtain i w1 where named: "w_names ?w p = Some i"
    and w1: "w1 = tick (?w\<lparr>w_open := (w_open ?w)(?fd \<mapsto> \<lparr>of_inode = i, of_pos = 0, of_writable = wr\<rparr>), w_next_fd := ?fd + 1\<rparr>)"
    and opened: "from_file E ?fd p wr w1 = (Ok ob, w')"
  proof -
    obtain r w1 where so: "sys_open E p wr ?w = (r, w1)" by (metis surj_pair)
    from run so obtain fd where r: "r = Ok fd" and ff: "from_file E fd p wr w1 = (Ok ob, w')"
      by (cases r) (auto simp: open_for_eq st_bind_def st_map_err_def)
    from wp_run [OF sys_open_wp so] r ff show ?thesis using that by auto
  qed
  let ?f = "\<lparr>of_inode = i, of_pos = 0, of_writable = wr\<rparr>"
  have v: "view_of ?w p = Some (w_data ?w i)" using named by (simp add: view_of_def)
  have o1: "w_open w1 ?fd = Some ?f"
    and same1: "w_names w1 = w_names ?w" "w_dirs w1 = w_dirs ?w" "w_data w1 = w_data ?w"
      "\<And>g. g \<noteq> ?fd \<Longrightarrow> w_open w1 g = w_open ?w g" "w_next w1 = w_next ?w" "w_next_fd w1 = ?fd + 1"
    by (simp_all add: w1)
  obtain hd content where hd: "headed (w_data w1 (of_inode ?f)) hd content"
    using sound_viewD(1) [OF system_okD(2) [OF S] p v] by (auto simp: same1)
  from wp_run [OF from_file_header [OF o1 hd] opened] obtain md where fr: "frame {?fd} {} w1 w'"
    and ob: "ob = from_parts ?fd p hd md wr" by auto
  have data: "w_data w' = w_data ?w" using frameD(6) [OF fr] by (simp add: fun_eq_iff same1)
  obtain g where g: "w_open w' ?fd = Some g" "of_inode g = i" "of_writable g = wr"
    using same_handleD [OF frame_handle [OF fr] o1] by auto
  have content: "opened_content ?w p ob = content"
    using headedD(5) [OF hd] by (simp add: opened_content_def v ob from_parts_def same1)
  have x: "\<exists>x. hd = hd\<lparr>h_tags_start := x\<rparr>" by (rule exI [of _ "h_tags_start hd"]) simp
  have "handle_at ob w' hd content"
    unfolding handle_at_def using g hd x by (auto simp: ob from_parts_def data same1)
  moreover have "\<exists>t. object_at E ob w' t content" if nt: "p \<notin> sy_torn s"
  proof -
    obtain hd2 md2 t2 c2 where holds: "holds_object E (w_data w1 (of_inode ?f)) hd2 md2 t2 c2"
      using sound_viewD(2) [OF system_okD(2) [OF S] p v nt] by (auto simp: complete_file_def same1)
    from wp_run [OF from_file_wp [OF o1 H holds] opened] have "ob = from_parts ?fd p hd2 md2 wr" by simp
    moreover have "c2 = content" using headed_same(2) [OF hd holds_headed [OF H holds]] .
    ultimately show ?thesis using g holds by (auto simp: object_at_def from_parts_def data same1)
  qed
  ultimately have obj: "object_ok E w' (ob, opened_content ?w p ob, p \<notin> sy_torn s)"
    using p unfolding content by (auto simp: ob from_parts_def)
  show thesis
    by (rule that [OF named]) (use obj open_world [OF ok run] g in \<open>simp_all add: ob from_parts_def inode_of_def\<close>)
qed

lemma opens_not_ok:
  assumes S: "system_ok E s" and run: "open_for E wr p (sy_world s) = (r, w')"
  shows "system_ok E (s\<lparr>sy_world := w'\<rparr>)"
proof -
  let ?w = "sy_world s"
  note ok = system_okD(1) [OF S] and P = system_okD(5) [OF S]
  note o = open_world [OF ok run]
  have "parties_ok E w' (sy_writers s) (sy_objects s)"
    by (rule fresh_others [OF P ok o(3,2)]) (use party_fresh [OF P ok] o(1) in auto)
  moreover have "shown (sound E (sy_torn s)) ?w w' \<and> sound E (sy_torn s) (view_of w')"
    by (rule sound_quiet [OF system_okD(2) [OF S] same_files_quiet [OF o(5)]]) simp
  ultimately show ?thesis using o(4) by (intro system_okI' [OF S]) simp_all
qed

lemma opens_ok:
  assumes H: "header_name_ok (header_names E)" and S: "system_ok E s" and p: "\<not> temporary p"
    and run: "open_for E wr p (sy_world s) = (Ok ob, w')"
  shows "system_ok E (s\<lparr>sy_world := w',
    sy_objects := (sy_objects s)(h \<mapsto> (ob, opened_content (sy_world s) p ob, p \<notin> sy_torn s))\<rparr>)"
proof -
  let ?w = "sy_world s" and ?y = "(ob, opened_content (sy_world s) p ob, p \<notin> sy_torn s)"
  note ok = system_okD(1) [OF S] and P = system_okD(5) [OF S]
  obtain i where o: "w_names ?w p = Some i" "ob_file ob = w_next_fd ?w" "inode_of w' (ob_file ob) = Some i"
    "w_names w' = w_names ?w" "w_dirs w' = w_dirs ?w" "others_kept (w_next ?w) (ob_file ob) ?w w'" "world_ok w'"
    "same_files ?w w'" "object_ok E w' ?y"
    by (rule opened [OF H S p run])
  have P': "parties_ok E w' (sy_writers s) (sy_objects s)"
    by (rule fresh_others [OF P ok o(6,5)]) (use party_fresh [OF P ok] o(2,4) in auto)
  have "parties_ok E w' (sy_writers s) ((sy_objects s)(h \<mapsto> ?y))"
  proof (rule parties_add_object [OF parties_remove(2) [OF P'] o(9)])
    show "inode_of w' (wfile x) \<noteq> inode_of w' (ofile ?y)" if "sy_writers s k = Some x" for k x
      using party_named [OF P' that _ p, of i] o(1,3,4) by simp
    show "ofile ?y \<noteq> ofile y'" if "sy_objects s h' = Some y'" for h' y'
      using party_fresh(2) [OF P ok that] o(2) by simp
  qed
  moreover have "shown (sound E (sy_torn s)) ?w w' \<and> sound E (sy_torn s) (view_of w')"
    by (rule sound_quiet [OF system_okD(2) [OF S] same_files_quiet [OF o(8)]]) simp
  ultimately show ?thesis using o(7) by (intro system_okI' [OF S]) simp_all
qed

text \<open>Reading moves the offset of a handle and changes nothing else.\<close>

lemma parties_frame:
  assumes P: "parties_ok E w ws obs" and fr: "frame F {} w w'" and F: "\<And>k x. ws k = Some x \<Longrightarrow> wfile x \<notin> F"
  shows "parties_ok E w' ws obs"
proof (rule parties_okI)
  note i = frame_inode [OF fr]
  show "writer_ok w' x" if k: "ws k = Some x" for k x
    using parties_okD(1) [OF P k] writer_at_frame [OF fr F [OF k]] unfolding writer_ok_def by blast
  show "object_ok E w' y" if h: "obs h = Some y" for h y
    by (rule object_ok_same [OF parties_okD(2) [OF P h] frame_handle [OF fr] frameD(6) [OF fr]]) simp
  show "inode_of w' (wfile x) \<noteq> inode_of w' (wfile x')" if "ws k = Some x" "ws k' = Some x'" "k \<noteq> k'" for k x k' x'
    unfolding i by (rule parties_okD(3) [OF P that])
  show "inode_of w' (wfile x) \<noteq> inode_of w' (ofile y)" if "ws k = Some x" "obs h = Some y" for k x h y
    unfolding i by (rule parties_okD(4) [OF P that])
  show "ofile y \<noteq> ofile y'" if "obs h = Some y" "obs h' = Some y'" "h \<noteq> h'" for h y h' y'
    by (rule parties_okD(5) [OF P that])
qed

lemma object_okD:
  assumes "parties_ok E w ws obs" and "obs k = Some (ob, content, current)"
  obtains h f where "handle_at ob w h content" "w_open w (ob_file ob) = Some f" "\<not> temporary (ob_path ob)"
    "inode_of w (ob_file ob) = Some (of_inode f)"
proof -
  obtain h where h: "handle_at ob w h content" and p: "\<not> temporary (ob_path ob)"
    using parties_okD(2) [OF assms] by auto
  obtain f where f: "w_open w (ob_file ob) = Some f" using handle_at_open [OF h] by blast
  from that [OF h f p] f show thesis by (simp add: inode_of_def)
qed

lemma reads_effect:
  assumes S: "system_ok E s" and k: "sy_objects s k = Some (ob, content, current)"
    and run: "read_effect E op (ob, sy_world s) = (ob', w')"
  shows "ob' = ob" and "frame {ob_file ob} {} (sy_world s) w'"
proof -
  obtain h f where "w_open (sy_world s) (ob_file ob) = Some f" by (rule object_okD [OF system_okD(5) [OF S] k])
  then have "w_open (sy_world s) (ob_file ob) \<noteq> None" by simp
  from read_effect_moves [OF this, of E op] run show "ob' = ob" "frame {ob_file ob} {} (sy_world s) w'" by simp_all
qed

lemma reads_ok:
  assumes S: "system_ok E s" and k: "sy_objects s k = Some (ob, content, current)"
    and run: "read_effect E op (ob, sy_world s) = (ob', w')"
  shows "system_ok E (s\<lparr>sy_world := w', sy_objects := (sy_objects s)(k \<mapsto> (ob', content, current))\<rparr>)"
proof -
  note P = system_okD(5) [OF S]
  note e = reads_effect [OF S k run]
  have "(sy_objects s)(k \<mapsto> (ob', content, current)) = sy_objects s" using k e(1) by auto
  moreover have "parties_ok E w' (sy_writers s) (sy_objects s)"
  proof (rule parties_frame [OF P e(2)])
    show "wfile x \<notin> {ob_file ob}" if "sy_writers s k' = Some x" for k' x
      using parties_okD(4) [OF P that k] by auto
  qed
  moreover have "shown (sound E (sy_torn s)) (sy_world s) w' \<and> sound E (sy_torn s) (view_of w')"
    by (rule sound_quiet [OF system_okD(2) [OF S] frame_quiet [OF e(2), of UNIV]]) simp_all
  ultimately show ?thesis using world_ok_frame [OF e(2) system_okD(1) [OF S]] by (intro system_okI' [OF S]) simp_all
qed

section \<open>Updates\<close>

lemma update_effect:
  assumes H: "header_name_ok (header_names E)" and S: "system_ok E s" and k: "sy_objects s k = Some (ob, content, current)"
    and typed: "sections_typed md t" and run: "set_sections E md t (ob, sy_world s) = (r, (ob', w'))"
  shows "world_ok w'" "shown (sound E (sy_torn s)) (sy_world s) w' \<and> sound E (sy_torn s) (view_of w')"
    "parties_ok E w' (sy_writers s) ((sy_objects s)(k := None))" "update_frame E ob md t content (sy_world s) w'"
    "others_kept (w_next (sy_world s)) (ob_file ob) (sy_world s) w'" "\<not> temporary (ob_path ob)"
    "r = Ok () \<Longrightarrow> updated_object E ob md t content ob' w' \<and> ob_file ob' = w_next_fd (sy_world s)"
    "r \<noteq> Ok () \<Longrightarrow> ob' = ob \<and> kept (sy_world s) w'"
proof -
  let ?w = "sy_world s" and ?p = "ob_path ob"
  note ok = system_okD(1) [OF S] and P = system_okD(5) [OF S]
  obtain h f where at: "handle_at ob ?w h content" and p: "\<not> temporary ?p" by (rule object_okD [OF P k])
  note spec = wp_run [OF rewrite_behind_wp [OF H ok handle_at_behind [OF at] typed, folded set_sections_def] run]
  show fr: "update_frame E ob md t content ?w w'" and others: "others_kept (w_next ?w) (ob_file ob) ?w w'"
    using spec by (cases r; simp)+
  from fr show ok': "world_ok w'" by (simp add: update_frame_def)
  from fr have d: "w_dirs w' = w_dirs ?w" and q: "quiet (old_names ?w ?p - {?p}) ?w w'"
    and au: "atomic_update ?p (version_of E (compression_type (ob_header ob)) md t content) ?w w'"
    and names: "\<forall>q \<in> old_names ?w ?p - {?p}. w_names w' q = w_names ?w q"
    unfolding update_frame_def by blast+
  show "parties_ok E w' (sy_writers s) ((sy_objects s)(k := None))"
  proof (rule fresh_others [OF parties_remove(2) [OF P] ok others d])
    show "wfile x \<noteq> ob_file ob" if "sy_writers s k' = Some x" for k' x
      using parties_okD(4) [OF P that k] by auto
    show "ofile y \<noteq> ob_file ob" if "((sy_objects s)(k := None)) h' = Some y" for h' y
      using that parties_okD(5) [OF P _ k] by (auto split: if_splits)
    show "w_names w' q = w_names ?w q" if "temporary q" "w_names ?w q \<noteq> None" for q
      using names that p by (auto simp: old_names_def)
  qed
  show "shown (sound E (sy_torn s)) ?w w' \<and> sound E (sy_torn s) (view_of w')"
  proof (rule sound_atomic [OF system_okD(2) [OF S] q au H])
    show "version_of E ct md t content d \<Longrightarrow> complete_file E d" for ct d
      by (auto simp: version_of_def complete_file_def)
  qed (auto simp: old_names_def)
  show "\<not> temporary ?p" by (rule p)
  show "r = Ok () \<Longrightarrow> updated_object E ob md t content ob' w' \<and> ob_file ob' = w_next_fd ?w" using spec by simp
  show "r \<noteq> Ok () \<Longrightarrow> ob' = ob \<and> kept ?w w'" using spec by (cases r) simp_all
qed

lemma updates_ok:
  assumes H: "header_name_ok (header_names E)" and S: "system_ok E s" and k: "sy_objects s k = Some (ob, content, current)"
    and typed: "sections_typed md t" and run: "set_sections E md t (ob, sy_world s) = (Ok (), (ob', w'))"
  shows "system_ok E (s\<lparr>sy_world := w', sy_objects := (sy_objects s)(k \<mapsto> (ob', content, True)),
    sy_torn := sy_torn s - {ob_path ob}\<rparr>)"
proof -
  let ?w = "sy_world s" and ?p = "ob_path ob"
  note P = system_okD(5) [OF S] and ok = system_okD(1) [OF S]
  note eff = update_effect [OF H S k typed run]
  obtain f where pub: "object_at E ob' w' t content" "w_open w' (ob_file ob') = Some f" "of_writable f"
    "w_names w' (ob_path ob') = Some (of_inode f)" "ob_path ob' = ?p"
    using eff(7) by (auto simp: updated_object_def)
  have p: "\<not> temporary (ob_path ob')" using eff(6) pub(5) by simp
  note new = published_file [OF H pub(1-4) p]
  have "parties_ok E w' (sy_writers s) ((sy_objects s)(k \<mapsto> (ob', content, True)))"
  proof (rule parties_add_object [OF eff(3) new(1)])
    show "inode_of w' (wfile x) \<noteq> inode_of w' (ofile (ob', content, True))" if "sy_writers s k' = Some x" for k' x
      using party_named [OF eff(3) that pub(4) p] new(3) by simp
    show "ofile (ob', content, True) \<noteq> ofile y" if "sy_objects s h' = Some y" for h' y
      using party_fresh(2) [OF P ok that] eff(7) by auto
  qed
  moreover have "sound E (sy_torn s - {?p}) (view_of w')"
    by (rule sound_except [OF conjunct2 [OF eff(2)]]) (use new(2) pub(5) in simp)
  ultimately show ?thesis using eff(1,2) by (intro system_okI' [OF S]) auto
qed

lemma updates_not_ok:
  assumes H: "header_name_ok (header_names E)" and S: "system_ok E s" and k: "sy_objects s k = Some (ob, content, current)"
    and typed: "sections_typed md t" and run: "set_sections E md t (ob, sy_world s) = (r, (ob', w'))" and r: "r \<noteq> Ok ()"
  shows "system_ok E (s\<lparr>sy_world := w', sy_objects := (sy_objects s)(k \<mapsto> (ob', content, current))\<rparr>)"
proof -
  let ?w = "sy_world s" and ?y = "(ob, content, current)"
  note P = system_okD(5) [OF S] and ok = system_okD(1) [OF S]
  note eff = update_effect [OF H S k typed run]
  have ob': "ob' = ob" and kept: "kept ?w w'" using eff(8) [OF r] by simp_all
  obtain i where i: "ob_file ob < w_next_fd ?w" "i < w_next ?w" "inode_of ?w (ob_file ob) = Some i"
    using party_known(2) [OF P ok k] by auto
  have same: "same_handle (ob_file ob) ?w w'" and d: "w_data w' i = w_data ?w i"
    using kept i(1,2) by (simp_all add: kept_def same_handle_def)
  note i' = same_handle_inode [OF same]
  have new: "object_ok E w' ?y"
    by (rule object_ok_same [OF parties_okD(2) [OF P k]]) (use same d i(3) in simp_all)
  have "parties_ok E w' (sy_writers s) ((sy_objects s)(k \<mapsto> ?y))"
  proof (rule parties_add_object [OF eff(3) new])
    show "inode_of w' (wfile x) \<noteq> inode_of w' (ofile ?y)" if x: "sy_writers s k' = Some x" for k' x
    proof -
      have ne: "inode_of ?w (wfile x) \<noteq> inode_of ?w (ob_file ob)" using parties_okD(4) [OF P x k] by simp
      then have "wfile x \<noteq> ob_file ob" by auto
      then show ?thesis using inode_kept [OF eff(5)] party_known(1) [OF P ok x] ne i' by simp
    qed
    show "ofile ?y \<noteq> ofile y" if "h' \<noteq> k" "sy_objects s h' = Some y" for h' y
      using parties_okD(5) [OF P k that(2)] that(1) by simp
  qed
  then show ?thesis using eff(1,2) ob' by (intro system_okI' [OF S]) simp_all
qed

section \<open>Updates in place\<close>

lemma outdatedD:
  assumes "outdated w fd obs k = Some y'"
  obtains ob content current where "obs k = Some (ob, content, current)"
    "y' = (ob, content, current \<and> inode_of w (ob_file ob) \<noteq> inode_of w fd)"
  using assms unfolding outdated_def by auto

lemma handle_at_headed:
  assumes "handle_at ob w h content" and "same_handle (ob_file ob) w w'" and "inode_of w (ob_file ob) = Some i"
    and "headed (w_data w' i) (h\<lparr>h_tags_start := x\<rparr>) content"
  shows "handle_at ob w' (h\<lparr>h_tags_start := x\<rparr>) content"
proof -
  obtain f y where f: "w_open w (ob_file ob) = Some f" "ob_writable ob \<longrightarrow> of_writable f"
    and y: "ob_header ob = h\<lparr>h_tags_start := y\<rparr>"
    using assms(1) unfolding handle_at_def by blast
  have i: "i = of_inode f" using assms(3) f(1) by (simp add: inode_of_def)
  obtain g where "w_open w' (ob_file ob) = Some g" "of_inode g = of_inode f" "of_writable g = of_writable f"
    using same_handleD [OF assms(2) f(1)] by blast
  moreover have "ob_header ob = h\<lparr>h_tags_start := x\<rparr>\<lparr>h_tags_start := y\<rparr>" by (simp add: y)
  ultimately show ?thesis using f(2) assms(4) i unfolding handle_at_def by metis
qed

lemma in_place_effect:
  assumes H: "header_name_ok (header_names E)" and S: "system_ok E s" and k: "sy_objects s k = Some (ob, content, current)"
    and typed: "sections_typed md t" and run: "set_sections_in_place E md t (ob, sy_world s) = (r, (ob', w'))"
  obtains h i x where "handle_at ob (sy_world s) h content" "inode_of (sy_world s) (ob_file ob) = Some i"
    "frame {ob_file ob} {i} (sy_world s) w'" "shows_at i (\<lambda>d. \<exists>x. headed d (h\<lparr>h_tags_start := x\<rparr>) content) (sy_world s) w'"
    "headed (w_data w' i) (h\<lparr>h_tags_start := x\<rparr>) content" "\<not> temporary (ob_path ob)"
    "r \<noteq> Ok () \<longrightarrow> ob' = ob" "ob_file ob' = ob_file ob" "ob_path ob' = ob_path ob"
    "r = Ok () \<longrightarrow> object_at E ob' w' t content \<and> ob_writable ob \<and> ob_writable ob' \<and> ob_metadata ob' = md
       \<and> compression_type (ob_header ob') = compression_type (ob_header ob)"
proof -
  let ?w = "sy_world s"
  obtain h f where at: "handle_at ob ?w h content" and f: "w_open ?w (ob_file ob) = Some f" and p: "\<not> temporary (ob_path ob)"
    and i: "inode_of ?w (ob_file ob) = Some (of_inode f)"
    by (rule object_okD [OF system_okD(5) [OF S] k])
  note spec = wp_run [OF in_place_wp [OF H f at typed] run]
  have fr: "frame {ob_file ob} {of_inode f} ?w w'"
    and sh: "shows_at (of_inode f) (\<lambda>d. \<exists>x. headed d (h\<lparr>h_tags_start := x\<rparr>) content) ?w w'"
    using spec by (cases r; simp)+
  obtain y where y: "ob_header ob = h\<lparr>h_tags_start := y\<rparr>" using at unfolding handle_at_def by blast
  show thesis
  proof (cases "r = Ok ()")
    case True
    with spec obtain x where o: "object_at E ob' w' t content" and ob': "ob' = ob\<lparr>ob_header := h\<lparr>h_tags_start := x\<rparr>, ob_metadata := md\<rparr>"
      and wr: "ob_writable ob" by auto
    obtain g where g: "w_open w' (ob_file ob) = Some g" "of_inode g = of_inode f"
      using same_handleD [OF frame_handle [OF fr] f] by blast
    have "headed (w_data w' (of_inode f)) (h\<lparr>h_tags_start := x\<rparr>) content"
      using o g holds_headed [OF H] by (auto simp: object_at_def ob')
    from that [OF at i fr sh this p] True o show thesis by (simp add: ob' y wr)
  next
    case False
    with spec obtain x where hd: "headed (w_data w' (of_inode f)) (h\<lparr>h_tags_start := x\<rparr>) content" and same: "ob' = ob"
      by (cases r) auto
    from that [OF at i fr sh hd p] False same show thesis by simp
  qed
qed

text \<open>Every handle to the file still has its content behind it; none but the updated one is current.\<close>

lemma in_place_parties:
  assumes P: "parties_ok E w ws obs" and k: "obs k = Some (ob, content, current)"
    and at: "handle_at ob w h content" and i: "inode_of w (ob_file ob) = Some i" and fr: "frame {ob_file ob} {i} w w'"
    and hd: "headed (w_data w' i) (h\<lparr>h_tags_start := x\<rparr>) content"
    and new: "object_ok E w' (ob', content, current')" "ob_file ob' = ob_file ob"
  shows "parties_ok E w' ws ((outdated w (ob_file ob) obs)(k \<mapsto> (ob', content, current')))"
proof -
  note i' = frame_inode [OF fr]
  have own: "inode_of w (ob_file ob2) = Some i \<Longrightarrow> \<exists>h2. handle_at ob2 w' h2 content2"
    if at2: "handle_at ob2 w h2 content2" for ob2 h2 content2
  proof -
    assume i2: "inode_of w (ob_file ob2) = Some i"
    have "headed (w_data w i) h content" and "headed (w_data w i) h2 content2"
      using at at2 i i2 by (auto simp: handle_at_def inode_of_def)
    from headed_same [OF this] have "h2 = h" "content2 = content" by simp_all
    then show ?thesis using handle_at_headed [OF _ frame_handle [OF fr] i2 hd] at2 by blast
  qed
  have others: "object_ok E w' y \<and> (\<exists>z. obs h' = Some z \<and> ofile y = ofile z)"
    if y: "outdated w (ob_file ob) obs h' = Some y" for h' y
  proof -
    obtain ob2 content2 current2 where z: "obs h' = Some (ob2, content2, current2)"
      and y2: "y = (ob2, content2, current2 \<and> inode_of w (ob_file ob2) \<noteq> inode_of w (ob_file ob))"
      by (rule outdatedD [OF y])
    note ok2 = parties_okD(2) [OF P z]
    have "object_ok E w' y"
    proof (cases "inode_of w (ob_file ob2) = Some i")
      case True
      then show ?thesis using ok2 own i unfolding y2 by auto
    next
      case False
      then have "object_ok E w' (ob2, content2, current2)"
        by (intro object_ok_same [OF ok2 frame_handle [OF fr]] frameD(6) [OF fr]) auto
      then show ?thesis unfolding y2 by auto
    qed
    then show ?thesis using z y2 by auto
  qed
  have oth: "\<exists>z. obs h' = Some z \<and> ofile y = ofile z"
    if "((outdated w (ob_file ob) obs)(k \<mapsto> (ob', content, current'))) h' = Some y" for h' y
    using that others [of h' y] k new(2) by (auto split: if_splits)
  show ?thesis
  proof (rule parties_okI)
    show "writer_ok w' z" if z: "ws k' = Some z" for k' z
    proof (rule writer_okD [OF parties_okD(1) [OF P z]])
      fix tp j
      assume w: "writer_at (fst z) w tp j (snd z)" "temporary tp" "inode_of w (wfile z) = Some j"
        "\<not> temporary (wr_final_path (fst z))" "sections_typed (wr_metadata (fst z)) (wr_tags (fst z))"
      have "inode_of w (wfile z) \<noteq> inode_of w (ob_file ob)" using parties_okD(4) [OF P z k] by simp
      then have "wfile z \<notin> {ob_file ob}" "j \<notin> {i}" using w(3) i by auto
      from writer_at_frame [OF fr this w(1)] show ?thesis using w(2,4,5) by (auto simp: writer_ok_def)
    qed
    show "object_ok E w' y" if "((outdated w (ob_file ob) obs)(k \<mapsto> (ob', content, current'))) h' = Some y" for h' y
      using that others [of h' y] new(1) by (auto split: if_splits)
    show "inode_of w' (wfile z) \<noteq> inode_of w' (wfile z')" if "ws k1 = Some z" "ws k2 = Some z'" "k1 \<noteq> k2" for k1 z k2 z'
      unfolding i' by (rule parties_okD(3) [OF P that])
    show "inode_of w' (wfile z) \<noteq> inode_of w' (ofile y)"
      if "ws k1 = Some z" "((outdated w (ob_file ob) obs)(k \<mapsto> (ob', content, current'))) h' = Some y" for k1 z h' y
      using oth [OF that(2)] parties_okD(4) [OF P that(1)] unfolding i' by metis
    show "ofile y \<noteq> ofile y'"
      if "((outdated w (ob_file ob) obs)(k \<mapsto> (ob', content, current'))) h1 = Some y"
        "((outdated w (ob_file ob) obs)(k \<mapsto> (ob', content, current'))) h2 = Some y'" "h1 \<noteq> h2" for h1 y h2 y'
      using oth [OF that(1)] oth [OF that(2)] parties_okD(5) [OF P _ _ that(3)] by metis
  qed
qed

lemma in_place_sound:
  assumes S: "system_ok E s" and i: "inode_of (sy_world s) fd = Some i" and fr: "frame {fd} {i} (sy_world s) w'"
    and sh: "shows_at i P (sy_world s) w'" and P: "\<And>d. P d \<Longrightarrow> \<exists>h content. headed d h content" and d: "P (w_data w' i)"
  shows "shown (sound E (sy_torn s \<union> names_of (sy_world s) fd)) (sy_world s) w'"
    and "sound E (sy_torn s \<union> names_of (sy_world s) fd) (view_of w')"
proof -
  let ?w = "sy_world s"
  have N: "names_of ?w fd = {q. w_names ?w q = Some i}" by (auto simp: names_of_def i)
  note here = sound_headed [OF system_okD(2) [OF S], where N = "names_of ?w fd"]
  show "shown (sound E (sy_torn s \<union> names_of ?w fd)) ?w w'"
    using sh unfolding shows_at_def
  proof (rule shown_mono)
    fix v
    assume v: "\<forall>q. if w_names ?w q = Some i then \<exists>d. v q = Some d \<and> P d else v q = view_of ?w q"
    show "sound E (sy_torn s \<union> names_of ?w fd) v"
      by (rule here) (use v P in \<open>unfold N mem_Collect_eq, metis (full_types)\<close>)
  qed
  show "sound E (sy_torn s \<union> names_of ?w fd) (view_of w')"
  proof (rule here)
    show "if q \<in> names_of ?w fd then \<exists>d. view_of w' q = Some d \<and> (\<exists>h content. headed d h content) else view_of w' q = view_of ?w q" for q
      using frame_view [OF fr, of q] P [OF d] frameD(1) [OF fr] by (auto simp: N view_of_def)
  qed
qed

lemma amends_ok:
  assumes H: "header_name_ok (header_names E)" and S: "system_ok E s" and k: "sy_objects s k = Some (ob, content, current)"
    and typed: "sections_typed md t" and run: "set_sections_in_place E md t (ob, sy_world s) = (Ok (), (ob', w'))"
  shows "system_ok E (s\<lparr>sy_world := w',
    sy_objects := (outdated (sy_world s) (ob_file ob) (sy_objects s))(k \<mapsto> (ob', content, True)),
    sy_torn := sy_torn s - names_of (sy_world s) (ob_file ob), sy_exposed := sy_exposed s \<union> names_of (sy_world s) (ob_file ob)\<rparr>)"
proof -
  let ?w = "sy_world s" and ?N = "names_of (sy_world s) (ob_file ob)"
  note X = system_okD(4) [OF S]
  obtain h i x where at: "handle_at ob ?w h content" and i: "inode_of ?w (ob_file ob) = Some i"
    and fr: "frame {ob_file ob} {i} ?w w'" and sh: "shows_at i (\<lambda>d. \<exists>x. headed d (h\<lparr>h_tags_start := x\<rparr>) content) ?w w'"
    and hd: "headed (w_data w' i) (h\<lparr>h_tags_start := x\<rparr>) content" and p: "\<not> temporary (ob_path ob)"
    and fields: "ob_file ob' = ob_file ob" "ob_path ob' = ob_path ob"
    and new: "object_at E ob' w' t content" "ob_writable ob"
    by (rule in_place_effect [OF H S k typed run]) simp
  obtain f where f: "w_open w' (ob_file ob') = Some f" "of_writable f" "of_inode f = i"
  proof -
    obtain g where g: "w_open ?w (ob_file ob) = Some g" "of_writable g"
      using at new(2) unfolding handle_at_def by blast
    then show thesis using same_handleD [OF frame_handle [OF fr] g(1)] i that fields(1) by (auto simp: inode_of_def)
  qed
  have obj: "object_ok E w' (ob', content, True)"
    using object_at_handle [OF H new(1)] f p fields(2) new(1) by auto
  have full: "complete_file E (w_data w' i)" using new(1) f by (auto simp: object_at_def complete_file_def)
  note P' = in_place_parties [OF system_okD(5) [OF S] k at i fr hd obj fields(1)]
  note v = in_place_sound [OF S i fr sh _ exI, OF _ hd]
  have sound: "sound E (sy_torn s \<union> ?N - ?N) (view_of w')"
  proof (rule sound_except)
    show "sound E (sy_torn s \<union> ?N) (view_of w')" by (rule v(2)) blast
    show "complete_file E d" if "q \<in> ?N" "view_of w' q = Some d" for q d
      using that full frameD(1) [OF fr] by (auto simp: names_of_def i view_of_def)
  qed
  have "shown (sound E (sy_exposed s \<union> ?N)) ?w w'"
    by (rule shown_mono [OF v(1)]) (use X in \<open>blast intro: sound_mono\<close>)+
  moreover have "sound E (sy_torn s - ?N) (view_of w')" by (rule sound_mono [OF sound]) blast
  ultimately show ?thesis
    using P' world_ok_frame [OF fr system_okD(1) [OF S]] X by (intro system_okI [OF S]) auto
qed

lemma breaks_off_ok:
  assumes H: "header_name_ok (header_names E)" and S: "system_ok E s" and k: "sy_objects s k = Some (ob, content, current)"
    and typed: "sections_typed md t" and run: "set_sections_in_place E md t (ob, sy_world s) = (r, (ob', w'))" and r: "r \<noteq> Ok ()"
  shows "system_ok E (s\<lparr>sy_world := w',
    sy_objects := (outdated (sy_world s) (ob_file ob) (sy_objects s))(k \<mapsto> (ob', content, False)),
    sy_torn := sy_torn s \<union> names_of (sy_world s) (ob_file ob), sy_exposed := sy_exposed s \<union> names_of (sy_world s) (ob_file ob)\<rparr>)"
proof -
  let ?w = "sy_world s" and ?N = "names_of (sy_world s) (ob_file ob)"
  note X = system_okD(4) [OF S]
  obtain h i x where at: "handle_at ob ?w h content" and i: "inode_of ?w (ob_file ob) = Some i"
    and fr: "frame {ob_file ob} {i} ?w w'" and sh: "shows_at i (\<lambda>d. \<exists>x. headed d (h\<lparr>h_tags_start := x\<rparr>) content) ?w w'"
    and hd: "headed (w_data w' i) (h\<lparr>h_tags_start := x\<rparr>) content" and p: "\<not> temporary (ob_path ob)" and same: "ob' = ob"
    by (rule in_place_effect [OF H S k typed run]) (use r in simp)
  have obj: "object_ok E w' (ob', content, False)"
    using handle_at_headed [OF at frame_handle [OF fr] i hd] p same by auto
  note P' = in_place_parties [OF system_okD(5) [OF S] k at i fr hd obj arg_cong [OF same, of ob_file]]
  note v = in_place_sound [OF S i fr sh _ exI, OF _ hd]
  have sound: "sound E (sy_torn s \<union> ?N) (view_of w')" by (rule v(2)) blast
  have "shown (sound E (sy_exposed s \<union> ?N)) ?w w'"
    by (rule shown_mono [OF v(1)]) (use X in \<open>blast intro: sound_mono\<close>)+
  then show ?thesis
    using sound P' world_ok_frame [OF fr system_okD(1) [OF S]] X by (intro system_okI [OF S]) auto
qed

lemma refuses_ok:
  assumes H: "header_name_ok (header_names E)" and S: "system_ok E s" and k: "sy_objects s k = Some (ob, content, current)"
    and typed: "sections_typed md t" and run: "set_sections_in_place E md t (ob, sy_world s) = (r, (ob', w'))" and r: "r \<noteq> Ok ()"
  shows "system_ok E (s\<lparr>sy_objects := (sy_objects s)(k \<mapsto> (ob', content, current))\<rparr>)"
proof -
  have "ob' = ob" by (rule in_place_effect [OF H S k typed run]) (use r in simp)
  then have "s\<lparr>sy_objects := (sy_objects s)(k \<mapsto> (ob', content, current))\<rparr> = s" using k by (cases s) (simp add: fun_upd_idem)
  then show ?thesis using S by simp
qed

section \<open>Every run keeps the invariant\<close>

lemma start_ok: "at_rest E w \<Longrightarrow> system_ok E (start_system w)"
  by (simp add: at_rest_def system_ok_def start_system_def parties_ok_def)

lemma step_ok:
  assumes H: "header_name_ok (header_names E)" and S: "system_ok E s" and st: "step E s ev s'"
  shows "system_ok E s'"
  using st
proof cases
  case (creates k p opts ow w')
  then show ?thesis using creates_ok [OF S] by simp
next
  case (creates_not p opts r w')
  then show ?thesis using creates_not_ok [OF S] by simp
next
  case (streams k ow bytes bs r ow' w')
  then show ?thesis using streams_ok(1) [OF S streams(3) stream_effect [OF streams(4)]] by simp
next
  case (writes k ow bytes bs r ow' w')
  then show ?thesis using streams_ok(1) [OF S writes(3) write_effect [OF writes(4)]] by simp
next
  case (encodes k ow bytes r ow' w')
  then show ?thesis using encodes_ok [OF S] by simp
next
  case (edits k ow bytes f g)
  then show ?thesis using edits_ok [OF S] by simp
next
  case (finishes k ow bytes ob w' h)
  then show ?thesis using finishes_ok [OF H S] by simp
next
  case (finishes_not k ow bytes r w')
  then show ?thesis using finishes_not_ok [OF H S] by simp
next
  case (aborts k ow bytes r w')
  then show ?thesis using discards_ok(1) [OF S aborts(3)] abort_drops [OF aborts(4)] by simp
next
  case (discards k ow bytes)
  then show ?thesis using discards_ok(1) [OF S] by simp
next
  case (opens p wr ob w' h)
  then show ?thesis using opens_ok [OF H S] by simp
next
  case (opens_not wr p r w')
  then show ?thesis using opens_not_ok [OF S] by simp
next
  case (reads h ob content current op ob' w')
  then show ?thesis using reads_ok [OF S] by simp
next
  case (updates h ob content current md t ob' w')
  then show ?thesis using updates_ok [OF H S] by simp
next
  case (updates_not h ob content current md t r ob' w')
  then show ?thesis using updates_not_ok [OF H S] by simp
next
  case (amends h ob content current md t ob' w')
  then show ?thesis using amends_ok [OF H S] by simp
next
  case (refuses h ob content current md t r ob')
  then show ?thesis using refuses_ok [OF H S] by simp
next
  case (breaks_off h ob content current md t r ob' w')
  then show ?thesis using breaks_off_ok [OF H S] by simp
next
  case (closes h)
  then show ?thesis
    using system_okD [OF S] parties_remove(2) by (intro system_okI' [OF S]) (simp_all add: shown_def)
qed

lemma runs_ok:
  assumes "header_name_ok (header_names E)" and "at_rest E w" and "reaches E (start_system w) s"
  shows "system_ok E s"
  using assms(3) unfolding reaches_def by (induction rule: rtranclp_induct) (use start_ok step_ok assms(1,2) in blast)+

lemma reaches_step: "reaches E s0 s \<Longrightarrow> step E s ev s' \<Longrightarrow> reaches E s0 s'"
  unfolding reaches_def by (rule rtranclp.rtrancl_into_rtrancl) blast+

end
