(* ===== verification/DirectoryRuns.thy ===== *)
theory DirectoryRuns
  imports Directory Encoders
begin

text \<open>
  What the state machine of \<open>Directory\<close> guarantees of every run: each step does to the store of
  objects what its event says, at every moment; what is visible is complete, but for prefixes an
  update in place has torn, and even then the content is there; and nobody at work gets in the way of
  anybody else. At the end stands a run with an update in place, on which the witnesses rest.
\<close>

section \<open>Refinement of the store\<close>

text \<open>The store another process reads from a view; temporary files are nobody's objects.\<close>

definition store_of :: "'hn env \<Rightarrow> view \<Rightarrow> 'hn store" where
  "store_of E v p = (if temporary p then None else Option.bind (v p) (parse_object E))"

definition visible_store :: "'hn env \<Rightarrow> 'hn system \<Rightarrow> 'hn store" where
  "visible_store E s = store_of E (view_of (sy_world s))"

text \<open>Stores that agree but at some paths, where nothing but an object with this content can be read.\<close>

definition torn_at :: "path set \<Rightarrow> compression_types \<Rightarrow> u8 list \<Rightarrow> 'hn store \<Rightarrow> 'hn store \<Rightarrow> bool" where
  "torn_at N ct content \<sigma> \<sigma>' \<longleftrightarrow> (\<forall>p. if p \<in> N
     then (\<forall>so. \<sigma>' p = Some so \<longrightarrow> so_compression so = ct \<and> so_content so = content)
     else \<sigma>' p = \<sigma> p)"

text \<open>What may be seen while an event takes place.\<close>

fun may_show :: "'hn event \<Rightarrow> 'hn store \<Rightarrow> 'hn store \<Rightarrow> bool" where
  "may_show Unseen \<sigma> \<sigma>' \<longleftrightarrow> \<sigma>' = \<sigma>"
| "may_show (Puts p so) \<sigma> \<sigma>' \<longleftrightarrow> \<sigma>' \<in> {\<sigma>, \<sigma>(p \<mapsto> so)}"
| "may_show (May_put p so) \<sigma> \<sigma>' \<longleftrightarrow> \<sigma>' \<in> {\<sigma>, \<sigma>(p \<mapsto> so)}"
| "may_show (Amends N so) \<sigma> \<sigma>' \<longleftrightarrow> torn_at N (so_compression so) (so_content so) \<sigma> \<sigma>'"
| "may_show (Tears N ct content) \<sigma> \<sigma>' \<longleftrightarrow> torn_at N ct content \<sigma> \<sigma>'"

text \<open>What an event leaves.\<close>

fun leaves :: "'hn event \<Rightarrow> 'hn store \<Rightarrow> 'hn store \<Rightarrow> bool" where
  "leaves (Puts p so) \<sigma> \<sigma>' \<longleftrightarrow> \<sigma>' = \<sigma>(p \<mapsto> so)"
| "leaves (Amends N so) \<sigma> \<sigma>' \<longleftrightarrow> \<sigma>' = (\<lambda>p. if p \<in> N \<and> \<not> temporary p then Some so else \<sigma> p)"
| "leaves ev \<sigma> \<sigma>' \<longleftrightarrow> may_show ev \<sigma> \<sigma>'"

definition refines :: "'hn env \<Rightarrow> 'hn event \<Rightarrow> world \<Rightarrow> world \<Rightarrow> bool" where
  "refines E ev w w' \<longleftrightarrow> leaves ev (store_of E (view_of w)) (store_of E (view_of w')) \<and>
     shown (\<lambda>v. may_show ev (store_of E (view_of w)) (store_of E v)) w w'"

lemma refines_quiet:
  assumes "quiet public w w'"
  shows "refines E Unseen w w'"
proof -
  have one: "store_of E v = store_of E (view_of w)" if "\<forall>q \<in> public. v q = view_of w q" for v
    using that by (simp add: store_of_def fun_eq_iff)
  have "shown (\<lambda>v. \<forall>q \<in> public. v q = view_of w q) w w'" using assms by (simp add: quiet_def)
  then have "shown (\<lambda>v. may_show Unseen (store_of E (view_of w)) (store_of E v)) w w'"
    by (rule shown_mono) (unfold may_show.simps, rule one)
  moreover have "store_of E (view_of w') = store_of E (view_of w)" by (rule one) (use assms in \<open>simp add: quiet_def\<close>)
  ultimately show ?thesis by (simp add: refines_def)
qed

text \<open>An atomic update shows the store before it or after it, and nothing else.\<close>

lemma refines_atomic:
  assumes q: "quiet (public - {p}) w w'" and au: "atomic_update p P w w'" and P: "\<And>d. P d \<Longrightarrow> parse_object E d = Some so"
    and p: "\<not> temporary p"
  shows "refines E (May_put p so) w w'"
    and "store_of E (view_of w') p = Some so \<Longrightarrow> refines E (Puts p so) w w'"
proof -
  let ?\<sigma> = "store_of E (view_of w)"
  have one: "store_of E v \<in> {?\<sigma>, ?\<sigma>(p \<mapsto> so)}"
    if v: "(\<forall>q \<in> public - {p}. v q = view_of w q) \<and> (v p = view_of w p \<or> (\<exists>d. v p = Some d \<and> P d))" for v
  proof -
    have out: "store_of E v r = ?\<sigma> r" if "r \<noteq> p" for r using v that by (simp add: store_of_def)
    have "store_of E v p = ?\<sigma> p \<or> store_of E v p = Some so" using v P by (auto simp: store_of_def p)
    then show ?thesis
    proof
      assume "store_of E v p = ?\<sigma> p"
      then have "store_of E v r = ?\<sigma> r" for r using out [of r] by (cases "r = p") simp_all
      then show ?thesis by (simp add: fun_eq_iff)
    next
      assume "store_of E v p = Some so"
      then have "store_of E v r = (?\<sigma>(p \<mapsto> so)) r" for r using out [of r] by (cases "r = p") simp_all
      then have "store_of E v = ?\<sigma>(p \<mapsto> so)" ..
      then show ?thesis by simp
    qed
  qed
  have "shown (\<lambda>v. (\<forall>q \<in> public - {p}. v q = view_of w q) \<and> (v p = view_of w p \<or> (\<exists>d. v p = Some d \<and> P d))) w w'"
    by (rule shown_conj) (use q au in \<open>simp_all add: quiet_def atomic_update_def\<close>)
  then have sh: "shown (\<lambda>v. store_of E v \<in> {?\<sigma>, ?\<sigma>(p \<mapsto> so)}) w w'" by (rule shown_mono) (rule one)
  have last: "store_of E (view_of w') \<in> {?\<sigma>, ?\<sigma>(p \<mapsto> so)}"
    by (rule one) (use q au in \<open>simp add: quiet_def atomic_update_def\<close>)
  show "refines E (May_put p so) w w'" using sh last by (simp add: refines_def)
  show "refines E (Puts p so) w w'" if "store_of E (view_of w') p = Some so"
  proof -
    have "store_of E (view_of w') = ?\<sigma>(p \<mapsto> so)" using last that by (auto simp: fun_upd_idem)
    then show ?thesis using sh by (simp add: refines_def)
  qed
qed

lemma finish_refines:
  assumes H: "header_name_ok (header_names E)" and S: "system_ok E s" and k: "sy_writers s k = Some (ow, bytes)"
    and run: "finish E ow (sy_world s) = (r, w')"
  shows "refines E (May_put (wr_final_path ow) (object_of ow bytes)) (sy_world s) w'"
    and "r = Ok ob \<Longrightarrow> refines E (Puts (wr_final_path ow) (object_of ow bytes)) (sy_world s) w'"
proof -
  let ?p = "wr_final_path ow"
  obtain tp i where at: "writer_at ow (sy_world s) tp i bytes" and tp: "temporary tp" and p: "\<not> temporary ?p"
    and typed: "sections_typed (wr_metadata ow) (wr_tags ow)"
    by (rule writer_okD [OF parties_okD(1) [OF system_okD(5) [OF S] k]]) simp
  note spec = wp_run [OF finish_typed_wp [OF H system_okD(1) [OF S] at typed] run]
  have "finish_frame E ow tp bytes (sy_world s) w'" using spec by (cases r; simp)
  then have au: "atomic_update ?p (complete_object E ow bytes) (sy_world s) w'"
    and q: "quiet (old_names (sy_world s) ?p - {?p, tp}) (sy_world s) w'"
    by (simp_all add: finish_frame_def)
  have q': "quiet (public - {?p}) (sy_world s) w'"
    by (rule quiet_mono [OF q]) (use tp in \<open>auto simp: old_names_def\<close>)
  note ref = refines_atomic [OF q' au parse_complete [OF H] p]
  show "refines E (May_put ?p (object_of ow bytes)) (sy_world s) w'" by (rule ref(1))
  assume "r = Ok ob"
  with spec have "finished_object E ow bytes ob w'" by simp
  from abs_store_finished [OF H this] show "refines E (Puts ?p (object_of ow bytes)) (sy_world s) w'"
    by (intro ref(2)) (simp_all add: store_of_def abs_store_def p)
qed

lemma update_refines:
  assumes H: "header_name_ok (header_names E)" and S: "system_ok E s" and k: "sy_objects s k = Some (ob, content, current)"
    and typed: "sections_typed md t" and run: "set_sections E md t (ob, sy_world s) = (r, (ob', w'))"
  shows "refines E (May_put (ob_path ob) (revised ob md t content)) (sy_world s) w'"
    and "r = Ok () \<Longrightarrow> refines E (Puts (ob_path ob) (revised ob md t content)) (sy_world s) w'"
proof -
  let ?p = "ob_path ob"
  note eff = update_effect [OF H S k typed run]
  have au: "atomic_update ?p (version_of E (compression_type (ob_header ob)) md t content) (sy_world s) w'"
    and q: "quiet (old_names (sy_world s) ?p - {?p}) (sy_world s) w'"
    using eff(4) by (simp_all add: update_frame_def)
  have q': "quiet (public - {?p}) (sy_world s) w'" by (rule quiet_mono [OF q]) (auto simp: old_names_def)
  have "parse_object E d = Some (revised ob md t content)"
    if "version_of E (compression_type (ob_header ob)) md t content d" for d
    using parse_version [OF H that] by (simp add: revised_def)
  note ref = refines_atomic [OF q' au this eff(6)]
  show "refines E (May_put ?p (revised ob md t content)) (sy_world s) w'" by (rule ref(1))
  assume "r = Ok ()"
  with eff(7) have "updated_object E ob md t content ob' w'" by simp
  from abs_store_updated [OF H this] show "refines E (Puts ?p (revised ob md t content)) (sy_world s) w'"
    by (intro ref(2)) (simp_all add: store_of_def abs_store_def eff(6) revised_def)
qed

lemma in_place_refines:
  assumes H: "header_name_ok (header_names E)" and S: "system_ok E s" and k: "sy_objects s k = Some (ob, content, current)"
    and typed: "sections_typed md t" and run: "set_sections_in_place E md t (ob, sy_world s) = (r, (ob', w'))"
  defines "N \<equiv> names_of (sy_world s) (ob_file ob)"
  shows "refines E (Tears N (compression_type (ob_header ob)) content) (sy_world s) w'"
    and "r = Ok () \<Longrightarrow> refines E (Amends N (revised ob md t content)) (sy_world s) w'"
proof -
  let ?w = "sy_world s" and ?so = "revised ob md t content"
  have so: "so_compression ?so = compression_type (ob_header ob)" "so_content ?so = content" by (simp_all add: revised_def)
  let ?ev = "Tears N (compression_type (ob_header ob)) content"
  obtain h i x where at: "handle_at ob ?w h content" and i: "inode_of ?w (ob_file ob) = Some i"
    and fr: "frame {ob_file ob} {i} ?w w'" and sh: "shows_at i (\<lambda>d. \<exists>x. headed d (h\<lparr>h_tags_start := x\<rparr>) content) ?w w'"
    and hd: "headed (w_data w' i) (h\<lparr>h_tags_start := x\<rparr>) content" and fields: "ob_file ob' = ob_file ob"
    and new: "r = Ok () \<longrightarrow> object_at E ob' w' t content \<and> ob_writable ob \<and> ob_writable ob' \<and> ob_metadata ob' = md
       \<and> compression_type (ob_header ob') = compression_type (ob_header ob)"
    by (rule in_place_effect [OF H S k typed run])
  have N: "N = {q. w_names ?w q = Some i}" by (auto simp: N_def names_of_def i)
  have ct: "compression_type (ob_header ob) = compression_type h" using at by (auto simp: handle_at_def)
  have one: "may_show ?ev (store_of E (view_of ?w)) (store_of E v)"
    if v: "\<forall>q. if w_names ?w q = Some i then (\<exists>d. v q = Some d \<and> (\<exists>x. headed d (h\<lparr>h_tags_start := x\<rparr>) content)) else v q = view_of ?w q"
    for v
  proof -
    have "so_compression so = compression_type h \<and> so_content so = content"
      if q: "w_names ?w q = Some i" "store_of E v q = Some so" for q so
    proof -
      obtain d x where d: "v q = Some d" "headed d (h\<lparr>h_tags_start := x\<rparr>) content" using v q(1) by metis
      then have "parse_object E d = Some so" using q(2) by (simp add: store_of_def split: if_splits)
      from headed_parse [OF d(2) this] show ?thesis by simp
    qed
    moreover have "store_of E v q = store_of E (view_of ?w) q" if "w_names ?w q \<noteq> Some i" for q
      using v that by (simp add: store_of_def)
    ultimately show ?thesis by (simp add: N ct torn_at_def)
  qed
  have during: "shown (\<lambda>v. may_show ?ev (store_of E (view_of ?w)) (store_of E v)) ?w w'"
    using sh unfolding shows_at_def by (rule shown_mono) (rule one)
  have out: "view_of w' q = view_of ?w q" if "w_names ?w q \<noteq> Some i" for q using frame_view [OF fr, of q] that by simp
  have inn: "view_of w' q = Some (w_data w' i)" if "w_names ?w q = Some i" for q
    using that frameD(1) [OF fr] by (simp add: view_of_def)
  have "may_show ?ev (store_of E (view_of ?w)) (store_of E (view_of w'))" by (rule one) (use out inn hd in auto)
  then show "refines E ?ev ?w w'" using during by (simp add: refines_def)
  assume "r = Ok ()"
  with new obtain f where f: "w_open w' (ob_file ob') = Some f"
    and holds: "holds_object E (w_data w' (of_inode f)) (ob_header ob') md t content"
    and ct': "compression_type (ob_header ob') = compression_type (ob_header ob)"
    by (auto simp: object_at_def)
  have "inode_of w' (ob_file ob') = Some i" using i by (simp add: frame_inode [OF fr] fields)
  then have "of_inode f = i" using f by (simp add: inode_of_def)
  then have "parse_object E (w_data w' i) = Some ?so" using parse_held [OF H holds] by (simp add: revised_def ct')
  then have "store_of E (view_of w') = (\<lambda>p. if p \<in> N \<and> \<not> temporary p then Some ?so else store_of E (view_of ?w) p)"
    using out inn by (auto simp: store_of_def N fun_eq_iff)
  then show "refines E (Amends N ?so) ?w w'"
    using during by (simp add: refines_def so)
qed

lemma step_refines:
  assumes H: "header_name_ok (header_names E)" and S: "system_ok E s" and st: "step E s ev s'"
  shows "refines E ev (sy_world s) (sy_world s')"
proof -
  note ok = system_okD(1) [OF S]
  from st show ?thesis
  proof cases
    case (creates k p opts ow w')
    then obtain tp where "created E p opts (sy_world s) ow w' tp" using wp_run [OF create_writer_wp [OF ok]] by fastforce
    then have "quiet (- {tp}) (sy_world s) w'" "temporary tp" unfolding created_def by blast+
    then show ?thesis using creates(1,2) by (auto intro!: refines_quiet elim: quiet_mono)
  next
    case (creates_not p opts r w')
    have "not_created E p (sy_world s) w'"
      using wp_run [OF create_writer_wp [OF ok] creates_not(4)] creates_not(5) by (cases r) auto
    then have "quiet (old_names (sy_world s) p) (sy_world s) w'" unfolding not_created_def by blast
    then show ?thesis using creates_not(1,2) by (auto intro!: refines_quiet elim: quiet_mono simp: old_names_def)
  next
    case (streams k ow bytes bs r ow' w')
    then show ?thesis using streams_ok(2) [OF S streams(3) stream_effect [OF streams(4)]] by (simp add: refines_quiet)
  next
    case (writes k ow bytes bs r ow' w')
    then show ?thesis using streams_ok(2) [OF S writes(3) write_effect [OF writes(4)]] by (simp add: refines_quiet)
  next
    case (encodes k ow bytes r ow' w')
    then show ?thesis using encoder_effect(1) [OF encodes(4)] by (simp add: refines_quiet)
  next
    case (finishes k ow bytes ob w' h)
    then show ?thesis using finish_refines(2) [OF H S finishes(3,4)] by simp
  next
    case (finishes_not k ow bytes r w')
    then show ?thesis using finish_refines(1) [OF H S finishes_not(3,4)] by simp
  next
    case (aborts k ow bytes r w')
    then show ?thesis using discards_ok(2) [OF S aborts(3)] abort_drops [OF aborts(4)] by (simp add: refines_quiet)
  next
    case (discards k ow bytes)
    then show ?thesis using discards_ok(2) [OF S discards(3)] by (simp add: refines_quiet)
  next
    case (opens p wr ob w' h)
    then show ?thesis using same_files_quiet [OF open_world(5) [OF ok opens(4)]] by (auto intro!: refines_quiet elim: quiet_mono)
  next
    case (opens_not wr p r w')
    then show ?thesis using same_files_quiet [OF open_world(5) [OF ok opens_not(3)]] by (auto intro!: refines_quiet elim: quiet_mono)
  next
    case (reads h ob content current op ob' w')
    have "quiet public (sy_world s) w'" by (rule frame_quiet [OF reads_effect(2) [OF S reads(3,4)]]) simp
    then show ?thesis using reads(1,2) by (simp add: refines_quiet)
  next
    case (updates h ob content current md t ob' w')
    then show ?thesis using update_refines(2) [OF H S updates(3-5)] by simp
  next
    case (updates_not h ob content current md t r ob' w')
    then show ?thesis using update_refines(1) [OF H S updates_not(3-5)] by simp
  next
    case (amends h ob content current md t ob' w')
    then show ?thesis using in_place_refines(2) [OF H S amends(3-5)] by simp
  next
    case (breaks_off h ob content current md t r ob' w')
    then show ?thesis using in_place_refines(1) [OF H S breaks_off(3-5)] by simp
  qed (simp_all add: refines_quiet)
qed

text \<open>C3: Every step does to the store of objects what its event says, whether it succeeds or fails.
  Abstractly a directory is a map from paths to objects. Creating, streaming, editing, aborting,
  dropping, opening and reading show nothing at all. A successful finish puts exactly the sections of
  the writer and the bytes streamed into it at its path, a successful update the new sections and the
  same content; if they fail, they do so or do nothing; and at every moment on the way the store is
  the one before or the one after. An update in place that succeeds gives the object its new sections
  under every name of its file; while it is at work, and after it broke off, what is at those names
  either cannot be read or has the same content. No step does anything at any other path.\<close>

theorem steps_refine_store:
  assumes H: "header_name_ok (header_names E)" and rest: "at_rest E w" and run: "reaches E (start_system w) s"
    and st: "step E s ev s'"
  shows "leaves ev (visible_store E s) (visible_store E s')
    \<and> shown (\<lambda>v. may_show ev (visible_store E s) (store_of E v)) (sy_world s) (sy_world s')"
  using step_refines [OF H runs_ok [OF H rest run] st] by (simp add: refines_def visible_store_def)

section \<open>Safety\<close>

text \<open>C4: What is visible. Start with a directory in which every file is a complete object or has a
  temporary name, and let any number of writers and opened objects work on it, interleaved in any
  order, some of their operations failing at any point. In every state they reach, and in every view
  another process could have had on the way, a file that is visible under a name that is not a
  temporary one is a complete object, of which the library reads exactly what it holds; unless an
  update in place was begun on it. In the state reached the exceptions are only the files whose last
  update in place broke off; and even a torn file has its content where its header says, so that
  whatever the library reads from it has that content.\<close>

theorem directory_safe:
  assumes H: "header_name_ok (header_names E)" and rest: "at_rest E w" and run: "reaches E (start_system w) s"
    and v: "v \<in> set (view_of (sy_world s) # w_trace (sy_world s))" and p: "\<not> temporary p" "v p = Some d"
  shows "(p \<notin> sy_exposed s \<or> v = view_of (sy_world s) \<and> p \<notin> sy_torn s \<longrightarrow>
      (\<exists>h md t content. holds_object E d h md t content \<and> parse_object E d =
         Some \<lparr>so_compression = compression_type h, so_metadata = md, so_tags = t, so_content = content\<rparr>))
    \<and> (\<exists>h content. headed d h content \<and>
         (\<forall>so. parse_object E d = Some so \<longrightarrow> so_compression so = compression_type h \<and> so_content so = content))"
proof
  have S: "system_ok E s" by (rule runs_ok [OF H rest run])
  have now: "sound E (sy_exposed s) (view_of (sy_world s))"
    by (rule sound_mono [OF system_okD(2,4) [OF S]])
  then have ex: "sound E (sy_exposed s) v" using v system_okD(3) [OF S] by auto
  show "p \<notin> sy_exposed s \<or> v = view_of (sy_world s) \<and> p \<notin> sy_torn s \<longrightarrow>
      (\<exists>h md t content. holds_object E d h md t content \<and> parse_object E d =
         Some \<lparr>so_compression = compression_type h, so_metadata = md, so_tags = t, so_content = content\<rparr>)"
  proof
    assume "p \<notin> sy_exposed s \<or> v = view_of (sy_world s) \<and> p \<notin> sy_torn s"
    then have "complete_file E d" using sound_viewD(2) [OF ex p] sound_viewD(2) [OF system_okD(2) [OF S] p(1)] p(2) by blast
    then obtain h md t content where "holds_object E d h md t content" unfolding complete_file_def by blast
    with parse_held [OF H this] show "\<exists>h md t content. holds_object E d h md t content \<and> parse_object E d =
         Some \<lparr>so_compression = compression_type h, so_metadata = md, so_tags = t, so_content = content\<rparr>" by blast
  qed
  obtain h content where "headed d h content" using sound_viewD(1) [OF ex p] by blast
  with headed_parse [OF this] show "\<exists>h content. headed d h content \<and>
         (\<forall>so. parse_object E d = Some so \<longrightarrow> so_compression so = compression_type h \<and> so_content so = content)" by blast
qed


section \<open>A run with an update in place\<close>

lemma sample_rest: "at_rest sample_env published_world"
proof -
  have full: "complete_file sample_env (w_data published_world 0)" using sample_holds by (auto simp: complete_file_def)
  have "view_of published_world p = Some d \<Longrightarrow> d = w_data published_world 0" for p d
    by (auto simp: view_of_def published_world_def split: option.splits if_splits)
  then have "sound sample_env {} (view_of published_world)"
    using full complete_headed [OF sample_env_ok(2) full] unfolding sound_def by blast
  then show ?thesis using worlds_ok(3) by (simp add: at_rest_def published_world_def empty_world_def)
qed

text \<open>The object is opened for writing and given a tag in place; then a writer is created for the same path.\<close>

definition opened_sample :: "u8 tux_object" where
  "opened_sample = from_parts 1 sample_path (ob_header sample_object) [] True"

lemma opened_sample_fields:
  "ob_file opened_sample = 1" "ob_path opened_sample = sample_path" "ob_header opened_sample = ob_header sample_object"
  "ob_metadata opened_sample = []" "ob_writable opened_sample" "h_content_start (ob_header sample_object) = 96"
  by (simp_all add: opened_sample_def from_parts_def sample_object_def)

abbreviation sample_tags :: "u8 list tags" where
  "sample_tags \<equiv> [([107], VBool True)]"

lemma sample_opens:
  "\<exists>w1 f. open_for sample_env True sample_path published_world = (Ok opened_sample, w1) \<and> w_open w1 1 = Some f
     \<and> of_inode f = 0 \<and> of_writable f \<and> w_data w1 = w_data published_world"
proof -
  have named: "w_names published_world sample_path = Some 0" and fd: "w_next_fd published_world = 1"
    by (simp_all add: published_world_def)
  have "wp (open_for sample_env True sample_path) (\<lambda>ob w1. ob = opened_sample \<and> (\<exists>f. w_open w1 1 = Some f
     \<and> of_inode f = 0 \<and> of_writable f) \<and> w_data w1 = w_data published_world) (\<lambda>_ _. False) published_world"
    unfolding open_for_eq
  proof (rule wp_bind_map_err [OF sys_open_wp], goal_cases)
    case (1 fd w1)
    then have w1: "w1 = tick (published_world\<lparr>w_open := (w_open published_world)(1 \<mapsto> \<lparr>of_inode = 0, of_pos = 0, of_writable = True\<rparr>),
        w_next_fd := 2\<rparr>)" and fd: "fd = 1"
      using named fd by (auto simp: numeral_2_eq_2)
    have o1: "w_open w1 1 = Some \<lparr>of_inode = 0, of_pos = 0, of_writable = True\<rparr>" and d1: "w_data w1 = w_data published_world"
      by (simp_all add: w1)
    have holds: "holds_object sample_env (w_data w1 (of_inode \<lparr>of_inode = 0, of_pos = 0, of_writable = True\<rparr>))
        (ob_header sample_object) [] [] [1, 2, 3]"
      using sample_holds by (simp add: d1)
    show ?case
      unfolding fd
    proof (rule wp_conseq [OF from_file_wp [OF o1 sample_env_ok(2) holds]], goal_cases)
      case (1 ob w2)
      then have fr: "frame {1} {} w1 w2" and ob: "ob = opened_sample" by (simp_all add: opened_sample_def)
      have "w_data w2 = w_data published_world" using frameD(6) [OF fr] by (simp add: fun_eq_iff d1)
      then show ?case using same_handleD [OF frame_handle [OF fr] o1] ob by auto
    next
      case (2 e w2)
      then show ?case using sample_env_ok(1) by simp
    qed
  next
    case (2 e w1)
    then show ?case using sample_env_ok(1) named by auto
  qed
  then show ?thesis by (auto dest!: wp_returns)
qed

lemma sample_amends:
  assumes o: "w_open w1 1 = Some f" "of_inode f = 0" "of_writable f" and d: "w_data w1 = w_data published_world"
  shows "\<exists>ob w2. set_sections_in_place sample_env [] sample_tags (opened_sample, w1) = (Ok (), (ob, w2)) \<and> frame {1} {0} w1 w2"
proof -
  note fields = opened_sample_fields
  have holds: "holds_object sample_env (w_data w1 (of_inode f)) (ob_header opened_sample) (ob_metadata opened_sample) [] [1, 2, 3]"
    using sample_holds by (simp add: o d fields)
  have secs: "sections_ok ([] :: u8 tags) sample_tags"
    by (simp add: sections_ok_def tags_ok_def entries_ok_def string_ok_def)
  have fit: "\<exists>l. repartition 96 (metadata_size sample_env []) (tag_block_size sample_tags) DEFAULT_ALIGNMENT
      = (Ok (Some l) :: (section_layout option, object_file_error) res)"
    by (simp add: repartition_eq metadata_size_def tag_block_size_def tags_size_def string_size_def HEADER_SIZE_def
        DEFAULT_ALIGNMENT_def aligned_def div_ceil_def usize_max_def Let_def bool_size_def)
  have o1: "w_open w1 (ob_file opened_sample) = Some f" using o(1) by (simp add: fields)
  have rw: "ob_writable opened_sample \<longrightarrow> of_writable f" using o(3) by simp
  have "wp (set_sections_in_place sample_env [] sample_tags) (\<lambda>_ s. frame {1} {0} w1 (snd s)) (\<lambda>_ _. False) (opened_sample, w1)"
    by (rule wp_conseq [OF set_sections_in_place_wp [OF sample_env_ok(2) o1 rw holds]])
       (use sample_env_ok(1) secs fit in \<open>simp_all add: fields o(2)\<close>)
  then show ?thesis by (auto dest!: wp_returns)
qed

lemma sample_creates:
  assumes ok: "world_ok w" and n: "w_names w = w_names published_world" and d: "w_dirs w = w_dirs published_world"
  shows "\<exists>ow w'. create_writer sample_env sample_path (create_options_new\<lparr>co_layout := layout_packed\<rparr>) w = (Ok ow, w')
     \<and> (\<exists>tp. writer_at ow w' tp (w_next w) []) \<and> wr_allow_raw_writes ow \<and> content_start (wr_layout ow) = 36
     \<and> quiet public w w'"
proof -
  let ?opts = "create_options_new\<lparr>co_layout := layout_packed\<rparr> :: u8 create_options"
  have new: "co_metadata (create_options_new :: u8 create_options) = []" "co_tags (create_options_new :: u8 create_options) = []"
    "co_compression (create_options_new :: u8 create_options) = NoCompression"
    by (simp_all add: create_options_new_def tags_new_def)
  have l: "compute (co_layout ?opts) (metadata_size sample_env (co_metadata ?opts)) (tag_block_size (co_tags ?opts))
      = Ok \<lparr>tags_start = 34, content_start = 36\<rparr>"
    by (simp add: new compute_def layout_packed_def metadata_size_def tag_block_size_def tags_size_def usize_add_def
        align_up_def usize_mul_def div_ceil_def HEADER_SIZE_def usize_max_def)
  have "temp_candidate sample_env sample_path (w_counter w) \<noteq> sample_path" by (rule temp_candidate_facts(1))
  then have place: "butlast sample_path \<in> set (w_dirs w)" "name_free sample_env sample_path w"
    unfolding name_free_def n d
    by (simp_all add: published_world_def empty_world_def sample_path_def sample_dir_def temp_candidate_def)
  have "wp (create_writer sample_env sample_path ?opts) (\<lambda>ow w'. \<exists>tp. created sample_env sample_path ?opts w ow w' tp)
      (\<lambda>_ _. False) w"
    by (rule wp_conseq [OF create_writer_wp [OF ok]]) (use l place sample_env_ok(1) new in \<open>auto simp: is_supported_def\<close>)
  then obtain ow w' tp where run: "create_writer sample_env sample_path ?opts w = (Ok ow, w')"
    and c: "created sample_env sample_path ?opts w ow w' tp"
    by (auto dest: wp_returns)
  then have at: "writer_at ow w' tp (w_next w) []" and q: "quiet (- {tp}) w w'" and tp: "temporary tp"
    and ow: "ow = fresh_writer sample_env sample_path ?opts \<lparr>tags_start = 34, content_start = 36\<rparr> tp (w_next_fd w)"
    using l unfolding created_def by auto
  have "quiet public w w'" by (rule quiet_mono [OF q]) (use tp in auto)
  then show ?thesis using run at ow by (auto simp: fresh_writer_def new)
qed

lemma sample_not_temporary: "\<not> temporary sample_path"
  by (simp add: temporary_def sample_path_def)

text \<open>
  Opened for writing, given a tag in place; and then a writer for the same path with two bytes streamed.
\<close>

lemma sample_run:
  obtains s1 s2 s ob ow where "step sample_env (start_system published_world) Unseen s1"
    "step sample_env s1 (Amends {sample_path} (revised opened_sample [] sample_tags [1, 2, 3])) s2"
    "reaches sample_env (start_system published_world) s" "sy_writers s 0 = Some (ow, [7, 8])"
    "sy_objects s 0 = Some (ob, [1, 2, 3], True)" "sy_torn s = {}" "sy_exposed s = {sample_path}"
    "view_of (sy_world s) sample_path \<noteq> None"
proof -
  let ?E = sample_env and ?s0 = "start_system published_world :: u8 system"
  obtain w1 f where op: "open_for ?E True sample_path published_world = (Ok opened_sample, w1)" and f: "w_open w1 1 = Some f"
    "of_inode f = 0" "of_writable f" and d1: "w_data w1 = w_data published_world"
    using sample_opens by blast
  obtain ob w2 where am: "set_sections_in_place ?E [] sample_tags (opened_sample, w1) = (Ok (), (ob, w2))"
    and fr: "frame {1} {0} w1 w2"
    using sample_amends [OF f d1] by blast
  note o1 = open_world [OF worlds_ok(3) op]
  have n2: "w_names w2 = w_names published_world" and d2: "w_dirs w2 = w_dirs published_world" and ok2: "world_ok w2"
    using frameD(1,2) [OF fr] o1 world_ok_frame [OF fr] by simp_all
  let ?opts = "create_options_new\<lparr>co_layout := layout_packed\<rparr> :: u8 create_options"
  obtain ow w3 tp where cr: "create_writer ?E sample_path ?opts w2 = (Ok ow, w3)" and at: "writer_at ow w3 tp (w_next w2) []"
    and raw: "wr_allow_raw_writes ow" and cs: "content_start (wr_layout ow) = 36" and q3: "quiet public w2 w3"
    using sample_creates [OF ok2 n2 d2] by blast
  have "unat (content_start (wr_layout ow)) + length ([] @ [7, 8 :: u8]) \<le> max_offset" by (simp add: cs max_offset_def)
  from writes_all [OF at raw sample_env_ok(1) this] obtain ow' w4
    where wr: "writer_write_all ?E [7, 8] (ow, w3) = (Ok (), (ow', w4))" by blast
  have content: "opened_content published_world sample_path opened_sample = [1, 2, 3]"
    using headedD(5) [OF holds_headed [OF sample_env_ok(2) sample_holds]]
    by (simp add: opened_content_def view_of_def published_world_def opened_sample_fields)
  have typed: "sections_typed ([] :: u8 tags) []" "sections_typed ([] :: u8 tags) sample_tags"
    by (simp_all add: sections_typed_def)
  have names: "names_of w1 1 = {sample_path}"
    using f by (auto simp: names_of_def inode_of_def o1(1) published_world_def)
  define s1 where "s1 = ?s0\<lparr>sy_world := w1, sy_objects := (sy_objects ?s0)(0 \<mapsto> (opened_sample, [1, 2, 3], True))\<rparr>"
  define s2 where "s2 = s1\<lparr>sy_world := w2, sy_objects := (outdated w1 1 (sy_objects s1))(0 \<mapsto> (ob, [1, 2, 3], True)),
      sy_torn := {} - {sample_path}, sy_exposed := {} \<union> {sample_path}\<rparr>"
  define s3 where "s3 = s2\<lparr>sy_world := w3, sy_writers := (sy_writers s2)(0 \<mapsto> (ow, []))\<rparr>"
  define s4 where "s4 = s3\<lparr>sy_world := w4, sy_writers := (sy_writers s3)(0 \<mapsto> (ow', [7, 8]))\<rparr>"
  note defs = s1_def s2_def s3_def s4_def start_system_def
  have op': "open_for ?E True sample_path (sy_world ?s0) = (Ok opened_sample, w1)" using op by (simp add: defs)
  have st1: "step ?E ?s0 Unseen s1"
    using opens [OF sample_not_temporary op', where h = 0] content by (simp add: defs)
  have am': "set_sections_in_place ?E [] sample_tags (opened_sample, sy_world s1) = (Ok (), (ob, w2))"
    and h: "sy_objects s1 0 = Some (opened_sample, [1, 2, 3], True)"
    using am by (simp_all add: defs)
  have st2: "step ?E s1 (Amends {sample_path} (revised opened_sample [] sample_tags [1, 2, 3])) s2"
    using amends [OF h typed(2) am'] names by (simp add: defs opened_sample_fields)
  have cr': "create_writer ?E sample_path ?opts (sy_world s2) = (Ok ow, w3)" and k: "sy_writers s2 0 = None"
    and typed': "sections_typed (co_metadata ?opts) (co_tags ?opts)"
    using cr typed(1) by (simp_all add: defs create_options_new_def tags_new_def)
  have st3: "step ?E s2 Unseen s3" using creates [OF k sample_not_temporary typed' cr'] by (simp add: s3_def)
  have wr': "writer_write_all ?E [7, 8] (ow, sy_world s3) = (Ok (), (ow', w4))" and k3: "sy_writers s3 0 = Some (ow, [])"
    using wr by (simp_all add: defs)
  have st4: "step ?E s3 Unseen s4" using streams [OF k3 wr'] by (simp add: s4_def taken_by_all_def)
  have run2: "reaches ?E ?s0 s2" by (rule reaches_step [OF reaches_step [OF _ st1] st2]) (simp add: reaches_def)
  have run: "reaches ?E ?s0 s4" by (rule reaches_step [OF reaches_step [OF run2 st3] st4])
  have ok3: "system_ok ?E s3" by (rule runs_ok [OF sample_env_ok(2) sample_rest reaches_step [OF run2 st3]])
  have "quiet public (sy_world s3) w4" by (rule streams_ok(2) [OF ok3 k3 stream_effect [OF wr']])
  then have "quiet public w3 w4" by (simp add: s3_def)
  then have "view_of w4 sample_path = view_of w2 sample_path"
    using q3 sample_not_temporary by (simp add: quiet_def)
  then have "view_of w4 sample_path \<noteq> None" by (simp add: view_of_def n2 published_world_def)
  from that [OF st1 st2 run] this show thesis by (simp add: defs)
qed

theorem steps_refine_store_witness:
  "\<exists>s1 s2. step sample_env (start_system published_world) Unseen s1
     \<and> visible_store sample_env s1 = visible_store sample_env (start_system published_world)
     \<and> visible_store sample_env s2 = (visible_store sample_env s1)(sample_path \<mapsto> revised opened_sample [] sample_tags [1, 2, 3])"
proof -
  obtain s1 s2 where st: "step sample_env (start_system published_world) Unseen s1"
    "step sample_env s1 (Amends {sample_path} (revised opened_sample [] sample_tags [1, 2, 3])) s2"
    by (rule sample_run)
  have r0: "reaches sample_env (start_system published_world) (start_system published_world)" by (simp add: reaches_def)
  note ref = steps_refine_store [OF sample_env_ok(2) sample_rest]
  have "visible_store sample_env s1 = visible_store sample_env (start_system published_world)"
    using ref [OF r0 st(1)] by simp
  moreover have "visible_store sample_env s2 = (visible_store sample_env s1)(sample_path \<mapsto> revised opened_sample [] sample_tags [1, 2, 3])"
    using ref [OF reaches_step [OF r0 st(1)] st(2)] sample_not_temporary by (auto simp: fun_eq_iff)
  ultimately show ?thesis using st(1) by blast
qed

theorem directory_safe_witness:
  "\<exists>s ow d. reaches sample_env (start_system published_world) s \<and> sy_writers s 0 = Some (ow, [7, 8])
     \<and> view_of (sy_world s) sample_path = Some d \<and> (\<exists>so. parse_object sample_env d = Some so)"
proof -
  obtain s ow where run: "reaches sample_env (start_system published_world) s" "sy_writers s 0 = Some (ow, [7, 8])"
    and t: "sy_torn s = {}" and v: "view_of (sy_world s) sample_path \<noteq> None"
    by (rule sample_run)
  obtain d where d: "view_of (sy_world s) sample_path = Some d" using v by blast
  have "view_of (sy_world s) \<in> set (view_of (sy_world s) # w_trace (sy_world s))" by simp
  from directory_safe [OF sample_env_ok(2) sample_rest run(1) this sample_not_temporary d] t
  have "\<exists>so. parse_object sample_env d = Some so" by blast
  with run d show ?thesis by blast
qed


end
