(* ===== verification/HashMaps.thy ===== *)
theory HashMaps
  imports Primitives
begin

text \<open>
  \<open>src/src/types/map.rs\<close>: the codec of \<open>HashMap\<close>, over the codecs and the type keys of its keys and
  values. A map is the list of its entries in iteration order.
\<close>

section \<open>Operations\<close>

definition hash_map_size :: "('k \<Rightarrow> nat) \<Rightarrow> ('v \<Rightarrow> nat) \<Rightarrow> ('k \<times> 'v) list \<Rightarrow> nat" where
  "hash_map_size key_size val_size m = 2 + 1 + 1 + (\<Sum>(k, v)\<leftarrow>m. key_size k + val_size v)"

fun add_read_sizes :: "nat decoder \<Rightarrow> nat decoder \<Rightarrow> nat \<Rightarrow> nat \<Rightarrow> nat decoder" where
  "add_read_sizes key_read_size value_read_size 0 base_size c = Ok (base_size, c)"
| "add_read_sizes key_read_size value_read_size (Suc n) base_size c =
     res_bind (key_read_size c) (\<lambda>(a, c). res_bind (value_read_size c) (\<lambda>(b, c).
     add_read_sizes key_read_size value_read_size n (base_size + (a + b)) c))"

definition hash_map_read_size :: "nat decoder \<Rightarrow> nat decoder \<Rightarrow> nat decoder" where
  "hash_map_read_size key_read_size value_read_size c =
     res_bind (read_num c) (\<lambda>(len :: u16, c).
     res_bind (seek_current 2 c) (\<lambda>c.
     add_read_sizes key_read_size value_read_size (unat len) (2 + 1 + 1) c))"

definition read_hash_map :: "u8 \<Rightarrow> u8 \<Rightarrow> 'k decoder \<Rightarrow> 'v decoder \<Rightarrow> ('k \<times> 'v) list decoder" where
  "read_hash_map kkey vkey read_key read_val c =
     res_bind (read_num c) (\<lambda>(read_length :: u16, c).
     res_bind (read_num c) (\<lambda>(key_type :: u8, c).
     res_bind (read_num c) (\<lambda>(value_type :: u8, c).
     if key_type \<noteq> kkey then Err (MismatchedObjectType kkey key_type)
     else if value_type \<noteq> vkey then Err (MismatchedObjectType vkey value_type)
     else read_entries read_key read_val (unat read_length) [] c)))"

definition write_hash_map :: "u8 \<Rightarrow> u8 \<Rightarrow> ('k, 'w) encoder \<Rightarrow> ('v, 'w) encoder \<Rightarrow> (('k \<times> 'v) list, 'w) encoder" where
  "write_hash_map kkey vkey write_key write_val wr m w =
     res_bind (count_is_allowed ''HashMap'' (length m)) (\<lambda>_.
     res_bind (write_num wr (of_nat (length m) :: u16) w) (\<lambda>w.
     res_bind (write_num wr kkey w) (\<lambda>w.
     res_bind (write_num wr vkey w)
       (write_each (\<lambda>(k, v) w. res_bind (write_key wr k w) (\<lambda>w. write_val wr v w)) m))))"

section \<open>The wire form\<close>

definition wire_map :: "u8 \<Rightarrow> u8 \<Rightarrow> ('k \<Rightarrow> u8 list) \<Rightarrow> ('v \<Rightarrow> u8 list) \<Rightarrow> ('k \<times> 'v) list \<Rightarrow> u8 list" where
  "wire_map kkey vkey kenc venc m =
     to_le_bytes (of_nat (length m) :: u16) @ to_le_bytes kkey @ to_le_bytes vkey @ wire_entries kenc venc m"

text \<open>Keys and values that can be written and read back, with the keys of their types.\<close>

locale typed_entries =
  entry_codec ksz kenc krd kok vsz venc vrd vok
  for ksz :: "'k \<Rightarrow> nat" and kenc krd kok and vsz :: "'v \<Rightarrow> nat" and venc vrd vok +
  fixes wk :: "('k, u8 list) encoder" and wv :: "('v, u8 list) encoder" and kkey vkey :: u8
  assumes wk_wire: "kok k \<Longrightarrow> wk vec_write k w = vec_write (kenc k) w"
    and wv_wire: "vok v \<Longrightarrow> wv vec_write v w = vec_write (venc v) w"
begin

definition entries_ok :: "('k \<times> 'v) list \<Rightarrow> bool" where
  "entries_ok m \<longleftrightarrow> list_all (\<lambda>(k, v). kok k \<and> vok v) m \<and> length m \<le> 65535"

lemma wv_fun: "vok v \<Longrightarrow> wv vec_write v = vec_write (venc v)"
  by (rule ext) (rule wv_wire)

lemma length_word: "length m \<le> 65535 \<Longrightarrow> unat (of_nat (length m) :: u16) = length m"
  by (simp add: unat_of_nat)

lemma write_wire:
  assumes "entries_ok m"
  shows "write_hash_map kkey vkey wk wv vec_write m w = vec_write (wire_map kkey vkey kenc venc m) w"
proof -
  have all: "list_all (\<lambda>(k, v). kok k \<and> vok v) m" and len: "length m \<le> 65535"
    using assms by (simp_all add: entries_ok_def)
  have each: "write_each (\<lambda>(k, v) w. res_bind (wk vec_write k w) (\<lambda>w. wv vec_write v w)) m w =
      vec_write (wire_entries kenc venc m) w" for w
    unfolding wire_entries_def
    by (rule vec.write_each_wire) (use all in \<open>auto simp: list_all_iff wk_wire wv_fun\<close>)
  have "write_each (\<lambda>(k, v) w. res_bind (wk vec_write k w) (\<lambda>w. wv vec_write v w)) m = vec_write (wire_entries kenc venc m)"
    by (rule ext) (rule each)
  then show ?thesis
    using len by (simp add: write_hash_map_def count_is_allowed_def MAX_PREFIXED_LENGTH_def write_num_def wire_map_def)
qed

lemma read_wire:
  assumes "entries_ok m" and "distinct (map fst m)"
  shows "read_hash_map kkey vkey krd vrd (cur pre (wire_map kkey vkey kenc venc m @ post)) =
     Ok (m, cur (pre @ wire_map kkey vkey kenc venc m) post)"
proof -
  have all: "list_all (\<lambda>(k, v). kok k \<and> vok v) m" and len: "length m \<le> 65535"
    using assms by (simp_all add: entries_ok_def)
  show ?thesis
    using read_entries_wire [OF all] insert_all_fresh [OF assms(2), of "[]"] length_word [OF len]
    by (simp add: read_hash_map_def wire_map_def)
qed

lemma length_wire:
  "entries_ok m \<Longrightarrow> length (wire_map kkey vkey kenc venc m) = hash_map_size ksz vsz m"
  by (simp add: wire_map_def hash_map_size_def size_entries_wire entries_ok_def)

lemma read_other_type:
  assumes "entries_ok m" and "k' \<noteq> kkey \<or> v' \<noteq> vkey"
  shows "read_hash_map k' v' krd vrd (cur pre (wire_map kkey vkey kenc venc m @ post)) =
     Err (if k' \<noteq> kkey then MismatchedObjectType k' kkey else MismatchedObjectType v' vkey)"
  using assms(2) by (auto simp: read_hash_map_def wire_map_def)

end

lemma write_too_many: "length m > 65535 \<Longrightarrow>
    write_hash_map kkey vkey wk wv wr m w = Err (TooManyEntries ''HashMap'' (length m) 65535)"
  by (simp add: write_hash_map_def count_is_allowed_def MAX_PREFIXED_LENGTH_def)

section \<open>Properties\<close>

text \<open>The map type of the tests, \<open>HashMap<i32, String>\<close>: type keys 6 and 12.\<close>

interpretation int_string: typed_entries num_size "to_le_bytes :: i32 \<Rightarrow> u8 list" read_num "\<lambda>_. True"
  string_size wire_block read_string string_ok write_num write_string 6 12
proof (intro typed_entries.intro entry_codec.intro typed_entries_axioms.intro)
  show "wire_type num_size (to_le_bytes :: i32 \<Rightarrow> u8 list) read_num (\<lambda>_. True)" by (rule u32.wire_type_axioms)
  show "wire_type string_size wire_block read_string string_ok" by (rule string.wire_type_axioms)
  show "write_num vec_write (k :: i32) w = vec_write (to_le_bytes k) w" for k w by (simp add: write_num_def)
  show "string_ok v \<Longrightarrow> write_string vec_write v w = vec_write (wire_block v) w" for v w
    by (rule vec.write_string_wire) (simp add: string_ok_def)
qed

abbreviation write_int_string_map :: "((i32 \<times> u8 list) list, u8 list) encoder" where
  "write_int_string_map \<equiv> write_hash_map 6 12 write_num write_string"

text \<open>C28: Hash maps round-trip. A map of integers to strings with distinct keys is written as exactly
  \<open>size\<close> bytes, which read back as the same map whatever follows them; read at other key or value
  types they are a \<open>MismatchedObjectType\<close> error; and a map of more than 65535 entries is refused
  instead of being written with a count that wrapped.\<close>

theorem hash_map_round_trip:
  fixes m :: "(i32 \<times> u8 list) list"
  assumes keys: "distinct (map fst m)" and vals: "list_all (\<lambda>(k, v). string_ok v) m"
  shows "if length m \<le> 65535
     then \<exists>bs. write_to_bytes write_int_string_map m = Ok bs \<and> length bs = hash_map_size num_size string_size m
       \<and> read_hash_map 6 12 (read_num :: i32 decoder) read_string (cur pre (bs @ post)) = Ok (m, cur (pre @ bs) post)
       \<and> (kt \<noteq> 6 \<or> vt \<noteq> 12 \<longrightarrow> read_hash_map kt vt (read_num :: i32 decoder) read_string (cur pre (bs @ post)) =
            Err (if kt \<noteq> 6 then MismatchedObjectType kt 6 else MismatchedObjectType vt 12))
     else write_to_bytes write_int_string_map m = Err (TooManyEntries ''HashMap'' (length m) 65535)"
proof (cases "length m \<le> 65535")
  case True
  then have ok: "int_string.entries_ok m"
    using vals by (auto simp: int_string.entries_ok_def list_all_iff)
  show ?thesis
    using True int_string.write_wire [OF ok] int_string.read_wire [OF ok keys] int_string.length_wire [OF ok]
      int_string.read_other_type [OF ok]
    by (simp add: write_to_bytes_def vec_write_def)
next
  case False
  then show ?thesis by (simp add: write_to_bytes_def write_too_many)
qed

theorem hash_map_round_trip_witness:
  "\<exists>bs. write_to_bytes write_int_string_map [(1, [111]), (2, [])] = Ok bs \<and> length bs = 17
     \<and> read_hash_map 6 12 (read_num :: i32 decoder) read_string (cur [] bs) = Ok ([(1, [111]), (2, [])], cur bs [])
     \<and> read_hash_map 6 11 (read_num :: i32 decoder) read_string (cur [] bs) = Err (MismatchedObjectType 11 12)"
  using hash_map_round_trip [of "[(1, [111]), (2, [])]" "[]" "[]" 6 11]
  by (simp add: string_ok_def hash_map_size_def num_size_def string_size_def)

lemma sample_map_bytes:
  "wire_map 6 12 to_le_bytes wire_block [(1 :: i32, [111, 110, 101]), (2, [116, 119, 111])] =
     [2, 0, 6, 12, 1, 0, 0, 0, 3, 0, 111, 110, 101, 2, 0, 0, 0, 3, 0, 116, 119, 111]"
  by code_simp

lemma seek_over_keys: "n < 1000 \<Longrightarrow> seek_current 2 \<lparr>c_data = bs, c_pos = n\<rparr> = Ok \<lparr>c_data = bs, c_pos = n + 2\<rparr>"
  by (simp add: seek_current_def)

lemma sample_map_measured:
  "hash_map_read_size (num_read_size TYPE(32)) string_read_size
     \<lparr>c_data = [2, 0, 6, 12, 1, 0, 0, 0, 3, 0, 111, 110, 101, 2, 0, 0, 0, 3, 0, 116, 119, 111], c_pos = 0\<rparr> =
   Ok (17, \<lparr>c_data = [2, 0, 6, 12, 1, 0, 0, 0, 3, 0, 111, 110, 101, 2, 0, 0, 0, 3, 0, 116, 119, 111], c_pos = 8\<rparr>)"
  (is "hash_map_read_size _ _ \<lparr>c_data = ?bs, c_pos = 0\<rparr> = _")
proof -
  have len: "(read_num \<lparr>c_data = ?bs, c_pos = 0\<rparr> :: (u16 \<times> cursor, encoding_error) res) = Ok (2, \<lparr>c_data = ?bs, c_pos = 2\<rparr>)"
    by code_simp
  have one: "string_read_size \<lparr>c_data = ?bs, c_pos = 4\<rparr> = Ok (3, \<lparr>c_data = ?bs, c_pos = 6\<rparr>)" by code_simp
  have two: "string_read_size \<lparr>c_data = ?bs, c_pos = 6\<rparr> = Ok (2, \<lparr>c_data = ?bs, c_pos = 8\<rparr>)" by code_simp
  have n: "unat (2 :: u16) = Suc (Suc 0)" by simp
  show ?thesis
    unfolding hash_map_read_size_def len res_bind.simps prod.case n
    by (simp add: seek_over_keys num_read_size_def one two)
qed

text \<open>Measuring a hash map. \<open>read_size\<close> adds up the sizes of the entries without moving over them,
  so it is right when keys and values have a fixed size, and wrong for the strings of the test map:
  from the second entry on it measures the wrong bytes.\<close>

theorem hash_map_measured:
  "(\<forall>(m :: (u16 \<times> u32) list) post. length m \<le> 65535 \<longrightarrow>
      res_bind (hash_map_read_size (num_read_size TYPE(16)) (num_read_size TYPE(32))
        (cur [] (wire_map 1 2 to_le_bytes to_le_bytes m @ post))) (\<lambda>(n, c). Ok n)
      = Ok (hash_map_size num_size num_size m))
   \<and> res_bind (hash_map_read_size (num_read_size TYPE(32)) string_read_size
        (cur [] (wire_map 6 12 to_le_bytes wire_block [(1 :: i32, [111, 110, 101]), (2, [116, 119, 111])]))) (\<lambda>(n, c). Ok n)
      = Ok 17
   \<and> hash_map_size num_size string_size [(1 :: i32, [111, 110, 101 :: u8]), (2, [116, 119, 111])] = 22"
proof (intro conjI allI impI)
  have fixed: "add_read_sizes (num_read_size TYPE(16)) (num_read_size TYPE(32)) n b c = Ok (b + n * 6, c)" for n b c
    by (induction n arbitrary: b) (simp_all add: num_read_size_def)
  fix m :: "(u16 \<times> u32) list" and post :: "u8 list"
  assume len: "length m \<le> 65535"
  have "(\<Sum>(k, v)\<leftarrow>m. num_size k + num_size v) = length m * 6"
    by (induction m) (auto simp: num_size_def)
  then show "res_bind (hash_map_read_size (num_read_size TYPE(16)) (num_read_size TYPE(32))
        (cur [] (wire_map 1 2 to_le_bytes to_le_bytes m @ post))) (\<lambda>(n, c). Ok n)
      = Ok (hash_map_size num_size num_size m)"
    using int_string.length_word [of m] len
    by (simp add: hash_map_read_size_def wire_map_def seek_current_def fixed hash_map_size_def)
next
  show "res_bind (hash_map_read_size (num_read_size TYPE(32)) string_read_size
        (cur [] (wire_map 6 12 to_le_bytes wire_block [(1 :: i32, [111, 110, 101]), (2, [116, 119, 111])]))) (\<lambda>(n, c). Ok n)
      = Ok 17"
    using sample_map_measured by (simp add: sample_map_bytes cur_def)
qed (simp_all add: hash_map_size_def num_size_def string_size_def)

theorem hash_map_measured_witness:
  "res_bind (hash_map_read_size (num_read_size TYPE(16)) (num_read_size TYPE(32))
     (cur [] (wire_map 1 2 to_le_bytes to_le_bytes [(5 :: u16, 6 :: u32)] @ []))) (\<lambda>(n, c). Ok n) = Ok 10"
  using hash_map_measured [THEN conjunct1, rule_format, of "[(5, 6)]" "[]"]
  by (simp add: hash_map_size_def num_size_def)

end
