(* ===== verification/AsyncCodecs.thy ===== *)
theory AsyncCodecs
  imports Tags Header
begin

text \<open>
  \<open>src/src/tokio_io.rs\<close> and the \<open>tokio_async\<close> modules of the types: the asynchronous readers and
  writers. An asynchronous reader is a stream without a position to seek to: what is left of its
  bytes. Awaiting is not visible in what a call returns.
\<close>

section \<open>Readers and writers\<close>

type_synonym 'a async_decoder = "u8 list \<Rightarrow> ('a \<times> u8 list, encoding_error) res"

definition async_read_exact :: "nat \<Rightarrow> u8 list async_decoder" where
  "async_read_exact n s =
     (if n \<le> length s then Ok (take n s, drop n s) else Err (IOError UnexpectedEofKind))"

text \<open>The default of \<open>write_to_async_writer\<close>: encode into a buffer, then one \<open>write_all\<close>.\<close>

definition write_to_async_writer :: "('a, u8 list) encoder \<Rightarrow> ('a, 'w) encoder" where
  "write_to_async_writer wt wr v w = res_bind (write_to_bytes wt v) (\<lambda>result. wr result w)"

definition read_exact_vec :: "nat \<Rightarrow> u8 list async_decoder" where
  "read_exact_vec len s = async_read_exact len s"

definition read_length_prefixed :: "u8 list async_decoder" where
  "read_length_prefixed s =
     res_bind (async_read_exact 2 s) (\<lambda>(bytes, s). read_exact_vec (unat (from_le_bytes bytes :: u16)) s)"

definition async_write_num :: "('a::len word, 'w) encoder" where
  "async_write_num wr x w = wr (to_le_bytes x) w"

definition async_read_num :: "'a::len word async_decoder" where
  "async_read_num s =
     res_bind (async_read_exact (LENGTH('a) div 8) s) (\<lambda>(buf, s). Ok (from_le_bytes buf, s))"

definition async_read_string :: "u8 list async_decoder" where
  "async_read_string s =
     res_bind (read_length_prefixed s) (\<lambda>(bytes, s). res_bind (from_utf8 bytes) (\<lambda>v. Ok (v, s)))"

definition async_read_vec :: "u8 list async_decoder" where
  "async_read_vec s = read_length_prefixed s"

definition async_read_bytes :: "u8 list async_decoder" where
  "async_read_bytes s = res_bind (read_length_prefixed s) (\<lambda>(bytes, s). Ok (bytes, s))"

definition async_write_uuid :: "(u8 list, 'w) encoder" where
  "async_write_uuid wr u w = wr u w"

definition async_read_uuid :: "u8 list async_decoder" where
  "async_read_uuid s = async_read_exact 16 s"

definition async_read_header :: "object_header async_decoder" where
  "async_read_header s =
     res_bind (async_read_exact 32 s) (\<lambda>(buf, s). res_bind (header_read_from_bytes buf) (\<lambda>h. Ok (h, s)))"

text \<open>\<open>async_fixed_size!\<close>: the whole value at once, then the synchronous parser.\<close>

definition async_fixed_size :: "'a decoder \<Rightarrow> nat \<Rightarrow> 'a async_decoder" where
  "async_fixed_size rd n s =
     res_bind (async_read_exact n s) (\<lambda>(buffer, s). res_bind (read_from_bytes_default rd buffer) (\<lambda>v. Ok (v, s)))"

definition async_map :: "('a \<Rightarrow> 'b) \<Rightarrow> ('a \<times> u8 list, encoding_error) res \<Rightarrow> ('b \<times> u8 list, encoding_error) res" where
  "async_map f r = res_bind r (\<lambda>(v, s). Ok (f v, s))"

definition async_read_value :: "value_type async_decoder" where
  "async_read_value s = res_bind (async_read_exact 1 s) (\<lambda>(byte, s).
     let type_key = byte ! 0 in
     if type_key = 12 then async_map VString (async_read_string s)
     else if type_key = 11 then async_map VBytes (async_read_vec s)
     else if type_key = 10 then
       res_bind (async_read_exact 1 s) (\<lambda>(byte, s).
         if byte ! 0 = 0 then Ok (VBool False, s)
         else if byte ! 0 = 1 then Ok (VBool True, s)
         else Err (InvalidValue ''bool'' (byte ! 0)))
     else if type_key = 0 then async_map VU8 (async_read_num s)
     else if type_key = 1 then async_map VU16 (async_read_num s)
     else if type_key = 2 then async_map VU32 (async_read_num s)
     else if type_key = 3 then async_map VU64 (async_read_num s)
     else if type_key = 4 then async_map VI8 (async_read_num s)
     else if type_key = 5 then async_map VI16 (async_read_num s)
     else if type_key = 6 then async_map VI32 (async_read_num s)
     else if type_key = 7 then async_map VI64 (async_read_num s)
     else if type_key = 8 then async_map VF32 (async_read_num s)
     else if type_key = 9 then async_map VF64 (async_read_num s)
     else if type_key = 13 then async_map VDate (async_fixed_size read_raw_date 4 s)
     else if type_key = 14 then async_map VTime (async_fixed_size read_raw_time 8 s)
     else if type_key = 16 then async_map VRawDateTime (async_fixed_size read_raw_date_time 16 s)
     else if type_key = 17 then async_map VUuid (async_read_uuid s)
     else Err (UnknownTypeKey type_key))"

fun async_read_entries :: "'k async_decoder \<Rightarrow> nat \<Rightarrow> 'k tags \<Rightarrow> 'k tags async_decoder" where
  "async_read_entries rk 0 m s = Ok (m, s)"
| "async_read_entries rk (Suc n) m s =
     res_bind (rk s) (\<lambda>(k, s). res_bind (async_read_value s) (\<lambda>(v, s).
     async_read_entries rk n (AList.update k v m) s))"

definition async_read_tags :: "'k async_decoder \<Rightarrow> 'k tags async_decoder" where
  "async_read_tags rk s = res_bind (async_read_exact 2 s) (\<lambda>(bytes, s).
     async_read_entries rk (unat (from_le_bytes bytes :: u16)) [] s)"

section \<open>When two readers are interchangeable\<close>

text \<open>
  Wherever the synchronous reader stands in its buffer, the asynchronous one gives the same outcome
  on the bytes that are left, the same error included, and both stop at the same place.
\<close>

definition interchangeable :: "'a decoder \<Rightarrow> 'a async_decoder \<Rightarrow> bool" where
  "interchangeable rd ard \<longleftrightarrow> (\<forall>pre rest.
     case ard rest of
       Ok (v, post) \<Rightarrow> \<exists>used. rest = used @ post \<and> rd (cur pre rest) = Ok (v, cur (pre @ used) post)
     | Err e \<Rightarrow> rd (cur pre rest) = Err e
     | Panic \<Rightarrow> rd (cur pre rest) = Panic)"

lemma interchangeableI:
  assumes "\<And>pre rest v post. ard rest = Ok (v, post) \<Longrightarrow> \<exists>used. rest = used @ post \<and> rd (cur pre rest) = Ok (v, cur (pre @ used) post)"
    and "\<And>pre rest e. ard rest = Err e \<Longrightarrow> rd (cur pre rest) = Err e"
    and "\<And>pre rest. ard rest = Panic \<Longrightarrow> rd (cur pre rest) = Panic"
  shows "interchangeable rd ard"
  using assms by (auto simp: interchangeable_def split: res.splits)

lemma interchangeableD:
  assumes "interchangeable rd ard"
  shows "ard rest = Ok (v, post) \<Longrightarrow> \<exists>used. rest = used @ post \<and> rd (cur pre rest) = Ok (v, cur (pre @ used) post)"
    and "ard rest = Err e \<Longrightarrow> rd (cur pre rest) = Err e" and "ard rest = Panic \<Longrightarrow> rd (cur pre rest) = Panic"
  using assms [unfolded interchangeable_def, THEN spec [of _ pre], THEN spec [of _ rest]] by simp_all

lemma interchangeable_exact: "interchangeable (read_exact n) (async_read_exact n)"
proof (rule interchangeableI)
  fix pre rest v post
  assume "async_read_exact n rest = Ok (v, post)"
  then have "n \<le> length rest" "v = take n rest" "post = drop n rest" by (auto simp: async_read_exact_def split: if_splits)
  then show "\<exists>used. rest = used @ post \<and> read_exact n (cur pre rest) = Ok (v, cur (pre @ used) post)"
    by (intro exI [of _ "take n rest"]) (auto simp: read_exact_cur_iff intro: exI [of _ "drop n rest"])
qed (auto simp: async_read_exact_def read_exact_short split: if_splits)

lemma interchangeable_return: "interchangeable (\<lambda>c. Ok (v, c)) (\<lambda>s. Ok (v, s))"
  by (rule interchangeableI) auto

lemma interchangeable_error: "interchangeable (\<lambda>c. Err e) (\<lambda>s. Err e)"
  by (rule interchangeableI) auto

lemma interchangeable_lift: "interchangeable (\<lambda>c. res_bind r (\<lambda>v. Ok (f v, c))) (\<lambda>s. res_bind r (\<lambda>v. Ok (f v, s)))"
  by (cases r) (auto simp: interchangeable_def)

lemma interchangeable_bind:
  assumes "interchangeable rd ard" and "\<And>v. interchangeable (f v) (g v)"
  shows "interchangeable (\<lambda>c. res_bind (rd c) (\<lambda>(v, c). f v c)) (\<lambda>s. res_bind (ard s) (\<lambda>(v, s). g v s))"
proof (rule interchangeableI)
  fix pre rest v post
  assume "res_bind (ard rest) (\<lambda>(v, s). g v s) = Ok (v, post)"
  then obtain x s where x: "ard rest = Ok (x, s)" and v: "g x s = Ok (v, post)" by (auto simp: res_dest)
  from interchangeableD(1) [OF assms(1) x] obtain a where a: "rest = a @ s" "rd (cur pre rest) = Ok (x, cur (pre @ a) s)"
    by blast
  from interchangeableD(1) [OF assms(2) v] obtain b where "s = b @ post" "f x (cur (pre @ a) s) = Ok (v, cur ((pre @ a) @ b) post)"
    by blast
  with a show "\<exists>used. rest = used @ post \<and> res_bind (rd (cur pre rest)) (\<lambda>(v, c). f v c) = Ok (v, cur (pre @ used) post)"
    by (intro exI [of _ "a @ b"]) simp
next
  fix pre rest e
  assume "res_bind (ard rest) (\<lambda>(v, s). g v s) = Err e"
  then consider "ard rest = Err e" | x s where "ard rest = Ok (x, s)" "g x s = Err e"
    by (cases "ard rest") auto
  then show "res_bind (rd (cur pre rest)) (\<lambda>(v, c). f v c) = Err e"
  proof cases
    case 2
    then show ?thesis
      using interchangeableD(1) [OF assms(1) 2(1), of pre] interchangeableD(2) [OF assms(2) 2(2)] by fastforce
  qed (simp add: interchangeableD(2) [OF assms(1)])
next
  fix pre rest
  assume "res_bind (ard rest) (\<lambda>(v, s). g v s) = Panic"
  then consider "ard rest = Panic" | x s where "ard rest = Ok (x, s)" "g x s = Panic"
    by (cases "ard rest") auto
  then show "res_bind (rd (cur pre rest)) (\<lambda>(v, c). f v c) = Panic"
  proof cases
    case 2
    then show ?thesis
      using interchangeableD(1) [OF assms(1) 2(1), of pre] interchangeableD(3) [OF assms(2) 2(2)] by fastforce
  qed (simp add: interchangeableD(3) [OF assms(1)])
qed

lemma interchangeable_cong:
  assumes "interchangeable rd ard" and rd: "\<And>pre rest. rd' (cur pre rest) = rd (cur pre rest)"
    and ard: "\<And>rest. ard' rest = ard rest"
  shows "interchangeable rd' ard'"
  by (rule interchangeableI) (simp_all only: rd ard interchangeableD [OF assms(1)])

lemma interchangeable_map:
  "interchangeable rd ard \<Longrightarrow> interchangeable (\<lambda>c. read_map f (rd c)) (\<lambda>s. async_map f (ard s))"
  unfolding read_map_def async_map_def by (intro interchangeable_bind interchangeable_return)

lemma interchangeable_if:
  "interchangeable rd ard \<Longrightarrow> interchangeable rd' ard' \<Longrightarrow>
   interchangeable (\<lambda>c. if b then rd c else rd' c) (\<lambda>s. if b then ard s else ard' s)"
  by (cases b) simp_all

lemma interchangeable_num: "interchangeable (read_num :: 'a::len word decoder) async_read_num"
  by (rule interchangeable_cong [OF interchangeable_bind [OF interchangeable_exact [of "LENGTH('a) div 8"]
        interchangeable_return [of "from_le_bytes _"]]])
     (simp_all add: read_num_def async_read_num_def)

text \<open>A length prefix is the number of two bytes.\<close>

lemma async_two_bytes:
  "res_bind (async_read_exact 2 s) (\<lambda>(bytes, s). g (from_le_bytes bytes :: u16) s) =
   res_bind (async_read_num s) (\<lambda>(len, s). g len s)"
  by (cases "async_read_exact 2 s") (auto simp: async_read_num_def)

lemma interchangeable_prefixed: "interchangeable read_bytes read_length_prefixed"
  by (rule interchangeable_cong [OF interchangeable_bind [OF interchangeable_num [where 'a = 16]
        interchangeable_exact [of "unat _"]]])
     (simp_all add: read_bytes_def read_length_prefixed_def read_exact_vec_def
        async_two_bytes [where g = "\<lambda>len. async_read_exact (unat len)"])

lemma read_each_u8_short:
  "length rest < n \<Longrightarrow> read_each (read_num :: u8 decoder) n (cur pre rest) = Err (IOError UnexpectedEofKind)"
proof (induction n arbitrary: pre rest)
  case (Suc n)
  show ?case
  proof (cases rest)
    case Nil
    then show ?thesis by (simp add: read_num_def read_exact_short)
  next
    case (Cons b bs)
    have "(read_num (cur pre (b # bs)) :: (u8 \<times> cursor, encoding_error) res) = Ok (b, cur (pre @ [b]) bs)"
      by (simp add: to_le_bytes_byte)
    with Suc Cons show ?thesis by (simp del: read_num_cur_iff)
  qed
qed simp

lemma read_each_exact: "read_each (read_num :: u8 decoder) n (cur pre rest) = read_exact n (cur pre rest)"
  by (cases "n \<le> length rest") (simp_all add: read_each_u8 read_each_u8_short read_exact_short)

lemma read_byte_vec_eq: "read_vec (read_num :: u8 decoder) (cur pre rest) = read_bytes (cur pre rest)"
proof (cases "read_num (cur pre rest) :: (u16 \<times> cursor, encoding_error) res")
  case (Ok r)
  obtain len c where "r = (len, c)" by (cases r)
  with Ok have len: "read_num (cur pre rest) = Ok (len, c)" by simp
  then obtain post where "c = cur (pre @ to_le_bytes len) post" by auto
  with len show ?thesis by (simp add: read_vec_def read_bytes_def read_each_exact del: read_num_cur_iff)
qed (simp_all add: read_vec_def read_bytes_def)

lemma interchangeable_vec: "interchangeable (read_vec (read_num :: u8 decoder)) async_read_vec"
  by (rule interchangeable_cong [OF interchangeable_prefixed]) (simp_all add: read_byte_vec_eq async_read_vec_def)

lemma interchangeable_bytes: "interchangeable read_bytes async_read_bytes"
  by (rule interchangeable_cong [OF interchangeable_prefixed])
     (simp_all add: async_read_bytes_def)

lemma interchangeable_string: "interchangeable read_string async_read_string"
  unfolding read_string_eq [abs_def] async_read_string_def [abs_def]
  by (intro interchangeable_bind interchangeable_prefixed interchangeable_lift)

lemma interchangeable_uuid: "interchangeable read_uuid async_read_uuid"
  unfolding read_uuid_def [abs_def] async_read_uuid_def [abs_def] by (rule interchangeable_exact)

lemma interchangeable_header: "interchangeable read_header async_read_header"
  unfolding read_header_def [abs_def] async_read_header_def [abs_def]
  by (intro interchangeable_bind interchangeable_exact interchangeable_lift)

section \<open>Fixed-size types\<close>

text \<open>
  A reader of exactly \<open>n\<close> bytes: what it returns is a function of them, and it fails only when they
  are not there.
\<close>

definition exactly :: "nat \<Rightarrow> 'a decoder \<Rightarrow> bool" where
  "exactly n rd \<longleftrightarrow> (\<exists>parse. \<forall>pre rest. rd (cur pre rest) =
     (if n \<le> length rest then Ok (parse (take n rest), cur (pre @ take n rest) (drop n rest))
      else Err (IOError UnexpectedEofKind)))"

lemma exactly_num: "8 dvd LENGTH('a::len) \<Longrightarrow> exactly (LENGTH('a) div 8) (read_num :: 'a word decoder)"
  unfolding exactly_def
  by (intro exI [of _ from_le_bytes]) (auto simp: read_num_def read_exact_def cur_def)

lemma exactly_return: "exactly 0 (\<lambda>c. Ok (v, c))"
  unfolding exactly_def by (intro exI [of _ "\<lambda>_. v"]) simp

lemma exactly_bind:
  assumes "exactly n rd" and "\<And>v. exactly m (f v)"
  shows "exactly (n + m) (\<lambda>c. res_bind (rd c) (\<lambda>(v, c). f v c))"
proof -
  from assms(1) obtain p where p: "\<And>pre rest. rd (cur pre rest) =
     (if n \<le> length rest then Ok (p (take n rest), cur (pre @ take n rest) (drop n rest))
      else Err (IOError UnexpectedEofKind))"
    unfolding exactly_def by blast
  from assms(2) obtain q where q: "\<And>v pre rest. f v (cur pre rest) =
     (if m \<le> length rest then Ok (q v (take m rest), cur (pre @ take m rest) (drop m rest))
      else Err (IOError UnexpectedEofKind))"
    unfolding exactly_def by metis
  show ?thesis
    unfolding exactly_def
    by (intro exI [of _ "\<lambda>bs. q (p (take n bs)) (drop n bs)"] allI)
       (auto simp: p q take_add drop_take add.commute [of m n])
qed

lemma interchangeable_fixed:
  assumes "exactly n rd"
  shows "interchangeable rd (async_fixed_size rd n)"
proof -
  from assms obtain p where p: "\<And>pre rest. rd (cur pre rest) =
     (if n \<le> length rest then Ok (p (take n rest), cur (pre @ take n rest) (drop n rest))
      else Err (IOError UnexpectedEofKind))"
    unfolding exactly_def by blast
  show ?thesis
    unfolding interchangeable_def
    by (auto simp: async_fixed_size_def async_read_exact_def read_from_bytes_default_def open_cursor_cur p
        intro: exI [of _ "drop n _"] append_take_drop_id [symmetric])
qed

lemma exactly_then:
  "exactly n rd \<Longrightarrow> (\<And>v. exactly m (f v)) \<Longrightarrow> k = n + m \<Longrightarrow> exactly k (\<lambda>c. res_bind (rd c) (\<lambda>(v, c). f v c))"
  using exactly_bind by blast

lemma exactly_date_and_time: "exactly 4 read_raw_date" "exactly 8 read_raw_time" "exactly 4 read_raw_time_zone"
  unfolding read_raw_date_def [abs_def] read_raw_time_def [abs_def] read_raw_time_zone_def [abs_def]
  by (rule exactly_then exactly_num exactly_return | simp)+

lemma exactly_raw_date_time: "exactly 16 read_raw_date_time"
  unfolding read_raw_date_time_def [abs_def]
  by (rule exactly_then exactly_date_and_time exactly_return | simp)+

lemmas interchangeable_times =
  exactly_date_and_time [THEN interchangeable_fixed] exactly_raw_date_time [THEN interchangeable_fixed]

section \<open>Values and tag blocks\<close>

lemma interchangeable_one_byte:
  assumes "\<And>b. interchangeable (f b) (g [b])"
  shows "interchangeable (\<lambda>c. res_bind (read_num c) (\<lambda>(k :: u8, c). f k c))
           (\<lambda>s. res_bind (async_read_exact 1 s) (\<lambda>(byte, s). g byte s))"
proof (rule interchangeable_cong [OF interchangeable_bind [OF interchangeable_num [where 'a = 8] assms]])
  have byte: "from_le_bytes [b] = b" for b :: u8
    using from_to_le_bytes [of b] by (simp add: to_le_bytes_byte)
  show "res_bind (async_read_exact 1 rest) (\<lambda>(byte, s). g byte s) = res_bind (async_read_num rest) (\<lambda>(v :: u8, s). g [v] s)" for rest
    by (cases rest) (simp_all add: async_read_num_def async_read_exact_def byte)
qed simp

lemma interchangeable_two_bytes:
  assumes "\<And>n. interchangeable (f n) (g (to_le_bytes n))"
  shows "interchangeable (\<lambda>c. res_bind (read_num c) (\<lambda>(n :: u16, c). f n c))
           (\<lambda>s. res_bind (async_read_exact 2 s) (\<lambda>(bytes, s). g bytes s))"
proof (rule interchangeable_cong [OF interchangeable_bind [OF interchangeable_num [where 'a = 16] assms]])
  show "res_bind (async_read_exact 2 rest) (\<lambda>(bytes, s). g bytes s) =
      res_bind (async_read_num rest) (\<lambda>(n :: u16, s). g (to_le_bytes n) s)" for rest
    by (simp add: async_read_num_def async_read_exact_def to_from_le_bytes)
qed simp

lemma interchangeable_bool:
  "interchangeable read_bool (\<lambda>s. res_bind (async_read_exact 1 s) (\<lambda>(byte, s).
     if byte ! 0 = 0 then Ok (False, s) else if byte ! 0 = 1 then Ok (True, s)
     else Err (InvalidValue ''bool'' (byte ! 0))))"
  unfolding read_bool_def [abs_def]
  by (rule interchangeable_cong [OF interchangeable_bind [OF interchangeable_exact [of 1]
        interchangeable_if [OF interchangeable_return interchangeable_if [OF interchangeable_return interchangeable_error]]]])
     simp_all

lemma interchangeable_value: "interchangeable read_value async_read_value"
proof -
  have bool: "interchangeable (\<lambda>c. read_map VBool (read_bool c))
     (\<lambda>s. res_bind (async_read_exact 1 s) (\<lambda>(byte, s).
         if byte ! 0 = 0 then Ok (VBool False, s) else if byte ! 0 = 1 then Ok (VBool True, s)
         else Err (InvalidValue ''bool'' (byte ! 0))))"
    by (rule interchangeable_cong [OF interchangeable_map [OF interchangeable_bool, of VBool]])
       (auto simp: async_map_def intro!: arg_cong2 [of _ _ _ _ res_bind])
  show ?thesis
    unfolding read_value_def [abs_def] async_read_value_def [abs_def] Let_def
    by (rule interchangeable_one_byte, unfold nth_Cons_0)
       (intro interchangeable_if interchangeable_map interchangeable_string interchangeable_vec bool
         interchangeable_num interchangeable_times interchangeable_uuid interchangeable_error)
qed

lemma interchangeable_entries:
  assumes "interchangeable rk ark"
  shows "interchangeable (read_entries rk read_value n m) (async_read_entries ark n m)"
proof (induction n arbitrary: m)
  case 0
  then show ?case by (simp add: interchangeable_def)
next
  case (Suc n)
  then show ?case
    unfolding read_entries.simps [abs_def] async_read_entries.simps [abs_def]
    by (intro interchangeable_bind assms interchangeable_value)
qed

lemma interchangeable_tags:
  assumes "interchangeable rk ark"
  shows "interchangeable (read_tags rk) (async_read_tags ark)"
  unfolding read_tags_def [abs_def] async_read_tags_def [abs_def]
  by (rule interchangeable_two_bytes) (simp add: interchangeable_entries [OF assms])

section \<open>The contract of an asynchronous type\<close>

text \<open>
  A type of the format with an asynchronous reader that is interchangeable with its synchronous one:
  the reader gives back every acceptable value and stops right behind it.
\<close>

locale async_type = wire_type +
  fixes ard
  assumes alike: "interchangeable rd ard"
begin

lemma ard_enc: "ok v \<Longrightarrow> ard (enc v @ post) = Ok (v, post)"
proof -
  assume "ok v"
  from rd_enc [OF this, of "[]" post] have sync: "rd (cur [] (enc v @ post)) = Ok (v, cur (enc v) post)" by simp
  show ?thesis
  proof (cases "ard (enc v @ post)")
    case (Ok r)
    obtain v' post' where r: "r = (v', post')" by (cases r)
    from interchangeableD(1) [OF alike Ok [unfolded r], of "[]"] sync show ?thesis
      using Ok r by (auto simp: cur_def)
  qed (use sync interchangeableD(2,3) [OF alike] in \<open>metis res.distinct\<close>)+
qed

end

interpretation async_string: async_type string_size wire_block read_string string_ok async_read_string
  by unfold_locales (rule interchangeable_string)

interpretation async_vec: async_type "vec_size num_size" wire_block "read_vec (read_num :: u8 decoder)" block_ok async_read_vec
  by unfold_locales (rule interchangeable_vec)

interpretation async_header: async_type header_size wire_header read_header header_ok async_read_header
  by unfold_locales (rule interchangeable_header)

interpretation async_value: async_type value_size wire_value read_value value_ok async_read_value
  by unfold_locales (rule interchangeable_value)

interpretation async_tags: async_type "tags_size string_size" "wire_tags wire_block" "read_tags read_string"
    "tags_ok string_ok" "async_read_tags async_read_string"
  by unfold_locales
     (auto intro!: interchangeable_tags interchangeable_string string_tag.tags_size_wire string_tag.read_tags_wire
        simp: tags_ok_def)

lemma async_writer_wire:
  "wt vec_write v [] = Ok bs \<Longrightarrow> write_to_async_writer wt wr v w = wr bs w"
  by (simp add: write_to_async_writer_def write_to_bytes_def)

section \<open>Properties\<close>

text \<open>C24: The asynchronous readers are interchangeable with the synchronous ones on every input, good
  or bad: for strings, byte blocks, uuids, the header, the date and time types, values and tag blocks,
  both give the same value and stop at the same byte, or both fail with the same error.\<close>

theorem async_readers_agree:
  "interchangeable read_string async_read_string
   \<and> interchangeable (read_vec (read_num :: u8 decoder)) async_read_vec
   \<and> interchangeable read_bytes async_read_bytes \<and> interchangeable read_uuid async_read_uuid
   \<and> interchangeable (read_num :: u64 decoder) async_read_num
   \<and> interchangeable read_header async_read_header
   \<and> interchangeable read_raw_date (async_fixed_size read_raw_date 4)
   \<and> interchangeable read_raw_time (async_fixed_size read_raw_time 8)
   \<and> interchangeable read_raw_time_zone (async_fixed_size read_raw_time_zone 4)
   \<and> interchangeable read_raw_date_time (async_fixed_size read_raw_date_time 16)
   \<and> interchangeable read_value async_read_value
   \<and> interchangeable (read_tags read_string) (async_read_tags async_read_string)"
  by (intro conjI interchangeable_string interchangeable_vec interchangeable_bytes interchangeable_uuid
      interchangeable_num interchangeable_header interchangeable_times interchangeable_value
      interchangeable_tags)

text \<open>A tag map and a header written by the asynchronous writers are the bytes the synchronous
  writers give, appended in one write, and every reader, asynchronous or not, gives them back: the
  tag block behind the header, with what follows left unread.\<close>

theorem async_round_trip:
  assumes "header_ok h" "tags_ok string_ok t"
  shows "\<exists>hb tb. write_to_bytes write_header h = Ok hb \<and> write_to_bytes (write_tags write_string) t = Ok tb
     \<and> res_bind (write_to_async_writer write_header vec_write h w)
         (write_to_async_writer (write_tags write_string) vec_write t) = Ok (w @ hb @ tb)
     \<and> res_bind (async_read_header (hb @ tb @ post)) (\<lambda>(h', s). res_bind (async_read_tags async_read_string s)
         (\<lambda>(t', s). Ok (h', t', s))) = Ok (h, t, post)
     \<and> read_tags read_string (cur hb (tb @ post)) = Ok (t, cur (hb @ tb) post)"
proof -
  have h: "write_to_bytes write_header h = Ok (wire_header h)"
    by (simp add: write_to_bytes_def vec.write_header_wire vec_write_def)
  have t: "write_to_bytes (write_tags write_string) t = Ok (wire_tags wire_block t)"
    using vec.write_tags_wire [of string_ok t write_string wire_block "[]"] assms(2)
    by (simp add: write_to_bytes_def vec_write_def tags_ok_def vec.write_string_wire string_ok_def)
  show ?thesis
    using h t assms
    by (intro exI [of _ "wire_header h"] exI [of _ "wire_tags wire_block t"])
       (simp add: write_to_async_writer_def vec_write_def async_header.ard_enc async_tags.ard_enc string_tag.read_tags_wire)
qed

theorem async_round_trip_witness:
  "\<exists>hb tb. write_to_bytes (write_tags write_string) [([0x61], VBool True)] = Ok tb
     \<and> res_bind (async_read_header (hb @ tb @ [7])) (\<lambda>(h', s). res_bind (async_read_tags async_read_string s)
         (\<lambda>(t', s). Ok (h', t', s))) = Ok (header_default, [([0x61], VBool True)], [7])"
  using async_round_trip [of header_default "[([0x61], VBool True)]" "[]" "[7]"]
  by (auto simp: header_ok_def header_default_def tags_ok_def entries_ok_def string_ok_def)

end
