(* ===== verification/AsyncFiles.thy ===== *)
theory AsyncFiles
  imports Updates
begin

text \<open>
  \<open>src/src/fs/async_io.rs\<close>: the object files for tokio. The asynchronous file operations are
  parameters; everything the module itself does is defined over them. The state is a private state
  of the runtime and the world: writes that were accepted and not yet carried out are in the former.
  \<open>AsyncTuxObject\<close> and \<open>ContentSection\<close> have the fields of the blocking object and reader, whose
  records are used for them; a reader that owns its file and one that borrows it are the same here.
\<close>

section \<open>The operations of tokio\<close>

type_synonym 't runtime = "'t \<times> world"

text \<open>
  \<open>AsyncObjectWriter\<close> has no flag for raw writes.
\<close>

record 'hn async_object_writer =
  aw_file :: nat
  aw_temp_path :: "path option"
  aw_final_path :: path
  aw_layout :: section_layout
  aw_layout_options :: layout_options
  aw_compression :: compression_types
  aw_metadata :: "'hn tags"
  aw_tags :: "u8 list tags"
  aw_content_length :: u64
  aw_sync :: bool

text \<open>
  The last three run code of the module: \<open>read_to_end\<close> and \<open>copy\<close> are given the reader (and the writer
  and its flush) they drive, \<open>spawn_blocking\<close> the outcome of the closure it runs.
\<close>

record ('t, 'hn) tokio =
  tk_open :: "path \<Rightarrow> bool \<Rightarrow> ('t runtime, nat, io_kind) st"
  tk_create_new :: "path \<Rightarrow> ('t runtime, nat, io_kind) st"
  tk_open_dir :: "path \<Rightarrow> ('t runtime, unit, io_kind) st"
  tk_sync_dir :: "('t runtime, unit, io_kind) st"
  tk_seek :: "nat \<Rightarrow> nat \<Rightarrow> ('t runtime, unit, io_kind) st"
  tk_read :: "nat \<Rightarrow> nat \<Rightarrow> ('t runtime, u8 list, io_kind) st"
  tk_read_exact :: "nat \<Rightarrow> nat \<Rightarrow> ('t runtime, u8 list, io_kind) st"
  tk_write :: "nat \<Rightarrow> u8 list \<Rightarrow> ('t runtime, nat, io_kind) st"
  tk_write_all :: "nat \<Rightarrow> u8 list \<Rightarrow> ('t runtime, unit, io_kind) st"
  tk_flush :: "nat \<Rightarrow> ('t runtime, unit, io_kind) st"
  tk_shutdown :: "nat \<Rightarrow> ('t runtime, unit, io_kind) st"
  tk_sync_all :: "nat \<Rightarrow> ('t runtime, unit, io_kind) st"
  tk_file_len :: "nat \<Rightarrow> ('t runtime, nat, io_kind) st"
  tk_try_clone :: "nat \<Rightarrow> ('t runtime, nat, io_kind) st"
  tk_rename :: "path \<Rightarrow> path \<Rightarrow> ('t runtime, unit, io_kind) st"
  tk_remove :: "path \<Rightarrow> ('t runtime, unit, io_kind) st"
  tk_read_to_end :: "(nat \<Rightarrow> (content_reader \<times> 't runtime, u8 list, io_kind) st)
     \<Rightarrow> (content_reader \<times> 't runtime, u8 list, io_kind) st"
  tk_copy :: "(nat \<Rightarrow> (content_reader \<times> 't runtime, u8 list, io_kind) st)
     \<Rightarrow> (u8 list \<Rightarrow> ('hn async_object_writer \<times> 't runtime, nat, io_kind) st)
     \<Rightarrow> ('hn async_object_writer \<times> 't runtime, unit, io_kind) st
     \<Rightarrow> (content_reader \<times> 'hn async_object_writer \<times> 't runtime, nat, io_kind) st"
  tk_spawn_blocking :: "(u8 list, object_file_error) res \<Rightarrow> ('t runtime, (u8 list, object_file_error) res, io_kind) st"

type_synonym ('t, 'hn, 'a) async_method = "('hn tux_object \<times> 't runtime, 'a, object_file_error) st"

section \<open>Opening\<close>

definition async_from_file :: "('t, 'hn) tokio \<Rightarrow> 'hn env \<Rightarrow> nat \<Rightarrow> path \<Rightarrow> bool \<Rightarrow> ('t runtime, 'hn tux_object, object_file_error) st" where
  "async_from_file tk E file p writable =
     st_bind (st_map_err IO (tk_seek tk file 0)) (\<lambda>_.
     st_bind (st_map_err IO (tk_read_exact tk file HEADER_SIZE)) (\<lambda>header_bytes.
     st_bind (st_lift (map_err Encoding (header_read_from_bytes header_bytes))) (\<lambda>header.
     let metadata_space = unat (h_tags_start header) - HEADER_SIZE
     in st_bind
          (if metadata_space = 0 then st_lift (Ok tags_new)
           else st_bind (st_map_err IO (tk_read_exact tk file metadata_space)) (\<lambda>buffer.
                st_lift (decode_with (read_tags (read_metakey (header_names E))) buffer)))
        (\<lambda>metadata. st_lift (Ok \<lparr>ob_file = file, ob_path = p, ob_header = header, ob_metadata = metadata,
            ob_writable = writable\<rparr>)))))"

definition async_open :: "('t, 'hn) tokio \<Rightarrow> 'hn env \<Rightarrow> path \<Rightarrow> ('t runtime, 'hn tux_object, object_file_error) st" where
  "async_open tk E p = st_bind (st_map_err IO (tk_open tk p False)) (\<lambda>file. async_from_file tk E file p False)"

definition async_open_writable :: "('t, 'hn) tokio \<Rightarrow> 'hn env \<Rightarrow> path \<Rightarrow> ('t runtime, 'hn tux_object, object_file_error) st" where
  "async_open_writable tk E p = st_bind (st_map_err IO (tk_open tk p True)) (\<lambda>file. async_from_file tk E file p True)"

definition async_open_optional ::
  "('t, 'hn) tokio \<Rightarrow> 'hn env \<Rightarrow> path \<Rightarrow> ('t runtime, 'hn tux_object option, object_file_error) st" where
  "async_open_optional tk E p s =
     (case async_open tk E p s of
        (Ok ob, s') \<Rightarrow> (Ok (Some ob), s')
      | (Err e, s') \<Rightarrow> if is_not_found e then (Ok None, s') else (Err e, s')
      | (Panic, s') \<Rightarrow> (Panic, s'))"

definition async_content_length :: "'hn tux_object \<Rightarrow> u64" where
  "async_content_length ob = content_length (ob_header ob)"

definition async_is_compressed :: "'hn tux_object \<Rightarrow> bool" where
  "async_is_compressed ob \<longleftrightarrow> compression_type (ob_header ob) \<noteq> NoCompression"

definition async_layout :: "'hn tux_object \<Rightarrow> section_layout" where
  "async_layout ob = \<lparr>tags_start = h_tags_start (ob_header ob), content_start = h_content_start (ob_header ob)\<rparr>"

definition async_file_size :: "('t, 'hn) tokio \<Rightarrow> ('t, 'hn, nat) async_method" where
  "async_file_size tk = with_self (\<lambda>ob. io (tk_file_len tk (ob_file ob)))"

section \<open>Tags\<close>

definition async_read_tag_section :: "('t, 'hn) tokio \<Rightarrow> ('t, 'hn, u8 list option) async_method" where
  "async_read_tag_section tk = with_self (\<lambda>ob.
     st_bind (st_lift (tags_space (async_layout ob))) (\<lambda>space.
     if space = 0 then st_lift (Ok None)
     else st_bind (io (tk_seek tk (ob_file ob) (unat (h_tags_start (ob_header ob))))) (\<lambda>_.
          st_bind (io (tk_read_exact tk (ob_file ob) space)) (\<lambda>buffer.
          st_lift (Ok (Some buffer))))))"

definition async_object_read_tags :: "('t, 'hn) tokio \<Rightarrow> ('t, 'hn, u8 list tags) async_method" where
  "async_object_read_tags tk = st_bind (async_read_tag_section tk) (\<lambda>sec.
     case sec of
       None \<Rightarrow> st_lift (Ok tags_new)
     | Some buffer \<Rightarrow> st_lift (decode_with (read_tags read_string) buffer))"

definition async_tag_count :: "('t, 'hn) tokio \<Rightarrow> ('t, 'hn, u16) async_method" where
  "async_tag_count tk = with_self (\<lambda>ob.
     st_bind (st_lift (tags_space (async_layout ob))) (\<lambda>space.
     if space = 0 then st_lift (Ok 0)
     else st_bind (io (tk_seek tk (ob_file ob) (unat (h_tags_start (ob_header ob))))) (\<lambda>_.
          st_bind (io (tk_read_exact tk (ob_file ob) 2)) (\<lambda>buffer.
          st_lift (Ok (from_le_bytes buffer))))))"

definition async_find_tag :: "('t, 'hn) tokio \<Rightarrow> u8 list \<Rightarrow> ('t, 'hn, value_type option) async_method" where
  "async_find_tag tk key = st_bind (async_read_tag_section tk) (\<lambda>sec.
     case sec of
       None \<Rightarrow> st_lift (Ok None)
     | Some buffer \<Rightarrow> st_lift (decode_with (find_from_reader read_string key) buffer))"

section \<open>Content\<close>

text \<open>\<open>ContentSection::poll_read\<close>, with a buffer that has room for \<open>n\<close> bytes.\<close>

definition async_content_read :: "('t, 'hn) tokio \<Rightarrow> nat \<Rightarrow> (content_reader \<times> 't runtime, u8 list, io_kind) st" where
  "async_content_read tk n = with_self (\<lambda>r.
     if remaining r = 0 then st_lift (Ok [])
     else st_bind (on_world (tk_read tk (cr_file r) (min (unat (remaining r)) n))) (\<lambda>bs.
          st_bind (put_self (r\<lparr>remaining := remaining r - of_nat (length bs)\<rparr>)) (\<lambda>_.
          st_lift (Ok bs))))"

definition content_section_is_empty :: "content_reader \<Rightarrow> bool" where
  "content_section_is_empty r \<longleftrightarrow> remaining r = 0"

definition seek_to_content_start :: "('t, 'hn) tokio \<Rightarrow> ('t, 'hn, u64) async_method" where
  "seek_to_content_start tk = with_self (\<lambda>ob.
     st_bind (io (tk_seek tk (ob_file ob) (unat (h_content_start (ob_header ob))))) (\<lambda>_.
     st_lift (Ok (content_length (ob_header ob)))))"

definition seek_within_content :: "('t, 'hn) tokio \<Rightarrow> u64 \<Rightarrow> u64 option \<Rightarrow> ('t, 'hn, u64) async_method" where
  "seek_within_content tk offset len = with_self (\<lambda>ob.
     if async_is_compressed ob then st_lift (Err RangedReadOnCompressed)
     else let cl = content_length (ob_header ob)
          in if offset > cl then st_lift (Err (RangeOutOfBounds offset offset cl))
             else let available = cl - offset; n = (case len of Some n \<Rightarrow> n | None \<Rightarrow> available)
                  in if n > available
                     then st_lift (Err (RangeOutOfBounds offset (u64_saturating_add offset n) cl))
                     else if unat (h_content_start (ob_header ob)) + unat offset \<ge> 2 ^ 64
                     then st_lift Panic
                     else st_bind (io (tk_seek tk (ob_file ob)
                              (unat (h_content_start (ob_header ob)) + unat offset))) (\<lambda>_.
                          st_lift (Ok n)))"

definition async_stored_content_reader :: "('t, 'hn) tokio \<Rightarrow> ('t, 'hn, content_reader) async_method" where
  "async_stored_content_reader tk = st_bind (seek_to_content_start tk) (\<lambda>n.
     with_self (\<lambda>ob. st_lift (Ok \<lparr>cr_file = ob_file ob, remaining = n\<rparr>)))"

definition async_content_range_reader :: "('t, 'hn) tokio \<Rightarrow> u64 \<Rightarrow> u64 option \<Rightarrow> ('t, 'hn, content_reader) async_method" where
  "async_content_range_reader tk offset len = st_bind (seek_within_content tk offset len) (\<lambda>n.
     with_self (\<lambda>ob. st_lift (Ok \<lparr>cr_file = ob_file ob, remaining = n\<rparr>)))"

text \<open>The readers that take the file with them consume the object.\<close>

definition into_content_reader ::
  "('t, 'hn) tokio \<Rightarrow> 'hn tux_object \<Rightarrow> ('t runtime, content_reader, object_file_error) st" where
  "into_content_reader tk ob s = (case seek_to_content_start tk (ob, s) of
     (r, (ob, s)) \<Rightarrow> (res_bind r (\<lambda>n. Ok \<lparr>cr_file = ob_file ob, remaining = n\<rparr>), s))"

definition into_content_range_reader ::
  "('t, 'hn) tokio \<Rightarrow> u64 \<Rightarrow> u64 option \<Rightarrow> 'hn tux_object \<Rightarrow> ('t runtime, content_reader, object_file_error) st" where
  "into_content_range_reader tk offset len ob s = (case seek_within_content tk offset len (ob, s) of
     (r, (ob, s)) \<Rightarrow> (res_bind r (\<lambda>n. Ok \<lparr>cr_file = ob_file ob, remaining = n\<rparr>), s))"

definition decode_closure :: "'hn env \<Rightarrow> u8 list \<Rightarrow> compression_types \<Rightarrow> (u8 list, object_file_error) res" where
  "decode_closure E stored ct =
     (case ct of
        NoCompression \<Rightarrow> Ok stored
      | ZSTD _ \<Rightarrow> (case zstd_codec E of
            Some cd \<Rightarrow> map_err IO (cd_decode cd stored)
          | None \<Rightarrow> Err (UnsupportedCompression ct))
      | Gzip _ \<Rightarrow> (case gzip_codec E of
            Some cd \<Rightarrow> map_err IO (cd_decode cd stored)
          | None \<Rightarrow> Err (UnsupportedCompression ct)))"

definition decode_blocking ::
  "('t, 'hn) tokio \<Rightarrow> 'hn env \<Rightarrow> u8 list \<Rightarrow> compression_types \<Rightarrow> ('t runtime, u8 list, object_file_error) st" where
  "decode_blocking tk E stored ct =
     st_bind (st_lift (ensure_supported E ct)) (\<lambda>_.
     st_bind (st_map_err IO (tk_spawn_blocking tk (decode_closure E stored ct))) st_lift)"

definition async_read_content_to_vec :: "('t, 'hn) tokio \<Rightarrow> 'hn env \<Rightarrow> ('t, 'hn, u8 list) async_method" where
  "async_read_content_to_vec tk E = with_self (\<lambda>ob.
     if unat (content_length (ob_header ob)) > max_offset then st_lift Panic
     else st_bind (async_stored_content_reader tk) (\<lambda>reader.
          st_bind (io (with_reader reader (tk_read_to_end tk (async_content_read tk)))) (\<lambda>stored.
          case compression_type (ob_header ob) of
            NoCompression \<Rightarrow> st_lift (Ok stored)
          | other \<Rightarrow> on_world (decode_blocking tk E stored other))))"

section \<open>The writer\<close>

type_synonym ('t, 'hn, 'a, 'e) async_writer_method = "('hn async_object_writer \<times> 't runtime, 'a, 'e) st"

fun async_temp_file_loop ::
  "('t, 'hn) tokio \<Rightarrow> 'hn env \<Rightarrow> path \<Rightarrow> nat \<Rightarrow> ('t runtime, nat \<times> path, object_file_error) st" where
  "async_temp_file_loop tk E final 0 = st_lift (Err (IO AlreadyExists))"
| "async_temp_file_loop tk E final (Suc n) =
     st_bind (on_world next_temp_counter) (\<lambda>counter.
       let candidate = temp_candidate E final counter
       in (\<lambda>s. case tk_create_new tk candidate s of
             (Ok file, s') \<Rightarrow> (Ok (file, candidate), s')
           | (Err k, s') \<Rightarrow> if k = AlreadyExists then async_temp_file_loop tk E final n s' else (Err (IO k), s')
           | (Panic, s') \<Rightarrow> (Panic, s')))"

definition async_create_temp_file ::
  "('t, 'hn) tokio \<Rightarrow> 'hn env \<Rightarrow> path \<Rightarrow> ('t runtime, nat \<times> path, object_file_error) st" where
  "async_create_temp_file tk E final = async_temp_file_loop tk E final 32"

text \<open>\<open>Drop\<close>: the removal is synchronous.\<close>

definition async_drop_writer :: "'hn env \<Rightarrow> 'hn async_object_writer \<Rightarrow> 't runtime \<Rightarrow> 't runtime" where
  "async_drop_writer E aw s =
     (case aw_temp_path aw of Some temp \<Rightarrow> snd (on_world (sys_remove E temp) s) | None \<Rightarrow> s)"

definition async_create_writer ::
  "('t, 'hn) tokio \<Rightarrow> 'hn env \<Rightarrow> path \<Rightarrow> 'hn create_options \<Rightarrow> ('t runtime, 'hn async_object_writer, object_file_error) st" where
  "async_create_writer tk E p opts =
     st_bind (st_lift (ensure_supported E (co_compression opts))) (\<lambda>_.
     if co_compression opts \<noteq> NoCompression then st_lift (Err (UnsupportedCompression (co_compression opts)))
     else st_bind (st_lift (compute (co_layout opts) (metadata_size E (co_metadata opts))
                         (tag_block_size (co_tags opts)))) (\<lambda>l.
     st_bind (async_create_temp_file tk E p) (\<lambda>(file, temp).
       let writer = \<lparr>aw_file = file, aw_temp_path = Some temp, aw_final_path = p, aw_layout = l,
             aw_layout_options = co_layout opts, aw_compression = co_compression opts,
             aw_metadata = co_metadata opts, aw_tags = co_tags opts, aw_content_length = 0,
             aw_sync = co_sync opts\<rparr>
       in (\<lambda>s. case tk_seek tk file (unat (content_start l)) s of
             (Ok _, s') \<Rightarrow> (Ok writer, s')
           | (Err k, s') \<Rightarrow> (Err (IO k), async_drop_writer E writer s')
           | (Panic, s') \<Rightarrow> (Panic, async_drop_writer E writer s')))))"

definition async_set_metadata_mut :: "('hn tags \<Rightarrow> 'hn tags) \<Rightarrow> 'hn async_object_writer \<Rightarrow> 'hn async_object_writer" where
  "async_set_metadata_mut f aw = aw\<lparr>aw_metadata := f (aw_metadata aw)\<rparr>"

definition async_set_tags_mut :: "(u8 list tags \<Rightarrow> u8 list tags) \<Rightarrow> 'hn async_object_writer \<Rightarrow> 'hn async_object_writer" where
  "async_set_tags_mut f aw = aw\<lparr>aw_tags := f (aw_tags aw)\<rparr>"

text \<open>\<open>poll_write\<close>, \<open>poll_flush\<close> and \<open>poll_shutdown\<close>.\<close>

definition async_writer_write :: "('t, 'hn) tokio \<Rightarrow> u8 list \<Rightarrow> ('t, 'hn, nat, io_kind) async_writer_method" where
  "async_writer_write tk buf = with_self (\<lambda>aw.
     st_bind (on_world (tk_write tk (aw_file aw) buf)) (\<lambda>written.
     if unat (aw_content_length aw) + written \<ge> 2 ^ 64 then st_lift Panic
     else st_bind (put_self (aw\<lparr>aw_content_length := aw_content_length aw + of_nat written\<rparr>)) (\<lambda>_.
          st_lift (Ok written))))"

definition async_writer_flush :: "('t, 'hn) tokio \<Rightarrow> ('t, 'hn, unit, io_kind) async_writer_method" where
  "async_writer_flush tk = with_self (\<lambda>aw. on_world (tk_flush tk (aw_file aw)))"

definition async_writer_shutdown :: "('t, 'hn) tokio \<Rightarrow> ('t, 'hn, unit, io_kind) async_writer_method" where
  "async_writer_shutdown tk = with_self (\<lambda>aw. on_world (tk_shutdown tk (aw_file aw)))"

definition async_sync_parent :: "('t, 'hn) tokio \<Rightarrow> path \<Rightarrow> ('t runtime, unit, 'e) st" where
  "async_sync_parent tk p s =
     (if p = [] then (Ok (), s)
      else (case tk_open_dir tk (butlast p) s of
              (Ok _, s') \<Rightarrow> (Ok (), snd (tk_sync_dir tk s'))
            | (_, s') \<Rightarrow> (Ok (), s')))"

definition async_publish :: "('t, 'hn) tokio \<Rightarrow> ('t, 'hn, unit, object_file_error) async_writer_method" where
  "async_publish tk = with_self (\<lambda>aw.
     case aw_temp_path aw of
       None \<Rightarrow> st_lift (Ok ())
     | Some temp \<Rightarrow>
         st_bind (put_self (aw\<lparr>aw_temp_path := None\<rparr>)) (\<lambda>_.
         st_bind (io (tk_rename tk temp (aw_final_path aw))) (\<lambda>_.
         if aw_sync aw then on_world (async_sync_parent tk (aw_final_path aw)) else st_lift (Ok ()))))"

text \<open>A method that consumes the writer drops it on the way out.\<close>

definition async_consume ::
  "'hn env \<Rightarrow> ('t, 'hn, 'a, 'e) async_writer_method \<Rightarrow> 'hn async_object_writer \<Rightarrow> ('t runtime, 'a, 'e) st" where
  "async_consume E m aw s = (case m (aw, s) of (r, (aw', s')) \<Rightarrow> (r, async_drop_writer E aw' s'))"

definition async_finish_in_place ::
  "('t, 'hn) tokio \<Rightarrow> 'hn env \<Rightarrow> section_layout \<Rightarrow> ('t, 'hn, 'hn tux_object, object_file_error) async_writer_method" where
  "async_finish_in_place tk E l = with_self (\<lambda>aw0.
     let aw = aw0\<lparr>aw_layout := l\<rparr>; file = aw_file aw;
         header = \<lparr>version = 0, compression_type = aw_compression aw, h_tags_start = tags_start l,
           h_content_start = content_start l, content_length = aw_content_length aw, bit_flags = 0\<rparr>
     in st_bind (put_self aw) (\<lambda>_.
        st_bind (st_lift (encode_prefix E header (aw_metadata aw) (aw_tags aw) l)) (\<lambda>prefix.
        st_bind (io (tk_flush tk file)) (\<lambda>_.
        st_bind (io (tk_seek tk file 0)) (\<lambda>_.
        st_bind (io (tk_write_all tk file prefix)) (\<lambda>_.
        st_bind (io (tk_flush tk file)) (\<lambda>_.
        st_bind (if aw_sync aw then io (tk_sync_all tk file) else st_lift (Ok ())) (\<lambda>_.
        st_bind (async_publish tk) (\<lambda>_.
        st_bind (io (tk_try_clone tk file)) (\<lambda>clone.
        st_lift (Ok \<lparr>ob_file = clone, ob_path = aw_final_path aw, ob_header = header,
            ob_metadata = aw_metadata aw, ob_writable = True\<rparr>)))))))))))"

definition async_abort :: "('t, 'hn) tokio \<Rightarrow> 'hn env \<Rightarrow> 'hn async_object_writer \<Rightarrow> ('t runtime, unit, object_file_error) st" where
  "async_abort tk E = async_consume E (with_self (\<lambda>aw.
     case aw_temp_path aw of
       None \<Rightarrow> st_lift (Ok ())
     | Some temp \<Rightarrow>
         st_bind (put_self (aw\<lparr>aw_temp_path := None\<rparr>)) (\<lambda>_.
         on_world (\<lambda>s. case tk_remove tk temp s of
             (Ok _, s') \<Rightarrow> (Ok (), s')
           | (Err k, s') \<Rightarrow> if k = NotFound then (Ok (), s') else (Err (IO k), s')
           | (Panic, s') \<Rightarrow> (Panic, s')))))"

definition async_rewrite_options :: "'hn async_object_writer \<Rightarrow> 'hn create_options" where
  "async_rewrite_options aw =
     \<lparr>co_metadata = aw_metadata aw, co_tags = aw_tags aw,
      co_layout = (aw_layout_options aw)\<lparr>
        metadata_reserve := max (metadata_reserve (aw_layout_options aw)) 256,
        tag_reserve := max (tag_reserve (aw_layout_options aw)) 256\<rparr>,
      co_compression = aw_compression aw, co_sync = aw_sync aw\<rparr>"

definition async_finish_layout :: "'hn env \<Rightarrow> 'hn async_object_writer \<Rightarrow> (section_layout option, object_file_error) res" where
  "async_finish_layout E aw =
     repartition (content_start (aw_layout aw)) (metadata_size E (aw_metadata aw))
       (tag_block_size (aw_tags aw)) (alignment (aw_layout_options aw))"

text \<open>\<open>finish_by_rewriting\<close> up to the copied content; an error drops the replacement.\<close>

definition async_start_rewrite ::
  "('t, 'hn) tokio \<Rightarrow> 'hn env \<Rightarrow> 'hn async_object_writer \<Rightarrow> ('t runtime, 'hn async_object_writer, object_file_error) st" where
  "async_start_rewrite tk E aw =
     st_bind (async_create_writer tk E (aw_final_path aw) (async_rewrite_options aw)) (\<lambda>replacement s.
       case st_bind (tk_flush tk (aw_file aw)) (\<lambda>_.
              tk_seek tk (aw_file aw) (unat (content_start (aw_layout aw)))) s of
         (Err k, s') \<Rightarrow> (Err (IO k), async_drop_writer E replacement s')
       | (Panic, s') \<Rightarrow> (Panic, async_drop_writer E replacement s')
       | (Ok _, s') \<Rightarrow>
           (case tk_copy tk (async_content_read tk) (async_writer_write tk) (async_writer_flush tk)
                   (\<lparr>cr_file = aw_file aw, remaining = aw_content_length aw\<rparr>, replacement, s') of
              (Ok _, (_, replacement', s'')) \<Rightarrow> (Ok replacement', s'')
            | (Err k, (_, replacement', s'')) \<Rightarrow> (Err (IO k), async_drop_writer E replacement' s'')
            | (Panic, (_, replacement', s'')) \<Rightarrow> (Panic, async_drop_writer E replacement' s'')))"

text \<open>
  \<open>finish\<close> and \<open>finish_by_rewriting\<close> call each other. What \<open>tk_copy\<close> does to the replacement is not
  known, so the depth of the calls is bounded by fuel, of which two are enough if it copies.
\<close>

fun async_finish ::
  "nat \<Rightarrow> ('t, 'hn) tokio \<Rightarrow> 'hn env \<Rightarrow> 'hn async_object_writer \<Rightarrow> 't runtime
     \<Rightarrow> (('hn tux_object, object_file_error) res \<times> 't runtime) option" where
  "async_finish 0 tk E aw s = None"
| "async_finish (Suc n) tk E aw s =
     (case async_finish_layout E aw of
        Ok (Some l) \<Rightarrow> Some (async_consume E (async_finish_in_place tk E l) aw s)
      | Ok None \<Rightarrow>
          (let taken = aw\<lparr>aw_metadata := tags_new, aw_tags := tags_new\<rparr>
           in case async_start_rewrite tk E aw s of
             (Ok replacement, s') \<Rightarrow>
               (case async_finish n tk E replacement s' of
                  None \<Rightarrow> None
                | Some (Ok ob, s'') \<Rightarrow> Some (Ok ob, snd (async_abort tk E taken s''))
                | Some (r, s'') \<Rightarrow> Some (r, async_drop_writer E taken s''))
           | (Err e, s') \<Rightarrow> Some (Err e, async_drop_writer E taken s')
           | (Panic, s') \<Rightarrow> Some (Panic, async_drop_writer E taken s'))
      | Err e \<Rightarrow> Some (Err e, async_drop_writer E aw s)
      | Panic \<Rightarrow> Some (Panic, async_drop_writer E aw s))"

section \<open>Updates\<close>

definition async_ensure_writable :: "'hn tux_object \<Rightarrow> (unit, object_file_error) res" where
  "async_ensure_writable ob = (if ob_writable ob then Ok () else Err (ReadOnly (ob_path ob)))"

definition async_set_sections_in_place ::
  "('t, 'hn) tokio \<Rightarrow> 'hn env \<Rightarrow> 'hn tags \<Rightarrow> u8 list tags \<Rightarrow> ('t, 'hn, unit) async_method" where
  "async_set_sections_in_place tk E metadata t = with_self (\<lambda>ob.
     st_bind (st_lift (async_ensure_writable ob)) (\<lambda>_.
     let ms = metadata_size E metadata; ts = tag_block_size t
     in st_bind (st_lift (repartition (h_content_start (ob_header ob)) ms ts DEFAULT_ALIGNMENT)) (\<lambda>fit.
        case fit of
          None \<Rightarrow> st_lift (Err (ReservedSpaceExceeded (HEADER_SIZE + ms + ts)
                                    (unat (h_content_start (ob_header ob)))))
        | Some l \<Rightarrow>
            let header = (ob_header ob)\<lparr>h_tags_start := tags_start l, h_content_start := content_start l\<rparr>
            in st_bind (st_lift (encode_prefix E header metadata t l)) (\<lambda>prefix.
               st_bind (io (tk_seek tk (ob_file ob) 0)) (\<lambda>_.
               st_bind (io (tk_write_all tk (ob_file ob) prefix)) (\<lambda>_.
               st_bind (io (tk_flush tk (ob_file ob))) (\<lambda>_.
               put_self (ob\<lparr>ob_header := header, ob_metadata := metadata\<rparr>))))))))"

definition async_update_options :: "'hn tux_object \<Rightarrow> 'hn tags \<Rightarrow> u8 list tags \<Rightarrow> 'hn create_options" where
  "async_update_options ob metadata t =
     \<lparr>co_metadata = metadata, co_tags = t,
      co_layout = layout_default\<lparr>min_content_start := h_content_start (ob_header ob)\<rparr>,
      co_compression = compression_type (ob_header ob), co_sync = True\<rparr>"

definition async_rewrite ::
  "nat \<Rightarrow> ('t, 'hn) tokio \<Rightarrow> 'hn env \<Rightarrow> 'hn tags \<Rightarrow> u8 list tags \<Rightarrow> 'hn tux_object \<times> 't runtime
     \<Rightarrow> ((unit, object_file_error) res \<times> 'hn tux_object \<times> 't runtime) option" where
  "async_rewrite fuel tk E metadata t = (\<lambda>(ob, s).
     case async_ensure_writable ob of
       Err e \<Rightarrow> Some (Err e, ob, s)
     | Panic \<Rightarrow> Some (Panic, ob, s)
     | Ok _ \<Rightarrow>
         (case async_create_writer tk E (ob_path ob) (async_update_options ob metadata t) s of
            (Err e, s) \<Rightarrow> Some (Err e, ob, s)
          | (Panic, s) \<Rightarrow> Some (Panic, ob, s)
          | (Ok writer, s) \<Rightarrow>
              (case async_stored_content_reader tk (ob, s) of
                 (Err e, (ob, s)) \<Rightarrow> Some (Err e, ob, async_drop_writer E writer s)
               | (Panic, (ob, s)) \<Rightarrow> Some (Panic, ob, async_drop_writer E writer s)
               | (Ok reader, (ob, s)) \<Rightarrow>
                   (case tk_copy tk (async_content_read tk) (async_writer_write tk) (async_writer_flush tk)
                           (reader, writer, s) of
                      (Err k, (_, writer, s)) \<Rightarrow> Some (Err (IO k), ob, async_drop_writer E writer s)
                    | (Panic, (_, writer, s)) \<Rightarrow> Some (Panic, ob, async_drop_writer E writer s)
                    | (Ok _, (_, writer, s)) \<Rightarrow>
                        (case async_finish fuel tk E writer s of
                           None \<Rightarrow> None
                         | Some (Ok replacement, s) \<Rightarrow> Some (Ok (), replacement, s)
                         | Some (Err e, s) \<Rightarrow> Some (Err e, ob, s)
                         | Some (Panic, s) \<Rightarrow> Some (Panic, ob, s))))))"

definition async_set_metadata ::
  "nat \<Rightarrow> ('t, 'hn) tokio \<Rightarrow> 'hn env \<Rightarrow> 'hn tags \<Rightarrow> 'hn tux_object \<times> 't runtime
     \<Rightarrow> ((unit, object_file_error) res \<times> 'hn tux_object \<times> 't runtime) option" where
  "async_set_metadata fuel tk E metadata obs =
     (case async_object_read_tags tk obs of
        (Ok t, obs) \<Rightarrow> async_rewrite fuel tk E metadata t obs
      | (Err e, obs) \<Rightarrow> Some (Err e, obs)
      | (Panic, obs) \<Rightarrow> Some (Panic, obs))"

definition async_set_tags ::
  "nat \<Rightarrow> ('t, 'hn) tokio \<Rightarrow> 'hn env \<Rightarrow> u8 list tags \<Rightarrow> 'hn tux_object \<times> 't runtime
     \<Rightarrow> ((unit, object_file_error) res \<times> 'hn tux_object \<times> 't runtime) option" where
  "async_set_tags fuel tk E t obs = async_rewrite fuel tk E (ob_metadata (fst obs)) t obs"

definition async_set_sections ::
  "nat \<Rightarrow> ('t, 'hn) tokio \<Rightarrow> 'hn env \<Rightarrow> 'hn tags \<Rightarrow> u8 list tags \<Rightarrow> 'hn tux_object \<times> 't runtime
     \<Rightarrow> ((unit, object_file_error) res \<times> 'hn tux_object \<times> 't runtime) option" where
  "async_set_sections fuel tk E metadata t obs = async_rewrite fuel tk E metadata t obs"

end
