(* ===== verification/AsyncAgreement.thy ===== *)
theory AsyncAgreement
  imports AsyncFiles
begin

text \<open>
  The asynchronous object files do what the blocking ones do. A simulation relates a run on the state
  of the runtime to the run of the blocking code on the world that state settles to; the operations
  of the module preserve it, one by one, because the operations of tokio do.
\<close>

section \<open>Simulation\<close>

definition sim :: "('s \<Rightarrow> 'w) \<Rightarrow> ('s, 'a, 'e) st \<Rightarrow> ('w, 'a, 'e) st \<Rightarrow> bool" where
  "sim f m m' \<longleftrightarrow> (\<forall>s. m' (f s) = map_prod id f (m s))"

named_theorems sim_intro \<open>composition of simulations\<close>

lemma simD: "sim f m m' \<Longrightarrow> m s = (r, s') \<Longrightarrow> m' (f s) = (r, f s')"
  by (simp add: sim_def)

lemma simI: "(\<And>s r s'. m s = (r, s') \<Longrightarrow> m' (f s) = (r, f s')) \<Longrightarrow> sim f m m'"
  unfolding sim_def by (metis map_prod_simp id_apply surj_pair)

lemma sim_lift [sim_intro]: "sim f (st_lift r) (st_lift r)"
  by (simp add: sim_def st_lift_def)

lemma sim_bind [sim_intro]:
  assumes "sim f m m'" and "\<And>a. sim f (k a) (k' a)"
  shows "sim f (st_bind m k) (st_bind m' k')"
proof (rule simI)
  fix s r s'
  assume run: "st_bind m k s = (r, s')"
  obtain a s1 where m: "m s = (a, s1)" by (metis surj_pair)
  from simD [OF assms(1) m] run simD [OF assms(2)] show "st_bind m' k' (f s) = (r, f s')"
    by (cases a) (auto simp: st_bind_def m)
qed

lemma sim_map_err [sim_intro]: "sim f m m' \<Longrightarrow> sim f (st_map_err h m) (st_map_err h m')"
  by (auto simp: sim_def st_map_err_def split: prod.splits)

lemma sim_on_world [sim_intro]: "sim f m m' \<Longrightarrow> sim (map_prod g f) (on_world m) (on_world m')"
  by (auto simp: sim_def on_world_def split: prod.splits)

lemma sim_io [sim_intro]: "sim f m m' \<Longrightarrow> sim (map_prod g f) (io m) (io m')"
  unfolding io_def by (intro sim_intro)

lemma sim_with_self [sim_intro]:
  "(\<And>ob. sim (map_prod g f) (m ob) (m' (g ob))) \<Longrightarrow> sim (map_prod g f) (with_self m) (with_self m')"
  by (auto simp: sim_def with_self_def)

lemma sim_put_self [sim_intro]: "b = g a \<Longrightarrow> sim (map_prod g f) (put_self a) (put_self b)"
  by (simp add: sim_def put_self_def)

lemma sim_if [sim_intro]: "(b \<Longrightarrow> sim f m m') \<Longrightarrow> (\<not> b \<Longrightarrow> sim f n n') \<Longrightarrow> sim f (if b then m else n) (if b then m' else n')"
  by simp

lemma sim_option [sim_intro]:
  "sim f m m' \<Longrightarrow> (\<And>x. sim f (n x) (n' x)) \<Longrightarrow>
   sim f (case v of None \<Rightarrow> m | Some x \<Rightarrow> n x) (case v of None \<Rightarrow> m' | Some x \<Rightarrow> n' x)"
  by (cases v) simp_all

lemma sim_cong: "sim f m m' \<Longrightarrow> (\<And>s. n s = m s) \<Longrightarrow> (\<And>s. n' s = m' s) \<Longrightarrow> sim f n n'"
  by (simp add: sim_def)

section \<open>What the module relies on\<close>

definition as_writer :: "'hn async_object_writer \<Rightarrow> 'hn object_writer" where
  "as_writer aw = \<lparr>wr_file = aw_file aw, wr_temp_path = aw_temp_path aw, wr_final_path = aw_final_path aw,
     wr_layout = aw_layout aw, wr_layout_options = aw_layout_options aw, wr_compression = aw_compression aw,
     wr_metadata = aw_metadata aw, wr_tags = aw_tags aw, wr_content_length = aw_content_length aw,
     wr_sync = aw_sync aw, wr_allow_raw_writes = True\<rparr>"

text \<open>
  From the documentation of tokio: its file operations run those of the standard library, an
  accepted write being carried out before a later operation on the file returns; \<open>read_to_end\<close> and
  \<open>copy\<close> over streams do what the standard ones do over their blocking counterparts; a blocking task
  returns what its closure returns, or an error when it panics. \<open>settle\<close> is the world once every
  accepted write has been carried out. Since tokio may report a write that fails only later, this is
  asked for only where no call fails.
\<close>

definition awaits_std :: "'hn env \<Rightarrow> ('t, 'hn) tokio \<Rightarrow> ('t runtime \<Rightarrow> world) \<Rightarrow> bool" where
  "awaits_std E tk settle \<longleftrightarrow>
     (\<forall>p b. sim settle (tk_open tk p b) (sys_open E p b)) \<and>
     (\<forall>p. sim settle (tk_create_new tk p) (sys_create_new E p)) \<and>
     (\<forall>p. sim settle (tk_open_dir tk p) (sys_open_dir E p)) \<and>
     sim settle (tk_sync_dir tk) (sys_sync_all E 0) \<and>
     (\<forall>fd n. sim settle (tk_seek tk fd n) (sys_seek E fd n)) \<and>
     (\<forall>fd n. sim settle (tk_read tk fd n) (sys_read E fd n)) \<and>
     (\<forall>fd n. sim settle (tk_read_exact tk fd n) (file_read_exact E fd n)) \<and>
     (\<forall>fd bs. sim settle (tk_write tk fd bs) (sys_write E fd bs)) \<and>
     (\<forall>fd bs. sim settle (tk_write_all tk fd bs) (file_write_all E fd bs)) \<and>
     (\<forall>fd. sim settle (tk_flush tk fd) (file_flush fd)) \<and>
     (\<forall>fd. sim settle (tk_shutdown tk fd) (file_flush fd)) \<and>
     (\<forall>fd. sim settle (tk_sync_all tk fd) (sys_sync_all E fd)) \<and>
     (\<forall>fd. sim settle (tk_file_len tk fd) (sys_file_len E fd)) \<and>
     (\<forall>fd. sim settle (tk_try_clone tk fd) (sys_try_clone E fd)) \<and>
     (\<forall>p q. sim settle (tk_rename tk p q) (sys_rename E p q)) \<and>
     (\<forall>p. sim settle (tk_remove tk p) (sys_remove E p)) \<and>
     (\<forall>rd. (\<forall>n > 0. sim (map_prod id settle) (rd n) (content_read E n)) \<longrightarrow>
        sim (map_prod id settle) (tk_read_to_end tk rd) (content_read_to_end E)) \<and>
     (\<forall>rd wr fl. (\<forall>n > 0. sim (map_prod id settle) (rd n) (content_read E n)) \<longrightarrow>
        (\<forall>bs. sim (map_prod as_writer settle) (wr bs) (writer_write E bs)) \<longrightarrow>
        sim (map_prod as_writer settle) fl writer_flush \<longrightarrow>
        sim (map_prod id (map_prod as_writer settle)) (tk_copy tk rd wr fl) (copy_content E 0)) \<and>
     (\<forall>c. sim settle (tk_spawn_blocking tk c) (st_lift (if c = Panic then Err OtherKind else Ok c))) \<and>
     sim settle (on_world next_temp_counter) (next_temp_counter :: (world, u64, object_file_error) st) \<and>
     (\<forall>p. sim settle (on_world (sys_remove E p)) (sys_remove E p))"

definition tokio_ok :: "'hn env \<Rightarrow> ('t, 'hn) tokio \<Rightarrow> ('t runtime \<Rightarrow> world) \<Rightarrow> bool" where
  "tokio_ok E tk settle \<longleftrightarrow> (reliable E \<longrightarrow> awaits_std E tk settle)"

locale tokio_files =
  fixes E :: "'hn env" and tk :: "('t, 'hn) tokio" and settle :: "'t runtime \<Rightarrow> world"
  assumes std: "awaits_std E tk settle"
begin

lemma calls [sim_intro]:
  "sim settle (tk_open tk p b) (sys_open E p b)" "sim settle (tk_create_new tk p) (sys_create_new E p)"
  "sim settle (tk_open_dir tk p) (sys_open_dir E p)" "sim settle (tk_sync_dir tk) (sys_sync_all E 0)"
  "sim settle (tk_seek tk fd n) (sys_seek E fd n)" "sim settle (tk_read tk fd n) (sys_read E fd n)"
  "sim settle (tk_read_exact tk fd n) (file_read_exact E fd n)" "sim settle (tk_write tk fd bs) (sys_write E fd bs)"
  "sim settle (tk_write_all tk fd bs) (file_write_all E fd bs)" "sim settle (tk_flush tk fd) (file_flush fd)"
  "sim settle (tk_shutdown tk fd) (file_flush fd)" "sim settle (tk_sync_all tk fd) (sys_sync_all E fd)"
  "sim settle (tk_file_len tk fd) (sys_file_len E fd)" "sim settle (tk_try_clone tk fd) (sys_try_clone E fd)"
  "sim settle (tk_rename tk p q) (sys_rename E p q)" "sim settle (tk_remove tk p) (sys_remove E p)"
  "sim settle (tk_spawn_blocking tk c) (st_lift (if c = Panic then Err OtherKind else Ok c))"
  "sim settle (on_world next_temp_counter) (next_temp_counter :: (world, u64, object_file_error) st)"
  "sim settle (on_world (sys_remove E p)) (sys_remove E p)"
  using std unfolding awaits_std_def by simp_all

lemma streams:
  "(\<And>n. 0 < n \<Longrightarrow> sim (map_prod id settle) (rd n) (content_read E n)) \<Longrightarrow>
     sim (map_prod id settle) (tk_read_to_end tk rd) (content_read_to_end E)"
  "(\<And>n. 0 < n \<Longrightarrow> sim (map_prod id settle) (rd n) (content_read E n)) \<Longrightarrow>
     (\<And>bs. sim (map_prod as_writer settle) (wr bs) (writer_write E bs)) \<Longrightarrow>
     sim (map_prod as_writer settle) fl writer_flush \<Longrightarrow>
     sim (map_prod id (map_prod as_writer settle)) (tk_copy tk rd wr fl) (copy_content E 0)"
  using std unfolding awaits_std_def by simp_all

subsection \<open>Objects\<close>

lemma from_file: "sim settle (async_from_file tk E fd p b) (from_file E fd p b)"
  unfolding async_from_file_def from_file_def from_parts_def Let_def by (intro sim_intro)

lemma opens: "sim settle (async_open tk E p) (open_object E p)" "sim settle (async_open_writable tk E p) (open_writable E p)"
  unfolding async_open_def open_object_def async_open_writable_def open_writable_def by (intro sim_intro from_file)+

lemma open_optional: "sim settle (async_open_optional tk E p) (open_optional E p)"
proof (rule simI)
  fix s r s'
  assume run: "async_open_optional tk E p s = (r, s')"
  obtain a s1 where a: "async_open tk E p s = (a, s1)" by (metis surj_pair)
  from simD [OF opens(1) a] run show "open_optional E p (settle s) = (r, settle s')"
    by (cases a) (auto simp: async_open_optional_def open_optional_def a split: if_splits)
qed

lemma layout_eq: "async_layout ob = object_layout ob"
  by (simp add: async_layout_def object_layout_def header_layout_def)

lemma file_size: "sim (map_prod id settle) (async_file_size tk) (file_size E)"
  unfolding async_file_size_def file_size_def id_apply by (intro sim_intro)

lemma tag_reading:
  "sim (map_prod id settle) (async_object_read_tags tk) (object_read_tags E)"
  "sim (map_prod id settle) (async_tag_count tk) (tag_count E)"
  "sim (map_prod id settle) (async_find_tag tk key) (find_tag E key)"
proof -
  have if_bind: "st_bind (if b then m else n) k = (if b then st_bind m k else st_bind n k)" for b m n k by simp
  show "sim (map_prod id settle) (async_object_read_tags tk) (object_read_tags E)"
    unfolding async_object_read_tags_def object_read_tags_def async_read_tag_section_def layout_eq
    by (simp add: if_bind) (rule sim_intro | simp)+
  show "sim (map_prod id settle) (async_tag_count tk) (tag_count E)"
    unfolding async_tag_count_def tag_count_def layout_eq by (rule sim_intro | simp)+
  show "sim (map_prod id settle) (async_find_tag tk key) (find_tag E key)"
    unfolding async_find_tag_def find_tag_def async_read_tag_section_def layout_eq
    by (simp add: if_bind) (rule sim_intro | simp)+
qed

subsection \<open>Content\<close>

lemma content_reading: "0 < n \<Longrightarrow> sim (map_prod id settle) (async_content_read tk n) (content_read E n)"
  unfolding async_content_read_def content_read_def by (rule sim_intro | simp split del: if_split)+

lemma readers:
  "sim (map_prod id settle) (async_stored_content_reader tk) (stored_content_reader E)"
  "sim (map_prod id settle) (async_content_range_reader tk offset len) (content_range_reader E offset len)"
proof -
  show "sim (map_prod id settle) (async_stored_content_reader tk) (stored_content_reader E)"
  proof (rule simI)
    fix s r s'
    assume run: "async_stored_content_reader tk s = (r, s')"
    obtain ob w where s: "s = (ob, w)" by (cases s)
    obtain a w1 where a: "tk_seek tk (ob_file ob) (unat (h_content_start (ob_header ob))) w = (a, w1)" by (metis surj_pair)
    from simD [OF calls(5) a] run a show "stored_content_reader E (map_prod id settle s) = (r, map_prod id settle s')"
      by (cases a) (auto simp: s async_stored_content_reader_def seek_to_content_start_def stored_content_reader_def
          with_self_def st_bind_def io_def on_world_def st_map_err_def st_lift_def)
  qed
  show "sim (map_prod id settle) (async_content_range_reader tk offset len) (content_range_reader E offset len)"
  proof (rule simI)
    fix s r s'
    assume run: "async_content_range_reader tk offset len s = (r, s')"
    obtain ob w where s: "s = (ob, w)" by (cases s)
    obtain a w1 where a: "tk_seek tk (ob_file ob) (unat (h_content_start (ob_header ob)) + unat offset) w = (a, w1)"
      by (metis surj_pair)
    from simD [OF calls(5) a] run a
    show "content_range_reader E offset len (map_prod id settle s) = (r, map_prod id settle s')"
      by (cases a) (auto simp: s async_content_range_reader_def seek_within_content_def content_range_reader_def
          async_is_compressed_def is_compressed_def Let_def with_self_def st_bind_def io_def on_world_def
          st_map_err_def st_lift_def split: if_splits)
  qed
qed

lemma owned_readers:
  "into_content_reader tk ob s = (case async_stored_content_reader tk (ob, s) of (r, (ob', s')) \<Rightarrow> (r, s'))"
  "into_content_range_reader tk offset len ob s =
     (case async_content_range_reader tk offset len (ob, s) of (r, (ob', s')) \<Rightarrow> (r, s'))"
  by (auto simp: into_content_reader_def async_stored_content_reader_def into_content_range_reader_def
      async_content_range_reader_def st_bind_def with_self_def st_lift_def split: prod.splits res.splits)

lemma sim_with_reader:
  "sim (map_prod id f) m m' \<Longrightarrow> sim f (with_reader r m) (with_reader r m')"
  by (force simp: sim_def with_reader_def split: prod.splits)

text \<open>Reading the content agrees where the codec is there and does not panic.\<close>

lemma content_to_vec:
  assumes sup: "is_supported E (compression_type (ob_header ob))"
    and codec: "\<And>bs. decode_closure E bs (compression_type (ob_header ob)) \<noteq> Panic"
    and run: "async_read_content_to_vec tk E (ob, s) = (r, (ob', s'))"
  shows "read_content_to_vec E (ob, settle s) = (r, (ob', settle s'))"
proof -
  let ?ct = "compression_type (ob_header ob)"
  have rd: "sim settle (with_reader c (tk_read_to_end tk (async_content_read tk))) (with_reader c (content_read_to_end E))" for c
    by (intro sim_with_reader streams content_reading)
  have dec: "decode_blocking tk E bs ?ct w = (x, w') \<Longrightarrow> x = decode_closure E bs ?ct \<and> settle w' = settle w" for bs w x w'
  proof -
    assume d: "decode_blocking tk E bs ?ct w = (x, w')"
    obtain a w1 where a: "tk_spawn_blocking tk (decode_closure E bs ?ct) w = (a, w1)" by (metis surj_pair)
    from simD [OF calls(17) a] d a codec [of bs] sup show ?thesis
      by (auto simp: decode_blocking_def ensure_supported_def st_bind_def st_map_err_def st_lift_def)
  qed
  show ?thesis
  proof (cases "max_offset < unat (content_length (ob_header ob))")
    case True
    then show ?thesis using run by (simp add: async_read_content_to_vec_def read_content_to_vec_def with_self_def st_lift_def)
  next
    case False
    obtain a ob1 s1 where a: "async_stored_content_reader tk (ob, s) = (a, (ob1, s1))" by (metis surj_pair)
    note A = simD [OF readers(1) a, simplified]
    show ?thesis
    proof (cases a)
      case (Ok c)
      obtain b s2 where b: "with_reader c (tk_read_to_end tk (async_content_read tk)) s1 = (b, s2)" by (metis surj_pair)
      note B = simD [OF rd b]
      show ?thesis
        using run a b A B False Ok sup dec [of _ s2]
        by (cases b; cases ?ct)
           (auto simp: async_read_content_to_vec_def read_content_to_vec_def decompressed_content_reader_def
             decoded_read_to_end_def with_self_def st_lift_def st_bind_def io_def on_world_def st_map_err_def
             is_supported_def decode_closure_def split: prod.splits option.splits res.splits)
    qed (use run a A False in \<open>auto simp: async_read_content_to_vec_def read_content_to_vec_def
          decompressed_content_reader_def with_self_def st_bind_def Let_def\<close>)+
  qed
qed

subsection \<open>Writers\<close>

lemma temp_files: "sim settle (async_temp_file_loop tk E p n) (temp_file_loop E p n)"
proof (induction n)
  case 0
  show ?case by (simp add: sim_lift)
next
  case (Suc n)
  show ?case
    unfolding async_temp_file_loop.simps temp_file_loop.simps Let_def
  proof (intro sim_bind calls(18) simI)
    fix counter s r s'
    let ?c = "temp_candidate E p counter"
    assume run: "(case tk_create_new tk ?c s of (Ok file, s') \<Rightarrow> (Ok (file, ?c), s')
           | (Err k, s') \<Rightarrow> if k = AlreadyExists then async_temp_file_loop tk E p n s' else (Err (IO k), s')
           | (Panic, s') \<Rightarrow> (Panic, s')) = (r, s')"
    obtain a s1 where a: "tk_create_new tk ?c s = (a, s1)" by (metis surj_pair)
    from simD [OF calls(2) a] run a simD [OF Suc]
    show "(case sys_create_new E ?c (settle s) of (Ok file, s') \<Rightarrow> (Ok (file, ?c), s')
           | (Err k, s') \<Rightarrow> if k = AlreadyExists then temp_file_loop E p n s' else (Err (IO k), s')
           | (Panic, s') \<Rightarrow> (Panic, s')) = (r, settle s')"
      by (cases a) (auto split: if_splits)
  qed
qed

lemma dropping: "settle (async_drop_writer E aw s) = drop_writer E (as_writer aw) (settle s)"
proof (cases "aw_temp_path aw")
  case (Some temp)
  obtain r s' where "on_world (sys_remove E temp) s = ((r :: (unit, io_kind) res), s')" by (metis surj_pair)
  with simD [OF calls(19) this] Some show ?thesis by (simp add: async_drop_writer_def drop_writer_def as_writer_def)
qed (simp add: async_drop_writer_def drop_writer_def as_writer_def)

lemma creating:
  assumes plain: "co_compression opts = NoCompression" and run: "async_create_writer tk E p opts s = (r, s')"
  shows "create_writer E p opts (settle s) = (map_res as_writer id r, settle s')"
proof -
  let ?l = "compute (co_layout opts) (metadata_size E (co_metadata opts)) (tag_block_size (co_tags opts))"
  have sup: "ensure_supported E (co_compression opts) = Ok ()" by (simp add: plain ensure_supported_def is_supported_def)
  obtain a s1 where a: "async_create_temp_file tk E p s = (a, s1)" by (metis surj_pair)
  then have A: "create_temp_file E p (settle s) = (a, settle s1)"
    using simD [OF temp_files] by (simp add: async_create_temp_file_def create_temp_file_def)
  show ?thesis
  proof (cases "\<exists>l fd temp. ?l = Ok l \<and> a = Ok (fd, temp)")
    case True
    then obtain l fd temp where l: "?l = Ok l" and ok: "a = Ok (fd, temp)" by blast
    obtain b s2 where b: "tk_seek tk fd (unat (content_start l)) s1 = (b, s2)" by (metis surj_pair)
    note B = simD [OF calls(5) b]
    show ?thesis
      using run l ok a A b B plain sup
      by (cases b) (auto simp: async_create_writer_def create_writer_def st_bind_def st_lift_def dropping as_writer_def Let_def)
  next
    case False
    then show ?thesis
      using run a A plain sup
      by (cases ?l; cases a) (auto simp: async_create_writer_def create_writer_def st_bind_def st_lift_def)
  qed
qed

lemma writing: "sim (map_prod as_writer settle) (async_writer_write tk bs) (writer_write E bs)"
  unfolding async_writer_write_def writer_write_def
  by (rule sim_intro | simp add: as_writer_def split del: if_split)+

lemma flushing: "sim (map_prod as_writer settle) (async_writer_flush tk) writer_flush"
  unfolding async_writer_flush_def writer_flush_def by (rule sim_intro | simp add: as_writer_def)+

lemma copying:
  "sim (map_prod id (map_prod as_writer settle))
     (tk_copy tk (async_content_read tk) (async_writer_write tk) (async_writer_flush tk)) (copy_content E 0)"
  by (intro streams content_reading writing flushing)

lemma sync_parents: "sim settle (async_sync_parent tk p) (sync_parent E p)"
proof (rule simI)
  fix s s' and r :: "(unit, 'e) res"
  assume run: "async_sync_parent tk p s = (r, s')"
  obtain a s1 where a: "tk_open_dir tk (butlast p) s = (a, s1)" by (metis surj_pair)
  obtain b s2 where b: "tk_sync_dir tk s1 = (b, s2)" by (metis surj_pair)
  from simD [OF calls(3) a] simD [OF calls(4) b] run a b show "sync_parent E p (settle s) = (r, settle s')"
    by (cases a) (auto simp: async_sync_parent_def sync_parent_def split: if_splits)
qed

lemma publishing: "sim (map_prod as_writer settle) (async_publish tk) (publish E)"
  unfolding async_publish_def publish_def
  by (rule sim_intro sync_parents | simp add: as_writer_def split del: if_split)+

lemma finishing_in_place: "sim (map_prod as_writer settle) (async_finish_in_place tk E l) (finish_in_place E l)"
  unfolding async_finish_in_place_def finish_in_place_def Let_def build_header_def from_parts_def
  by (rule sim_intro publishing | simp add: as_writer_def split del: if_split)+

lemma consuming:
  assumes "sim (map_prod as_writer settle) m m'"
  shows "sim settle (async_consume E m aw) (consume E m' (as_writer aw))"
proof (rule simI)
  fix s r s'
  assume run: "async_consume E m aw s = (r, s')"
  obtain a aw' s1 where a: "m (aw, s) = (a, (aw', s1))" by (metis surj_pair)
  from simD [OF assms a] run a show "consume E m' (as_writer aw) (settle s) = (r, settle s')"
    by (auto simp: async_consume_def consume_def dropping)
qed

lemma aborting: "sim settle (async_abort tk E aw) (abort E (as_writer aw))"
  unfolding async_abort_def abort_def
proof (rule consuming, intro sim_with_self)
  fix aw
  have rm: "sim settle (\<lambda>s. case tk_remove tk temp s of (Ok _, s') \<Rightarrow> (Ok (), s')
         | (Err k, s') \<Rightarrow> if k = NotFound then (Ok (), s') else (Err (IO k), s') | (Panic, s') \<Rightarrow> (Panic, s'))
       (\<lambda>w. case sys_remove E temp w of (Ok _, w') \<Rightarrow> (Ok (), w')
         | (Err k, w') \<Rightarrow> if k = NotFound then (Ok (), w') else (Err (IO k), w') | (Panic, w') \<Rightarrow> (Panic, w'))" for temp
  proof (rule simI)
    fix s r s'
    assume run: "(case tk_remove tk temp s of (Ok _, s') \<Rightarrow> (Ok (), s')
         | (Err k, s') \<Rightarrow> if k = NotFound then (Ok (), s') else (Err (IO k), s') | (Panic, s') \<Rightarrow> (Panic, s')) = (r, s')"
    obtain a s1 where a: "tk_remove tk temp s = (a, s1)" by (metis surj_pair)
    from simD [OF calls(16) a] run a show "(case sys_remove E temp (settle s) of (Ok _, w') \<Rightarrow> (Ok (), w')
         | (Err k, w') \<Rightarrow> if k = NotFound then (Ok (), w') else (Err (IO k), w') | (Panic, w') \<Rightarrow> (Panic, w')) = (r, settle s')"
      by (cases a) (auto split: if_splits)
  qed
  have temp: "wr_temp_path (as_writer aw) = aw_temp_path aw" by (simp add: as_writer_def)
  show "sim (map_prod as_writer settle)
     (case aw_temp_path aw of None \<Rightarrow> st_lift (Ok ()) | Some temp \<Rightarrow> st_bind (put_self (aw\<lparr>aw_temp_path := None\<rparr>)) (\<lambda>_.
       on_world (\<lambda>s. case tk_remove tk temp s of (Ok _, s') \<Rightarrow> (Ok (), s')
         | (Err k, s') \<Rightarrow> if k = NotFound then (Ok (), s') else (Err (IO k), s') | (Panic, s') \<Rightarrow> (Panic, s'))))
     (case wr_temp_path (as_writer aw) of None \<Rightarrow> st_lift (Ok ()) | Some temp \<Rightarrow>
       st_bind (put_self ((as_writer aw)\<lparr>wr_temp_path := None\<rparr>)) (\<lambda>_.
       on_world (\<lambda>w. case sys_remove E temp w of (Ok _, w') \<Rightarrow> (Ok (), w')
         | (Err k, w') \<Rightarrow> if k = NotFound then (Ok (), w') else (Err (IO k), w') | (Panic, w') \<Rightarrow> (Panic, w'))))"
    unfolding temp by (rule sim_intro rm | simp add: as_writer_def)+
qed

lemma as_writer_parts:
  "finish_layout E (as_writer aw) = async_finish_layout E aw"
  "rewrite_options (as_writer aw) = async_rewrite_options aw"
  "empty_sections (as_writer aw) = as_writer (aw\<lparr>aw_metadata := tags_new, aw_tags := tags_new\<rparr>)"
  by (simp_all add: finish_layout_def async_finish_layout_def rewrite_options_def async_rewrite_options_def
      DEFAULT_REWRITE_RESERVE_def empty_sections_def as_writer_def)

lemma starting_rewrite:
  assumes plain: "aw_compression aw = NoCompression" and run: "async_start_rewrite tk E aw s = (r, s')"
  shows "start_rewrite E (as_writer aw) (settle s) = (map_res as_writer id r, settle s')"
proof -
  have opts: "co_compression (async_rewrite_options aw) = NoCompression" by (simp add: async_rewrite_options_def plain)
  obtain a s1 where a: "async_create_writer tk E (aw_final_path aw) (async_rewrite_options aw) s = (a, s1)"
    by (metis surj_pair)
  note A = creating [OF opts a]
  let ?start = "unat (content_start (aw_layout aw))"
  have sk: "sim settle (st_bind (tk_flush tk (aw_file aw)) (\<lambda>_. tk_seek tk (aw_file aw) ?start)) (sys_seek E (aw_file aw) ?start)"
    by (rule sim_cong [OF sim_bind [OF calls(10) calls(5)]]) (simp_all add: file_flush_def)
  obtain b s2 where b: "st_bind (tk_flush tk (aw_file aw)) (\<lambda>_. tk_seek tk (aw_file aw) ?start) s1 = (b, s2)"
    by (metis surj_pair)
  note B = simD [OF sk b]
  have W: "wr_final_path (as_writer aw) = aw_final_path aw" "wr_file (as_writer aw) = aw_file aw"
    "wr_layout (as_writer aw) = aw_layout aw" "wr_content_length (as_writer aw) = aw_content_length aw"
    by (simp_all add: as_writer_def)
  show ?thesis
  proof (cases "\<exists>rep. a = Ok rep \<and> b = Ok ()")
    case True
    then obtain rep where ok: "a = Ok rep" "b = Ok ()" by blast
    let ?c = "\<lparr>cr_file = aw_file aw, remaining = aw_content_length aw\<rparr>"
    obtain x c' rep' s3 where cp: "tk_copy tk (async_content_read tk) (async_writer_write tk) (async_writer_flush tk)
        (?c, rep, s2) = (x, (c', rep', s3))" by (metis surj_pair)
    note C = simD [OF copying cp, simplified]
    show ?thesis
      using run a A b B C cp ok
      by (cases x) (auto simp: async_start_rewrite_def start_rewrite_def as_writer_parts W st_bind_def dropping)
  next
    case False
    then show ?thesis
      using run a A b B
      by (cases a; cases b) (auto simp: async_start_rewrite_def start_rewrite_def as_writer_parts W st_bind_def dropping)
  qed
qed

lemma finishing_fits:
  assumes fits: "async_finish_layout E aw = Ok (Some l)"
  shows "\<exists>r s'. async_finish (Suc n) tk E aw s = Some (r, s') \<and> finish E (as_writer aw) (settle s) = (r, settle s')"
proof -
  obtain r s' where run: "async_consume E (async_finish_in_place tk E l) aw s = (r, s')" by (metis surj_pair)
  from simD [OF consuming [OF finishing_in_place] run] run fits show ?thesis
    by (auto simp: finish.simps [of E "as_writer aw"] as_writer_parts)
qed

lemma discarding: "settle (snd (async_abort tk E aw s)) = drop_writer E (as_writer aw) (settle s)"
proof -
  obtain r s' where run: "async_abort tk E aw s = (r, s')" by (metis surj_pair)
  have "snd (abort E ow w) = drop_writer E ow w" for ow :: "'hn object_writer" and w
    by (auto simp: abort_def consume_def with_self_def drop_writer_def st_lift_def st_bind_def put_self_def
        on_world_def split: option.splits prod.splits res.splits)
  with simD [OF aborting run] run show ?thesis by (metis snd_conv)
qed

lemma finishing:
  assumes plain: "aw_compression aw = NoCompression"
  shows "\<exists>r s'. async_finish (Suc (Suc n)) tk E aw s = Some (r, s') \<and> finish E (as_writer aw) (settle s) = (r, settle s')"
proof (cases "async_finish_layout E aw = Ok None")
  case False
  show ?thesis
  proof (cases "\<exists>l. async_finish_layout E aw = Ok (Some l)")
    case True
    then show ?thesis using finishing_fits by blast
  next
    case nothing: False
    with False show ?thesis
      by (cases "async_finish_layout E aw" rule: res.exhaust)
         (auto simp: finish.simps [of E "as_writer aw"] as_writer_parts dropping)
  qed
next
  case True
  obtain a s1 where a: "async_start_rewrite tk E aw s = (a, s1)" by (metis surj_pair)
  note A = starting_rewrite [OF plain a]
  show ?thesis
  proof (cases a)
    case (Ok rep)
    with A have start: "start_rewrite E (as_writer aw) (settle s) = (Ok (as_writer rep), settle s1)" by simp
    from start_rewrite_fits [OF this] obtain l where "async_finish_layout E rep = Ok (Some l)" by (auto simp: as_writer_parts)
    from finishing_fits [OF this, of n s1] obtain r s2 where
      "async_finish (Suc n) tk E rep s1 = Some (r, s2)" "finish E (as_writer rep) (settle s1) = (r, settle s2)" by blast
    then show ?thesis
      using True a Ok start
      by (cases r) (auto simp: finish.simps [of E "as_writer aw"] as_writer_parts dropping discarding Let_def)
  qed (use True a A in \<open>auto simp: finish.simps [of E "as_writer aw"] as_writer_parts dropping\<close>)
qed

subsection \<open>Updates\<close>

lemma in_place_updates: "sim (map_prod id settle) (async_set_sections_in_place tk E md t) (set_sections_in_place E md t)"
  unfolding async_set_sections_in_place_def set_sections_in_place_def async_ensure_writable_def ensure_writable_def Let_def
  by (rule sim_intro refl | simp only: id_apply)+

lemma rewriting:
  assumes plain: "compression_type (ob_header ob) = NoCompression"
  shows "\<exists>r ob' s'. async_rewrite (Suc (Suc n)) tk E md t (ob, s) = Some (r, ob', s')
     \<and> rewrite E md t (ob, settle s) = (r, (ob', settle s'))"
proof (cases "ob_writable ob")
  case False
  then show ?thesis
    by (auto simp: async_rewrite_def rewrite_def async_ensure_writable_def ensure_writable_def with_self_def st_lift_def st_bind_def)
next
  case True
  have opts: "async_update_options ob md t = rewrite_create_options ob md t"
    by (simp add: async_update_options_def rewrite_create_options_def)
  have none: "co_compression (rewrite_create_options ob md t) = NoCompression" by (simp add: rewrite_create_options_def plain)
  obtain a s1 where a: "async_create_writer tk E (ob_path ob) (rewrite_create_options ob md t) s = (a, s1)" by (metis surj_pair)
  note A = creating [OF none a]
  obtain b ob1 s2 where b: "async_stored_content_reader tk (ob, s1) = (b, (ob1, s2))" by (metis surj_pair)
  note B = simD [OF readers(1) b, simplified]
  note defs = async_rewrite_def rewrite_def async_ensure_writable_def ensure_writable_def with_self_def st_lift_def
    st_bind_def opts on_world_def put_self_def
  show ?thesis
  proof (cases "\<exists>aw c. a = Ok aw \<and> b = Ok c")
    case False
    then show ?thesis using True a A b B by (cases a; cases b) (auto simp: defs dropping)
  next
    case ok: True
    then obtain aw c where ok: "a = Ok aw" "b = Ok c" by blast
    obtain x c' aw' s3 where cp: "tk_copy tk (async_content_read tk) (async_writer_write tk) (async_writer_flush tk)
        (c, aw, s2) = (x, (c', aw', s3))" by (metis surj_pair)
    note C = simD [OF copying cp, simplified]
    show ?thesis
    proof (cases x)
      case (Ok n')
      have "aw_compression aw = NoCompression"
        using a ok none by (auto simp: async_create_writer_def st_bind_def st_lift_def Let_def split: if_splits prod.splits res.splits)
      moreover have "same_writer (as_writer aw) (as_writer aw')" by (rule copy_content_same [OF C])
      ultimately have "aw_compression aw' = NoCompression" using same_writerD(6) by (fastforce simp: as_writer_def)
      from finishing [OF this, of n s3] obtain y s4 where "async_finish (Suc (Suc n)) tk E aw' s3 = Some (y, s4)"
        "finish E (as_writer aw') (settle s3) = (y, settle s4)" by blast
      then show ?thesis
        using True a A b B C cp ok Ok by (cases y) (auto simp: defs dropping simp del: async_finish.simps)
    qed (use True a A b B C cp ok in \<open>auto simp: defs dropping\<close>)
  qed
qed

lemma updating_metadata:
  assumes plain: "compression_type (ob_header ob) = NoCompression"
  shows "\<exists>r ob' s'. async_set_metadata (Suc (Suc n)) tk E md (ob, s) = Some (r, ob', s')
     \<and> set_metadata E md (ob, settle s) = (r, (ob', settle s'))"
proof -
  obtain a ob1 s1 where a: "async_object_read_tags tk (ob, s) = (a, (ob1, s1))" by (metis surj_pair)
  have "ob1 = ob"
    using a by (auto simp: async_object_read_tags_def async_read_tag_section_def with_self_def st_bind_def st_lift_def
        io_def on_world_def split: if_splits prod.splits res.splits)
  with a simD [OF tag_reading(1) a] rewriting [OF plain, of n md _ s1] show ?thesis
    by (cases a) (auto simp: async_set_metadata_def set_metadata_def st_bind_def)
qed

end

end
