(* ===== verification/AsyncGuarantees.thy ===== *)
theory AsyncGuarantees
  imports AsyncAgreement Guarantees
begin

text \<open>
  The properties of the asynchronous object files: they agree with the blocking ones, operation by
  operation; what they write the blocking layer reads; and they refuse to produce compressed content.
\<close>

section \<open>An instance\<close>

text \<open>A runtime without buffers of its own, on which every operation is the standard one at once.\<close>

definition from_writer :: "'hn object_writer \<Rightarrow> 'hn async_object_writer" where
  "from_writer ow = \<lparr>aw_file = wr_file ow, aw_temp_path = wr_temp_path ow, aw_final_path = wr_final_path ow,
     aw_layout = wr_layout ow, aw_layout_options = wr_layout_options ow, aw_compression = wr_compression ow,
     aw_metadata = wr_metadata ow, aw_tags = wr_tags ow, aw_content_length = wr_content_length ow, aw_sync = wr_sync ow\<rparr>"

definition unbuffered :: "'hn env \<Rightarrow> (unit, 'hn) tokio" where
  "unbuffered E =
     \<lparr>tk_open = (\<lambda>p b. on_world (sys_open E p b)), tk_create_new = (\<lambda>p. on_world (sys_create_new E p)),
      tk_open_dir = (\<lambda>p. on_world (sys_open_dir E p)), tk_sync_dir = on_world (sys_sync_all E 0),
      tk_seek = (\<lambda>fd n. on_world (sys_seek E fd n)), tk_read = (\<lambda>fd n. on_world (sys_read E fd n)),
      tk_read_exact = (\<lambda>fd n. on_world (file_read_exact E fd n)), tk_write = (\<lambda>fd bs. on_world (sys_write E fd bs)),
      tk_write_all = (\<lambda>fd bs. on_world (file_write_all E fd bs)), tk_flush = (\<lambda>fd. on_world (file_flush fd)),
      tk_shutdown = (\<lambda>fd. on_world (file_flush fd)), tk_sync_all = (\<lambda>fd. on_world (sys_sync_all E fd)),
      tk_file_len = (\<lambda>fd. on_world (sys_file_len E fd)), tk_try_clone = (\<lambda>fd. on_world (sys_try_clone E fd)),
      tk_rename = (\<lambda>p q. on_world (sys_rename E p q)), tk_remove = (\<lambda>p. on_world (sys_remove E p)),
      tk_read_to_end = (\<lambda>rd (c, u, w). case content_read_to_end E (c, w) of (r, (c', w')) \<Rightarrow> (r, (c', u, w'))),
      tk_copy = (\<lambda>rd wr fl (c, aw, u, w). case copy_content E 0 (c, as_writer aw, w) of
         (r, (c', ow', w')) \<Rightarrow> (r, (c', from_writer ow', u, w'))),
      tk_spawn_blocking = (\<lambda>c s. (if c = Panic then Err OtherKind else Ok c, s))\<rparr>"

lemma sim_snd: "sim snd (on_world m) m"
  by (simp add: sim_def on_world_def split: prod.splits)

lemma as_from_writer: "wr_allow_raw_writes ow \<Longrightarrow> as_writer (from_writer ow) = ow"
  by (simp add: as_writer_def from_writer_def)

lemma unbuffered_copy:
  "sim (map_prod id (map_prod as_writer snd)) (tk_copy (unbuffered E) rd wr fl) (copy_content E 0)"
proof (rule simI)
  fix s and r and s' :: "content_reader \<times> 'a async_object_writer \<times> unit runtime"
  assume run: "tk_copy (unbuffered E) rd wr fl s = (r, s')"
  obtain c aw u w where s: "s = (c, aw, u, w)" by (metis surj_pair)
  obtain x c' ow' w' where cp: "copy_content E 0 (c, as_writer aw, w) = (x, (c', ow', w'))" by (metis surj_pair)
  have "wr_allow_raw_writes ow'"
    using same_writerD(10) [OF copy_content_same [OF cp]] by (simp add: as_writer_def)
  then show "copy_content E 0 (map_prod id (map_prod as_writer snd) s) = (r, map_prod id (map_prod as_writer snd) s')"
    using run cp s by (auto simp: unbuffered_def as_from_writer)
qed

lemma unbuffered_awaits: "awaits_std E (unbuffered E) snd"
proof -
  have "sim (map_prod id snd) (tk_read_to_end (unbuffered E) rd) (content_read_to_end E)" for rd
    by (auto simp: sim_def unbuffered_def split: prod.splits)
  moreover have "sim snd (tk_spawn_blocking (unbuffered E) c) (st_lift (if c = Panic then Err OtherKind else Ok c))" for c
    by (simp add: sim_def unbuffered_def st_lift_def)
  ultimately show ?thesis
    unfolding awaits_std_def by (simp add: unbuffered_copy) (simp add: unbuffered_def sim_snd)
qed

interpretation unbuffered: tokio_files E "unbuffered E" snd for E :: "'hn env"
  by unfold_locales (rule unbuffered_awaits)

lemma tokio_okD: "tokio_ok E tk settle \<Longrightarrow> reliable E \<Longrightarrow> tokio_files E tk settle"
  by (simp add: tokio_ok_def tokio_files_def)

lemma unbuffered_ok: "tokio_ok E (unbuffered E) snd"
  by (simp add: tokio_ok_def unbuffered_awaits)

text \<open>The loop of a caller that writes until everything is accepted.\<close>

lemma sim_write_all:
  assumes "\<And>bs. sim f (wr bs) (wr' bs)"
  shows "sim f (write_all wr bs) (write_all wr' bs)"
proof (rule simI)
  fix s r s'
  assume "write_all wr bs s = (r, s')"
  then show "write_all wr' bs (f s) = (r, f s')"
  proof (induction "length bs" arbitrary: bs s rule: less_induct)
    case less
    obtain a s1 where a: "wr bs s = (a, s1)" by (metis surj_pair)
    note A = simD [OF assms a]
    show ?case
    proof (cases "bs \<noteq> [] \<and> (\<exists>n. a = Ok n \<and> 0 < n \<and> n \<le> length bs)")
      case True
      then obtain n where n: "a = Ok n" "0 < n" "n \<le> length bs" "bs \<noteq> []" by blast
      then have "write_all wr (drop n bs) s1 = (r, s')"
        using less.prems a by (simp add: write_all.simps [of wr bs])
      then have "write_all wr' (drop n bs) (f s1) = (r, f s')" by (rule less.hyps [rotated]) (use n in auto)
      then show ?thesis using A n by (simp add: write_all.simps [of wr' bs])
    next
      case False
      then show ?thesis
        using less.prems a A
        by (cases a) (auto simp: write_all.simps [of wr bs] write_all.simps [of wr' bs] split: if_splits)
    qed
  qed
qed

section \<open>Agreement\<close>

text \<open>C19: Opening and reading agree. Where no call fails, opening an object, for reading, for writing or
  optionally, reading its tags, counting them, looking one up, reading its content in ranges or
  whole, and asking for its size give the same result on the runtime as the blocking operations do
  on the world it settles to, and leave it in the same state; the readers that own the file are the
  borrowing ones.\<close>

theorem async_reads_agree:
  assumes "reliable E" and "tokio_ok E tk settle"
  shows "sim settle (async_open tk E p) (open_object E p) \<and> sim settle (async_open_writable tk E p) (open_writable E p)
    \<and> sim settle (async_open_optional tk E p) (open_optional E p)
    \<and> sim (map_prod id settle) (async_object_read_tags tk) (object_read_tags E)
    \<and> sim (map_prod id settle) (async_tag_count tk) (tag_count E)
    \<and> sim (map_prod id settle) (async_find_tag tk key) (find_tag E key)
    \<and> sim (map_prod id settle) (async_file_size tk) (file_size E)
    \<and> sim (map_prod id settle) (async_stored_content_reader tk) (stored_content_reader E)
    \<and> sim (map_prod id settle) (async_content_range_reader tk offset len) (content_range_reader E offset len)
    \<and> sim (map_prod id settle) (async_content_read tk (Suc n)) (content_read E (Suc n))
    \<and> into_content_range_reader tk offset len ob s =
        (case async_content_range_reader tk offset len (ob, s) of (r, (ob', s')) \<Rightarrow> (r, s'))
    \<and> (is_supported E (compression_type (ob_header ob)) \<and>
         (\<forall>bs. decode_closure E bs (compression_type (ob_header ob)) \<noteq> Panic) \<longrightarrow>
       read_content_to_vec E (ob, settle s) = map_prod id (map_prod id settle) (async_read_content_to_vec tk E (ob, s)))"
proof -
  note T = tokio_okD [OF assms(2,1)]
  have "read_content_to_vec E (ob, settle s) = map_prod id (map_prod id settle) (async_read_content_to_vec tk E (ob, s))"
    if "is_supported E (compression_type (ob_header ob))" "\<forall>bs. decode_closure E bs (compression_type (ob_header ob)) \<noteq> Panic"
    using tokio_files.content_to_vec [OF T that(1)] that(2)
    by (cases "async_read_content_to_vec tk E (ob, s)") auto
  then show ?thesis
    using tokio_files.opens [OF T] tokio_files.open_optional [OF T] tokio_files.tag_reading [OF T] tokio_files.file_size [OF T]
      tokio_files.readers [OF T] tokio_files.content_reading [OF T] tokio_files.owned_readers [OF T]
    by blast
qed

theorem async_reads_agree_witness:
  "fst (async_read_content_to_vec (unbuffered sample_env) sample_env (sample_object, ((), published_world)))
     = fst (read_content_to_vec sample_env (sample_object, published_world))
   \<and> sim snd (async_open (unbuffered sample_env) sample_env sample_path) (open_object sample_env sample_path)"
proof -
  have plain: "compression_type (ob_header sample_object) = NoCompression"
    by (simp add: sample_object_def from_parts_def)
  show ?thesis
    using async_reads_agree [OF sample_env_ok(1) unbuffered_ok, where ob = sample_object and s = "((), published_world)"]
    by (auto simp: plain is_supported_def decode_closure_def)
qed

text \<open>C18: Writing agrees. Where no call fails, an uncompressed object is created, written to, finished and
  aborted on the runtime as it is by the blocking writer on the world it settles to: the same results,
  the same writer, the same state. Two levels of recursion are enough for \<open>finish\<close>.\<close>

theorem async_writes_agree:
  assumes "reliable E" and "tokio_ok E tk settle"
  shows "(co_compression opts = NoCompression \<longrightarrow>
       create_writer E p opts (settle s) = map_prod (map_res as_writer id) settle (async_create_writer tk E p opts s))
    \<and> sim (map_prod as_writer settle) (async_writer_write tk bs) (writer_write E bs)
    \<and> sim (map_prod as_writer settle) (async_writer_flush tk) writer_flush
    \<and> sim settle (async_abort tk E aw) (abort E (as_writer aw))
    \<and> settle (async_drop_writer E aw s) = drop_writer E (as_writer aw) (settle s)
    \<and> (aw_compression aw = NoCompression \<longrightarrow>
        (\<exists>r s'. async_finish 2 tk E aw s = Some (r, s') \<and> finish E (as_writer aw) (settle s) = (r, settle s')))"
proof -
  note T = tokio_okD [OF assms(2,1)]
  have "create_writer E p opts (settle s) = map_prod (map_res as_writer id) settle (async_create_writer tk E p opts s)"
    if "co_compression opts = NoCompression"
    using tokio_files.creating [OF T that] by (cases "async_create_writer tk E p opts s") auto
  moreover have "\<exists>r s'. async_finish 2 tk E aw s = Some (r, s') \<and> finish E (as_writer aw) (settle s) = (r, settle s')"
    if "aw_compression aw = NoCompression"
    using tokio_files.finishing [OF T that, of 0] by (simp add: numeral_2_eq_2 del: async_finish.simps)
  ultimately show ?thesis
    using tokio_files.writing [OF T] tokio_files.flushing [OF T] tokio_files.aborting [OF T] tokio_files.dropping [OF T]
    by blast
qed

theorem async_writes_agree_witness:
  "\<exists>r s'. async_finish 2 (unbuffered sample_env) sample_env (from_writer sample_writer) ((), streaming_world) = Some (r, s')
     \<and> finish sample_env sample_writer streaming_world = (r, snd s')"
proof -
  have "as_writer (from_writer sample_writer) = sample_writer" "aw_compression (from_writer sample_writer) = NoCompression"
    by (simp_all add: as_writer_def sample_writer_def from_writer_def)
  then show ?thesis
    using async_writes_agree [OF sample_env_ok(1) unbuffered_ok, where aw = "from_writer sample_writer" and s = "((), streaming_world)"]
    by simp
qed

text \<open>C20: Updating agrees. Where no call fails, an uncompressed object is updated on the runtime, in place
  or by rewriting, as the blocking operations update it on the world it settles to.\<close>

theorem async_updates_agree:
  assumes "reliable E" and "tokio_ok E tk settle" and "compression_type (ob_header ob) = NoCompression"
  shows "sim (map_prod id settle) (async_set_sections_in_place tk E md t) (set_sections_in_place E md t)
    \<and> (\<exists>r ob' s'. async_set_sections 2 tk E md t (ob, s) = Some (r, ob', s')
         \<and> set_sections E md t (ob, settle s) = (r, (ob', settle s')))
    \<and> (\<exists>r ob' s'. async_set_tags 2 tk E t (ob, s) = Some (r, ob', s') \<and> set_tags E t (ob, settle s) = (r, (ob', settle s')))
    \<and> (\<exists>r ob' s'. async_set_metadata 2 tk E md (ob, s) = Some (r, ob', s')
         \<and> set_metadata E md (ob, settle s) = (r, (ob', settle s')))"
proof -
  note T = tokio_okD [OF assms(2,1)]
  show ?thesis
    using tokio_files.in_place_updates [OF T] tokio_files.rewriting [OF T assms(3), of 0 _ _ s]
      tokio_files.updating_metadata [OF T assms(3), of 0 md s]
    by (simp add: numeral_2_eq_2 async_set_sections_def set_sections_def async_set_tags_def set_tags_def with_self_def
        del: async_finish.simps)
qed

theorem async_updates_agree_witness:
  "\<exists>r ob' s'. async_set_sections 2 (unbuffered sample_env) sample_env [] [([107], VBool True)]
       (sample_object, ((), published_world)) = Some (r, ob', s')
     \<and> set_sections sample_env [] [([107], VBool True)] (sample_object, published_world) = (r, (ob', snd s'))"
proof -
  have plain: "compression_type (ob_header sample_object) = NoCompression"
    by (simp add: sample_object_def from_parts_def)
  show ?thesis
    using async_updates_agree [OF sample_env_ok(1) unbuffered_ok plain, of _ _ "((), published_world)"] by auto
qed

text \<open>No compressed object is written asynchronously. Whatever the operations of tokio do, creating a
  writer for compressed content is refused before anything happens, and so is rewriting a compressed
  object, which leaves it and the state as they were; a writer that is created is one for uncompressed
  content.\<close>

theorem async_refuses_compressed:
  "(co_compression opts \<noteq> NoCompression \<longrightarrow>
      async_create_writer tk E p opts s = (Err (UnsupportedCompression (co_compression opts)), s))
   \<and> (async_create_writer tk E p opts s = (Ok aw, s1) \<longrightarrow> co_compression opts = NoCompression \<and> aw_compression aw = NoCompression)
   \<and> (async_is_compressed ob \<longrightarrow> async_set_sections n tk E md t (ob, s) =
        Some (if ob_writable ob then Err (UnsupportedCompression (compression_type (ob_header ob)))
              else Err (ReadOnly (ob_path ob)), ob, s))"
proof -
  have refused: "async_create_writer tk E p opts s = (Err (UnsupportedCompression (co_compression opts)), s)"
    if "co_compression opts \<noteq> NoCompression" for p opts s
    using that by (simp add: async_create_writer_def ensure_supported_def st_lift_def)
  show ?thesis
  proof (intro conjI impI)
    assume "async_is_compressed ob"
    then have "co_compression (async_update_options ob md t) = compression_type (ob_header ob)"
      and "compression_type (ob_header ob) \<noteq> NoCompression"
      by (simp_all add: async_update_options_def async_is_compressed_def)
    then show "async_set_sections n tk E md t (ob, s) =
        Some (if ob_writable ob then Err (UnsupportedCompression (compression_type (ob_header ob)))
              else Err (ReadOnly (ob_path ob)), ob, s)"
      using refused [of "async_update_options ob md t" "ob_path ob" s]
      by (simp add: async_set_sections_def async_rewrite_def async_ensure_writable_def)
  next
    assume "async_create_writer tk E p opts s = (Ok aw, s1)"
    then show "co_compression opts = NoCompression" and "aw_compression aw = NoCompression"
      by (auto simp: async_create_writer_def st_bind_def st_lift_def Let_def split: if_splits prod.splits res.splits)
  qed (rule refused)
qed

theorem async_refuses_compressed_witness:
  "async_set_sections 2 (unbuffered sample_env) sample_env [] []
      (sample_object\<lparr>ob_header := (ob_header sample_object)\<lparr>compression_type := Gzip 6\<rparr>\<rparr>, ((), published_world)) =
   Some (Err (UnsupportedCompression (Gzip 6)), sample_object\<lparr>ob_header := (ob_header sample_object)\<lparr>compression_type := Gzip 6\<rparr>\<rparr>,
      ((), published_world))"
proof -
  let ?ob = "sample_object\<lparr>ob_header := (ob_header sample_object)\<lparr>compression_type := Gzip 6\<rparr>\<rparr>"
  have "async_is_compressed ?ob" "ob_writable ?ob" by (simp_all add: async_is_compressed_def sample_object_def from_parts_def)
  then show ?thesis
    using async_refuses_compressed [of create_options_new "unbuffered sample_env" sample_env sample_path "((), published_world)" _ _
        ?ob 2 "[]" "[]"]
    by simp
qed

text \<open>C17: The layers interoperate. Where no call fails, an uncompressed object whose sections can be laid
  out is stored asynchronously, its content handed to the writer in any pieces, and both layers then
  open the path and read the same metadata, tags and content back.\<close>

theorem async_store_round_trip:
  assumes H: "header_name_ok (header_names E)" and R: "reliable E" and T: "tokio_ok E tk settle" and ok: "world_ok (settle s)"
    and path: "butlast p \<in> set (w_dirs (settle s))" "p \<notin> set (w_dirs (settle s))" "name_free E p (settle s)"
    and secs: "sections_ok (co_metadata opts) (co_tags opts)" and plain: "co_compression opts = NoCompression"
    and l: "compute (co_layout opts) (metadata_size E (co_metadata opts)) (tag_block_size (co_tags opts)) = Ok l"
    and room: "unat (content_start l) + length content \<le> max_offset"
  shows "\<exists>aw s1 aw' s2 ob s3 ob' s4 w4.
     async_create_writer tk E p opts s = (Ok aw, s1) \<and>
     write_all (async_writer_write tk) content (aw, s1) = (Ok (), (aw', s2)) \<and>
     async_finish 2 tk E aw' s2 = Some (Ok ob, s3) \<and>
     async_open tk E p s3 = (Ok ob', s4) \<and> open_object E p (settle s3) = (Ok ob', w4) \<and>
     ob_metadata ob' = co_metadata opts \<and>
     fst (async_object_read_tags tk (ob', s4)) = Ok (co_tags opts) \<and> fst (object_read_tags E (ob', w4)) = Ok (co_tags opts) \<and>
     fst (async_read_content_to_vec tk E (ob', s4)) = Ok content \<and> fst (read_content_to_vec E (ob', w4)) = Ok content"
proof -
  note T = tokio_okD [OF T R]
  obtain ow w1 ow' w2 tp where run: "create_writer E p opts (settle s) = (Ok ow, w1)" and c: "created E p opts (settle s) ow w1 tp"
    "writer_write_all E content (ow, w1) = (Ok (), (ow', w2))" and fr: "frame {wr_file ow} {w_next (settle s)} w1 w2"
    and at: "writer_at ow' w2 tp (w_next (settle s)) content" and ok2: "world_ok w2" and ow': "wr_final_path ow' = p"
      "wr_metadata ow' = co_metadata opts" "wr_tags ow' = co_tags opts" "wr_compression ow' = NoCompression"
    and fit: "\<exists>l'. finish_layout E ow' = Ok (Some l')"
    by (rule writing_succeeds [OF R ok path plain l room])
  obtain r s1 where cr: "async_create_writer tk E p opts s = (r, s1)" by (metis surj_pair)
  from tokio_files.creating [OF T plain cr] run obtain aw where aw: "r = Ok aw" "ow = as_writer aw" "w1 = settle s1"
    by (cases r) auto
  obtain x aw' s2 where wr: "write_all (async_writer_write tk) content (aw, s1) = (x, (aw', s2))" by (metis surj_pair)
  with simD [OF sim_write_all [OF tokio_files.writing [OF T]] wr] c(2) have aw': "x = Ok ()" "ow' = as_writer aw'" "w2 = settle s2"
    by (simp_all add: writer_write_all_def aw)
  have "wr_final_path ow' \<notin> set (w_dirs w2)"
    using path c(1) frameD(2) [OF fr] by (simp add: ow' created_def)
  from finishing_succeeds [OF H R ok2 at secs [folded ow'] fit this] obtain ob w3 where
    fin: "finish E ow' w2 = (Ok ob, w3)" and obj: "finished_object E ow' content ob w3" by blast
  have "aw_compression aw' = NoCompression" using ow'(4) by (simp add: aw' as_writer_def)
  from tokio_files.finishing [OF T this, of 0 s2] fin obtain s3 where
    afin: "async_finish 2 tk E aw' s2 = Some (Ok ob, s3)" and s3: "w3 = settle s3"
    by (auto simp: aw' numeral_2_eq_2 simp del: async_finish.simps)
  have "length content \<le> max_offset" using room by simp
  from reading_back [OF H R obj ow'(4) this, unfolded ow'] obtain ob' w4 where op: "open_object E p w3 = (Ok ob', w4)"
    and md: "ob_metadata ob' = co_metadata opts" and ct: "compression_type (ob_header ob') = NoCompression"
    and tg: "fst (object_read_tags E (ob', w4)) = Ok (co_tags opts)" and ctn: "fst (read_content_to_vec E (ob', w4)) = Ok content" .
  obtain y s4 where aop: "async_open tk E p s3 = (y, s4)" by (metis surj_pair)
  with simD [OF tokio_files.opens(1) [OF T] aop] op s3 have y: "y = Ok ob'" and w4: "w4 = settle s4" by simp_all
  have "fst (async_object_read_tags tk (ob', s4)) = Ok (co_tags opts)"
    using tg simD [OF tokio_files.tag_reading(1) [OF T], of "(ob', s4)"]
    by (cases "async_object_read_tags tk (ob', s4)") (auto simp: w4)
  moreover have "fst (async_read_content_to_vec tk E (ob', s4)) = Ok content"
    using ctn tokio_files.content_to_vec [OF T, of ob' s4] ct
    by (cases "async_read_content_to_vec tk E (ob', s4)") (auto simp: w4 is_supported_def decode_closure_def)
  ultimately show ?thesis
    using cr aw wr aw' afin aop y op s3 md tg ctn by metis
qed

theorem async_store_round_trip_witness:
  "\<exists>aw s1 aw' s2 ob s3 ob' w4.
     async_create_writer (unbuffered sample_env) sample_env sample_path (create_options_new\<lparr>co_layout := layout_packed\<rparr>)
       ((), empty_world) = (Ok aw, s1)
     \<and> write_all (async_writer_write (unbuffered sample_env)) [1, 2, 3] (aw, s1) = (Ok (), (aw', s2))
     \<and> async_finish 2 (unbuffered sample_env) sample_env aw' s2 = Some (Ok ob, s3)
     \<and> open_object sample_env sample_path (snd s3) = (Ok ob', w4)
     \<and> fst (read_content_to_vec sample_env (ob', w4)) = Ok [1, 2, 3]"
proof -
  let ?opts = "create_options_new\<lparr>co_layout := layout_packed\<rparr> :: u8 create_options"
  have plain: "co_compression ?opts = NoCompression" and secs: "sections_ok (co_metadata ?opts) (co_tags ?opts)"
    by (simp_all add: create_options_new_def tags_new_def sample_sections_ok)
  have l: "compute (co_layout ?opts) (metadata_size sample_env (co_metadata ?opts)) (tag_block_size (co_tags ?opts))
      = Ok \<lparr>tags_start = 34, content_start = 36\<rparr>"
    by (simp add: create_options_new_def tags_new_def compute_def layout_packed_def metadata_size_def tag_block_size_def
        tags_size_def usize_add_def align_up_def usize_mul_def div_ceil_def HEADER_SIZE_def usize_max_def)
  have path: "butlast sample_path \<in> set (w_dirs (snd ((), empty_world)))" "sample_path \<notin> set (w_dirs (snd ((), empty_world)))"
    "name_free sample_env sample_path (snd ((), empty_world))"
    by (simp_all add: empty_world_def sample_path_def sample_dir_def name_free_def temp_candidate_def)
  have room: "unat (content_start \<lparr>tags_start = 34, content_start = 36\<rparr>) + length ([1, 2, 3] :: u8 list) \<le> max_offset"
    by (simp add: max_offset_def)
  have ok: "world_ok (snd ((), empty_world))" using worlds_ok(1) by simp
  from async_store_round_trip [OF sample_env_ok(2,1) unbuffered_ok ok path secs plain l room] show ?thesis by metis
qed

end
