(* ===== verification/AsyncFaults.thy ===== *)
theory AsyncFaults
  imports AsyncAgreement
begin

text \<open>
  Asynchronous writing when calls fail. A runtime carries writes out behind the back of its caller,
  and may report that one failed only at a later call on the same file. What the module can still
  rely on is stated as a locale; under it, the writer of \<open>src/src/fs/async_io.rs\<close> publishes complete
  objects only, because it flushes before it renames.
\<close>

section \<open>Work behind the caller\<close>

text \<open>
  Nothing changed but the bytes of the files in \<open>B\<close>, the offsets of handles, and the counter of
  temporary names.
\<close>

definition undisturbed :: "nat set \<Rightarrow> world \<Rightarrow> world \<Rightarrow> bool" where
  "undisturbed B w w' \<longleftrightarrow>
     w_names w' = w_names w \<and> w_dirs w' = w_dirs w \<and> w_next w' = w_next w \<and> w_next_fd w' = w_next_fd w \<and>
     (\<forall>i. i \<notin> B \<longrightarrow> w_data w' i = w_data w i) \<and>
     (\<forall>fd. map_option (\<lambda>f. (of_inode f, of_writable f)) (w_open w' fd) =
           map_option (\<lambda>f. (of_inode f, of_writable f)) (w_open w fd)) \<and>
     quiet {q. \<forall>i \<in> B. w_names w q \<noteq> Some i} w w'"

lemma undisturbed_refl [simp]: "undisturbed B w w"
  by (simp add: undisturbed_def)

lemma undisturbedD:
  assumes "undisturbed B w w'"
  shows "w_names w' = w_names w" and "w_dirs w' = w_dirs w" and "w_next w' = w_next w" and "w_next_fd w' = w_next_fd w"
    and "i \<notin> B \<Longrightarrow> w_data w' i = w_data w i" and "quiet {q. \<forall>i \<in> B. w_names w q \<noteq> Some i} w w'"
    and "map_option (\<lambda>f. (of_inode f, of_writable f)) (w_open w' fd) =
           map_option (\<lambda>f. (of_inode f, of_writable f)) (w_open w fd)"
  using assms by (simp_all add: undisturbed_def)

lemma undisturbed_trans:
  assumes "undisturbed B a b" and "undisturbed B b c"
  shows "undisturbed B a c"
  using assms quiet_trans [OF undisturbedD(6) [OF assms(1)]] undisturbedD(6) [OF assms(2)]
  by (simp add: undisturbed_def)

lemma undisturbed_mono:
  assumes "undisturbed B w w'" and "B \<subseteq> B'"
  shows "undisturbed B' w w'"
proof -
  have "quiet {q. \<forall>i \<in> B'. w_names w q \<noteq> Some i} w w'"
    by (rule quiet_mono [OF undisturbedD(6) [OF assms(1)]]) (use assms(2) in blast)
  with assms show ?thesis by (auto simp: undisturbed_def)
qed

lemma undisturbed_frame: "frame F I w w' \<Longrightarrow> I \<subseteq> B \<Longrightarrow> undisturbed B w w'"
  using frame_quiet [of F I w w' "{q. \<forall>i \<in> B. w_names w q \<noteq> Some i}"]
  by (auto simp: undisturbed_def frame_def)

lemma undisturbed_calm: "calm w w' \<Longrightarrow> undisturbed B w w'"
  by (simp add: undisturbed_def calm_quiet) (simp add: calm_def)

lemma undisturbed_tick: "undisturbed B w w' \<Longrightarrow> undisturbed B w (tick w')"
  by (erule undisturbed_trans) (rule undisturbed_calm, rule calm_tick, rule calm_refl)

lemma opened_before:
  assumes "undisturbed B w w'" and "w_open w' fd = Some f"
  obtains f0 where "w_open w fd = Some f0" and "of_inode f0 = of_inode f"
  using undisturbedD(7) [OF assms(1), of fd] assms(2) by (cases "w_open w fd") auto

text \<open>A handle that can write to a file, and a file with no other handle.\<close>

definition writes_to :: "world \<Rightarrow> nat \<Rightarrow> nat \<Rightarrow> bool" where
  "writes_to w fd i \<longleftrightarrow> (\<exists>f. w_open w fd = Some f \<and> of_inode f = i \<and> of_writable f)"

definition sole_handle :: "world \<Rightarrow> nat \<Rightarrow> nat \<Rightarrow> bool" where
  "sole_handle w fd i \<longleftrightarrow> writes_to w fd i \<and> (\<forall>g f. w_open w g = Some f \<longrightarrow> of_inode f = i \<longrightarrow> g = fd)"

lemma sole_handleD:
  "sole_handle w fd i \<Longrightarrow> w_open w g = Some f \<Longrightarrow> of_inode f = i \<Longrightarrow> g = fd"
  "sole_handle w fd i \<Longrightarrow> \<exists>f. w_open w fd = Some f \<and> of_inode f = i \<and> of_writable f"
  unfolding sole_handle_def writes_to_def by blast+

lemma writes_to_undisturbed: "undisturbed B w w' \<Longrightarrow> writes_to w fd i \<Longrightarrow> writes_to w' fd i"
  using undisturbedD(7) [of B w w' fd] by (auto simp: writes_to_def)

lemma sole_handle_undisturbed:
  assumes "undisturbed B w w'" and "sole_handle w fd i"
  shows "sole_handle w' fd i"
  using assms writes_to_undisturbed [OF assms(1)] unfolding sole_handle_def by (metis opened_before)

lemma world_ok_undisturbed:
  assumes "undisturbed B w w'" and "world_ok w"
  shows "world_ok w'"
proof -
  have "of_inode f < w_next w \<and> fd < w_next_fd w" if "w_open w' fd = Some f" for fd f
    using assms(2) that unfolding world_ok_def by (metis opened_before [OF assms(1)])
  with assms(2) undisturbedD(1,3,4) [OF assms(1)] show ?thesis by (simp add: world_ok_def)
qed

text \<open>
  What a runtime has outstanding: files with writes not carried out, handles whose next flush will
  report a failure, and what a file and an offset will be once the work is done.
\<close>

record 't outstanding =
  busy_files :: "'t \<Rightarrow> nat set"
  failing_handles :: "'t \<Rightarrow> nat set"
  promised_data :: "'t runtime \<Rightarrow> nat \<Rightarrow> u8 list"
  promised_pos :: "'t runtime \<Rightarrow> nat \<Rightarrow> nat"

definition progress :: "'t outstanding \<Rightarrow> nat set \<Rightarrow> 't runtime \<Rightarrow> 't runtime \<Rightarrow> bool" where
  "progress D I s s' \<longleftrightarrow> undisturbed (busy_files D (fst s) \<union> I) (snd s) (snd s') \<and>
     busy_files D (fst s') \<subseteq> busy_files D (fst s) \<union> I"

text \<open>The handle is failing, or the call was accepted and will have had this effect.\<close>

definition accepted :: "'t outstanding \<Rightarrow> nat \<Rightarrow> nat \<Rightarrow> 't runtime \<Rightarrow> 't runtime \<Rightarrow> u8 list \<Rightarrow> nat \<Rightarrow> bool" where
  "accepted D fd i s s' d n \<longleftrightarrow> fd \<in> failing_handles D (fst s') \<or>
     fd \<notin> failing_handles D (fst s) \<and> promised_data D s' i = d \<and> promised_pos D s' fd = n"

text \<open>
  From the documentation of tokio: an operation may leave work behind, and the work left behind on a
  file may be done at any time; a flush returns when all of it is done, and reports a failure that was
  not reported before; operations on paths wait for the system call.
\<close>

locale deferring =
  fixes tk :: "('t, 'hn) tokio" and D :: "'t outstanding"
  assumes one_write: "sole_handle (snd s) fd i \<Longrightarrow>
      wp (tk_write tk fd bs) (\<lambda>n s'. progress D {i} s s' \<and> n \<le> length bs
           \<and> accepted D fd i s s' (splice (promised_pos D s fd) (take n bs) (promised_data D s i)) (promised_pos D s fd + n))
         (\<lambda>_ s'. progress D {i} s s') s"
    and whole_write: "sole_handle (snd s) fd i \<Longrightarrow>
      wp (tk_write_all tk fd bs) (\<lambda>_ s'. progress D {i} s s'
           \<and> accepted D fd i s s' (splice (promised_pos D s fd) bs (promised_data D s i)) (promised_pos D s fd + length bs))
         (\<lambda>_ s'. progress D {i} s s') s"
    and seek: "sole_handle (snd s) fd i \<Longrightarrow>
      wp (tk_seek tk fd n) (\<lambda>_ s'. progress D {i} s s' \<and> accepted D fd i s s' (promised_data D s i) n)
         (\<lambda>_ s'. progress D {i} s s') s"
    and flush: "sole_handle (snd s) fd i \<Longrightarrow>
      wp (tk_flush tk fd) (\<lambda>_ s'. progress D {i} s s' \<and> accepted D fd i s s' (promised_data D s i) (promised_pos D s fd)
           \<and> fd \<notin> failing_handles D (fst s') \<and> i \<notin> busy_files D (fst s') \<and> w_data (snd s') i = promised_data D s i)
         (\<lambda>_ s'. progress D {i} s s') s"
    and sync: "wp (tk_sync_all tk fd) (\<lambda>_. progress D {} s) (\<lambda>_. progress D {} s) s"
      "wp (tk_open_dir tk q) (\<lambda>_. progress D {} s) (\<lambda>_. progress D {} s) s"
      "wp (tk_sync_dir tk) (\<lambda>_. progress D {} s) (\<lambda>_. progress D {} s) s"
      "wp (tk_try_clone tk fd) (\<lambda>_. progress D {} s) (\<lambda>_. progress D {} s) s"
    and rename: "wp (tk_rename tk p q)
         (\<lambda>_ s'. \<exists>i a b. w_names (snd s) p = Some i \<and> undisturbed (busy_files D (fst s)) (snd s) a
            \<and> calm (renamed p q i a) b \<and> undisturbed (busy_files D (fst s)) b (snd s')
            \<and> busy_files D (fst s') \<subseteq> busy_files D (fst s))
         (\<lambda>_. progress D {} s) s"
    and create_new: "wp (tk_create_new tk p)
         (\<lambda>fd s'. \<exists>a b. undisturbed (busy_files D (fst s)) (snd s) a \<and> w_names (snd s) p = None
            \<and> calm (with_new_file p a) b
            \<and> undisturbed (busy_files D (fst s)) b (snd s') \<and> busy_files D (fst s') \<subseteq> busy_files D (fst s)
            \<and> fd = w_next_fd (snd s) \<and> fd \<notin> failing_handles D (fst s')
            \<and> promised_data D s' (w_next (snd s)) = [] \<and> promised_pos D s' fd = 0)
         (\<lambda>_. progress D {} s) s"

lemma progress_refl [simp]: "progress D I s s"
  by (auto simp: progress_def)

lemma progress_mono: "progress D I s s' \<Longrightarrow> I \<subseteq> J \<Longrightarrow> progress D J s s'"
  by (auto simp: progress_def elim: undisturbed_mono)

lemma progress_trans:
  assumes "progress D I s s'" and "progress D I s' s''"
  shows "progress D I s s''"
proof -
  have "undisturbed (busy_files D (fst s) \<union> I) (snd s') (snd s'')"
    using assms by (auto simp: progress_def elim: undisturbed_mono)
  with assms show ?thesis by (auto simp: progress_def elim: undisturbed_trans)
qed

section \<open>The writer\<close>

text \<open>
  A writer in progress, as the blocking one but for the work that is outstanding: its file holds the
  content, or will, or its next flush fails.
\<close>

definition async_writer_at ::
  "'t outstanding \<Rightarrow> 'hn async_object_writer \<Rightarrow> 't runtime \<Rightarrow> path \<Rightarrow> nat \<Rightarrow> u8 list \<Rightarrow> bool" where
  "async_writer_at D aw s tp i content \<longleftrightarrow>
     aw_temp_path aw = Some tp \<and> tp \<noteq> aw_final_path aw \<and>
     w_names (snd s) tp = Some i \<and> (\<forall>q. w_names (snd s) q = Some i \<longrightarrow> q = tp) \<and>
     sole_handle (snd s) (aw_file aw) i \<and> unat (aw_content_length aw) = length content \<and>
     (aw_file aw \<in> failing_handles D (fst s) \<or>
        promised_pos D s (aw_file aw) = unat (content_start (aw_layout aw)) + length content \<and>
        stored_content (unat (content_start (aw_layout aw))) content (promised_data D s i))"

lemma async_writer_atD:
  assumes "async_writer_at D aw s tp i content"
  shows "aw_temp_path aw = Some tp" and "tp \<noteq> aw_final_path aw" and "w_names (snd s) tp = Some i"
    and "sole_handle (snd s) (aw_file aw) i" and "unat (aw_content_length aw) = length content"
  using assms unfolding async_writer_at_def by blast+

text \<open>The steps of \<open>finish\<close> between the encoding of the prefix and the rename.\<close>

definition async_write_prefix ::
  "('t, 'hn) tokio \<Rightarrow> 'hn async_object_writer \<Rightarrow> u8 list \<Rightarrow> ('t, 'hn, unit, object_file_error) async_writer_method" where
  "async_write_prefix tk aw prefix =
     st_bind (io (tk_flush tk (aw_file aw))) (\<lambda>_.
     st_bind (io (tk_seek tk (aw_file aw) 0)) (\<lambda>_.
     st_bind (io (tk_write_all tk (aw_file aw) prefix)) (\<lambda>_.
     st_bind (io (tk_flush tk (aw_file aw))) (\<lambda>_.
     if aw_sync aw then io (tk_sync_all tk (aw_file aw)) else st_lift (Ok ())))))"

lemma async_finish_in_place_eq:
  "async_finish_in_place tk E l = with_self (\<lambda>aw0.
     let aw = aw0\<lparr>aw_layout := l\<rparr>
     in st_bind (put_self aw) (\<lambda>_.
        st_bind (st_lift (encode_prefix E (build_header (as_writer aw)) (aw_metadata aw) (aw_tags aw) l)) (\<lambda>prefix.
        st_bind (async_write_prefix tk aw prefix) (\<lambda>_.
        st_bind (async_publish tk) (\<lambda>_.
        st_bind (io (tk_try_clone tk (aw_file aw))) (\<lambda>clone.
        st_lift (Ok (from_parts clone (aw_final_path aw) (build_header (as_writer aw)) (aw_metadata aw) True))))))))"
  by (simp add: async_finish_in_place_def async_write_prefix_def build_header_def as_writer_def from_parts_def Let_def)

text \<open>The paths whose files have no work outstanding.\<close>

definition untouched :: "nat set \<Rightarrow> world \<Rightarrow> path set" where
  "untouched B w = {q. \<forall>j \<in> B. w_names w q \<noteq> Some j}"

text \<open>
  A rename after all work on the file was done, other files being worked on before and after it.
\<close>

lemma published_behind:
  assumes before: "undisturbed (insert i B) w a" and c: "calm (renamed tp p i a) b"
    and after: "undisturbed B' b w'" and B': "B' \<subseteq> insert i B" "i \<notin> B'"
    and only: "\<forall>q. w_names w q = Some i \<longrightarrow> q = tp" and ne: "tp \<noteq> p"
    and free: "p \<in> untouched B w" and P: "P (w_data a i)"
  shows "atomic_update p P w w'" and "quiet (untouched B w - {p, tp}) w w'"
    and "w_names w' = (w_names w)(tp := None, p \<mapsto> i)" and "w_data w' i = w_data a i"
proof -
  have names: "w_names b = (w_names w)(tp := None, p \<mapsto> i)"
    using c undisturbedD(1) [OF before] by (simp add: calm_def)
  have p: "p \<noteq> tp" and free': "w_names w p \<noteq> Some i" using only ne by auto
  have q1: "quiet (untouched B w - {tp}) w a"
    by (rule quiet_mono [OF undisturbedD(6) [OF before]]) (use only in \<open>auto simp: untouched_def\<close>)
  have q2: "atomic_update p P a b" "quiet (- {p, tp}) a b" by (rule renamed_shows [where P = P, OF c P])+
  have "p \<in> {q. \<forall>j \<in> B'. w_names b q \<noteq> Some j}" using B'(2) by (auto simp: names)
  then have q3: "quiet {p} b w'" by (intro quiet_mono [OF undisturbedD(6) [OF after]]) simp
  have "untouched B w - {p, tp} \<subseteq> {q. \<forall>j \<in> B'. w_names b q \<noteq> Some j}"
    using B' by (auto simp: untouched_def names)
  then have q4: "quiet (untouched B w - {p, tp}) b w'" by (rule quiet_mono [OF undisturbedD(6) [OF after]])
  have "quiet {p} w a" by (rule quiet_mono [OF q1]) (use free p in simp)
  then show "atomic_update p P w w'"
    using atomic_trans [OF atomic_trans [OF quiet_atomic q2(1)] quiet_atomic [OF q3]] by blast
  have "quiet (untouched B w - {p, tp}) w b"
    by (rule quiet_trans [OF quiet_mono [OF q1] quiet_mono [OF q2(2)]]) auto
  then show "quiet (untouched B w - {p, tp}) w w'" by (rule quiet_trans) (rule q4)
  show "w_names w' = (w_names w)(tp := None, p \<mapsto> i)"
    by (simp add: undisturbedD(1) [OF after] names)
  show "w_data w' i = w_data a i"
    using c undisturbedD(5) [OF after B'(2)] by (simp add: calm_def)
qed

text \<open>A temporary file was created, other files being worked on before and after it.\<close>

lemma created_behind:
  assumes ok: "world_ok w" and before: "undisturbed B w a" and c: "calm (with_new_file tp a) b"
    and after: "undisturbed B b w'" and tp: "w_names w tp = None"
  shows "quiet (untouched B w - {tp}) w w'" and "w_names w' = (w_names w)(tp \<mapsto> w_next w)" and "world_ok w'"
    and "sole_handle w' (w_next_fd w) (w_next w)" and "\<forall>q. w_names w' q = Some (w_next w) \<longrightarrow> q = tp"
proof -
  have oka: "world_ok a" by (rule world_ok_undisturbed [OF before ok])
  have b: "w_names b = (w_names w)(tp \<mapsto> w_next w)"
      "w_open b = (w_open a)(w_next_fd w \<mapsto> \<lparr>of_inode = w_next w, of_pos = 0, of_writable = True\<rparr>)"
    using c undisturbedD(1,3,4) [OF before] by (simp_all add: calm_def with_new_file_fields)
  have q1: "quiet (untouched B w - {tp}) w a"
    by (rule quiet_mono [OF undisturbedD(6) [OF before]]) (auto simp: untouched_def)
  have "view_of (with_new_file tp a) q = view_of a q" if "q \<noteq> tp" for q
    by (rule view_of_with_new_file [OF oka that])
  then have "quiet (- {tp}) a (with_new_file tp a)"
    by (simp add: quiet_def shown_def with_new_file_fields)
  then have q2: "quiet (untouched B w - {tp}) a b"
    by (rule quiet_trans [OF quiet_mono calm_quiet [OF c]]) auto
  have q3: "quiet (untouched B w - {tp}) b w'"
    by (rule quiet_mono [OF undisturbedD(6) [OF after]]) (auto simp: untouched_def b)
  show "quiet (untouched B w - {tp}) w w'" by (rule quiet_trans [OF quiet_trans [OF q1 q2] q3])
  show names: "w_names w' = (w_names w)(tp \<mapsto> w_next w)" by (simp add: undisturbedD(1) [OF after] b)
  have "world_ok b" using world_ok_calm [OF c] world_ok_with_new_file [OF oka] by simp
  then show "world_ok w'" by (rule world_ok_undisturbed [OF after])
  have "g = w_next_fd w" if "w_open b g = Some f" "of_inode f = w_next w" for g f
  proof (rule ccontr)
    assume "g \<noteq> w_next_fd w"
    with that(1) have "w_open a g = Some f" by (simp add: b)
    then have "of_inode f < w_next a" using oka by (auto simp: world_ok_def)
    with that(2) undisturbedD(3) [OF before] show False by simp
  qed
  moreover have "writes_to b (w_next_fd w) (w_next w)" by (simp add: writes_to_def b(2))
  ultimately have "sole_handle b (w_next_fd w) (w_next w)" unfolding sole_handle_def by blast
  then show "sole_handle w' (w_next_fd w) (w_next w)" by (rule sole_handle_undisturbed [OF after])
  have "w_names w q \<noteq> Some (w_next w)" for q using ok unfolding world_ok_def by blast
  then show "\<forall>q. w_names w' q = Some (w_next w) \<longrightarrow> q = tp" by (simp add: names)
qed

text \<open>A failure before the rename; the writer is dropped.\<close>

lemma async_drop_eq: "async_drop_writer E aw s = (fst s, drop_writer E (as_writer aw) (snd s))"
  by (simp add: async_drop_writer_def drop_writer_def as_writer_def on_world_def split: option.splits prod.splits)

lemma unpublished_behind:
  assumes "undisturbed (insert i B) w a" and tmp: "wr_temp_path ow = Some tp \<or> wr_temp_path ow = None"
    and only: "\<forall>q. w_names w q = Some i \<longrightarrow> q = tp"
  shows "quiet (untouched B w - {tp}) w (drop_writer E ow a)"
  by (rule quiet_trans [OF quiet_mono [OF undisturbedD(6) [OF assms(1)]] drop_writer_quiet])
     (use only tmp in \<open>auto simp: untouched_def\<close>)

text \<open>Writing changes the length the writer has counted, and nothing else of it.\<close>

definition resized :: "'hn async_object_writer \<Rightarrow> 'hn async_object_writer \<Rightarrow> bool" where
  "resized aw aw' \<longleftrightarrow> (\<exists>c. aw' = aw\<lparr>aw_content_length := c\<rparr>)"

lemma resized_refl [simp]: "resized aw aw"
  by (cases aw) (auto simp: resized_def)

lemma resized_trans: "resized aw aw1 \<Longrightarrow> resized aw1 aw2 \<Longrightarrow> resized aw aw2"
  by (auto simp: resized_def)

lemma wp_async_consume:
  "wp (async_consume E m aw) Q R s \<longleftrightarrow>
     wp m (\<lambda>a x. Q a (async_drop_writer E (fst x) (snd x))) (\<lambda>e x. R e (async_drop_writer E (fst x) (snd x))) (aw, s)"
  by (auto simp: wp_def async_consume_def split: prod.splits res.splits)

context deferring begin

lemma deferred_prefix_wp:
  assumes at: "async_writer_at D aw s tp i content" and len: "length prefix = unat (content_start (aw_layout aw))"
  shows "wp (async_write_prefix tk aw prefix)
     (\<lambda>_ x. fst x = aw' \<and> progress D {i} s (snd x) \<and> i \<notin> busy_files D (fst (snd x))
        \<and> w_data (snd (snd x)) i = prefix @ content)
     (\<lambda>_ x. fst x = aw' \<and> progress D {i} s (snd x)) (aw', s)"
  (is "wp _ ?Q ?R _")
proof -
  let ?fd = "aw_file aw" and ?cs = "unat (content_start (aw_layout aw))"
  have sole: "sole_handle (snd s') ?fd i" if "progress D {i} s s'" for s'
    by (rule sole_handle_undisturbed) (use that at in \<open>auto simp: progress_def async_writer_at_def\<close>)
  note step = progress_trans [of D "{i}" s]
  show ?thesis
    unfolding async_write_prefix_def
  proof (rule wp_bind_io [OF flush [OF sole]], goal_cases)
    case (2 _ s1)
    then have p1: "progress D {i} s s1" and f1: "?fd \<notin> failing_handles D (fst s1)"
      and d1: "promised_data D s1 i = promised_data D s i" and stored: "stored_content ?cs content (promised_data D s i)"
      using at by (auto simp: accepted_def async_writer_at_def)
    show ?case
    proof (rule wp_bind_io [OF seek [OF sole [OF p1]]], goal_cases)
      case (1 _ s2)
      then have p2: "progress D {i} s s2" and a2: "accepted D ?fd i s1 s2 (promised_data D s i) 0"
        using step [OF p1] by (auto simp: d1)
      show ?case
      proof (rule wp_bind_io [OF whole_write [OF sole [OF p2]]], goal_cases)
        case (1 _ s3)
        then have p3: "progress D {i} s s3" and a3: "accepted D ?fd i s2 s3
            (splice (promised_pos D s2 ?fd) prefix (promised_data D s2 i)) (promised_pos D s2 ?fd + length prefix)"
          using step [OF p2] by auto
        show ?case
        proof (rule wp_bind_io [OF flush [OF sole [OF p3]]], goal_cases)
          case (1 _ s4)
          then have p4: "progress D {i} s s4" and done4: "i \<notin> busy_files D (fst s4)" "w_data (snd s4) i = promised_data D s3 i"
            and f3: "?fd \<notin> failing_handles D (fst s3)"
            using step [OF p3] by (auto simp: accepted_def)
          then have image: "w_data (snd s4) i = prefix @ content"
            using a2 a3 stored_content_prefix [OF stored len] by (auto simp: accepted_def)
          have quiet5: "progress D {i} s s5 \<and> i \<notin> busy_files D (fst s5) \<and> w_data (snd s5) i = prefix @ content"
            if "progress D {} s4 s5" for s5
            using step [OF p4 progress_mono [OF that]] that done4(1) image undisturbedD(5) [of _ "snd s4" "snd s5" i]
            by (auto simp: progress_def)
          have "wp (io (tk_sync_all tk ?fd)) ?Q ?R (aw', s4)"
            unfolding wp_io snd_conv
            by (rule wp_conseq [OF sync(1)]) (simp_all add: quiet5)
          then show ?case using p4 done4(1) image by simp
        qed (use step [OF p3] in auto)
      qed (use step [OF p2] in auto)
    qed (use step [OF p1] in auto)
  qed (use step in auto)
qed

lemma sync_parent_progress:
  assumes "async_sync_parent tk p s = (r, s')"
  shows "r = Ok ()" and "progress D {} s s'"
proof -
  obtain x s1 where dir: "tk_open_dir tk (butlast p) s = (x, s1)" by (metis surj_pair)
  obtain y s2 where sy: "tk_sync_dir tk s1 = (y, s2)" by (metis surj_pair)
  have p1: "progress D {} s s1" using wp_run [OF sync(2) dir] by (cases x) auto
  have "progress D {} s1 s2" using wp_run [OF sync(3) sy] by (cases y) auto
  then have "progress D {} s s2" by (rule progress_trans [OF p1])
  with p1 assms dir sy show "r = Ok ()" and "progress D {} s s'"
    by (auto simp: async_sync_parent_def split: if_splits res.splits)
qed

lemma deferred_publish_wp:
  assumes "aw_temp_path aw = Some tp" and i: "w_names (snd s) tp = Some i"
  shows "wp (async_publish tk)
     (\<lambda>_ x. fst x = aw\<lparr>aw_temp_path := None\<rparr> \<and> busy_files D (fst (snd x)) \<subseteq> busy_files D (fst s)
        \<and> (\<exists>a b. undisturbed (busy_files D (fst s)) (snd s) a \<and> calm (renamed tp (aw_final_path aw) i a) b
             \<and> undisturbed (busy_files D (fst s)) b (snd (snd x))))
     (\<lambda>_ x. fst x = aw\<lparr>aw_temp_path := None\<rparr> \<and> progress D {} s (snd x)) (aw, s)"
  (is "wp _ ?Q ?R _")
proof -
  let ?p = "aw_final_path aw"
  have "wp (st_bind (put_self (aw\<lparr>aw_temp_path := None\<rparr>)) (\<lambda>_. st_bind (io (tk_rename tk tp ?p)) (\<lambda>_.
         if aw_sync aw then on_world (async_sync_parent tk ?p) else st_lift (Ok ())))) ?Q ?R (aw, s)"
    unfolding wp_bind [of "put_self _"] wp_put_self snd_conv
  proof (rule wp_bind_io [OF rename], goal_cases)
    case (1 _ s1)
    then obtain a b where ab: "undisturbed (busy_files D (fst s)) (snd s) a" "calm (renamed tp ?p i a) b"
      "undisturbed (busy_files D (fst s)) b (snd s1)" "busy_files D (fst s1) \<subseteq> busy_files D (fst s)"
      using i by auto
    obtain r s2 where sp: "(async_sync_parent tk ?p s1 :: (unit, object_file_error) res \<times> _) = (r, s2)" by (metis surj_pair)
    note sp' = sync_parent_progress [OF sp]
    have "undisturbed (busy_files D (fst s)) b (snd s2)" "busy_files D (fst s2) \<subseteq> busy_files D (fst s)"
      using sp'(2) ab(3,4) by (auto simp: progress_def elim: undisturbed_mono intro: undisturbed_trans)
    then show ?case using ab sp sp'(1) by (auto simp: wp_def on_world_def st_lift_def)
  qed simp
  then show ?thesis unfolding async_publish_def wp_with_self fst_conv assms(1) by (simp only: option.case)
qed

text \<open>The rename after all work on the file was done, and the handle that is returned.\<close>

lemma deferred_publish_clone_wp:
  assumes tmp: "aw_temp_path aw = Some tp" "tp \<noteq> aw_final_path aw" and names: "w_names (snd s) tp = Some i"
    and only: "\<forall>q. w_names (snd s) q = Some i \<longrightarrow> q = tp" and p1: "progress D {i} s s1"
    and done1: "i \<notin> busy_files D (fst s1)" and P: "P (w_data (snd s1) i)"
    and free: "aw_final_path aw \<in> untouched (busy_files D (fst s)) (snd s)"
  shows "wp (st_bind (async_publish tk) (\<lambda>_. st_bind (io (tk_try_clone tk fd)) (\<lambda>clone. st_lift (Ok (f clone)))))
     (\<lambda>ob x. fst x = aw\<lparr>aw_temp_path := None\<rparr> \<and> atomic_update (aw_final_path aw) P (snd s) (snd (snd x))
        \<and> quiet (untouched (busy_files D (fst s)) (snd s) - {aw_final_path aw, tp}) (snd s) (snd (snd x))
        \<and> w_names (snd (snd x)) = (w_names (snd s))(tp := None, aw_final_path aw \<mapsto> i) \<and> P (w_data (snd (snd x)) i)
        \<and> i \<notin> busy_files D (fst (snd x)) \<and> busy_files D (fst (snd x)) \<subseteq> insert i (busy_files D (fst s)) \<and> (\<exists>clone. ob = f clone))
     (\<lambda>_ x. fst x = aw\<lparr>aw_temp_path := None\<rparr> \<and> (progress D {i} s (snd x) \<or>
        atomic_update (aw_final_path aw) P (snd s) (snd (snd x))
        \<and> quiet (untouched (busy_files D (fst s)) (snd s) - {aw_final_path aw, tp}) (snd s) (snd (snd x)))) (aw, s1)"
proof -
  let ?p = "aw_final_path aw" and ?B = "busy_files D (fst s)"
  from p1 have u1: "undisturbed (insert i ?B) (snd s) (snd s1)" and B1: "busy_files D (fst s1) \<subseteq> insert i ?B"
    by (simp_all add: progress_def)
  have names1: "w_names (snd s1) tp = Some i" using names undisturbedD(1) [OF u1] by simp
  show ?thesis
  proof (rule wp_bind_spec [OF deferred_publish_wp [OF tmp(1) names1]], goal_cases)
    case (1 _ x2)
    then obtain s2 a b where x2: "x2 = (aw\<lparr>aw_temp_path := None\<rparr>, s2)" and u2: "undisturbed (busy_files D (fst s1)) (snd s1) a"
      and c: "calm (renamed tp ?p i a) b" and u3: "undisturbed (busy_files D (fst s1)) b (snd s2)"
      and B2: "busy_files D (fst s2) \<subseteq> busy_files D (fst s1)"
      by (cases x2) auto
    have ua: "undisturbed (insert i ?B) (snd s) a"
      by (rule undisturbed_trans [OF u1 undisturbed_mono [OF u2 B1]])
    have Pa: "P (w_data a i)" using undisturbedD(5) [OF u2 done1] P by simp
    have fin: "atomic_update ?p P (snd s) (snd s3) \<and> quiet (untouched ?B (snd s) - {?p, tp}) (snd s) (snd s3)
        \<and> w_names (snd s3) = (w_names (snd s))(tp := None, ?p \<mapsto> i) \<and> P (w_data (snd s3) i)
        \<and> i \<notin> busy_files D (fst s3) \<and> busy_files D (fst s3) \<subseteq> insert i ?B" if "progress D {} s2 s3" for s3
    proof -
      have "undisturbed (busy_files D (fst s1)) b (snd s3)"
        using that B2 by (auto simp: progress_def elim: undisturbed_mono intro: undisturbed_trans [OF u3])
      from published_behind [OF ua c this B1 done1 only tmp(2) free, of P] Pa that B1 B2 done1 show ?thesis
        by (auto simp: progress_def)
    qed
    show ?case
      unfolding x2 by (rule wp_bind_io [OF sync(4)]) (use fin in auto)
  next
    case (2 e x2)
    then show ?case using progress_trans [OF p1 progress_mono [of D "{}" s1 "snd x2" "{i}"]] by simp
  qed
qed

lemma deferred_finish_wp:
  assumes H: "header_name_ok (header_names E)" and at: "async_writer_at D aw s tp i content"
    and secs: "sections_ok (aw_metadata aw) (aw_tags aw)"
    and fits: "layout_fits l (metadata_size E (aw_metadata aw)) (tag_block_size (aw_tags aw))"
    and cs: "content_start l = content_start (aw_layout aw)"
    and free: "aw_final_path aw \<in> untouched (busy_files D (fst s)) (snd s)"
  shows "wp (async_consume E (async_finish_in_place tk E l) aw)
     (\<lambda>ob s'. atomic_update (aw_final_path aw) (new_object E (as_writer aw) l content) (snd s) (snd s')
        \<and> quiet (untouched (busy_files D (fst s)) (snd s) - {aw_final_path aw, tp}) (snd s) (snd s')
        \<and> w_names (snd s') = (w_names (snd s))(tp := None, aw_final_path aw \<mapsto> i)
        \<and> new_object E (as_writer aw) l content (w_data (snd s') i) \<and> i \<notin> busy_files D (fst s')
        \<and> busy_files D (fst s') \<subseteq> insert i (busy_files D (fst s))
        \<and> (\<exists>fd. ob = from_parts fd (aw_final_path aw) (finish_header (as_writer aw) l) (aw_metadata aw) True))
     (\<lambda>_ s'. atomic_update (aw_final_path aw) (new_object E (as_writer aw) l content) (snd s) (snd s')
        \<and> quiet (untouched (busy_files D (fst s)) (snd s) - {aw_final_path aw, tp}) (snd s) (snd s')) s"
  (is "wp _ ?Q ?R _")
proof -
  let ?p = "aw_final_path aw" and ?h = "finish_header (as_writer aw) l" and ?aw = "aw\<lparr>aw_layout := l\<rparr>"
    and ?P = "new_object E (as_writer aw) l content" and ?B = "busy_files D (fst s)"
  let ?prefix = "prefix_image E ?h (aw_metadata aw) (aw_tags aw) l"
  from at have tmp: "aw_temp_path aw = Some tp" "tp \<noteq> ?p" "w_names (snd s) tp = Some i"
    and only: "\<forall>q. w_names (snd s) q = Some i \<longrightarrow> q = tp" and len: "unat (aw_content_length aw) = length content"
    by (simp_all add: async_writer_at_def)
  have at': "async_writer_at D ?aw s tp i content" using at by (simp add: async_writer_at_def cs)
  have enc: "encode_prefix E ?h (aw_metadata aw) (aw_tags aw) l = Ok ?prefix"
    by (rule encode_prefix_image [OF H secs fits])
  have plen: "length ?prefix = unat (content_start (aw_layout ?aw))"
    using length_prefix_image [OF H secs fits] by simp
  have image: "?P (?prefix @ content)"
    using new_object_image [of "as_writer aw" content l E] len secs fits by (simp add: as_writer_def)
  have drop: "aw_temp_path x = None \<Longrightarrow> async_drop_writer E x y = y" for x :: "'hn async_object_writer" and y :: "'t runtime"
    by (simp add: async_drop_writer_def)
  have stays: "?R e (async_drop_writer E x y)"
    if "progress D {i} s y" and "aw_temp_path x = Some tp \<or> aw_temp_path x = None" for e x y
  proof -
    have q: "quiet (untouched ?B (snd s) - {tp}) (snd s) (snd (async_drop_writer E x y))"
      unfolding async_drop_eq snd_conv
      by (rule unpublished_behind [OF _ _ only]) (use that in \<open>auto simp: progress_def as_writer_def\<close>)
    show ?thesis
      using quiet_atomic [OF quiet_mono [OF q]] quiet_mono [OF q, of "untouched ?B (snd s) - {?p, tp}"] free tmp(2) by auto
  qed
  have "wp (st_bind (async_write_prefix tk ?aw ?prefix) (\<lambda>_. st_bind (async_publish tk) (\<lambda>_.
        st_bind (io (tk_try_clone tk (aw_file aw))) (\<lambda>clone.
        st_lift (Ok (from_parts clone ?p ?h (aw_metadata aw) True))))))
      (\<lambda>a x. ?Q a (async_drop_writer E (fst x) (snd x))) (\<lambda>e x. ?R e (async_drop_writer E (fst x) (snd x))) (?aw, s)"
  proof (rule wp_bind_spec [OF deferred_prefix_wp [OF at' plen]], goal_cases)
    case (1 _ x)
    then obtain s1 where x: "x = (?aw, s1)" and p1: "progress D {i} s s1" and done1: "i \<notin> busy_files D (fst s1)"
      and P: "?P (w_data (snd s1) i)"
      using image by (cases x) auto
    have f: "aw_temp_path ?aw = Some tp" "tp \<noteq> aw_final_path ?aw" "aw_final_path ?aw \<in> untouched ?B (snd s)"
      using tmp free by simp_all
    show ?case
      unfolding x
    proof (rule wp_conseq [OF deferred_publish_clone_wp [where P = ?P, OF f(1,2) tmp(3) only p1 done1 P f(3)]], goal_cases)
      case (2 e x2)
      then show ?case using stays [of "snd x2" "fst x2"] by (auto simp: drop)
    qed (auto simp: drop)
  next
    case (2 e x)
    then show ?case using stays [of "snd x" "fst x"] tmp(1) by simp
  qed
  moreover have "build_header (as_writer ?aw) = ?h" by (simp add: finish_header_def as_writer_def)
  ultimately show ?thesis
    unfolding wp_async_consume async_finish_in_place_eq wp_with_self fst_conv Let_def
    using enc by (simp add: wp_bind [of "put_self _"])
qed

section \<open>Creating and writing\<close>

lemma unfold_run:
  assumes "tk_write tk (aw_file aw) bs s = (r, s1)"
  shows "wp (async_writer_write tk bs) Q R (aw, s) \<longleftrightarrow>
     (case r of
        Ok n \<Rightarrow> if unat (aw_content_length aw) + n \<ge> 2 ^ 64 then R None (aw, s1)
                else Q n (aw\<lparr>aw_content_length := aw_content_length aw + of_nat n\<rparr>, s1)
      | Err e \<Rightarrow> R (Some e) (aw, s1)
      | Panic \<Rightarrow> R None (aw, s1))"
  using assms
  by (cases r) (simp_all add: wp_def async_writer_write_def with_self_def st_bind_def on_world_def put_self_def st_lift_def)

lemma deferred_write_wp:
  assumes at: "async_writer_at D aw s tp i content"
  shows "wp (async_writer_write tk bs)
     (\<lambda>n x. n \<le> length bs \<and> progress D {i} s (snd x) \<and> async_writer_at D (fst x) (snd x) tp i (content @ take n bs)
        \<and> resized aw (fst x))
     (\<lambda>_ x. progress D {i} s (snd x) \<and> fst x = aw) (aw, s)"
proof -
  let ?fd = "aw_file aw" and ?cs = "unat (content_start (aw_layout aw))"
  from at have h: "sole_handle (snd s) ?fd i" and len: "unat (aw_content_length aw) = length content"
    by (simp_all add: async_writer_at_def)
  obtain r s1 where run: "tk_write tk ?fd bs s = (r, s1)" by (metis surj_pair)
  note spec = wp_run [OF one_write [OF h] run]
  show ?thesis
  proof (cases r)
    case (Ok n)
    with spec have p: "progress D {i} s s1" and n: "n \<le> length bs" and acc: "accepted D ?fd i s s1
        (splice (promised_pos D s ?fd) (take n bs) (promised_data D s i)) (promised_pos D s ?fd + n)" by simp_all
    from p have u: "undisturbed (insert i (busy_files D (fst s))) (snd s) (snd s1)" by (simp add: progress_def)
    have names: "w_names (snd s1) = w_names (snd s)" by (rule undisturbedD(1) [OF u])
    have sole: "sole_handle (snd s1) ?fd i"
      by (rule sole_handle_undisturbed [OF u]) (use at in \<open>simp add: async_writer_at_def\<close>)
    have "async_writer_at D (aw\<lparr>aw_content_length := aw_content_length aw + of_nat n\<rparr>) s1 tp i (content @ take n bs)"
      if "unat (aw_content_length aw) + n < 2 ^ 64"
    proof -
      have l: "unat (aw_content_length aw + of_nat n) = length (content @ take n bs)"
        using unat_add_of_nat [OF that] len n by simp
      have acc': "?fd \<in> failing_handles D (fst s1) \<or> promised_pos D s1 ?fd = ?cs + length (content @ take n bs)
          \<and> stored_content ?cs (content @ take n bs) (promised_data D s1 i)"
      proof (cases "?fd \<in> failing_handles D (fst s1)")
        case False
        then have "promised_pos D s ?fd = ?cs + length content" "stored_content ?cs content (promised_data D s i)"
          using acc at by (simp_all add: accepted_def async_writer_at_def)
        with False acc n stored_content_splice [of ?cs content "promised_data D s i" "take n bs"] show ?thesis
          by (simp add: accepted_def add.assoc)
      qed simp
      then show ?thesis
        using at l names sole unfolding async_writer_at_def by simp
    qed
    moreover have "resized aw (aw\<lparr>aw_content_length := c\<rparr>)" for c by (auto simp: resized_def)
    ultimately show ?thesis
      unfolding unfold_run [OF run] using Ok p n by simp
  next
    case (Err e)
    then show ?thesis unfolding unfold_run [OF run] using spec by simp
  next
    case Panic
    then show ?thesis unfolding unfold_run [OF run] using spec by simp
  qed
qed

lemma deferred_write_all_wp:
  assumes at: "async_writer_at D aw s tp i content"
  shows "wp (write_all (async_writer_write tk) bs)
     (\<lambda>_ x. progress D {i} s (snd x) \<and> async_writer_at D (fst x) (snd x) tp i (content @ bs)
        \<and> resized aw (fst x))
     (\<lambda>_ x. progress D {i} s (snd x) \<and> resized aw (fst x)) (aw, s)"
proof -
  let ?I = "\<lambda>out x. progress D {i} s (snd x) \<and> async_writer_at D (fst x) (snd x) tp i (content @ out)
        \<and> resized aw (fst x)"
  show ?thesis
  proof (rule write_all_wp [where I = ?I])
    fix out rest and x :: "'hn async_object_writer \<times> 't runtime"
    assume "?I out x"
    then obtain aw1 s1 where x: "x = (aw1, s1)" and p: "progress D {i} s s1"
      and at1: "async_writer_at D aw1 s1 tp i (content @ out)" and aw1: "resized aw aw1"
      by (cases x) auto
    show "wp (async_writer_write tk rest) (\<lambda>n y. n \<le> length rest \<and> ?I (out @ take n rest) y \<and> (n = 0 \<longrightarrow>
        progress D {i} s (snd y) \<and> resized aw (fst y)))
        (\<lambda>_ y. progress D {i} s (snd y) \<and> resized aw (fst y)) x"
      unfolding x
      by (rule wp_conseq [OF deferred_write_wp [OF at1]]) (auto simp: aw1 intro: progress_trans [OF p] resized_trans [OF aw1])
  next
    show "?I [] (aw, s)" using at by simp
  qed
qed

lemma deferred_temp_file_wp:
  "wp (async_temp_file_loop tk E p n)
     (\<lambda>(fd, tp) s'. \<exists>a b. undisturbed (busy_files D (fst s)) (snd s) a \<and> w_names (snd s) tp = None \<and> tp \<noteq> p \<and> temporary tp
        \<and> calm (with_new_file tp a) b \<and> undisturbed (busy_files D (fst s)) b (snd s')
        \<and> busy_files D (fst s') \<subseteq> busy_files D (fst s) \<and> fd = w_next_fd (snd s) \<and> fd \<notin> failing_handles D (fst s')
        \<and> promised_data D s' (w_next (snd s)) = [] \<and> promised_pos D s' fd = 0)
     (\<lambda>_. progress D {} s) s"
proof (induction n arbitrary: s)
  case 0
  then show ?case by simp
next
  case (Suc n)
  let ?w1 = "(snd s)\<lparr>w_counter := w_counter (snd s) + 1\<rparr>" and ?tp = "temp_candidate E p (w_counter (snd s))"
  let ?s1 = "(fst s, ?w1)"
  have u1: "undisturbed (busy_files D (fst s)) (snd s) ?w1" by (rule undisturbed_calm) (rule calm_counter)
  then have p1: "progress D {} s ?s1" by (simp add: progress_def)
  obtain r s2 where run: "tk_create_new tk ?tp ?s1 = (r, s2)" by (metis surj_pair)
  note spec = wp_run [OF create_new run]
  show ?case
  proof (cases r)
    case (Ok fd)
    with spec obtain a b where "undisturbed (busy_files D (fst s)) ?w1 a" "calm (with_new_file ?tp a) b"
      "undisturbed (busy_files D (fst s)) b (snd s2)" "w_names (snd s) ?tp = None" "fd = w_next_fd (snd s)"
      "busy_files D (fst s2) \<subseteq> busy_files D (fst s)" "fd \<notin> failing_handles D (fst s2)"
      "promised_data D s2 (w_next (snd s)) = []" "promised_pos D s2 fd = 0"
      by auto
    with run Ok u1 temp_candidate_facts(1) [of E p] temp_candidate_temporary [of E p] show ?thesis
      by (auto simp: wp_def st_bind_def next_temp_counter_def on_world_def Let_def intro: undisturbed_trans)
  next
    case (Err k)
    then have p2: "progress D {} s s2" using spec progress_trans [OF p1] by simp
    show ?thesis
    proof (cases "k = AlreadyExists")
      case True
      then have again: "wp (async_temp_file_loop tk E p (Suc n)) Q R s \<longleftrightarrow> wp (async_temp_file_loop tk E p n) Q R s2" for Q R
        using run Err by (simp add: wp_def st_bind_def next_temp_counter_def on_world_def Let_def)
      from p2 have u2: "undisturbed (busy_files D (fst s)) (snd s) (snd s2)" "busy_files D (fst s2) \<subseteq> busy_files D (fst s)"
        by (simp_all add: progress_def)
      show ?thesis
        unfolding again
      proof (rule wp_conseq [OF Suc [of s2]], goal_cases)
        case (1 x s3)
        then obtain tp a b where "x = (w_next_fd (snd s2), tp)" "calm (with_new_file tp a) b"
          and a: "undisturbed (busy_files D (fst s2)) (snd s2) a" and b: "undisturbed (busy_files D (fst s2)) b (snd s3)"
          and "w_names (snd s2) tp = None \<and> tp \<noteq> p \<and> temporary tp \<and> busy_files D (fst s3) \<subseteq> busy_files D (fst s2)
            \<and> w_next_fd (snd s2) \<notin> failing_handles D (fst s3)
            \<and> promised_data D s3 (w_next (snd s2)) = [] \<and> promised_pos D s3 (w_next_fd (snd s2)) = 0"
          by auto
        moreover have "undisturbed (busy_files D (fst s)) (snd s) a" "undisturbed (busy_files D (fst s)) b (snd s3)"
          by (rule undisturbed_trans [OF u2(1) undisturbed_mono [OF a u2(2)]], rule undisturbed_mono [OF b u2(2)])
        ultimately show ?case using u2(2) undisturbedD(1,3,4) [OF u2(1)] by auto
      next
        case (2 e s3)
        then show ?case by (rule progress_trans [OF p2])
      qed
    next
      case False
      then show ?thesis
        using run Err p2 by (simp add: wp_def st_bind_def next_temp_counter_def on_world_def Let_def)
    qed
  next
    case Panic
    with spec run progress_trans [OF p1] show ?thesis
      by (simp add: wp_def st_bind_def next_temp_counter_def on_world_def Let_def)
  qed
qed

lemma deferred_create_wp:
  assumes ok: "world_ok (snd s)"
  shows "wp (async_create_writer tk E p opts)
     (\<lambda>aw s'. \<exists>tp l. compute (co_layout opts) (metadata_size E (co_metadata opts)) (tag_block_size (co_tags opts)) = Ok l
        \<and> as_writer aw = fresh_writer E p opts l tp (w_next_fd (snd s)) \<and> co_compression opts = NoCompression
        \<and> w_names (snd s) tp = None \<and> temporary tp \<and> tp \<noteq> p
        \<and> async_writer_at D aw s' tp (w_next (snd s)) [] \<and> w_names (snd s') = (w_names (snd s))(tp \<mapsto> w_next (snd s))
        \<and> quiet (untouched (busy_files D (fst s)) (snd s) - {tp}) (snd s) (snd s')
        \<and> busy_files D (fst s') \<subseteq> insert (w_next (snd s)) (busy_files D (fst s)) \<and> world_ok (snd s'))
     (\<lambda>_ s'. quiet (untouched (busy_files D (fst s)) (snd s) \<inter> old_names (snd s) p) (snd s) (snd s')) s"
  (is "wp _ ?Q ?R _")
proof -
  let ?c = "compute (co_layout opts) (metadata_size E (co_metadata opts)) (tag_block_size (co_tags opts))"
    and ?B = "busy_files D (fst s)" and ?fd = "w_next_fd (snd s)" and ?i = "w_next (snd s)"
  let ?aw = "\<lambda>l tp. \<lparr>aw_file = ?fd, aw_temp_path = Some tp, aw_final_path = p, aw_layout = l,
             aw_layout_options = co_layout opts, aw_compression = co_compression opts,
             aw_metadata = co_metadata opts, aw_tags = co_tags opts, aw_content_length = 0,
             aw_sync = co_sync opts\<rparr>"
  have "wp (async_create_temp_file tk E p) (\<lambda>(fd, tp) s1. wp (tk_seek tk fd (unat (content_start l)))
          (\<lambda>_. ?Q (?aw l tp)) (\<lambda>_ s2. ?R None (async_drop_writer E (?aw l tp) s2)) s1 \<and> fd = ?fd) ?R s"
    if l: "?c = Ok l" and plain: "co_compression opts = NoCompression" for l
    unfolding async_create_temp_file_def
  proof (rule wp_conseq [OF deferred_temp_file_wp], goal_cases)
    case (1 x s1)
    then obtain tp a b where x: "x = (?fd, tp)" and ab: "undisturbed ?B (snd s) a" "calm (with_new_file tp a) b"
      "undisturbed ?B b (snd s1)" "w_names (snd s) tp = None" and tp: "tp \<noteq> p" "temporary tp"
      and s1: "busy_files D (fst s1) \<subseteq> ?B" "?fd \<notin> failing_handles D (fst s1)" "promised_data D s1 ?i = []" "promised_pos D s1 ?fd = 0"
      by auto
    note new = created_behind [OF ok ab]
    have fresh: "w_names (snd s) q \<noteq> Some ?i" for q using ok unfolding world_ok_def by blast
    note spec = seek [OF new(4)]
    have later: "quiet (untouched ?B (snd s) - {tp}) (snd s) (snd s2)" "undisturbed (insert ?i ?B) (snd s1) (snd s2)"
      "busy_files D (fst s2) \<subseteq> insert ?i ?B" if "progress D {?i} s1 s2" for s2
    proof -
      show u: "undisturbed (insert ?i ?B) (snd s1) (snd s2)"
        using that s1(1) by (auto simp: progress_def elim!: undisturbed_mono)
      have "quiet (untouched ?B (snd s) - {tp}) (snd s1) (snd s2)"
        by (rule quiet_mono [OF undisturbedD(6) [OF u]]) (use fresh in \<open>auto simp: untouched_def new(2)\<close>)
      then show "quiet (untouched ?B (snd s) - {tp}) (snd s) (snd s2)" by (rule quiet_trans [OF new(1)])
      show "busy_files D (fst s2) \<subseteq> insert ?i ?B" using that s1(1) by (auto simp: progress_def)
    qed
    have dropped: "?R None (async_drop_writer E (?aw l tp) s2)" if "progress D {?i} s1 s2" for s2
    proof -
      have "quiet (untouched ?B (snd s) - {tp}) (snd s) (snd (async_drop_writer E (?aw l tp) s2))"
        unfolding async_drop_eq snd_conv
        by (rule quiet_trans [OF later(1) [OF that] drop_writer_quiet]) (simp add: as_writer_def)
      then show ?thesis by (rule quiet_mono) (use tp ab(4) in \<open>auto simp: old_names_def\<close>)
    qed
    have made: "?Q (?aw l tp) s2"
      if p: "progress D {?i} s1 s2" and acc: "accepted D ?fd ?i s1 s2 (promised_data D s1 ?i) (unat (content_start l))" for s2
    proof -
      note lt = later [OF p]
      have "as_writer (?aw l tp) = fresh_writer E p opts l tp ?fd"
        using plain by (simp add: as_writer_def fresh_writer_def)
      moreover have "async_writer_at D (?aw l tp) s2 tp ?i []"
        unfolding async_writer_at_def
        using acc s1(3) tp(1) fresh sole_handle_undisturbed [OF lt(2) new(4)]
        by (auto simp: accepted_def stored_content_def new(2) undisturbedD(1) [OF lt(2)])
      moreover have "w_names (snd s2) = (w_names (snd s))(tp \<mapsto> ?i)" by (simp add: undisturbedD(1) [OF lt(2)] new(2))
      moreover have "world_ok (snd s2)" by (rule world_ok_undisturbed [OF lt(2) new(3)])
      ultimately show ?thesis using l plain ab(4) tp lt(1,3) by blast
    qed
    show ?case
      unfolding x prod.case
      by (rule conjI [OF _ refl], rule wp_conseq [OF spec]) (erule conjE, rule made, assumption+, rule dropped)
  next
    case (2 e s')
    then show ?case
      by (auto simp: progress_def untouched_def intro: quiet_mono [OF undisturbedD(6)])
  qed
  then show ?thesis
    by (cases ?c) (auto simp: async_create_writer_def ensure_supported_def wp_def st_bind_def st_lift_def Let_def
        split: prod.splits res.splits)
qed

end

section \<open>Replacing a file\<close>

text \<open>
  A replacement of \<open>p\<close> was begun, under the name \<open>tp\<close> and in the first file that was free: nothing but
  that name is new, and paths of files that no work was outstanding on show what they showed.
\<close>

definition begun :: "'t outstanding \<Rightarrow> nat set \<Rightarrow> path \<Rightarrow> path \<Rightarrow> world \<Rightarrow> 't runtime \<Rightarrow> bool" where
  "begun D B p tp w s \<longleftrightarrow>
     w_names w tp = None \<and> tp \<noteq> p \<and> temporary tp \<and> (\<forall>q. w_names w q \<noteq> Some (w_next w)) \<and>
     w_names (snd s) = (w_names w)(tp \<mapsto> w_next w) \<and>
     quiet (untouched B w - {tp}) w (snd s) \<and> busy_files D (fst s) \<subseteq> insert (w_next w) B"

lemma begunD:
  assumes "begun D B p tp w s"
  shows "w_names w tp = None" and "tp \<noteq> p" and "temporary tp" and "w_names w q \<noteq> Some (w_next w)"
    and "w_names (snd s) = (w_names w)(tp \<mapsto> w_next w)" and "quiet (untouched B w - {tp}) w (snd s)"
    and "busy_files D (fst s) \<subseteq> insert (w_next w) B"
  using assms by (simp_all add: begun_def)

lemma begun_mono:
  assumes "begun D B p tp w s" and "B \<subseteq> B'"
  shows "begun D B' p tp w s"
proof -
  have "quiet (untouched B' w - {tp}) w (snd s)"
    by (rule quiet_mono [OF begunD(6) [OF assms(1)]]) (use assms(2) in \<open>auto simp: untouched_def\<close>)
  with assms show ?thesis by (auto simp: begun_def)
qed

lemma begun_progress:
  assumes b: "begun D B p tp w s1" and p: "progress D I s1 s2" and I: "I \<subseteq> insert (w_next w) B"
  shows "begun D B p tp w s2"
proof -
  note b' = begunD [OF b]
  have u: "undisturbed (insert (w_next w) B) (snd s1) (snd s2)" and B: "busy_files D (fst s2) \<subseteq> insert (w_next w) B"
    using p b'(7) I by (auto simp: progress_def elim!: undisturbed_mono)
  have "quiet (untouched B w - {tp}) w (snd s2)"
    by (rule quiet_trans [OF b'(6) quiet_mono [OF undisturbedD(6) [OF u]]])
       (use b'(4) in \<open>auto simp: untouched_def b'(5)\<close>)
  with b B undisturbedD(1) [OF u] show ?thesis by (simp add: begun_def)
qed

lemma begun_untouched:
  assumes "begun D B p tp w s"
  shows "untouched B w - {tp} \<subseteq> untouched (insert (w_next w) (busy_files D (fst s))) (snd s)"
    and "untouched B w - {tp} \<subseteq> untouched (busy_files D (fst s)) (snd s)"
  using begunD(4) [OF assms] begunD(7) [OF assms] by (auto simp: untouched_def begunD(5) [OF assms])

lemma begun_old_names:
  assumes "begun D B p tp w s"
  shows "old_names w p \<inter> {tp} = {}" and "old_names w p \<subseteq> old_names (snd s) p"
  using begunD(1-3,5) [OF assms] by (auto simp: old_names_def)

text \<open>
  The outcome of a replacement, whatever failed: the path shows nothing but what it showed or the new
  version, other old paths show what they showed, and on success the new version is there for good.
\<close>

definition replaced_safely ::
  "'t outstanding \<Rightarrow> nat set \<Rightarrow> path \<Rightarrow> (u8 list \<Rightarrow> bool) \<Rightarrow> 'hn tags \<Rightarrow> world \<Rightarrow> ('hn tux_object, 'e) res \<Rightarrow> 't runtime \<Rightarrow> bool" where
  "replaced_safely D B p P metadata w r s \<longleftrightarrow>
     atomic_update p P w (snd s) \<and> quiet (untouched B w \<inter> old_names w p - {p}) w (snd s) \<and>
     (case r of
        Ok ob \<Rightarrow> (\<exists>i. w_names (snd s) p = Some i \<and> i \<notin> busy_files D (fst s) \<and> P (w_data (snd s) i))
          \<and> ob_path ob = p \<and> ob_metadata ob = metadata
      | _ \<Rightarrow> True)"

lemma refused_safely:
  assumes "quiet (untouched B w \<inter> old_names w p) w (snd s)" and "p \<in> untouched B w"
  shows "replaced_safely D B p P metadata w (Err e) s" and "replaced_safely D B p P metadata w Panic s"
proof -
  have "quiet {p} w (snd s)" by (rule quiet_mono [OF assms(1)]) (use assms(2) in \<open>simp add: old_names_def\<close>)
  moreover have "quiet (untouched B w \<inter> old_names w p - {p}) w (snd s)"
    by (rule quiet_mono [OF assms(1)]) blast
  ultimately show "replaced_safely D B p P metadata w (Err e) s" and "replaced_safely D B p P metadata w Panic s"
    by (simp_all add: replaced_safely_def quiet_atomic)
qed

lemma replaced_after:
  assumes q: "quiet N w (snd s)" and r: "replaced_safely D B' p P metadata (snd s) r s'"
    and N: "p \<in> N" "untouched B w \<inter> old_names w p - {p} \<subseteq> N"
    and old: "untouched B w \<inter> old_names w p - {p} \<subseteq> untouched B' (snd s) \<inter> old_names (snd s) p"
  shows "replaced_safely D B p P metadata w r s'"
proof -
  have "quiet {p} w (snd s)" by (rule quiet_mono [OF q]) (use N(1) in simp)
  then have "atomic_update p P w (snd s')"
    using r atomic_trans [OF quiet_atomic] by (auto simp: replaced_safely_def)
  moreover have "quiet (untouched B w \<inter> old_names w p - {p}) w (snd s')"
    by (rule quiet_trans [OF quiet_mono [OF q N(2)] quiet_mono [of "untouched B' (snd s) \<inter> old_names (snd s) p - {p}"]])
       (use r old in \<open>auto simp: replaced_safely_def\<close>)
  ultimately show ?thesis using r by (simp add: replaced_safely_def)
qed

text \<open>A replacement that was begun, and dropped; and one that was begun and finished.\<close>

lemma begun_dropped:
  assumes b: "begun D B p tp w s" and "aw_temp_path aw = Some tp" and free: "p \<in> untouched B w"
  shows "replaced_safely D B p P metadata w (Err e) (async_drop_writer E aw s)"
    and "replaced_safely D B p P metadata w Panic (async_drop_writer E aw s)"
proof -
  have "quiet (untouched B w \<inter> old_names w p) w (snd (async_drop_writer E aw s))"
    unfolding async_drop_eq snd_conv
    by (rule quiet_trans [OF quiet_mono [OF begunD(6) [OF b]] drop_writer_quiet])
       (use begun_old_names(1) [OF b] assms(2) in \<open>auto simp: as_writer_def\<close>)
  from refused_safely [OF this free] show "replaced_safely D B p P metadata w (Err e) (async_drop_writer E aw s)"
    and "replaced_safely D B p P metadata w Panic (async_drop_writer E aw s)" .
qed

lemma begun_then:
  assumes b: "begun D B p tp w s" and free: "p \<in> untouched B w"
    and r: "replaced_safely D (insert (w_next w) (busy_files D (fst s))) p P metadata (snd s) r s'"
  shows "replaced_safely D B p P metadata w r s'"
proof (rule replaced_after [OF begunD(6) [OF b] r])
  show "p \<in> untouched B w - {tp}" using free begunD(2) [OF b] by simp
  show "untouched B w \<inter> old_names w p - {p} \<subseteq> untouched B w - {tp}" using begun_old_names(1) [OF b] by blast
  then show "untouched B w \<inter> old_names w p - {p}
      \<subseteq> untouched (insert (w_next w) (busy_files D (fst s))) (snd s) \<inter> old_names (snd s) p"
    using begun_old_names(2) [OF b] begun_untouched(1) [OF b] by blast
qed

context deferring begin

lemma create_begins:
  assumes ok: "world_ok (snd s)"
  shows "wp (async_create_writer tk E p opts)
     (\<lambda>aw s'. \<exists>tp l. compute (co_layout opts) (metadata_size E (co_metadata opts)) (tag_block_size (co_tags opts)) = Ok l
        \<and> as_writer aw = fresh_writer E p opts l tp (w_next_fd (snd s)) \<and> co_compression opts = NoCompression
        \<and> async_writer_at D aw s' tp (w_next (snd s)) [] \<and> begun D (busy_files D (fst s)) p tp (snd s) s' \<and> world_ok (snd s'))
     (\<lambda>_ s'. quiet (untouched (busy_files D (fst s)) (snd s) \<inter> old_names (snd s) p) (snd s) (snd s')) s"
proof (rule wp_conseq [OF deferred_create_wp [OF ok]], goal_cases)
  case (1 aw s')
  have "w_names (snd s) q \<noteq> Some (w_next (snd s))" for q using ok unfolding world_ok_def by blast
  with 1 show ?case unfolding begun_def by blast
qed

text \<open>Finishing a writer whose sections fit.\<close>

lemma finish_fits_safe:
  assumes H: "header_name_ok (header_names E)" and at: "async_writer_at D aw s tp i content"
    and plain: "aw_compression aw = NoCompression"
    and secs: "sections_ok (aw_metadata aw) (aw_tags aw)" and fit: "async_finish_layout E aw = Ok (Some l)"
    and free: "aw_final_path aw \<in> untouched (busy_files D (fst s)) (snd s)"
  shows "\<exists>r s'. async_finish (Suc n) tk E aw s = Some (r, s')
     \<and> replaced_safely D (insert i (busy_files D (fst s))) (aw_final_path aw)
         (version_of E NoCompression (aw_metadata aw) (aw_tags aw) content) (aw_metadata aw) (snd s) r s'
     \<and> (\<forall>ob. r = Ok ob \<longrightarrow> w_names (snd s') = (w_names (snd s))(tp := None, aw_final_path aw \<mapsto> i)
          \<and> busy_files D (fst s') \<subseteq> insert i (busy_files D (fst s)))"
proof -
  let ?p = "aw_final_path aw" and ?N = "new_object E (as_writer aw) l content" and ?B = "busy_files D (fst s)"
  let ?P = "version_of E NoCompression (aw_metadata aw) (aw_tags aw) content"
  note l = repartition_Some(1,2) [OF fit [unfolded async_finish_layout_def]]
  obtain r s' where fin: "async_consume E (async_finish_in_place tk E l) aw s = (r, s')" by (metis surj_pair)
  have P: "?P d" if "?N d" for d
    using that unfolding version_of_def new_object_def
    by (intro exI [of _ "finish_header (as_writer aw) l"]) (simp add: plain finish_header_def build_header_def as_writer_def)
  have N: "untouched (insert i ?B) (snd s) - {?p} \<subseteq> untouched ?B (snd s) - {?p, tp}"
    using async_writer_atD(3) [OF at] by (auto simp: untouched_def)
  note spec = wp_run [OF deferred_finish_wp [OF H at secs l free] fin]
  have "atomic_update ?p ?P (snd s) (snd s') \<and> quiet (untouched (insert i ?B) (snd s) \<inter> old_names (snd s) ?p - {?p}) (snd s) (snd s')"
  proof
    have "atomic_update ?p ?N (snd s) (snd s')" using spec by (cases r) auto
    then show "atomic_update ?p ?P (snd s) (snd s')" using P by (rule atomic_mono)
    have "quiet (untouched ?B (snd s) - {?p, tp}) (snd s) (snd s')" using spec by (cases r) auto
    then show "quiet (untouched (insert i ?B) (snd s) \<inter> old_names (snd s) ?p - {?p}) (snd s) (snd s')"
      by (rule quiet_mono) (use N in blast)
  qed
  moreover have "w_names (snd s') = (w_names (snd s))(tp := None, ?p \<mapsto> i) \<and> busy_files D (fst s') \<subseteq> insert i ?B
      \<and> i \<notin> busy_files D (fst s') \<and> ?P (w_data (snd s') i) \<and> ob_path ob = ?p \<and> ob_metadata ob = aw_metadata aw"
    if "r = Ok ob" for ob
    using spec that P by (auto simp: from_parts_def)
  ultimately show ?thesis
    using fin fit by (cases r) (auto simp: replaced_safely_def)
qed

text \<open>A writer that \<open>create\<close> made, after its content was written: its sections fit.\<close>

lemma finish_created_safe:
  assumes H: "header_name_ok (header_names E)" and b: "begun D B p tp w s"
    and at: "async_writer_at D aw' s tp (w_next w) content"
    and made: "compute (co_layout opts) (metadata_size E (co_metadata opts)) (tag_block_size (co_tags opts)) = Ok l"
      "as_writer aw = fresh_writer E p opts l tp fd" "co_compression opts = NoCompression" "resized aw aw'"
    and secs: "sections_ok (co_metadata opts) (co_tags opts)" and free: "p \<in> untouched B w"
  shows "\<exists>r s'. async_finish (Suc n) tk E aw' s = Some (r, s')
     \<and> replaced_safely D B p (version_of E NoCompression (co_metadata opts) (co_tags opts) content) (co_metadata opts) w r s'
     \<and> (\<forall>ob. r = Ok ob \<longrightarrow> w_names (snd s') = (w_names w)(p \<mapsto> w_next w) \<and> busy_files D (fst s') \<subseteq> insert (w_next w) B)"
proof -
  have f: "aw_final_path aw' = p" "aw_compression aw' = NoCompression" "aw_layout aw' = l" "aw_layout_options aw' = co_layout opts"
    "aw_metadata aw' = co_metadata opts" "aw_tags aw' = co_tags opts"
    using made(2-4) by (auto simp: resized_def as_writer_def fresh_writer_def)
  obtain l' where fit: "async_finish_layout E aw' = Ok (Some l')"
    using repartition_fits_again [OF made(1)] by (auto simp: async_finish_layout_def f)
  have free': "aw_final_path aw' \<in> untouched (busy_files D (fst s)) (snd s)"
    using free begunD(2) [OF b] begun_untouched(2) [OF b] by (auto simp: f)
  from secs have secs': "sections_ok (aw_metadata aw') (aw_tags aw')" by (simp add: f)
  obtain r s' where run: "async_finish (Suc n) tk E aw' s = Some (r, s')"
    and safe: "replaced_safely D (insert (w_next w) (busy_files D (fst s))) p
        (version_of E NoCompression (co_metadata opts) (co_tags opts) content) (co_metadata opts) (snd s) r s'"
    and names: "\<And>ob. r = Ok ob \<Longrightarrow> w_names (snd s') = (w_names (snd s))(tp := None, p \<mapsto> w_next w)
        \<and> busy_files D (fst s') \<subseteq> insert (w_next w) (busy_files D (fst s))"
    using finish_fits_safe [OF H at f(2) secs' fit free', of n] unfolding f by blast
  have "(w_names w)(tp \<mapsto> i, tp := None, p \<mapsto> i) = (w_names w)(p \<mapsto> i)" for i
    using begunD(1,2) [OF b] by auto
  then have "w_names (snd s') = (w_names w)(p \<mapsto> w_next w) \<and> busy_files D (fst s') \<subseteq> insert (w_next w) B" if "r = Ok ob" for ob
    using names [OF that] begunD(7) [OF b] by (auto simp: begunD(5) [OF b])
  with run begun_then [OF b free safe] show ?thesis by blast
qed

end

text \<open>A failed replacement of a writer's own file, and the writer is dropped.\<close>

lemma safely_dropped:
  fixes r :: "('hn tux_object, 'e) res"
  assumes "replaced_safely D B p P metadata w r s" and "\<And>ob. r \<noteq> Ok ob"
    and tp: "aw_temp_path aw = Some tp" "tp \<notin> untouched B w" "tp \<noteq> p"
  shows "replaced_safely D B p P metadata w r (async_drop_writer E aw s)"
proof -
  have q: "quiet (- {tp}) (snd s) (snd (async_drop_writer E aw s))"
    unfolding async_drop_eq snd_conv by (rule drop_writer_quiet) (simp add: tp as_writer_def)
  have "atomic_update p P w (snd (async_drop_writer E aw s))"
    by (rule atomic_trans [OF _ quiet_atomic [OF quiet_mono [OF q]]]) (use assms(1) tp(3) in \<open>auto simp: replaced_safely_def\<close>)
  moreover have "quiet (untouched B w \<inter> old_names w p - {p}) w (snd (async_drop_writer E aw s))"
    by (rule quiet_trans [OF _ quiet_mono [OF q]]) (use assms(1) tp(2) in \<open>auto simp: replaced_safely_def\<close>)
  moreover have "(case r of Ok ob \<Rightarrow> X ob | _ \<Rightarrow> True)" for X :: "'hn tux_object \<Rightarrow> bool"
    using assms(2) by (cases r) auto
  ultimately show ?thesis by (simp add: replaced_safely_def)
qed

end
