(* ===== verification/AsyncCopying.thy ===== *)
theory AsyncCopying
  imports AsyncFaults
begin

text \<open>
  Moving content from one file to another on a runtime that defers its work: \<open>tokio::io::copy\<close>, and the
  operations of \<open>src/src/fs/async_io.rs\<close> that rest on it, finishing a writer whose sections outgrew
  their space and updating an object.
\<close>

section \<open>Copying\<close>

text \<open>
  What a copy may do: read, write a piece of what it has read and not yet written, and flush, in any
  order, until one of them fails. The lists are what was read and what was written; the flags say
  that the last read found the end, and that nothing failed.
\<close>

inductive copying ::
  "(nat \<Rightarrow> ('r \<times> 's, u8 list, io_kind) st) \<Rightarrow> (u8 list \<Rightarrow> ('w \<times> 's, nat, io_kind) st) \<Rightarrow> ('w \<times> 's, unit, io_kind) st
     \<Rightarrow> 'r \<times> 'w \<times> 's \<Rightarrow> u8 list \<Rightarrow> u8 list \<Rightarrow> bool \<Rightarrow> bool \<Rightarrow> 'r \<times> 'w \<times> 's \<Rightarrow> bool"
  for rd wr fl x where
  starts: "copying rd wr fl x [] [] False True x"
| reads: "copying rd wr fl x got put fin True (c, aw, s) \<Longrightarrow> 0 < n \<Longrightarrow> rd n (c, s) = (Ok bs, (c', s')) \<Longrightarrow>
     copying rd wr fl x (got @ bs) put (bs = []) True (c', aw, s')"
| writes: "copying rd wr fl x got put fin True (c, aw, s) \<Longrightarrow> got = put @ chunk @ rest \<Longrightarrow>
     wr chunk (aw, s) = (Ok n, (aw', s')) \<Longrightarrow> copying rd wr fl x got (put @ take n chunk) fin True (c, aw', s')"
| flushes: "copying rd wr fl x got put fin True (c, aw, s) \<Longrightarrow> fl (aw, s) = (Ok (), (aw', s')) \<Longrightarrow>
     copying rd wr fl x got put fin True (c, aw', s')"
| reading_fails: "copying rd wr fl x got put fin True (c, aw, s) \<Longrightarrow> 0 < n \<Longrightarrow> rd n (c, s) = (r, (c', s')) \<Longrightarrow>
     \<forall>bs. r \<noteq> Ok bs \<Longrightarrow> copying rd wr fl x got put fin False (c', aw, s')"
| writing_fails: "copying rd wr fl x got put fin True (c, aw, s) \<Longrightarrow> wr chunk (aw, s) = (r, (aw', s')) \<Longrightarrow>
     \<forall>n. r \<noteq> Ok n \<Longrightarrow> copying rd wr fl x got put fin False (c, aw', s')"
| flushing_fails: "copying rd wr fl x got put fin True (c, aw, s) \<Longrightarrow> fl (aw, s) = (r, (aw', s')) \<Longrightarrow>
     r \<noteq> Ok () \<Longrightarrow> copying rd wr fl x got put fin False (c, aw', s')"

text \<open>A handle on a file with no work outstanding and no failure to report.\<close>

definition at_rest :: "'t outstanding \<Rightarrow> 't runtime \<Rightarrow> nat \<Rightarrow> nat \<Rightarrow> bool" where
  "at_rest D s fd j \<longleftrightarrow> (\<exists>f. w_open (snd s) fd = Some f \<and> of_inode f = j) \<and>
     j \<notin> busy_files D (fst s) \<and> fd \<notin> failing_handles D (fst s)"

text \<open>What is promised of a handle stays promised, or it is failing; and a handle at rest stays at rest.\<close>

definition stays :: "'t outstanding \<Rightarrow> nat \<Rightarrow> 't runtime \<Rightarrow> 't runtime \<Rightarrow> bool" where
  "stays D g s s' \<longleftrightarrow>
     (\<forall>j. sole_handle (snd s) g j \<longrightarrow>
        sole_handle (snd s') g j \<and> accepted D g j s s' (promised_data D s j) (promised_pos D s g)) \<and>
     (\<forall>j. at_rest D s g j \<longrightarrow>
        at_rest D s' g j \<and> promised_pos D s' g = promised_pos D s g \<and> w_data (snd s') j = w_data (snd s) j)"

definition apart :: "world \<Rightarrow> nat \<Rightarrow> nat \<Rightarrow> bool" where
  "apart w g fd \<longleftrightarrow> g \<noteq> fd \<and> (\<forall>f f'. w_open w g = Some f \<longrightarrow> w_open w fd = Some f' \<longrightarrow> of_inode f \<noteq> of_inode f')"

lemma stays_refl [simp]: "stays D g s s"
  by (simp add: stays_def accepted_def)

lemma stays_trans:
  assumes "stays D g s s1" and "stays D g s1 s2"
  shows "stays D g s s2"
proof -
  have "sole_handle (snd s2) g j \<and> accepted D g j s s2 (promised_data D s j) (promised_pos D s g)" if "sole_handle (snd s) g j" for j
    using assms that unfolding stays_def accepted_def by metis
  moreover have "at_rest D s2 g j \<and> promised_pos D s2 g = promised_pos D s g \<and> w_data (snd s2) j = w_data (snd s) j"
    if "at_rest D s g j" for j
    using assms that unfolding stays_def by metis
  ultimately show ?thesis unfolding stays_def by blast
qed

text \<open>
  More of what the documentation of tokio promises: a read of a file with no work outstanding returns
  bytes of the file; an operation on one file leaves other files and their handles alone; a copy
  returns when the end was reached and everything was written.
\<close>

locale deferring_copies = deferring tk D for tk :: "('t, 'hn) tokio" and D :: "'t outstanding" +
  assumes read: "at_rest D s fd j \<Longrightarrow>
      wp (tk_read tk fd n) (\<lambda>bs s'. progress D {} s s' \<and> at_rest D s' fd j \<and> length bs \<le> n
           \<and> bs = take (length bs) (drop (promised_pos D s fd) (w_data (snd s) j))
           \<and> (bs = [] \<longrightarrow> n = 0 \<or> length (w_data (snd s) j) \<le> promised_pos D s fd)
           \<and> promised_pos D s' fd = promised_pos D s fd + length bs)
         (\<lambda>_. progress D {} s) s"
    and seek_at_rest: "at_rest D s fd j \<Longrightarrow>
      wp (tk_seek tk fd n) (\<lambda>_ s'. progress D {} s s' \<and> at_rest D s' fd j \<and> promised_pos D s' fd = n)
         (\<lambda>_. progress D {} s) s"
    and others: "apart (snd s) g fd \<Longrightarrow> tk_read tk fd n s = (r, s') \<Longrightarrow> stays D g s s'"
      "apart (snd s) g fd \<Longrightarrow> tk_write tk fd bs s = (r', s') \<Longrightarrow> stays D g s s'"
      "apart (snd s) g fd \<Longrightarrow> tk_seek tk fd n s = (r'', s') \<Longrightarrow> stays D g s s'"
      "apart (snd s) g fd \<Longrightarrow> tk_flush tk fd s = (r'', s') \<Longrightarrow> stays D g s s'"
      "world_ok (snd s) \<Longrightarrow> g < w_next_fd (snd s) \<Longrightarrow> tk_create_new tk p s = (r''', s') \<Longrightarrow> stays D g s s'"
    and counting: "stays D g s (fst s, (snd s)\<lparr>w_counter := k\<rparr>)"
    and remove: "wp (tk_remove tk p)
         (\<lambda>_ s'. \<exists>a b. undisturbed (busy_files D (fst s)) (snd s) a \<and> calm (a\<lparr>w_names := (w_names a)(p := None)\<rparr>) b
            \<and> undisturbed (busy_files D (fst s)) b (snd s') \<and> busy_files D (fst s') \<subseteq> busy_files D (fst s))
         (\<lambda>_. progress D {} s) s"
    and read_exact: "at_rest D s fd j \<Longrightarrow>
      wp (tk_read_exact tk fd n) (\<lambda>bs s'. progress D {} s s' \<and> at_rest D s' fd j \<and> length bs = n
           \<and> bs = take n (drop (promised_pos D s fd) (w_data (snd s) j)))
         (\<lambda>_. progress D {} s) s"
    and copies: "tk_copy tk rd wr fl x = (rc, y) \<Longrightarrow>
         \<exists>got put fin ok. copying rd wr fl x got put fin ok y \<and> (\<forall>n. rc = Ok n \<longrightarrow> ok \<and> fin \<and> put = got)"

lemma at_rest_progress:
  assumes "at_rest D s fd j" and "progress D I s s'" and "j \<notin> I"
  shows "w_data (snd s') j = w_data (snd s) j"
  using assms undisturbedD(5) [of "busy_files D (fst s) \<union> I" "snd s" "snd s'" j] by (simp add: progress_def at_rest_def)

lemma async_writer_at_stays:
  assumes "async_writer_at D aw s tp i content" and "stays D (aw_file aw) s s'"
    and "w_names (snd s') tp = Some i" and "\<forall>q. w_names (snd s') q = Some i \<longrightarrow> q = tp"
  shows "async_writer_at D aw s' tp i content"
proof -
  have "sole_handle (snd s) (aw_file aw) i" by (rule async_writer_atD(4) [OF assms(1)])
  with assms(2) have "sole_handle (snd s') (aw_file aw) i"
    and "accepted D (aw_file aw) i s s' (promised_data D s i) (promised_pos D s (aw_file aw))"
    unfolding stays_def by blast+
  with assms(1,3,4) show ?thesis unfolding async_writer_at_def accepted_def by metis
qed

lemma rest_apart:
  assumes "at_rest D s fd j" and "sole_handle (snd s) h i" and "i \<noteq> j"
  shows "apart (snd s) fd h" and "apart (snd s) h fd"
  using assms(1,3) sole_handleD(2) [OF assms(2)] unfolding apart_def at_rest_def by auto

lemma remaining_taken:
  assumes "n \<le> unat (r :: u64)"
  shows "unat (r - of_nat n) + n = unat r"
proof -
  have n: "unat (of_nat n :: u64) = n"
    using assms unsigned_less [of r, where 'a = nat] by (simp add: unat_of_nat)
  with assms have "(of_nat n :: u64) \<le> r" by (simp add: word_le_nat_alt)
  with assms n show ?thesis by (simp add: unat_sub)
qed

lemma progress_names: "progress D I s s' \<Longrightarrow> w_names (snd s') = w_names (snd s)"
  unfolding progress_def by (blast dest: undisturbedD(1))

lemma async_writer_only: "async_writer_at D aw s tp i content \<Longrightarrow> \<forall>q. w_names (snd s) q = Some i \<longrightarrow> q = tp"
  unfolding async_writer_at_def by blast

lemma async_writer_at_idle:
  assumes "async_writer_at D aw s tp i content" and "stays D (aw_file aw) s s'" and "progress D I s s'"
  shows "async_writer_at D aw s' tp i content"
proof (rule async_writer_at_stays [OF assms(1,2)], unfold progress_names [OF assms(3)])
  show "w_names (snd s) tp = Some i" by (rule async_writer_atD(3) [OF assms(1)])
  show "\<forall>q. w_names (snd s) q = Some i \<longrightarrow> q = tp" by (rule async_writer_only [OF assms(1)])
qed

text \<open>
  A copy to a writer of file \<open>i\<close>, from a handle at rest on file \<open>j\<close>: what was read of the source,
  and that the writer has what was written; and what holds after a failure, too.
\<close>

definition copied ::
  "'t outstanding \<Rightarrow> nat \<Rightarrow> nat \<Rightarrow> path \<Rightarrow> content_reader \<Rightarrow> 't runtime \<Rightarrow> u8 list \<Rightarrow> u8 list \<Rightarrow> bool
     \<Rightarrow> content_reader \<Rightarrow> 'hn async_object_writer \<Rightarrow> 't runtime \<Rightarrow> bool" where
  "copied D j i tp c0 s0 got put fin c aw s \<longleftrightarrow> cr_file c = cr_file c0 \<and> at_rest D s (cr_file c0) j
     \<and> promised_pos D s (cr_file c0) = promised_pos D s0 (cr_file c0) + length got
     \<and> got = take (length got) (drop (promised_pos D s0 (cr_file c0)) (w_data (snd s0) j))
     \<and> unat (remaining c) + length got = unat (remaining c0) \<and> (fin \<longrightarrow> unat (remaining c) = 0)
     \<and> async_writer_at D aw s tp i put"

definition copy_frame ::
  "'t outstanding \<Rightarrow> nat \<Rightarrow> 'hn async_object_writer \<Rightarrow> 't runtime \<Rightarrow> 'hn async_object_writer \<Rightarrow> 't runtime \<Rightarrow> bool" where
  "copy_frame D i aw0 s0 aw s \<longleftrightarrow> progress D {i} s0 s \<and> resized aw0 aw"

text \<open>The outcome of an update of an object.\<close>

definition set_safely ::
  "'t outstanding \<Rightarrow> 'hn env \<Rightarrow> 'hn tux_object \<Rightarrow> 'hn tags \<Rightarrow> u8 list tags \<Rightarrow> u8 list \<Rightarrow> 't runtime
     \<Rightarrow> ((unit, object_file_error) res \<times> 'hn tux_object \<times> 't runtime) option \<Rightarrow> bool" where
  "set_safely D E ob metadata t content s result \<longleftrightarrow>
     (\<exists>r ob' s'. result = Some (r, ob', s') \<and> (r \<noteq> Ok () \<longrightarrow> ob' = ob) \<and>
        replaced_safely D (busy_files D (fst s)) (ob_path ob) (version_of E NoCompression metadata t content) metadata
          (snd s) (map_res (\<lambda>_. ob') id r) s')"

text \<open>Two writers, and the removal of the name of one.\<close>

lemma sole_apart: "sole_handle w g i \<Longrightarrow> sole_handle w fd j \<Longrightarrow> i \<noteq> j \<Longrightarrow> apart w g fd"
  using sole_handleD(2) [of w g i] sole_handleD(2) [of w fd j] unfolding apart_def by auto

definition tidied :: "'t outstanding \<Rightarrow> path \<Rightarrow> 't runtime \<Rightarrow> 't runtime \<Rightarrow> bool" where
  "tidied D tp s s' \<longleftrightarrow> quiet (untouched (busy_files D (fst s)) (snd s) - {tp}) (snd s) (snd s') \<and>
     (\<forall>q. q \<noteq> tp \<longrightarrow> w_names (snd s') q = w_names (snd s) q) \<and> busy_files D (fst s') \<subseteq> busy_files D (fst s) \<and>
     (\<forall>j. j \<notin> busy_files D (fst s) \<longrightarrow> w_data (snd s') j = w_data (snd s) j)"

lemma progress_tidied: "progress D {} s s' \<Longrightarrow> tidied D tp s s'"
  using undisturbedD(1,5,6) [of "busy_files D (fst s)" "snd s" "snd s'"]
  by (auto simp: progress_def tidied_def untouched_def elim: quiet_mono)

lemma removed_tidied:
  assumes before: "undisturbed (busy_files D (fst s)) (snd s) a" and c: "calm (a\<lparr>w_names := (w_names a)(tp := None)\<rparr>) b"
    and after: "undisturbed (busy_files D (fst s)) b (snd s')" and "busy_files D (fst s') \<subseteq> busy_files D (fst s)"
  shows "tidied D tp s s'"
proof -
  let ?N = "untouched (busy_files D (fst s)) (snd s) - {tp}"
  have names: "w_names b = (w_names (snd s))(tp := None)" and data: "w_data b = w_data a"
    using c undisturbedD(1) [OF before] by (simp_all add: calm_def)
  have "quiet ?N (snd s) a" by (rule quiet_mono [OF undisturbedD(6) [OF before]]) (auto simp: untouched_def)
  moreover have "quiet ?N a (a\<lparr>w_names := (w_names a)(tp := None)\<rparr>)"
    by (auto simp: quiet_def view_of_def shown_def split: option.splits)
  moreover have "quiet ?N b (snd s')"
    by (rule quiet_mono [OF undisturbedD(6) [OF after]]) (auto simp: untouched_def names)
  ultimately have "quiet ?N (snd s) (snd s')" using calm_quiet [OF c] quiet_trans by blast
  then show ?thesis
    using assms(4) undisturbedD(5) [OF before] undisturbedD(5) [OF after]
    by (simp add: tidied_def undisturbedD(1) [OF after] names data)
qed

lemma safely_tidied:
  assumes r: "replaced_safely D B p P metadata w (Ok ob) s" and t: "tidied D tp s s'"
    and names: "w_names (snd s) = (w_names w)(p \<mapsto> w_next w)" "busy_files D (fst s) \<subseteq> insert (w_next w) B"
    and fresh: "\<forall>q. w_names w q \<noteq> Some (w_next w)" and tp: "tp \<notin> untouched B w" "tp \<noteq> p"
  shows "replaced_safely D B p P metadata w (Ok ob) s'"
proof -
  have i: "w_next w \<notin> busy_files D (fst s)" "P (w_data (snd s) (w_next w))" "ob_path ob = p \<and> ob_metadata ob = metadata"
    using r by (auto simp: replaced_safely_def names)
  have q: "quiet (untouched (busy_files D (fst s)) (snd s) - {tp}) (snd s) (snd s')" using t by (simp add: tidied_def)
  have "quiet {p} (snd s) (snd s')" by (rule quiet_mono [OF q]) (use i(1) tp(2) in \<open>auto simp: untouched_def names\<close>)
  then have "atomic_update p P w (snd s')" using r atomic_trans [OF _ quiet_atomic] by (auto simp: replaced_safely_def)
  moreover have "quiet (untouched B w \<inter> old_names w p - {p}) w (snd s')"
  proof (rule quiet_trans [OF _ quiet_mono [OF q]])
    show "quiet (untouched B w \<inter> old_names w p - {p}) w (snd s)" using r by (simp add: replaced_safely_def)
    show "untouched B w \<inter> old_names w p - {p} \<subseteq> untouched (busy_files D (fst s)) (snd s) - {tp}"
      using tp(1) names(2) fresh by (auto simp: untouched_def names(1))
  qed
  ultimately show ?thesis using i t tp(2) by (auto simp: replaced_safely_def tidied_def names)
qed

lemma failed_safely:
  "replaced_safely D B p P metadata w (Err e :: ('hn tux_object, 'e) res) s \<longleftrightarrow>
     replaced_safely D B p P metadata w (Panic :: ('hn tux_object, 'e) res) s"
  by (simp add: replaced_safely_def)

context deferring_copies begin

section \<open>Creating the replacement\<close>

lemma creating_stays:
  assumes ok: "world_ok (snd s)" and g: "g < w_next_fd (snd s)"
  shows "wp (async_create_writer tk E p opts) (\<lambda>_. stays D g s) (\<lambda>_ _. True) s"
proof -
  have loop: "wp (async_temp_file_loop tk E p n) (\<lambda>(fd, tp) s1. stays D g s s1 \<and> apart (snd s1) g fd) (\<lambda>_ _. True) s" for n
    using ok g
  proof (induction n arbitrary: s)
    case 0
    then show ?case by simp
  next
    case (Suc n)
    let ?w1 = "(snd s)\<lparr>w_counter := w_counter (snd s) + 1\<rparr>" and ?tp = "temp_candidate E p (w_counter (snd s))"
    have c: "calm (snd s) ?w1" by (rule calm_counter)
    have ok1: "world_ok ?w1" using Suc.prems(1) world_ok_calm [OF c] by simp
    obtain r s2 where run: "tk_create_new tk ?tp (fst s, ?w1) = (r, s2)" by (metis surj_pair)
    note spec = wp_run [OF create_new run]
    have st: "stays D g s s2"
      by (rule stays_trans [OF counting others(5) [OF _ _ run]]) (use ok1 Suc.prems(2) in simp_all)
    show ?case
    proof (cases r)
      case (Ok fd)
      with spec obtain a b where ab: "undisturbed (busy_files D (fst s)) ?w1 a" "calm (with_new_file ?tp a) b"
        "undisturbed (busy_files D (fst s)) b (snd s2)" and n: "w_names ?w1 ?tp = None" and fd: "fd = w_next_fd (snd s)"
        by auto
      note new = created_behind [OF ok1 ab n]
      have "apart (snd s2) g fd"
        unfolding apart_def
      proof (intro conjI allI impI)
        show "g \<noteq> fd" using Suc.prems(2) fd by simp
        fix f f' assume f: "w_open (snd s2) g = Some f" and f': "w_open (snd s2) fd = Some f'"
        have "of_inode f' = w_next (snd s)" using sole_handleD(2) [OF new(4)] f' fd by simp
        then show "of_inode f \<noteq> of_inode f'" using sole_handleD(1) [OF new(4) f] \<open>g \<noteq> fd\<close> fd by auto
      qed
      with st run Ok show ?thesis by (simp add: wp_def st_bind_def next_temp_counter_def on_world_def Let_def)
    next
      case (Err k)
      show ?thesis
      proof (cases "k = AlreadyExists")
        case True
        then have again: "wp (async_temp_file_loop tk E p (Suc n)) Q R s \<longleftrightarrow> wp (async_temp_file_loop tk E p n) Q R s2" for Q R
          using run Err by (simp add: wp_def st_bind_def next_temp_counter_def on_world_def Let_def)
        have u: "undisturbed (busy_files D (fst s)) ?w1 (snd s2)" using spec Err by (simp add: progress_def)
        have "world_ok (snd s2)" "g < w_next_fd (snd s2)"
          using world_ok_undisturbed [OF u ok1] undisturbedD(4) [OF u] Suc.prems(2) by simp_all
        note ih = Suc.IH [OF this]
        show ?thesis
          unfolding again by (rule wp_conseq [OF ih]) (auto intro: stays_trans [OF st])
      next
        case False
        then show ?thesis
          using run Err by (simp add: wp_def st_bind_def next_temp_counter_def on_world_def Let_def)
      qed
    next
      case Panic
      with run show ?thesis by (simp add: wp_def st_bind_def next_temp_counter_def on_world_def Let_def)
    qed
  qed
  have "wp (async_create_temp_file tk E p) (\<lambda>(fd, tp) s1. \<forall>r s2. tk_seek tk fd m s1 = (r, s2) \<longrightarrow> stays D g s s2)
      (\<lambda>_ _. True) s" for m
    unfolding async_create_temp_file_def
    by (rule wp_conseq [OF loop]) (auto intro: stays_trans others(3))
  then show ?thesis
    by (auto simp: async_create_writer_def ensure_supported_def wp_def st_bind_def st_lift_def Let_def
        split: prod.splits res.splits)
qed

section \<open>Moving the content\<close>

lemma deferred_read_wp:
  assumes rest: "at_rest D s (cr_file c) j" and n: "0 < n"
    and long: "0 < unat (remaining c) \<Longrightarrow> promised_pos D s (cr_file c) + unat (remaining c) \<le> length (w_data (snd s) j)"
  shows "wp (async_content_read tk n)
     (\<lambda>bs x. progress D {} s (snd x) \<and> at_rest D (snd x) (cr_file c) j \<and> cr_file (fst x) = cr_file c
        \<and> bs = take (length bs) (drop (promised_pos D s (cr_file c)) (w_data (snd s) j))
        \<and> promised_pos D (snd x) (cr_file c) = promised_pos D s (cr_file c) + length bs
        \<and> unat (remaining (fst x)) + length bs = unat (remaining c) \<and> (bs = [] \<longrightarrow> unat (remaining c) = 0))
     (\<lambda>_ x. progress D {} s (snd x)) (c, s)"
proof (cases "remaining c = 0")
  case True
  then show ?thesis using rest by (simp add: async_content_read_def)
next
  case False
  then have left: "0 < unat (remaining c)" by (simp add: unat_gt_0)
  let ?m = "min (unat (remaining c)) n"
  obtain r s1 where run: "tk_read tk (cr_file c) ?m s = (r, s1)" by (metis surj_pair)
  note spec = wp_run [OF read [OF rest] run]
  show ?thesis
  proof (cases r)
    case (Ok bs)
    have "bs \<noteq> []" if "bs = [] \<longrightarrow> ?m = 0 \<or> length (w_data (snd s) j) \<le> promised_pos D s (cr_file c)"
      using that left n long by auto
    then show ?thesis
      using spec remaining_taken False Ok run
      by (simp add: wp_def async_content_read_def with_self_def st_bind_def on_world_def put_self_def st_lift_def)
  qed (use spec False run in \<open>simp_all add: wp_def async_content_read_def with_self_def st_bind_def on_world_def\<close>)
qed

text \<open>One step of it, for each of the operations it drives.\<close>

lemma copied_reads:
  assumes rest: "at_rest D s0 (cr_file c0) j" and apart: "i \<noteq> j"
    and long: "0 < unat (remaining c0) \<Longrightarrow> promised_pos D s0 (cr_file c0) + unat (remaining c0) \<le> length (w_data (snd s0) j)"
    and p: "progress D {i} s0 s" and c: "copied D j i tp c0 s0 got put fin c aw s"
    and n: "0 < n" and run: "async_content_read tk n (c, s) = (r, (c', s'))"
  shows "progress D {i} s0 s'" and "r = Ok bs \<Longrightarrow> copied D j i tp c0 s0 (got @ bs) put (bs = []) c' aw s'"
proof -
  let ?fd = "cr_file c0" and ?d = "w_data (snd s0) j" and ?p = "promised_pos D s0 (cr_file c0)"
  from c have ih: "cr_file c = ?fd" "at_rest D s ?fd j" "promised_pos D s ?fd = ?p + length got"
    "got = take (length got) (drop ?p ?d)" "unat (remaining c) + length got = unat (remaining c0)" "async_writer_at D aw s tp i put"
    by (simp_all add: copied_def)
  have d: "w_data (snd s) j = ?d" by (rule at_rest_progress [OF rest p]) (use apart in simp)
  have "promised_pos D s (cr_file c) + unat (remaining c) \<le> length (w_data (snd s) j)" if "0 < unat (remaining c)"
    using that ih(1,3,5) long by (simp add: d)
  note rd = wp_run [OF deferred_read_wp [of _ c, OF ih(2) [folded ih(1)] n this] run]
  then have p': "progress D {} s s'" by (cases r) simp_all
  then show "progress D {i} s0 s'" by (intro progress_trans [OF p progress_mono]) auto
  show "copied D j i tp c0 s0 (got @ bs) put (bs = []) c' aw s'" if "r = Ok bs"
  proof -
    from rd that have sp: "at_rest D s' ?fd j" "cr_file c' = ?fd" "bs = take (length bs) (drop (?p + length got) ?d)"
      "promised_pos D s' ?fd = ?p + length (got @ bs)" "unat (remaining c') + length (got @ bs) = unat (remaining c0)"
      "bs = [] \<longrightarrow> unat (remaining c') = 0"
      using ih(1,3,5) d by auto
    have "got @ bs = take (length (got @ bs)) (drop ?p ?d)"
      using ih(4) sp(3) by (metis add.commute drop_drop length_append take_add)
    moreover have "stays D (aw_file aw) s s'"
    proof (cases "remaining c = 0")
      case True
      with run show ?thesis by (simp add: async_content_read_def with_self_def st_lift_def)
    next
      case False
      obtain r1 s1 where rd1: "tk_read tk ?fd (min (unat (remaining c)) n) s = (r1, s1)" by (metis surj_pair)
      then have "s' = s1"
        using run False by (auto simp: async_content_read_def with_self_def st_bind_def on_world_def put_self_def st_lift_def ih(1)
            split: res.splits)
      then show ?thesis
        using others(1) [OF _ rd1] rest_apart(2) [OF ih(2) async_writer_atD(4) [OF ih(6)] apart] by blast
    qed
    then have "async_writer_at D aw s' tp i put" by (rule async_writer_at_idle [OF ih(6) _ p'])
    ultimately show ?thesis unfolding copied_def using sp by blast
  qed
qed

lemma copied_source:
  assumes "copied D j i tp c0 s0 got put fin c aw s" and "stays D (cr_file c0) s s'" and "async_writer_at D aw' s' tp i put'"
  shows "copied D j i tp c0 s0 got put' fin c aw' s'"
  using assms unfolding copied_def stays_def by metis

lemma copied_writes:
  assumes apart: "i \<noteq> j" and p: "progress D {i} s0 s" and c: "copied D j i tp c0 s0 got put fin c aw s"
    and run: "async_writer_write tk chunk (aw, s) = (r, (aw', s'))"
  shows "progress D {i} s0 s'" and "resized aw aw'"
    and "r = Ok n \<Longrightarrow> copied D j i tp c0 s0 got (put @ take n chunk) fin c aw' s'"
proof -
  from c have rest: "at_rest D s (cr_file c0) j" and at: "async_writer_at D aw s tp i put" by (simp_all add: copied_def)
  note spec = wp_run [OF deferred_write_wp [OF at] run]
  show "progress D {i} s0 s'" by (rule progress_trans [OF p]) (use spec in \<open>cases r; simp\<close>)
  show "resized aw aw'" using spec by (cases r) auto
  show "copied D j i tp c0 s0 got (put @ take n chunk) fin c aw' s'" if "r = Ok n"
  proof (rule copied_source [OF c])
    obtain r1 s1 where w: "tk_write tk (aw_file aw) chunk s = (r1, s1)" by (metis surj_pair)
    then have "s' = s1" using run by (auto simp: async_writer_write_def with_self_def st_bind_def on_world_def put_self_def st_lift_def
            split: res.splits if_splits)
    then show "stays D (cr_file c0) s s'"
      using others(2) [OF _ w] rest_apart(1) [OF rest async_writer_atD(4) [OF at] apart] by blast
    show "async_writer_at D aw' s' tp i (put @ take n chunk)" using spec that by simp
  qed
qed

lemma deferred_flush_wp:
  assumes at: "async_writer_at D aw s tp i content"
  shows "wp (async_writer_flush tk)
     (\<lambda>_ x. fst x = aw \<and> progress D {i} s (snd x) \<and> async_writer_at D aw (snd x) tp i content)
     (\<lambda>_ x. fst x = aw \<and> progress D {i} s (snd x)) (aw, s)"
  unfolding async_writer_flush_def wp_with_self wp_on_world fst_conv snd_conv
proof (rule wp_conseq [OF flush [OF async_writer_atD(4) [OF at]]], goal_cases)
  case (1 _ s')
  then have u: "undisturbed (busy_files D (fst s) \<union> {i}) (snd s) (snd s')" by (simp add: progress_def)
  have "async_writer_at D aw s' tp i content"
    using at 1 sole_handle_undisturbed [OF u] undisturbedD(1) [OF u]
    unfolding async_writer_at_def accepted_def by metis
  with 1 show ?case by simp
qed simp

lemma copied_flushes:
  assumes apart: "i \<noteq> j" and p: "progress D {i} s0 s" and c: "copied D j i tp c0 s0 got put fin c aw s"
    and run: "async_writer_flush tk (aw, s) = (r, (aw', s'))"
  shows "progress D {i} s0 s'" and "aw' = aw" and "r = Ok () \<Longrightarrow> copied D j i tp c0 s0 got put fin c aw' s'"
proof -
  from c have rest: "at_rest D s (cr_file c0) j" and at: "async_writer_at D aw s tp i put" by (simp_all add: copied_def)
  note spec = wp_run [OF deferred_flush_wp [OF at] run]
  show "progress D {i} s0 s'" by (rule progress_trans [OF p]) (use spec in \<open>cases r; simp\<close>)
  show "aw' = aw" using spec by (cases r) auto
  show "copied D j i tp c0 s0 got put fin c aw' s'" if "r = Ok ()"
  proof (rule copied_source [OF c])
    have "tk_flush tk (aw_file aw) s = (r, s')" using run by (simp add: async_writer_flush_def with_self_def on_world_def split: prod.splits)
    then show "stays D (cr_file c0) s s'"
      using others(4) rest_apart(1) [OF rest async_writer_atD(4) [OF at] apart] by blast
    show "async_writer_at D aw' s' tp i put" using spec that by simp
  qed
qed

lemma copying_invariant:
  assumes "copying (async_content_read tk) (async_writer_write tk) (async_writer_flush tk) (c0, aw0, s0) got put fin ok y"
    and rest: "at_rest D s0 (cr_file c0) j" and apart: "i \<noteq> j"
    and long: "0 < unat (remaining c0) \<Longrightarrow> promised_pos D s0 (cr_file c0) + unat (remaining c0) \<le> length (w_data (snd s0) j)"
    and at: "async_writer_at D aw0 s0 tp i []"
  shows "case y of (c, aw, s) \<Rightarrow> copy_frame D i aw0 s0 aw s \<and> (ok \<longrightarrow> copied D j i tp c0 s0 got put fin c aw s)"
  using assms(1)
proof (induction rule: copying.induct)
  case starts
  then show ?case using rest at by (simp add: copy_frame_def copied_def)
next
  case (reads got put fin c aw s n bs c' s')
  then have p: "progress D {i} s0 s" and c: "copied D j i tp c0 s0 got put fin c aw s" by (simp_all add: copy_frame_def)
  from copied_reads [OF rest apart long p c reads.hyps(2,3)] reads.IH show ?case by (simp add: copy_frame_def)
next
  case (writes got put fin c aw s chunk rest' n aw' s')
  then have p: "progress D {i} s0 s" and c: "copied D j i tp c0 s0 got put fin c aw s" by (simp_all add: copy_frame_def)
  from copied_writes [OF apart p c writes.hyps(3)] writes.IH show ?case
    by (auto simp: copy_frame_def intro: resized_trans)
next
  case (flushes got put fin c aw s aw' s')
  then have p: "progress D {i} s0 s" and c: "copied D j i tp c0 s0 got put fin c aw s" by (simp_all add: copy_frame_def)
  from copied_flushes [OF apart p c flushes.hyps(2)] flushes.IH show ?case by (simp add: copy_frame_def)
next
  case (reading_fails got put fin c aw s n r c' s')
  then have p: "progress D {i} s0 s" and c: "copied D j i tp c0 s0 got put fin c aw s" by (simp_all add: copy_frame_def)
  from copied_reads(1) [OF rest apart long p c reading_fails.hyps(2,3)] reading_fails.IH show ?case by (simp add: copy_frame_def)
next
  case (writing_fails got put fin c aw s chunk r aw' s')
  then have p: "progress D {i} s0 s" and c: "copied D j i tp c0 s0 got put fin c aw s" by (simp_all add: copy_frame_def)
  from copied_writes(1,2) [OF apart p c writing_fails.hyps(2)] writing_fails.IH show ?case
    by (auto simp: copy_frame_def intro: resized_trans)
next
  case (flushing_fails got put fin c aw s r aw' s')
  then have p: "progress D {i} s0 s" and c: "copied D j i tp c0 s0 got put fin c aw s" by (simp_all add: copy_frame_def)
  from copied_flushes(1,2) [OF apart p c flushing_fails.hyps(2)] flushing_fails.IH show ?case by (simp add: copy_frame_def)
qed

text \<open>A copy moves all that was left to read, or fails having written to the replacement only.\<close>

lemma deferred_copy_wp:
  assumes rest: "at_rest D s0 (cr_file c0) j" and apart: "i \<noteq> j" and at: "async_writer_at D aw0 s0 tp i []"
    and content: "take (unat (remaining c0)) (drop (promised_pos D s0 (cr_file c0)) (w_data (snd s0) j)) = content"
    and len: "length content = unat (remaining c0)"
  shows "wp (tk_copy tk (async_content_read tk) (async_writer_write tk) (async_writer_flush tk))
     (\<lambda>_ (c, aw, s). copy_frame D i aw0 s0 aw s \<and> async_writer_at D aw s tp i content)
     (\<lambda>_ (c, aw, s). copy_frame D i aw0 s0 aw s) (c0, aw0, s0)"
proof -
  have long: "promised_pos D s0 (cr_file c0) + unat (remaining c0) \<le> length (w_data (snd s0) j)" if "0 < unat (remaining c0)"
  proof -
    have "unat (remaining c0) \<le> length (w_data (snd s0) j) - promised_pos D s0 (cr_file c0)"
      using content len by (metis length_drop length_take min.cobounded1)
    with that show ?thesis by linarith
  qed
  obtain rc c aw s where run: "tk_copy tk (async_content_read tk) (async_writer_write tk) (async_writer_flush tk) (c0, aw0, s0) = (rc, c, aw, s)"
    by (metis surj_pair)
  obtain got put fin ok where "copying (async_content_read tk) (async_writer_write tk) (async_writer_flush tk) (c0, aw0, s0) got put fin ok (c, aw, s)"
    and ok: "\<And>n. rc = Ok n \<Longrightarrow> ok \<and> fin \<and> put = got"
    using copies [OF run] by blast
  note inv = copying_invariant [OF this(1) rest apart long at]
  then have frame: "copy_frame D i aw0 s0 aw s" by simp
  have "async_writer_at D aw s tp i content" if "rc = Ok n" for n
  proof -
    from inv ok [OF that] have c: "copied D j i tp c0 s0 got got True c aw s" by simp
    then have "got = take (unat (remaining c0)) (drop (promised_pos D s0 (cr_file c0)) (w_data (snd s0) j))"
      unfolding copied_def by (metis add_0)
    with c content show ?thesis unfolding copied_def by simp
  qed
  with frame run show ?thesis by (cases rc) (simp_all add: wp_def)
qed

text \<open>Into a replacement that was begun: it has the content, or is dropped.\<close>

lemma begun_copy_wp:
  assumes b: "begun D B p tp w s" and free: "p \<in> untouched B w" and ne: "w_next w \<noteq> j"
    and rest: "at_rest D s fd j" and at: "async_writer_at D aw s tp (w_next w) []"
    and content: "drop (promised_pos D s fd) (w_data (snd s) j) = content" and len: "unat n = length content"
  shows "wp (tk_copy tk (async_content_read tk) (async_writer_write tk) (async_writer_flush tk))
     (\<lambda>_ (c, aw', s'). resized aw aw' \<and> async_writer_at D aw' s' tp (w_next w) content \<and> begun D B p tp w s')
     (\<lambda>_ (c, aw', s'). replaced_safely D B p P metadata w (Panic :: ('hn tux_object, object_file_error) res)
        (async_drop_writer E aw' s'))
     (\<lparr>cr_file = fd, remaining = n\<rparr>, aw, s)"
  (is "wp _ ?Q ?R (?c, aw, s)")
proof -
  have rest': "at_rest D s (cr_file ?c) j" using rest by simp
  have content': "take (unat (remaining ?c)) (drop (promised_pos D s (cr_file ?c)) (w_data (snd s) j)) = content"
    and len': "length content = unat (remaining ?c)"
    using len by (simp_all add: content)
  show ?thesis
  proof (rule wp_conseq [OF deferred_copy_wp [OF rest' ne at content' len']], goal_cases)
    case (1 m x)
    then show ?case using begun_progress [OF b, of "{w_next w}"] by (auto simp: copy_frame_def)
  next
    case (2 e x)
    obtain c aw' s' where x: "x = (c, aw', s')" by (metis surj_pair)
    with 2 have "resized aw aw'" and b': "begun D B p tp w s'"
      using begun_progress [OF b, of "{w_next w}" s'] by (auto simp: copy_frame_def)
    then have "aw_temp_path aw' = Some tp" using async_writer_atD(1) [OF at] by (auto simp: resized_def)
    from begun_dropped [OF b' this free] show ?case unfolding x by simp
  qed
qed

section \<open>Updates\<close>

lemma seek_at_content_wp:
  assumes rest: "at_rest D s (ob_file ob) j" and ne: "w_next w \<noteq> j"
    and at: "async_writer_at D aw s tp (w_next w) []" and b: "begun D B p tp w s"
  shows "wp (async_stored_content_reader tk)
     (\<lambda>c x. c = \<lparr>cr_file = ob_file ob, remaining = content_length (ob_header ob)\<rparr> \<and> fst x = ob
        \<and> at_rest D (snd x) (ob_file ob) j \<and> promised_pos D (snd x) (ob_file ob) = unat (h_content_start (ob_header ob))
        \<and> w_data (snd (snd x)) j = w_data (snd s) j \<and> async_writer_at D aw (snd x) tp (w_next w) [] \<and> begun D B p tp w (snd x))
     (\<lambda>_ x. fst x = ob \<and> begun D B p tp w (snd x)) (ob, s)"
proof -
  obtain r s1 where run: "tk_seek tk (ob_file ob) (unat (h_content_start (ob_header ob))) s = (r, s1)" by (metis surj_pair)
  note spec = wp_run [OF seek_at_rest [OF rest] run]
  then have p: "progress D {} s s1" by (cases r) simp_all
  have "async_writer_at D aw s1 tp (w_next w) []"
    by (rule async_writer_at_idle [OF at others(3) [OF rest_apart(2) [OF rest async_writer_atD(4) [OF at] ne] run] p])
  moreover have "begun D B p tp w s1" by (rule begun_progress [OF b p]) simp
  moreover have "w_data (snd s1) j = w_data (snd s) j" by (rule at_rest_progress [OF rest p]) simp
  ultimately show ?thesis
    using spec run
    by (cases r) (simp_all add: wp_def async_stored_content_reader_def seek_to_content_start_def with_self_def st_bind_def
        io_def on_world_def st_map_err_def st_lift_def)
qed

lemma at_rest_known:
  assumes "world_ok (snd s)" and "at_rest D s fd j"
  shows "fd < w_next_fd (snd s)" and "j < w_next (snd s)"
  using assms unfolding at_rest_def world_ok_def by blast+

lemma rewrite_created_safe:
  assumes H: "header_name_ok (header_names E)" and rw: "ob_writable ob"
    and create: "async_create_writer tk E (ob_path ob) (async_update_options ob metadata t) s = (Ok aw, s1)"
    and made: "compute (co_layout (async_update_options ob metadata t)) (metadata_size E metadata) (tag_block_size t) = Ok l"
      "as_writer aw = fresh_writer E (ob_path ob) (async_update_options ob metadata t) l tp (w_next_fd (snd s))"
      "co_compression (async_update_options ob metadata t) = NoCompression"
    and at: "async_writer_at D aw s1 tp (w_next (snd s)) []" and b: "begun D (busy_files D (fst s)) (ob_path ob) tp (snd s) s1"
    and rest: "at_rest D s1 (ob_file ob) j" and ne: "w_next (snd s) \<noteq> j"
    and holds: "holds_object E (w_data (snd s1) j) (ob_header ob) (ob_metadata ob) t0 content"
    and secs: "sections_ok metadata t" and free: "ob_path ob \<in> untouched (busy_files D (fst s)) (snd s)"
  shows "set_safely D E ob metadata t content s (async_rewrite (Suc n) tk E metadata t (ob, s))"
proof -
  let ?fd = "ob_file ob" and ?opts = "async_update_options ob metadata t"
  have opts: "co_metadata ?opts = metadata" "co_tags ?opts = t" by (simp_all add: async_update_options_def)
  have len: "unat (content_length (ob_header ob)) = length content" using holds by (simp add: holds_object_def)
  have writable: "async_ensure_writable ob = Ok ()" using rw by (simp add: async_ensure_writable_def)
  obtain r2 ob2 s2 where sk: "async_stored_content_reader tk (ob, s1) = (r2, (ob2, s2))" by (metis surj_pair)
  note sought = wp_run [OF seek_at_content_wp [OF rest ne at b] sk]
  then have ob2: "ob2 = ob" and b2: "begun D (busy_files D (fst s)) (ob_path ob) tp (snd s) s2" by (cases r2; simp)+
  note run = async_rewrite_def writable create sk ob2 set_safely_def
  note dropped = begun_dropped [OF b2 async_writer_atD(1) [OF at] free]
  show ?thesis
  proof (cases r2)
    case r2: (Ok c0)
    with sought have c0: "c0 = \<lparr>cr_file = ?fd, remaining = content_length (ob_header ob)\<rparr>" and rest2: "at_rest D s2 ?fd j"
      and at2: "async_writer_at D aw s2 tp (w_next (snd s)) []" and content: "drop (promised_pos D s2 ?fd) (w_data (snd s2) j) = content"
      using holds_objectD(9) [OF H holds] by simp_all
    obtain r3 c3 aw3 s3 where cp: "tk_copy tk (async_content_read tk) (async_writer_write tk) (async_writer_flush tk) (c0, aw, s2)
        = (r3, (c3, aw3, s3))" by (metis surj_pair)
    note copied = wp_run [OF begun_copy_wp [OF b2 free ne rest2 at2 content len, folded c0] cp]
    show ?thesis
    proof (cases r3)
      case r3: (Ok m)
      with copied have "resized aw aw3" "async_writer_at D aw3 s3 tp (w_next (snd s)) content"
        "begun D (busy_files D (fst s)) (ob_path ob) tp (snd s) s3"
        by simp_all
      from finish_created_safe [OF H this(3,2) _ made(2,3) this(1) _ free, of n] made(1) secs
      obtain r s' where "async_finish (Suc n) tk E aw3 s3 = Some (r, s')"
        and "replaced_safely D (busy_files D (fst s)) (ob_path ob) (version_of E NoCompression metadata t content) metadata (snd s) r s'"
        unfolding opts by blast
      then show ?thesis using r2 cp r3 by (cases r) (auto simp: run replaced_safely_def)
    qed (use r2 cp copied [of _ _ E] in \<open>simp_all add: run failed_safely\<close>)
  qed (use dropped in \<open>simp_all add: run\<close>)
qed

text \<open>
  \<open>rewrite\<close>: a new file with the given sections and the content of the object takes its place, or
  nothing does.
\<close>

lemma rewrite_safe:
  assumes H: "header_name_ok (header_names E)" and ok: "world_ok (snd s)" and rest: "at_rest D s (ob_file ob) j"
    and holds: "holds_object E (w_data (snd s) j) (ob_header ob) (ob_metadata ob) t0 content"
    and secs: "sections_ok metadata t" and free: "ob_path ob \<in> untouched (busy_files D (fst s)) (snd s)"
  shows "set_safely D E ob metadata t content s (async_rewrite (Suc n) tk E metadata t (ob, s))"
proof (cases "ob_writable ob")
  case False
  then show ?thesis
    using refused_safely(1) [OF quiet_refl free] by (simp add: async_rewrite_def async_ensure_writable_def set_safely_def)
next
  case rw: True
  let ?opts = "async_update_options ob metadata t"
  have opts: "co_metadata ?opts = metadata" "co_tags ?opts = t" by (simp_all add: async_update_options_def)
  have ne: "w_next (snd s) \<noteq> j" using at_rest_known(2) [OF ok rest] by simp
  obtain r1 s1 where c: "async_create_writer tk E (ob_path ob) ?opts s = (r1, s1)" by (metis surj_pair)
  note created = wp_run [OF wp_and [OF create_begins [OF ok] creating_stays [OF ok at_rest_known(1) [OF ok rest]]] c]
  show ?thesis
  proof (cases r1)
    case (Ok aw)
    with created obtain tp l where
      made: "compute (co_layout ?opts) (metadata_size E metadata) (tag_block_size t) = Ok l"
        "as_writer aw = fresh_writer E (ob_path ob) ?opts l tp (w_next_fd (snd s))" "co_compression ?opts = NoCompression"
      and at1: "async_writer_at D aw s1 tp (w_next (snd s)) []" and b1: "begun D (busy_files D (fst s)) (ob_path ob) tp (snd s) s1"
      and st1: "stays D (ob_file ob) s s1"
      unfolding opts by auto
    from st1 rest have rest1: "at_rest D s1 (ob_file ob) j" and d1: "w_data (snd s1) j = w_data (snd s) j"
      by (simp_all add: stays_def)
    show ?thesis
      by (rule rewrite_created_safe [OF H rw c [unfolded Ok] made at1 b1 rest1 ne holds [folded d1] secs free])
  qed (use rw c created refused_safely [OF _ free] in \<open>simp_all add: async_rewrite_def async_ensure_writable_def set_safely_def\<close>)
qed

text \<open>The setters. What reading the tags leaves behind is as good as what was there before.\<close>

lemma read_section_wp:
  assumes rest: "at_rest D s fd j"
    and q: "\<And>bs x. fst x = ob \<Longrightarrow> progress D {} s (snd x) \<Longrightarrow> at_rest D (snd x) fd j \<Longrightarrow> bs = take n (drop k (w_data (snd s) j)) \<Longrightarrow>
        wp (m bs) Q R x"
    and r: "\<And>e x. fst x = ob \<Longrightarrow> progress D {} s (snd x) \<Longrightarrow> R e x"
  shows "wp (st_bind (io (tk_seek tk fd k)) (\<lambda>_. st_bind (io (tk_read_exact tk fd n)) m)) Q R (ob, s)"
proof (rule wp_bind_io [OF seek_at_rest [OF rest]], goal_cases)
  case (1 _ s1)
  then have p1: "progress D {} s s1" and rest1: "at_rest D s1 fd j" and pos1: "promised_pos D s1 fd = k" by simp_all
  have d1: "w_data (snd s1) j = w_data (snd s) j" by (rule at_rest_progress [OF rest p1]) simp
  show ?case
  proof (rule wp_bind_io [OF read_exact [OF rest1]], goal_cases)
    case (1 bs s2)
    then show ?case by (intro q) (auto simp: pos1 d1 intro: progress_trans [OF p1])
  next
    case (2 e s2)
    then show ?case by (intro r) (auto intro: progress_trans [OF p1])
  qed
qed (auto intro: r)

lemma deferred_tags_wp:
  assumes H: "header_name_ok (header_names E)" and rest: "at_rest D s (ob_file ob) j"
    and holds: "holds_object E (w_data (snd s) j) (ob_header ob) (ob_metadata ob) t content"
  shows "wp (async_object_read_tags tk)
     (\<lambda>r x. r = t \<and> fst x = ob \<and> progress D {} s (snd x) \<and> at_rest D (snd x) (ob_file ob) j)
     (\<lambda>_ x. fst x = ob \<and> progress D {} s (snd x)) (ob, s)"
proof -
  let ?d = "w_data (snd s) j" and ?ts = "unat (h_tags_start (ob_header ob))" and ?cs = "unat (h_content_start (ob_header ob))"
  note S = holds_objectD [OF H holds]
  obtain z where z: "take (?cs - ?ts) (drop ?ts ?d) = wire_tag_block t @ z" using S(6) by blast
  have t: "tags_ok string_ok t" using holds by (simp add: holds_object_def sections_ok_def)
  have space: "tags_space (async_layout ob) = Ok (?cs - ?ts)" and ne: "?cs - ?ts \<noteq> 0"
    using S(7) by (simp_all add: tags_space_def async_layout_def)
  have dec: "decode_with (read_tags read_string) (take (?cs - ?ts) (drop ?ts ?d)) = Ok t"
    using decode_tag_block [OF t, of z] by (auto simp: decode_with_def z)
  have "wp (async_read_tag_section tk)
     (\<lambda>r x. r = Some (take (?cs - ?ts) (drop ?ts ?d)) \<and> fst x = ob \<and> progress D {} s (snd x) \<and> at_rest D (snd x) (ob_file ob) j)
     (\<lambda>_ x. fst x = ob \<and> progress D {} s (snd x)) (ob, s)"
    unfolding async_read_tag_section_def wp_with_self fst_conv space st_bind_lift
    using ne by (auto intro!: read_section_wp [OF rest])
  then show ?thesis
    unfolding async_object_read_tags_def
    by (rule wp_bind_spec) (auto simp: dec)
qed

lemma replaced_progress:
  assumes p: "progress D {} s s1" and r: "replaced_safely D (busy_files D (fst s1)) p P metadata (snd s1) r s'"
    and free: "p \<in> untouched (busy_files D (fst s)) (snd s)"
  shows "replaced_safely D (busy_files D (fst s)) p P metadata (snd s) r s'"
proof (rule replaced_after [OF _ r free])
  from p have u: "undisturbed (busy_files D (fst s)) (snd s) (snd s1)" and b: "busy_files D (fst s1) \<subseteq> busy_files D (fst s)"
    by (simp_all add: progress_def)
  show "quiet (untouched (busy_files D (fst s)) (snd s)) (snd s) (snd s1)"
    by (rule quiet_mono [OF undisturbedD(6) [OF u]]) (simp add: untouched_def)
  show "untouched (busy_files D (fst s)) (snd s) \<inter> old_names (snd s) p - {p}
      \<subseteq> untouched (busy_files D (fst s1)) (snd s1) \<inter> old_names (snd s1) p"
    using b by (auto simp: untouched_def old_names_def undisturbedD(1) [OF u])
qed blast

lemma setters_safe:
  assumes H: "header_name_ok (header_names E)" and ok: "world_ok (snd s)" and rest: "at_rest D s (ob_file ob) j"
    and holds: "holds_object E (w_data (snd s) j) (ob_header ob) (ob_metadata ob) t0 content"
    and free: "ob_path ob \<in> untouched (busy_files D (fst s)) (snd s)"
  shows "sections_ok metadata t \<Longrightarrow> set_safely D E ob metadata t content s (async_set_sections (Suc n) tk E metadata t (ob, s))"
    and "tags_ok (\<lambda>_. True) metadata \<Longrightarrow> set_safely D E ob metadata t0 content s (async_set_metadata (Suc n) tk E metadata (ob, s))"
    and "tags_ok string_ok t \<Longrightarrow> set_safely D E ob (ob_metadata ob) t content s (async_set_tags (Suc n) tk E t (ob, s))"
proof -
  have secs: "tags_ok (\<lambda>_. True) (ob_metadata ob)" "tags_ok string_ok t0"
    using holds by (simp_all add: holds_object_def sections_ok_def)
  show "set_safely D E ob metadata t content s (async_set_sections (Suc n) tk E metadata t (ob, s))" if "sections_ok metadata t"
    using rewrite_safe [OF H ok rest holds that free, of n] by (simp add: async_set_sections_def)
  show "set_safely D E ob (ob_metadata ob) t content s (async_set_tags (Suc n) tk E t (ob, s))" if "tags_ok string_ok t"
    using rewrite_safe [OF H ok rest holds _ free, of "ob_metadata ob" t n] that secs(1)
    by (simp add: async_set_tags_def sections_ok_def)
  show "set_safely D E ob metadata t0 content s (async_set_metadata (Suc n) tk E metadata (ob, s))" if md: "tags_ok (\<lambda>_. True) metadata"
  proof -
    obtain r1 ob1 s1 where rd: "async_object_read_tags tk (ob, s) = (r1, (ob1, s1))" by (metis surj_pair)
    note spec = wp_run [OF deferred_tags_wp [OF H rest holds] rd]
    then have ob1: "ob1 = ob" and p: "progress D {} s s1" by (cases r1; simp)+
    from p have u: "undisturbed (busy_files D (fst s)) (snd s) (snd s1)" and b: "busy_files D (fst s1) \<subseteq> busy_files D (fst s)"
      by (simp_all add: progress_def)
    have free1: "ob_path ob \<in> untouched (busy_files D (fst s1)) (snd s1)"
      using free b by (auto simp: untouched_def undisturbedD(1) [OF u])
    note refused = replaced_progress [OF p refused_safely(1) [OF quiet_refl free1] free]
      replaced_progress [OF p refused_safely(2) [OF quiet_refl free1] free]
    show ?thesis
    proof (cases r1)
      case (Ok tg)
      with spec have tg: "tg = t0" and rest1: "at_rest D s1 (ob_file ob) j" by simp_all
      have d1: "w_data (snd s1) j = w_data (snd s) j" by (rule at_rest_progress [OF rest p]) simp
      have sections: "sections_ok metadata t0" using md secs(2) by (simp add: sections_ok_def)
      obtain r ob' s' where "async_rewrite (Suc n) tk E metadata t0 (ob, s1) = Some (r, ob', s')"
        and safe: "replaced_safely D (busy_files D (fst s1)) (ob_path ob) (version_of E NoCompression metadata t0 content) metadata
          (snd s1) (map_res (\<lambda>_. ob') id r) s'" and "r \<noteq> Ok () \<longrightarrow> ob' = ob"
        using rewrite_safe [OF H world_ok_undisturbed [OF u ok] rest1 holds [folded d1] sections free1, of n]
        unfolding set_safely_def by blast
      then show ?thesis
        using replaced_progress [OF p safe free] Ok rd by (auto simp: set_safely_def async_set_metadata_def ob1 tg)
    next
      case (Err e)
      then show ?thesis
        using refused rd by (simp add: set_safely_def async_set_metadata_def ob1)
    next
      case Panic
      then show ?thesis
        using refused rd by (simp add: set_safely_def async_set_metadata_def ob1)
    qed
  qed
qed

section \<open>Finishing by rewriting\<close>

text \<open>The work on the file of the outgrown writer is waited for before it is read.\<close>

lemma source_settles_wp:
  assumes at: "async_writer_at D aw s tp i content" and rep: "async_writer_at D rep s tp' k []" and ne: "k \<noteq> i"
  shows "wp (st_bind (tk_flush tk (aw_file aw)) (\<lambda>_. tk_seek tk (aw_file aw) n))
     (\<lambda>_ s'. progress D {i} s s' \<and> at_rest D s' (aw_file aw) i \<and> promised_pos D s' (aw_file aw) = n
        \<and> stored_content (unat (content_start (aw_layout aw))) content (w_data (snd s') i) \<and> async_writer_at D rep s' tp' k [])
     (\<lambda>_. progress D {i} s) s"
proof -
  let ?fd = "aw_file aw"
  have sole: "sole_handle (snd s) ?fd i" by (rule async_writer_atD(4) [OF at])
  obtain r1 s1 where f: "tk_flush tk ?fd s = (r1, s1)" by (metis surj_pair)
  note flushed = wp_run [OF flush [OF sole] f]
  then have p1: "progress D {i} s s1" by (cases r1) simp_all
  have rep1: "async_writer_at D rep s1 tp' k []"
    by (rule async_writer_at_idle [OF rep others(4) [OF _ f] p1])
       (rule sole_apart [OF async_writer_atD(4) [OF rep] sole ne])
  have sole1: "sole_handle (snd s1) ?fd i"
    by (rule sole_handle_undisturbed [OF _ sole]) (use p1 in \<open>auto simp: progress_def\<close>)
  obtain r2 s2 where sk: "tk_seek tk ?fd n s1 = (r2, s2)" by (metis surj_pair)
  show ?thesis
  proof (cases r1)
    case (Ok u)
    with flushed have "?fd \<notin> failing_handles D (fst s1)" "i \<notin> busy_files D (fst s1)" "w_data (snd s1) i = promised_data D s i"
      and ok: "?fd \<notin> failing_handles D (fst s)"
      by (auto simp: accepted_def)
    then have rest1: "at_rest D s1 ?fd i" and d1: "stored_content (unat (content_start (aw_layout aw))) content (w_data (snd s1) i)"
      using sole_handleD(2) [OF sole1] at by (auto simp: at_rest_def async_writer_at_def)
    note sought = wp_run [OF seek_at_rest [OF rest1] sk]
    then have p2: "progress D {} s1 s2" by (cases r2) simp_all
    have "async_writer_at D rep s2 tp' k []"
      by (rule async_writer_at_idle [OF rep1 others(3) [OF _ sk] p2])
         (rule sole_apart [OF async_writer_atD(4) [OF rep1] sole1 ne])
    moreover have "progress D {i} s s2" by (rule progress_trans [OF p1 progress_mono [OF p2]]) simp
    ultimately show ?thesis
      using sought d1 at_rest_progress [OF rest1 p2] f sk Ok by (cases r2) (simp_all add: wp_def st_bind_def)
  qed (use f p1 in \<open>simp_all add: wp_def st_bind_def\<close>)
qed

lemma start_rewrite_safe:
  assumes ok: "world_ok (snd s)" and at: "async_writer_at D aw s tp i content" and old: "i \<noteq> w_next (snd s)"
    and free: "aw_final_path aw \<in> untouched (busy_files D (fst s)) (snd s)"
  shows "wp (async_start_rewrite tk E aw)
     (\<lambda>rep s'. \<exists>tp' l rep0. compute (co_layout (async_rewrite_options aw)) (metadata_size E (aw_metadata aw)) (tag_block_size (aw_tags aw)) = Ok l
        \<and> as_writer rep0 = fresh_writer E (aw_final_path aw) (async_rewrite_options aw) l tp' (w_next_fd (snd s))
        \<and> resized rep0 rep \<and> async_writer_at D rep s' tp' (w_next (snd s)) content
        \<and> begun D (insert i (busy_files D (fst s))) (aw_final_path aw) tp' (snd s) s')
     (\<lambda>_ s'. replaced_safely D (insert i (busy_files D (fst s))) (aw_final_path aw) P metadata (snd s)
        (Panic :: ('hn tux_object, object_file_error) res) s') s"
  (is "wp _ ?Q ?R _")
proof -
  let ?fd = "aw_file aw" and ?p = "aw_final_path aw" and ?opts = "async_rewrite_options aw" and ?i = "w_next (snd s)"
    and ?B = "insert i (busy_files D (fst s))" and ?cs = "unat (content_start (aw_layout aw))"
  have free': "?p \<in> untouched ?B (snd s)"
    using free async_writer_only [OF at] async_writer_atD(2) [OF at] by (auto simp: untouched_def)
  have opts: "co_metadata ?opts = aw_metadata aw" "co_tags ?opts = aw_tags aw" by (simp_all add: async_rewrite_options_def)
  have g: "?fd < w_next_fd (snd s)"
    using sole_handleD(2) [OF async_writer_atD(4) [OF at]] ok unfolding world_ok_def by blast
  obtain r1 s1 where c: "async_create_writer tk E ?p ?opts s = (r1, s1)" by (metis surj_pair)
  note created = wp_run [OF wp_and [OF create_begins [OF ok] creating_stays [OF ok g]] c]
  have refused: "?R e s1" if "r1 = Err k \<or> r1 = Panic" for e k
  proof -
    have "quiet (untouched (busy_files D (fst s)) (snd s) \<inter> old_names (snd s) ?p) (snd s) (snd s1)"
      using created that by auto
    then have "quiet (untouched ?B (snd s) \<inter> old_names (snd s) ?p) (snd s) (snd s1)"
      by (rule quiet_mono) (auto simp: untouched_def)
    then show ?thesis by (rule refused_safely(2) [OF _ free'])
  qed
  show ?thesis
  proof (cases r1)
    case r1: (Ok rep)
    with created obtain tp' l where
      made: "compute (co_layout ?opts) (metadata_size E (co_metadata ?opts)) (tag_block_size (co_tags ?opts)) = Ok l"
        "as_writer rep = fresh_writer E ?p ?opts l tp' (w_next_fd (snd s))"
      and rep1: "async_writer_at D rep s1 tp' ?i []" and b: "begun D (busy_files D (fst s)) ?p tp' (snd s) s1"
      and st1: "stays D ?fd s s1"
      by auto
    have b1: "begun D ?B ?p tp' (snd s) s1" by (rule begun_mono [OF b]) blast
    have tmp: "aw_temp_path rep = Some tp'" by (rule async_writer_atD(1) [OF rep1])
    have ne: "tp \<noteq> tp'" using begunD(1) [OF b] async_writer_atD(3) [OF at] by auto
    have at1: "async_writer_at D aw s1 tp i content"
    proof (rule async_writer_at_stays [OF at st1], unfold begunD(5) [OF b])
      show "((w_names (snd s))(tp' \<mapsto> ?i)) tp = Some i" using ne async_writer_atD(3) [OF at] by simp
      show "\<forall>q. ((w_names (snd s))(tp' \<mapsto> ?i)) q = Some i \<longrightarrow> q = tp"
        using old async_writer_only [OF at] by simp
    qed
    obtain r2 s2 where sk: "st_bind (tk_flush tk ?fd) (\<lambda>_. tk_seek tk ?fd ?cs) s1 = (r2, s2)" by (metis surj_pair)
    note settled = wp_run [OF source_settles_wp [OF at1 rep1 old [symmetric]] sk]
    then have p2: "progress D {i} s1 s2" by (cases r2) simp_all
    have b2: "begun D ?B ?p tp' (snd s) s2" by (rule begun_progress [OF b1 p2]) simp
    note dropped2 = begun_dropped [OF b2 tmp free']
    show ?thesis
    proof (cases r2)
      case r2: (Ok u)
      from r2 settled have rest: "at_rest D s2 ?fd i" and content: "drop (promised_pos D s2 ?fd) (w_data (snd s2) i) = content"
        and rep2: "async_writer_at D rep s2 tp' ?i []"
        by (simp_all add: stored_content_drop)
      obtain r3 c3 rep3 s3 where cp: "tk_copy tk (async_content_read tk) (async_writer_write tk) (async_writer_flush tk)
          (\<lparr>cr_file = ?fd, remaining = aw_content_length aw\<rparr>, rep, s2) = (r3, (c3, rep3, s3))" by (metis surj_pair)
      note copied = wp_run [OF begun_copy_wp [OF b2 free' old [symmetric] rest rep2 content async_writer_atD(5) [OF at]] cp]
      have "?Q rep3 s3" if "r3 = Ok m" for m
        using copied that made unfolding opts by auto
      then show ?thesis
        using copied [of P metadata E] c r1 sk r2 cp
        by (cases r3) (simp_all add: wp_def async_start_rewrite_def st_bind_def)
    qed (use dropped2 c r1 sk in \<open>simp_all add: wp_def async_start_rewrite_def st_bind_def\<close>)
  qed (use refused c in \<open>simp_all add: wp_def async_start_rewrite_def st_bind_def\<close>)
qed

lemma abort_tidies:
  assumes "aw_temp_path aw = Some tp"
  shows "tidied D tp s (snd (async_abort tk E aw s))"
proof -
  obtain r s1 where run: "tk_remove tk tp s = (r, s1)" by (metis surj_pair)
  have "tidied D tp s s1"
    using wp_run [OF remove run] by (cases r) (auto intro: removed_tidied progress_tidied simp del: split_paired_All)
  moreover have "snd (async_abort tk E aw s) = s1"
    using assms run by (auto simp: async_abort_def async_consume_def with_self_def st_bind_def put_self_def on_world_def
        async_drop_writer_def split: res.splits)
  ultimately show ?thesis by simp
qed

lemma finish_rewriting_safe:
  assumes H: "header_name_ok (header_names E)" and ok: "world_ok (snd s)" and at: "async_writer_at D aw s tp i content"
    and plain: "aw_compression aw = NoCompression" and secs: "sections_ok (aw_metadata aw) (aw_tags aw)"
    and old: "i \<noteq> w_next (snd s)" and free: "aw_final_path aw \<in> untouched (busy_files D (fst s)) (snd s)"
    and moves: "async_finish_layout E aw = Ok None" and start: "async_start_rewrite tk E aw s = (Ok rep, s1)"
  shows "\<exists>r s'. async_finish (Suc (Suc n)) tk E aw s = Some (r, s')
     \<and> replaced_safely D (insert i (busy_files D (fst s))) (aw_final_path aw)
         (version_of E NoCompression (aw_metadata aw) (aw_tags aw) content) (aw_metadata aw) (snd s) r s'"
proof -
  let ?p = "aw_final_path aw" and ?B = "insert i (busy_files D (fst s))" and ?opts = "async_rewrite_options aw"
    and ?taken = "aw\<lparr>aw_metadata := tags_new, aw_tags := tags_new\<rparr>"
    and ?P = "version_of E NoCompression (aw_metadata aw) (aw_tags aw) content"
  let ?S = "replaced_safely D ?B ?p ?P (aw_metadata aw) (snd s)"
  have taken: "aw_temp_path ?taken = Some tp" and tp: "tp \<notin> untouched ?B (snd s)" "tp \<noteq> ?p"
    using async_writer_atD(1-3) [OF at] by (auto simp: untouched_def)
  have free': "?p \<in> untouched ?B (snd s)"
    using free async_writer_only [OF at] tp(2) by (auto simp: untouched_def)
  have opts: "co_metadata ?opts = aw_metadata aw" "co_tags ?opts = aw_tags aw" "co_compression ?opts = NoCompression"
    by (simp_all add: async_rewrite_options_def plain)
  from wp_run [OF start_rewrite_safe [OF ok at old free, where P = ?P and metadata = "aw_metadata aw"] start]
  obtain tp' l rep0 where
    made: "compute (co_layout ?opts) (metadata_size E (aw_metadata aw)) (tag_block_size (aw_tags aw)) = Ok l"
      "as_writer rep0 = fresh_writer E ?p ?opts l tp' (w_next_fd (snd s))" "resized rep0 rep"
    and rep: "async_writer_at D rep s1 tp' (w_next (snd s)) content" and b: "begun D ?B ?p tp' (snd s) s1"
    by auto
  from finish_created_safe [OF H b rep _ made(2) opts(3) made(3) _ free', of n] made(1) secs
  obtain r2 s2 where fin: "async_finish (Suc n) tk E rep s1 = Some (r2, s2)" and safe: "?S r2 s2"
    and names: "\<And>ob. r2 = Ok ob \<Longrightarrow> w_names (snd s2) = (w_names (snd s))(?p \<mapsto> w_next (snd s))
        \<and> busy_files D (fst s2) \<subseteq> insert (w_next (snd s)) ?B"
    unfolding opts by blast
  show ?thesis
  proof (cases "\<exists>ob. r2 = Ok ob")
    case True
    then obtain ob where r2: "r2 = Ok ob" ..
    have "?S (Ok ob) (snd (async_abort tk E ?taken s2))"
      by (rule safely_tidied [OF _ abort_tidies [OF taken] _ _ _ tp]) (use safe r2 names begunD(4) [OF b] in auto)
    then show ?thesis using moves start fin r2 by (simp add: Let_def)
  next
    case False
    then have "?S r2 (async_drop_writer E ?taken s2)" by (intro safely_dropped [OF safe _ taken tp]) simp
    then show ?thesis using moves start fin False by (cases r2) (simp_all add: Let_def)
  qed
qed

text \<open>
  \<open>finish\<close>, in place or by rewriting: the replacement always fits, and the name of the outgrown file
  is removed when it is published.
\<close>

lemma finish_safe:
  assumes H: "header_name_ok (header_names E)" and ok: "world_ok (snd s)" and at: "async_writer_at D aw s tp i content"
    and plain: "aw_compression aw = NoCompression" and secs: "sections_ok (aw_metadata aw) (aw_tags aw)"
    and old: "i \<noteq> w_next (snd s)" and free: "aw_final_path aw \<in> untouched (busy_files D (fst s)) (snd s)"
  shows "\<exists>r s'. async_finish (Suc (Suc n)) tk E aw s = Some (r, s')
     \<and> replaced_safely D (insert i (busy_files D (fst s))) (aw_final_path aw)
         (version_of E NoCompression (aw_metadata aw) (aw_tags aw) content) (aw_metadata aw) (snd s) r s'"
proof -
  let ?p = "aw_final_path aw" and ?B = "insert i (busy_files D (fst s))"
    and ?taken = "aw\<lparr>aw_metadata := tags_new, aw_tags := tags_new\<rparr>"
    and ?P = "version_of E NoCompression (aw_metadata aw) (aw_tags aw) content"
  have tp: "aw_temp_path aw = Some tp" "tp \<notin> untouched ?B (snd s)" "tp \<noteq> ?p"
    using async_writer_atD(1-3) [OF at] by (auto simp: untouched_def)
  have free': "?p \<in> untouched ?B (snd s)"
    using free async_writer_only [OF at] tp(3) by (auto simp: untouched_def)
  note refused = safely_dropped [OF refused_safely(1) [OF quiet_refl free'] _ tp]
    safely_dropped [OF refused_safely(2) [OF quiet_refl free'] _ tp]
  consider l where "async_finish_layout E aw = Ok (Some l)" | (moves) "async_finish_layout E aw = Ok None"
    | (stops) "\<forall>fit. async_finish_layout E aw \<noteq> Ok fit"
    by (metis option.exhaust)
  then show ?thesis
  proof cases
    case (1 l)
    then show ?thesis using finish_fits_safe [OF H at plain secs _ free, of l "Suc n"] by blast
  next
    case stops
    then show ?thesis using refused by (cases "async_finish_layout E aw") (simp_all add: Let_def)
  next
    case moves
    obtain r1 s1 where start: "async_start_rewrite tk E aw s = (r1, s1)" by (metis surj_pair)
    note started = wp_run [OF start_rewrite_safe [OF ok at old free, where P = ?P and metadata = "aw_metadata aw"] start]
    show ?thesis
    proof (cases "\<exists>rep. r1 = Ok rep")
      case True
      then show ?thesis using finish_rewriting_safe [OF H ok at plain secs old free moves] start by blast
    next
      case False
      with started have "replaced_safely D ?B ?p ?P (aw_metadata aw) (snd s) (Panic :: ('hn tux_object, object_file_error) res) s1"
        by (cases r1) simp_all
      then have "replaced_safely D ?B ?p ?P (aw_metadata aw) (snd s) (Panic :: ('hn tux_object, object_file_error) res)
          (async_drop_writer E ?taken s1)"
        by (rule safely_dropped [OF _ _ _ tp(2,3)]) (simp_all add: tp(1))
      then show ?thesis using moves start False by (cases r1) (simp_all add: Let_def failed_safely)
    qed
  qed
qed

end

end
