(* ===== verification/WriteBehind.thy ===== *)
theory WriteBehind
  imports AsyncCopying
begin

text \<open>
  A runtime that defers its writes and reports their failures late, as the laws of \<open>AsyncFaults\<close> and
  \<open>AsyncCopying\<close> allow: what the module in \<open>src/src/fs/async_io.rs\<close> is proved to do on every such
  runtime, it does on this one, whichever of its system calls fail.
\<close>

section \<open>A runtime that writes behind\<close>

text \<open>
  It keeps the last write, with its handle and its file, until the next call; that call carries the
  write out first. When the write fails the handle is remembered, and the next write or flush of it
  reports the failure.
\<close>

type_synonym write_behind = "(nat \<times> nat \<times> u8 list) option \<times> nat set"

definition carry_out :: "'hn env \<Rightarrow> write_behind runtime \<Rightarrow> write_behind runtime" where
  "carry_out E s =
     (case s of
        ((None, failed), w) \<Rightarrow> s
      | ((Some (fd, i, bs), failed), w) \<Rightarrow>
          (if writes_to w fd i
           then (case file_write_all E fd bs w of
                   (Ok _, w') \<Rightarrow> ((None, failed), w')
                 | (_, w') \<Rightarrow> ((None, insert fd failed), w'))
           else ((None, failed), w)))"

definition behind :: "'hn env \<Rightarrow> (write_behind runtime, 'a, io_kind) st \<Rightarrow> (write_behind runtime, 'a, io_kind) st" where
  "behind E m s = m (carry_out E s)"

text \<open>A call that reports a failure that was not reported before.\<close>

definition reporting :: "nat \<Rightarrow> (write_behind runtime, 'a, io_kind) st \<Rightarrow> (write_behind runtime, 'a, io_kind) st" where
  "reporting fd m s = (case s of ((buffer, failed), w) \<Rightarrow>
     if fd \<in> failed then (Err OtherKind, ((buffer, failed - {fd}), w)) else m s)"

definition buffer_write :: "nat \<Rightarrow> u8 list \<Rightarrow> (write_behind runtime, nat, io_kind) st" where
  "buffer_write fd bs s = (case s of ((_, failed), w) \<Rightarrow>
     (case w_open w fd of
        None \<Rightarrow> (Err OtherKind, s)
      | Some f \<Rightarrow> (Ok (length bs), ((Some (fd, of_inode f, bs), failed), w))))"

text \<open>A handle just opened has failed nothing.\<close>

definition opened :: "(write_behind runtime, nat, io_kind) st \<Rightarrow> (write_behind runtime, nat, io_kind) st" where
  "opened m s = (case m s of
     (Ok fd, ((buffer, failed), w)) \<Rightarrow> (Ok fd, ((buffer, failed - {fd}), w))
   | x \<Rightarrow> x)"

text \<open>Copying in pieces of eight kilobytes; what is left to read bounds the rounds.\<close>

fun copy_rounds ::
  "nat \<Rightarrow> (nat \<Rightarrow> ('r \<times> 's, u8 list, io_kind) st) \<Rightarrow> (u8 list \<Rightarrow> ('w \<times> 's, nat, io_kind) st)
     \<Rightarrow> ('w \<times> 's, unit, io_kind) st \<Rightarrow> nat \<Rightarrow> ('r \<times> 'w \<times> 's, nat, io_kind) st" where
  "copy_rounds 0 rd wr fl moved x = (Err OtherKind, x)"
| "copy_rounds (Suc n) rd wr fl moved (c, aw, s) =
     (case rd 8192 (c, s) of
        (Err k, (c', s')) \<Rightarrow> (Err k, (c', aw, s'))
      | (Panic, (c', s')) \<Rightarrow> (Panic, (c', aw, s'))
      | (Ok bs, (c', s')) \<Rightarrow>
          (if bs = [] then (case fl (aw, s') of (r, (aw', s'')) \<Rightarrow> (map_res (\<lambda>_. moved) id r, (c', aw', s'')))
           else (case write_all wr bs (aw, s') of
                   (Err k, (aw', s'')) \<Rightarrow> (Err k, (c', aw', s''))
                 | (Panic, (aw', s'')) \<Rightarrow> (Panic, (c', aw', s''))
                 | (Ok _, (aw', s'')) \<Rightarrow> copy_rounds n rd wr fl (moved + length bs) (c', aw', s''))))"

definition write_behind :: "'hn env \<Rightarrow> (write_behind, 'hn) tokio" where
  "write_behind E =
     \<lparr>tk_open = (\<lambda>p b. behind E (opened (on_world (sys_open E p b)))), tk_create_new = (\<lambda>p. behind E (opened (on_world (sys_create_new E p)))),
      tk_open_dir = (\<lambda>p. behind E (on_world (sys_open_dir E p))), tk_sync_dir = behind E (on_world (sys_sync_all E 0)),
      tk_seek = (\<lambda>fd n. behind E (on_world (sys_seek E fd n))), tk_read = (\<lambda>fd n. behind E (on_world (sys_read E fd n))),
      tk_read_exact = (\<lambda>fd n. behind E (on_world (file_read_exact E fd n))),
      tk_write = (\<lambda>fd bs. behind E (reporting fd (buffer_write fd bs))),
      tk_write_all = (\<lambda>fd bs. behind E (reporting fd (st_bind (buffer_write fd bs) (\<lambda>_. st_lift (Ok ()))))),
      tk_flush = (\<lambda>fd. behind E (reporting fd (st_lift (Ok ())))),
      tk_shutdown = (\<lambda>fd. behind E (reporting fd (st_lift (Ok ())))),
      tk_sync_all = (\<lambda>fd. behind E (on_world (sys_sync_all E fd))),
      tk_file_len = (\<lambda>fd. behind E (on_world (sys_file_len E fd))),
      tk_try_clone = (\<lambda>fd. behind E (on_world (sys_try_clone E fd))),
      tk_rename = (\<lambda>p q. behind E (on_world (sys_rename E p q))), tk_remove = (\<lambda>p. behind E (on_world (sys_remove E p))),
      tk_read_to_end = (\<lambda>rd (c, s). case copy_rounds (Suc (unat (remaining c))) rd (\<lambda>bs (acc, s). (Ok (length bs), (acc @ bs, s)))
         (st_lift (Ok ())) 0 (c, [], s) of (r, (c', acc, s')) \<Rightarrow> (map_res (\<lambda>_. acc) id r, (c', s'))),
      tk_copy = (\<lambda>rd wr fl (c, aw, s). copy_rounds (Suc (unat (remaining c))) rd wr fl 0 (c, aw, s)),
      tk_spawn_blocking = (\<lambda>c s. (if c = Panic then Err OtherKind else Ok c, s))\<rparr>"

definition behind_ghosts :: "write_behind outstanding" where
  "behind_ghosts =
     \<lparr>busy_files = (\<lambda>t. case fst t of None \<Rightarrow> {} | Some (_, i, _) \<Rightarrow> {i}),
      failing_handles = snd,
      promised_data = (\<lambda>(t, w) j. case fst t of
         Some (fd, i, bs) \<Rightarrow> if writes_to w fd i \<and> i = j then splice (of_pos (the (w_open w fd))) bs (w_data w j) else w_data w j
       | None \<Rightarrow> w_data w j),
      promised_pos = (\<lambda>(t, w) g. case fst t of
         Some (fd, i, bs) \<Rightarrow> of_pos (the (w_open w g)) + (if writes_to w fd i \<and> fd = g then length bs else 0)
       | None \<Rightarrow> of_pos (the (w_open w g)))\<rparr>"

lemma behind_ghosts_simps [simp]:
  "busy_files behind_ghosts (None, failed) = {}" "busy_files behind_ghosts (Some (fd, i, bs), failed) = {i}"
  "failing_handles behind_ghosts (buffer, failed) = failed"
  "promised_data behind_ghosts ((None, failed), w) = w_data w"
  "promised_pos behind_ghosts ((None, failed), w) g = of_pos (the (w_open w g))"
  by (simp_all add: behind_ghosts_def)

lemma behind_cases [case_names none some]:
  fixes s :: "write_behind runtime"
  obtains failed w where "s = ((None, failed), w)" | fd i bs failed w where "s = ((Some (fd, i, bs), failed), w)"
  by (metis option.exhaust prod.exhaust)

text \<open>What is kept is carried out as promised, or its handle is failing from then on.\<close>

lemma carry_out_effect:
  assumes "carry_out E s = ((buffer, failed), w1)"
  shows "buffer = None" and "undisturbed (busy_files behind_ghosts (fst s)) (snd s) w1"
    and "sole_handle (snd s) fd i \<Longrightarrow> fd \<notin> failed \<Longrightarrow> fd \<notin> failing_handles behind_ghosts (fst s)
      \<and> w_data w1 i = promised_data behind_ghosts s i \<and> of_pos (the (w_open w1 fd)) = promised_pos behind_ghosts s fd"
proof -
  obtain kept old w where s: "s = ((kept, old), w)" by (metis surj_pair)
  have "buffer = None \<and> undisturbed (busy_files behind_ghosts (fst s)) (snd s) w1 \<and>
     (sole_handle (snd s) fd i \<longrightarrow> fd \<notin> failed \<longrightarrow> fd \<notin> failing_handles behind_ghosts (fst s)
      \<and> w_data w1 i = promised_data behind_ghosts s i \<and> of_pos (the (w_open w1 fd)) = promised_pos behind_ghosts s fd)"
  proof (cases kept)
    case None
    with assms s show ?thesis by (simp add: carry_out_def)
  next
    case (Some a)
    obtain g j bs where a: "a = (g, j, bs)" by (metis surj_pair)
    show ?thesis
    proof (cases "writes_to w g j")
      case False
      with assms s Some a show ?thesis by (auto simp: carry_out_def behind_ghosts_def)
    next
      case True
      then obtain f where f: "w_open w g = Some f" "of_inode f = j" "of_writable f" by (auto simp: writes_to_def)
      obtain r w' where run: "file_write_all E g bs w = (r, w')" by (metis surj_pair)
      note spec = wp_run [OF file_write_all_wp [OF f(1,3)] run]
      then have fr: "frame {g} {j} w w'" by (cases r) (simp_all add: f)
      have eqs: "buffer = None" "w1 = w'" "failed = (if \<exists>u. r = Ok u then old else insert g old)"
        using assms s Some a True run by (auto simp: carry_out_def split: res.splits)
      have other: "w_data w' i = promised_data behind_ghosts s i" "of_pos (the (w_open w' fd)) = promised_pos behind_ghosts s fd"
        if "g \<noteq> fd" "sole_handle w fd i"
      proof -
        have "i \<noteq> j" using that(1) sole_handleD(1) [OF that(2) f(1)] f(2) by auto
        then show "w_data w' i = promised_data behind_ghosts s i" "of_pos (the (w_open w' fd)) = promised_pos behind_ghosts s fd"
          using that(1) frameD(6,7) [OF fr] by (auto simp: behind_ghosts_def s Some a)
      qed
      have own: "w_data w' i = promised_data behind_ghosts s i" "of_pos (the (w_open w' fd)) = promised_pos behind_ghosts s fd"
        if "g = fd" "sole_handle w fd i" "r = Ok u" for u
      proof -
        have "i = j" using that(1) sole_handleD(2) [OF that(2)] f by auto
        then show "w_data w' i = promised_data behind_ghosts s i" "of_pos (the (w_open w' fd)) = promised_pos behind_ghosts s fd"
          using spec that f True by (auto simp: behind_ghosts_def s Some a)
      qed
      have "undisturbed (busy_files behind_ghosts (fst s)) (snd s) w1"
        using undisturbed_frame [OF fr, of "{j}"] by (simp add: s Some a eqs)
      with eqs other own show ?thesis by (cases "g = fd"; cases r; simp add: s)
    qed
  qed
  then show "buffer = None" and "undisturbed (busy_files behind_ghosts (fst s)) (snd s) w1"
    and "sole_handle (snd s) fd i \<Longrightarrow> fd \<notin> failed \<Longrightarrow> fd \<notin> failing_handles behind_ghosts (fst s)
      \<and> w_data w1 i = promised_data behind_ghosts s i \<and> of_pos (the (w_open w1 fd)) = promised_pos behind_ghosts s fd"
    by blast+
qed

lemma wp_behind: "wp (behind E m) Q R s \<longleftrightarrow> wp m Q R (carry_out E s)"
  by (simp add: wp_def behind_def)

text \<open>A call that disturbs nothing more, after what was kept has been carried out.\<close>

lemma behind_quiet:
  assumes "\<And>w. wp m (\<lambda>_ w'. undisturbed {} w w') (\<lambda>_ w'. undisturbed {} w w') w"
  shows "wp (behind E (on_world m)) (\<lambda>_. progress behind_ghosts {} s) (\<lambda>_. progress behind_ghosts {} s) s"
proof -
  obtain buffer failed w1 where c: "carry_out E s = ((buffer, failed), w1)" by (metis surj_pair)
  note eff = carry_out_effect(1,2) [OF c]
  have "progress behind_ghosts {} s ((None, failed), w2)" if "undisturbed {} w1 w2" for w2
    using undisturbed_trans [OF eff(2) undisturbed_mono [OF that]] by (simp add: progress_def)
  then show ?thesis
    unfolding wp_behind c wp_on_world eff(1) by (intro wp_conseq [OF assms]) simp_all
qed

lemma undisturbed_calls:
  "wp (sys_sync_all E fd) (\<lambda>_ w'. undisturbed {} w w') (\<lambda>_ w'. undisturbed {} w w') w"
  "wp (sys_open_dir E q) (\<lambda>_ w'. undisturbed {} w w') (\<lambda>_ w'. undisturbed {} w w') w"
  "wp (sys_try_clone E fd) (\<lambda>_ w'. undisturbed {} w w') (\<lambda>_ w'. undisturbed {} w w') w"
  by (rule wp_conseq [OF sys_sync_all_wp] wp_conseq [OF sys_open_dir_wp] wp_conseq [OF sys_try_clone_wp];
      simp add: undisturbed_tick)+

text \<open>A handle after what was kept has been carried out.\<close>

lemma carried_handle:
  assumes "carry_out E s = ((buffer, failed), w1)" and "sole_handle (snd s) fd i"
  obtains f where "buffer = None" and "undisturbed (busy_files behind_ghosts (fst s)) (snd s) w1"
    and "w_open w1 fd = Some f" and "of_inode f = i" and "of_writable f" and "writes_to w1 fd i"
    and "fd \<notin> failed \<Longrightarrow> fd \<notin> failing_handles behind_ghosts (fst s)"
    and "fd \<notin> failed \<Longrightarrow> w_data w1 i = promised_data behind_ghosts s i"
    and "fd \<notin> failed \<Longrightarrow> of_pos f = promised_pos behind_ghosts s fd"
proof -
  note eff = carry_out_effect [OF assms(1)]
  have sole: "sole_handle w1 fd i" by (rule sole_handle_undisturbed [OF eff(2) assms(2)])
  then obtain f where f: "w_open w1 fd = Some f" "of_inode f = i" "of_writable f" using sole_handleD(2) by blast
  then have "writes_to w1 fd i" by (auto simp: writes_to_def)
  then show ?thesis using that f eff(1,2) eff(3) [OF assms(2)] by simp
qed

lemma behind_write:
  assumes "sole_handle (snd s) fd i"
  shows "wp (behind E (reporting fd (buffer_write fd bs))) (\<lambda>n s'. n = length bs \<and> progress behind_ghosts {i} s s'
           \<and> accepted behind_ghosts fd i s s' (splice (promised_pos behind_ghosts s fd) bs (promised_data behind_ghosts s i))
               (promised_pos behind_ghosts s fd + length bs))
         (\<lambda>_ s'. progress behind_ghosts {i} s s') s"
proof -
  obtain buffer failed w1 where c: "carry_out E s = ((buffer, failed), w1)" by (metis surj_pair)
  obtain f where "buffer = None" and u: "undisturbed (busy_files behind_ghosts (fst s)) (snd s) w1"
    and f: "w_open w1 fd = Some f" "of_inode f = i" "writes_to w1 fd i"
    and kept: "fd \<notin> failed \<Longrightarrow> fd \<notin> failing_handles behind_ghosts (fst s)"
      "fd \<notin> failed \<Longrightarrow> w_data w1 i = promised_data behind_ghosts s i" "fd \<notin> failed \<Longrightarrow> of_pos f = promised_pos behind_ghosts s fd"
    by (rule carried_handle [OF c assms]) blast
  have "undisturbed (insert i (busy_files behind_ghosts (fst s))) (snd s) w1"
    by (rule undisturbed_mono [OF u]) blast
  then show ?thesis
    using f kept \<open>buffer = None\<close>
    by (auto simp: wp_def behind_def c reporting_def buffer_write_def progress_def accepted_def)
       (simp_all add: behind_ghosts_def)
qed

lemma behind_seek:
  assumes "sole_handle (snd s) fd i"
  shows "wp (behind E (on_world (sys_seek E fd n))) (\<lambda>_ s'. progress behind_ghosts {i} s s'
           \<and> accepted behind_ghosts fd i s s' (promised_data behind_ghosts s i) n)
         (\<lambda>_ s'. progress behind_ghosts {i} s s') s"
proof -
  obtain buffer failed w1 where c: "carry_out E s = ((buffer, failed), w1)" by (metis surj_pair)
  obtain f where b: "buffer = None" and u: "undisturbed (busy_files behind_ghosts (fst s)) (snd s) w1"
    and f: "w_open w1 fd = Some f" "of_inode f = i"
    and kept: "fd \<notin> failed \<Longrightarrow> fd \<notin> failing_handles behind_ghosts (fst s)"
      "fd \<notin> failed \<Longrightarrow> w_data w1 i = promised_data behind_ghosts s i"
    by (rule carried_handle [OF c assms]) blast
  have p: "progress behind_ghosts {i} s ((None, failed), w2)" if "frame F {} w1 w2" for F w2
    unfolding progress_def fst_conv snd_conv
    by (rule conjI [OF undisturbed_trans [OF undisturbed_mono [OF u] undisturbed_frame [OF that]]]) auto
  have "accepted behind_ghosts fd i s ((None, failed), w2) (promised_data behind_ghosts s i) n"
    if "frame {fd} {} w1 w2" "w_open w2 fd = Some (f\<lparr>of_pos := n\<rparr>)" for w2
    using kept frameD(6) [OF that(1), of i] that(2) by (auto simp: accepted_def)
  with p show ?thesis
    unfolding wp_behind c wp_on_world b fst_conv snd_conv by (intro wp_conseq [OF sys_seek_wp [OF f(1)]]) auto
qed

lemma behind_flush:
  assumes "sole_handle (snd s) fd i"
  shows "wp (behind E (reporting fd (st_lift (Ok ())))) (\<lambda>_ s'. progress behind_ghosts {i} s s'
           \<and> accepted behind_ghosts fd i s s' (promised_data behind_ghosts s i) (promised_pos behind_ghosts s fd)
           \<and> fd \<notin> failing_handles behind_ghosts (fst s') \<and> i \<notin> busy_files behind_ghosts (fst s')
           \<and> w_data (snd s') i = promised_data behind_ghosts s i)
         (\<lambda>_ s'. progress behind_ghosts {i} s s') s"
proof -
  obtain buffer failed w1 where c: "carry_out E s = ((buffer, failed), w1)" by (metis surj_pair)
  obtain f where b: "buffer = None" and u: "undisturbed (busy_files behind_ghosts (fst s)) (snd s) w1"
    and f: "w_open w1 fd = Some f" "of_inode f = i"
    and kept: "fd \<notin> failed \<Longrightarrow> fd \<notin> failing_handles behind_ghosts (fst s)"
      "fd \<notin> failed \<Longrightarrow> w_data w1 i = promised_data behind_ghosts s i" "fd \<notin> failed \<Longrightarrow> of_pos f = promised_pos behind_ghosts s fd"
    by (rule carried_handle [OF c assms]) blast
  have "undisturbed (insert i (busy_files behind_ghosts (fst s))) (snd s) w1"
    by (rule undisturbed_mono [OF u]) blast
  then show ?thesis
    using f kept b by (auto simp: wp_def behind_def c reporting_def progress_def accepted_def st_lift_def)
qed

lemma behind_rename:
  "wp (behind E (on_world (sys_rename E p q)))
     (\<lambda>_ s'. \<exists>i a b. w_names (snd s) p = Some i \<and> undisturbed (busy_files behind_ghosts (fst s)) (snd s) a
        \<and> calm (renamed p q i a) b \<and> undisturbed (busy_files behind_ghosts (fst s)) b (snd s')
        \<and> busy_files behind_ghosts (fst s') \<subseteq> busy_files behind_ghosts (fst s))
     (\<lambda>_. progress behind_ghosts {} s) s"
proof -
  obtain buffer failed w1 where c: "carry_out E s = ((buffer, failed), w1)" by (metis surj_pair)
  note eff = carry_out_effect(1,2) [OF c]
  have n: "w_names (snd s) p = w_names w1 p" by (simp add: undisturbedD(1) [OF eff(2)])
  have "calm (renamed p q i w1) (tick (w1\<lparr>w_names := (w_names w1)(p := None, q \<mapsto> i)\<rparr>))" for i
    using calm_tick [OF calm_refl] by (simp add: renamed_def)
  then show ?thesis
    unfolding wp_behind c wp_on_world eff(1) fst_conv snd_conv n
    using eff(2) by (intro wp_conseq [OF sys_rename_wp]) (force simp: progress_def undisturbed_tick)+
qed

lemma behind_create:
  "wp (behind E (opened (on_world (sys_create_new E p))))
     (\<lambda>fd s'. \<exists>a b. undisturbed (busy_files behind_ghosts (fst s)) (snd s) a \<and> w_names (snd s) p = None
        \<and> calm (with_new_file p a) b \<and> undisturbed (busy_files behind_ghosts (fst s)) b (snd s')
        \<and> busy_files behind_ghosts (fst s') \<subseteq> busy_files behind_ghosts (fst s)
        \<and> fd = w_next_fd (snd s) \<and> fd \<notin> failing_handles behind_ghosts (fst s')
        \<and> promised_data behind_ghosts s' (w_next (snd s)) = [] \<and> promised_pos behind_ghosts s' fd = 0)
     (\<lambda>_. progress behind_ghosts {} s) s"
  (is "wp _ ?Q ?R _")
proof -
  obtain buffer failed w1 where c: "carry_out E s = ((buffer, failed), w1)" by (metis surj_pair)
  note eff = carry_out_effect(1,2) [OF c]
  have n: "w_names (snd s) p = w_names w1 p" "w_next_fd (snd s) = w_next_fd w1" "w_next (snd s) = w_next w1"
    by (simp_all add: undisturbedD(1,3,4) [OF eff(2)])
  have calm: "calm (with_new_file p w1) (tick (with_new_file p w1))" by (rule calm_tick [OF calm_refl])
  obtain r w2 where run: "sys_create_new E p w1 = (r, w2)" by (metis surj_pair)
  note spec = wp_run [OF sys_create_new_wp run]
  show ?thesis
  proof (cases r)
    case (Ok fd)
    with spec have "w2 = tick (with_new_file p w1)" "w_names w1 p = None" "fd = w_next_fd w1"
      by (simp_all add: with_new_file_def)
    with calm eff Ok run show ?thesis
      by (simp add: wp_def behind_def c opened_def on_world_def n with_new_file_fields)
         (rule exI [of _ w1], simp, rule exI [of _ "tick (with_new_file p w1)"], simp)
  qed (use spec run eff in \<open>auto simp: wp_def behind_def c opened_def on_world_def progress_def undisturbed_tick\<close>)
qed

lemma behind_write_all: "wp (behind E (reporting fd (st_bind (buffer_write fd bs) (\<lambda>_. st_lift (Ok ()))))) Q R s \<longleftrightarrow>
    wp (behind E (reporting fd (buffer_write fd bs))) (\<lambda>_. Q ()) R s"
  by (auto simp: wp_def behind_def reporting_def st_bind_def st_lift_def split: prod.splits res.splits)

interpretation behind: deferring "write_behind E" behind_ghosts for E :: "'hn env"
proof (unfold_locales; unfold write_behind_def tokio.select_convs)
  fix s :: "write_behind runtime" and fd i bs
  assume h: "sole_handle (snd s) fd i"
  show "wp (behind E (reporting fd (buffer_write fd bs))) (\<lambda>n s'. progress behind_ghosts {i} s s' \<and> n \<le> length bs
           \<and> accepted behind_ghosts fd i s s' (splice (promised_pos behind_ghosts s fd) (take n bs) (promised_data behind_ghosts s i))
               (promised_pos behind_ghosts s fd + n))
         (\<lambda>_ s'. progress behind_ghosts {i} s s') s"
    by (rule wp_conseq [OF behind_write [OF h]]) auto
  show "wp (behind E (reporting fd (st_bind (buffer_write fd bs) (\<lambda>_. st_lift (Ok ()))))) (\<lambda>_ s'. progress behind_ghosts {i} s s'
           \<and> accepted behind_ghosts fd i s s' (splice (promised_pos behind_ghosts s fd) bs (promised_data behind_ghosts s i))
               (promised_pos behind_ghosts s fd + length bs))
         (\<lambda>_ s'. progress behind_ghosts {i} s s') s"
    unfolding behind_write_all by (rule wp_conseq [OF behind_write [OF h]]) auto
qed (rule behind_seek behind_flush behind_rename behind_create behind_quiet undisturbed_calls; assumption?)+

section \<open>It copies\<close>

text \<open>An operation on one file leaves other files and their handles alone.\<close>

lemma stays_frame:
  assumes "frame F {} w w'" and "g \<notin> F"
  shows "stays behind_ghosts g ((None, failed), w) ((None, failed), w')"
proof -
  have "w_data w' = w_data w" and "w_open w' g = w_open w g" using frameD(6,7) [OF assms(1)] assms(2) by auto
  moreover have "sole_handle w' g j" if "sole_handle w g j" for j
    by (rule sole_handle_undisturbed [OF undisturbed_frame [OF assms(1), of "{}"] that]) simp
  ultimately show ?thesis by (auto simp: stays_def accepted_def at_rest_def)
qed

lemma stays_carry_out: "stays behind_ghosts g s (carry_out E s)"
proof -
  obtain buffer failed w1 where c: "carry_out E s = ((buffer, failed), w1)" by (metis surj_pair)
  note eff = carry_out_effect [OF c]
  have "sole_handle w1 g j" if "sole_handle (snd s) g j" for j
    by (rule sole_handle_undisturbed [OF eff(2) that])
  moreover have "at_rest behind_ghosts ((None, failed), w1) g j \<and>
      promised_pos behind_ghosts ((None, failed), w1) g = promised_pos behind_ghosts s g \<and> w_data w1 j = w_data (snd s) j"
    if r: "at_rest behind_ghosts s g j" for j
  proof -
    obtain f where f: "w_open (snd s) g = Some f" "of_inode f = j" using r by (auto simp: at_rest_def)
    have "w_data w1 j = w_data (snd s) j" using r by (intro undisturbedD(5) [OF eff(2)]) (simp add: at_rest_def)
    moreover have "g \<notin> failed \<and> w_open w1 g = Some f \<and> promised_pos behind_ghosts s g = of_pos f"
    proof (cases s rule: behind_cases)
      case (none old w)
      then show ?thesis using c r f by (auto simp: carry_out_def at_rest_def)
    next
      case (some h i bs old w)
      show ?thesis
      proof (cases "writes_to w h i")
        case False
        then show ?thesis using some c r f by (auto simp: carry_out_def at_rest_def behind_ghosts_def)
      next
        case True
        then obtain f' where f': "w_open w h = Some f'" "of_inode f' = i" "of_writable f'" by (auto simp: writes_to_def)
        have ne: "g \<noteq> h" using r f f' some by (auto simp: at_rest_def)
        obtain x w' where run: "file_write_all E h bs w = (x, w')" by (metis surj_pair)
        have "frame {h} {i} w w'" using wp_run [OF file_write_all_wp [OF f'(1,3)] run] f'(2) by (cases x) auto
        then have "w_open w' g = Some f" using frameD(7) ne f some by auto
        then show ?thesis
          using some c r f ne True run by (auto simp: carry_out_def at_rest_def behind_ghosts_def split: res.splits)
      qed
    qed
    ultimately show ?thesis
      using f by (auto simp: at_rest_def)
  qed
  ultimately show ?thesis
    using eff(3) unfolding stays_def accepted_def c eff(1) by auto
qed


lemma frame_calls:
  "wp (sys_read E fd n) (\<lambda>_ w'. frame {fd} {} w w') (\<lambda>_ w'. frame {fd} {} w w') w"
  "wp (sys_seek E fd n) (\<lambda>_ w'. frame {fd} {} w w') (\<lambda>_ w'. frame {fd} {} w w') w"
  unfolding sys_read_def sys_seek_def
  by (rule syscall_spec; auto simp: wp_def with_file_def frame_tick frame_set_pos Let_def split: option.splits)+

lemma apart_undisturbed:
  assumes "undisturbed B w w'" and "apart w g fd"
  shows "apart w' g fd"
proof -
  have "of_inode f \<noteq> of_inode f'" if "w_open w' g = Some f" "w_open w' fd = Some f'" for f f'
    using assms(2) opened_before [OF assms(1) that(1)] opened_before [OF assms(1) that(2)] unfolding apart_def by metis
  with assms(2) show ?thesis by (simp add: apart_def)
qed

lemma behind_other:
  assumes "apart (snd s) g fd" and run: "behind E m s = (r, s')"
    and m: "\<And>failed w. apart w g fd \<Longrightarrow> m ((None, failed), w) = (r, s') \<Longrightarrow> stays behind_ghosts g ((None, failed), w) s'"
  shows "stays behind_ghosts g s s'"
proof -
  obtain buffer failed w1 where c: "carry_out E s = ((buffer, failed), w1)" by (metis surj_pair)
  note eff = carry_out_effect(1,2) [OF c]
  have "stays behind_ghosts g ((None, failed), w1) s'"
    using m [OF apart_undisturbed [OF eff(2) assms(1)]] run c eff(1) by (simp add: behind_def)
  with stays_carry_out [of g s E] show ?thesis unfolding c eff(1) by (rule stays_trans)
qed

lemma other_frame:
  assumes "apart (snd s) g fd" and run: "behind E (on_world m) s = (r, s')"
    and m: "\<And>w. wp m (\<lambda>_ w'. frame {fd} {} w w') (\<lambda>_ w'. frame {fd} {} w w') w"
  shows "stays behind_ghosts g s s'"
proof (rule behind_other [OF assms(1) run])
  fix failed w
  assume g: "apart w g fd" and "on_world m ((None, failed), w) = (r, s')"
  then obtain w' where s': "s' = ((None, failed), w')" and "m w = (r, w')" by (auto simp: on_world_def split: prod.splits)
  then have "frame {fd} {} w w'" using wp_run [OF m, of w r w'] by (cases r) auto
  then show "stays behind_ghosts g ((None, failed), w) s'"
    unfolding s' by (rule stays_frame) (use g in \<open>simp add: apart_def\<close>)
qed

text \<open>What is kept of another file, and the report of a failure of another handle.\<close>

lemma stays_kept:
  assumes "apart w g fd" and f: "w_open w fd = Some f"
  shows "stays behind_ghosts g ((None, failed), w) ((Some (fd, of_inode f, bs), failed), w)"
proof -
  have g: "g \<noteq> fd" "of_inode f' \<noteq> of_inode f" if "w_open w g = Some f'" for f' using assms that by (simp_all add: apart_def)
  have "promised_pos behind_ghosts ((Some (fd, of_inode f, bs), failed), w) g = of_pos (the (w_open w g))" if "w_open w g = Some f'" for f'
    using g [OF that] by (simp add: behind_ghosts_def)
  moreover have "promised_data behind_ghosts ((Some (fd, of_inode f, bs), failed), w) j = w_data w j" if "j \<noteq> of_inode f" for j
    using that by (simp add: behind_ghosts_def)
  ultimately show ?thesis
    using g sole_handleD(2) [of w g] unfolding stays_def at_rest_def accepted_def by fastforce
qed

lemma stays_reported:
  assumes "apart w g fd"
  shows "stays behind_ghosts g ((None, failed), w) ((None, failed - {fd}), w)"
  using assms by (simp add: stays_def accepted_def at_rest_def apart_def)

lemma other_write:
  assumes "apart (snd s) g fd" and "behind E (reporting fd (buffer_write fd bs)) s = (r, s')"
  shows "stays behind_ghosts g s s'"
  by (rule behind_other [OF assms])
     (auto simp: reporting_def buffer_write_def stays_reported stays_kept split: if_splits option.splits)

lemma other_flush:
  assumes "apart (snd s) g fd" and "behind E (reporting fd (st_lift (Ok ()))) s = (r, s')"
  shows "stays behind_ghosts g s s'"
  by (rule behind_other [OF assms]) (auto simp: reporting_def st_lift_def stays_reported split: if_splits)

lemma other_create:
  assumes ok: "world_ok (snd s)" and g: "g < w_next_fd (snd s)"
    and run: "behind E (opened (on_world (sys_create_new E p))) s = (r, s')"
  shows "stays behind_ghosts g s s'"
proof -
  obtain buffer failed w1 where c: "carry_out E s = ((buffer, failed), w1)" by (metis surj_pair)
  note eff = carry_out_effect(1,2) [OF c]
  have ok1: "world_ok w1" and g1: "g < w_next_fd w1"
    using world_ok_undisturbed [OF eff(2) ok] g undisturbedD(4) [OF eff(2)] by simp_all
  obtain x w2 where cr: "sys_create_new E p w1 = (x, w2)" by (metis surj_pair)
  note spec = wp_run [OF sys_create_new_wp cr]
  have "stays behind_ghosts g ((None, failed), w1) s'"
  proof (cases x)
    case (Ok fd)
    with spec have fd: "fd = w_next_fd w1" and w2: "w_open w2 = (w_open w1)(fd \<mapsto> \<lparr>of_inode = w_next w1, of_pos = 0, of_writable = True\<rparr>)"
      "w_data w2 = (w_data w1)(w_next w1 := [])"
      by simp_all
    have s': "s' = ((None, failed - {fd}), w2)" using run c cr Ok eff(1) by (simp add: behind_def opened_def on_world_def)
    have old: "of_inode f \<noteq> w_next w1" if "w_open w1 h = Some f" for h f using ok1 that unfolding world_ok_def by fastforce
    have sole: "sole_handle w2 g j" if h: "sole_handle w1 g j" for j
    proof -
      obtain f where f: "w_open w1 g = Some f" "of_inode f = j" "of_writable f" using sole_handleD(2) [OF h] by blast
      then have "writes_to w2 g j" using g1 by (simp add: writes_to_def w2(1) fd)
      moreover have "h = g" if "w_open w2 h = Some f'" "of_inode f' = j" for h f'
      proof (cases "h = fd")
        case True
        with that old [OF f(1)] f(2) show ?thesis by (auto simp: w2(1))
      next
        case False
        with that(1) have "w_open w1 h = Some f'" by (simp add: w2(1))
        then show ?thesis by (rule sole_handleD(1) [OF h _ that(2)])
      qed
      ultimately show ?thesis unfolding sole_handle_def by blast
    qed
    have "j \<noteq> w_next w1" if "sole_handle w1 g j \<or> at_rest behind_ghosts ((None, failed), w1) g j" for j
      using that old sole_handleD(2) [of w1 g j] unfolding at_rest_def by auto
    then have data: "w_data w2 j = w_data w1 j" if "sole_handle w1 g j \<or> at_rest behind_ghosts ((None, failed), w1) g j" for j
      using that by (simp add: w2(2))
    have same: "g \<noteq> fd" "w_open w2 g = w_open w1 g" using g1 by (simp_all add: w2(1) fd)
    have "accepted behind_ghosts g j ((None, failed), w1) s' (w_data w1 j) (of_pos (the (w_open w1 g)))" if "sole_handle w1 g j" for j
      using same data that by (simp add: s' accepted_def)
    moreover have "at_rest behind_ghosts s' g j" if "at_rest behind_ghosts ((None, failed), w1) g j" for j
      using same that by (simp add: s' at_rest_def)
    ultimately show ?thesis using sole data same by (simp add: stays_def s')
  next
    case (Err k)
    with spec have "w2 = tick w1" by simp
    then show ?thesis
      using run c cr Err eff(1) by (auto simp: behind_def opened_def on_world_def intro!: stays_frame [of "{}"] frame_tick)
  next
    case Panic
    with spec have "w2 = tick w1" by simp
    then show ?thesis
      using run c cr Panic eff(1) by (auto simp: behind_def opened_def on_world_def intro!: stays_frame [of "{}"] frame_tick)
  qed
  with stays_carry_out [of g s E] show ?thesis unfolding c eff(1) by (rule stays_trans)
qed

lemma handles_counter [simp]:
  "writes_to (w\<lparr>w_counter := k\<rparr>) fd i \<longleftrightarrow> writes_to w fd i" "sole_handle (w\<lparr>w_counter := k\<rparr>) fd i \<longleftrightarrow> sole_handle w fd i"
  by (simp_all add: sole_handle_def writes_to_def)

lemma promises_counter:
  "promised_data behind_ghosts (t, w\<lparr>w_counter := k\<rparr>) j = promised_data behind_ghosts (t, w) j"
  "promised_pos behind_ghosts (t, w\<lparr>w_counter := k\<rparr>) g = promised_pos behind_ghosts (t, w) g"
  by (simp_all add: behind_ghosts_def split_beta cong: option.case_cong if_cong)

lemma stays_counter: "stays behind_ghosts g s (fst s, (snd s)\<lparr>w_counter := k\<rparr>)"
  by (cases s) (simp add: stays_def accepted_def at_rest_def promises_counter)


text \<open>A handle at rest.\<close>

lemma carried_at_rest:
  assumes c: "carry_out E s = ((buffer, failed), w1)" and rest: "at_rest behind_ghosts s fd j"
  obtains f where "buffer = None" and "undisturbed (busy_files behind_ghosts (fst s)) (snd s) w1" and "fd \<notin> failed"
    and "w_open w1 fd = Some f" and "of_inode f = j" and "of_pos f = promised_pos behind_ghosts s fd"
    and "w_data w1 j = w_data (snd s) j"
proof -
  note eff = carry_out_effect(1,2) [OF c]
  have "at_rest behind_ghosts ((None, failed), w1) fd j" "of_pos (the (w_open w1 fd)) = promised_pos behind_ghosts s fd"
    "w_data w1 j = w_data (snd s) j"
    using stays_carry_out [of fd s E] rest unfolding c eff(1) stays_def by auto
  then show ?thesis using that eff by (auto simp: at_rest_def)
qed

text \<open>A call on the file of a handle at rest that moves the handle and nothing else.\<close>

lemma behind_at_rest:
  assumes rest: "at_rest behind_ghosts s fd j"
    and m: "\<And>w f. w_open w fd = Some f \<Longrightarrow> of_inode f = j \<Longrightarrow>
      wp m (\<lambda>a w'. frame {fd} {} w w' \<and> w_open w' fd = Some (f\<lparr>of_pos := pos (of_pos f) a\<rparr>) \<and> P (of_pos f) (w_data w j) a)
         (\<lambda>_ w'. frame {fd} {} w w') w"
  shows "wp (behind E (on_world m)) (\<lambda>a s'. progress behind_ghosts {} s s' \<and> at_rest behind_ghosts s' fd j
           \<and> promised_pos behind_ghosts s' fd = pos (promised_pos behind_ghosts s fd) a
           \<and> P (promised_pos behind_ghosts s fd) (w_data (snd s) j) a)
         (\<lambda>_. progress behind_ghosts {} s) s"
proof -
  obtain buffer failed w1 where c: "carry_out E s = ((buffer, failed), w1)" by (metis surj_pair)
  obtain f where b: "buffer = None" and u: "undisturbed (busy_files behind_ghosts (fst s)) (snd s) w1" and nf: "fd \<notin> failed"
    and f: "w_open w1 fd = Some f" "of_inode f = j" "of_pos f = promised_pos behind_ghosts s fd" "w_data w1 j = w_data (snd s) j"
    by (rule carried_at_rest [OF c rest]) blast
  have p: "progress behind_ghosts {} s ((None, failed), w2)" if "frame {fd} {} w1 w2" for w2
    unfolding progress_def fst_conv snd_conv
    by (rule conjI [OF undisturbed_trans [OF undisturbed_mono [OF u] undisturbed_frame [OF that]]]) auto
  show ?thesis
    unfolding wp_behind c wp_on_world b fst_conv snd_conv
    by (rule wp_conseq [OF m [OF f(1,2)]]) (use p nf f in \<open>auto simp: at_rest_def\<close>)
qed

lemma behind_read:
  assumes "at_rest behind_ghosts s fd j"
  shows "wp (behind E (on_world (sys_read E fd n))) (\<lambda>bs s'. progress behind_ghosts {} s s' \<and> at_rest behind_ghosts s' fd j \<and> length bs \<le> n
           \<and> bs = take (length bs) (drop (promised_pos behind_ghosts s fd) (w_data (snd s) j))
           \<and> (bs = [] \<longrightarrow> n = 0 \<or> length (w_data (snd s) j) \<le> promised_pos behind_ghosts s fd)
           \<and> promised_pos behind_ghosts s' fd = promised_pos behind_ghosts s fd + length bs)
         (\<lambda>_. progress behind_ghosts {} s) s"
proof (rule wp_conseq [OF behind_at_rest [OF assms, where pos = "\<lambda>k bs. k + length bs"
      and P = "\<lambda>k d bs. length bs \<le> n \<and> bs = take (length bs) (drop k d) \<and> (bs = [] \<longrightarrow> n = 0 \<or> length d \<le> k)"]], goal_cases)
  case (1 w f)
  show ?case by (rule wp_conseq [OF sys_read_wp [OF 1(1)]]) (use 1(2) in \<open>auto elim: frame_mono\<close>)
qed auto

lemma behind_seek_at_rest:
  assumes "at_rest behind_ghosts s fd j"
  shows "wp (behind E (on_world (sys_seek E fd n))) (\<lambda>_ s'. progress behind_ghosts {} s s' \<and> at_rest behind_ghosts s' fd j
           \<and> promised_pos behind_ghosts s' fd = n)
         (\<lambda>_. progress behind_ghosts {} s) s"
proof (rule wp_conseq [OF behind_at_rest [OF assms, where pos = "\<lambda>k a. n" and P = "\<lambda>k d a. True"]], goal_cases)
  case (1 w f)
  show ?case by (rule wp_conseq [OF sys_seek_wp [OF 1(1)]]) (auto elim: frame_mono)
qed auto

lemma behind_read_exact:
  assumes "at_rest behind_ghosts s fd j"
  shows "wp (behind E (on_world (file_read_exact E fd n))) (\<lambda>bs s'. progress behind_ghosts {} s s' \<and> at_rest behind_ghosts s' fd j
           \<and> length bs = n \<and> bs = take n (drop (promised_pos behind_ghosts s fd) (w_data (snd s) j)))
         (\<lambda>_. progress behind_ghosts {} s) s"
proof (rule wp_conseq [OF behind_at_rest [OF assms, where pos = "\<lambda>k bs. k + n"
      and P = "\<lambda>k d bs. length bs = n \<and> bs = take n (drop k d)"]], goal_cases)
  case (1 w f)
  show ?case by (rule wp_conseq [OF file_read_exact_wp [OF 1(1)]]) (use 1(2) in \<open>auto elim: frame_mono\<close>)
qed auto

lemma behind_remove:
  "wp (behind E (on_world (sys_remove E p)))
     (\<lambda>_ s'. \<exists>a b. undisturbed (busy_files behind_ghosts (fst s)) (snd s) a \<and> calm (a\<lparr>w_names := (w_names a)(p := None)\<rparr>) b
        \<and> undisturbed (busy_files behind_ghosts (fst s)) b (snd s') \<and> busy_files behind_ghosts (fst s') \<subseteq> busy_files behind_ghosts (fst s))
     (\<lambda>_. progress behind_ghosts {} s) s"
proof -
  obtain buffer failed w1 where c: "carry_out E s = ((buffer, failed), w1)" by (metis surj_pair)
  note eff = carry_out_effect(1,2) [OF c]
  have "calm (w1\<lparr>w_names := (w_names w1)(p := None)\<rparr>) (tick (w1\<lparr>w_names := (w_names w1)(p := None)\<rparr>))"
    by (rule calm_tick [OF calm_refl])
  then show ?thesis
    unfolding wp_behind c wp_on_world eff(1) fst_conv snd_conv
    using eff(2) by (intro wp_conseq [OF sys_remove_wp]) (force simp: progress_def undisturbed_tick)+
qed

section \<open>Copying in rounds\<close>

lemma copying_writes_all:
  assumes "write_all wr bs (aw, s) = (r, (aw', s'))"
    and "copying rd wr fl x got put fin True (c, aw, s)" and "got = put @ bs"
  shows "\<exists>put' ok. copying rd wr fl x got put' fin ok (c, aw', s') \<and> (\<forall>u. r = Ok u \<longrightarrow> ok \<and> put' = got)"
  using assms
proof (induction "length bs" arbitrary: bs put aw s rule: less_induct)
  case less
  show ?case
  proof (cases "bs = []")
    case True
    with less.prems show ?thesis by (auto simp: write_all.simps)
  next
    case False
    obtain r1 aw1 s1 where w: "wr bs (aw, s) = (r1, (aw1, s1))" by (metis surj_pair)
    show ?thesis
    proof (cases r1)
      case (Ok n)
      have c: "copying rd wr fl x got (put @ take n bs) fin True (c, aw1, s1)"
        by (rule copying.writes [OF less.prems(2) _ w [unfolded Ok], of "[]"]) (simp add: less.prems(3))
      show ?thesis
      proof (cases "n = 0 \<or> length bs < n")
        case True
        then have "aw1 = aw' \<and> s1 = s' \<and> (\<forall>u. r \<noteq> Ok u)"
          using less.prems(1) w Ok False by (auto simp: write_all.simps [of wr bs])
        then show ?thesis using c by blast
      next
        case go: False
        then have "write_all wr (drop n bs) (aw1, s1) = (r, (aw', s'))"
          using less.prems(1) w Ok False by (simp add: write_all.simps [of wr bs])
        from less.hyps [OF _ this c] go False show ?thesis by (simp add: less.prems(3))
      qed
    next
      case (Err k)
      then show ?thesis
        using less.prems(1) w False copying.writing_fails [OF less.prems(2) w] by (auto simp: write_all.simps [of wr bs])
    next
      case Panic
      then show ?thesis
        using less.prems(1) w False copying.writing_fails [OF less.prems(2) w] by (auto simp: write_all.simps [of wr bs])
    qed
  qed
qed

lemma copy_rounds_copying:
  assumes "copy_rounds n rd wr fl moved (c, aw, s) = (rc, y)" and "copying rd wr fl x got got fin True (c, aw, s)"
  shows "\<exists>got' put fin' ok. copying rd wr fl x got' put fin' ok y \<and> (\<forall>m. rc = Ok m \<longrightarrow> ok \<and> fin' \<and> put = got')"
  using assms
proof (induction n arbitrary: moved c aw s got fin)
  case 0
  then show ?case by auto
next
  case (Suc n)
  obtain r c1 s1 where rd: "rd 8192 (c, s) = (r, (c1, s1))" by (metis surj_pair)
  show ?case
  proof (cases r)
    case (Ok bs)
    have c: "copying rd wr fl x (got @ bs) got (bs = []) True (c1, aw, s1)"
      by (rule copying.reads [OF Suc.prems(2) _ rd [unfolded Ok]]) simp
    show ?thesis
    proof (cases "bs = []")
      case True
      obtain r2 aw2 s2 where f: "fl (aw, s1) = (r2, (aw2, s2))" by (metis surj_pair)
      have y: "y = (c1, aw2, s2)" "rc = map_res (\<lambda>_. moved) id r2" using Suc.prems(1) rd Ok True f by auto
      show ?thesis
      proof (cases "r2 = Ok ()")
        case True
        have "copying rd wr fl x (got @ bs) got True True (c1, aw2, s2)"
          by (rule copying.flushes [OF c [unfolded eqTrueI [OF \<open>bs = []\<close>]] f [unfolded True]])
        then show ?thesis using \<open>bs = []\<close> unfolding y(1) by fastforce
      next
        case False
        then have "rc \<noteq> Ok m" for m unfolding y(2) by (cases r2) auto
        then show ?thesis using copying.flushing_fails [OF c f False] unfolding y(1) by blast
      qed
    next
      case False
      obtain r2 aw2 s2 where w: "write_all wr bs (aw, s1) = (r2, (aw2, s2))" by (metis surj_pair)
      obtain put' ok where c2: "copying rd wr fl x (got @ bs) put' (bs = []) ok (c1, aw2, s2)"
        and ok: "\<And>u. r2 = Ok u \<Longrightarrow> ok \<and> put' = got @ bs"
        using copying_writes_all [OF w c refl] by blast
      show ?thesis
      proof (cases r2)
        case r2: (Ok u)
        then have "copy_rounds n rd wr fl (moved + length bs) (c1, aw2, s2) = (rc, y)" using Suc.prems(1) rd Ok False w by simp
        moreover have "copying rd wr fl x (got @ bs) (got @ bs) (bs = []) True (c1, aw2, s2)" using c2 ok [OF r2] by simp
        ultimately show ?thesis by (rule Suc.IH)
      qed (use Suc.prems(1) rd Ok False w c2 in auto)
    qed
  qed (use Suc.prems rd copying.reading_fails [OF Suc.prems(2) _ rd] in auto)
qed

interpretation behind_copies: deferring_copies "write_behind E" behind_ghosts for E :: "'hn env"
proof (unfold_locales; (unfold write_behind_def tokio.select_convs)?)
  fix s s' :: "write_behind runtime" and g fd bs r
  assume a: "apart (snd s) g fd"
  show "behind E (on_world (sys_read E fd n)) s = (r1, s') \<Longrightarrow> stays behind_ghosts g s s'" for n r1
    by (rule other_frame [OF a _ frame_calls(1)])
  show "behind E (on_world (sys_seek E fd n)) s = (r1, s') \<Longrightarrow> stays behind_ghosts g s s'" for n r1
    by (rule other_frame [OF a _ frame_calls(2)])
next
  fix rd wr fl and x y :: "content_reader \<times> 'hn async_object_writer \<times> write_behind runtime" and rc
  assume run: "(\<lambda>(c, aw, s). copy_rounds (Suc (unat (remaining c))) rd wr fl 0 (c, aw, s)) x = (rc, y)"
  obtain c aw s where x: "x = (c, aw, s)" by (metis surj_pair)
  from run have "copy_rounds (Suc (unat (remaining c))) rd wr fl 0 (c, aw, s) = (rc, y)" unfolding x prod.case .
  then show "\<exists>got put fin ok. copying rd wr fl x got put fin ok y \<and> (\<forall>n. rc = Ok n \<longrightarrow> ok \<and> fin \<and> put = got)"
    unfolding x by (rule copy_rounds_copying [OF _ copying.starts])
qed (rule behind_read behind_seek_at_rest behind_read_exact behind_remove stays_counter other_write other_flush other_create; assumption)+

end
