(* ===== verification/AsyncSafety.thy ===== *)
theory AsyncSafety
  imports WriteBehind Store
begin

text \<open>
  Storing and updating an object asynchronously when calls fail: what a client of
  \<open>src/src/fs/async_io.rs\<close> is promised on every runtime that defers its work and reports failures late.
\<close>

section \<open>A client\<close>

text \<open>
  It creates a writer, writes the content until all of it is accepted, gives the object its final
  metadata and tags, which may have outgrown the space reserved for them, and finishes.
\<close>

definition async_store ::
  "nat \<Rightarrow> ('t, 'hn) tokio \<Rightarrow> 'hn env \<Rightarrow> path \<Rightarrow> 'hn create_options \<Rightarrow> u8 list \<Rightarrow> 'hn tags \<Rightarrow> u8 list tags \<Rightarrow> 't runtime
     \<Rightarrow> (('hn tux_object, object_file_error) res \<times> 't runtime) option" where
  "async_store n tk E p opts content metadata t s =
     (case async_create_writer tk E p opts s of
        (Err e, s1) \<Rightarrow> Some (Err e, s1)
      | (Panic, s1) \<Rightarrow> Some (Panic, s1)
      | (Ok aw, s1) \<Rightarrow>
          (case write_all (async_writer_write tk) content (aw, s1) of
             (Err k, (aw', s2)) \<Rightarrow> Some (Err (IO k), async_drop_writer E aw' s2)
           | (Panic, (aw', s2)) \<Rightarrow> Some (Panic, async_drop_writer E aw' s2)
           | (Ok _, (aw', s2)) \<Rightarrow>
               async_finish n tk E (async_set_tags_mut (\<lambda>_. t) (async_set_metadata_mut (\<lambda>_. metadata) aw')) s2))"

context deferring_copies begin

lemma store_safe:
  assumes H: "header_name_ok (header_names E)" and ok: "world_ok (snd s)" and secs: "sections_ok metadata t"
    and free: "p \<in> untouched (busy_files D (fst s)) (snd s)"
  shows "\<exists>r s'. async_store (Suc (Suc n)) tk E p opts content metadata t s = Some (r, s')
     \<and> replaced_safely D (busy_files D (fst s)) p (version_of E NoCompression metadata t content) metadata (snd s) r s'"
proof -
  let ?B = "busy_files D (fst s)" and ?i = "w_next (snd s)"
  obtain r1 s1 where c: "async_create_writer tk E p opts s = (r1, s1)" by (metis surj_pair)
  note created = wp_run [OF create_begins [OF ok] c]
  show ?thesis
  proof (cases r1)
    case r1: (Ok aw)
    with created obtain tp l where aw: "as_writer aw = fresh_writer E p opts l tp (w_next_fd (snd s))"
      and plain: "co_compression opts = NoCompression" and at1: "async_writer_at D aw s1 tp ?i []"
      and b1: "begun D ?B p tp (snd s) s1" and ok1: "world_ok (snd s1)"
      by auto
    obtain r2 aw2 s2 where w: "write_all (async_writer_write tk) content (aw, s1) = (r2, (aw2, s2))" by (metis surj_pair)
    note written = wp_run [OF deferred_write_all_wp [OF at1] w]
    then have p2: "progress D {?i} s1 s2" and sz: "resized aw aw2" by (cases r2; simp)+
    have b2: "begun D ?B p tp (snd s) s2" by (rule begun_progress [OF b1 p2]) simp
    have ok2: "world_ok (snd s2)" by (rule world_ok_undisturbed [OF _ ok1]) (use p2 in \<open>auto simp: progress_def\<close>)
    have "aw_temp_path aw2 = Some tp" using sz async_writer_atD(1) [OF at1] by (auto simp: resized_def)
    note dropped = begun_dropped [OF b2 this free]
    show ?thesis
    proof (cases r2)
      case r2: (Ok u)
      let ?aw = "async_set_tags_mut (\<lambda>_. t) (async_set_metadata_mut (\<lambda>_. metadata) aw2)"
      have f: "aw_final_path ?aw = p" "aw_compression ?aw = NoCompression" "aw_metadata ?aw = metadata" "aw_tags ?aw = t"
        using sz aw plain
        by (auto simp: resized_def as_writer_def fresh_writer_def async_set_tags_mut_def async_set_metadata_mut_def)
      have at2: "async_writer_at D ?aw s2 tp ?i content"
        using written r2 by (simp add: async_writer_at_def async_set_tags_mut_def async_set_metadata_mut_def)
      have "?i < w_next (snd s2)" using ok2 async_writer_atD(3) [OF at2] unfolding world_ok_def by blast
      moreover have "p \<in> untouched (busy_files D (fst s2)) (snd s2)"
        using free begunD(2) [OF b2] begun_untouched(2) [OF b2] by auto
      ultimately obtain r s' where run: "async_finish (Suc (Suc n)) tk E ?aw s2 = Some (r, s')"
        and "replaced_safely D (insert ?i (busy_files D (fst s2))) p (version_of E NoCompression metadata t content)
          metadata (snd s2) r s'"
        using finish_safe [OF H ok2 at2 f(2), of n] secs unfolding f by fastforce
      from begun_then [OF b2 free this(2)] run show ?thesis using c r1 w r2 by (simp add: async_store_def)
    qed (use dropped c r1 w in \<open>simp_all add: async_store_def\<close>)
  qed (use c created refused_safely [OF _ free] in \<open>simp_all add: async_store_def\<close>)
qed

end

section \<open>Storing is safe\<close>

text \<open>C5: Storing an object asynchronously is safe on every runtime that defers its work, whatever fails and
  however late it is reported. Creating a writer, writing the content, giving the object metadata and
  tags that may not fit the space reserved for them, and finishing, in place or by rewriting, always
  returns; at no time does the destination show anything but what it showed before or a complete object
  with those sections and the content; when an object is returned, that is what is there, with no work
  outstanding; and no other path that existed shows anything else, but those of files that other work
  was outstanding on.\<close>

theorem async_store_safe:
  assumes "deferring_copies tk D" and "header_name_ok (header_names E)" and "world_ok (snd s)"
    and "sections_ok metadata t" and "p \<in> untouched (busy_files D (fst s)) (snd s)"
  shows "\<exists>r s'. async_store (Suc (Suc n)) tk E p opts content metadata t s = Some (r, s') \<and>
     atomic_update p (version_of E NoCompression metadata t content) (snd s) (snd s') \<and>
     quiet (untouched (busy_files D (fst s)) (snd s) \<inter> old_names (snd s) p - {p}) (snd s) (snd s') \<and>
     (case r of
        Ok ob \<Rightarrow> (\<exists>i. w_names (snd s') p = Some i \<and> i \<notin> busy_files D (fst s')
             \<and> version_of E NoCompression metadata t content (w_data (snd s') i)) \<and> ob_path ob = p \<and> ob_metadata ob = metadata
      | _ \<Rightarrow> True)"
  using deferring_copies.store_safe [OF assms, of n opts content] unfolding replaced_safely_def .

theorem async_store_safe_witness:
  "\<exists>r s'. async_store 2 (write_behind faulty_env) faulty_env sample_path (create_options_new\<lparr>co_layout := layout_packed\<rparr>)
       [1, 2, 3] tags_new [([107], VString [118])] ((None, {}), empty_world) = Some (r, s')
     \<and> atomic_update sample_path (version_of faulty_env NoCompression tags_new [([107], VString [118])] [1, 2, 3])
         empty_world (snd s')"
proof -
  let ?t = "[([107], VString [118])] :: u8 list tags"
  have secs: "sections_ok (tags_new :: u8 tags) ?t"
    by (simp add: sections_ok_def tags_new_def tags_ok_def entries_ok_def string_ok_def)
  have "world_ok (snd ((None, {}) :: write_behind, empty_world))"
    and "sample_path \<in> untouched (busy_files behind_ghosts (fst ((None, {}), empty_world))) (snd ((None, {}) :: write_behind, empty_world))"
    by (simp_all add: worlds_ok untouched_def)
  from async_store_safe [OF behind_copies.deferring_copies_axioms [of faulty_env] sample_env_ok(4) this(1) secs this(2),
      where n = 0 and content = "[1, 2, 3]" and opts = "create_options_new\<lparr>co_layout := layout_packed\<rparr>"]
  show ?thesis unfolding numeral_2_eq_2 snd_conv by blast
qed

section \<open>Updating is safe\<close>

text \<open>C6: Updating an object asynchronously is safe on every runtime that defers its work. Each of the three
  setters, called on an object whose file no work is outstanding on, returns; at no time does the path of
  the object show anything but what it showed before or a complete object with the new sections and the
  same content; on success that is what is there, with no work outstanding; on failure the object is as it
  was; and no other path that existed shows anything else, but those of files that other work was
  outstanding on.\<close>

theorem async_update_safe:
  assumes "deferring_copies tk D" and "header_name_ok (header_names E)" and "world_ok (snd s)"
    and "at_rest D s (ob_file ob) j" and "holds_object E (w_data (snd s) j) (ob_header ob) (ob_metadata ob) t0 content"
    and "ob_path ob \<in> untouched (busy_files D (fst s)) (snd s)" and "sections_ok metadata t"
  shows "set_safely D E ob metadata t content s (async_set_sections (Suc n) tk E metadata t (ob, s))
     \<and> set_safely D E ob metadata t0 content s (async_set_metadata (Suc n) tk E metadata (ob, s))
     \<and> set_safely D E ob (ob_metadata ob) t content s (async_set_tags (Suc n) tk E t (ob, s))"
  using deferring_copies.setters_safe [OF assms(1-6)] assms(7) by (simp add: sections_ok_def)

theorem async_update_safe_witness:
  "set_safely behind_ghosts sample_env sample_object [] [([107], VString [118])] [1, 2, 3] ((None, {}), published_world)
     (async_set_tags 1 (write_behind faulty_env) sample_env [([107], VString [118])] (sample_object, ((None, {}), published_world)))"
proof -
  let ?t = "[([107], VString [118])] :: u8 list tags" and ?s = "((None, {}) :: write_behind, published_world)"
  have secs: "sections_ok ([] :: u8 tags) ?t" by (simp add: sections_ok_def tags_ok_def entries_ok_def string_ok_def)
  have "world_ok (snd ?s)" by (simp add: worlds_ok)
  moreover have "at_rest behind_ghosts ?s (ob_file sample_object) 0"
    and "ob_path sample_object \<in> untouched (busy_files behind_ghosts (fst ?s)) (snd ?s)" and md: "ob_metadata sample_object = []"
    by (simp_all add: at_rest_def untouched_def published_world_def sample_object_def from_parts_def)
  moreover from md have "holds_object sample_env (w_data (snd ?s) 0) (ob_header sample_object) (ob_metadata sample_object) [] [1, 2, 3]"
    using sample_holds by simp
  ultimately show ?thesis
    using async_update_safe [OF behind_copies.deferring_copies_axioms [of faulty_env] sample_env_ok(2), of ?s sample_object 0 "[]" "[1, 2, 3]" "[]" ?t 0] secs
    by simp
qed

end
