(* ===== verification/ChronoTypes.thy ===== *)
theory ChronoTypes
  imports Value
begin

text \<open>
  \<open>src/src/types/time/chrono_impl.rs\<close>: the conversions between the raw date and time types and the
  types of \<open>chrono\<close>, and the codecs of the latter. \<open>chrono\<close> is a parameter: its four types, and the
  functions the code calls on them.
\<close>

section \<open>What is used of chrono\<close>

record ('nd, 'nt, 'fo, 'dt) chrono_api =
  nd_year :: "'nd \<Rightarrow> i32"
  nd_month :: "'nd \<Rightarrow> u32"
  nd_day :: "'nd \<Rightarrow> u32"
  nd_from_ymd_opt :: "i32 \<Rightarrow> u32 \<Rightarrow> u32 \<Rightarrow> 'nd option"
  nt_num_seconds_from_midnight :: "'nt \<Rightarrow> u32"
  nt_nanosecond :: "'nt \<Rightarrow> u32"
  nt_from_num_seconds_opt :: "u32 \<Rightarrow> u32 \<Rightarrow> 'nt option"
  fo_local_minus_utc :: "'fo \<Rightarrow> i32"
  fo_east_opt :: "i32 \<Rightarrow> 'fo option"
  dt_utc_date :: "'dt \<Rightarrow> 'nd"
  dt_utc_time :: "'dt \<Rightarrow> 'nt"
  dt_offset :: "'dt \<Rightarrow> 'fo"
  dt_from_utc :: "'nd \<Rightarrow> 'nt \<Rightarrow> 'fo \<Rightarrow> 'dt"

text \<open>
  From its documentation: a value is given by its fields, and the checked constructors return the
  value with the fields they are given; a month is at most 12 and a day of a month at most 31. A time
  of day with a nanosecond field of \<open>10^9\<close> or more is a leap second. \<open>with_nanosecond\<close> makes one of any
  second, but \<open>from_num_seconds_from_midnight_opt\<close> only of a last second of a minute.
\<close>

definition plain_time :: "u32 \<Rightarrow> u32 \<Rightarrow> bool" where
  "plain_time seconds nanos \<longleftrightarrow> unat nanos < 1000000000 \<or> unat seconds mod 60 = 59"

definition chrono_ok :: "('nd, 'nt, 'fo, 'dt) chrono_api \<Rightarrow> bool" where
  "chrono_ok C \<longleftrightarrow>
     (\<forall>d. nd_from_ymd_opt C (nd_year C d) (nd_month C d) (nd_day C d) = Some d
        \<and> nd_month C d \<le> 12 \<and> nd_day C d \<le> 31) \<and>
     (\<forall>y m n d. nd_from_ymd_opt C y m n = Some d \<longrightarrow> nd_year C d = y \<and> nd_month C d = m \<and> nd_day C d = n) \<and>
     (\<forall>t. plain_time (nt_num_seconds_from_midnight C t) (nt_nanosecond C t) \<longrightarrow>
        nt_from_num_seconds_opt C (nt_num_seconds_from_midnight C t) (nt_nanosecond C t) = Some t) \<and>
     (\<forall>s n. \<not> plain_time s n \<longrightarrow> nt_from_num_seconds_opt C s n = None) \<and>
     (\<forall>s n t. nt_from_num_seconds_opt C s n = Some t \<longrightarrow> nt_num_seconds_from_midnight C t = s \<and> nt_nanosecond C t = n) \<and>
     (\<forall>z. fo_east_opt C (fo_local_minus_utc C z) = Some z) \<and>
     (\<forall>i z. fo_east_opt C i = Some z \<longrightarrow> fo_local_minus_utc C z = i) \<and>
     (\<forall>x. dt_from_utc C (dt_utc_date C x) (dt_utc_time C x) (dt_offset C x) = x) \<and>
     (\<forall>d t z. dt_utc_date C (dt_from_utc C d t z) = d \<and> dt_utc_time C (dt_from_utc C d t z) = t
        \<and> dt_offset C (dt_from_utc C d t z) = z)"

section \<open>Dates\<close>

definition naive_date_size :: "'nd \<Rightarrow> nat" where
  "naive_date_size d = 4"

definition naive_date_const_size :: "'nd \<Rightarrow> nat option" where
  "naive_date_const_size d = Some 4"

definition naive_date_type_key :: u8 where
  "naive_date_type_key = 13"

definition naive_date_read_size :: "nat decoder" where
  "naive_date_read_size c = Ok (4, c)"

definition raw_date_of_naive :: "('nd, 'nt, 'fo, 'dt) chrono_api \<Rightarrow> 'nd \<Rightarrow> raw_date" where
  "raw_date_of_naive C d =
     \<lparr>date_year = ucast (nd_year C d), date_month = ucast (nd_month C d), date_day = ucast (nd_day C d)\<rparr>"

definition naive_of_raw_date :: "('nd, 'nt, 'fo, 'dt) chrono_api \<Rightarrow> raw_date \<Rightarrow> ('nd, chrono_error) res" where
  "naive_of_raw_date C r =
     (case nd_from_ymd_opt C (ucast (date_year r)) (ucast (date_month r)) (ucast (date_day r)) of
        Some d \<Rightarrow> Ok d | None \<Rightarrow> Err (InvalidNaiveDate r))"

definition read_naive_date :: "('nd, 'nt, 'fo, 'dt) chrono_api \<Rightarrow> 'nd decoder" where
  "read_naive_date C c = res_bind (read_raw_date c) (\<lambda>(r, c).
     case nd_from_ymd_opt C (ucast (date_year r)) (ucast (date_month r)) (ucast (date_day r)) of
       Some d \<Rightarrow> Ok (d, c) | None \<Rightarrow> Err (OtherDecodingError (Chrono (InvalidNaiveDate r))))"

definition write_naive_date :: "('nd, 'nt, 'fo, 'dt) chrono_api \<Rightarrow> ('nd, 'w) encoder" where
  "write_naive_date C wr d w =
     (let year = nd_year C d; month = nd_month C d; day = nd_day C d
      in write_raw_date wr \<lparr>date_year = ucast year, date_month = ucast month, date_day = ucast day\<rparr> w)"

section \<open>Times\<close>

definition naive_time_size :: "'nt \<Rightarrow> nat" where
  "naive_time_size t = 8"

definition naive_time_const_size :: "'nt \<Rightarrow> nat option" where
  "naive_time_const_size t = Some 8"

definition naive_time_type_key :: u8 where
  "naive_time_type_key = 14"

definition naive_time_read_size :: "nat decoder" where
  "naive_time_read_size c = Ok (8, c)"

definition raw_time_of_naive :: "('nd, 'nt, 'fo, 'dt) chrono_api \<Rightarrow> 'nt \<Rightarrow> raw_time" where
  "raw_time_of_naive C t =
     \<lparr>seconds_from_midnight = nt_num_seconds_from_midnight C t, nanoseconds = nt_nanosecond C t\<rparr>"

definition naive_of_raw_time :: "('nd, 'nt, 'fo, 'dt) chrono_api \<Rightarrow> raw_time \<Rightarrow> ('nt, chrono_error) res" where
  "naive_of_raw_time C r =
     (case nt_from_num_seconds_opt C (seconds_from_midnight r) (nanoseconds r) of
        Some t \<Rightarrow> Ok t | None \<Rightarrow> Err (InvalidNaiveTime r))"

definition read_naive_time :: "('nd, 'nt, 'fo, 'dt) chrono_api \<Rightarrow> 'nt decoder" where
  "read_naive_time C c = res_bind (read_raw_time c) (\<lambda>(r, c).
     case nt_from_num_seconds_opt C (seconds_from_midnight r) (nanoseconds r) of
       Some t \<Rightarrow> Ok (t, c) | None \<Rightarrow> Err (OtherDecodingError (Chrono (InvalidNaiveTime r))))"

definition write_naive_time :: "('nd, 'nt, 'fo, 'dt) chrono_api \<Rightarrow> ('nt, 'w) encoder" where
  "write_naive_time C wr t w = write_raw_time wr
     \<lparr>seconds_from_midnight = nt_num_seconds_from_midnight C t, nanoseconds = nt_nanosecond C t\<rparr> w"

definition value_of_naive_time :: "('nd, 'nt, 'fo, 'dt) chrono_api \<Rightarrow> 'nt \<Rightarrow> value_type" where
  "value_of_naive_time C t = VTime (raw_time_of_naive C t)"

section \<open>Offsets\<close>

definition fixed_offset_size :: "'fo \<Rightarrow> nat" where
  "fixed_offset_size z = 4"

definition fixed_offset_const_size :: "'fo \<Rightarrow> nat option" where
  "fixed_offset_const_size z = Some 4"

definition fixed_offset_type_key :: u8 where
  "fixed_offset_type_key = 15"

definition fixed_offset_read_size :: "nat decoder" where
  "fixed_offset_read_size c = Ok (4, c)"

definition raw_time_zone_of_offset :: "('nd, 'nt, 'fo, 'dt) chrono_api \<Rightarrow> 'fo \<Rightarrow> raw_time_zone" where
  "raw_time_zone_of_offset C z = \<lparr>tz_offset = fo_local_minus_utc C z\<rparr>"

definition offset_of_raw_time_zone :: "('nd, 'nt, 'fo, 'dt) chrono_api \<Rightarrow> raw_time_zone \<Rightarrow> ('fo, chrono_error) res" where
  "offset_of_raw_time_zone C r =
     (case fo_east_opt C (tz_offset r) of Some z \<Rightarrow> Ok z | None \<Rightarrow> Err (InvalidFixedOffset r))"

definition read_fixed_offset :: "('nd, 'nt, 'fo, 'dt) chrono_api \<Rightarrow> 'fo decoder" where
  "read_fixed_offset C c = res_bind (read_raw_time_zone c) (\<lambda>(r, c).
     case fo_east_opt C (tz_offset r) of
       Some z \<Rightarrow> Ok (z, c) | None \<Rightarrow> Err (OtherDecodingError (Chrono (InvalidFixedOffset r))))"

definition write_fixed_offset :: "('nd, 'nt, 'fo, 'dt) chrono_api \<Rightarrow> ('fo, 'w) encoder" where
  "write_fixed_offset C wr z w = write_raw_time_zone wr (raw_time_zone_of_offset C z) w"

section \<open>Dates with times\<close>

definition date_time_size :: "'dt \<Rightarrow> nat" where
  "date_time_size x = 16"

definition date_time_const_size :: "'dt \<Rightarrow> nat option" where
  "date_time_const_size x = Some 16"

definition date_time_type_key :: u8 where
  "date_time_type_key = 16"

definition date_time_read_size :: "nat decoder" where
  "date_time_read_size c = Ok (16, c)"

definition date_time_of_raw :: "('nd, 'nt, 'fo, 'dt) chrono_api \<Rightarrow> raw_date_time \<Rightarrow> ('dt, chrono_error) res" where
  "date_time_of_raw C r =
     res_bind (naive_of_raw_date C (dt_date r)) (\<lambda>date.
     res_bind (naive_of_raw_time C (dt_time r)) (\<lambda>time.
     res_bind (offset_of_raw_time_zone C (dt_timezone r)) (\<lambda>timezone.
     Ok (dt_from_utc C date time timezone))))"

definition raw_of_date_time :: "('nd, 'nt, 'fo, 'dt) chrono_api \<Rightarrow> 'dt \<Rightarrow> raw_date_time" where
  "raw_of_date_time C x =
     \<lparr>dt_date = raw_date_of_naive C (dt_utc_date C x), dt_time = raw_time_of_naive C (dt_utc_time C x),
      dt_timezone = raw_time_zone_of_offset C (dt_offset C x)\<rparr>"

definition read_date_time :: "('nd, 'nt, 'fo, 'dt) chrono_api \<Rightarrow> 'dt decoder" where
  "read_date_time C c = res_bind (read_raw_date_time c) (\<lambda>(r, c).
     res_bind (map_err (\<lambda>e. OtherDecodingError (Chrono e)) (date_time_of_raw C r)) (\<lambda>x. Ok (x, c)))"

definition write_date_time :: "('nd, 'nt, 'fo, 'dt) chrono_api \<Rightarrow> ('dt, 'w) encoder" where
  "write_date_time C wr x w = write_raw_date_time wr (raw_of_date_time C x) w"

definition value_of_date_time :: "('nd, 'nt, 'fo, 'dt) chrono_api \<Rightarrow> 'dt \<Rightarrow> value_type" where
  "value_of_date_time C x = VRawDateTime (raw_of_date_time C x)"

section \<open>Conversions\<close>

lemma chrono_okD:
  assumes "chrono_ok C"
  shows "nd_from_ymd_opt C (nd_year C d) (nd_month C d) (nd_day C d) = Some d" "nd_month C d \<le> 12" "nd_day C d \<le> 31"
    and "nd_from_ymd_opt C y m n = Some d \<Longrightarrow> nd_year C d = y \<and> nd_month C d = m \<and> nd_day C d = n"
    and "plain_time (nt_num_seconds_from_midnight C t) (nt_nanosecond C t) \<Longrightarrow>
      nt_from_num_seconds_opt C (nt_num_seconds_from_midnight C t) (nt_nanosecond C t) = Some t"
    and "nt_from_num_seconds_opt C s k = Some t \<Longrightarrow> nt_num_seconds_from_midnight C t = s \<and> nt_nanosecond C t = k"
    and "\<not> plain_time s k \<Longrightarrow> nt_from_num_seconds_opt C s k = None"
    and "fo_east_opt C (fo_local_minus_utc C z) = Some z" "fo_east_opt C i = Some z \<Longrightarrow> fo_local_minus_utc C z = i"
    and "dt_from_utc C (dt_utc_date C x) (dt_utc_time C x) (dt_offset C x) = x"
    and "dt_utc_date C (dt_from_utc C d t z) = d" "dt_utc_time C (dt_from_utc C d t z) = t"
      "dt_offset C (dt_from_utc C d t z) = z"
  using assms by (simp_all add: chrono_ok_def)

text \<open>A year that the two bytes of the format can hold.\<close>

definition year_fits :: "i32 \<Rightarrow> bool" where
  "year_fits y \<longleftrightarrow> 0 \<le> sint y \<and> sint y < 65536"

lemma uint_year_cast: "uint (ucast (ucast y :: u16) :: i32) = uint y mod 65536" for y :: i32
  by (simp add: unsigned_ucast_eq take_bit_eq_mod uint_mod_distrib)

lemma sint_i32: "sint (y :: i32) = (if uint y < 2147483648 then uint y else uint y - 4294967296)"
proof -
  have u: "0 \<le> uint y" "uint y < 4294967296" using uint_lt2p [of y] by simp_all
  show ?thesis
  proof (cases "uint y < 2147483648")
    case True
    have "- (2 ^ 31) \<le> uint y" by (rule order_trans [OF _ u(1)]) simp
    then have "signed_take_bit 31 (uint y) = uint y" by (rule signed_take_bit_int_eq_self) (use True in simp)
    then show ?thesis using True by (simp add: sint_uint)
  next
    case False
    have "signed_take_bit 31 (uint y) = signed_take_bit 31 (uint y - 4294967296)"
      by (simp add: signed_take_bit_eq_iff_take_bit_eq take_bit_eq_mod mod_diff_eq [symmetric])
    also have "\<dots> = uint y - 4294967296" using u False by (intro signed_take_bit_int_eq_self) simp_all
    finally show ?thesis using False by (simp add: sint_uint)
  qed
qed

lemma year_cast: "(ucast (ucast y :: u16) :: i32) = y \<longleftrightarrow> year_fits y"
proof -
  have u: "0 \<le> uint y" "uint y < 4294967296" using uint_lt2p [of y] by simp_all
  have "(ucast (ucast y :: u16) :: i32) = y \<longleftrightarrow> uint y mod 65536 = uint y"
    by (simp only: uint_year_cast word_uint_eq_iff)
  also have "\<dots> \<longleftrightarrow> uint y < 65536"
    using u(1) pos_mod_bound [of 65536 "uint y"] by (auto simp: mod_pos_pos_trivial)
  finally show ?thesis using u by (auto simp: sint_i32 year_fits_def)
qed

lemma sint_year_cast: "sint (ucast (ucast y :: u16) :: i32) = sint y mod 65536" for y :: i32
proof -
  have "uint y mod 65536 < 65536" by simp
  then have "sint (ucast (ucast y :: u16) :: i32) = uint y mod 65536" unfolding sint_i32 uint_year_cast by simp
  also have "\<dots> = sint y mod 65536" by (simp add: sint_i32 mod_diff_eq [symmetric])
  finally show ?thesis .
qed

lemma uint_widened: "uint (ucast y :: i32) = uint y" "uint (ucast m :: u32) = uint m" for y :: u16 and m :: u8
  using uint_lt2p [of y] uint_lt2p [of m] by (simp_all add: unsigned_ucast_eq take_bit_eq_mod mod_pos_pos_trivial)

lemma year_cast_fits: "year_fits (ucast (y :: u16))"
  using uint_lt2p [of y] by (simp add: year_fits_def sint_i32 uint_widened)

lemma small_cast: "x \<le> 255 \<Longrightarrow> (ucast (ucast x :: u8) :: u32) = x"
  by (simp add: word_uint_eq_iff unsigned_ucast_eq take_bit_eq_mod word_le_def uint_mod_distrib)

lemma wide_cast: "(ucast (ucast y :: i32) :: u16) = y" "(ucast (ucast m :: u32) :: u8) = m" for y :: u16 and m :: u8
  using uint_lt2p [of y] uint_lt2p [of m]
  by (simp_all add: word_uint_eq_iff unsigned_ucast_eq [where 'b = 16] unsigned_ucast_eq [where 'b = 8] uint_widened
      take_bit_eq_mod mod_pos_pos_trivial uint_mod_distrib)

lemma date_conversion:
  assumes "chrono_ok C"
  shows "naive_of_raw_date C (raw_date_of_naive C d) = Ok d \<longleftrightarrow> year_fits (nd_year C d)"
    and "naive_of_raw_date C r = Ok d \<Longrightarrow> raw_date_of_naive C d = r \<and> year_fits (nd_year C d)"
proof -
  note D = chrono_okD [OF assms]
  have small: "nd_month C d \<le> 255" "nd_day C d \<le> 255"
    using D(2) [of d] D(3) [of d] by (auto elim: order_trans)
  show "naive_of_raw_date C (raw_date_of_naive C d) = Ok d \<longleftrightarrow> year_fits (nd_year C d)"
    using D(1) [of d] D(4) [of "ucast (ucast (nd_year C d) :: u16)" "nd_month C d" "nd_day C d" d] small
    by (auto simp: naive_of_raw_date_def raw_date_of_naive_def small_cast year_cast [symmetric] split: option.splits)
  show "raw_date_of_naive C d = r \<and> year_fits (nd_year C d)" if "naive_of_raw_date C r = Ok d"
    using that D(4) [of "ucast (date_year r)" "ucast (date_month r)" "ucast (date_day r)" d]
    by (cases r) (auto simp: naive_of_raw_date_def raw_date_of_naive_def wide_cast year_cast_fits split: option.splits)
qed

text \<open>A time of day that the checked constructor makes.\<close>

definition time_plain :: "('nd, 'nt, 'fo, 'dt) chrono_api \<Rightarrow> 'nt \<Rightarrow> bool" where
  "time_plain C t \<longleftrightarrow> plain_time (nt_num_seconds_from_midnight C t) (nt_nanosecond C t)"

lemma time_conversion:
  assumes "chrono_ok C"
  shows "naive_of_raw_time C r = Ok t \<longleftrightarrow> time_plain C t \<and> r = raw_time_of_naive C t"
    and "offset_of_raw_time_zone C z = Ok x \<longleftrightarrow> z = raw_time_zone_of_offset C x"
proof -
  note D = chrono_okD(5-9) [OF assms]
  have fields: "nt_from_num_seconds_opt C s k = Some t \<longleftrightarrow>
      plain_time s k \<and> nt_num_seconds_from_midnight C t = s \<and> nt_nanosecond C t = k" for s k
    using D(1) [of t] D(2) [of s k t] D(3) [of s k] by (cases "plain_time s k") auto
  show "naive_of_raw_time C r = Ok t \<longleftrightarrow> time_plain C t \<and> r = raw_time_of_naive C t"
  proof -
    have "naive_of_raw_time C r = Ok t \<longleftrightarrow> nt_from_num_seconds_opt C (seconds_from_midnight r) (nanoseconds r) = Some t"
      by (auto simp: naive_of_raw_time_def split: option.splits)
    then show ?thesis by (cases r) (auto simp: fields raw_time_of_naive_def time_plain_def)
  qed
  show "offset_of_raw_time_zone C z = Ok x \<longleftrightarrow> z = raw_time_zone_of_offset C x"
    by (cases z) (auto simp: offset_of_raw_time_zone_def raw_time_zone_of_offset_def D(4) dest: D(5) split: option.splits)
qed

text \<open>The times that are written but refused when they are read back.\<close>

lemma leap_refused: "chrono_ok C \<Longrightarrow> \<not> time_plain C t \<Longrightarrow>
    naive_of_raw_time C (raw_time_of_naive C t) = Err (InvalidNaiveTime (raw_time_of_naive C t))"
  by (simp add: naive_of_raw_time_def raw_time_of_naive_def time_plain_def chrono_okD(7))

lemma date_time_conversion:
  assumes "chrono_ok C"
  shows "date_time_of_raw C r = Ok x \<longleftrightarrow>
     year_fits (nd_year C (dt_utc_date C x)) \<and> time_plain C (dt_utc_time C x) \<and> r = raw_of_date_time C x"
proof
  note D = chrono_okD [OF assms]
  assume "date_time_of_raw C r = Ok x"
  then show "year_fits (nd_year C (dt_utc_date C x)) \<and> time_plain C (dt_utc_time C x) \<and> r = raw_of_date_time C x"
    using date_conversion(2) [OF assms, of "dt_date r"] D(11-13)
    by (cases r) (auto simp: date_time_of_raw_def raw_of_date_time_def res_dest time_conversion [OF assms])
next
  assume "year_fits (nd_year C (dt_utc_date C x)) \<and> time_plain C (dt_utc_time C x) \<and> r = raw_of_date_time C x"
  then show "date_time_of_raw C r = Ok x"
    using date_conversion(1) [OF assms, of "dt_utc_date C x"]
      time_conversion(1) [OF assms, of "raw_time_of_naive C (dt_utc_time C x)" "dt_utc_time C x"]
      time_conversion(2) [OF assms, THEN iffD2, OF refl] chrono_okD(10) [OF assms, of x]
    by (simp add: date_time_of_raw_def raw_of_date_time_def)
qed

lemma conversions_not_Panic:
  "naive_of_raw_date C r \<noteq> Panic" "naive_of_raw_time C t \<noteq> Panic" "offset_of_raw_time_zone C z \<noteq> Panic"
  "date_time_of_raw C x \<noteq> Panic"
  by (auto simp: naive_of_raw_date_def naive_of_raw_time_def offset_of_raw_time_zone_def date_time_of_raw_def
      split: option.splits)

lemma read_naive_date_eq:
  "read_naive_date C c = res_bind (read_raw_date c) (\<lambda>(r, c).
     res_bind (map_err (\<lambda>e. OtherDecodingError (Chrono e)) (naive_of_raw_date C r)) (\<lambda>d. Ok (d, c)))"
  by (cases "read_raw_date c") (auto simp: read_naive_date_def naive_of_raw_date_def split: option.splits)

lemma read_naive_date_wire:
  "read_naive_date C (cur pre (wire_raw_date r @ post)) =
     res_bind (map_err (\<lambda>e. OtherDecodingError (Chrono e)) (naive_of_raw_date C r)) (\<lambda>d. Ok (d, cur (pre @ wire_raw_date r) post))"
  by (simp add: read_naive_date_eq raw_date.rd_enc)

context byte_sink
begin

lemma write_chrono_wire:
  "write_naive_date C wr d w = wr (wire_raw_date (raw_date_of_naive C d)) w"
  "write_naive_time C wr t w = wr (wire_raw_time (raw_time_of_naive C t)) w"
  "write_fixed_offset C wr z w = wr (wire_raw_time_zone (raw_time_zone_of_offset C z)) w"
  "write_date_time C wr x w = wr (wire_raw_date_time (raw_of_date_time C x)) w"
  by (simp_all add: write_naive_date_def write_naive_time_def write_fixed_offset_def write_date_time_def
      write_times_wire raw_date_of_naive_def raw_time_of_naive_def Let_def)

end

section \<open>Properties\<close>

text \<open>C38: The codec of dates with times. Every date with time is written, in sixteen bytes, which any
  reader of values takes for the value made from it. What is read is exactly what is written of a
  value whose year the format can hold and whose time of day is not a leap second before the last
  second of a minute; the bytes written of such a leap second are refused, as an invalid time.
  Reading never panics.\<close>

theorem chrono_codec:
  assumes "chrono_ok C"
  shows "(read_date_time C (cur pre rest) = Ok (x, c) \<longleftrightarrow>
       year_fits (nd_year C (dt_utc_date C x)) \<and> time_plain C (dt_utc_time C x) \<and>
       (\<exists>bs post. write_to_bytes (write_date_time C) x = Ok bs \<and> rest = bs @ post \<and> c = cur (pre @ bs) post))
    \<and> read_date_time C (cur pre rest) \<noteq> Panic
    \<and> (\<exists>bs. write_to_bytes (write_date_time C) x = Ok bs \<and> length bs = date_time_size x \<and>
         read_value (cur pre (date_time_type_key # bs @ post)) =
           Ok (value_of_date_time C x, cur (pre @ date_time_type_key # bs) post) \<and>
         (year_fits (nd_year C (dt_utc_date C x)) \<and> \<not> time_plain C (dt_utc_time C x) \<longrightarrow>
            read_date_time C (cur pre (bs @ post)) =
              Err (OtherDecodingError (Chrono (InvalidNaiveTime (raw_time_of_naive C (dt_utc_time C x)))))))"
proof -
  let ?bs = "wire_raw_date_time (raw_of_date_time C x)"
  have w: "write_to_bytes (write_date_time C) x = Ok ?bs"
    by (simp add: write_to_bytes_def vec.write_chrono_wire vec_write_def)
  have "read_date_time C (cur pre rest) = Ok (x, c) \<longleftrightarrow>
      (\<exists>r. read_raw_date_time (cur pre rest) = Ok (r, c) \<and> date_time_of_raw C r = Ok x)"
    by (auto simp: read_date_time_def res_dest)
  then have read: "read_date_time C (cur pre rest) = Ok (x, c) \<longleftrightarrow>
      year_fits (nd_year C (dt_utc_date C x)) \<and> time_plain C (dt_utc_time C x) \<and>
      (\<exists>post. rest = ?bs @ post \<and> c = cur (pre @ ?bs) post)"
    by (auto simp: date_time_conversion [OF assms])
  have "read_date_time C (cur pre rest) \<noteq> Panic" by (auto simp: read_date_time_def conversions_not_Panic split: prod.splits)
  moreover have "wire_value (value_of_date_time C x) = date_time_type_key # ?bs"
    by (simp add: value_of_date_time_def wire_value_def date_time_type_key_def)
  then have "read_value (cur pre (date_time_type_key # ?bs @ post)) =
      Ok (value_of_date_time C x, cur (pre @ date_time_type_key # ?bs) post)"
    using val_type.rd_enc [of "value_of_date_time C x" pre post] by (simp add: value_of_date_time_def)
  moreover have "read_date_time C (cur pre (?bs @ post)) =
      Err (OtherDecodingError (Chrono (InvalidNaiveTime (raw_time_of_naive C (dt_utc_time C x)))))"
    if "year_fits (nd_year C (dt_utc_date C x))" "\<not> time_plain C (dt_utc_time C x)"
    using date_conversion(1) [OF assms, of "dt_utc_date C x"] leap_refused [OF assms that(2)] that(1)
    by (simp add: read_date_time_def raw_date_time.rd_enc date_time_of_raw_def raw_of_date_time_def)
  ultimately show ?thesis using w read by (simp add: date_time_size_def)
qed

text \<open>C39: Years wrap. A date of any year is written, its year modulo \<open>2^16\<close>: read back it is the same day of
  that other year, or, where that year has no such day, an error. It is the date that was written
  exactly when the format can hold its year.\<close>

theorem chrono_year_wraps:
  assumes "chrono_ok C"
  shows "\<exists>bs. write_to_bytes (write_naive_date C) d = Ok bs \<and> length bs = naive_date_size d \<and>
     (case read_naive_date C (cur pre (bs @ post)) of
        Ok (d', c) \<Rightarrow> c = cur (pre @ bs) post \<and> sint (nd_year C d') = sint (nd_year C d) mod 65536
          \<and> nd_month C d' = nd_month C d \<and> nd_day C d' = nd_day C d \<and> (d' = d \<longleftrightarrow> year_fits (nd_year C d))
      | Err e \<Rightarrow> \<not> year_fits (nd_year C d) \<and> e = OtherDecodingError (Chrono (InvalidNaiveDate (raw_date_of_naive C d)))
      | Panic \<Rightarrow> False)"
proof -
  note D = chrono_okD [OF assms]
  let ?r = "raw_date_of_naive C d"
  let ?bs = "wire_raw_date ?r"
  have w: "write_to_bytes (write_naive_date C) d = Ok ?bs"
    by (simp add: write_to_bytes_def vec.write_chrono_wire vec_write_def)
  have small: "nd_month C d \<le> 255" "nd_day C d \<le> 255"
    using D(2) [of d] D(3) [of d] by (auto elim: order_trans)
  show ?thesis
  proof (intro exI [of _ ?bs] conjI w)
    show "case read_naive_date C (cur pre (?bs @ post)) of
        Ok (d', c) \<Rightarrow> c = cur (pre @ ?bs) post \<and> sint (nd_year C d') = sint (nd_year C d) mod 65536
          \<and> nd_month C d' = nd_month C d \<and> nd_day C d' = nd_day C d \<and> (d' = d \<longleftrightarrow> year_fits (nd_year C d))
      | Err e \<Rightarrow> \<not> year_fits (nd_year C d) \<and> e = OtherDecodingError (Chrono (InvalidNaiveDate ?r))
      | Panic \<Rightarrow> False"
    proof (cases "naive_of_raw_date C ?r")
      case (Ok d')
      then have "nd_year C d' = ucast (ucast (nd_year C d) :: u16) \<and> nd_month C d' = nd_month C d \<and> nd_day C d' = nd_day C d"
        using D(4) [of _ _ _ d'] small
        by (auto simp: naive_of_raw_date_def raw_date_of_naive_def small_cast split: option.splits)
      then show ?thesis
        using Ok date_conversion(1) [OF assms, of d] by (auto simp: read_naive_date_wire sint_year_cast)
    next
      case (Err e)
      then show ?thesis
        using date_conversion(1) [OF assms, of d]
        by (auto simp: read_naive_date_wire naive_of_raw_date_def split: option.splits)
    qed (simp add: conversions_not_Panic)
  qed (simp add: naive_date_size_def)
qed

text \<open>A calendar of first days of years, for the witnesses.\<close>

definition new_years :: "(i32, u32 \<times> u32, i32, i32 \<times> (u32 \<times> u32) \<times> i32) chrono_api" where
  "new_years = \<lparr>nd_year = id, nd_month = (\<lambda>_. 1), nd_day = (\<lambda>_. 1),
     nd_from_ymd_opt = (\<lambda>y m d. if m = 1 \<and> d = 1 then Some y else None),
     nt_num_seconds_from_midnight = fst, nt_nanosecond = snd,
     nt_from_num_seconds_opt = (\<lambda>s n. if plain_time s n then Some (s, n) else None),
     fo_local_minus_utc = id, fo_east_opt = Some,
     dt_utc_date = fst, dt_utc_time = (\<lambda>x. fst (snd x)), dt_offset = (\<lambda>x. snd (snd x)), dt_from_utc = (\<lambda>d t z. (d, t, z))\<rparr>"

lemma new_years_ok: "chrono_ok new_years"
  by (simp add: chrono_ok_def new_years_def)

theorem chrono_codec_witness:
  "(\<exists>bs. write_to_bytes (write_date_time new_years) (2024, (3600, 5), - 18000) = Ok bs \<and> length bs = 16
     \<and> read_date_time new_years (cur [] bs) = Ok ((2024, (3600, 5), - 18000), cur bs []))
   \<and> (\<exists>bs. write_to_bytes (write_date_time new_years) (2024, (3600, 1000000000), 0) = Ok bs
     \<and> read_date_time new_years (cur [] bs) =
         Err (OtherDecodingError (Chrono (InvalidNaiveTime \<lparr>seconds_from_midnight = 3600, nanoseconds = 1000000000\<rparr>))))"
proof (rule conjI)
  let ?x = "(2024, (3600, 5), - 18000) :: i32 \<times> (u32 \<times> u32) \<times> i32"
  have "year_fits (nd_year new_years (dt_utc_date new_years ?x))" "time_plain new_years (dt_utc_time new_years ?x)"
    by (simp_all add: new_years_def year_fits_def time_plain_def plain_time_def)
  moreover obtain bs where bs: "write_to_bytes (write_date_time new_years) ?x = Ok bs" "length bs = 16"
    using chrono_codec [OF new_years_ok, of "[]" "[]" ?x] by (auto simp: date_time_size_def)
  ultimately have "read_date_time new_years (cur [] bs) = Ok (?x, cur ([] @ bs) [])"
    using chrono_codec [OF new_years_ok, of "[]" bs ?x "cur ([] @ bs) []"] by auto
  with bs show "\<exists>bs. write_to_bytes (write_date_time new_years) ?x = Ok bs \<and> length bs = 16
     \<and> read_date_time new_years (cur [] bs) = Ok (?x, cur bs [])" by auto
next
  let ?x = "(2024, (3600, 1000000000), 0) :: i32 \<times> (u32 \<times> u32) \<times> i32"
  have "year_fits (nd_year new_years (dt_utc_date new_years ?x))" "\<not> time_plain new_years (dt_utc_time new_years ?x)"
    and "raw_time_of_naive new_years (dt_utc_time new_years ?x) = \<lparr>seconds_from_midnight = 3600, nanoseconds = 1000000000\<rparr>"
    by (simp_all add: new_years_def year_fits_def time_plain_def plain_time_def raw_time_of_naive_def)
  then show "\<exists>bs. write_to_bytes (write_date_time new_years) ?x = Ok bs \<and> read_date_time new_years (cur [] bs) =
         Err (OtherDecodingError (Chrono (InvalidNaiveTime \<lparr>seconds_from_midnight = 3600, nanoseconds = 1000000000\<rparr>)))"
    using chrono_codec [OF new_years_ok, of "[]" "[]" ?x undefined "[]"] by auto
qed

theorem chrono_year_wraps_witness:
  "\<exists>bs d c. write_to_bytes (write_naive_date new_years) (- 1) = Ok bs
     \<and> read_naive_date new_years (cur [] bs) = Ok (d, c) \<and> sint d = 65535"
proof -
  obtain bs where bs: "write_to_bytes (write_naive_date new_years) (- 1) = Ok bs"
    and spec: "case read_naive_date new_years (cur [] (bs @ [])) of
        Ok (d', c) \<Rightarrow> c = cur ([] @ bs) [] \<and> sint (nd_year new_years d') = sint (nd_year new_years (- 1)) mod 65536
          \<and> nd_month new_years d' = nd_month new_years (- 1) \<and> nd_day new_years d' = nd_day new_years (- 1)
          \<and> (d' = - 1 \<longleftrightarrow> year_fits (nd_year new_years (- 1)))
      | Err e \<Rightarrow> \<not> year_fits (nd_year new_years (- 1))
          \<and> e = OtherDecodingError (Chrono (InvalidNaiveDate (raw_date_of_naive new_years (- 1))))
      | Panic \<Rightarrow> False"
    using chrono_year_wraps [OF new_years_ok, of "- 1" "[]" "[]"] by blast
  have "bs = wire_raw_date (raw_date_of_naive new_years (- 1))"
    using bs by (simp add: write_to_bytes_def vec.write_chrono_wire vec_write_def)
  then have "\<exists>r. read_naive_date new_years (cur [] bs) = Ok r"
    using read_naive_date_wire [of new_years "[]" "raw_date_of_naive new_years (- 1)" "[]"]
    by (simp add: naive_of_raw_date_def raw_date_of_naive_def new_years_def)
  then show ?thesis using bs spec by (auto simp: new_years_def split: res.splits)
qed

end
