(* ===== verification/SizeInvariant.thy ===== *)
theory SizeInvariant
  imports HashMaps AsyncCodecs
begin

text \<open>
  The size invariant on \<open>TuxIOType\<close> (\<open>src/src/lib.rs\<close>): \<open>size\<close>, the bytes written, \<open>read_size\<close> and
  \<open>const_size\<close> are one number. Here an implementation of the encoding traits is a record of its
  methods; the check of the test module \<open>invariants\<close> and the one of \<open>src/src/tokio_io.rs\<close> are functions
  of such a record, and the locales \<open>implementation\<close> and \<open>async_implementation\<close> prove that they pass for
  every acceptable value of every registered type. At the end, which values of the generic containers
  keep the invariant, and which do not.
\<close>

section \<open>Assertions\<close>

text \<open>\<open>unwrap\<close> and the failing branch of an \<open>expect\<close> panic, as do \<open>assert!\<close> and \<open>assert_eq!\<close>.\<close>

definition unwrap :: "('a, 'e) res \<Rightarrow> ('a, 'f) res" where
  "unwrap r = (case r of Ok a \<Rightarrow> Ok a | _ \<Rightarrow> Panic)"

definition expect_err :: "('a, 'e) res \<Rightarrow> ('e, 'f) res" where
  "expect_err r = (case r of Err e \<Rightarrow> Ok e | _ \<Rightarrow> Panic)"

definition assert_that :: "bool \<Rightarrow> (unit, 'e) res" where
  "assert_that b = (if b then Ok () else Panic)"

lemma unwrap_simps [simp]: "unwrap (Ok a) = Ok a" "unwrap (Err e) = Panic" "unwrap Panic = Panic"
  by (simp_all add: unwrap_def)

lemma expect_err_simps [simp]: "expect_err (Ok a) = Panic" "expect_err (Err e) = Ok e" "expect_err Panic = Panic"
  by (simp_all add: expect_err_def)

lemma assert_that_iff [simp]: "assert_that b = Ok () \<longleftrightarrow> b" "assert_that b \<noteq> Err e" "assert_that True = Ok ()"
  by (simp_all add: assert_that_def)

lemma unwrap_iff [simp]: "unwrap r = Ok a \<longleftrightarrow> r = Ok a"
  by (cases r) auto

text \<open>Statements one after another, each of which may panic.\<close>

fun all_pass :: "(unit, 'e) res list \<Rightarrow> (unit, 'e) res" where
  "all_pass [] = Ok ()"
| "all_pass (t # ts) = res_bind t (\<lambda>_. all_pass ts)"

lemma all_pass_iff [simp]: "all_pass ts = Ok () \<longleftrightarrow> (\<forall>t \<in> set ts. t = Ok ())"
  by (induction ts) (auto simp: res_bind_Ok_iff)

section \<open>Implementations of the traits\<close>

record 'a tux_type =
  t_size :: "'a \<Rightarrow> nat"
  t_const_size :: "'a \<Rightarrow> nat option"
  t_write :: "('a, u8 list) encoder"
  t_read_size :: "nat decoder"
  t_read :: "'a decoder"

record 'a async_tux_type = "'a tux_type" +
  ta_write :: "('a, u8 list) encoder"
  ta_read :: "'a async_decoder"

text \<open>The default of \<open>const_size\<close>.\<close>

definition const_size_default :: "'a \<Rightarrow> nat option" where
  "const_size_default v = None"

definition num_type :: "'a::len word async_tux_type" where
  "num_type = \<lparr>t_size = num_size, t_const_size = (\<lambda>_. Some (LENGTH('a) div 8)), t_write = write_num,
     t_read_size = num_read_size TYPE('a), t_read = read_num, ta_write = async_write_num, ta_read = async_read_num\<rparr>"

definition bool_type :: "bool tux_type" where
  "bool_type = \<lparr>t_size = bool_size, t_const_size = (\<lambda>_. Some 1), t_write = write_bool,
     t_read_size = bool_read_size, t_read = read_bool\<rparr>"

definition array_type :: "nat \<Rightarrow> u8 list tux_type" where
  "array_type N = \<lparr>t_size = array_size N, t_const_size = (\<lambda>_. Some (N + 2)), t_write = write_array N,
     t_read_size = array_read_size N, t_read = read_array N\<rparr>"

definition string_type :: "u8 list async_tux_type" where
  "string_type = \<lparr>t_size = string_size, t_const_size = const_size_default, t_write = write_string,
     t_read_size = string_read_size, t_read = read_string,
     ta_write = write_to_async_writer write_string, ta_read = async_read_string\<rparr>"

definition byte_vec_type :: "u8 list async_tux_type" where
  "byte_vec_type = \<lparr>t_size = vec_size num_size, t_const_size = const_size_default, t_write = write_vec write_num,
     t_read_size = vec_read_size, t_read = read_vec read_num,
     ta_write = write_to_async_writer (write_vec write_num), ta_read = async_read_vec\<rparr>"

definition bytes_type :: "u8 list async_tux_type" where
  "bytes_type = \<lparr>t_size = bytes_size, t_const_size = const_size_default, t_write = write_bytes,
     t_read_size = bytes_read_size, t_read = read_bytes,
     ta_write = write_to_async_writer write_bytes, ta_read = async_read_bytes\<rparr>"

definition uuid_type :: "u8 list async_tux_type" where
  "uuid_type = \<lparr>t_size = uuid_size, t_const_size = (\<lambda>_. Some 16), t_write = write_uuid,
     t_read_size = uuid_read_size, t_read = read_uuid, ta_write = async_write_uuid, ta_read = async_read_uuid\<rparr>"

text \<open>The derived implementations of the date and time types have the constant of their attribute.\<close>

definition fixed_type ::
  "nat \<Rightarrow> ('a \<Rightarrow> nat) \<Rightarrow> ('a, u8 list) encoder \<Rightarrow> nat decoder \<Rightarrow> 'a decoder \<Rightarrow> 'a async_tux_type" where
  "fixed_type n sz wt ms rd = \<lparr>t_size = sz, t_const_size = (\<lambda>_. Some n), t_write = wt, t_read_size = ms, t_read = rd,
     ta_write = write_to_async_writer wt, ta_read = async_fixed_size rd n\<rparr>"

definition raw_date_type :: "raw_date async_tux_type" where
  "raw_date_type = fixed_type 4 raw_date_size write_raw_date raw_date_read_size read_raw_date"

definition raw_time_type :: "raw_time async_tux_type" where
  "raw_time_type = fixed_type 8 raw_time_size write_raw_time raw_time_read_size read_raw_time"

definition raw_time_zone_type :: "raw_time_zone async_tux_type" where
  "raw_time_zone_type = fixed_type 4 raw_time_zone_size write_raw_time_zone raw_time_zone_read_size read_raw_time_zone"

definition raw_date_time_type :: "raw_date_time async_tux_type" where
  "raw_date_time_type = fixed_type 16 raw_date_time_size write_raw_date_time raw_date_time_read_size read_raw_date_time"

definition header_type :: "object_header async_tux_type" where
  "header_type = \<lparr>t_size = header_size, t_const_size = header_const_size, t_write = write_header,
     t_read_size = header_read_size, t_read = read_header,
     ta_write = write_to_async_writer write_header, ta_read = async_read_header\<rparr>"

definition value_type_type :: "value_type async_tux_type" where
  "value_type_type = \<lparr>t_size = value_size, t_const_size = value_const_size, t_write = write_value,
     t_read_size = value_read_size, t_read = read_value,
     ta_write = write_to_async_writer write_value, ta_read = async_read_value\<rparr>"

definition tags_type :: "u8 list tags async_tux_type" where
  "tags_type = \<lparr>t_size = tags_size string_size, t_const_size = const_size_default, t_write = write_tags write_string,
     t_read_size = tags_read_size string_read_size, t_read = read_tags read_string,
     ta_write = write_to_async_writer (write_tags write_string), ta_read = async_read_tags async_read_string\<rparr>"

definition metadata_type :: "'hn header_name_api \<Rightarrow> 'hn tags tux_type" where
  "metadata_type H = \<lparr>t_size = tags_size (metakey_size H), t_const_size = const_size_default,
     t_write = write_tags (write_metakey H), t_read_size = tags_read_size metakey_read_size,
     t_read = read_tags (read_metakey H)\<rparr>"

section \<open>The checks\<close>

text \<open>\<open>sizes_agree\<close> of the test module \<open>invariants\<close>.\<close>

definition sizes_agree :: "('a, 'z) tux_type_scheme \<Rightarrow> 'a \<Rightarrow> (unit, encoding_error) res" where
  "sizes_agree T v =
     res_bind (unwrap (write_to_bytes (t_write T) v)) (\<lambda>encoded.
     res_bind (assert_that (length encoded = t_size T v)) (\<lambda>_.
     res_bind (unwrap (t_read_size T (open_cursor encoded))) (\<lambda>(measured, _).
     res_bind (assert_that (measured = t_size T v)) (\<lambda>_.
     case t_const_size T v of Some n \<Rightarrow> assert_that (n = t_size T v) | None \<Rightarrow> Ok ()))))"

text \<open>\<open>interchangeable\<close> of the tests in \<open>tokio_io.rs\<close>.\<close>

definition layers_interchange :: "('a, 'z) async_tux_type_scheme \<Rightarrow> 'a \<Rightarrow> (unit, encoding_error) res" where
  "layers_interchange T v =
     res_bind (unwrap (write_to_bytes (t_write T) v)) (\<lambda>sync_encoded.
     res_bind (unwrap (ta_read T sync_encoded)) (\<lambda>(decoded_async, _).
     res_bind (assert_that (decoded_async = v)) (\<lambda>_.
     res_bind (unwrap (ta_write T vec_write v [])) (\<lambda>async_encoded.
     res_bind (assert_that (async_encoded = sync_encoded)) (\<lambda>_.
     res_bind (unwrap (t_read T (open_cursor async_encoded))) (\<lambda>(decoded_sync, _).
     assert_that (decoded_sync = v)))))))"

lemma sizes_agree_iff:
  "sizes_agree T v = Ok () \<longleftrightarrow>
     (\<exists>bs c. write_to_bytes (t_write T) v = Ok bs \<and> length bs = t_size T v
       \<and> t_read_size T (open_cursor bs) = Ok (t_size T v, c)
       \<and> (t_const_size T v = None \<or> t_const_size T v = Some (t_size T v)))"
  by (auto simp: sizes_agree_def res_bind_Ok_iff split: option.splits)

section \<open>The contract of an implementation\<close>

lemma vec_write_Nil [simp]: "vec_write bs [] = Ok bs"
  by (simp add: vec_write_def)

locale implementation = measured_type "t_size T" enc "t_read T" ok "t_read_size T"
  for T :: "('a, 'z) tux_type_scheme" and enc ok +
  assumes writes: "ok v \<Longrightarrow> t_write T vec_write v w = vec_write (enc v) w"
    and const: "ok v \<Longrightarrow> t_const_size T v = Some n \<Longrightarrow> n = t_size T v"
begin

lemma agree: "ok v \<Longrightarrow> sizes_agree T v = Ok ()"
proof -
  assume v: "ok v"
  obtain c where "t_read_size T (open_cursor (enc v)) = Ok (t_size T v, c)"
    using ms_enc [OF v, of "[]" "[]"] by (auto simp: open_cursor_cur)
  then show ?thesis
    using writes [OF v, of "[]"] size_enc [OF v] const [OF v]
    unfolding sizes_agree_iff by (cases "t_const_size T v") (auto simp: write_to_bytes_def)
qed

end

locale async_implementation = implementation T enc ok
  for T :: "('a, 'z) async_tux_type_scheme" and enc ok +
  assumes alike: "interchangeable (t_read T) (ta_read T)"
    and async_writes: "ok v \<Longrightarrow> ta_write T vec_write v w = vec_write (enc v) w"
begin

sublocale async: async_type "t_size T" enc "t_read T" ok "ta_read T"
  by unfold_locales (rule alike)

lemma interchange: "ok v \<Longrightarrow> layers_interchange T v = Ok ()"
  using writes [of v "[]"] async_writes [of v "[]"] async.ard_enc [of v "[]"] rd_enc [of v "[]" "[]"]
  by (simp add: layers_interchange_def write_to_bytes_def open_cursor_cur)

end

section \<open>The registered types\<close>

lemma fixed_type_sel [simp]:
  "t_size (fixed_type n sz wt ms rd) = sz" "t_const_size (fixed_type n sz wt ms rd) = (\<lambda>_. Some n)"
  "t_write (fixed_type n sz wt ms rd) = wt" "t_read_size (fixed_type n sz wt ms rd) = ms"
  "t_read (fixed_type n sz wt ms rd) = rd" "ta_write (fixed_type n sz wt ms rd) = write_to_async_writer wt"
  "ta_read (fixed_type n sz wt ms rd) = async_fixed_size rd n"
  by (simp_all add: fixed_type_def)

lemmas type_defs =
  num_type_def bool_type_def array_type_def string_type_def byte_vec_type_def bytes_type_def uuid_type_def
  raw_date_type_def raw_time_type_def raw_time_zone_type_def raw_date_time_type_def header_type_def
  value_type_type_def tags_type_def metadata_type_def const_size_default_def

lemmas vec_writers =
  vec.write_num_wire vec.write_bool_wire vec.write_string_wire vec.write_byte_vec_wire vec.write_bytes_wire
  vec.write_array_wire vec.write_times_wire vec.write_uuid_wire vec.write_header_wire

text \<open>An implementation from a measured type, and an asynchronous one whose writer is the default.\<close>

lemma implementationI:
  assumes "measured_type (t_size T) enc (t_read T) ok (t_read_size T)"
    and "\<And>v w. ok v \<Longrightarrow> t_write T vec_write v w = vec_write (enc v) w"
    and "\<And>v n. ok v \<Longrightarrow> t_const_size T v = Some n \<Longrightarrow> n = t_size T v"
  shows "implementation T enc ok"
  using assms by (auto intro!: implementation.intro implementation_axioms.intro)

lemma async_implementationI:
  assumes "implementation T enc ok" and "interchangeable (t_read T) (ta_read T)"
    and "ta_write T = write_to_async_writer (t_write T)"
  shows "async_implementation T enc ok"
  using assms implementation.writes [OF assms(1)]
  by (auto intro!: async_implementation.intro async_implementation_axioms.intro simp: write_to_async_writer_def write_to_bytes_def)

lemma num_implementation:
  "8 dvd LENGTH('a::len) \<Longrightarrow> async_implementation (num_type :: 'a word async_tux_type) to_le_bytes (\<lambda>_. True)"
  using num_measured [where 'a = 'a]
  by (auto intro!: async_implementation.intro implementationI async_implementation_axioms.intro interchangeable_num
      simp: num_type_def vec.write_num_wire num_size_def async_write_num_def)

interpretation u8_i: async_implementation "num_type :: u8 async_tux_type" to_le_bytes "\<lambda>_. True"
  by (rule num_implementation) simp

interpretation u16_i: async_implementation "num_type :: u16 async_tux_type" to_le_bytes "\<lambda>_. True"
  by (rule num_implementation) simp

interpretation u32_i: async_implementation "num_type :: u32 async_tux_type" to_le_bytes "\<lambda>_. True"
  by (rule num_implementation) simp

interpretation u64_i: async_implementation "num_type :: u64 async_tux_type" to_le_bytes "\<lambda>_. True"
  by (rule num_implementation) simp

interpretation bool_i: implementation bool_type wire_bool "\<lambda>_. True"
  by unfold_locales
     (auto simp: bool_type_def write_to_bytes_def vec.write_bool_wire bool_size_def bool_read_size_def wire_bool_def)

lemma array_implementation:
  assumes "N \<le> 65535"
  shows "implementation (array_type N) wire_block (\<lambda>a. length a = N)"
proof
  show "t_read (array_type N) (cur pre (wire_block a @ post)) = Ok (a, cur (pre @ wire_block a) post)"
    if "length a = N" for a pre post
    using assms that by (simp add: array_type_def read_array_def wire_block_def)
qed (use assms in \<open>auto simp: array_type_def array_size_def array_read_size_def write_to_bytes_def vec.write_array_wire\<close>)

interpretation string_i: async_implementation string_type wire_block string_ok
  by (intro async_implementationI implementationI)
     (simp_all add: string_type_def const_size_default_def string_m.measured_type_axioms interchangeable_string
        vec.write_string_wire string_ok_def [THEN iffD1])

interpretation byte_vec_i: async_implementation byte_vec_type wire_block block_ok
  by (intro async_implementationI implementationI)
     (simp_all add: byte_vec_type_def const_size_default_def byte_vec_m.measured_type_axioms interchangeable_vec
        vec.write_byte_vec_wire block_ok_def [THEN iffD1])

interpretation bytes_i: async_implementation bytes_type wire_block block_ok
  by (intro async_implementationI implementationI)
     (simp_all add: bytes_type_def const_size_default_def bytes_m.measured_type_axioms interchangeable_bytes
        vec.write_bytes_wire block_ok_def [THEN iffD1])

lemma uuid_measured: "measured_type uuid_size (\<lambda>u. u) read_uuid uuid_ok uuid_read_size"
  by unfold_locales (auto simp: uuid_size_def uuid_read_size_def)

interpretation uuid_i: async_implementation uuid_type "\<lambda>u. u" uuid_ok
  by unfold_locales
     (auto simp: uuid_type_def uuid_size_def uuid_ok_def uuid_read_size_def write_to_bytes_def vec.write_uuid_wire
        async_write_uuid_def interchangeable_uuid intro: uuid.rd_enc)

lemma fixed_implementation:
  assumes "wire_type sz enc rd (\<lambda>_. True)" and "\<And>v. sz v = n" and "\<And>c. ms c = Ok (n, c)"
    and "\<And>v. wt vec_write v = vec_write (enc v)" and "interchangeable rd (async_fixed_size rd n)"
  shows "async_implementation (fixed_type n sz wt ms rd) enc (\<lambda>_. True)"
  using assms
  by (intro async_implementationI implementationI measured_type.intro measured_type_axioms.intro) auto

interpretation raw_date_i: async_implementation raw_date_type wire_raw_date "\<lambda>_. True"
  unfolding raw_date_type_def
  by (rule fixed_implementation [OF raw_date.wire_type_axioms])
     (auto simp: raw_date_size_def raw_date_read_size_def vec.write_times_wire intro: interchangeable_times)

interpretation raw_time_i: async_implementation raw_time_type wire_raw_time "\<lambda>_. True"
  unfolding raw_time_type_def
  by (rule fixed_implementation [OF raw_time.wire_type_axioms])
     (auto simp: raw_time_size_def raw_time_read_size_def vec.write_times_wire intro: interchangeable_times)

interpretation raw_time_zone_i: async_implementation raw_time_zone_type wire_raw_time_zone "\<lambda>_. True"
  unfolding raw_time_zone_type_def
  by (rule fixed_implementation [OF raw_time_zone.wire_type_axioms])
     (auto simp: raw_time_zone_size_def raw_time_zone_read_size_def vec.write_times_wire intro: interchangeable_times)

interpretation raw_date_time_i: async_implementation raw_date_time_type wire_raw_date_time "\<lambda>_. True"
  unfolding raw_date_time_type_def
  by (rule fixed_implementation [OF raw_date_time.wire_type_axioms])
     (auto simp: raw_date_time_size_def raw_date_time_read_size_def vec.write_times_wire intro: interchangeable_times)

lemma header_measured: "measured_type header_size wire_header read_header header_ok header_read_size"
  by unfold_locales (auto simp: header_size_def header_read_size_def)

interpretation header_i: async_implementation header_type wire_header header_ok
  by (intro async_implementationI implementationI)
     (simp_all add: header_type_def header_measured header_const_size_def header_size_def interchangeable_header
        vec.write_header_wire)

interpretation value_i: async_implementation value_type_type wire_value value_ok
  by (intro async_implementationI implementationI)
     (auto simp: value_type_type_def value_m.measured_type_axioms interchangeable_value vec.write_value_wire
        dest: value_const_size_eq)

context tag_key
begin

lemma block_measured: "measured_type (tags_size sz) (wire_tags enc) (read_tags rd) (tags_ok ok) (tags_read_size ms)"
  by unfold_locales (auto simp: tags_ok_def tags_size_wire read_tags_wire tags_read_size_wire)

end

interpretation tags_i: async_implementation tags_type "wire_tags wire_block" "tags_ok string_ok"
  by (intro async_implementationI implementationI)
     (auto simp: tags_type_def const_size_default_def string_tag.block_measured interchangeable_tags
        interchangeable_string tags_ok_def string_ok_def vec.write_string_wire intro: vec.write_tags_wire)

lemma metadata_implementation:
  assumes "header_name_ok H"
  shows "implementation (metadata_type H) (wire_tags (\<lambda>k. wire_block (hn_as_str H k))) (tags_ok (\<lambda>_. True))"
  using tag_key.block_measured [OF metakey_tag_key [OF assms]]
  by (intro implementationI)
     (auto simp: metadata_type_def const_size_default_def tags_ok_def vec.write_metakey_wire [OF assms]
        intro: vec.write_tags_wire)

section \<open>The generic containers\<close>

definition vec_type :: "('a, 'z) tux_type_scheme \<Rightarrow> 'a list tux_type" where
  "vec_type T = \<lparr>t_size = vec_size (t_size T), t_const_size = const_size_default, t_write = write_vec (t_write T),
     t_read_size = vec_read_size, t_read = read_vec (t_read T)\<rparr>"

definition hash_set_type :: "('a, 'z) tux_type_scheme \<Rightarrow> 'a list tux_type" where
  "hash_set_type T = \<lparr>t_size = hash_set_size (t_size T), t_const_size = const_size_default,
     t_write = write_hash_set (t_write T), t_read_size = hash_set_read_size, t_read = read_hash_set (t_read T)\<rparr>"

definition option_type :: "('a, 'z) tux_type_scheme \<Rightarrow> 'a option tux_type" where
  "option_type T = \<lparr>t_size = option_size (t_size T), t_const_size = const_size_default, t_write = write_option (t_write T),
     t_read_size = option_read_size (t_read_size T), t_read = read_option (t_read T)\<rparr>"

context implementation
begin

lemma vec_writes:
  "(\<And>x. x \<in> set xs \<Longrightarrow> ok x) \<Longrightarrow> length xs \<le> 65535 \<Longrightarrow>
   t_write (vec_type T) vec_write xs w = vec_write (to_le_bytes (of_nat (length xs) :: u16) @ concat (map enc xs)) w"
  unfolding vec_type_def tux_type.simps by (rule vec.write_vec_wire) (auto simp: writes)

lemma hash_set_writes:
  "(\<And>x. x \<in> set xs \<Longrightarrow> ok x) \<Longrightarrow> length xs \<le> 65535 \<Longrightarrow>
   t_write (hash_set_type T) vec_write xs w = vec_write (to_le_bytes (of_nat (length xs) :: u16) @ concat (map enc xs)) w"
  unfolding hash_set_type_def tux_type.simps by (rule vec.write_hash_set_wire) (auto simp: writes)

text \<open>Vectors and sets keep the invariant exactly when their items take one byte on average.\<close>

lemma collections_agree_iff:
  assumes "\<And>x. x \<in> set xs \<Longrightarrow> ok x" and "length xs \<le> 65535"
  shows "sizes_agree (vec_type T) xs = Ok () \<longleftrightarrow> (\<Sum>x\<leftarrow>xs. t_size T x) = length xs"
    and "sizes_agree (hash_set_type T) xs = Ok () \<longleftrightarrow> (\<Sum>x\<leftarrow>xs. t_size T x) = length xs"
  using vec_writes [OF assms, of "[]"] hash_set_writes [OF assms, of "[]"] size_each_enc [OF assms(1)] assms(2)
  by (auto simp: sizes_agree_iff write_to_bytes_def open_cursor_cur vec_type_def hash_set_type_def vec_size_def
      hash_set_size_def vec_read_size_def hash_set_read_size_def const_size_default_def)

text \<open>An optional value keeps it when the payload is measured right from the byte in front of it.\<close>

lemma option_agree_iff:
  "ok x \<Longrightarrow> sizes_agree (option_type T) (Some x) = Ok () \<longleftrightarrow>
     (\<exists>c. t_read_size T (open_cursor (1 # enc x)) = Ok (t_size T x, c))"
  "sizes_agree (option_type T) None = Ok () \<longleftrightarrow> (\<exists>c. t_read_size T (open_cursor [0]) = Ok (0, c))"
  using writes [of x "[1]"] size_enc [of x]
  by (auto simp: sizes_agree_iff option_type_def write_to_bytes_def write_option_def vec_write_def option_size_def
      option_read_size_def const_size_default_def res_bind_Ok_iff)

end

section \<open>Properties\<close>

text \<open>C31: The size invariant holds of the registered types. For every value within the limits of its
  type, the number of bytes written, \<open>size\<close>, what \<open>read_size\<close> measures over them, and \<open>const_size\<close>
  where it is given, are the same number: the check that the crate runs on samples passes always.\<close>

theorem size_invariant:
  assumes "8 dvd LENGTH('a::len)" and "N \<le> 65535" "length a = N" and "string_ok s" "block_ok bs" "uuid_ok u"
    and "value_ok v" "header_ok h" and "tags_ok string_ok t" and "header_name_ok H" "tags_ok (\<lambda>_. True) md"
  shows "sizes_agree (num_type :: 'a word async_tux_type) n = Ok () \<and> sizes_agree bool_type b = Ok ()
    \<and> sizes_agree (array_type N) a = Ok () \<and> sizes_agree string_type s = Ok ()
    \<and> sizes_agree byte_vec_type bs = Ok () \<and> sizes_agree bytes_type bs = Ok () \<and> sizes_agree uuid_type u = Ok ()
    \<and> sizes_agree raw_date_type d = Ok () \<and> sizes_agree raw_time_type tm = Ok ()
    \<and> sizes_agree raw_time_zone_type z = Ok () \<and> sizes_agree raw_date_time_type dt = Ok ()
    \<and> sizes_agree value_type_type v = Ok () \<and> sizes_agree header_type h = Ok ()
    \<and> sizes_agree tags_type t = Ok () \<and> sizes_agree (metadata_type H) md = Ok ()"
  using assms async_implementation.axioms(1) [OF num_implementation [OF assms(1)], THEN implementation.agree]
    implementation.agree [OF array_implementation [OF assms(2)]] implementation.agree [OF metadata_implementation]
  by (intro conjI bool_i.agree string_i.agree byte_vec_i.agree bytes_i.agree uuid_i.agree raw_date_i.agree
      raw_time_i.agree raw_time_zone_i.agree raw_date_time_i.agree value_i.agree header_i.agree tags_i.agree) auto

theorem size_invariant_witness:
  "sizes_agree (num_type :: u16 async_tux_type) 7 = Ok () \<and> sizes_agree (array_type 4) [1, 2, 3, 4] = Ok ()
   \<and> sizes_agree string_type [0x68, 0x69] = Ok () \<and> sizes_agree value_type_type (VU64 5) = Ok ()
   \<and> sizes_agree tags_type [([0x61], VBool True)] = Ok () \<and> sizes_agree (metadata_type letter_names) [(97, VU8 1)] = Ok ()"
  using size_invariant [where 'a = 16, of 4 "[1, 2, 3, 4]" "[0x68, 0x69]" "[]" "replicate 16 0" "VU64 5" header_default
      "[([0x61], VBool True)]" letter_names "[(97, VU8 1)]" 7]
  by (simp add: string_ok_def block_ok_def uuid_ok_def header_ok_def header_default_def tags_ok_def entries_ok_def
      letter_names_ok)

text \<open>The widths of numbers, strings measured from the byte in front of their prefix.\<close>

lemma num_sizes_sum: "(\<Sum>x\<leftarrow>ns. t_size num_type x) = length (ns :: 'a::len word list) * (LENGTH('a) div 8)"
  by (induction ns) (simp_all add: num_type_def num_size_def)

lemma string_sizes_sum: "2 * length ss \<le> (\<Sum>s\<leftarrow>ss. t_size string_type s)"
  by (induction ss) (simp_all add: string_type_def string_size_def)

lemma le_bytes_u16: "n \<le> 65535 \<Longrightarrow> to_le_bytes (of_nat n :: u16) = [of_nat (n mod 256), of_nat (n div 256)]"
  by (simp add: to_le_bytes_def numeral_2_eq_2)

lemma string_measured_early:
  assumes "length s \<le> 65535"
  shows "\<exists>c. string_read_size (open_cursor (1 # wire_block s)) = Ok (1 + 256 * (length s mod 256) + 2, c)"
proof -
  let ?n = "1 + 256 * (length s mod 256)"
  have n: "?n \<le> 65535" "?n div 256 = length s mod 256" using mod_less_divisor [of 256 "length s"] by auto
  have "1 # wire_block s = to_le_bytes (of_nat ?n :: u16) @ of_nat (length s div 256) # s"
    unfolding wire_block_def le_bytes_u16 [OF assms] le_bytes_u16 [OF n(1)] n(2) by simp
  then show ?thesis using n by (simp add: string_read_size_def open_cursor_cur del: of_nat_add of_nat_Suc)
qed

text \<open>C32: The generic containers keep it for few values. A vector or a set of numbers does only when it
  is empty or the numbers are bytes, and a vector of strings only when it is empty; an optional number
  does when it is present and an absent one never does; and of the optional strings the ones of
  exactly 257 bytes do, whose length prefix is right when it is read one byte early.\<close>

theorem containers_size_invariant:
  fixes ns :: "'a::len word list"
  assumes "8 dvd LENGTH('a)" and "length ns \<le> 65535" and "\<forall>s \<in> set ss. string_ok s" "length ss \<le> 65535" and "string_ok s"
  shows "(sizes_agree (vec_type num_type) ns = Ok () \<longleftrightarrow> ns = [] \<or> LENGTH('a) = 8)
    \<and> (sizes_agree (hash_set_type num_type) ns = Ok () \<longleftrightarrow> ns = [] \<or> LENGTH('a) = 8)
    \<and> (sizes_agree (vec_type string_type) ss = Ok () \<longleftrightarrow> ss = [])
    \<and> sizes_agree (option_type num_type) (Some n :: 'a word option) = Ok ()
    \<and> sizes_agree (option_type num_type) (None :: 'a word option) \<noteq> Ok ()
    \<and> (sizes_agree (option_type string_type) (Some s) = Ok () \<longleftrightarrow> length s = 257)
    \<and> sizes_agree (option_type string_type) None \<noteq> Ok ()"
proof -
  note num = async_implementation.axioms(1) [OF num_implementation [OF assms(1)]]
  have w: "LENGTH('a) div 8 = 1 \<longleftrightarrow> LENGTH('a) = 8" "LENGTH('a) div 8 \<noteq> 0" using assms(1) dvd_imp_le [of 8 "LENGTH('a)"] by auto
  have nums: "(\<Sum>x\<leftarrow>ns. t_size num_type x) = length ns \<longleftrightarrow> ns = [] \<or> LENGTH('a) = 8"
    unfolding num_sizes_sum using w by auto
  have strings: "(\<Sum>x\<leftarrow>ss. t_size string_type x) = length ss \<longleftrightarrow> ss = []"
    using string_sizes_sum [of ss] by (cases ss) auto
  have early: "256 * (length s mod 256) + 1 = length s \<longleftrightarrow> length s = 257"
  proof
    assume eq: "256 * (length s mod 256) + 1 = length s"
    then have "length s mod 256 = 1" using mod_mult_self4 [of 256 "length s mod 256" 1] by simp
    with eq show "length s = 257" by simp
  qed simp
  obtain c where "string_read_size (open_cursor (1 # wire_block s)) = Ok (1 + 256 * (length s mod 256) + 2, c)"
    using string_measured_early assms(5) by (auto simp: string_ok_def)
  then have present: "sizes_agree (option_type string_type) (Some s) = Ok () \<longleftrightarrow> length s = 257"
    using early unfolding string_i.option_agree_iff(1) [OF assms(5)]
    by (auto simp: string_type_def string_size_def)
  have absent: "sizes_agree (option_type string_type) None \<noteq> Ok ()"
    unfolding string_i.option_agree_iff(2)
    by (simp add: string_type_def string_read_size_def read_num_def read_exact_def open_cursor_def)
  show ?thesis
    using implementation.collections_agree_iff [OF num _ assms(2)] string_i.collections_agree_iff [OF _ assms(4)] assms(3)
      implementation.option_agree_iff [OF num] w present absent nums strings
    by (simp add: num_type_def num_read_size_def num_size_def)
qed

theorem containers_size_invariant_witness:
  "sizes_agree (vec_type num_type) [1, 2 :: u16] \<noteq> Ok () \<and> sizes_agree (hash_set_type num_type) [1, 2 :: u16] \<noteq> Ok ()
   \<and> sizes_agree (vec_type string_type) [[0x61]] \<noteq> Ok () \<and> sizes_agree (option_type string_type) (Some [0x61]) \<noteq> Ok ()"
  using containers_size_invariant [where 'a = 16, of "[1, 2]" "[[0x61]]" "[0x61]"] by (simp add: string_ok_def)

end
