(* ===== verification/CodecTests.thy ===== *)
theory CodecTests
  imports SizeInvariant Layout ChronoTypes
begin

text \<open>
  The test modules of the codecs, translated statement by statement: \<open>src/src/lib.rs\<close> (\<open>invariants\<close>),
  \<open>types.rs\<close>, \<open>types/bytes.rs\<close>, \<open>types/map.rs\<close>, \<open>header.rs\<close>, \<open>tags.rs\<close>, \<open>fs/layout.rs\<close>, \<open>tokio_io.rs\<close> and
  \<open>types/time/chrono_impl.rs\<close>. A test is a result that is \<open>Ok ()\<close> when every assertion holds and \<open>Panic\<close>
  otherwise; \<open>println!\<close> has no effect on it.
\<close>

section \<open>Literals\<close>

text \<open>The bytes of an ASCII literal.\<close>

definition ascii :: "string \<Rightarrow> u8 list" where
  "ascii s = map of_char s"

lemma length_ascii [simp]: "length (ascii s) = length s"
  by (simp add: ascii_def)

lemma ascii_append [simp]: "ascii (s @ t) = ascii s @ ascii t"
  by (simp add: ascii_def)

text \<open>\<open>"\u{5199}\u{771f}"\<close>, two characters of three bytes each.\<close>

definition multi_byte :: "u8 list" where
  "multi_byte = [0xE5, 0x86, 0x99, 0xE7, 0x9C, 0x9F]"

text \<open>\<open>0.5\<close> and \<open>0.25\<close> as the bit patterns of the two float types.\<close>

definition half_f32 :: f32 where "half_f32 = 0x3F000000"
definition half_f64 :: f64 where "half_f64 = 0x3FE0000000000000"
definition quarter_f64 :: f64 where "quarter_f64 = 0x3FD0000000000000"

definition test_date :: raw_date where
  "test_date = \<lparr>date_year = 2026, date_month = 7, date_day = 30\<rparr>"

definition test_time :: raw_time where
  "test_time = \<lparr>seconds_from_midnight = 43200, nanoseconds = 1\<rparr>"

section \<open>The display of an error\<close>

text \<open>
  The attributes of \<open>thiserror\<close> on \<open>EncodingError\<close>. What the errors of the standard library and the
  boxed ones print is a parameter.
\<close>

record displays =
  show_io :: "io_kind \<Rightarrow> string"
  show_utf8 :: string
  show_boxed :: "boxed_error \<Rightarrow> string"

definition hex_digit :: "nat \<Rightarrow> char" where
  "hex_digit n = (if n < 10 then char_of (48 + n) else char_of (87 + n))"

fun display_error :: "displays \<Rightarrow> encoding_error \<Rightarrow> string" where
  "display_error D (IOError k) = show_io D k"
| "display_error D InvalidMagic = ''Invalid object header magic value''"
| "display_error D (UnsupportedVersion v) = ''Invalid object header version '' @ decimal (unat v)"
| "display_error D (InvalidCompressionType t) = ''Invalid object header compression type '' @ decimal (unat t)"
| "display_error D UnexpectedEof = ''Unexpected End Of Buffer''"
| "display_error D (UnknownTypeKey k) = ''Unknown type key '' @ decimal (unat k)"
| "display_error D InvalidUtf8 = ''a string field is not valid UTF-8: '' @ show_utf8 D"
| "display_error D (InvalidValue name b) =
     name @ '' cannot hold the value 0x'' @ [hex_digit (unat b div 16), hex_digit (unat b mod 16)]"
| "display_error D (TypeTooLarge name n limit) =
     ''a '' @ name @ '' of '' @ decimal n @ '' bytes exceeds the '' @ decimal limit
       @ ''-byte limit for its length prefix''"
| "display_error D (TooManyEntries name n limit) =
     ''a '' @ name @ '' of '' @ decimal n @ '' entries exceeds the limit of '' @ decimal limit"
| "display_error D (LengthMismatch name expected found) =
     name @ '' expected '' @ decimal expected @ '' bytes but the length prefix says '' @ decimal found"
| "display_error D (OtherDecodingError e) = show_boxed D e"
| "display_error D (MismatchedObjectType expected found) =
     ''Mismatched Object Type expected '' @ decimal (unat expected) @ '', found '' @ decimal (unat found)"

text \<open>\<open>str::contains\<close>.\<close>

fun str_contains :: "string \<Rightarrow> string \<Rightarrow> bool" where
  "str_contains pat [] \<longleftrightarrow> pat = []"
| "str_contains pat (c # cs) \<longleftrightarrow> take (length pat) (c # cs) = pat \<or> str_contains pat cs"

lemma str_contains_here: "str_contains pat (pat @ post)"
  by (cases pat; cases post) auto

lemma str_contains_later: "str_contains pat s \<Longrightarrow> str_contains pat (pre @ s)"
  by (induction pre) auto

section \<open>\<open>lib.rs\<close>: the sizes agree\<close>

definition numbers_agree :: "(unit, encoding_error) res" where
  "numbers_agree = all_pass
     [sizes_agree num_type (7 :: u8), sizes_agree num_type (7 :: u16), sizes_agree num_type (7 :: u32),
      sizes_agree num_type (7 :: u64), sizes_agree num_type (-7 :: i8), sizes_agree num_type (-7 :: i16),
      sizes_agree num_type (-7 :: i32), sizes_agree num_type (-7 :: i64), sizes_agree num_type half_f32,
      sizes_agree num_type half_f64, sizes_agree bool_type True, sizes_agree bool_type False]"

definition strings_and_byte_blocks_agree :: "(unit, encoding_error) res" where
  "strings_and_byte_blocks_agree = all_pass
     [sizes_agree string_type [], sizes_agree string_type (ascii ''hello tuxio''), sizes_agree string_type multi_byte,
      sizes_agree byte_vec_type [1, 2, 3], sizes_agree byte_vec_type []]"

definition fixed_size_byte_arrays_agree :: "(unit, encoding_error) res" where
  "fixed_size_byte_arrays_agree = all_pass
     [sizes_agree (array_type 0) [], sizes_agree (array_type 4) [1, 2, 3, 4],
      sizes_agree (array_type 32) (replicate 32 7)]"

definition time_types_agree :: "(unit, encoding_error) res" where
  "time_types_agree = all_pass
     [sizes_agree raw_date_type test_date, sizes_agree raw_time_type test_time,
      sizes_agree raw_time_zone_type \<lparr>tz_offset = -18000\<rparr>,
      sizes_agree raw_date_time_type \<lparr>dt_date = test_date, dt_time = test_time, dt_timezone = \<lparr>tz_offset = 0\<rparr>\<rparr>]"

definition values_include_their_type_key :: "(unit, encoding_error) res" where
  "values_include_their_type_key = all_pass
     [sizes_agree value_type_type (VBool True), sizes_agree value_type_type (VU8 1),
      sizes_agree value_type_type (VU64 (-1)), sizes_agree value_type_type (VI32 (-1)),
      sizes_agree value_type_type (VF64 half_f64), sizes_agree value_type_type (VString (ascii ''hello'')),
      sizes_agree value_type_type (VBytes [1, 2, 3]), sizes_agree value_type_type (VDate test_date),
      assert_that (value_size (VString (ascii ''hello'')) = 1 + 2 + 5)]"

definition tags_agree :: "(unit, encoding_error) res" where
  "tags_agree =
     (let tags = tags_new
      in res_bind (sizes_agree tags_type tags) (\<lambda>_.
         let (_, tags) = tags_insert (ascii ''one'') (VString (ascii ''value'')) tags;
             (_, tags) = tags_insert (ascii ''two'') (VU32 7) tags
         in sizes_agree tags_type tags))"

definition a_header_agrees :: "(unit, encoding_error) res" where
  "a_header_agrees = sizes_agree header_type header_default"

definition bytes_agree :: "(unit, encoding_error) res" where
  "bytes_agree = all_pass [sizes_agree bytes_type (ascii ''hello tuxio''), sizes_agree bytes_type []]"

definition uuids_agree :: "(unit, encoding_error) res" where
  "uuids_agree = all_pass [sizes_agree uuid_type (replicate 16 0), sizes_agree uuid_type (replicate 16 0xFF)]"

lemma string_literals [simp]:
  "string_ok []" "string_ok (ascii ''hello tuxio'')" "string_ok multi_byte" "string_ok (ascii ''hello'')"
  "string_ok (ascii ''value'')" "string_ok (ascii ''one'')" "string_ok (ascii ''two'')" "string_ok (ascii ''three'')"
  by (simp_all add: string_ok_def ascii_def multi_byte_def utf8_cont_def)

lemma lib_tests_pass:
  "numbers_agree = Ok ()" "strings_and_byte_blocks_agree = Ok ()" "fixed_size_byte_arrays_agree = Ok ()"
  "time_types_agree = Ok ()" "values_include_their_type_key = Ok ()" "tags_agree = Ok ()" "a_header_agrees = Ok ()"
  "bytes_agree = Ok ()" "uuids_agree = Ok ()"
  by (simp_all add: numbers_agree_def strings_and_byte_blocks_agree_def fixed_size_byte_arrays_agree_def
      time_types_agree_def values_include_their_type_key_def tags_agree_def a_header_agrees_def bytes_agree_def
      uuids_agree_def u8_i.agree u16_i.agree u32_i.agree u64_i.agree bool_i.agree string_i.agree byte_vec_i.agree
      implementation.agree [OF array_implementation] raw_date_i.agree raw_time_i.agree raw_time_zone_i.agree
      raw_date_time_i.agree value_i.agree tags_i.agree header_i.agree bytes_i.agree uuid_i.agree block_ok_def
      uuid_ok_def header_ok_def header_default_def tags_ok_def entries_ok_def tags_new_def tags_insert_def string_size_def)

section \<open>\<open>types.rs\<close>: corrupt and truncated input\<close>

definition a_bool_byte_other_than_zero_or_one_is_a_corrupt_value :: "(unit, encoding_error) res" where
  "a_bool_byte_other_than_zero_or_one_is_a_corrupt_value =
     res_bind (expect_err (read_bool (open_cursor [2]))) (\<lambda>error.
     res_bind (assert_that (error = InvalidValue ''bool'' 2)) (\<lambda>_.
     res_bind (expect_err (read_bool (open_cursor []))) (\<lambda>error.
     assert_that (case error of IOError _ \<Rightarrow> True | _ \<Rightarrow> False))))"

definition a_string_holding_invalid_utf8_says_so :: "displays \<Rightarrow> (unit, encoding_error) res" where
  "a_string_holding_invalid_utf8_says_so D =
     res_bind (expect_err (read_string (open_cursor [1, 0, 0xFF]))) (\<lambda>error.
     res_bind (assert_that (error = InvalidUtf8)) (\<lambda>_.
     assert_that (str_contains ''UTF-8'' (display_error D error))))"

definition a_byte_array_of_the_wrong_width_reports_the_mismatch :: "(unit, encoding_error) res" where
  "a_byte_array_of_the_wrong_width_reports_the_mismatch =
     res_bind (expect_err (read_array 4 (open_cursor [3, 0, 1, 2, 3]))) (\<lambda>error.
     assert_that (case error of LengthMismatch _ expected found \<Rightarrow> expected = 4 \<and> found = 3 | _ \<Rightarrow> False))"

definition the_two_limits_report_differently :: "displays \<Rightarrow> (unit, encoding_error) res" where
  "the_two_limits_report_differently D =
     res_bind (expect_err (length_is_allowed ''String'' (MAX_PREFIXED_LENGTH + 1))) (\<lambda>too_long.
     res_bind (assert_that (case too_long of TypeTooLarge _ _ _ \<Rightarrow> True | _ \<Rightarrow> False)) (\<lambda>_.
     res_bind (assert_that (str_contains ''bytes'' (display_error D too_long))) (\<lambda>_.
     res_bind (expect_err (count_is_allowed ''Tags'' (MAX_PREFIXED_LENGTH + 1))) (\<lambda>too_many.
     res_bind (assert_that (case too_many of TooManyEntries _ _ _ \<Rightarrow> True | _ \<Rightarrow> False)) (\<lambda>_.
     res_bind (assert_that (str_contains ''entries'' (display_error D too_many))) (\<lambda>_.
     res_bind (assert_that (length_is_allowed ''String'' MAX_PREFIXED_LENGTH = Ok ())) (\<lambda>_.
     assert_that (count_is_allowed ''Tags'' MAX_PREFIXED_LENGTH = Ok ()))))))))"

lemma limit_messages:
  "str_contains ''bytes'' (display_error D (TypeTooLarge name n limit))"
  "str_contains ''entries'' (display_error D (TooManyEntries name n limit))"
  "str_contains ''UTF-8'' (display_error D InvalidUtf8)"
proof -
  have "str_contains ''bytes'' (''a '' @ name @ '' of '' @ decimal n @ '' '' @ ''bytes'' @ post)" for post
    by (intro str_contains_later str_contains_here)
  from this [of "'' exceeds the '' @ decimal limit @ ''-byte limit for its length prefix''"]
  show "str_contains ''bytes'' (display_error D (TypeTooLarge name n limit))" by simp
  have "str_contains ''entries'' (''a '' @ name @ '' of '' @ decimal n @ '' '' @ ''entries'' @ post)" for post
    by (intro str_contains_later str_contains_here)
  from this [of "'' exceeds the limit of '' @ decimal limit"]
  show "str_contains ''entries'' (display_error D (TooManyEntries name n limit))" by simp
qed simp

lemma types_tests_pass:
  "a_bool_byte_other_than_zero_or_one_is_a_corrupt_value = Ok ()"
  "a_string_holding_invalid_utf8_says_so D = Ok ()"
  "a_byte_array_of_the_wrong_width_reports_the_mismatch = Ok ()"
  "the_two_limits_report_differently D = Ok ()"
proof -
  have two: "read_bool (open_cursor [2]) = Err (InvalidValue ''bool'' 2)"
    by (simp add: read_bool_def read_exact_def open_cursor_def)
  have none: "read_bool (open_cursor []) = Err (IOError UnexpectedEofKind)"
    by (simp add: read_bool_def read_exact_def open_cursor_def)
  show "a_bool_byte_other_than_zero_or_one_is_a_corrupt_value = Ok ()"
    by (simp add: a_bool_byte_other_than_zero_or_one_is_a_corrupt_value_def two none)
  have "read_string (open_cursor [1, 0, 0xFF]) = Err InvalidUtf8" by code_simp
  then show "a_string_holding_invalid_utf8_says_so D = Ok ()"
    by (simp add: a_string_holding_invalid_utf8_says_so_def limit_messages del: display_error.simps)
  have "read_array 4 (open_cursor [3, 0, 1, 2, 3]) = Err (LengthMismatch ''[u8; N]'' 4 3)" by code_simp
  then show "a_byte_array_of_the_wrong_width_reports_the_mismatch = Ok ()"
    by (simp add: a_byte_array_of_the_wrong_width_reports_the_mismatch_def)
  show "the_two_limits_report_differently D = Ok ()"
    by (simp add: the_two_limits_report_differently_def length_is_allowed_def count_is_allowed_def MAX_PREFIXED_LENGTH_def
        limit_messages del: display_error.simps)
qed

section \<open>\<open>types/bytes.rs\<close> and \<open>types/map.rs\<close>: round trips\<close>

definition bytes_round_trip :: "(unit, encoding_error) res" where
  "bytes_round_trip =
     (let value = ascii ''hello tuxio''
      in res_bind (unwrap (write_to_bytes write_bytes value)) (\<lambda>encoded.
         res_bind (assert_that (length encoded = bytes_size value)) (\<lambda>_.
         res_bind (unwrap (read_bytes (open_cursor encoded))) (\<lambda>(decoded, _).
         assert_that (decoded = value)))))"

definition bytes_round_trip_empty :: "(unit, encoding_error) res" where
  "bytes_round_trip_empty =
     (let value = []
      in res_bind (unwrap (write_to_bytes write_bytes value)) (\<lambda>encoded.
         res_bind (unwrap (read_bytes (open_cursor encoded))) (\<lambda>(decoded, _).
         assert_that (decoded = value))))"

text \<open>Hash maps are equal when they have as many entries and the entries of one are in the other.\<close>

definition same_map :: "('k \<times> 'v) list \<Rightarrow> ('k \<times> 'v) list \<Rightarrow> bool" where
  "same_map m m' \<longleftrightarrow> length m = length m' \<and> list_all (\<lambda>(k, v). map_of m' k = Some v) m"

lemma same_map_refl: "distinct (map fst m) \<Longrightarrow> same_map m m"
  by (auto simp: same_map_def list_all_iff)

definition test_custom_hasher :: "(unit, encoding_error) res" where
  "test_custom_hasher =
     (let map = AList.update (2 :: i32) (ascii ''two'') (AList.update 1 (ascii ''one'') [])
      in res_bind (unwrap (write_hash_map 6 12 write_num write_string vec_write map [])) (\<lambda>buffer.
         res_bind (unwrap (read_hash_map 6 12 (read_num :: i32 decoder) read_string (open_cursor buffer))) (\<lambda>(read_map, _).
         assert_that (same_map map read_map))))"

lemma container_tests_pass:
  "bytes_round_trip = Ok ()" "bytes_round_trip_empty = Ok ()" "test_custom_hasher = Ok ()"
proof -
  have wr: "write_to_bytes write_bytes b = Ok (wire_block b)" if "length b \<le> 65535" for b
    using that by (simp add: write_to_bytes_def vec.write_bytes_wire)
  have rd: "read_bytes (cur [] (wire_block b)) = Ok (b, cur (wire_block b) [])" if "length b \<le> 65535" for b
    using bytes.rd_enc [of b "[]" "[]"] that by (simp add: block_ok_def)
  show "bytes_round_trip = Ok ()" "bytes_round_trip_empty = Ok ()"
    by (simp_all add: bytes_round_trip_def bytes_round_trip_empty_def open_cursor_cur bytes_size_def wr rd Let_def)
  let ?m = "[(1 :: i32, ascii ''one''), (2, ascii ''two'')]"
  have ok: "int_string.entries_ok ?m" by (simp add: int_string.entries_ok_def)
  have "write_hash_map 6 12 write_num write_string vec_write ?m [] = Ok (wire_map 6 12 to_le_bytes wire_block ?m)"
    using int_string.write_wire [OF ok, of "[]"] by simp
  moreover have "read_hash_map 6 12 read_num read_string (open_cursor (wire_map 6 12 to_le_bytes wire_block ?m)) =
      Ok (?m, cur (wire_map 6 12 to_le_bytes wire_block ?m) [])"
    using int_string.read_wire [OF ok, of "[]" "[]"] by (simp add: open_cursor_cur)
  ultimately show "test_custom_hasher = Ok ()" using same_map_refl [of ?m] by (simp add: test_custom_hasher_def)
qed

section \<open>\<open>header.rs\<close>\<close>

definition test_object_header_read_write :: "(unit, encoding_error) res" where
  "test_object_header_read_write =
     (let header = \<lparr>version = CURRENT_VERSION, compression_type = NoCompression, h_tags_start = 10,
          h_content_start = 20, content_length = 100, bit_flags = 0\<rparr>
      in res_bind (unwrap (write_header vec_write header [])) (\<lambda>buffer.
         res_bind (assert_that (length buffer = 32)) (\<lambda>_.
         res_bind (unwrap (read_header (open_cursor buffer))) (\<lambda>(read_header, _).
         assert_that (header = read_header)))))"

definition stable_header :: object_header where
  "stable_header = \<lparr>version = CURRENT_VERSION, compression_type = ZSTD 3, h_tags_start = 0x0102,
     h_content_start = 0x03040506, content_length = 0x0708090A0B0C0D0E, bit_flags = 0xFF\<rparr>"

definition the_header_layout_is_byte_for_byte_stable :: "(unit, encoding_error) res" where
  "the_header_layout_is_byte_for_byte_stable =
     res_bind (unwrap (write_to_bytes write_header stable_header)) (\<lambda>encoded.
     res_bind (all_pass
       [assert_that (length encoded = 32),
        assert_that (take 3 encoded = ascii ''TUX''), assert_that (encoded ! 3 = CURRENT_VERSION),
        assert_that (encoded ! 4 = 1), assert_that (take 4 (drop 5 encoded) = to_le_bytes (3 :: i32)),
        assert_that (take 2 (drop 9 encoded) = to_le_bytes (0x0102 :: u16)),
        assert_that (take 4 (drop 11 encoded) = to_le_bytes (0x03040506 :: u32)),
        assert_that (take 8 (drop 15 encoded) = to_le_bytes (0x0708090A0B0C0D0E :: u64)),
        assert_that (encoded ! 23 = 0xFF), assert_that (take 8 (drop 24 encoded) = replicate 8 0)]) (\<lambda>_.
     res_bind (unwrap (header_read_from_bytes encoded)) (\<lambda>h. assert_that (h = stable_header))))"

definition a_future_version_is_reported_as_a_version_problem :: "(unit, encoding_error) res" where
  "a_future_version_is_reported_as_a_version_problem =
     res_bind (unwrap (write_to_bytes write_header header_default)) (\<lambda>encoded.
     let encoded = encoded[3 := CURRENT_VERSION + 1]
     in res_bind (expect_err (header_read_from_bytes encoded)) (\<lambda>error.
        assert_that (error = UnsupportedVersion (CURRENT_VERSION + 1))))"

definition a_file_that_is_not_an_object_fails_on_the_magic_value :: "(unit, encoding_error) res" where
  "a_file_that_is_not_an_object_fails_on_the_magic_value =
     res_bind (expect_err (header_read_from_bytes (replicate 32 0))) (\<lambda>error. assert_that (error = InvalidMagic))"

definition a_short_header_is_a_short_read :: "(unit, encoding_error) res" where
  "a_short_header_is_a_short_read =
     res_bind (expect_err (header_read_from_bytes (ascii ''TUX''))) (\<lambda>error. assert_that (error = UnexpectedEof))"

definition test_size_math :: "(unit, encoding_error) res" where
  "test_size_math =
     (let header = \<lparr>version = CURRENT_VERSION, compression_type = NoCompression, h_tags_start = 64,
          h_content_start = 256, content_length = 256, bit_flags = 0\<rparr>
      in res_bind (header_tags_space header) (\<lambda>n. res_bind (assert_that (n = 192)) (\<lambda>_.
         res_bind (meta_and_tag_space header) (\<lambda>n. assert_that (n = 224)))))"

lemma write_header_vec: "write_to_bytes write_header h = Ok (wire_header h)" "write_header vec_write h [] = Ok (wire_header h)"
  by (simp_all add: write_to_bytes_def vec.write_header_wire)

text \<open>The bytes of a number, one by one.\<close>

lemma le_nat_unfold: "0 < n \<Longrightarrow> le_nat n x = of_nat (x mod 256) # le_nat (n - 1) (x div 256)"
  by (cases n) auto

lemma stable_header_bytes:
  "wire_header stable_header =
     [0x54, 0x55, 0x58, 0, 1, 3, 0, 0, 0, 2, 1, 6, 5, 4, 3, 0xE, 0xD, 0xC, 0xB, 0xA, 9, 8, 7, 0xFF,
      0, 0, 0, 0, 0, 0, 0, 0]"
proof -
  have "replicate 8 0 = [0, 0, 0, 0, 0, 0, 0, 0 :: u8]" by (simp add: eval_nat_numeral)
  then show ?thesis
    by (simp add: wire_header_def stable_header_def wire_compression_def CURRENT_VERSION_def to_le_bytes_def le_nat_unfold)
qed

lemma header_tests_pass:
  "test_object_header_read_write = Ok ()" "the_header_layout_is_byte_for_byte_stable = Ok ()"
  "a_future_version_is_reported_as_a_version_problem = Ok ()"
  "a_file_that_is_not_an_object_fails_on_the_magic_value = Ok ()" "a_short_header_is_a_short_read = Ok ()"
  "test_size_math = Ok ()"
proof -
  have rd: "read_header (cur [] (wire_header h)) = Ok (h, cur (wire_header h) [])" if "header_ok h" for h
    using header.rd_enc [OF that, of "[]" "[]"] by simp
  show "test_object_header_read_write = Ok ()"
    by (simp add: test_object_header_read_write_def write_header_vec open_cursor_cur rd header_ok_def)
  have "header_ok stable_header" by (simp add: stable_header_def header_ok_def)
  then have "header_read_from_bytes (wire_header stable_header) = Ok stable_header" by simp
  moreover have "to_le_bytes (3 :: i32) = [3, 0, 0, 0]" "to_le_bytes (0x0102 :: u16) = [2, 1]"
      "to_le_bytes (0x03040506 :: u32) = [6, 5, 4, 3]"
      "to_le_bytes (0x0708090A0B0C0D0E :: u64) = [0xE, 0xD, 0xC, 0xB, 0xA, 9, 8, 7]"
    by (simp_all add: to_le_bytes_def le_nat_unfold)
  ultimately show "the_header_layout_is_byte_for_byte_stable = Ok ()"
    unfolding the_header_layout_is_byte_for_byte_stable_def write_header_vec unwrap_simps res_bind.simps
    by (simp add: stable_header_bytes ascii_def CURRENT_VERSION_def eval_nat_numeral)
  show "a_future_version_is_reported_as_a_version_problem = Ok ()"
    unfolding a_future_version_is_reported_as_a_version_problem_def write_header_vec by code_simp
  show "a_file_that_is_not_an_object_fails_on_the_magic_value = Ok ()" "a_short_header_is_a_short_read = Ok ()"
    "test_size_math = Ok ()"
    by code_simp+
qed

section \<open>\<open>tags.rs\<close> and \<open>fs/layout.rs\<close>\<close>

definition test_tags_serialization :: "(unit, encoding_error) res" where
  "test_tags_serialization =
     (let tags = AList.update (ascii ''tag2'') (VString (ascii ''value2''))
            (AList.update (ascii ''tag1'') (VString (ascii ''value1'')) []);
          computed_size = tags_size string_size tags
      in res_bind (unwrap (write_tags write_string vec_write tags [])) (\<lambda>buffer.
         res_bind (unwrap (tags_read_size string_read_size (open_cursor buffer))) (\<lambda>(read_size, _).
         res_bind (assert_that (computed_size = read_size)) (\<lambda>_.
         res_bind (unwrap (read_tags read_string (open_cursor buffer))) (\<lambda>(deserialized_tags, _).
         assert_that (same_map tags deserialized_tags))))))"

lemma tags_tests_pass: "test_tags_serialization = Ok ()"
proof -
  let ?t = "[(ascii ''tag1'', VString (ascii ''value1'')), (ascii ''tag2'', VString (ascii ''value2''))]"
  have ok: "tags_ok string_ok ?t"
    by (simp add: tags_ok_def entries_ok_def string_ok_def ascii_def)
  note F = tags_i.writes [OF ok, of "[]"] tags_i.ms_enc [OF ok, of "[]" "[]"] tags_i.rd_enc [OF ok, of "[]" "[]"]
  have "AList.update (ascii ''tag2'') (VString (ascii ''value2'')) (AList.update (ascii ''tag1'') (VString (ascii ''value1'')) []) = ?t"
    by (simp add: ascii_def)
  moreover have "same_map ?t ?t" by (rule same_map_refl) (simp add: ascii_def)
  ultimately show ?thesis using F by (auto simp: test_tags_serialization_def tags_type_def open_cursor_cur)
qed

definition align_up_rounds_to_boundary :: "(unit, object_file_error) res" where
  "align_up_rounds_to_boundary = all_pass
     (map (\<lambda>(n, align, r). res_bind (align_up n align) (\<lambda>m. assert_that (m = r)))
        [(0, 32, 0), (1, 32, 32), (32, 32, 32), (33, 32, 64), (33, 1, 33), (33, 0, 33)])"

definition compute_leaves_reserve_and_aligns :: "(unit, object_file_error) res" where
  "compute_leaves_reserve_and_aligns =
     res_bind (unwrap (compute layout_default 40 10)) (\<lambda>layout.
     res_bind (assert_that (tags_start layout = 352)) (\<lambda>_.
     res_bind (assert_that (content_start layout = 640)) (\<lambda>_.
     res_bind (metadata_space layout) (\<lambda>m. res_bind (assert_that (m \<ge> 40)) (\<lambda>_.
     res_bind (tags_space layout) (\<lambda>t. assert_that (t \<ge> 10)))))))"

definition packed_computes_exact_offsets :: "(unit, object_file_error) res" where
  "packed_computes_exact_offsets =
     res_bind (unwrap (compute layout_packed 40 10)) (\<lambda>layout.
     res_bind (assert_that (tags_start layout = 72)) (\<lambda>_.
     res_bind (assert_that (content_start layout = 82)) (\<lambda>_.
     res_bind (metadata_space layout) (\<lambda>m. res_bind (assert_that (m = 40)) (\<lambda>_.
     res_bind (tags_space layout) (\<lambda>t. assert_that (t = 10)))))))"

definition compute_honors_min_content_start :: "(unit, object_file_error) res" where
  "compute_honors_min_content_start =
     (let options = layout_packed\<lparr>min_content_start := 4096\<rparr>
      in res_bind (unwrap (compute options 10 10)) (\<lambda>layout. assert_that (content_start layout = 4096)))"

definition compute_rejects_metadata_past_u16 :: "(unit, object_file_error) res" where
  "compute_rejects_metadata_past_u16 =
     res_bind (expect_err (compute layout_packed 65535 0)) (\<lambda>error.
     assert_that (case error of SectionOffsetTooLarge _ _ \<Rightarrow> True | _ \<Rightarrow> False))"

definition repartition_moves_tags_to_make_room_for_metadata :: "(unit, object_file_error) res" where
  "repartition_moves_tags_to_make_room_for_metadata =
     res_bind (repartition 640 200 4 32) (\<lambda>r. case r of None \<Rightarrow> Panic | Some layout \<Rightarrow>
     res_bind (assert_that (content_start layout = 640)) (\<lambda>_.
     res_bind (assert_that (tags_start layout = 256)) (\<lambda>_.
     res_bind (metadata_space layout) (\<lambda>m. res_bind (assert_that (m \<ge> 200)) (\<lambda>_.
     res_bind (tags_space layout) (\<lambda>t. assert_that (t \<ge> 4)))))))"

definition repartition_falls_back_to_unaligned_tags :: "(unit, object_file_error) res" where
  "repartition_falls_back_to_unaligned_tags =
     res_bind (repartition 70 30 8 32) (\<lambda>r. case r of None \<Rightarrow> Panic | Some layout \<Rightarrow>
     res_bind (assert_that (tags_start layout = 62)) (\<lambda>_.
     res_bind (tags_space layout) (\<lambda>t. assert_that (t = 8))))"

definition repartition_rejects_sections_that_do_not_fit :: "(unit, object_file_error) res" where
  "repartition_rejects_sections_that_do_not_fit =
     res_bind (repartition 100 60 40 32) (\<lambda>r. assert_that (r = None))"

lemma layout_tests_pass:
  "align_up_rounds_to_boundary = Ok ()" "compute_leaves_reserve_and_aligns = Ok ()"
  "packed_computes_exact_offsets = Ok ()" "compute_honors_min_content_start = Ok ()"
  "compute_rejects_metadata_past_u16 = Ok ()" "repartition_moves_tags_to_make_room_for_metadata = Ok ()"
  "repartition_falls_back_to_unaligned_tags = Ok ()" "repartition_rejects_sections_that_do_not_fit = Ok ()"
  by (simp_all add: align_up_rounds_to_boundary_def compute_leaves_reserve_and_aligns_def
      packed_computes_exact_offsets_def compute_honors_min_content_start_def compute_rejects_metadata_past_u16_def
      repartition_moves_tags_to_make_room_for_metadata_def repartition_falls_back_to_unaligned_tags_def
      repartition_rejects_sections_that_do_not_fit_def align_up_def div_ceil_def usize_mul_def usize_add_def usize_sub_def
      usize_max_def Let_def compute_def repartition_def layout_default_def layout_packed_def HEADER_SIZE_def
      DEFAULT_METADATA_RESERVE_def DEFAULT_TAG_RESERVE_def DEFAULT_ALIGNMENT_def metadata_space_def tags_space_def)

section \<open>\<open>tokio_io.rs\<close>: the two layers interchange\<close>

definition numbers_are_interchangeable :: "(unit, encoding_error) res" where
  "numbers_are_interchangeable = all_pass
     [layers_interchange num_type (7 :: u8), layers_interchange num_type (1234 :: u16),
      layers_interchange num_type (-1 :: u32), layers_interchange num_type (-1 :: u64),
      layers_interchange num_type (-7 :: i8), layers_interchange num_type (0x8000000000000000 :: i64),
      layers_interchange num_type half_f32, layers_interchange num_type half_f64]"

definition strings_and_byte_blocks_are_interchangeable :: "(unit, encoding_error) res" where
  "strings_and_byte_blocks_are_interchangeable = all_pass
     [layers_interchange string_type [], layers_interchange string_type (ascii ''hello tuxio''),
      layers_interchange string_type multi_byte, layers_interchange byte_vec_type [1, 2, 3],
      layers_interchange byte_vec_type []]"

definition the_header_is_interchangeable :: "(unit, encoding_error) res" where
  "the_header_is_interchangeable = layers_interchange header_type
     (header_default\<lparr>h_tags_start := 288, h_content_start := 544, content_length := 1234\<rparr>)"

definition time_types_are_interchangeable :: "(unit, encoding_error) res" where
  "time_types_are_interchangeable =
     (let date = test_date; time = test_time; timezone = \<lparr>tz_offset = -18000\<rparr>
      in all_pass
        [layers_interchange raw_date_type date, layers_interchange raw_time_type time,
         layers_interchange raw_time_zone_type timezone,
         layers_interchange raw_date_time_type \<lparr>dt_date = date, dt_time = time, dt_timezone = timezone\<rparr>])"

definition every_value_variant_is_interchangeable :: "(unit, encoding_error) res" where
  "every_value_variant_is_interchangeable =
     (let time = \<lparr>seconds_from_midnight = 1, nanoseconds = 2\<rparr>
      in all_pass (map (layers_interchange value_type_type)
        [VBool True, VBool False, VU8 1, VU16 2, VU32 3, VU64 4, VI8 (-1), VI16 (-2), VI32 (-3), VI64 (-4),
         VF32 half_f32, VF64 quarter_f64, VString (ascii ''value''), VBytes [1, 2, 3], VDate test_date, VTime time,
         VRawDateTime \<lparr>dt_date = test_date, dt_time = time, dt_timezone = \<lparr>tz_offset = 0\<rparr>\<rparr>,
         VUuid (replicate 15 0 @ [42])]))"

definition a_tag_block_is_interchangeable :: "(unit, encoding_error) res" where
  "a_tag_block_is_interchangeable =
     res_bind (layers_interchange tags_type tags_new) (\<lambda>_.
     let (_, tags) = tags_insert (ascii ''one'') (VString (ascii ''value'')) tags_new;
         (_, tags) = tags_insert (ascii ''two'') (VU32 7) tags;
         (_, tags) = tags_insert (ascii ''three'') (VBool True) tags
     in layers_interchange tags_type tags)"

definition an_unknown_type_key_is_rejected :: "(unit, encoding_error) res" where
  "an_unknown_type_key_is_rejected =
     res_bind (expect_err (async_read_value [250, 0, 0])) (\<lambda>error. assert_that (error = UnknownTypeKey 250))"

definition bytes_are_interchangeable :: "(unit, encoding_error) res" where
  "bytes_are_interchangeable = all_pass
     [layers_interchange bytes_type (ascii ''hello''), layers_interchange bytes_type []]"

definition uuids_are_interchangeable :: "(unit, encoding_error) res" where
  "uuids_are_interchangeable = all_pass
     [layers_interchange uuid_type (replicate 16 0), layers_interchange uuid_type (replicate 16 0xFF)]"

lemma tokio_tests_pass:
  "numbers_are_interchangeable = Ok ()" "strings_and_byte_blocks_are_interchangeable = Ok ()"
  "the_header_is_interchangeable = Ok ()" "time_types_are_interchangeable = Ok ()"
  "every_value_variant_is_interchangeable = Ok ()" "a_tag_block_is_interchangeable = Ok ()"
  "an_unknown_type_key_is_rejected = Ok ()" "bytes_are_interchangeable = Ok ()" "uuids_are_interchangeable = Ok ()"
  by (simp_all add: numbers_are_interchangeable_def strings_and_byte_blocks_are_interchangeable_def
      the_header_is_interchangeable_def time_types_are_interchangeable_def every_value_variant_is_interchangeable_def
      a_tag_block_is_interchangeable_def an_unknown_type_key_is_rejected_def bytes_are_interchangeable_def
      uuids_are_interchangeable_def u8_i.interchange u16_i.interchange u32_i.interchange u64_i.interchange
      string_i.interchange string_i.interchange [OF string_literals(3)] byte_vec_i.interchange bytes_i.interchange uuid_i.interchange header_i.interchange
      raw_date_i.interchange raw_time_i.interchange raw_time_zone_i.interchange raw_date_time_i.interchange
      value_i.interchange tags_i.interchange block_ok_def uuid_ok_def header_ok_def header_default_def tags_ok_def
      entries_ok_def tags_new_def tags_insert_def ascii_def string_ok_def async_read_value_def async_read_exact_def Let_def)

section \<open>\<open>chrono_impl.rs\<close>: type keys\<close>

text \<open>
  The attributes of the four derived types as tokens; \<open>TYPE_KEY\<close> is the one that the derive macro
  generates from them.
\<close>

definition fixed_attributes :: "nat \<Rightarrow> nat \<Rightarrow> attr_token list" where
  "fixed_attributes n key = [KwConstSize, TokEq, TokLit n, TokComma, KwTypeKey, TokEq, TokLit key]"

definition raw_date_attributes :: "attr_token list" where "raw_date_attributes = fixed_attributes 4 13"
definition raw_time_attributes :: "attr_token list" where "raw_time_attributes = fixed_attributes 8 14"
definition raw_time_zone_attributes :: "attr_token list" where "raw_time_zone_attributes = fixed_attributes 4 15"
definition raw_date_time_attributes :: "attr_token list" where "raw_date_time_attributes = fixed_attributes 16 16"

definition type_key_of :: "attr_token list \<Rightarrow> u8 option" where
  "type_key_of attrs =
     (case expand_object_type (Some attrs) of Ok g \<Rightarrow> map_option of_nat (gen_type_key g) | _ \<Rightarrow> None)"

definition assert_type_keys_match :: "(unit, encoding_error) res" where
  "assert_type_keys_match = all_pass
     [assert_that (Some naive_date_type_key = type_key_of raw_date_attributes),
      assert_that (Some naive_time_type_key = type_key_of raw_time_attributes),
      assert_that (Some fixed_offset_type_key = type_key_of raw_time_zone_attributes),
      assert_that (Some date_time_type_key = type_key_of raw_date_time_attributes)]"

text \<open>What the macro generates for them is what the codecs use.\<close>

lemma expand_fixed:
  "expand_object_type (Some (fixed_attributes n key)) = Ok \<lparr>gen_size = Some n, gen_const_size = Some n, gen_type_key = Some key\<rparr>"
  by (simp add: expand_object_type_def parse_object_type_def fixed_attributes_def parse_attributes.simps)

lemma type_key_of_fixed [simp]: "type_key_of (fixed_attributes n key) = Some (of_nat key)"
  by (simp add: type_key_of_def expand_fixed)

lemma chrono_tests_pass: "assert_type_keys_match = Ok ()"
  by (simp add: assert_type_keys_match_def raw_date_attributes_def raw_time_attributes_def raw_time_zone_attributes_def
      raw_date_time_attributes_def naive_date_type_key_def naive_time_type_key_def fixed_offset_type_key_def
      date_time_type_key_def)

text \<open>The derive macro and the hand-written codecs fit. What the macro generates from the attributes
  of the four date and time types is the size, the constant size and the type key that the codecs
  and the value enum use: the key is the one a value of the type starts with, except for the time
  zone, which is no value.\<close>

theorem derived_implementations:
  "expand_object_type (Some raw_date_attributes) =
     Ok \<lparr>gen_size = Some (t_size raw_date_type d), gen_const_size = t_const_size raw_date_type d,
         gen_type_key = Some (unat (value_key (VDate d)))\<rparr>
   \<and> expand_object_type (Some raw_time_attributes) =
     Ok \<lparr>gen_size = Some (t_size raw_time_type t), gen_const_size = t_const_size raw_time_type t,
         gen_type_key = Some (unat (value_key (VTime t)))\<rparr>
   \<and> expand_object_type (Some raw_time_zone_attributes) =
     Ok \<lparr>gen_size = Some (t_size raw_time_zone_type z), gen_const_size = t_const_size raw_time_zone_type z,
         gen_type_key = Some 15\<rparr>
   \<and> (\<forall>v. value_key v \<noteq> 15)
   \<and> expand_object_type (Some raw_date_time_attributes) =
     Ok \<lparr>gen_size = Some (t_size raw_date_time_type dt), gen_const_size = t_const_size raw_date_time_type dt,
         gen_type_key = Some (unat (value_key (VRawDateTime dt)))\<rparr>"
proof (intro conjI allI)
  show "value_key v \<noteq> 15" for v by (cases v) auto
qed (simp_all add: raw_date_attributes_def raw_time_attributes_def raw_time_zone_attributes_def raw_date_time_attributes_def
      expand_fixed raw_date_type_def raw_time_type_def raw_time_zone_type_def raw_date_time_type_def raw_date_size_def
      raw_time_size_def raw_time_zone_size_def raw_date_time_size_def)

end
