(* ===== verification/Conversions.thy ===== *)
theory Conversions
  imports Tags
begin

text \<open>
  What the derive macro \<open>ValueEnum\<close> (\<open>src/macros/src/value_enum/mod.rs\<close>) generates besides the
  implementations of \<open>Value\<close>: for every variant a conversion from its inner type and one back to an
  option, here a record of both with the type key and the codec of the inner type. The locale
  \<open>value_variant_conv\<close> is what the conversions promise; every variant has an interpretation.
\<close>

section \<open>Conversions\<close>

record 'i variant_impl =
  vi_key :: u8
  vi_make :: "'i \<Rightarrow> value_type"
  vi_match :: "value_type \<Rightarrow> 'i option"
  vi_read :: "'i decoder"

definition string_variant :: "u8 list variant_impl" where
  "string_variant = \<lparr>vi_key = 12, vi_make = VString, vi_match = (\<lambda>v. case v of VString x \<Rightarrow> Some x | _ \<Rightarrow> None),
     vi_read = read_string\<rparr>"

definition bytes_variant :: "u8 list variant_impl" where
  "bytes_variant = \<lparr>vi_key = 11, vi_make = VBytes, vi_match = (\<lambda>v. case v of VBytes x \<Rightarrow> Some x | _ \<Rightarrow> None),
     vi_read = read_vec read_num\<rparr>"

definition bool_variant :: "bool variant_impl" where
  "bool_variant = \<lparr>vi_key = 10, vi_make = VBool, vi_match = (\<lambda>v. case v of VBool x \<Rightarrow> Some x | _ \<Rightarrow> None),
     vi_read = read_bool\<rparr>"

definition u8_variant :: "u8 variant_impl" where
  "u8_variant = \<lparr>vi_key = 0, vi_make = VU8, vi_match = (\<lambda>v. case v of VU8 x \<Rightarrow> Some x | _ \<Rightarrow> None), vi_read = read_num\<rparr>"

definition u16_variant :: "u16 variant_impl" where
  "u16_variant = \<lparr>vi_key = 1, vi_make = VU16, vi_match = (\<lambda>v. case v of VU16 x \<Rightarrow> Some x | _ \<Rightarrow> None), vi_read = read_num\<rparr>"

definition u32_variant :: "u32 variant_impl" where
  "u32_variant = \<lparr>vi_key = 2, vi_make = VU32, vi_match = (\<lambda>v. case v of VU32 x \<Rightarrow> Some x | _ \<Rightarrow> None), vi_read = read_num\<rparr>"

definition u64_variant :: "u64 variant_impl" where
  "u64_variant = \<lparr>vi_key = 3, vi_make = VU64, vi_match = (\<lambda>v. case v of VU64 x \<Rightarrow> Some x | _ \<Rightarrow> None), vi_read = read_num\<rparr>"

definition i8_variant :: "i8 variant_impl" where
  "i8_variant = \<lparr>vi_key = 4, vi_make = VI8, vi_match = (\<lambda>v. case v of VI8 x \<Rightarrow> Some x | _ \<Rightarrow> None), vi_read = read_num\<rparr>"

definition i16_variant :: "i16 variant_impl" where
  "i16_variant = \<lparr>vi_key = 5, vi_make = VI16, vi_match = (\<lambda>v. case v of VI16 x \<Rightarrow> Some x | _ \<Rightarrow> None), vi_read = read_num\<rparr>"

definition i32_variant :: "i32 variant_impl" where
  "i32_variant = \<lparr>vi_key = 6, vi_make = VI32, vi_match = (\<lambda>v. case v of VI32 x \<Rightarrow> Some x | _ \<Rightarrow> None), vi_read = read_num\<rparr>"

definition i64_variant :: "i64 variant_impl" where
  "i64_variant = \<lparr>vi_key = 7, vi_make = VI64, vi_match = (\<lambda>v. case v of VI64 x \<Rightarrow> Some x | _ \<Rightarrow> None), vi_read = read_num\<rparr>"

definition f32_variant :: "f32 variant_impl" where
  "f32_variant = \<lparr>vi_key = 8, vi_make = VF32, vi_match = (\<lambda>v. case v of VF32 x \<Rightarrow> Some x | _ \<Rightarrow> None), vi_read = read_num\<rparr>"

definition f64_variant :: "f64 variant_impl" where
  "f64_variant = \<lparr>vi_key = 9, vi_make = VF64, vi_match = (\<lambda>v. case v of VF64 x \<Rightarrow> Some x | _ \<Rightarrow> None), vi_read = read_num\<rparr>"

definition date_variant :: "raw_date variant_impl" where
  "date_variant = \<lparr>vi_key = 13, vi_make = VDate, vi_match = (\<lambda>v. case v of VDate x \<Rightarrow> Some x | _ \<Rightarrow> None),
     vi_read = read_raw_date\<rparr>"

definition time_variant :: "raw_time variant_impl" where
  "time_variant = \<lparr>vi_key = 14, vi_make = VTime, vi_match = (\<lambda>v. case v of VTime x \<Rightarrow> Some x | _ \<Rightarrow> None),
     vi_read = read_raw_time\<rparr>"

definition date_time_variant :: "raw_date_time variant_impl" where
  "date_time_variant = \<lparr>vi_key = 16, vi_make = VRawDateTime,
     vi_match = (\<lambda>v. case v of VRawDateTime x \<Rightarrow> Some x | _ \<Rightarrow> None), vi_read = read_raw_date_time\<rparr>"

definition uuid_variant :: "u8 list variant_impl" where
  "uuid_variant = \<lparr>vi_key = 17, vi_make = VUuid, vi_match = (\<lambda>v. case v of VUuid x \<Rightarrow> Some x | _ \<Rightarrow> None),
     vi_read = read_uuid\<rparr>"

lemmas variant_defs =
  string_variant_def bytes_variant_def bool_variant_def u8_variant_def u16_variant_def u32_variant_def
  u64_variant_def i8_variant_def i16_variant_def i32_variant_def i64_variant_def f32_variant_def f64_variant_def
  date_variant_def time_variant_def date_time_variant_def uuid_variant_def

section \<open>What the conversions promise\<close>

locale value_variant_conv =
  fixes V :: "'i variant_impl" and wt :: "('i, 'w) encoder"
  assumes match_iff: "vi_match V v = Some x \<longleftrightarrow> v = vi_make V x"
    and key: "value_key (vi_make V x) = vi_key V"
    and inner: "write_inner wr (vi_make V x) w = wt wr x w"
begin

lemma match_make [simp]: "vi_match V (vi_make V x) = Some x"
  by (simp add: match_iff)

lemma match_None: "vi_match V v = None \<longleftrightarrow> (\<forall>x. v \<noteq> vi_make V x)"
  using match_iff by (metis not_Some_eq)

text \<open>An inner value written with its type is the converted value written.\<close>

lemma with_type: "write_with_type (vi_key V) wt wr x w = write_value wr (vi_make V x) w"
  by (simp add: write_with_type_def write_value_def key inner)

end

interpretation string_v: value_variant_conv string_variant write_string
  by unfold_locales (auto simp: string_variant_def split: value_type.splits)

interpretation bytes_v: value_variant_conv bytes_variant "write_vec write_num"
  by unfold_locales (auto simp: bytes_variant_def split: value_type.splits)

interpretation bool_v: value_variant_conv bool_variant write_bool
  by unfold_locales (auto simp: bool_variant_def split: value_type.splits)

interpretation u8_v: value_variant_conv u8_variant write_num
  by unfold_locales (auto simp: u8_variant_def split: value_type.splits)

interpretation u16_v: value_variant_conv u16_variant write_num
  by unfold_locales (auto simp: u16_variant_def split: value_type.splits)

interpretation u32_v: value_variant_conv u32_variant write_num
  by unfold_locales (auto simp: u32_variant_def split: value_type.splits)

interpretation u64_v: value_variant_conv u64_variant write_num
  by unfold_locales (auto simp: u64_variant_def split: value_type.splits)

interpretation i8_v: value_variant_conv i8_variant write_num
  by unfold_locales (auto simp: i8_variant_def split: value_type.splits)

interpretation i16_v: value_variant_conv i16_variant write_num
  by unfold_locales (auto simp: i16_variant_def split: value_type.splits)

interpretation i32_v: value_variant_conv i32_variant write_num
  by unfold_locales (auto simp: i32_variant_def split: value_type.splits)

interpretation i64_v: value_variant_conv i64_variant write_num
  by unfold_locales (auto simp: i64_variant_def split: value_type.splits)

interpretation f32_v: value_variant_conv f32_variant write_num
  by unfold_locales (auto simp: f32_variant_def split: value_type.splits)

interpretation f64_v: value_variant_conv f64_variant write_num
  by unfold_locales (auto simp: f64_variant_def split: value_type.splits)

interpretation date_v: value_variant_conv date_variant write_raw_date
  by unfold_locales (auto simp: date_variant_def split: value_type.splits)

interpretation time_v: value_variant_conv time_variant write_raw_time
  by unfold_locales (auto simp: time_variant_def split: value_type.splits)

interpretation date_time_v: value_variant_conv date_time_variant write_raw_date_time
  by unfold_locales (auto simp: date_time_variant_def split: value_type.splits)

interpretation uuid_v: value_variant_conv uuid_variant write_uuid
  by unfold_locales (auto simp: uuid_variant_def split: value_type.splits)

section \<open>Exactly one conversion\<close>

text \<open>The type keys of the inner types a value converts to.\<close>

definition matching_variants :: "value_type \<Rightarrow> u8 list" where
  "matching_variants v = concat
     [if vi_match string_variant v = None then [] else [vi_key string_variant],
      if vi_match bytes_variant v = None then [] else [vi_key bytes_variant],
      if vi_match bool_variant v = None then [] else [vi_key bool_variant],
      if vi_match u8_variant v = None then [] else [vi_key u8_variant],
      if vi_match u16_variant v = None then [] else [vi_key u16_variant],
      if vi_match u32_variant v = None then [] else [vi_key u32_variant],
      if vi_match u64_variant v = None then [] else [vi_key u64_variant],
      if vi_match i8_variant v = None then [] else [vi_key i8_variant],
      if vi_match i16_variant v = None then [] else [vi_key i16_variant],
      if vi_match i32_variant v = None then [] else [vi_key i32_variant],
      if vi_match i64_variant v = None then [] else [vi_key i64_variant],
      if vi_match f32_variant v = None then [] else [vi_key f32_variant],
      if vi_match f64_variant v = None then [] else [vi_key f64_variant],
      if vi_match date_variant v = None then [] else [vi_key date_variant],
      if vi_match time_variant v = None then [] else [vi_key time_variant],
      if vi_match date_time_variant v = None then [] else [vi_key date_time_variant],
      if vi_match uuid_variant v = None then [] else [vi_key uuid_variant]]"

text \<open>The conversions. A value converts back to exactly one of the inner types, to the one it was made
  from and with the same content; and writing an inner value behind the type key of its type is
  writing the value made from it, on any sink.\<close>

theorem conversions_exact:
  "matching_variants v = [value_key v]
   \<and> vi_match string_variant (vi_make string_variant s) = Some s
   \<and> write_with_type (vi_key string_variant) write_string wr s w = write_value wr (vi_make string_variant s) w
   \<and> vi_match bytes_variant (vi_make bytes_variant b) = Some b
   \<and> write_with_type (vi_key bytes_variant) (write_vec write_num) wr b w = write_value wr (vi_make bytes_variant b) w
   \<and> vi_match bool_variant (vi_make bool_variant t) = Some t
   \<and> write_with_type (vi_key bool_variant) write_bool wr t w = write_value wr (vi_make bool_variant t) w
   \<and> vi_match u64_variant (vi_make u64_variant n) = Some n
   \<and> write_with_type (vi_key u64_variant) write_num wr n w = write_value wr (vi_make u64_variant n) w
   \<and> vi_match date_time_variant (vi_make date_time_variant d) = Some d
   \<and> write_with_type (vi_key date_time_variant) write_raw_date_time wr d w = write_value wr (vi_make date_time_variant d) w
   \<and> vi_match uuid_variant (vi_make uuid_variant u) = Some u
   \<and> write_with_type (vi_key uuid_variant) write_uuid wr u w = write_value wr (vi_make uuid_variant u) w"
proof (intro conjI)
  show "matching_variants v = [value_key v]" by (cases v) (simp_all add: matching_variants_def variant_defs)
qed (simp_all add: string_v.with_type bytes_v.with_type bool_v.with_type u64_v.with_type date_time_v.with_type
      uuid_v.with_type)

end
