(* ===== verification/TestHarness.thy ===== *)
theory TestHarness
  imports Handles Updates Compression CodecTests
begin

text \<open>
  What the tests of the file layer (\<open>src/src/fs/mod.rs\<close>) are made of: \<open>unwrap\<close> on the outcome of a
  call, methods called on a local variable, assertions, the calls of \<open>std::fs\<close> that only the tests
  make, and the scratch directory.
\<close>

section \<open>Programs over local variables\<close>

text \<open>
  A call whose result is unwrapped, one whose result is kept, and a method on a local variable, which
  returns the variable as it is afterwards.
\<close>

definition st_unwrap :: "('s, 'a, 'e) st \<Rightarrow> ('s, 'a, 'f) st" where
  "st_unwrap m s = (case m s of (r, s') \<Rightarrow> (unwrap r, s'))"

definition attempt :: "('s, 'a, 'e) st \<Rightarrow> ('s, ('a, 'e) res, 'f) st" where
  "attempt m s = (case m s of (Panic, s') \<Rightarrow> (Panic, s') | (r, s') \<Rightarrow> (Ok r, s'))"

definition outcome_of :: "('o \<times> 'w, 'a, 'e) st \<Rightarrow> 'o \<Rightarrow> ('w, ('a, 'e) res \<times> 'o, 'f) st" where
  "outcome_of m ob w = (case m (ob, w) of (Panic, (ob', w')) \<Rightarrow> (Panic, w') | (r, (ob', w')) \<Rightarrow> (Ok (r, ob'), w'))"

definition call :: "('o \<times> 'w, 'a, 'e) st \<Rightarrow> 'o \<Rightarrow> ('w, 'a \<times> 'o, 'f) st" where
  "call m ob = st_bind (outcome_of m ob) (\<lambda>(r, ob). st_bind (st_lift (unwrap r)) (\<lambda>a. st_lift (Ok (a, ob))))"

definition check :: "bool \<Rightarrow> ('s, unit, 'f) st" where
  "check b = st_lift (assert_that b)"

abbreviation succeeds :: "('s, 'a, 'e) st \<Rightarrow> ('a \<Rightarrow> 's \<Rightarrow> bool) \<Rightarrow> 's \<Rightarrow> bool" where
  "succeeds m Q s \<equiv> wp m Q (\<lambda>_ _. False) s"

named_theorems runs

lemma succeeds_bind [runs]: "succeeds (st_bind m f) Q s \<longleftrightarrow> succeeds m (\<lambda>a. succeeds (f a) Q) s"
  by (rule wp_bind)

lemma succeeds_unwrap [runs]: "succeeds (st_unwrap m) Q s \<longleftrightarrow> succeeds m Q s"
  by (auto simp: wp_def st_unwrap_def split: prod.splits res.splits)

lemma succeeds_attempt [runs]:
  "succeeds (attempt m) Q s \<longleftrightarrow>
     wp m (\<lambda>a. Q (Ok a)) (\<lambda>e s. case e of Some e \<Rightarrow> Q (Err e) s | None \<Rightarrow> False) s"
  by (auto simp: wp_def attempt_def split: prod.splits res.splits)

lemma succeeds_outcome [runs]:
  "succeeds (outcome_of m ob) Q w \<longleftrightarrow>
     wp m (\<lambda>a s. Q (Ok a, fst s) (snd s)) (\<lambda>e s. case e of Some e \<Rightarrow> Q (Err e, fst s) (snd s) | None \<Rightarrow> False) (ob, w)"
  by (auto simp: wp_def outcome_of_def split: prod.splits res.splits)

lemma succeeds_call [runs]: "succeeds (call m ob) Q w \<longleftrightarrow> succeeds m (\<lambda>a s. Q (a, fst s) (snd s)) (ob, w)"
  unfolding call_def succeeds_bind succeeds_outcome
  by (auto simp: wp_def st_lift_def st_bind_def split: prod.splits res.splits)

lemma succeeds_check [runs]: "succeeds (check b) Q s \<longleftrightarrow> b \<and> Q () s"
  by (simp add: check_def assert_that_def)

lemma succeedsI: "wp m Q' R s \<Longrightarrow> (\<And>e s'. \<not> R e s') \<Longrightarrow> (\<And>a s'. Q' a s' \<Longrightarrow> Q a s') \<Longrightarrow> succeeds m Q s"
  by (erule wp_conseq) auto

section \<open>Calls only the tests make\<close>

definition sys_stat :: "'x os_scheme \<Rightarrow> path \<Rightarrow> (world, bool, io_kind) st" where
  "sys_stat E p = syscall E (\<lambda>_ w.
     (if p \<in> set (w_dirs w) then Ok True else if w_names w p \<noteq> None then Ok False else Err NotFound, w))"

text \<open>\<open>Path::exists\<close>, which takes every failure for absence, and \<open>Path::is_dir\<close>.\<close>

definition path_exists :: "'x os_scheme \<Rightarrow> path \<Rightarrow> (world, bool, 'f) st" where
  "path_exists E p w = (case sys_stat E p w of (Ok _, w') \<Rightarrow> (Ok True, w') | (_, w') \<Rightarrow> (Ok False, w'))"

definition path_is_dir :: "'x os_scheme \<Rightarrow> path \<Rightarrow> (world, bool, 'f) st" where
  "path_is_dir E p w = (case sys_stat E p w of (Ok d, w') \<Rightarrow> (Ok d, w') | (_, w') \<Rightarrow> (Ok False, w'))"

definition sys_mkdir :: "'x os_scheme \<Rightarrow> path \<Rightarrow> (world, unit, io_kind) st" where
  "sys_mkdir E p = syscall E (\<lambda>_ w.
     (if w_names w p \<noteq> None \<or> p \<in> set (w_dirs w) then (Err AlreadyExists, w)
      else if butlast p \<notin> set (w_dirs w) then (Err NotFound, w)
      else (Ok (), w\<lparr>w_dirs := p # w_dirs w\<rparr>)))"

text \<open>\<open>create_dir_all\<close>, on the components of the path from the last to the first.\<close>

fun create_dir_all :: "'x os_scheme \<Rightarrow> string list \<Rightarrow> (world, unit, io_kind) st" where
  "create_dir_all E [] = st_lift (Ok ())"
| "create_dir_all E (x # parents) =
     (let p = rev (x # parents);
          unless_dir = (\<lambda>k. st_bind (path_is_dir E p) (\<lambda>d. st_lift (if d then Ok () else Err k)))
      in (\<lambda>w. case sys_mkdir E p w of
           (Ok _, w') \<Rightarrow> (Ok (), w')
         | (Panic, w') \<Rightarrow> (Panic, w')
         | (Err k, w') \<Rightarrow>
             if k \<noteq> NotFound then unless_dir k w'
             else st_bind (create_dir_all E parents) (\<lambda>_ w. case sys_mkdir E p w of
                    (Ok _, w') \<Rightarrow> (Ok (), w')
                  | (Panic, w') \<Rightarrow> (Panic, w')
                  | (Err k, w') \<Rightarrow> unless_dir k w') w'))"

text \<open>\<open>remove_dir_all\<close> and \<open>std::fs::read\<close>, each as one call.\<close>

definition below :: "path \<Rightarrow> path \<Rightarrow> bool" where
  "below dir q \<longleftrightarrow> take (length dir) q = dir"

definition sys_remove_dir_all :: "'x os_scheme \<Rightarrow> path \<Rightarrow> (world, unit, io_kind) st" where
  "sys_remove_dir_all E dir = syscall E (\<lambda>_ w.
     (if dir \<notin> set (w_dirs w) then (Err NotFound, w)
      else (Ok (), w\<lparr>w_names := (\<lambda>q. if below dir q then None else w_names w q),
                     w_dirs := filter (\<lambda>q. \<not> below dir q) (w_dirs w)\<rparr>)))"

definition sys_read_file :: "'x os_scheme \<Rightarrow> path \<Rightarrow> (world, u8 list, io_kind) st" where
  "sys_read_file E p = syscall E (\<lambda>_ w.
     (case w_names w p of None \<Rightarrow> Err NotFound | Some i \<Rightarrow> Ok (w_data w i), w))"

text \<open>The names in a directory, files and directories alike.\<close>

definition sys_read_dir :: "'x os_scheme \<Rightarrow> path \<Rightarrow> (world, string set, io_kind) st" where
  "sys_read_dir E dir = syscall E (\<lambda>_ w.
     (if dir \<notin> set (w_dirs w) then Err NotFound
      else Ok {x. w_names w (dir @ [x]) \<noteq> None \<or> dir @ [x] \<in> set (w_dirs w)}, w))"

section \<open>The scratch directory\<close>

text \<open>
  What the tests get from outside: where temporary directories go, the time at which the directory is
  made, and the header names of the crate \<open>http\<close>.
\<close>

record 'hn test_consts =
  temp_root :: path
  nanos :: nat
  CONTENT_TYPE :: 'hn
  LAST_MODIFIED :: 'hn
  ETAG :: 'hn
  CACHE_CONTROL :: 'hn
  CONTENT_DISPOSITION :: 'hn

definition temp_dir_path :: "'hn env \<Rightarrow> 'hn test_consts \<Rightarrow> string \<Rightarrow> path" where
  "temp_dir_path E K name =
     temp_root K @ [''tux-io-encoding-fs-'' @ name @ ''-'' @ decimal (process_id E) @ ''-'' @ decimal (nanos K)]"

definition new_dir :: "'x os_scheme \<Rightarrow> path \<Rightarrow> (world, path, 'f) st" where
  "new_dir E path = st_bind (st_unwrap (create_dir_all E (rev path))) (\<lambda>_. st_lift (Ok path))"

definition temp_dir_new :: "'hn env \<Rightarrow> 'hn test_consts \<Rightarrow> string \<Rightarrow> (world, path, 'f) st" where
  "temp_dir_new E K name = new_dir E (temp_dir_path E K name)"

definition temp_dir_drop :: "'hn env \<Rightarrow> path \<Rightarrow> world \<Rightarrow> world" where
  "temp_dir_drop E dir w = snd (sys_remove_dir_all E dir w)"

text \<open>A test: the directory is removed however the rest ends.\<close>

definition in_temp_dir :: "'hn env \<Rightarrow> 'hn test_consts \<Rightarrow> string \<Rightarrow> (path \<Rightarrow> (world, unit, 'f) st) \<Rightarrow> (world, unit, 'f) st" where
  "in_temp_dir E K name body =
     st_bind (temp_dir_new E K name) (\<lambda>dir w. case body dir w of (r, w') \<Rightarrow> (r, temp_dir_drop E dir w'))"

end
