(* ===== verification/ScratchRuns.thy ===== *)
theory ScratchRuns
  imports TestHarness
begin

text \<open>
  One rule for each operation of the file layer, for running it in a scratch directory when no call
  fails: what must hold before, and what holds of the directory and of the local variables after. The
  rules are in the form in which a step of a longer program uses them: the rest of the program is to
  succeed from every state that the operation can leave.
\<close>

section \<open>States of a scratch directory\<close>

text \<open>
  The directory \<open>dir\<close> was made in the world \<open>w0\<close>, where nothing had a name in it; the paths in \<open>P\<close> are
  its files; everything else shows what it showed in \<open>w0\<close>.
\<close>

definition unused :: "path \<Rightarrow> world \<Rightarrow> bool" where
  "unused dir w \<longleftrightarrow> (\<forall>q. below dir q \<longrightarrow> w_names w q = None \<and> q \<notin> set (w_dirs w))"

definition scratch :: "world \<Rightarrow> path \<Rightarrow> path set \<Rightarrow> world \<Rightarrow> bool" where
  "scratch w0 dir P w \<longleftrightarrow> unused dir w0 \<and> world_ok w \<and> w_dirs w = dir # w_dirs w0 \<and>
     (\<forall>q. q \<notin> P \<longrightarrow> view_of w q = view_of w0 q) \<and> (\<forall>q \<in> P. view_of w q \<noteq> None)"

text \<open>A path in the directory that no temporary file can have.\<close>

definition lasting :: "path \<Rightarrow> path set" where
  "lasting dir = {q. \<not> temporary q \<and> (\<exists>x. q = dir @ [x])}"

lemma below_append [simp]: "below dir (dir @ xs)"
  by (simp add: below_def)

lemma scratch_names:
  assumes "scratch w0 dir P w" and "q \<notin> P" and "below dir q"
  shows "w_names w q = None"
proof -
  have "view_of w q = view_of w0 q" "w_names w0 q = None" using assms by (auto simp: scratch_def unused_def)
  then show ?thesis by (simp add: view_of_def split: option.splits)
qed

lemma scratch_dirs:
  assumes "scratch w0 dir P w"
  shows "dir \<in> set (w_dirs w)" and "dir @ [x] \<notin> set (w_dirs w)"
proof -
  have "below dir (dir @ [x])" by simp
  with assms show "dir @ [x] \<notin> set (w_dirs w)" unfolding scratch_def unused_def by auto
qed (use assms in \<open>simp add: scratch_def\<close>)

lemma scratch_name_free:
  assumes s: "scratch w0 dir P w" and P: "P \<subseteq> lasting dir"
  shows "name_free E (dir @ [x]) w"
proof -
  let ?tp = "temp_candidate E (dir @ [x]) (w_counter w)"
  have tp: "?tp = dir @ [last ?tp]" by (simp add: temp_candidate_def)
  moreover have "?tp \<notin> P" using P temp_candidate_temporary [of E "dir @ [x]"] by (auto simp: lasting_def)
  ultimately show ?thesis
    using scratch_names [OF s, of ?tp] scratch_dirs(2) [OF s, of "last ?tp"] below_append [of dir "[last ?tp]"]
    unfolding name_free_def Let_def by metis
qed

lemma scratch_same:
  assumes "scratch w0 dir P w" and "world_ok w'" and "w_dirs w' = w_dirs w" and "\<And>q. view_of w' q = view_of w q"
  shows "scratch w0 dir P w'"
  using assms by (simp add: scratch_def)

lemma scratch_tick [simp]: "scratch w0 dir P (tick w) = scratch w0 dir P w"
  by (simp add: scratch_def)

lemma scratch_frame:
  assumes "frame F {} w w'" and "scratch w0 dir P w"
  shows "scratch w0 dir P w'"
proof (rule scratch_same [OF assms(2)])
  show "world_ok w'" using assms(2) by (intro world_ok_frame [OF assms(1)]) (simp add: scratch_def)
  show "w_dirs w' = w_dirs w" by (rule frameD(2) [OF assms(1)])
  show "view_of w' q = view_of w q" for q by (rule frame_view [OF assms(1)]) simp
qed

text \<open>A step that shows something new only at paths that are or become files of the directory.\<close>

lemma scratch_step:
  assumes "scratch w0 dir P w" and "world_ok w'" and "w_dirs w' = w_dirs w"
    and "\<And>q. q \<notin> P' \<Longrightarrow> q \<in> P \<Longrightarrow> view_of w' q = view_of w0 q"
    and "\<And>q. q \<notin> P' \<Longrightarrow> q \<notin> P \<Longrightarrow> view_of w' q = view_of w q"
    and "\<And>q. q \<in> P' \<Longrightarrow> view_of w' q \<noteq> None"
  shows "scratch w0 dir P' w'"
  using assms unfolding scratch_def by metis

section \<open>A writer at work\<close>

text \<open>Contents of up to a terabyte, which fit behind every layout.\<close>

definition modest :: "u8 list \<Rightarrow> bool" where
  "modest content \<longleftrightarrow> length content \<le> 1099511627776"

lemma modest_room: "modest content \<Longrightarrow> unat (cs :: u32) + length content \<le> max_offset"
  using unat_u32_le [of cs] by (simp add: modest_def max_offset_def)

text \<open>A writer whatever its compression, up to its content.\<close>

definition pending :: "world \<Rightarrow> path \<Rightarrow> path set \<Rightarrow> path \<Rightarrow> nat \<Rightarrow> u8 list \<Rightarrow> 'hn object_writer \<Rightarrow> world \<Rightarrow> bool" where
  "pending w0 dir P tp i content ow w \<longleftrightarrow> P \<subseteq> lasting dir \<and> writer_at ow w tp i content \<and> temporary tp \<and>
     view_of w0 tp = None \<and> scratch w0 dir (insert tp P) w"

lemma pending_create_run:
  assumes R: "reliable E" and s: "scratch w0 dir P w" and P: "P \<subseteq> lasting dir" and p: "p \<in> lasting dir"
    and sup: "is_supported E (co_compression opts)"
    and l: "compute (co_layout opts) (metadata_size E (co_metadata opts)) (tag_block_size (co_tags opts)) = Ok l"
    and Q: "\<And>w' tp. pending w0 dir P tp (w_next w) [] (fresh_writer E p opts l tp (w_next_fd w)) w' \<Longrightarrow>
        Q (fresh_writer E p opts l tp (w_next_fd w)) w'"
  shows "succeeds (create_writer E p opts) Q w"
proof (rule succeedsI [OF create_writer_wp])
  from p obtain x where x: "p = dir @ [x]" by (auto simp: lasting_def)
  show "world_ok w" using s by (simp add: scratch_def)
  show "\<not> (not_created E p w w'
        \<and> (butlast p \<notin> set (w_dirs w) \<longrightarrow> e \<noteq> None \<or> usize_max < layout_demand (co_layout opts)
             (metadata_size E (co_metadata opts)) (tag_block_size (co_tags opts)))
        \<and> (reliable E \<and> butlast p \<in> set (w_dirs w) \<and> is_supported E (co_compression opts)
           \<and> (\<exists>l. compute (co_layout opts) (metadata_size E (co_metadata opts)) (tag_block_size (co_tags opts)) = Ok l)
           \<longrightarrow> e = Some (IO AlreadyExists) \<and> \<not> name_free E p w))" for e w'
    using R scratch_dirs(1) [OF s] scratch_name_free [OF s P] l sup by (auto simp: x)
  fix ow w'
  assume "\<exists>tp. created E p opts w ow w' tp"
  then obtain tp where c: "created E p opts w ow w' tp" ..
  then have ow: "ow = fresh_writer E p opts l tp (w_next_fd w)" using l by (auto simp: created_def)
  have at: "writer_at ow w' tp (w_next w) []" and tp: "temporary tp" "w_names w tp = None" and ok: "world_ok w'"
    and q: "quiet (- {tp}) w w'" and d: "w_dirs w' = w_dirs w" and n: "w_names w' tp = Some (w_next w)"
    using c by (simp_all add: created_def)
  have q': "view_of w' q = view_of w q" if "q \<noteq> tp" for q using q that by (simp add: quiet_def)
  have "view_of w' tp \<noteq> None" by (simp add: view_of_def n)
  then have "view_of w' q \<noteq> None" if "q \<in> insert tp P" for q
    using s q' [of q] that by (cases "q = tp") (simp_all add: scratch_def)
  then have "scratch w0 dir (insert tp P) w'"
    by (intro scratch_step [OF s ok d]) (use q' in auto)
  moreover have "tp \<notin> P" using tp(1) P by (auto simp: lasting_def)
  then have "view_of w0 tp = None" using s tp(2) by (auto simp: scratch_def view_of_def)
  ultimately show "Q ow w'" using at tp(1) P unfolding ow by (intro Q) (simp add: pending_def)
qed

text \<open>
  The writer of the path \<open>p\<close> for content that is not compressed, with the layout \<open>l\<close> computed under the
  options \<open>lo\<close>: its temporary file is the only file of the directory besides the finished ones, and its
  sections fit.
\<close>

definition writing ::
  "'hn env \<Rightarrow> world \<Rightarrow> path \<Rightarrow> path set \<Rightarrow> path \<Rightarrow> layout_options \<Rightarrow> section_layout \<Rightarrow> 'hn tags \<Rightarrow> u8 list tags \<Rightarrow> u8 list
     \<Rightarrow> 'hn object_writer \<Rightarrow> world \<Rightarrow> bool" where
  "writing E w0 dir P p lo l md t content ow w \<longleftrightarrow>
     (\<exists>tp i. pending w0 dir P tp i content ow w) \<and>
     p \<in> lasting dir \<and> wr_final_path ow = p \<and> wr_layout ow = l \<and> wr_layout_options ow = lo \<and>
     wr_metadata ow = md \<and> wr_tags ow = t \<and> sections_ok md t \<and> wr_compression ow = NoCompression \<and>
     wr_allow_raw_writes ow \<and> (\<exists>l'. finish_layout E ow = Ok (Some l'))"

lemma create_run:
  assumes R: "reliable E" and s: "scratch w0 dir P w" and P: "P \<subseteq> lasting dir" and p: "p \<in> lasting dir"
    and secs: "sections_ok (co_metadata opts) (co_tags opts)" and plain: "co_compression opts = NoCompression"
    and l: "compute (co_layout opts) (metadata_size E (co_metadata opts)) (tag_block_size (co_tags opts)) = Ok l"
    and Q: "\<And>ow w'. writing E w0 dir P p (co_layout opts) l (co_metadata opts) (co_tags opts) [] ow w' \<Longrightarrow> Q ow w'"
  shows "succeeds (create_writer E p opts) Q w"
proof (rule pending_create_run [OF R s P p _ l])
  have "\<exists>l'. finish_layout E (fresh_writer E p opts l tp fd) = Ok (Some l')" for tp fd
    using repartition_fits_again [OF l] by (auto simp: finish_layout_def fresh_writer_def)
  then show "Q (fresh_writer E p opts l tp (w_next_fd w)) w'"
    if "pending w0 dir P tp (w_next w) [] (fresh_writer E p opts l tp (w_next_fd w)) w'" for w' tp
    using that p secs plain by (intro Q) (auto simp: writing_def fresh_writer_def)
qed (simp add: plain is_supported_def)

lemma scratch_write:
  assumes fr: "frame F I w w'" and s: "scratch w0 dir P w" and I: "\<And>q i. i \<in> I \<Longrightarrow> w_names w q = Some i \<Longrightarrow> q \<in> P"
  shows "scratch w0 dir P w'"
proof (rule scratch_step [OF s])
  show "world_ok w'" using s by (intro world_ok_frame [OF fr]) (simp add: scratch_def)
  show "view_of w' q = view_of w q" if "q \<notin> P" for q by (rule frame_view [OF fr]) (use I that in blast)
  have "w_names w q \<noteq> None" if "q \<in> P" for q
    using s that by (auto simp: scratch_def view_of_def split: option.splits)
  then show "view_of w' q \<noteq> None" if "q \<in> P" for q
    using that frameD(1) [OF fr] by (auto simp: view_of_def split: option.splits)
qed (simp_all add: frameD(2) [OF fr])

lemma writing_same:
  assumes wr: "writing E w0 dir P p lo l md t content ow w" and fr: "frame F {i} w w'" and same: "same_writer ow ow'"
    and at: "writer_at ow w tp i content" and at': "writer_at ow' w' tp i content'"
  shows "writing E w0 dir P p lo l md t content' ow' w'"
proof -
  obtain tp0 j where pd: "pending w0 dir P tp0 j content ow w" using wr by (auto simp: writing_def)
  then have tp: "tp0 = tp" using at by (simp add: writer_at_def pending_def)
  then have "scratch w0 dir (insert tp P) w'"
    by (intro scratch_write [OF fr]) (use pd at in \<open>auto simp: writer_at_def pending_def\<close>)
  then have "pending w0 dir P tp i content' ow' w'" using pd at' by (simp add: pending_def tp)
  moreover have "finish_layout E ow' = finish_layout E ow"
    using same_writerD [OF same] by (simp add: finish_layout_def)
  ultimately show ?thesis using wr unfolding writing_def same_writerD [OF same] by metis
qed

lemma writingE:
  assumes "writing E w0 dir P p lo l md t content ow w"
  obtains tp i where "pending w0 dir P tp i content ow w" "writer_at ow w tp i content" "wr_allow_raw_writes ow"
  using assms by (auto simp: writing_def pending_def)

lemma write_run:
  assumes R: "reliable E" and wr: "writing E w0 dir P p lo l md t content ow w" and m: "modest (content @ bs)"
    and Q: "\<And>ow' w'. writing E w0 dir P p lo l md t (content @ bs) ow' w' \<Longrightarrow> same_writer ow ow' \<Longrightarrow> Q () (ow', w')"
  shows "succeeds (writer_write_all E bs) Q (ow, w)"
proof -
  obtain tp i where at: "writer_at ow w tp i content" and raw: "wr_allow_raw_writes ow" by (rule writingE [OF wr])
  show ?thesis
    by (rule succeedsI [OF writer_write_all_wp [OF at raw]])
       (use R modest_room [OF m, of "content_start (wr_layout ow)"] writing_same [OF wr _ _ at] in
          \<open>auto intro!: Q simp: not_less\<close>)
qed

lemma writing_length:
  assumes "writing E w0 dir P p lo l md t content ow w"
  shows "wr_content_length ow = of_nat (length content)"
proof -
  have "unat (wr_content_length ow) = length content" using assms by (auto simp: writing_def pending_def writer_at_def)
  then show ?thesis by (simp flip: \<open>unat (wr_content_length ow) = length content\<close>)
qed

lemma drop_pending:
  assumes R: "reliable E" and pd: "pending w0 dir P tp i content ow w"
  shows "scratch w0 dir P (drop_writer E ow w)"
proof -
  have at: "writer_at ow w tp i content" and tp: "temporary tp" and s: "scratch w0 dir (insert tp P) w"
    and tp0: "view_of w0 tp = None" and P: "P \<subseteq> lasting dir" using pd by (auto simp: pending_def)
  then have tmp: "wr_temp_path ow = Some tp" by (simp add: writer_at_def)
  have out: "tp \<notin> P" using tp P by (auto simp: lasting_def)
  have other: "view_of (drop_writer E ow w) q = view_of w q" if "q \<noteq> tp" for q
    using drop_writer_quiet [of ow "- {tp}" w E] that by (auto simp: quiet_def tmp)
  show ?thesis
  proof (rule scratch_step [OF s])
    show "world_ok (drop_writer E ow w)" using s by (intro world_ok_drop) (simp add: scratch_def)
    show "w_dirs (drop_writer E ow w) = w_dirs w" by (rule drop_writer_fields)
    show "view_of (drop_writer E ow w) q = view_of w0 q" if "q \<notin> P" "q \<in> insert tp P" for q
      using that drop_writer_removes [OF R tmp, of w] tp0 by (simp add: view_of_def)
    show "view_of (drop_writer E ow w) q = view_of w q" if "q \<notin> P" "q \<notin> insert tp P" for q
      using that by (intro other) simp
    show "view_of (drop_writer E ow w) q \<noteq> None" if "q \<in> P" for q
      using s other [of q] that out by (metis insertI2 scratch_def)
  qed
qed

lemma drop_run:
  assumes "reliable E" and "writing E w0 dir P p lo l md t content ow w"
  shows "scratch w0 dir P (drop_writer E ow w)"
  using writingE [OF assms(2)] drop_pending [OF assms(1)] by metis

lemma abort_run:
  assumes R: "reliable E" and wr: "writing E w0 dir P p lo l md t content ow w"
    and Q: "\<And>w'. scratch w0 dir P w' \<Longrightarrow> Q () w'"
  shows "succeeds (abort E ow) Q w"
proof -
  obtain tp where tmp: "wr_temp_path ow = Some tp" by (rule writingE [OF wr]) (auto simp: writer_at_def)
  obtain r w' where run: "sys_remove E tp w = (r, w')" by (metis surj_pair)
  have "abort E ow w = (Ok (), drop_writer E ow w)"
    using R run
    by (cases r) (auto simp: abort_def consume_def with_self_def tmp st_bind_def put_self_def on_world_def
        drop_writer_def sys_remove_def syscall_def reliable_def split: option.splits)
  then show ?thesis using Q [OF drop_run [OF R wr]] by (simp add: wp_def)
qed

section \<open>Objects in the directory\<close>

text \<open>
  The path \<open>p\<close> names a file of its own that holds an object; and a handle \<open>ob\<close> is open on an object
  with the path \<open>p\<close>, on the file that \<open>p\<close> names when \<open>sole\<close> holds.
\<close>

definition stored ::
  "'hn env \<Rightarrow> world \<Rightarrow> path \<Rightarrow> path set \<Rightarrow> path \<Rightarrow> object_header \<Rightarrow> 'hn tags \<Rightarrow> u8 list tags \<Rightarrow> u8 list \<Rightarrow> world \<Rightarrow> bool" where
  "stored E w0 dir P p h md t content w \<longleftrightarrow>
     scratch w0 dir P w \<and> P \<subseteq> lasting dir \<and> p \<in> P \<and> compression_type h = NoCompression \<and> modest content \<and>
     (\<exists>i. w_names w p = Some i \<and> holds_object E (w_data w i) h md t content \<and> (\<forall>q. w_names w q = Some i \<longrightarrow> q = p))"

definition opened ::
  "'hn env \<Rightarrow> world \<Rightarrow> path \<Rightarrow> path set \<Rightarrow> path \<Rightarrow> 'hn tags \<Rightarrow> u8 list tags \<Rightarrow> u8 list \<Rightarrow> 'hn tux_object \<Rightarrow> world \<Rightarrow> bool" where
  "opened E w0 dir P p md t content ob w \<longleftrightarrow>
     scratch w0 dir P w \<and> P \<subseteq> lasting dir \<and> p \<in> P \<and> object_at E ob w t content \<and> ob_path ob = p \<and>
     ob_metadata ob = md \<and> compression_type (ob_header ob) = NoCompression \<and> modest content"

definition sole :: "'hn tux_object \<Rightarrow> world \<Rightarrow> bool" where
  "sole ob w \<longleftrightarrow> (\<exists>f. w_open w (ob_file ob) = Some f \<and> (ob_writable ob \<longrightarrow> of_writable f) \<and>
     w_names w (ob_path ob) = Some (of_inode f) \<and> (\<forall>q. w_names w q = Some (of_inode f) \<longrightarrow> q = ob_path ob))"

text \<open>The header that a writer with the layout \<open>l\<close> gives an object once its tags start at \<open>ts\<close>.\<close>

definition plain_header :: "section_layout \<Rightarrow> u16 \<Rightarrow> u8 list \<Rightarrow> object_header" where
  "plain_header l ts content =
     \<lparr>version = 0, compression_type = NoCompression, h_tags_start = ts, h_content_start = content_start l,
      content_length = of_nat (length content), bit_flags = 0\<rparr>"

lemma finish_run:
  assumes H: "header_name_ok (header_names E)" and R: "reliable E"
    and wr: "writing E w0 dir P p lo l md t content ow w" and m: "modest content"
    and Q: "\<And>ob w' l'. (repartition (content_start l) (metadata_size E md) (tag_block_size t) (alignment lo)
          :: (section_layout option, object_file_error) res) = Ok (Some l') \<Longrightarrow>
        ob_header ob = plain_header l (tags_start l') content \<Longrightarrow> stored E w0 dir (insert p P) p (ob_header ob) md t content w' \<Longrightarrow>
        opened E w0 dir (insert p P) p md t content ob w' \<Longrightarrow> Q ob w'"
  shows "succeeds (finish E ow) Q w"
proof -
  obtain tp i where at: "writer_at ow w tp i content" and tp: "temporary tp" "view_of w0 tp = None"
    and s: "scratch w0 dir (insert tp P) w" and P': "P \<subseteq> lasting dir"
    using wr by (auto simp: writing_def pending_def)
  have P: "P \<subseteq> lasting dir" "p \<in> lasting dir" and f: "wr_final_path ow = p" "wr_layout ow = l" "wr_layout_options ow = lo"
      "wr_metadata ow = md" "wr_tags ow = t" "sections_ok md t" "wr_compression ow = NoCompression"
    and fit: "\<exists>l'. finish_layout E ow = Ok (Some l')"
    using wr P' by (simp_all add: writing_def)
  from fit obtain l' where l': "finish_layout E ow = Ok (Some l')" ..
  have ok: "world_ok w" and d: "p \<notin> set (w_dirs w)"
    using s P(2) scratch_dirs(2) [OF s] by (auto simp: scratch_def lasting_def)
  have tmp: "wr_temp_path ow = Some tp" "tp \<noteq> p" and only: "\<forall>q. w_names w q = Some i \<longrightarrow> q = tp"
    using at f by (simp_all add: writer_at_def)
  have secs: "sections_ok (wr_metadata ow) (wr_tags ow)" by (simp add: f)
  show ?thesis
  proof (rule succeedsI [OF finish_fits_wp [OF H ok at secs l']])
    fix ob w'
    assume "settled (wr_final_path ow) tp i (wr_file ow) w w' \<and> w_names w' tp = None
        \<and> atomic_update (wr_final_path ow) (complete_object E ow content) w w'
        \<and> finished_object E ow content ob w' \<and> h_content_start (ob_header ob) = content_start (wr_layout ow)
        \<and> ob_file ob = wr_file ow \<and> ob_header ob = finish_header ow l' \<and> w_names w' (wr_final_path ow) = Some i"
    then have st: "settled p tp i (wr_file ow) w w'" and gone: "w_names w' tp = None" and obj: "finished_object E ow content ob w'"
      and h: "ob_header ob = finish_header ow l'" and n: "w_names w' p = Some i" by (simp_all add: f)
    have "scratch w0 dir (insert p P) w'"
    proof (rule scratch_step [OF s])
      show "world_ok w'" "w_dirs w' = w_dirs w" using st by (simp_all add: settled_def)
      show "view_of w' q = view_of w0 q" if "q \<notin> insert p P" "q \<in> insert tp P" for q
        using that gone tp(2) by (simp add: view_of_def)
      show "view_of w' q = view_of w q" if "q \<notin> insert p P" "q \<notin> insert tp P" for q
        using that by (intro settled_view [OF st]) auto
      show "view_of w' q \<noteq> None" if "q \<in> insert p P" for q
      proof (cases "q = p")
        case False
        then have "q \<in> P" "q \<noteq> tp" using that tp(1) P(1) by (auto simp: lasting_def)
        then show ?thesis using settled_view [OF st False] s by (auto simp: scratch_def)
      qed (simp add: view_of_def n)
    qed
    moreover have "content_length (ob_header ob) = of_nat (length content)"
      using writing_length [OF wr] by (simp add: h finish_header_def build_header_def)
    then have hd: "ob_header ob = plain_header l (tags_start l') content"
      using repartition_Some(2) [OF l' [unfolded finish_layout_def]]
      by (simp add: h finish_header_def build_header_def plain_header_def f)
    moreover have only': "\<forall>q. w_names w' q = Some i \<longrightarrow> q = p"
    proof (intro allI impI)
      show "q = p" if "w_names w' q = Some i" for q
        using that st only gone n by (cases "q = tp") (auto simp: settled_def names_within_def)
    qed
    moreover have holds: "object_at E ob w' t content" "holds_object E (w_data w' i) (ob_header ob) md t content"
      and ob: "ob_path ob = p" "ob_metadata ob = md"
      using obj n unfolding finished_object_def object_at_def f by auto
    moreover have "compression_type (ob_header ob) = NoCompression" by (simp add: hd plain_header_def)
    ultimately have "stored E w0 dir (insert p P) p (ob_header ob) md t content w'"
      "opened E w0 dir (insert p P) p md t content ob w'"
      using n P m unfolding stored_def opened_def by blast+
    with hd l' show "Q ob w'" by (intro Q [of l']) (simp_all add: finish_layout_def f)
  qed (use R d in \<open>simp add: f\<close>)
qed

text \<open>Opening.\<close>

lemma opened_run:
  assumes H: "header_name_ok (header_names E)" and R: "reliable E" and st: "stored E w0 dir P p h md t content w"
    and Q: "\<And>ob w'. opened E w0 dir P p md t content ob w' \<Longrightarrow> sole ob w' \<Longrightarrow> ob_writable ob = wr \<Longrightarrow> ob_header ob = h \<Longrightarrow>
        stored E w0 dir P p h md t content w' \<Longrightarrow> Q ob w'"
  shows "succeeds (st_bind (st_map_err IO (sys_open E p wr)) (\<lambda>fd. from_file E fd p wr)) Q w"
proof -
  obtain i where n: "w_names w p = Some i" and holds: "holds_object E (w_data w i) h md t content"
    and only: "\<forall>q. w_names w q = Some i \<longrightarrow> q = p" and s: "scratch w0 dir P w"
    and rest: "P \<subseteq> lasting dir" "p \<in> P" "compression_type h = NoCompression" "modest content"
    using st unfolding stored_def by blast
  show ?thesis
  proof (rule succeedsI [OF open_wp [OF H n holds]])
    fix ob w'
    assume "same_files w w' \<and> ob = from_parts (w_next_fd w) p h md wr \<and> object_at E ob w' t content
        \<and> map_option (\<lambda>f. (of_inode f, of_writable f)) (w_open w' (ob_file ob)) = Some (i, wr)
        \<and> (world_ok w \<longrightarrow> world_ok w')"
    then have same: "same_files w w'" and ob: "ob = from_parts (w_next_fd w) p h md wr" and at: "object_at E ob w' t content"
      and f: "map_option (\<lambda>f. (of_inode f, of_writable f)) (w_open w' (ob_file ob)) = Some (i, wr)" and ok: "world_ok w'"
      using s unfolding scratch_def by blast+
    have view: "view_of w' q = view_of w q" for q using same by (auto simp: same_files_def view_of_def split: option.splits)
    have "scratch w0 dir P w'" using same by (intro scratch_same [OF s ok _ view]) (simp add: same_files_def)
    then have "opened E w0 dir P p md t content ob w'"
      using at rest unfolding opened_def by (simp add: ob from_parts_def)
    moreover obtain g where g: "w_open w' (ob_file ob) = Some g" "of_inode g = i" "of_writable g = wr" using f by blast
    then have "sole ob w'"
      using n only same unfolding sole_def same_files_def ob from_parts_def tux_object.simps by metis
    moreover have "stored E w0 dir P p h md t content w'"
      using \<open>scratch w0 dir P w'\<close> n holds only rest same unfolding stored_def same_files_def by metis
    ultimately show "Q ob w'" by (intro Q) (simp_all add: ob from_parts_def)
  qed (use R in simp)
qed

lemmas open_run = opened_run [where wr = False, folded open_object_def]
  and open_writable_run = opened_run [where wr = True, folded open_writable_def]

text \<open>Reading.\<close>

lemma opened_frame:
  assumes "frame {ob_file ob} {} w w'" and "opened E w0 dir P p md t content ob w"
  shows "opened E w0 dir P p md t content ob w'"
  using assms(2) scratch_frame [OF assms(1)] object_at_frame [OF assms(1)] by (simp add: opened_def)

lemma opened_at: "opened E w0 dir P p md t content ob w \<Longrightarrow> object_at E ob w t content"
  by (simp add: opened_def)

lemma tags_run:
  assumes H: "header_name_ok (header_names E)" and R: "reliable E" and o: "opened E w0 dir P p md t content ob w"
  shows "(\<And>w'. opened E w0 dir P p md t content ob w' \<Longrightarrow> Q t (ob, w')) \<Longrightarrow> succeeds (object_read_tags E) Q (ob, w)"
    and "(\<And>w'. opened E w0 dir P p md t content ob w' \<Longrightarrow> Q1 (of_nat (length t)) (ob, w')) \<Longrightarrow> succeeds (tag_count E) Q1 (ob, w)"
    and "(\<And>w'. opened E w0 dir P p md t content ob w' \<Longrightarrow> Q2 (tags_get t key) (ob, w')) \<Longrightarrow> succeeds (find_tag E key) Q2 (ob, w)"
proof -
  note T = object_tags_wp [OF H opened_at [OF o]] and fr = opened_frame [OF _ o]
  show "succeeds (object_read_tags E) Q (ob, w)" if "\<And>w'. opened E w0 dir P p md t content ob w' \<Longrightarrow> Q t (ob, w')"
    by (rule succeedsI [OF T(1)]) (use R fr that in auto)
  show "succeeds (tag_count E) Q1 (ob, w)" if "\<And>w'. opened E w0 dir P p md t content ob w' \<Longrightarrow> Q1 (of_nat (length t)) (ob, w')"
    by (rule succeedsI [OF T(2)]) (use R fr that in auto)
  show "succeeds (find_tag E key) Q2 (ob, w)" if "\<And>w'. opened E w0 dir P p md t content ob w' \<Longrightarrow> Q2 (tags_get t key) (ob, w')"
    by (rule succeedsI [OF T(3)]) (use R fr that in auto)
qed

lemma content_run:
  assumes H: "header_name_ok (header_names E)" and R: "reliable E" and o: "opened E w0 dir P p md t content ob w"
    and Q: "\<And>w'. opened E w0 dir P p md t content ob w' \<Longrightarrow> Q content (ob, w')"
  shows "succeeds (read_content_to_vec E) Q (ob, w)"
proof -
  have "length content \<le> max_offset" and ct: "compression_type (ob_header ob) = NoCompression"
    using o by (simp_all add: opened_def modest_def max_offset_def)
  then show ?thesis
    by (intro succeedsI [OF read_content_wp [OF H opened_at [OF o]]])
       (use R opened_frame [OF _ o] Q in \<open>auto simp: decoded_content_def split: option.splits\<close>)
qed

definition reads :: "content_reader \<Rightarrow> u8 list \<Rightarrow> 'hn tux_object \<Rightarrow> world \<Rightarrow> bool" where
  "reads r bs ob w \<longleftrightarrow> cr_file r = ob_file ob \<and> (\<exists>f. w_open w (ob_file ob) = Some f \<and>
     bs = take (unat (remaining r)) (drop (of_pos f) (w_data w (of_inode f))))"

lemma range_run:
  assumes H: "header_name_ok (header_names E)" and R: "reliable E" and o: "opened E w0 dir P p md t content ob w"
  shows "window content offset len = Some bs \<Longrightarrow>
      (\<And>r w'. opened E w0 dir P p md t content ob w' \<Longrightarrow> reads r bs ob w' \<Longrightarrow> Q r (ob, w')) \<Longrightarrow>
      wp (content_range_reader E offset len) Q F (ob, w)"
    and "window content offset len = None \<Longrightarrow>
      (\<And>bound w'. opened E w0 dir P p md t content ob w' \<Longrightarrow>
         F (Some (RangeOutOfBounds offset bound (of_nat (length content)))) (ob, w')) \<Longrightarrow>
      wp (content_range_reader E offset len) Q F (ob, w)"
proof -
  have plain: "\<not> is_compressed ob" and m: "modest content" using o by (simp_all add: opened_def is_compressed_def)
  note T = content_range_reader_wp [OF H opened_at [OF o] plain modest_room [OF m], of offset len]
  show "wp (content_range_reader E offset len) Q F (ob, w)" if "window content offset len = Some bs"
    "\<And>r w'. opened E w0 dir P p md t content ob w' \<Longrightarrow> reads r bs ob w' \<Longrightarrow> Q r (ob, w')"
    by (rule wp_conseq [OF T]) (use R opened_frame [OF _ o] that in \<open>auto simp: reads_def\<close>)
  show "wp (content_range_reader E offset len) Q F (ob, w)" if "window content offset len = None"
    "\<And>bound w'. opened E w0 dir P p md t content ob w' \<Longrightarrow> F (Some (RangeOutOfBounds offset bound (of_nat (length content)))) (ob, w')"
    by (rule wp_conseq [OF T]) (use opened_frame [OF _ o] that in auto)
qed

lemma read_end_run:
  assumes R: "reliable E" and o: "opened E w0 dir P p md t content ob w" and r: "reads r bs ob w"
    and Q: "\<And>w'. opened E w0 dir P p md t content ob w' \<Longrightarrow> Q bs w'"
  shows "succeeds (with_reader r (content_read_to_end E)) Q w"
proof -
  from r obtain f where f: "w_open w (cr_file r) = Some f" "cr_file r = ob_file ob"
    and bs: "bs = take (unat (remaining r)) (drop (of_pos f) (w_data w (of_inode f)))"
    by (auto simp: reads_def)
  show ?thesis
    unfolding with_reader_wp
    by (rule succeedsI [OF content_read_to_end_wp [OF f(1)]]) (use R opened_frame [OF _ o] f(2) bs Q in auto)
qed

section \<open>Layouts of small sections\<close>

text \<open>Options that leave the header fields far from their limits always give a layout, and not a distant one.\<close>

lemma compute_modest:
  assumes small: "HEADER_SIZE + ms + metadata_reserve opts + max (alignment opts) 1 \<le> 65535"
    and room: "ts + tag_reserve opts + max (alignment opts) 1 \<le> 2000000000"
    and floor: "unat (min_content_start opts) + max (alignment opts) 1 \<le> 4294967295"
  obtains l where "compute opts ms ts = Ok l" "layout_fits l ms ts" "unat (min_content_start opts) \<le> unat (content_start l)"
    and "unat (content_start l) \<le> max (65535 + ts + tag_reserve opts + max (alignment opts) 1)
           (unat (min_content_start opts) + max (alignment opts) 1)"
proof (rule compute_cases [of opts ms ts])
  fix l
  assume r: "reused opts ms ts = Ok (Some l)" and c: "compute opts ms ts = Ok l"
  then show thesis using repartition_Some(1,2) [OF r] by (intro that [OF c]) simp_all
next
  assume "compute opts ms ts = Panic"
  from compute_overflow [OF this] show thesis using small room floor by (simp add: layout_demand_def usize_max_def HEADER_SIZE_def)
next
  assume fresh: "min_content_start opts = 0 \<or> reused opts ms ts = Ok None"
  let ?al = "alignment opts"
  define b where "b = aligned (HEADER_SIZE + ms + metadata_reserve opts) ?al"
  define f where "f = aligned (b + ts + tag_reserve opts) ?al"
  define g where "g = aligned (unat (min_content_start opts)) ?al"
  have bounds: "b \<le> 65535" "f < b + ts + tag_reserve opts + max ?al 1" "g < unat (min_content_start opts) + max ?al 1"
    using aligned_less [of "HEADER_SIZE + ms + metadata_reserve opts" ?al] aligned_less [of "b + ts + tag_reserve opts" ?al]
      aligned_less [of "unat (min_content_start opts)" ?al] small by (simp_all add: b_def f_def g_def)
  then have c: "compute opts ms ts = Ok \<lparr>tags_start = of_nat b, content_start = of_nat (max f g)\<rparr>"
    using room floor unfolding compute_fresh_eq [OF fresh] Let_def b_def [symmetric] f_def [symmetric] g_def [symmetric]
    by (simp add: usize_max_def)
  have cs: "unat (of_nat (max f g) :: u32) = max f g"
    using bounds room floor by (intro unat_u32_of_nat) linarith
  have "max f g \<le> max (65535 + ts + tag_reserve opts + max ?al 1) (unat (min_content_start opts) + max ?al 1)"
    by (rule max.mono) (use bounds in linarith)+
  then show thesis
    using compute_result [where opts = opts and ms = ms and ts = ts]
    unfolding c res.case by (intro that [OF c]) (simp_all only: cs section_layout.simps)
qed

text \<open>The same for the two kinds of options the tests use.\<close>

lemma default_layout:
  assumes "ms \<le> 30000" and "ts \<le> 1000000000" and "unat m \<le> 2000000000"
  obtains l where "compute (layout_default\<lparr>min_content_start := m\<rparr>) ms ts = Ok l" "layout_fits l ms ts"
    and "unat m \<le> unat (content_start l)" "unat (content_start l) \<le> max (65823 + ts) (unat m + 32)"
proof (rule compute_modest [of ms "layout_default\<lparr>min_content_start := m\<rparr>" ts])
  fix l
  assume "compute (layout_default\<lparr>min_content_start := m\<rparr>) ms ts = Ok l" "layout_fits l ms ts"
    "unat (min_content_start (layout_default\<lparr>min_content_start := m\<rparr>)) \<le> unat (content_start l)"
    "unat (content_start l) \<le> max (65535 + ts + tag_reserve (layout_default\<lparr>min_content_start := m\<rparr>)
        + max (alignment (layout_default\<lparr>min_content_start := m\<rparr>)) 1)
      (unat (min_content_start (layout_default\<lparr>min_content_start := m\<rparr>)) + max (alignment (layout_default\<lparr>min_content_start := m\<rparr>)) 1)"
  then show thesis
    using assms by (intro that) (simp_all add: layout_default_def DEFAULT_TAG_RESERVE_def DEFAULT_ALIGNMENT_def)
qed (use assms in \<open>simp_all add: layout_default_def DEFAULT_METADATA_RESERVE_def DEFAULT_TAG_RESERVE_def DEFAULT_ALIGNMENT_def
       HEADER_SIZE_def\<close>)

lemma layout_default_0: "layout_default\<lparr>min_content_start := 0\<rparr> = layout_default"
  by (simp add: layout_default_def)

lemma packed_layout:
  assumes "ms \<le> 30000" and "ts \<le> 30000"
  shows "compute layout_packed ms ts = Ok \<lparr>tags_start = of_nat (32 + ms), content_start = of_nat (32 + ms + ts)\<rparr>"
  using assms
  by (simp add: compute_def layout_packed_def usize_add_def align_up_def usize_mul_def div_ceil_def HEADER_SIZE_def usize_max_def
      Let_def del: of_nat_add)

section \<open>Updates\<close>

lemma updated_run:
  assumes o: "opened E w0 dir P p md t content ob w" and fr: "update_frame E ob md' t' content w w'"
    and up: "updated_object E ob md' t' content ob' w'" and view: "\<And>q. q \<noteq> ob_path ob \<Longrightarrow> view_of w' q = view_of w q"
  shows "opened E w0 dir P p md' t' content ob' w'"
proof -
  have s: "scratch w0 dir P w" and p: "ob_path ob = p" "p \<in> P" using o by (simp_all add: opened_def)
  have named: "view_of w' p \<noteq> None" using up p by (auto simp: updated_object_def view_of_def)
  have "scratch w0 dir P w'"
  proof (rule scratch_step [OF s])
    show "world_ok w'" "w_dirs w' = w_dirs w" using fr by (simp_all add: update_frame_def)
    show "view_of w' q = view_of w q" if "q \<notin> P" for q using that p by (intro view) auto
    show "view_of w' q \<noteq> None" if "q \<in> P" for q
      using that named view [of q] s by (cases "q = p") (simp_all add: scratch_def p)
  qed simp
  then show ?thesis using o up by (simp add: opened_def updated_object_def)
qed

lemma replaceable_run:
  assumes R: "reliable E" and o: "opened E w0 dir P p md t content ob w"
    and l: "compute (layout_default\<lparr>min_content_start := h_content_start (ob_header ob)\<rparr>) (metadata_size E md') (tag_block_size t') = Ok l"
  shows "ob_path ob \<notin> set (w_dirs w) \<and> replaceable E (ob_path ob) (rewrite_create_options ob md' t') (length content) w"
proof -
  have s: "scratch w0 dir P w" and P: "P \<subseteq> lasting dir" and p: "ob_path ob \<in> lasting dir" and m: "modest content"
    and ct: "compression_type (ob_header ob) = NoCompression"
    using o by (auto simp: opened_def)
  from p obtain x where x: "ob_path ob = dir @ [x]" by (auto simp: lasting_def)
  show ?thesis
    using R scratch_dirs [OF s] scratch_name_free [OF s P] l ct modest_room [OF m]
    by (auto simp: x replaceable_def rewrite_create_options_def)
qed

lemma set_metadata_run:
  assumes H: "header_name_ok (header_names E)" and R: "reliable E" and o: "opened E w0 dir P p md t content ob w"
    and wr: "ob_writable ob" and md': "tags_ok (\<lambda>_. True) md'"
    and l: "compute (layout_default\<lparr>min_content_start := h_content_start (ob_header ob)\<rparr>) (metadata_size E md') (tag_block_size t) = Ok l"
    and Q: "\<And>ob' w'. opened E w0 dir P p md' t content ob' w' \<Longrightarrow> ob_writable ob' \<Longrightarrow>
        h_content_start (ob_header ob') = content_start l \<Longrightarrow> Q () (ob', w')"
  shows "succeeds (set_metadata E md') Q (ob, w)"
proof -
  have ok: "world_ok w" using o by (simp add: opened_def scratch_def)
  show ?thesis
  proof (rule succeedsI [OF set_metadata_wp [OF H ok opened_at [OF o] md']])
    fix a s
    assume a: "ob_writable ob \<and> update_frame E ob md' t content w (snd s) \<and> updated_object E ob md' t content (fst s) (snd s)
        \<and> (\<forall>q. q \<noteq> ob_path ob \<longrightarrow> view_of (snd s) q = view_of w q)"
    then have "opened E w0 dir P p md' t content (fst s) (snd s)" by (intro updated_run [OF o]) auto
    moreover have "ob_writable (fst s)" "h_content_start (ob_header (fst s)) = content_start l"
      using a l by (auto simp: updated_object_def rewrite_create_options_def)
    ultimately show "Q a s" using Q [of "fst s" "snd s"] by simp
  qed (use replaceable_run [OF R o l] wr in auto)
qed

lemma modify_metadata_run:
  assumes "succeeds (set_metadata E (f (ob_metadata ob))) Q (ob, w)"
  shows "succeeds (modify_metadata E f) Q (ob, w)"
  using assms by (simp add: modify_metadata_def)

lemma set_tags_run:
  assumes H: "header_name_ok (header_names E)" and R: "reliable E" and o: "opened E w0 dir P p md t content ob w"
    and wr: "ob_writable ob" and t': "tags_ok string_ok t'"
    and l: "compute (layout_default\<lparr>min_content_start := h_content_start (ob_header ob)\<rparr>) (metadata_size E md) (tag_block_size t') = Ok l"
    and Q: "\<And>ob' w'. opened E w0 dir P p md t' content ob' w' \<Longrightarrow> ob_writable ob' \<Longrightarrow>
        h_content_start (ob_header ob') = content_start l \<Longrightarrow> Q () (ob', w')"
  shows "succeeds (set_tags E t') Q (ob, w)"
proof -
  have ok: "world_ok w" and md: "ob_metadata ob = md" using o by (simp_all add: opened_def scratch_def)
  show ?thesis
  proof (rule succeedsI [OF set_tags_wp [OF H ok opened_at [OF o] t']])
    fix a s
    assume a: "ob_writable ob \<and> update_frame E ob (ob_metadata ob) t' content w (snd s)
        \<and> updated_object E ob (ob_metadata ob) t' content (fst s) (snd s)
        \<and> (\<forall>q. q \<noteq> ob_path ob \<longrightarrow> view_of (snd s) q = view_of w q)"
    then have "opened E w0 dir P p md t' content (fst s) (snd s)" unfolding md by (intro updated_run [OF o]) auto
    moreover have "ob_writable (fst s)" "h_content_start (ob_header (fst s)) = content_start l"
      using a l by (auto simp: updated_object_def rewrite_create_options_def md)
    ultimately show "Q a s" using Q [of "fst s" "snd s"] by simp
  qed (use replaceable_run [OF R o l] wr md in auto)
qed

lemma set_tags_read_only:
  "\<not> ob_writable ob \<Longrightarrow> set_tags E t' (ob, w) = (Err (ReadOnly (ob_path ob)), (ob, w))"
  by (simp add: set_tags_def with_self_def rewrite_def ensure_writable_def st_lift_def)

text \<open>In place.\<close>

lemma in_place_content_start:
  assumes "set_sections_in_place E md t (ob, w) = (Ok u, (ob', w'))"
  shows "h_content_start (ob_header ob') = h_content_start (ob_header ob)"
proof -
  let ?rep = "repartition (h_content_start (ob_header ob)) (metadata_size E md) (tag_block_size t) DEFAULT_ALIGNMENT
      :: (section_layout option, object_file_error) res"
  show ?thesis
  proof (cases ?rep)
    case (Ok fit)
    then show ?thesis
      using assms repartition_Some(2) [of "h_content_start (ob_header ob)"]
      by (cases fit)
         (auto simp: set_sections_in_place_def with_self_def st_bind_def st_lift_def put_self_def ensure_writable_def Let_def
            io_def st_map_err_def on_world_def split: if_splits res.splits prod.splits)
  qed (use assms in \<open>auto simp: set_sections_in_place_def with_self_def st_bind_def st_lift_def ensure_writable_def Let_def
         split: if_splits\<close>)
qed

lemma in_place_run:
  assumes H: "header_name_ok (header_names E)" and R: "reliable E" and o: "opened E w0 dir P p md t content ob w"
    and so: "sole ob w" and wr: "ob_writable ob" and secs: "sections_ok md' t'"
    and fit: "(repartition (h_content_start (ob_header ob)) (metadata_size E md') (tag_block_size t') DEFAULT_ALIGNMENT
        :: (section_layout option, object_file_error) res) = Ok (Some l)"
    and Q: "\<And>ob' w'. opened E w0 dir P p md' t' content ob' w' \<Longrightarrow>
        h_content_start (ob_header ob') = h_content_start (ob_header ob) \<Longrightarrow> Q () (ob', w')"
  shows "succeeds (set_sections_in_place E md' t') Q (ob, w)"
proof -
  obtain f where f: "w_open w (ob_file ob) = Some f" "ob_writable ob \<longrightarrow> of_writable f"
    and named: "\<forall>q. w_names w q = Some (of_inode f) \<longrightarrow> q = ob_path ob"
    using so unfolding sole_def by blast
  have s: "scratch w0 dir P w" and p: "ob_path ob \<in> P" and md: "ob_metadata ob = md" using o by (auto simp: opened_def)
  have holds: "holds_object E (w_data w (of_inode f)) (ob_header ob) (ob_metadata ob) t content"
    using opened_at [OF o] f(1) by (auto simp: object_at_def)
  have "wp (set_sections_in_place E md' t')
      (\<lambda>_ s. frame {ob_file ob} {of_inode f} w (snd s) \<and> ob_metadata (fst s) = md' \<and> object_at E (fst s) (snd s) t' content)
      (\<lambda>_ _. False) (ob, w)"
    by (rule wp_conseq [OF set_sections_in_place_wp [OF H f holds]]) (use R wr secs fit in auto)
  then obtain s' where run: "set_sections_in_place E md' t' (ob, w) = (Ok (), s')"
    and fr: "frame {ob_file ob} {of_inode f} w (snd s')" and at: "ob_metadata (fst s') = md'" "object_at E (fst s') (snd s') t' content"
    by (auto dest!: wp_returns)
  obtain ob' w' where s': "s' = (ob', w')" by (cases s')
  have "ob_path ob' = ob_path ob \<and> compression_type (ob_header ob') = compression_type (ob_header ob)"
    using run unfolding s'
    by (auto simp: set_sections_in_place_def with_self_def st_bind_def st_lift_def put_self_def ensure_writable_def Let_def
        io_def st_map_err_def on_world_def wr fit split: res.splits prod.splits)
  moreover have "scratch w0 dir P w'"
    by (rule scratch_write [OF fr [unfolded s' snd_conv] s]) (use named p in auto)
  ultimately have "opened E w0 dir P p md' t' content ob' w'" using o at by (simp add: opened_def s')
  then show ?thesis
    using Q in_place_content_start [OF run [unfolded s']] run by (simp add: wp_def s')
qed

lemma in_place_refused:
  assumes wr: "ob_writable ob"
    and full: "unat (h_content_start (ob_header ob)) < HEADER_SIZE + metadata_size E md' + tag_block_size t'"
    and small: "HEADER_SIZE + metadata_size E md' + tag_block_size t' \<le> usize_max"
  shows "set_sections_in_place E md' t' (ob, w) =
     (Err (ReservedSpaceExceeded (HEADER_SIZE + metadata_size E md' + tag_block_size t') (unat (h_content_start (ob_header ob)))), (ob, w))"
proof -
  have "repartition (h_content_start (ob_header ob)) (metadata_size E md') (tag_block_size t') DEFAULT_ALIGNMENT
      = (Ok None :: (section_layout option, object_file_error) res)"
    using full small by (simp add: repartition_eq)
  then show ?thesis
    by (simp add: set_sections_in_place_def with_self_def ensure_writable_def wr st_lift_def)
qed

section \<open>The encoder of content that is not compressed\<close>

text \<open>Methods of an encoder run on the encoder and the writer it borrows, both local variables here.\<close>

lemma open_encoder_run:
  assumes wr: "writing E w0 dir P p lo l md t [] ow w"
    and Q: "Q (StoredEncoder 0) (ow, w)"
  shows "succeeds (open_content_encoder E) Q (ow, w)"
proof -
  have "ow\<lparr>wr_allow_raw_writes := True\<rparr> = ow" "wr_compression ow = NoCompression"
    using wr by (cases ow; simp add: writing_def)+
  then show ?thesis
    using Q by (simp add: open_content_encoder_def wp_bind content_encoder_new_def ensure_supported_def is_supported_def)
qed

lemma encoder_step:
  assumes R: "reliable E" and wr: "writing E w0 dir P p lo l md t content ow w" and m: "modest (content @ bs)" and ne: "bs \<noteq> []"
  shows "succeeds (encoder_write E bs)
     (\<lambda>n s. \<exists>ow' w'. 0 < n \<and> n \<le> length bs \<and> s = (StoredEncoder (of_nat (length (content @ take n bs))), ow', w')
        \<and> writing E w0 dir P p lo l md t (content @ take n bs) ow' w')
     (StoredEncoder (of_nat (length content)), ow, w)"
proof -
  obtain tp i where at: "writer_at ow w tp i content" and raw: "wr_allow_raw_writes ow" by (rule writingE [OF wr])
  have "wp (writer_write E bs) (\<lambda>n s. 0 < n \<and> n \<le> length bs \<and> writing E w0 dir P p lo l md t (content @ take n bs) (fst s) (snd s))
      (\<lambda>_ _. False) (ow, w)"
    by (rule succeedsI [OF writer_write_wp [OF at raw]])
       (use R ne modest_room [OF m, of "content_start (wr_layout ow)"] writing_same [OF wr _ _ at] in \<open>auto simp: not_less\<close>)
  then obtain n ow' w' where run: "writer_write E bs (ow, w) = (Ok n, (ow', w'))" and n: "0 < n" "n \<le> length bs"
    and wr': "writing E w0 dir P p lo l md t (content @ take n bs) ow' w'"
    by (auto dest!: wp_returns)
  have "length (content @ take n bs) < 2 ^ 64" "unat (of_nat (length content) :: u64) = length content"
    using m n by (simp_all add: modest_def unat_of_nat)
  then show ?thesis
    using wr' n
    by (auto simp: wp_def encoder_write_def with_self_def st_bind_def on_world_def run encoder_record_def st_lift_def put_self_def)
qed

lemma encoder_run:
  assumes R: "reliable E" and wr: "writing E w0 dir P p lo l md t [] ow w" and m: "modest bs"
    and Q: "\<And>ow' w'. writing E w0 dir P p lo l md t bs ow' w' \<Longrightarrow> Q () (StoredEncoder (of_nat (length bs)), ow', w')"
  shows "succeeds (encoder_write_all E bs) Q (StoredEncoder 0, ow, w)"
proof (rule succeedsI [where R = "\<lambda>_ _. False"])
  show "wp (encoder_write_all E bs)
      (\<lambda>_ s. \<exists>ow' w'. s = (StoredEncoder (of_nat (length bs)), ow', w') \<and> writing E w0 dir P p lo l md t bs ow' w')
      (\<lambda>_ _. False) (StoredEncoder 0, ow, w)"
    unfolding encoder_write_all_def
  proof (rule write_all_wp [where I = "\<lambda>out s. \<exists>ow' w'. s = (StoredEncoder (of_nat (length out)), ow', w')
        \<and> writing E w0 dir P p lo l md t out ow' w'"])
    fix out rest s
    assume "\<exists>ow' w'. s = (StoredEncoder (of_nat (length out)), ow', w') \<and> writing E w0 dir P p lo l md t out ow' w'"
      and bs: "bs = out @ rest" and ne: "rest \<noteq> []"
    then obtain ow' w' where s: "s = (StoredEncoder (of_nat (length out)), ow', w')" "writing E w0 dir P p lo l md t out ow' w'" by blast
    show "wp (encoder_write E rest) (\<lambda>n s'. n \<le> length rest \<and> (\<exists>ow' w'. s' = (StoredEncoder (of_nat (length (out @ take n rest))), ow', w')
          \<and> writing E w0 dir P p lo l md t (out @ take n rest) ow' w') \<and> (n = 0 \<longrightarrow> False)) (\<lambda>_ _. False) s"
      unfolding s(1) by (rule succeedsI [OF encoder_step [OF R s(2) _ ne]]) (use m bs in auto)
  qed (use wr in auto)
qed (use Q in auto)

lemma encoder_finish_run:
  assumes wr: "writing E w0 dir P p lo l md t content ow w" and Q: "Q (of_nat (length content)) (ow, w)"
  shows "succeeds (encoder_finish E (StoredEncoder (of_nat (length content)))) Q (ow, w)"
  using Q writing_length [OF wr] by (simp add: encoder_finish_def Let_def wp_bind wp_map_err wp_writer_flush)

section \<open>The calls of the tests, and the directory itself\<close>

lemma exists_run:
  "reliable E \<Longrightarrow> succeeds (path_exists E p) Q w \<longleftrightarrow> Q (p \<in> set (w_dirs w) \<or> w_names w p \<noteq> None) (tick w)"
  by (auto simp: wp_def path_exists_def sys_stat_def syscall_def reliable_def split: option.splits)

lemma read_file_run:
  "reliable E \<Longrightarrow> w_names w p = Some i \<Longrightarrow> succeeds (sys_read_file E p) Q w \<longleftrightarrow> Q (w_data w i) (tick w)"
  by (auto simp: wp_def sys_read_file_def syscall_def reliable_def)

lemma writing_tick: "writing E w0 dir P p lo l md t content ow w \<Longrightarrow> writing E w0 dir P p lo l md t content ow (tick w)"
  unfolding writing_def pending_def scratch_tick by (auto simp: writer_at_def)

lemma stored_tick [simp]: "stored E w0 dir P p h md t content (tick w) = stored E w0 dir P p h md t content w"
  by (simp add: stored_def)

lemma writing_absent:
  assumes "writing E w0 dir P p lo l md t content ow w" and "p \<notin> P"
  shows "p \<notin> set (w_dirs w)" and "w_names w p = None"
proof -
  obtain tp i where pd: "pending w0 dir P tp i content ow w" by (rule writingE [OF assms(1)])
  then have s: "scratch w0 dir (insert tp P) w" "temporary tp" by (simp_all add: pending_def)
  have p: "p \<in> lasting dir" using assms(1) by (simp add: writing_def)
  then obtain x where x: "p = dir @ [x]" by (auto simp: lasting_def)
  show "p \<notin> set (w_dirs w)" using scratch_dirs(2) [OF s(1)] by (simp add: x)
  have "p \<notin> insert tp P" using p s(2) assms(2) by (auto simp: lasting_def)
  then show "w_names w p = None" using scratch_names [OF s(1)] by (simp add: x)
qed

lemma scratch_absent:
  assumes "scratch w0 dir P w" and "q \<notin> P" and "below dir q" and "q \<noteq> dir"
  shows "q \<notin> set (w_dirs w)" and "w_names w q = None"
  using assms scratch_names [OF assms(1,2,3)] by (auto simp: scratch_def unused_def)

lemma read_dir_run:
  assumes R: "reliable E" and s: "scratch w0 dir {} w" and Q: "Q {} (tick w)"
  shows "succeeds (sys_read_dir E dir) Q w"
proof -
  have "{x. w_names w (dir @ [x]) \<noteq> None \<or> dir @ [x] \<in> set (w_dirs w)} = {}"
    using scratch_absent [OF s] by auto
  then show ?thesis
    using R Q scratch_dirs(1) [OF s] by (simp add: wp_def sys_read_dir_def syscall_def reliable_def)
qed

text \<open>
  A test in its directory: what it finds there is nothing, and if it leaves nothing but files behind,
  everything shows afterwards what it showed before.
\<close>

lemma mkdir_fresh:
  assumes "reliable E" and "world_ok w" and "butlast dir \<in> set (w_dirs w)" and "unused dir w"
  shows "\<exists>w'. sys_mkdir E dir w = (Ok (), w') \<and> scratch w dir {} w'"
proof -
  let ?w = "tick (w\<lparr>w_dirs := dir # w_dirs w\<rparr>)"
  have "below dir dir" by (simp add: below_def)
  then have "w_names w dir = None" "dir \<notin> set (w_dirs w)" using assms(4) by (auto simp: unused_def)
  then have "sys_mkdir E dir w = (Ok (), ?w)"
    using assms(1,3) by (simp add: sys_mkdir_def syscall_def reliable_def)
  moreover have "scratch w dir {} ?w"
    using assms(2,4) by (simp add: scratch_def view_of_def world_ok_def cong: option.case_cong)
  ultimately show ?thesis by blast
qed

lemma new_dir_made:
  assumes "dir \<noteq> []" and "sys_mkdir E dir w = (Ok (), w')"
  shows "new_dir E dir w = (Ok dir, w')"
proof -
  obtain x xs where r: "rev dir = x # xs" using assms(1) by (cases "rev dir") auto
  then have "rev (x # xs) = dir" by (metis rev_rev_ident)
  then show ?thesis
    using assms(2) unfolding new_dir_def r create_dir_all.simps Let_def
    by (simp add: st_bind_def st_unwrap_def st_lift_def)
qed

lemma new_dir_run:
  assumes "reliable E" and "world_ok w" and "butlast dir \<in> set (w_dirs w)" and ne: "dir \<noteq> []"
    and "unused dir w" and Q: "\<And>w'. scratch w dir {} w' \<Longrightarrow> Q dir w'"
  shows "succeeds (new_dir E dir) Q w"
proof -
  obtain w' where "sys_mkdir E dir w = (Ok (), w')" "scratch w dir {} w'" using mkdir_fresh [OF assms(1-3,5)] by blast
  then show ?thesis using Q by (simp add: wp_def new_dir_made [OF ne])
qed

lemma temp_dir_path_parts [simp]: "butlast (temp_dir_path E K name) = temp_root K" "temp_dir_path E K name \<noteq> []"
  by (simp_all add: temp_dir_path_def)

lemma temp_dir_dropped:
  assumes R: "reliable E" and s: "scratch w0 dir P w" and P: "P \<subseteq> lasting dir"
  shows "view_of (temp_dir_drop E dir w) = view_of w0" and "w_dirs (temp_dir_drop E dir w) = w_dirs w0"
proof -
  have run: "temp_dir_drop E dir w = tick (w\<lparr>w_names := (\<lambda>q. if below dir q then None else w_names w q),
        w_dirs := filter (\<lambda>q. \<not> below dir q) (w_dirs w)\<rparr>)"
    using R scratch_dirs(1) [OF s] by (simp add: temp_dir_drop_def sys_remove_dir_all_def syscall_def reliable_def)
  show "view_of (temp_dir_drop E dir w) = view_of w0"
  proof
    fix q
    show "view_of (temp_dir_drop E dir w) q = view_of w0 q"
    proof (cases "below dir q")
      case True
      then show ?thesis using s by (simp add: run view_of_def scratch_def unused_def)
    next
      case False
      then have "q \<notin> P" using P by (auto simp: lasting_def)
      then have "view_of w q = view_of w0 q" using s by (simp add: scratch_def)
      then show ?thesis using False by (simp add: run view_of_def cong: option.case_cong)
    qed
  qed
  have "filter (\<lambda>q. \<not> below dir q) (w_dirs w0) = w_dirs w0"
    using s by (auto simp: scratch_def unused_def filter_id_conv)
  moreover have "below dir dir" by (simp add: below_def)
  ultimately show "w_dirs (temp_dir_drop E dir w) = w_dirs w0" using s by (simp add: run scratch_def)
qed

lemma in_temp_dir_run:
  assumes R: "reliable E" and ok: "world_ok w" and root: "temp_root K \<in> set (w_dirs w)"
    and free: "unused (temp_dir_path E K name) w"
    and body: "\<And>w'. scratch w (temp_dir_path E K name) {} w' \<Longrightarrow>
        succeeds (body (temp_dir_path E K name))
          (\<lambda>_ w''. \<exists>P. P \<subseteq> lasting (temp_dir_path E K name) \<and> scratch w (temp_dir_path E K name) P w'') w'"
  shows "succeeds (in_temp_dir E K name body) (\<lambda>_ w'. view_of w' = view_of w \<and> w_dirs w' = w_dirs w) w"
  unfolding in_temp_dir_def temp_dir_new_def wp_bind
proof (rule new_dir_run [OF R ok _ _ free])
  fix w'
  assume "scratch w (temp_dir_path E K name) {} w'"
  from body [OF this] show "wp (\<lambda>w. case body (temp_dir_path E K name) w of (r, w') \<Rightarrow> (r, temp_dir_drop E (temp_dir_path E K name) w'))
      (\<lambda>_ w'. view_of w' = view_of w \<and> w_dirs w' = w_dirs w) (\<lambda>_ _. False) w'"
    using temp_dir_dropped [OF R] by (auto simp: wp_def split: prod.splits res.splits)
qed (use root in simp_all)

end
