(* ===== verification/FileTests.thy ===== *)
theory FileTests
  imports ScratchRuns
begin

text \<open>
  The tests of \<open>src/src/fs/mod.rs\<close>, statement by statement. Each works in a scratch directory of its
  own. The two tests of the codecs of the features \<open>zstd\<close> and \<open>gzip\<close> are not here: they assert that
  these codecs make their sample smaller.
\<close>

type_synonym 'hn file_test = "'hn env \<Rightarrow> 'hn test_consts \<Rightarrow> (world, unit, object_file_error) st"

section \<open>Samples\<close>

definition timestamp :: raw_date_time where
  "timestamp =
     \<lparr>dt_date = \<lparr>date_year = 2026, date_month = 7, date_day = 30\<rparr>,
      dt_time = \<lparr>seconds_from_midnight = 12 * 60 * 60, nanoseconds = 0\<rparr>, dt_timezone = \<lparr>tz_offset = 0\<rparr>\<rparr>"

text \<open>A statement that inserts into a map and ignores the value that was there.\<close>

definition put :: "'k \<Rightarrow> value_type \<Rightarrow> 'k tags \<Rightarrow> 'k tags" where
  "put k v m = snd (tags_insert k v m)"

definition sample_metadata :: "'hn test_consts \<Rightarrow> 'hn tags" where
  "sample_metadata K =
     put (LAST_MODIFIED K) (VRawDateTime timestamp) (put (CONTENT_TYPE K) (VString (ascii ''text/plain'')) tags_new)"

definition sample_tags :: "u8 list tags" where
  "sample_tags = put (ascii ''tag'') (VString (ascii ''value'')) tags_new"

definition eight_tags :: "u8 list tags" where
  "eight_tags =
     foldl (\<lambda>t index. put (ascii (''tag-'' @ decimal index)) (VString (ascii (''value-'' @ decimal index))) t) tags_new [0..<8]"

definition three_tags :: "u8 list tags" where
  "three_tags =
     put (ascii ''third'') (VU32 3)
       (put (ascii ''second'') (VString (ascii ''two'')) (put (ascii ''first'') (VString (ascii ''one'')) tags_new))"

definition long_disposition :: "u8 list" where
  "long_disposition = ascii (''attachment; filename='' @ [CHR 0x22] @ ''a-fairly-long-file-name.txt'' @ [CHR 0x22])"

definition longer_disposition :: "u8 list" where
  "longer_disposition =
     ascii (''attachment; filename='' @ [CHR 0x22] @ ''much-too-long-for-a-packed-layout.txt'' @ [CHR 0x22])"

definition large_content :: "u8 list" where
  "large_content = map (\<lambda>index. of_nat (index mod 251)) [0..<512 * 1024]"

definition metadata_options :: "'hn test_consts \<Rightarrow> 'hn create_options" where
  "metadata_options K = with_metadata (sample_metadata K) create_options_new"

definition sample_options :: "'hn test_consts \<Rightarrow> 'hn create_options" where
  "sample_options K = with_tags sample_tags (with_metadata (sample_metadata K) create_options_new)"

text \<open>The string a metadata entry holds, if there is one and it holds one.\<close>

definition header_str :: "'hn tux_object \<Rightarrow> 'hn \<Rightarrow> u8 list option" where
  "header_str ob name = Option.bind (get_header (ob_metadata ob) name) value_as_str"

text \<open>A writer that goes out of scope, and a method of an encoder, which borrows the writer.\<close>

definition dropped :: "'hn env \<Rightarrow> 'hn object_writer \<Rightarrow> (world, unit, 'f) st" where
  "dropped E writer w = (Ok (), drop_writer E writer w)"

definition both :: "('o \<times> 'p \<times> 'w, 'a, 'e) st \<Rightarrow> (('o \<times> 'p) \<times> 'w, 'a, 'e) st" where
  "both m s = (case m (fst (fst s), snd (fst s), snd s) of (r, (a, b, w)) \<Rightarrow> (r, ((a, b), w)))"

section \<open>The tests\<close>

subsection \<open>Writing and reading back\<close>

definition create_and_read_back :: "'hn file_test" where
  "create_and_read_back E K = in_temp_dir E K ''round-trip'' (\<lambda>dir.
     let path = dir @ [''object.tuxio'']
     in st_bind (st_unwrap (create_writer E path (sample_options K))) (\<lambda>writer.
        st_bind (call (writer_write_all E (ascii ''Hello, world!'')) writer) (\<lambda>(_, writer).
        st_bind (check (wr_content_length writer = 13)) (\<lambda>_.
        st_bind (st_unwrap (finish E writer)) (\<lambda>object.
        st_bind (check (object_content_length object = 13)) (\<lambda>_.
        st_bind (st_unwrap (open_object E path)) (\<lambda>object.
        st_bind (check (object_content_length object = 13)) (\<lambda>_.
        st_bind (check (header_str object (CONTENT_TYPE K) = Some (ascii ''text/plain''))) (\<lambda>_.
        st_bind (call (tag_count E) object) (\<lambda>(count, object).
        st_bind (check (count = 1)) (\<lambda>_.
        st_bind (call (object_read_tags E) object) (\<lambda>(t, object).
        st_bind (check (tags_get t (ascii ''tag'') = Some (VString (ascii ''value'')))) (\<lambda>_.
        st_bind (call (read_content_to_vec E) object) (\<lambda>(content, object).
        check (content = ascii ''Hello, world!'')))))))))))))))"

definition writer_publishes_atomically :: "'hn file_test" where
  "writer_publishes_atomically E K = in_temp_dir E K ''atomic'' (\<lambda>dir.
     let path = dir @ [''object.tuxio'']
     in st_bind (st_unwrap (create_writer E path create_options_new)) (\<lambda>writer.
        st_bind (call (writer_write_all E (ascii ''partial'')) writer) (\<lambda>(_, writer).
        st_bind (path_exists E path) (\<lambda>there.
        st_bind (check (\<not> there)) (\<lambda>_.
        st_bind (st_unwrap (finish E writer)) (\<lambda>_.
        st_bind (path_exists E path) (\<lambda>there.
        check there)))))))"

definition dropping_a_writer_removes_the_temp_file :: "'hn file_test" where
  "dropping_a_writer_removes_the_temp_file E K = in_temp_dir E K ''abandoned'' (\<lambda>dir.
     let path = dir @ [''object.tuxio'']
     in st_bind (st_unwrap (create_writer E path create_options_new)) (\<lambda>writer.
        st_bind (call (writer_write_all E (ascii ''abandoned'')) writer) (\<lambda>(_, writer).
        st_bind (dropped E writer) (\<lambda>_.
        st_bind (path_exists E path) (\<lambda>there.
        st_bind (check (\<not> there)) (\<lambda>_.
        st_bind (st_unwrap (sys_read_dir E dir)) (\<lambda>leftovers.
        check (leftovers = {}))))))))"

definition aborting_a_writer_removes_the_temp_file :: "'hn file_test" where
  "aborting_a_writer_removes_the_temp_file E K = in_temp_dir E K ''aborted'' (\<lambda>dir.
     let path = dir @ [''object.tuxio'']
     in st_bind (st_unwrap (create_writer E path create_options_new)) (\<lambda>writer.
        st_bind (call (writer_write_all E (ascii ''aborted'')) writer) (\<lambda>(_, writer).
        st_bind (st_unwrap (abort E writer)) (\<lambda>_.
        st_bind (path_exists E path) (\<lambda>there.
        st_bind (check (\<not> there)) (\<lambda>_.
        st_bind (st_unwrap (sys_read_dir E dir)) (\<lambda>entries.
        check (card entries = 0))))))))"

subsection \<open>Ranges\<close>

definition ranged_reads_return_slices_of_the_content :: "'hn file_test" where
  "ranged_reads_return_slices_of_the_content E K = in_temp_dir E K ''ranged'' (\<lambda>dir.
     let path = dir @ [''object.tuxio'']; content = ascii ''0123456789''
     in st_bind (st_unwrap (create_writer E path create_options_new)) (\<lambda>writer.
        st_bind (call (writer_write_all E content) writer) (\<lambda>(_, writer).
        st_bind (st_unwrap (finish E writer)) (\<lambda>_.
        st_bind (st_unwrap (open_object E path)) (\<lambda>object.
        st_bind (call (content_range_reader E 3 (Some 4)) object) (\<lambda>(reader, object).
        st_bind (st_unwrap (with_reader reader (content_read_to_end E))) (\<lambda>buffer.
        st_bind (check (buffer = ascii ''3456'')) (\<lambda>_.
        st_bind (call (content_range_reader E 7 None) object) (\<lambda>(reader, object).
        st_bind (st_unwrap (with_reader reader (content_read_to_end E))) (\<lambda>buffer.
        st_bind (check (buffer = ascii ''789'')) (\<lambda>_.
        st_bind (call (content_range_reader E 0 (Some 10)) object) (\<lambda>(reader, object).
        st_bind (st_unwrap (with_reader reader (content_read_to_end E))) (\<lambda>buffer.
        check (buffer = content))))))))))))))"

definition ranged_reads_reject_out_of_bounds :: "'hn file_test" where
  "ranged_reads_reject_out_of_bounds E K = in_temp_dir E K ''ranged-oob'' (\<lambda>dir.
     let path = dir @ [''object.tuxio'']
     in st_bind (st_unwrap (create_writer E path create_options_new)) (\<lambda>writer.
        st_bind (call (writer_write_all E (ascii ''0123456789'')) writer) (\<lambda>(_, writer).
        st_bind (st_unwrap (finish E writer)) (\<lambda>_.
        st_bind (st_unwrap (open_object E path)) (\<lambda>object.
        st_bind (outcome_of (content_range_reader E 11 None) object) (\<lambda>(r, object).
        st_bind (check (case r of Err (RangeOutOfBounds _ _ _) \<Rightarrow> True | _ \<Rightarrow> False)) (\<lambda>_.
        st_bind (outcome_of (content_range_reader E 5 (Some 6)) object) (\<lambda>(r, object).
        check (case r of Err (RangeOutOfBounds _ _ _) \<Rightarrow> True | _ \<Rightarrow> False)))))))))"

subsection \<open>Sections that change\<close>

definition metadata_can_be_written_during_streaming :: "'hn file_test" where
  "metadata_can_be_written_during_streaming E K = in_temp_dir E K ''digest'' (\<lambda>dir.
     let path = dir @ [''object.tuxio''];
         metadata = put (ETAG K) (VBytes (replicate 16 0)) (sample_metadata K)
     in st_bind (st_unwrap (create_writer E path (with_metadata metadata create_options_new))) (\<lambda>writer.
        st_bind (call (writer_write_all E (ascii ''hash me'')) writer) (\<lambda>(_, writer).
        let writer = set_metadata_mut (put (ETAG K) (VBytes (replicate 16 7))) writer
        in st_bind (st_unwrap (finish E writer)) (\<lambda>_.
           st_bind (st_unwrap (open_object E path)) (\<lambda>object.
           check (get_header (ob_metadata object) (ETAG K) = Some (VBytes (replicate 16 7))))))))"

definition growing_metadata_in_reserved_space_preserves_the_layout :: "'hn file_test" where
  "growing_metadata_in_reserved_space_preserves_the_layout E K = in_temp_dir E K ''grow-in-place'' (\<lambda>dir.
     let path = dir @ [''object.tuxio'']
     in st_bind (st_unwrap (create_writer E path (sample_options K))) (\<lambda>writer.
        st_bind (call (writer_write_all E (ascii ''content stays put'')) writer) (\<lambda>(_, writer).
        st_bind (st_unwrap (finish E writer)) (\<lambda>_.
        st_bind (st_unwrap (open_writable E path)) (\<lambda>object.
        let original_content_start = h_content_start (ob_header object)
        in st_bind (call (modify_metadata E (put (CACHE_CONTROL K) (VString (ascii ''max-age=3600'')))) object) (\<lambda>(_, object).
           st_bind (check (h_content_start (ob_header object) = original_content_start)) (\<lambda>_.
           st_bind (call (read_content_to_vec E) object) (\<lambda>(content, object).
           st_bind (check (content = ascii ''content stays put'')) (\<lambda>_.
           st_bind (check (header_str object (CACHE_CONTROL K) = Some (ascii ''max-age=3600''))) (\<lambda>_.
           st_bind (call (object_read_tags E) object) (\<lambda>(t, object).
           check (tags_get t (ascii ''tag'') = Some (VString (ascii ''value''))))))))))))))"

definition metadata_beyond_the_reserve_triggers_a_rewrite :: "'hn file_test" where
  "metadata_beyond_the_reserve_triggers_a_rewrite E K = in_temp_dir E K ''grow-rewrite'' (\<lambda>dir.
     let path = dir @ [''object.tuxio'']
     in st_bind (st_unwrap (create_writer E path (with_layout layout_packed (sample_options K)))) (\<lambda>writer.
        st_bind (call (writer_write_all E (ascii ''content moves'')) writer) (\<lambda>(_, writer).
        st_bind (st_unwrap (finish E writer)) (\<lambda>_.
        st_bind (st_unwrap (open_writable E path)) (\<lambda>object.
        let original_content_start = h_content_start (ob_header object)
        in st_bind (call (modify_metadata E (put (CONTENT_DISPOSITION K) (VString long_disposition))) object) (\<lambda>(_, object).
           st_bind (check (h_content_start (ob_header object) > original_content_start)) (\<lambda>_.
           st_bind (call (read_content_to_vec E) object) (\<lambda>(content, object).
           st_bind (check (content = ascii ''content moves'')) (\<lambda>_.
           st_bind (check (object_content_length object = 13)) (\<lambda>_.
           st_bind (call (object_read_tags E) object) (\<lambda>(t, object).
           check (tags_get t (ascii ''tag'') = Some (VString (ascii ''value''))))))))))))))"

definition tags_can_shrink :: "'hn file_test" where
  "tags_can_shrink E K = in_temp_dir E K ''shrink'' (\<lambda>dir.
     let path = dir @ [''object.tuxio'']
     in st_bind (st_unwrap (create_writer E path (with_tags eight_tags create_options_new))) (\<lambda>writer.
        st_bind (call (writer_write_all E (ascii ''shrink my tags'')) writer) (\<lambda>(_, writer).
        st_bind (st_unwrap (finish E writer)) (\<lambda>_.
        st_bind (st_unwrap (open_writable E path)) (\<lambda>object.
        st_bind (call (tag_count E) object) (\<lambda>(count, object).
        st_bind (check (count = 8)) (\<lambda>_.
        st_bind (call (set_tags E tags_new) object) (\<lambda>(_, object).
        st_bind (call (tag_count E) object) (\<lambda>(count, object).
        st_bind (check (count = 0)) (\<lambda>_.
        st_bind (call (object_read_tags E) object) (\<lambda>(t, object).
        st_bind (check (tags_is_empty t)) (\<lambda>_.
        st_bind (call (read_content_to_vec E) object) (\<lambda>(content, object).
        check (content = ascii ''shrink my tags''))))))))))))))"

definition in_place_update_rejects_oversized_sections :: "'hn file_test" where
  "in_place_update_rejects_oversized_sections E K = in_temp_dir E K ''in-place'' (\<lambda>dir.
     let path = dir @ [''object.tuxio'']
     in st_bind (st_unwrap (create_writer E path (with_layout layout_packed (metadata_options K)))) (\<lambda>writer.
        st_bind (call (writer_write_all E (ascii ''do not move me'')) writer) (\<lambda>(_, writer).
        st_bind (st_unwrap (finish E writer)) (\<lambda>_.
        st_bind (st_unwrap (open_writable E path)) (\<lambda>object.
        let metadata = put (CONTENT_DISPOSITION K) (VString longer_disposition) (ob_metadata object)
        in st_bind (outcome_of (set_sections_in_place E metadata tags_new) object) (\<lambda>(r, object).
           st_bind (check (case r of Err (ReservedSpaceExceeded _ _) \<Rightarrow> True | _ \<Rightarrow> False)) (\<lambda>_.
           st_bind (call (read_content_to_vec E) object) (\<lambda>(content, object).
           check (content = ascii ''do not move me'')))))))))"

definition in_place_update_succeeds_within_the_reserve :: "'hn file_test" where
  "in_place_update_succeeds_within_the_reserve E K = in_temp_dir E K ''in-place-ok'' (\<lambda>dir.
     let path = dir @ [''object.tuxio'']
     in st_bind (st_unwrap (create_writer E path (metadata_options K))) (\<lambda>writer.
        st_bind (call (writer_write_all E (ascii ''still here'')) writer) (\<lambda>(_, writer).
        st_bind (st_unwrap (finish E writer)) (\<lambda>_.
        st_bind (st_unwrap (open_writable E path)) (\<lambda>object.
        let original_content_start = h_content_start (ob_header object);
            metadata = put (ETAG K) (VBytes (replicate 16 1)) (ob_metadata object)
        in st_bind (call (set_sections_in_place E metadata sample_tags) object) (\<lambda>(_, object).
           st_bind (check (h_content_start (ob_header object) = original_content_start)) (\<lambda>_.
           st_bind (call (read_content_to_vec E) object) (\<lambda>(content, object).
           st_bind (check (content = ascii ''still here'')) (\<lambda>_.
           st_bind (call (object_read_tags E) object) (\<lambda>(t, object).
           st_bind (check (tags_get t (ascii ''tag'') = Some (VString (ascii ''value'')))) (\<lambda>_.
           check (get_header (ob_metadata object) (ETAG K) = Some (VBytes (replicate 16 1))))))))))))))"

subsection \<open>Refusals, empty and large objects\<close>

definition read_only_objects_reject_updates :: "'hn file_test" where
  "read_only_objects_reject_updates E K = in_temp_dir E K ''read-only'' (\<lambda>dir.
     let path = dir @ [''object.tuxio'']
     in st_bind (st_unwrap (create_writer E path create_options_new)) (\<lambda>writer.
        st_bind (st_unwrap (finish E writer)) (\<lambda>_.
        st_bind (st_unwrap (open_object E path)) (\<lambda>object.
        st_bind (outcome_of (set_tags E sample_tags) object) (\<lambda>(r, object).
        check (case r of Err (ReadOnly _) \<Rightarrow> True | _ \<Rightarrow> False))))))"

definition open_optional_reports_a_missing_file_without_creating_it :: "'hn file_test" where
  "open_optional_reports_a_missing_file_without_creating_it E K = in_temp_dir E K ''missing'' (\<lambda>dir.
     let path = dir @ [''nested'', ''does-not-exist.tuxio'']
     in st_bind (st_unwrap (open_optional E path)) (\<lambda>object.
        st_bind (check (object = None)) (\<lambda>_.
        st_bind (path_exists E path) (\<lambda>there.
        st_bind (check (\<not> there)) (\<lambda>_.
        st_bind (path_exists E (dir @ [''nested''])) (\<lambda>there.
        check (\<not> there)))))))"

definition empty_object_round_trips :: "'hn file_test" where
  "empty_object_round_trips E K = in_temp_dir E K ''empty'' (\<lambda>dir.
     let path = dir @ [''object.tuxio'']
     in st_bind (st_unwrap (create_writer E path create_options_new)) (\<lambda>writer.
        st_bind (st_unwrap (finish E writer)) (\<lambda>_.
        st_bind (st_unwrap (open_object E path)) (\<lambda>object.
        st_bind (check (object_content_length object = 0)) (\<lambda>_.
        st_bind (check (tags_is_empty (ob_metadata object))) (\<lambda>_.
        st_bind (call (tag_count E) object) (\<lambda>(count, object).
        st_bind (check (count = 0)) (\<lambda>_.
        st_bind (call (read_content_to_vec E) object) (\<lambda>(content, object).
        check (content = []))))))))))"

definition larger_content_round_trips :: "'hn file_test" where
  "larger_content_round_trips E K = in_temp_dir E K ''large'' (\<lambda>dir.
     let path = dir @ [''object.tuxio'']
     in st_bind (st_unwrap (create_writer E path create_options_new)) (\<lambda>writer.
        st_bind (call (writer_write_all E large_content) writer) (\<lambda>(_, writer).
        st_bind (st_unwrap (finish E writer)) (\<lambda>_.
        st_bind (st_unwrap (open_object E path)) (\<lambda>object.
        st_bind (check (object_content_length object = of_nat (length large_content))) (\<lambda>_.
        st_bind (call (read_content_to_vec E) object) (\<lambda>(content, object).
        check (content = large_content))))))))"

definition find_tag_locates_a_single_entry :: "'hn file_test" where
  "find_tag_locates_a_single_entry E K = in_temp_dir E K ''find-tag'' (\<lambda>dir.
     let path = dir @ [''object.tuxio'']
     in st_bind (st_unwrap (create_writer E path (with_tags three_tags create_options_new))) (\<lambda>writer.
        st_bind (st_unwrap (finish E writer)) (\<lambda>_.
        st_bind (st_unwrap (open_object E path)) (\<lambda>object.
        st_bind (call (find_tag E (ascii ''second'')) object) (\<lambda>(found, object).
        st_bind (check (found = Some (VString (ascii ''two'')))) (\<lambda>_.
        st_bind (call (find_tag E (ascii ''third'')) object) (\<lambda>(found, object).
        st_bind (check (found = Some (VU32 3))) (\<lambda>_.
        st_bind (call (find_tag E (ascii ''absent'')) object) (\<lambda>(found, object).
        check (found = None))))))))))"

subsection \<open>Compression and padding\<close>

definition compressed_objects_reject_raw_writes :: "'hn file_test" where
  "compressed_objects_reject_raw_writes E K = in_temp_dir E K ''raw-write-guard'' (\<lambda>dir.
     let path = dir @ [''object.tuxio''];
         options = with_compression (ZSTD 3) create_options_new
     in if \<not> is_supported E (ZSTD 3)
        then st_bind (attempt (create_writer E path options)) (\<lambda>r.
             check (case r of Err (UnsupportedCompression _) \<Rightarrow> True | _ \<Rightarrow> False))
        else st_bind (st_unwrap (create_writer E path options)) (\<lambda>writer.
             st_bind (outcome_of (writer_write_all E (ascii ''raw bytes'')) writer) (\<lambda>(r, writer).
             st_bind (check (case r of Err _ \<Rightarrow> True | _ \<Rightarrow> False)) (\<lambda>_.
             dropped E writer))))"

definition uncompressed_encoder_is_a_pass_through :: "'hn file_test" where
  "uncompressed_encoder_is_a_pass_through E K = in_temp_dir E K ''passthrough'' (\<lambda>dir.
     let path = dir @ [''object.tuxio'']
     in st_bind (st_unwrap (create_writer E path create_options_new)) (\<lambda>writer.
        st_bind (call (open_content_encoder E) writer) (\<lambda>(encoder, writer).
        st_bind (call (both (encoder_write_all E (ascii ''straight through''))) (encoder, writer)) (\<lambda>(_, (encoder, writer)).
        st_bind (call (encoder_finish E encoder) writer) (\<lambda>(n, writer).
        st_bind (check (n = 16)) (\<lambda>_.
        st_bind (st_unwrap (finish E writer)) (\<lambda>_.
        st_bind (st_unwrap (open_object E path)) (\<lambda>object.
        st_bind (call (read_content_to_vec E) object) (\<lambda>(content, object).
        st_bind (check (content = ascii ''straight through'')) (\<lambda>_.
        check (get_header (ob_metadata object) (uncompressed_length_key E) = None)))))))))))"

text \<open>The closure \<open>build\<close> of the last test, and a slice, which panics when its bounds are out of order or of range.\<close>

definition build_sample :: "'hn env \<Rightarrow> 'hn test_consts \<Rightarrow> path \<Rightarrow> (world, u8 list, object_file_error) st" where
  "build_sample E K path =
     st_bind (st_unwrap (create_writer E path (sample_options K))) (\<lambda>writer.
     st_bind (call (writer_write_all E (ascii ''same bytes'')) writer) (\<lambda>(_, writer).
     st_bind (st_unwrap (finish E writer)) (\<lambda>_.
     st_unwrap (sys_read_file E path))))"

definition slice :: "nat \<Rightarrow> nat \<Rightarrow> u8 list \<Rightarrow> ('s, u8 list, 'f) st" where
  "slice a b xs = st_lift (if a \<le> b \<and> b \<le> length xs then Ok (take (b - a) (drop a xs)) else Panic)"


definition padding_is_zero_filled :: "'hn file_test" where
  "padding_is_zero_filled E K = in_temp_dir E K ''deterministic'' (\<lambda>dir.
     st_bind (build_sample E K (dir @ [''a.tuxio''])) (\<lambda>first.
     st_bind (build_sample E K (dir @ [''b.tuxio''])) (\<lambda>second.
     st_bind (check (length first = length second)) (\<lambda>_.
     st_bind (slice 0 32 first) (\<lambda>prefix.
     st_bind (st_lift (unwrap (header_read_from_bytes prefix))) (\<lambda>header.
     st_bind (slice 0 32 second) (\<lambda>other.
     st_bind (check (prefix = other)) (\<lambda>_.
     st_bind (slice (unat (h_content_start header)) (length first) first) (\<lambda>rest.
     st_bind (slice (unat (h_content_start header)) (length second) second) (\<lambda>other.
     st_bind (check (rest = other)) (\<lambda>_.
     st_bind (slice (32 + metadata_size E (sample_metadata K)) (unat (h_tags_start header)) first) (\<lambda>padding.
     check (list_all (\<lambda>byte. byte = 0) padding)))))))))))))"

section \<open>What the tests rely on\<close>

text \<open>The names of the constants of \<open>http\<close> in use, and an environment in which no call fails.\<close>

definition consts_ok :: "'hn env \<Rightarrow> 'hn test_consts \<Rightarrow> bool" where
  "consts_ok E K \<longleftrightarrow>
     hn_as_str (header_names E) (CONTENT_TYPE K) = ascii ''content-type'' \<and>
     hn_as_str (header_names E) (LAST_MODIFIED K) = ascii ''last-modified'' \<and>
     hn_as_str (header_names E) (ETAG K) = ascii ''etag'' \<and>
     hn_as_str (header_names E) (CACHE_CONTROL K) = ascii ''cache-control'' \<and>
     hn_as_str (header_names E) (CONTENT_DISPOSITION K) = ascii ''content-disposition'' \<and>
     hn_as_str (header_names E) (uncompressed_length_key E) = UNCOMPRESSED_LENGTH_NAME"

definition ready :: "'hn env \<Rightarrow> 'hn test_consts \<Rightarrow> bool" where
  "ready E K \<longleftrightarrow> header_name_ok (header_names E) \<and> reliable E \<and> consts_ok E K"

lemma consts_distinct:
  assumes "consts_ok E K"
  shows "CONTENT_TYPE K \<noteq> LAST_MODIFIED K" "CONTENT_TYPE K \<noteq> ETAG K" "CONTENT_TYPE K \<noteq> CACHE_CONTROL K"
    "CONTENT_TYPE K \<noteq> CONTENT_DISPOSITION K" "LAST_MODIFIED K \<noteq> ETAG K" "LAST_MODIFIED K \<noteq> CACHE_CONTROL K"
    "LAST_MODIFIED K \<noteq> CONTENT_DISPOSITION K"
  using assms by (auto simp: consts_ok_def ascii_def dest!: arg_cong [where f = "hn_as_str (header_names E)"])

end
