(* ===== verification/FileTestRuns.thy ===== *)
theory FileTestRuns
  imports FileTests
begin

text \<open>
  The tests of the file layer pass. Each is run from its first statement to its last with the rules of
  \<open>ScratchRuns\<close>, on any machine on which no call fails and the scratch directory is new.
\<close>

section \<open>Statements\<close>

definition cleared :: "world \<Rightarrow> path \<Rightarrow> world \<Rightarrow> bool" where
  "cleared w0 dir w \<longleftrightarrow> (\<exists>P. P \<subseteq> lasting dir \<and> scratch w0 dir P w)"

lemma clearedI:
  "scratch w0 dir {} w \<Longrightarrow> cleared w0 dir w"
  "stored E w0 dir P p h md t content w \<Longrightarrow> cleared w0 dir w"
  "opened E w0 dir P p md t content ob w \<Longrightarrow> cleared w0 dir w"
  unfolding cleared_def by (auto simp: stored_def opened_def)

lemma lasting_path [simp]: "dir @ [x] \<in> lasting dir \<longleftrightarrow> drop (length x - 7) x \<noteq> ''.tuxtmp''"
  by (simp add: lasting_def temporary_def)

definition undisturbed :: "'hn env \<Rightarrow> 'hn test_consts \<Rightarrow> string \<Rightarrow> world \<Rightarrow> bool" where
  "undisturbed E K name w \<longleftrightarrow> world_ok w \<and> temp_root K \<in> set (w_dirs w) \<and> unused (temp_dir_path E K name) w"

definition unchanged :: "world \<Rightarrow> unit \<Rightarrow> world \<Rightarrow> bool" where
  "unchanged w u w' \<longleftrightarrow> view_of w' = view_of w \<and> w_dirs w' = w_dirs w"

lemma test_run:
  assumes "ready E K" and "undisturbed E K name w"
    and "\<And>dir w'. scratch w dir {} w' \<Longrightarrow> succeeds (body dir) (\<lambda>_. cleared w dir) w'"
  shows "succeeds (in_temp_dir E K name body) (unchanged w) w"
  using in_temp_dir_run [of E w K name body] assms unfolding unchanged_def cleared_def undisturbed_def ready_def by blast

definition sound :: "'hn env \<Rightarrow> bool" where
  "sound E \<longleftrightarrow> header_name_ok (header_names E) \<and> reliable E"

lemma soundD: "sound E \<Longrightarrow> header_name_ok (header_names E)" "sound E \<Longrightarrow> reliable E"
  by (simp_all add: sound_def)

lemma ready_sound [simp]: "ready E K \<Longrightarrow> sound E" "ready E K \<Longrightarrow> reliable E"
  by (simp_all add: ready_def sound_def)

lemma create_known_run:
  assumes s: "scratch w0 dir P w" and r: "sound E" and P: "P \<subseteq> lasting dir" and p: "p \<in> lasting dir"
    and o: "co_layout opts = layout_default \<or> co_layout opts = layout_packed" "co_compression opts = NoCompression"
    and secs: "sections_ok (co_metadata opts) (co_tags opts)"
    and sizes: "metadata_size E (co_metadata opts) \<le> 1000" "tag_block_size (co_tags opts) \<le> 1000"
    and Q: "\<And>l ow w'. writing E w0 dir P p (co_layout opts) l (co_metadata opts) (co_tags opts) [] ow w' \<Longrightarrow>
      compute (co_layout opts) (metadata_size E (co_metadata opts)) (tag_block_size (co_tags opts)) = Ok l \<Longrightarrow>
      unat (content_start l) \<le> 70000 \<Longrightarrow> Q ow w'"
  shows "succeeds (create_writer E p opts) Q w"
proof -
  let ?ms = "metadata_size E (co_metadata opts)" and ?ts = "tag_block_size (co_tags opts)"
  have "\<exists>l. compute (co_layout opts) ?ms ?ts = Ok l \<and> unat (content_start l) \<le> 70000"
  proof (cases "co_layout opts = layout_default")
    case True
    show ?thesis
      by (rule default_layout [of ?ms ?ts 0]) (use sizes in \<open>auto simp: True layout_default_0\<close>)
  qed (use o sizes packed_layout [of ?ms ?ts] in \<open>auto simp: unat_u32_of_nat simp del: of_nat_add\<close>)
  then obtain l where "compute (co_layout opts) ?ms ?ts = Ok l" "unat (content_start l) \<le> 70000" by blast
  then show ?thesis using r s P p secs o by (intro create_run [where l = l]) (auto simp: soundD intro!: Q)
qed

lemma exists_writing_run:
  assumes "writing E w0 dir P p lo l md t content ow w" and "sound E" and "p \<notin> P"
    and "\<And>w'. writing E w0 dir P p lo l md t content ow w' \<Longrightarrow> Q False w'"
  shows "succeeds (path_exists E p) Q w"
  using assms writing_absent [OF assms(1,3)] by (simp add: exists_run soundD writing_tick)

lemma exists_stored_run:
  assumes "stored E w0 dir P p h md t content w" and "sound E" and "\<And>w'. stored E w0 dir P p h md t content w' \<Longrightarrow> Q True w'"
  shows "succeeds (path_exists E p) Q w"
proof -
  have "w_names w p \<noteq> None" using assms(1) unfolding stored_def by blast
  then show ?thesis using assms by (simp add: exists_run soundD)
qed

lemma exists_scratch_run:
  assumes "scratch w0 dir P w" and "sound E" and "q \<notin> P" and "below dir q" and "q \<noteq> dir" and "\<And>w'. scratch w0 dir P w' \<Longrightarrow> Q False w'"
  shows "succeeds (path_exists E q) Q w"
  using assms scratch_absent [OF assms(1,3-5)] by (simp add: exists_run soundD)

lemma read_empty_dir_run:
  assumes "scratch w0 dir {} w" and "sound E" and "\<And>w'. scratch w0 dir {} w' \<Longrightarrow> Q {} w'"
  shows "succeeds (sys_read_dir E dir) Q w"
  using assms by (intro read_dir_run) (auto simp: soundD)

lemma dropped_run:
  assumes "writing E w0 dir P p lo l md t content ow w" and "sound E" and "\<And>w'. scratch w0 dir P w' \<Longrightarrow> Q () w'"
  shows "succeeds (dropped E ow) Q w"
  using assms drop_run [OF soundD(2) assms(1)] by (simp add: wp_def dropped_def)

lemma open_absent_run:
  assumes "scratch w0 dir P w" and "sound E" and "P \<subseteq> lasting dir" and "\<And>w'. scratch w0 dir P w' \<Longrightarrow> Q None w'"
    and "length xs \<ge> 2"
  shows "succeeds (open_optional E (dir @ xs)) Q w"
proof -
  have q: "dir @ xs \<notin> P" "dir @ xs \<noteq> dir" using assms(3,5) by (auto simp: lasting_def)
  have "sys_open E (dir @ xs) False w = (Err NotFound, tick w)"
    using assms(2) scratch_absent [OF assms(1) q(1) below_append q(2)]
    by (simp add: sys_open_def syscall_def sound_def reliable_def)
  then show ?thesis
    using assms(1,4) by (simp add: wp_def open_optional_def open_object_def st_bind_def st_map_err_def is_not_found_def)
qed

lemma wp_set_tags_read_only:
  "\<not> ob_writable ob \<Longrightarrow> wp (set_tags E t') Q F (ob, w) \<longleftrightarrow> F (Some (ReadOnly (ob_path ob))) (ob, w)"
  by (simp add: wp_def set_tags_read_only)

text \<open>A range of the content, and its reader.\<close>

definition reading ::
  "'hn env \<Rightarrow> world \<Rightarrow> path \<Rightarrow> path set \<Rightarrow> path \<Rightarrow> 'hn tags \<Rightarrow> u8 list tags \<Rightarrow> u8 list \<Rightarrow> content_reader \<Rightarrow> u8 list \<Rightarrow>
     'hn tux_object \<Rightarrow> world \<Rightarrow> bool" where
  "reading E w0 dir P p md t content r bs ob w \<longleftrightarrow> opened E w0 dir P p md t content ob w \<and> reads r bs ob w"

lemma range_cases:
  assumes "opened E w0 dir P p md t content ob w" and "sound E"
    and "\<And>bs r w'. window content offset len = Some bs \<Longrightarrow> reading E w0 dir P p md t content r bs ob w' \<Longrightarrow> Q r (ob, w')"
    and "\<And>bound w'. window content offset len = None \<Longrightarrow> opened E w0 dir P p md t content ob w' \<Longrightarrow>
      F (Some (RangeOutOfBounds offset bound (of_nat (length content)))) (ob, w')"
  shows "wp (content_range_reader E offset len) Q F (ob, w)"
  using range_run [OF soundD(1,2) [OF assms(2)] assms(1)] assms(3,4)
  by (cases "window content offset len") (auto simp: reading_def)

lemma reading_run:
  assumes "reading E w0 dir P p md t content r bs ob w" and "sound E"
    and "\<And>w'. opened E w0 dir P p md t content ob w' \<Longrightarrow> Q bs w'"
  shows "succeeds (with_reader r (content_read_to_end E)) Q w"
  using assms read_end_run [OF soundD(2) [OF assms(2)]] by (auto simp: reading_def)

text \<open>Updates.\<close>

lemma wp_modify_metadata: "wp (modify_metadata E f) Q F (ob, w) \<longleftrightarrow> wp (set_metadata E (f (ob_metadata ob))) Q F (ob, w)"
  by (simp add: modify_metadata_def)

lemma metadata_update_run:
  assumes o: "opened E w0 dir P p md t content ob w" and r: "sound E" and wr: "ob_writable ob"
    and md': "sections_ok md' t" and cs: "unat (h_content_start (ob_header ob)) \<le> 70000"
    and sizes: "metadata_size E md' \<le> 1000" "tag_block_size t \<le> 1000"
    and Q: "\<And>ob' w' l. opened E w0 dir P p md' t content ob' w' \<Longrightarrow> ob_writable ob' \<Longrightarrow>
        compute (layout_default\<lparr>min_content_start := h_content_start (ob_header ob)\<rparr>) (metadata_size E md') (tag_block_size t) = Ok l \<Longrightarrow>
        h_content_start (ob_header ob') = content_start l \<Longrightarrow> Q () (ob', w')"
  shows "succeeds (set_metadata E md') Q (ob, w)"
proof (rule default_layout [of "metadata_size E md'" "tag_block_size t" "h_content_start (ob_header ob)"])
  fix l
  assume l: "compute (layout_default\<lparr>min_content_start := h_content_start (ob_header ob)\<rparr>) (metadata_size E md') (tag_block_size t) = Ok l"
  then show ?thesis
    by (intro set_metadata_run [OF soundD(1,2) [OF r] o wr _ l]) (use md' Q [OF _ _ l] in \<open>auto simp: sections_ok_def\<close>)
qed (use sizes cs in auto)

lemma tags_update_run:
  assumes o: "opened E w0 dir P p md t content ob w" and r: "sound E" and wr: "ob_writable ob"
    and t': "sections_ok md t'" and cs: "unat (h_content_start (ob_header ob)) \<le> 70000"
    and sizes: "metadata_size E md \<le> 1000" "tag_block_size t' \<le> 1000"
    and Q: "\<And>ob' w'. opened E w0 dir P p md t' content ob' w' \<Longrightarrow> ob_writable ob' \<Longrightarrow> Q () (ob', w')"
  shows "succeeds (set_tags E t') Q (ob, w)"
proof (rule default_layout [of "metadata_size E md" "tag_block_size t'" "h_content_start (ob_header ob)"])
  fix l
  assume l: "compute (layout_default\<lparr>min_content_start := h_content_start (ob_header ob)\<rparr>) (metadata_size E md) (tag_block_size t') = Ok l"
  then show ?thesis
    by (intro set_tags_run [OF soundD(1,2) [OF r] o wr _ l]) (use t' Q in \<open>auto simp: sections_ok_def\<close>)
qed (use sizes cs in auto)

lemma in_place_cases:
  assumes o: "opened E w0 dir P p md t content ob w" and r: "sound E" and so: "sole ob w" and wr: "ob_writable ob"
    and secs: "sections_ok md' t'" and sizes: "metadata_size E md' \<le> 1000" "tag_block_size t' \<le> 1000"
    and fits: "\<And>ob' w'. HEADER_SIZE + metadata_size E md' + tag_block_size t' \<le> unat (h_content_start (ob_header ob)) \<Longrightarrow>
        opened E w0 dir P p md' t' content ob' w' \<Longrightarrow> h_content_start (ob_header ob') = h_content_start (ob_header ob) \<Longrightarrow> Q () (ob', w')"
    and full: "\<And>n m. unat (h_content_start (ob_header ob)) < HEADER_SIZE + metadata_size E md' + tag_block_size t' \<Longrightarrow>
        opened E w0 dir P p md t content ob w \<Longrightarrow> F (Some (ReservedSpaceExceeded n m)) (ob, w)"
  shows "wp (set_sections_in_place E md' t') Q F (ob, w)"
proof (cases "unat (h_content_start (ob_header ob)) < HEADER_SIZE + metadata_size E md' + tag_block_size t'")
  case True
  then have "set_sections_in_place E md' t' (ob, w) =
     (Err (ReservedSpaceExceeded (HEADER_SIZE + metadata_size E md' + tag_block_size t') (unat (h_content_start (ob_header ob)))), (ob, w))"
    by (rule in_place_refused [OF wr]) (use sizes in \<open>simp add: HEADER_SIZE_def usize_max_def\<close>)
  then show ?thesis using full [OF True o] by (simp add: wp_def)
next
  case False
  have "aligned (HEADER_SIZE + metadata_size E md') DEFAULT_ALIGNMENT < HEADER_SIZE + metadata_size E md' + 32"
    using aligned_less [of "HEADER_SIZE + metadata_size E md'" DEFAULT_ALIGNMENT] by (simp add: DEFAULT_ALIGNMENT_def)
  then have "\<exists>l. (repartition (h_content_start (ob_header ob)) (metadata_size E md') (tag_block_size t') DEFAULT_ALIGNMENT
        :: (section_layout option, object_file_error) res) = Ok (Some l)"
    using False sizes by (auto simp: repartition_eq Let_def usize_max_def HEADER_SIZE_def)
  then obtain l where l: "(repartition (h_content_start (ob_header ob)) (metadata_size E md') (tag_block_size t') DEFAULT_ALIGNMENT
        :: (section_layout option, object_file_error) res) = Ok (Some l)" ..
  show ?thesis
    by (rule wp_conseq [OF in_place_run [OF soundD(1,2) [OF r] o so wr secs l, where Q = Q]]) (use False fits in auto)
qed

text \<open>The map of a writer, changed before it finishes; and the encoder that passes content through.\<close>

lemma finish_changed_run:
  assumes w: "writing E w0 dir P p lo l md t content ow w" and r: "sound E" and m: "modest content"
    and secs: "sections_ok (f md) t" and size: "metadata_size E (f md) = metadata_size E md"
    and Q: "\<And>ob w'. stored E w0 dir (insert p P) p (ob_header ob) (f md) t content w' \<Longrightarrow> Q ob w'"
  shows "succeeds (finish E (set_metadata_mut f ow)) Q w"
proof -
  have "writing E w0 dir P p lo l (f md) t content (set_metadata_mut f ow) w"
    using w secs size by (auto simp: writing_def pending_def writer_at_def finish_layout_def set_metadata_mut_def)
  then show ?thesis by (rule finish_run [OF soundD(1) [OF r] soundD(2) [OF r] _ m]) (rule Q)
qed

lemma wp_both: "wp (both m) Q F ((a, b), w) \<longleftrightarrow> wp m (\<lambda>x s. Q x ((fst s, fst (snd s)), snd (snd s))) (\<lambda>e s. F e ((fst s, fst (snd s)), snd (snd s))) (a, b, w)"
  by (auto simp: wp_def both_def split: prod.splits res.splits)

text \<open>Opening, with the map of the handle as an equation.\<close>

lemma opened_metadata: "opened E w0 dir P p md t content ob w \<Longrightarrow> ob_metadata ob = md"
  by (simp add: opened_def)

lemma open_steps:
  assumes st: "stored E w0 dir P p h md t content w" and r: "sound E"
    and Q: "\<And>ob w'. opened E w0 dir P p md t content ob w' \<Longrightarrow> sole ob w' \<Longrightarrow> ob_writable ob = wr \<Longrightarrow> ob_header ob = h \<Longrightarrow>
      ob_metadata ob = md \<Longrightarrow> Q ob w'"
  shows "\<not> wr \<Longrightarrow> succeeds (open_object E p) Q w" and "wr \<Longrightarrow> succeeds (open_writable E p) Q w"
  by (rule open_run [OF soundD(1) [OF r] soundD(2) [OF r] st]; simp add: Q opened_metadata)
     (rule open_writable_run [OF soundD(1) [OF r] soundD(2) [OF r] st]; simp add: Q opened_metadata)

lemma encoder_steps:
  assumes r: "sound E"
  shows "writing E w0 dir P p lo l md t [] ow w \<Longrightarrow>
      (writing E w0 dir P p lo l md t [] ow w \<Longrightarrow> Q (StoredEncoder 0) (ow, w)) \<Longrightarrow> succeeds (open_content_encoder E) Q (ow, w)"
    and "writing E w0 dir P p lo l md t [] ow w \<Longrightarrow> modest bs \<Longrightarrow>
      (\<And>ow' w'. writing E w0 dir P p lo l md t bs ow' w' \<Longrightarrow> Q1 () (StoredEncoder (of_nat (length bs)), ow', w')) \<Longrightarrow>
      succeeds (encoder_write_all E bs) Q1 (StoredEncoder 0, ow, w)"
    and "writing E w0 dir P p lo l md t content ow w \<Longrightarrow> e = StoredEncoder (of_nat (length content)) \<Longrightarrow>
      (writing E w0 dir P p lo l md t content ow w \<Longrightarrow> Q2 (of_nat (length content)) (ow, w)) \<Longrightarrow>
      succeeds (encoder_finish E e) Q2 (ow, w)"
proof -
  show "succeeds (open_content_encoder E) Q (ow, w)" if "writing E w0 dir P p lo l md t [] ow w"
    "writing E w0 dir P p lo l md t [] ow w \<Longrightarrow> Q (StoredEncoder 0) (ow, w)"
    by (rule open_encoder_run [OF that(1)]) (rule that(2) [OF that(1)])
  show "succeeds (encoder_write_all E bs) Q1 (StoredEncoder 0, ow, w)" if "writing E w0 dir P p lo l md t [] ow w" "modest bs"
    "\<And>ow' w'. writing E w0 dir P p lo l md t bs ow' w' \<Longrightarrow> Q1 () (StoredEncoder (of_nat (length bs)), ow', w')"
    by (rule encoder_run [OF soundD(2) [OF r] that(1,2)]) (rule that(3))
  show "succeeds (encoder_finish E e) Q2 (ow, w)" if "writing E w0 dir P p lo l md t content ow w"
    "e = StoredEncoder (of_nat (length content))" "writing E w0 dir P p lo l md t content ow w \<Longrightarrow> Q2 (of_nat (length content)) (ow, w)"
    unfolding that(2) by (rule encoder_finish_run [OF that(1)]) (rule that(3) [OF that(1)])
qed

lemmas writing_steps = create_known_run write_run [OF soundD(2), rotated 1] finish_run [OF soundD(1,2), rotated 2]

lemmas step_rules = writing_steps
  open_steps(1) [where wr = False, simplified] open_steps(2) [where wr = True, simplified]
  tags_run [OF soundD(1,2), rotated 2] content_run [OF soundD(1,2), rotated 2]
  exists_writing_run exists_stored_run exists_scratch_run read_empty_dir_run open_absent_run dropped_run range_cases reading_run
  metadata_update_run tags_update_run in_place_cases finish_changed_run
  encoder_steps [rotated 1] abort_run [OF soundD(2), rotated 1]

lemma readyD: "ready E K \<Longrightarrow> header_name_ok (header_names E)" "ready E K \<Longrightarrow> reliable E" "ready E K \<Longrightarrow> consts_ok E K"
  by (simp_all add: ready_def)

section \<open>Samples\<close>

lemma consts_distinct' [simp]:
  assumes "ready E K"
  shows "CONTENT_TYPE K \<noteq> LAST_MODIFIED K" "CONTENT_TYPE K \<noteq> ETAG K" "CONTENT_TYPE K \<noteq> CACHE_CONTROL K"
    "CONTENT_TYPE K \<noteq> CONTENT_DISPOSITION K" "LAST_MODIFIED K \<noteq> ETAG K" "LAST_MODIFIED K \<noteq> CACHE_CONTROL K"
    "LAST_MODIFIED K \<noteq> CONTENT_DISPOSITION K"
  using consts_distinct [of E K] assms by (auto simp: ready_def)

lemma put_eq: "put k v m = AList.update k v m"
  by (simp add: put_def tags_insert_def)

lemma sample_metadata_eq: "ready E K \<Longrightarrow>
   sample_metadata K = [(CONTENT_TYPE K, VString (ascii ''text/plain'')), (LAST_MODIFIED K, VRawDateTime timestamp)]"
  by (simp add: sample_metadata_def put_eq tags_new_def)

lemma sample_tags_eq: "sample_tags = [(ascii ''tag'', VString (ascii ''value''))]"
  by (simp add: sample_tags_def put_eq tags_new_def)

lemma name_sizes [simp]:
  assumes "ready E K"
  shows "metakey_size (header_names E) (CONTENT_TYPE K) = 14" "metakey_size (header_names E) (LAST_MODIFIED K) = 15"
    "metakey_size (header_names E) (ETAG K) = 6" "metakey_size (header_names E) (CACHE_CONTROL K) = 15"
    "metakey_size (header_names E) (CONTENT_DISPOSITION K) = 21"
  using assms by (simp_all add: ready_def consts_ok_def metakey_size_def)

lemma sample_sizes [simp]:
  "ready E K \<Longrightarrow> metadata_size E (sample_metadata K) = 61" "metadata_size E tags_new = 2"
  "tag_block_size sample_tags = 15" "tag_block_size tags_new = 2"
  by (simp_all add: sample_metadata_eq sample_tags_eq tags_new_def metadata_size_def tag_block_size_def tags_size_def string_size_def
      raw_date_time_size_def raw_date_size_def raw_time_size_def raw_time_zone_size_def num_size_def)

lemma file_sections_ok [simp]:
  "sections_ok tags_new tags_new" "ready E K \<Longrightarrow> sections_ok (sample_metadata K) sample_tags"
  "ready E K \<Longrightarrow> sections_ok (sample_metadata K) tags_new"
  by (simp_all add: sections_ok_def sample_metadata_eq sample_tags_eq tags_new_def tags_ok_def entries_ok_def string_ok_def ascii_def)

lemma options_fields [simp]:
  "co_metadata create_options_new = tags_new" "co_tags create_options_new = tags_new"
  "co_layout create_options_new = layout_default" "co_compression create_options_new = NoCompression"
  "co_metadata (with_metadata md o') = md" "co_tags (with_metadata md o') = co_tags o'"
  "co_layout (with_metadata md o') = co_layout o'" "co_compression (with_metadata md o') = co_compression o'"
  "co_metadata (with_tags t o') = co_metadata o'" "co_tags (with_tags t o') = t"
  "co_layout (with_tags t o') = co_layout o'" "co_compression (with_tags t o') = co_compression o'"
  "co_metadata (with_layout l o') = co_metadata o'" "co_tags (with_layout l o') = co_tags o'"
  "co_layout (with_layout l o') = l" "co_compression (with_layout l o') = co_compression o'"
  "co_metadata (sample_options K) = sample_metadata K" "co_tags (sample_options K) = sample_tags"
  "co_layout (sample_options K) = layout_default" "co_compression (sample_options K) = NoCompression"
  "co_metadata (metadata_options K) = sample_metadata K" "co_tags (metadata_options K) = tags_new"
  "co_layout (metadata_options K) = layout_default" "co_compression (metadata_options K) = NoCompression"
  by (simp_all add: create_options_new_def with_metadata_def with_tags_def with_layout_def sample_options_def metadata_options_def)

lemma opened_fields:
  assumes "opened E w0 dir P p md t content ob w"
  shows "object_content_length ob = of_nat (length content)" "ob_metadata ob = md"
proof -
  have "unat (content_length (ob_header ob)) = length content" 
    using opened_at [OF assms] by (auto simp: object_at_def holds_object_def)
  then show "object_content_length ob = of_nat (length content)" "ob_metadata ob = md"
    using assms by (simp_all add: object_content_length_def opened_def flip: \<open>unat (content_length (ob_header ob)) = length content\<close>)
qed

lemma sample_lookups [simp]:
  "ready E K \<Longrightarrow> get_header (sample_metadata K) (CONTENT_TYPE K) = Some (VString (ascii ''text/plain''))"
  "length sample_tags = 1" "tags_get sample_tags (ascii ''tag'') = Some (VString (ascii ''value''))"
  "length (tags_new :: 'k tags) = 0" "tags_is_empty tags_new" "get_header tags_new k = None"
  by (simp_all add: get_header_def tags_get_def sample_metadata_eq sample_tags_eq tags_new_def tags_is_empty_def)

lemma sections_ok_put:
  assumes "sections_ok md t" and "value_ok v" and "length md < 65535"
  shows "sections_ok (put k v md) t"
proof -
  have "length (AList.update k v md) \<le> Suc (length md)" by (induction md) auto
  moreover have "list_all (\<lambda>(k, v). value_ok v) (AList.update k v md)" if "list_all (\<lambda>(k, v). value_ok v) md"
    using that assms(2) by (induction md) auto
  ultimately show ?thesis
    using assms by (auto simp: sections_ok_def tags_ok_def entries_ok_def put_eq distinct_update)
qed

lemma metadata_size_put:
  "get_header md k = None \<Longrightarrow> metadata_size E (put k v md) = metadata_size E md + metakey_size (header_names E) k + value_size v"
  by (induction md) (auto simp: get_header_def tags_get_def metadata_size_def tags_size_def put_eq split: if_splits)

lemma put_put: "put k v (put k v' md) = put k v md"
  unfolding put_eq by (induction md) auto

lemma get_header_put: "get_header (put k v md) k = Some v"
  by (simp add: get_header_def tags_get_def put_eq update_conv')

lemmas put_facts = sections_ok_put metadata_size_put put_put get_header_put

lemma sample_absent [simp]:
  assumes "ready E K"
  shows "get_header (sample_metadata K) (ETAG K) = None" "get_header (sample_metadata K) (CACHE_CONTROL K) = None"
    "get_header (sample_metadata K) (CONTENT_DISPOSITION K) = None" "length (sample_metadata K) = 2"
  using consts_distinct' [OF assms] sample_metadata_eq [OF assms] by (simp_all add: get_header_def tags_get_def)

lemma sample_values [simp]:
  "string_ok long_disposition" "string_ok longer_disposition" "string_ok (ascii ''max-age=3600'')"
  "string_size long_disposition = 52" "string_size longer_disposition = 62" "string_size (ascii ''max-age=3600'') = 14"
  by (simp_all add: string_ok_def long_disposition_def longer_disposition_def ascii_def string_size_def)

lemma sixteen_bytes [simp]: "block_ok (replicate 16 n)" "vec_size num_size (replicate 16 n :: u8 list) = 18"
  by (simp_all add: block_ok_def vec_size_def num_size_def sum_list_replicate)

lemma decimal_digits:
  "decimal 0 = ''0''" "decimal (Suc 0) = ''1''" "decimal 2 = ''2''" "decimal 3 = ''3''" "decimal 4 = ''4''" "decimal 5 = ''5''"
  "decimal 6 = ''6''" "decimal 7 = ''7''"
  by (simp_all add: decimal.simps char_of_def bit_0)

lemma eight_tags_eq:
  "eight_tags = map (\<lambda>index. (ascii (''tag-'' @ decimal index), VString (ascii (''value-'' @ decimal index)))) [0, 1, 2, 3, 4, 5, 6, 7]"
proof -
  have "[0..<8] = [0, 1, 2, 3, 4, 5, 6, 7]" by (simp add: upt_rec)
  then show ?thesis by (simp add: eight_tags_def put_eq tags_new_def ascii_def decimal_digits)
qed

lemma eight_tags_facts [simp]: "length eight_tags = 8" "sections_ok tags_new eight_tags" "tag_block_size eight_tags = 138"
  by (simp_all add: eight_tags_eq ascii_def sections_ok_def tags_ok_def tags_new_def entries_ok_def string_ok_def decimal_digits
      tag_block_size_def tags_size_def string_size_def)

lemma plain_header_start [simp]: "h_content_start (plain_header l ts content) = content_start l"
  by (simp add: plain_header_def)

text \<open>The layouts of the tests that look at them.\<close>

lemma layouts [simp]:
  "compute layout_default 61 15 = Ok \<lparr>tags_start = 352, content_start = 640\<rparr>"
  "compute layout_default 61 2 = Ok \<lparr>tags_start = 352, content_start = 640\<rparr>"
  "compute layout_packed 61 15 = Ok \<lparr>tags_start = 93, content_start = 108\<rparr>"
  "compute layout_packed 61 2 = Ok \<lparr>tags_start = 93, content_start = 95\<rparr>"
  "compute (layout_default\<lparr>min_content_start := 640\<rparr>) 91 15 = Ok \<lparr>tags_start = 128, content_start = 640\<rparr>"
  "compute (layout_default\<lparr>min_content_start := 108\<rparr>) 135 15 = Ok \<lparr>tags_start = 448, content_start = 736\<rparr>"
  by (simp_all add: compute_def layout_default_def layout_packed_def DEFAULT_METADATA_RESERVE_def DEFAULT_TAG_RESERVE_def
      DEFAULT_ALIGNMENT_def repartition_def usize_add_def align_up_def usize_mul_def div_ceil_def HEADER_SIZE_def usize_max_def Let_def)

lemma length_large_content [simp]: "length large_content = 524288"
  by (simp only: large_content_def length_map length_upt)

lemma ascii_slices [simp]: "take n (ascii s) = ascii (take n s)" "drop n (ascii s) = ascii (drop n s)"
  by (simp_all add: ascii_def take_map drop_map)

lemma three_tags_eq: "three_tags = [(ascii ''first'', VString (ascii ''one'')), (ascii ''second'', VString (ascii ''two'')), (ascii ''third'', VU32 3)]"
  by (simp add: three_tags_def put_eq tags_new_def ascii_def)

lemma three_tags_facts [simp]:
  "tags_get three_tags (ascii ''second'') = Some (VString (ascii ''two''))" "tags_get three_tags (ascii ''third'') = Some (VU32 3)"
  "tags_get three_tags (ascii ''absent'') = None" "sections_ok tags_new three_tags" "tag_block_size three_tags = 41"
  by (simp_all add: three_tags_eq tags_get_def ascii_def sections_ok_def tags_ok_def tags_new_def entries_ok_def string_ok_def
      tag_block_size_def tags_size_def string_size_def num_size_def)

lemmas facts = succeeds_bind succeeds_unwrap succeeds_attempt succeeds_outcome succeeds_call succeeds_check modest_def writing_length opened_fields header_str_def wp_set_tags_read_only wp_modify_metadata wp_both window_def put_facts HEADER_SIZE_def

section \<open>Writing and reading back\<close>

lemma create_and_read_back_passes:
  assumes "ready E K" and "undisturbed E K ''round-trip'' w"
  shows "succeeds (create_and_read_back E K) (unchanged w) w"
  unfolding create_and_read_back_def Let_def
  by (rule test_run [OF assms]) (use assms(1) in \<open>auto simp: facts elim!: step_rules clearedI\<close>)

lemma writer_publishes_atomically_passes:
  assumes "ready E K" and "undisturbed E K ''atomic'' w"
  shows "succeeds (writer_publishes_atomically E K) (unchanged w) w"
  unfolding writer_publishes_atomically_def Let_def
  by (rule test_run [OF assms]) (use assms(1) in \<open>auto simp: facts elim!: step_rules clearedI\<close>)

lemma dropping_a_writer_removes_the_temp_file_passes:
  assumes "ready E K" and "undisturbed E K ''abandoned'' w"
  shows "succeeds (dropping_a_writer_removes_the_temp_file E K) (unchanged w) w"
  unfolding dropping_a_writer_removes_the_temp_file_def Let_def
  by (rule test_run [OF assms]) (use assms(1) in \<open>auto simp: facts elim!: step_rules clearedI\<close>)

lemma aborting_a_writer_removes_the_temp_file_passes:
  assumes "ready E K" and "undisturbed E K ''aborted'' w"
  shows "succeeds (aborting_a_writer_removes_the_temp_file E K) (unchanged w) w"
  unfolding aborting_a_writer_removes_the_temp_file_def Let_def
  by (rule test_run [OF assms]) (use assms(1) in \<open>auto simp: facts elim!: step_rules clearedI\<close>)

lemma ranged_reads_return_slices_of_the_content_passes:
  assumes "ready E K" and "undisturbed E K ''ranged'' w"
  shows "succeeds (ranged_reads_return_slices_of_the_content E K) (unchanged w) w"
  unfolding ranged_reads_return_slices_of_the_content_def Let_def
  by (rule test_run [OF assms]) (use assms(1) in \<open>auto simp: facts elim!: step_rules clearedI\<close>)

lemma ranged_reads_reject_out_of_bounds_passes:
  assumes "ready E K" and "undisturbed E K ''ranged-oob'' w"
  shows "succeeds (ranged_reads_reject_out_of_bounds E K) (unchanged w) w"
  unfolding ranged_reads_reject_out_of_bounds_def Let_def
  by (rule test_run [OF assms]) (use assms(1) in \<open>auto simp: facts elim!: step_rules clearedI\<close>)

lemma read_only_objects_reject_updates_passes:
  assumes "ready E K" and "undisturbed E K ''read-only'' w"
  shows "succeeds (read_only_objects_reject_updates E K) (unchanged w) w"
  unfolding read_only_objects_reject_updates_def Let_def
  by (rule test_run [OF assms]) (use assms(1) in \<open>auto simp: facts elim!: step_rules clearedI\<close>)

lemma open_optional_reports_a_missing_file_without_creating_it_passes:
  assumes "ready E K" and "undisturbed E K ''missing'' w"
  shows "succeeds (open_optional_reports_a_missing_file_without_creating_it E K) (unchanged w) w"
  unfolding open_optional_reports_a_missing_file_without_creating_it_def Let_def
  by (rule test_run [OF assms]) (use assms(1) in \<open>auto simp: facts elim!: step_rules clearedI\<close>)

lemma empty_object_round_trips_passes:
  assumes "ready E K" and "undisturbed E K ''empty'' w"
  shows "succeeds (empty_object_round_trips E K) (unchanged w) w"
  unfolding empty_object_round_trips_def Let_def
  by (rule test_run [OF assms]) (use assms(1) in \<open>auto simp: facts elim!: step_rules clearedI\<close>)

lemma larger_content_round_trips_passes:
  assumes "ready E K" and "undisturbed E K ''large'' w"
  shows "succeeds (larger_content_round_trips E K) (unchanged w) w"
  unfolding larger_content_round_trips_def Let_def
  by (rule test_run [OF assms]) (use assms(1) in \<open>auto simp: facts elim!: step_rules clearedI\<close>)

lemma find_tag_locates_a_single_entry_passes:
  assumes "ready E K" and "undisturbed E K ''find-tag'' w"
  shows "succeeds (find_tag_locates_a_single_entry E K) (unchanged w) w"
  unfolding find_tag_locates_a_single_entry_def Let_def
  by (rule test_run [OF assms]) (use assms(1) in \<open>auto simp: facts elim!: step_rules clearedI\<close>)

lemma metadata_can_be_written_during_streaming_passes:
  assumes "ready E K" and "undisturbed E K ''digest'' w"
  shows "succeeds (metadata_can_be_written_during_streaming E K) (unchanged w) w"
  unfolding metadata_can_be_written_during_streaming_def Let_def
  by (rule test_run [OF assms]) (use assms(1) in \<open>auto simp: facts elim!: step_rules clearedI\<close>)

lemma growing_metadata_in_reserved_space_preserves_the_layout_passes:
  assumes "ready E K" and "undisturbed E K ''grow-in-place'' w"
  shows "succeeds (growing_metadata_in_reserved_space_preserves_the_layout E K) (unchanged w) w"
  unfolding growing_metadata_in_reserved_space_preserves_the_layout_def Let_def
  by (rule test_run [OF assms]) (use assms(1) in \<open>auto simp: facts elim!: step_rules clearedI\<close>)

lemma metadata_beyond_the_reserve_triggers_a_rewrite_passes:
  assumes "ready E K" and "undisturbed E K ''grow-rewrite'' w"
  shows "succeeds (metadata_beyond_the_reserve_triggers_a_rewrite E K) (unchanged w) w"
  unfolding metadata_beyond_the_reserve_triggers_a_rewrite_def Let_def
  by (rule test_run [OF assms]) (use assms(1) in \<open>auto simp: facts elim!: step_rules clearedI\<close>)

lemma tags_can_shrink_passes:
  assumes "ready E K" and "undisturbed E K ''shrink'' w"
  shows "succeeds (tags_can_shrink E K) (unchanged w) w"
  unfolding tags_can_shrink_def Let_def
  by (rule test_run [OF assms]) (use assms(1) in \<open>auto simp: facts elim!: step_rules clearedI\<close>)

lemma in_place_update_rejects_oversized_sections_passes:
  assumes "ready E K" and "undisturbed E K ''in-place'' w"
  shows "succeeds (in_place_update_rejects_oversized_sections E K) (unchanged w) w"
  unfolding in_place_update_rejects_oversized_sections_def Let_def
  by (rule test_run [OF assms]) (use assms(1) in \<open>auto simp: facts elim!: step_rules clearedI\<close>)

lemma in_place_update_succeeds_within_the_reserve_passes:
  assumes "ready E K" and "undisturbed E K ''in-place-ok'' w"
  shows "succeeds (in_place_update_succeeds_within_the_reserve E K) (unchanged w) w"
  unfolding in_place_update_succeeds_within_the_reserve_def Let_def
  by (rule test_run [OF assms]) (use assms(1) in \<open>auto simp: facts elim!: step_rules clearedI\<close>)

lemma uncompressed_encoder_is_a_pass_through_passes:
  assumes "ready E K" and "undisturbed E K ''passthrough'' w"
  shows "succeeds (uncompressed_encoder_is_a_pass_through E K) (unchanged w) w"
  unfolding uncompressed_encoder_is_a_pass_through_def Let_def
  by (rule test_run [OF assms]) (use assms(1) in \<open>auto simp: facts elim!: step_rules clearedI\<close>)

section \<open>Compression and padding\<close>

lemma raw_write_refused:
  "\<not> wr_allow_raw_writes ow \<Longrightarrow> bs \<noteq> [] \<Longrightarrow> wp (writer_write_all E bs) Q F (ow, w) \<longleftrightarrow> F (Some OtherKind) (ow, w)"
  by (simp add: wp_def writer_write_all_def write_all.simps writer_write_def with_self_def st_lift_def)

lemma wp_dropped: "wp (dropped E ow) Q F w \<longleftrightarrow> Q () (drop_writer E ow w)"
  by (simp add: wp_def dropped_def)

lemma compressed_objects_reject_raw_writes_passes:
  assumes r: "ready E K" and u: "undisturbed E K ''raw-write-guard'' w"
  shows "succeeds (compressed_objects_reject_raw_writes E K) (unchanged w) w"
  unfolding compressed_objects_reject_raw_writes_def Let_def
proof (rule test_run [OF r u])
  fix dir w'
  assume s: "scratch w dir {} w'"
  let ?o = "with_compression (ZSTD 3) create_options_new :: 'a create_options" and ?p = "dir @ [''object.tuxio'']"
  have o: "co_metadata ?o = tags_new" "co_tags ?o = tags_new" "co_layout ?o = layout_default" "co_compression ?o = ZSTD 3"
    by (simp_all add: with_compression_def create_options_new_def)
  show "succeeds (if \<not> is_supported E (ZSTD 3)
        then st_bind (attempt (create_writer E ?p ?o)) (\<lambda>r. check (case r of Err (UnsupportedCompression _) \<Rightarrow> True | _ \<Rightarrow> False))
        else st_bind (st_unwrap (create_writer E ?p ?o)) (\<lambda>writer.
             st_bind (outcome_of (writer_write_all E (ascii ''raw bytes'')) writer) (\<lambda>(r, writer).
             st_bind (check (case r of Err _ \<Rightarrow> True | _ \<Rightarrow> False)) (\<lambda>_. dropped E writer)))) (\<lambda>_. cleared w dir) w'"
  proof (cases "is_supported E (ZSTD 3)")
    case False
    then show ?thesis
      using s by (auto simp: runs create_writer_def wp_bind ensure_supported_def o elim!: clearedI)
  next
    case True
    obtain l where l: "compute layout_default 2 2 = Ok l"
      by (rule default_layout [of 2 2 0]) (auto simp: layout_default_0)
    have "succeeds (create_writer E ?p ?o) (\<lambda>ow w''. \<not> wr_allow_raw_writes ow \<and> cleared w dir (drop_writer E ow w'')) w'"
      by (rule pending_create_run [OF ready_sound(2) [OF r] s])
         (use True l in \<open>auto simp: o fresh_writer_def elim!: clearedI(1) dest: drop_pending [OF ready_sound(2) [OF r]]\<close>)
    then show ?thesis
      using True by (auto simp: runs raw_write_refused wp_dropped ascii_def elim!: wp_conseq)
  qed
qed

text \<open>The file of the last test, byte for byte.\<close>

definition built :: "'hn env \<Rightarrow> 'hn test_consts \<Rightarrow> u8 list" where
  "built E K =
     (let h = plain_header \<lparr>tags_start = 352, content_start = 640\<rparr> 96 (ascii ''same bytes'')
      in prefix_image E h (sample_metadata K) sample_tags (header_layout h) @ ascii ''same bytes'')"

lemma read_stored_run:
  assumes "stored E w0 dir P p h md t content w" and "sound E"
    and "\<And>w'. stored E w0 dir P p h md t content w' \<Longrightarrow> Q (prefix_image E h md t (header_layout h) @ content) w'"
  shows "succeeds (sys_read_file E p) Q w"
proof -
  obtain i where "w_names w p = Some i" "w_data w i = prefix_image E h md t (header_layout h) @ content"
    using assms(1) unfolding stored_def holds_object_def by blast
  then show ?thesis using read_file_run [OF soundD(2) [OF assms(2)]] assms(1,3) by simp
qed

lemma packed_again: "(repartition 640 61 15 (alignment layout_default) :: (section_layout option, object_file_error) res) =
    Ok (Some \<lparr>tags_start = 96, content_start = 640\<rparr>)"
  by (simp add: layout_default_def DEFAULT_ALIGNMENT_def repartition_def usize_add_def align_up_def usize_mul_def div_ceil_def
      HEADER_SIZE_def usize_max_def Let_def)

lemma stored_scratch: "stored E w0 dir P p h md t content w \<Longrightarrow> scratch w0 dir P w"
  by (simp add: stored_def)

lemma build_sample_run:
  assumes s: "scratch w0 dir P w" and r: "ready E K" and P: "P \<subseteq> lasting dir" and p: "p \<in> lasting dir"
    and Q: "\<And>w'. scratch w0 dir (insert p P) w' \<Longrightarrow> Q (built E K) w'"
  shows "succeeds (build_sample E K p) Q w"
  unfolding build_sample_def
  using s r P p
  by (auto simp: facts packed_again built_def Let_def elim!: step_rules read_stored_run stored_scratch
      intro!: Q [unfolded built_def Let_def])

lemma built_slices:
  assumes r: "ready E K"
  shows "length (built E K) = 650"
    and "header_read_from_bytes (take 32 (built E K)) =
      Ok (plain_header \<lparr>tags_start = 352, content_start = 640\<rparr> 96 (ascii ''same bytes''))"
    and "take 3 (drop 93 (built E K)) = [0, 0, 0]"
proof -
  let ?h = "plain_header \<lparr>tags_start = 352, content_start = 640\<rparr> 96 (ascii ''same bytes'')"
  let ?m = "wire_metadata E (sample_metadata K)" and ?t = "wire_tag_block sample_tags"
  have ok: "entries_ok (\<lambda>_. True) (sample_metadata K)" "entries_ok string_ok sample_tags"
    using file_sections_ok(2) [OF r] by (simp_all add: sections_ok_def tags_ok_def)
  have m: "length ?m = 61" using length_wire_metadata [OF soundD(1) [OF ready_sound(1) [OF r]] ok(1)] r by simp
  have t: "length ?t = 15" using length_wire_tag_block [OF ok(2)] by simp
  have h: "header_ok ?h" by (simp add: header_ok_def plain_header_def CURRENT_VERSION_def)
  have b: "built E K = wire_header ?h @ ?m @ replicate 3 0 @ ?t @ replicate 529 0 @ ascii ''same bytes''"
    by (simp add: built_def Let_def prefix_image_def header_layout_def m t HEADER_SIZE_def plain_header_def)
  show "length (built E K) = 650" by (simp add: b m t)
  show "header_read_from_bytes (take 32 (built E K)) = Ok ?h" using h by (simp add: b)
  show "take 3 (drop 93 (built E K)) = [0, 0, 0]" by (simp add: b m numeral_3_eq_3)
qed

lemma scratch_cleared: "scratch w0 dir P w \<Longrightarrow> P \<subseteq> lasting dir \<Longrightarrow> cleared w0 dir w"
  unfolding cleared_def by blast

lemma padding_is_zero_filled_passes:
  assumes "ready E K" and "undisturbed E K ''deterministic'' w"
  shows "succeeds (padding_is_zero_filled E K) (unchanged w) w"
  unfolding padding_is_zero_filled_def
  by (rule test_run [OF assms])
     (use assms(1) in \<open>auto simp: runs slice_def built_slices plain_header_def elim!: build_sample_run scratch_cleared\<close>)

section \<open>All of them\<close>

definition file_tests :: "'hn file_test list" where
  "file_tests = [create_and_read_back,
     writer_publishes_atomically,
     dropping_a_writer_removes_the_temp_file,
     aborting_a_writer_removes_the_temp_file,
     ranged_reads_return_slices_of_the_content,
     ranged_reads_reject_out_of_bounds,
     metadata_can_be_written_during_streaming,
     growing_metadata_in_reserved_space_preserves_the_layout,
     metadata_beyond_the_reserve_triggers_a_rewrite,
     tags_can_shrink,
     in_place_update_rejects_oversized_sections,
     in_place_update_succeeds_within_the_reserve,
     read_only_objects_reject_updates,
     open_optional_reports_a_missing_file_without_creating_it,
     empty_object_round_trips,
     larger_content_round_trips,
     find_tag_locates_a_single_entry,
     compressed_objects_reject_raw_writes,
     uncompressed_encoder_is_a_pass_through,
     padding_is_zero_filled]"

text \<open>
  An instance of what is assumed: the names in use are the only header names, no call fails, and there
  is a directory for temporary files.
\<close>

datatype known_name = ContentType | LastModified | EntityTag | CacheControl | ContentDisposition | UncompressedLength

fun known_name_str :: "known_name \<Rightarrow> u8 list" where
  "known_name_str ContentType = ascii ''content-type''"
| "known_name_str LastModified = ascii ''last-modified''"
| "known_name_str EntityTag = ascii ''etag''"
| "known_name_str CacheControl = ascii ''cache-control''"
| "known_name_str ContentDisposition = ascii ''content-disposition''"
| "known_name_str UncompressedLength = UNCOMPRESSED_LENGTH_NAME"

definition known_names :: "known_name header_name_api" where
  "known_names = \<lparr>hn_from_bytes = (\<lambda>bs. find (\<lambda>k. known_name_str k = bs)
       [ContentType, LastModified, EntityTag, CacheControl, ContentDisposition, UncompressedLength]),
     hn_as_str = known_name_str, hn_from_static = (\<lambda>_. UncompressedLength)\<rparr>"

definition test_env :: "known_name env" where
  "test_env = \<lparr>fault = (\<lambda>_. None), transfer = (\<lambda>_. 4096), process_id = 7, header_names = known_names,
     zstd_codec = None, gzip_codec = Some tail_codec\<rparr>"

definition test_names :: "known_name test_consts" where
  "test_names = \<lparr>temp_root = sample_dir, nanos = 42, CONTENT_TYPE = ContentType, LAST_MODIFIED = LastModified, ETAG = EntityTag,
     CACHE_CONTROL = CacheControl, CONTENT_DISPOSITION = ContentDisposition\<rparr>"

lemma test_env_ready: "ready test_env test_names"
proof -
  have "hn_from_bytes known_names (known_name_str k) = Some k \<and> length (known_name_str k) \<le> 65535" for k
    by (cases k) (simp_all add: known_names_def ascii_def UNCOMPRESSED_LENGTH_NAME_def)
  then show ?thesis
    by (simp add: ready_def header_name_ok_def test_env_def test_names_def reliable_def consts_ok_def known_names_def
        uncompressed_length_key_def)
qed

lemma temp_dir_path_unused: "unused (temp_dir_path test_env test_names name) empty_world"
  by (auto simp: unused_def below_def empty_world_def temp_dir_path_def test_names_def sample_dir_def)

text \<open>C33: The acceptance tests of the file layer pass: on any machine on which no call fails, in any
  directory for temporary files in which the scratch directory of the test is new, each of the twenty
  tests runs to its end without a panic, every assertion holds, and afterwards every path shows what it
  showed before and the directories are those there were before.\<close>

theorem file_tests_pass:
  assumes "ready E K" and "world_ok w" and "temp_root K \<in> set (w_dirs w)" and "\<And>name. unused (temp_dir_path E K name) w"
  shows "list_all (\<lambda>test. \<exists>w'. test E K w = (Ok (), w') \<and> view_of w' = view_of w \<and> w_dirs w' = w_dirs w) file_tests"
proof -
  have u: "undisturbed E K name w" for name using assms(2-4) by (simp add: undisturbed_def)
  have ok: "\<exists>w'. m w = (Ok (), w') \<and> view_of w' = view_of w \<and> w_dirs w' = w_dirs w" if "succeeds m (unchanged w) w"
    for m :: "(world, unit, object_file_error) st"
    using that by (auto simp: unchanged_def dest: wp_returns)
  note passes = create_and_read_back_passes [OF assms(1) u, THEN ok]
    writer_publishes_atomically_passes [OF assms(1) u, THEN ok]
    dropping_a_writer_removes_the_temp_file_passes [OF assms(1) u, THEN ok]
    aborting_a_writer_removes_the_temp_file_passes [OF assms(1) u, THEN ok]
    ranged_reads_return_slices_of_the_content_passes [OF assms(1) u, THEN ok]
    ranged_reads_reject_out_of_bounds_passes [OF assms(1) u, THEN ok]
    metadata_can_be_written_during_streaming_passes [OF assms(1) u, THEN ok]
    growing_metadata_in_reserved_space_preserves_the_layout_passes [OF assms(1) u, THEN ok]
    metadata_beyond_the_reserve_triggers_a_rewrite_passes [OF assms(1) u, THEN ok]
    tags_can_shrink_passes [OF assms(1) u, THEN ok]
    in_place_update_rejects_oversized_sections_passes [OF assms(1) u, THEN ok]
    in_place_update_succeeds_within_the_reserve_passes [OF assms(1) u, THEN ok]
    read_only_objects_reject_updates_passes [OF assms(1) u, THEN ok]
    open_optional_reports_a_missing_file_without_creating_it_passes [OF assms(1) u, THEN ok]
    empty_object_round_trips_passes [OF assms(1) u, THEN ok]
    larger_content_round_trips_passes [OF assms(1) u, THEN ok]
    find_tag_locates_a_single_entry_passes [OF assms(1) u, THEN ok]
    compressed_objects_reject_raw_writes_passes [OF assms(1) u, THEN ok]
    uncompressed_encoder_is_a_pass_through_passes [OF assms(1) u, THEN ok]
    padding_is_zero_filled_passes [OF assms(1) u, THEN ok]
  show ?thesis
    unfolding file_tests_def list.pred_inject by (intro conjI list.pred_inject(1) passes)
qed

theorem file_tests_pass_witness:
  "list_all (\<lambda>test. \<exists>w'. test test_env test_names empty_world = (Ok (), w') \<and> view_of w' = view_of empty_world
     \<and> w_dirs w' = w_dirs empty_world) file_tests"
  by (rule file_tests_pass [OF test_env_ready worlds_ok(1) _ temp_dir_path_unused])
     (simp add: test_names_def empty_world_def)

end
