(* ===== verification/AsyncFileTests.thy ===== *)
theory AsyncFileTests
  imports FileTestRuns AsyncGuarantees
begin

text \<open>
  The tests of \<open>src/src/fs/async_io.rs\<close>, statement by statement, and that they pass on every runtime
  that does what the blocking calls do. The calls of \<open>std::fs\<close> that the tests make themselves act on the
  world directly. The two tests in which one layer reads what the other wrote are not here: that is
  \<open>async_store_round_trip\<close>.
\<close>

type_synonym ('t, 'hn) async_file_test =
  "('t, 'hn) tokio \<Rightarrow> 'hn env \<Rightarrow> 'hn test_consts \<Rightarrow> ('t runtime, unit, object_file_error) st"

section \<open>What the tests are made of\<close>

text \<open>\<open>AsyncWriteExt::write_all\<close>, and an operation that runs on fuel.\<close>

definition async_write_all :: "('t, 'hn) tokio \<Rightarrow> u8 list \<Rightarrow> ('t, 'hn, unit, io_kind) async_writer_method" where
  "async_write_all tk = write_all (async_writer_write tk)"

definition fuelled :: "('s \<Rightarrow> (('a, 'e) res \<times> 's) option) \<Rightarrow> ('s, 'a, 'e) st" where
  "fuelled m s = (case m s of Some x \<Rightarrow> x | None \<Rightarrow> (Panic, s))"

definition async_temp_dir_path :: "'hn env \<Rightarrow> 'hn test_consts \<Rightarrow> string \<Rightarrow> path" where
  "async_temp_dir_path E K name =
     temp_root K @ [''tux-io-encoding-async-'' @ name @ ''-'' @ decimal (process_id E) @ ''-'' @ decimal (nanos K)]"

definition in_async_temp_dir ::
  "'hn env \<Rightarrow> 'hn test_consts \<Rightarrow> string \<Rightarrow> (path \<Rightarrow> ('t runtime, unit, 'f) st) \<Rightarrow> ('t runtime, unit, 'f) st" where
  "in_async_temp_dir E K name body =
     st_bind (on_world (new_dir E (async_temp_dir_path E K name))) (\<lambda>dir s.
       case body dir s of (r, (t, w)) \<Rightarrow> (r, (t, temp_dir_drop E dir w)))"

section \<open>The tests\<close>

definition async_create_and_read_back :: "('t, 'hn) async_file_test" where
  "async_create_and_read_back tk E K = in_async_temp_dir E K ''round-trip'' (\<lambda>dir.
     let path = dir @ [''object.tuxio''];
         metadata = put (CONTENT_TYPE K) (VString (ascii ''text/plain'')) tags_new;
         t = put (ascii ''tag'') (VString (ascii ''value'')) tags_new
     in st_bind (st_unwrap (async_create_writer tk E path (with_tags t (with_metadata metadata create_options_new)))) (\<lambda>writer.
        st_bind (call (async_write_all tk (ascii ''Hello, world!'')) writer) (\<lambda>(_, writer).
        st_bind (st_unwrap (fuelled (async_finish 2 tk E writer))) (\<lambda>object.
        st_bind (check (async_content_length object = 13)) (\<lambda>_.
        st_bind (st_unwrap (async_open tk E path)) (\<lambda>object.
        st_bind (check (header_str object (CONTENT_TYPE K) = Some (ascii ''text/plain''))) (\<lambda>_.
        st_bind (call (async_tag_count tk) object) (\<lambda>(count, object).
        st_bind (check (count = 1)) (\<lambda>_.
        st_bind (call (async_object_read_tags tk) object) (\<lambda>(t, object).
        st_bind (check (tags_get t (ascii ''tag'') = Some (VString (ascii ''value'')))) (\<lambda>_.
        st_bind (call (async_read_content_to_vec tk E) object) (\<lambda>(content, object).
        check (content = ascii ''Hello, world!'')))))))))))))"

definition ranged_reads_stop_at_the_end_of_the_content :: "('t, 'hn) async_file_test" where
  "ranged_reads_stop_at_the_end_of_the_content tk E K = in_async_temp_dir E K ''ranged'' (\<lambda>dir.
     let path = dir @ [''object.tuxio'']
     in st_bind (st_unwrap (async_create_writer tk E path create_options_new)) (\<lambda>writer.
        st_bind (call (async_write_all tk (ascii ''0123456789'')) writer) (\<lambda>(_, writer).
        st_bind (st_unwrap (fuelled (async_finish 2 tk E writer))) (\<lambda>_.
        st_bind (st_unwrap (async_open tk E path)) (\<lambda>object.
        st_bind (call (async_content_range_reader tk 3 (Some 4)) object) (\<lambda>(reader, object).
        st_bind (st_unwrap (with_reader reader (tk_read_to_end tk (async_content_read tk)))) (\<lambda>buffer.
        st_bind (check (buffer = ascii ''3456'')) (\<lambda>_.
        st_bind (call (async_content_range_reader tk 0 None) object) (\<lambda>(reader, object).
        st_bind (st_unwrap (with_reader reader (tk_read_to_end tk (async_content_read tk)))) (\<lambda>buffer.
        st_bind (check (buffer = ascii ''0123456789'')) (\<lambda>_.
        st_bind (outcome_of (async_content_range_reader tk 11 None) object) (\<lambda>(r, object).
        check (case r of Err (RangeOutOfBounds _ _ _) \<Rightarrow> True | _ \<Rightarrow> False)))))))))))))"

definition an_owned_reader_outlives_the_object_handle :: "('t, 'hn) async_file_test" where
  "an_owned_reader_outlives_the_object_handle tk E K = in_async_temp_dir E K ''owned-reader'' (\<lambda>dir.
     let path = dir @ [''object.tuxio'']
     in st_bind (st_unwrap (async_create_writer tk E path create_options_new)) (\<lambda>writer.
        st_bind (call (async_write_all tk (ascii ''0123456789'')) writer) (\<lambda>(_, writer).
        st_bind (st_unwrap (fuelled (async_finish 2 tk E writer))) (\<lambda>_.
        st_bind (st_unwrap (async_open tk E path)) (\<lambda>object.
        st_bind (st_unwrap (into_content_reader tk object)) (\<lambda>reader.
        st_bind (check (remaining reader = 10)) (\<lambda>_.
        st_bind (call (tk_read_to_end tk (async_content_read tk)) reader) (\<lambda>(buffer, reader).
        st_bind (check (buffer = ascii ''0123456789'')) (\<lambda>_.
        st_bind (check (content_section_is_empty reader)) (\<lambda>_.
        st_bind (st_unwrap (async_open tk E path)) (\<lambda>object.
        st_bind (st_unwrap (into_content_range_reader tk 3 (Some 4) object)) (\<lambda>ranged.
        st_bind (call (tk_read_to_end tk (async_content_read tk)) ranged) (\<lambda>(buffer, ranged).
        st_bind (check (buffer = ascii ''3456'')) (\<lambda>_.
        st_bind (st_unwrap (async_open tk E path)) (\<lambda>object.
        st_bind (attempt (into_content_range_reader tk 11 None object)) (\<lambda>r.
        check (case r of Err (RangeOutOfBounds _ _ _) \<Rightarrow> True | _ \<Rightarrow> False)))))))))))))))))"

definition async_larger_content_round_trips :: "('t, 'hn) async_file_test" where
  "async_larger_content_round_trips tk E K = in_async_temp_dir E K ''large'' (\<lambda>dir.
     let path = dir @ [''object.tuxio'']
     in st_bind (st_unwrap (async_create_writer tk E path create_options_new)) (\<lambda>writer.
        st_bind (call (async_write_all tk (large_content)) writer) (\<lambda>(_, writer).
        st_bind (st_unwrap (fuelled (async_finish 2 tk E writer))) (\<lambda>_.
        st_bind (st_unwrap (async_open tk E path)) (\<lambda>object.
        st_bind (check (async_content_length object = of_nat (length large_content))) (\<lambda>_.
        st_bind (call (async_read_content_to_vec tk E) object) (\<lambda>(content, object).
        check (content = large_content))))))))"

definition publishes_atomically :: "('t, 'hn) async_file_test" where
  "publishes_atomically tk E K = in_async_temp_dir E K ''atomic'' (\<lambda>dir.
     let path = dir @ [''object.tuxio'']
     in st_bind (st_unwrap (async_create_writer tk E path create_options_new)) (\<lambda>writer.
        st_bind (call (async_write_all tk (ascii ''partial'')) writer) (\<lambda>(_, writer).
        st_bind (on_world (path_exists E path)) (\<lambda>there.
        st_bind (check (\<not> there)) (\<lambda>_.
        st_bind (st_unwrap (fuelled (async_finish 2 tk E writer))) (\<lambda>_.
        st_bind (on_world (path_exists E path)) (\<lambda>there.
        check there)))))))"

definition abort_removes_the_temp_file :: "('t, 'hn) async_file_test" where
  "abort_removes_the_temp_file tk E K = in_async_temp_dir E K ''abort'' (\<lambda>dir.
     let path = dir @ [''object.tuxio'']
     in st_bind (st_unwrap (async_create_writer tk E path create_options_new)) (\<lambda>writer.
        st_bind (call (async_write_all tk (ascii ''aborted'')) writer) (\<lambda>(_, writer).
        st_bind (st_unwrap (async_abort tk E writer)) (\<lambda>_.
        st_bind (on_world (path_exists E path)) (\<lambda>there.
        st_bind (check (\<not> there)) (\<lambda>_.
        st_bind (st_unwrap (on_world (sys_read_dir E dir))) (\<lambda>entries.
        check (card entries = 0))))))))"

definition metadata_updates_preserve_content_and_layout :: "('t, 'hn) async_file_test" where
  "metadata_updates_preserve_content_and_layout tk E K = in_async_temp_dir E K ''metadata'' (\<lambda>dir.
     let path = dir @ [''object.tuxio'']
     in st_bind (st_unwrap (async_create_writer tk E path create_options_new)) (\<lambda>writer.
        st_bind (call (async_write_all tk (ascii ''content stays put'')) writer) (\<lambda>(_, writer).
        st_bind (st_unwrap (fuelled (async_finish 2 tk E writer))) (\<lambda>_.
        st_bind (st_unwrap (async_open_writable tk E path)) (\<lambda>object.
        let start = h_content_start (ob_header object);
            metadata = put (CONTENT_TYPE K) (VString (ascii ''application/json'')) (ob_metadata object)
        in st_bind (call (fuelled (async_set_metadata 2 tk E metadata)) object) (\<lambda>(_, object).
           st_bind (check (h_content_start (ob_header object) = start)) (\<lambda>_.
           st_bind (call (async_read_content_to_vec tk E) object) (\<lambda>(content, object).
           st_bind (check (content = ascii ''content stays put'')) (\<lambda>_.
           check (header_str object (CONTENT_TYPE K) = Some (ascii ''application/json'')))))))))))"

section \<open>Running them\<close>

text \<open>
  The four calls of \<open>std::fs\<close> that the tests make take effect in the world that the runtime will settle
  to, as if everything accepted had been carried out before.
\<close>

definition std_calls_ok :: "'hn env \<Rightarrow> ('t runtime \<Rightarrow> world) \<Rightarrow> bool" where
  "std_calls_ok E settle \<longleftrightarrow>
     (\<forall>p. sim settle (on_world (sys_mkdir E p)) (sys_mkdir E p)) \<and>
     (\<forall>p. sim settle (on_world (sys_stat E p)) (sys_stat E p)) \<and>
     (\<forall>p. sim settle (on_world (sys_remove_dir_all E p)) (sys_remove_dir_all E p)) \<and>
     (\<forall>p. sim settle (on_world (sys_read_dir E p)) (sys_read_dir E p))"

definition passing :: "('t runtime \<Rightarrow> world) \<Rightarrow> 't runtime \<Rightarrow> ('t runtime, unit, object_file_error) st \<Rightarrow> bool" where
  "passing settle s m \<longleftrightarrow>
     (\<exists>s'. m s = (Ok (), s') \<and> view_of (settle s') = view_of (settle s) \<and> w_dirs (settle s') = w_dirs (settle s))"

text \<open>
  A handle whose file is still the one at its path, and a reader over it, as local variables: when the
  reader is done the path can be opened again.
\<close>

definition held ::
  "'hn env \<Rightarrow> world \<Rightarrow> path \<Rightarrow> path set \<Rightarrow> path \<Rightarrow> object_header \<Rightarrow> 'hn tags \<Rightarrow> u8 list tags \<Rightarrow> u8 list \<Rightarrow> 'hn tux_object \<Rightarrow> world \<Rightarrow> bool" where
  "held E w0 dir P p h md t content ob w \<longleftrightarrow>
     stored E w0 dir P p h md t content w \<and> opened E w0 dir P p md t content ob w"

definition held_reader ::
  "'hn env \<Rightarrow> world \<Rightarrow> path \<Rightarrow> path set \<Rightarrow> path \<Rightarrow> object_header \<Rightarrow> 'hn tags \<Rightarrow> u8 list tags \<Rightarrow> u8 list \<Rightarrow> content_reader \<Rightarrow> u8 list \<Rightarrow>
     world \<Rightarrow> bool" where
  "held_reader E w0 dir P p h md t content r bs w \<longleftrightarrow>
     stored E w0 dir P p h md t content w \<and> (\<exists>f. w_open w (cr_file r) = Some f \<and>
       bs = take (unat (remaining r)) (drop (of_pos f) (w_data w (of_inode f))))"

lemma stored_frame:
  assumes "frame F {} w w'" and "stored E w0 dir P p h md t content w"
  shows "stored E w0 dir P p h md t content w'"
  using assms(2) scratch_frame [OF assms(1)] frameD(1) [OF assms(1)] frameD(6) [OF assms(1)] unfolding stored_def by (metis empty_iff)

lemma held_open_run:
  assumes st: "stored E w0 dir P p h md t content w" and r: "sound E"
    and Q: "\<And>ob w'. held E w0 dir P p h md t content ob w' \<Longrightarrow> Q ob w'"
  shows "succeeds (open_object E p) Q w"
  by (rule open_run [OF soundD(1) [OF r] soundD(2) [OF r] st]) (simp add: Q held_def)

lemma held_whole_run:
  assumes o: "held E w0 dir P p h md t content ob w" and r: "sound E"
    and Q: "\<And>r w'. held_reader E w0 dir P p h md t content r content w' \<Longrightarrow> remaining r = of_nat (length content) \<Longrightarrow> Q r (ob, w')"
  shows "succeeds (stored_content_reader E) Q (ob, w)"
proof (rule succeedsI [OF stored_content_wp [OF soundD(1) [OF r] opened_at]])
  show "opened E w0 dir P p md t content ob w" using o by (simp add: held_def)
  fix a :: content_reader and s :: "'a tux_object \<times> world"
  assume a: "frame {ob_file ob} {} w (snd s) \<and> fst s = ob \<and> cr_file a = ob_file ob \<and> unat (remaining a) = length content
        \<and> (\<exists>f. w_open (snd s) (ob_file ob) = Some f \<and> of_pos f = unat (h_content_start (ob_header ob))
            \<and> drop (of_pos f) (w_data (snd s) (of_inode f)) = content)"
  then have n: "unat (remaining a) = length content" by blast
  have "remaining a = of_nat (length content)" by (simp flip: n)
  moreover have "held_reader E w0 dir P p h md t content a content (snd s)"
    using a stored_frame [of "{ob_file ob}" w "snd s"] o by (auto simp: held_def held_reader_def)
  ultimately show "Q a s" using a Q [of a "snd s"] by (cases s) simp
qed (use soundD(2) [OF r] in simp)

lemma held_range_cases:
  assumes o: "held E w0 dir P p h md t content ob w" and r: "sound E"
    and Q: "\<And>bs r w'. window content offset len = Some bs \<Longrightarrow> held_reader E w0 dir P p h md t content r bs w' \<Longrightarrow> Q r (ob, w')"
    and F: "\<And>bound w'. window content offset len = None \<Longrightarrow> stored E w0 dir P p h md t content w' \<Longrightarrow>
      F (Some (RangeOutOfBounds offset bound (of_nat (length content)))) (ob, w')"
  shows "wp (content_range_reader E offset len) Q F (ob, w)"
proof -
  have at: "object_at E ob w t content" "\<not> is_compressed ob" "modest content" and st: "stored E w0 dir P p h md t content w"
    using o by (simp_all add: held_def opened_def is_compressed_def)
  show ?thesis
    by (rule wp_conseq [OF content_range_reader_wp [OF soundD(1) [OF r] at(1,2) modest_room [OF at(3)]]])
       (use soundD(2) [OF r] stored_frame [OF _ st] in \<open>auto simp: held_reader_def intro!: Q F split: if_splits\<close>)
qed

lemma held_read_run:
  assumes o: "held_reader E w0 dir P p h md t content r bs w" and R: "sound E"
    and Q: "\<And>r' w'. stored E w0 dir P p h md t content w' \<Longrightarrow> (unat (remaining r) = length bs \<Longrightarrow> remaining r' = 0) \<Longrightarrow> Q bs (r', w')"
  shows "succeeds (content_read_to_end E) Q (r, w)"
proof -
  from o obtain f where f: "w_open w (cr_file r) = Some f" and bs: "bs = take (unat (remaining r)) (drop (of_pos f) (w_data w (of_inode f)))"
    and st: "stored E w0 dir P p h md t content w"
    by (auto simp: held_reader_def)
  show ?thesis
  proof (rule succeedsI [OF content_read_to_end_wp [OF f]])
    fix x and s :: "content_reader \<times> world"
    assume x: "frame {cr_file r} {} w (snd s) \<and> x = take (unat (remaining r)) (drop (of_pos f) (w_data w (of_inode f)))
        \<and> unat (remaining (fst s)) = unat (remaining r) - length x"
    then have b: "x = bs" using bs by metis
    then have "remaining (fst s) = 0" if "unat (remaining r) = length bs" using x that by (metis diff_self_eq_0 unat_eq_0)
    then show "Q x s" using Q [of "snd s" "fst s"] b x stored_frame [OF _ st, of "{cr_file r}" "snd s"] by simp
  qed (use soundD(2) [OF R] in simp)
qed

lemma type_values [simp]:
  "string_ok (ascii ''text/plain'')" "string_ok (ascii ''application/json'')"
  "string_size (ascii ''text/plain'') = 12" "string_size (ascii ''application/json'') = 18"
  by (simp_all add: string_ok_def ascii_def string_size_def)

lemma async_layouts:
  "compute layout_default 2 2 = Ok \<lparr>tags_start = 320, content_start = 608\<rparr>"
  "compute (layout_default\<lparr>min_content_start := 608\<rparr>) 35 2 = Ok \<lparr>tags_start = 96, content_start = 608\<rparr>"
  by (simp_all add: compute_def layout_default_def DEFAULT_METADATA_RESERVE_def DEFAULT_TAG_RESERVE_def
      DEFAULT_ALIGNMENT_def repartition_def usize_add_def align_up_def usize_mul_def div_ceil_def HEADER_SIZE_def usize_max_def Let_def)

lemma plain_header_plain [simp]: "compression_type (plain_header l ts content) = NoCompression"
  by (simp add: plain_header_def)

lemma empty_with_sample_tags [simp]: "sections_ok tags_new sample_tags"
  by (simp add: sections_ok_def sample_tags_eq tags_new_def tags_ok_def entries_ok_def string_ok_def ascii_def)

lemmas async_facts = facts async_content_length_def object_content_length_def [symmetric] content_section_is_empty_def
  sample_tags_def [symmetric]


locale tokio_tests = tokio_files +
  assumes std_calls: "std_calls_ok E settle"
begin

lemma direct:
  "sim settle (on_world (sys_mkdir E p)) (sys_mkdir E p)" "sim settle (on_world (sys_stat E p)) (sys_stat E p)"
  "sim settle (on_world (sys_remove_dir_all E p)) (sys_remove_dir_all E p)"
  "sim settle (on_world (sys_read_dir E p)) (sys_read_dir E p)"
  using std_calls by (simp_all add: std_calls_ok_def)

lemma direct_stat: "sim settle (on_world (path_exists E p)) (path_exists E p)" "sim settle (on_world (path_is_dir E p)) (path_is_dir E p)"
proof -
  have "sys_stat E p (snd s) = (r, w) \<Longrightarrow> sys_stat E p (settle s) = (r, settle (fst s, w))" for s r w
    using simD [OF direct(2) [of p], of s r "(fst s, w)"] by (simp add: on_world_def)
  then show "sim settle (on_world (path_exists E p)) (path_exists E p)" "sim settle (on_world (path_is_dir E p)) (path_is_dir E p)"
    by (auto simp: sim_def on_world_def path_exists_def path_is_dir_def split: prod.splits res.splits)
qed

lemma dropped_dir: "settle (t, temp_dir_drop E dir w) = temp_dir_drop E dir (settle (t, w))"
proof -
  obtain r s' where run: "on_world (sys_remove_dir_all E dir) (t, w) = (r, s')" by (metis surj_pair)
  then have "s' = (t, temp_dir_drop E dir w)" by (auto simp: on_world_def temp_dir_drop_def split: prod.splits)
  then show ?thesis using simD [OF direct(3) run] by (simp add: temp_dir_drop_def)
qed

subsection \<open>Steps\<close>

lemma via:
  assumes "sim settle m m'"
    and "wp m' (\<lambda>a w. \<forall>s'. w = settle s' \<longrightarrow> Q a s') (\<lambda>e w. \<forall>s'. w = settle s' \<longrightarrow> F e s') (settle s)"
  shows "wp m Q F s"
  using assms(2) simD [OF assms(1)] by (cases "m s") (auto simp: wp_def split: res.splits)

lemma via_on:
  assumes "sim (map_prod g settle) m m'"
    and "wp m' (\<lambda>a x. \<forall>ob s'. x = (g ob, settle s') \<longrightarrow> Q a (ob, s')) (\<lambda>e x. \<forall>ob s'. x = (g ob, settle s') \<longrightarrow> F e (ob, s')) (g ob, settle s)"
  shows "wp m Q F (ob, s)"
  using assms(2) simD [OF assms(1), of "(ob, s)"] by (cases "m (ob, s)") (auto simp: wp_def split: res.splits)

lemma via_id:
  assumes "sim (map_prod id settle) m m'"
    and "wp m' (\<lambda>a x. \<forall>ob s'. x = (ob, settle s') \<longrightarrow> Q a (ob, s')) (\<lambda>e x. \<forall>ob s'. x = (ob, settle s') \<longrightarrow> F e (ob, s')) (ob, settle s)"
  shows "wp m Q F (ob, s)"
  using via_on [OF assms(1)] assms(2) by simp

lemma async_test_run:
  assumes r: "sound E" and ok: "world_ok (settle s)" and root: "temp_root K \<in> set (w_dirs (settle s))"
    and free: "unused (async_temp_dir_path E K name) (settle s)"
    and body: "\<And>dir s'. scratch (settle s) dir {} (settle s') \<Longrightarrow> succeeds (body dir) (\<lambda>_ s''. cleared (settle s) dir (settle s'')) s'"
  shows "passing settle s (in_async_temp_dir E K name body)"
proof -
  let ?dir = "async_temp_dir_path E K name"
  have path: "butlast ?dir = temp_root K" "?dir \<noteq> []" by (simp_all add: async_temp_dir_path_def)
  obtain w' where mk: "sys_mkdir E ?dir (settle s) = (Ok (), w')" and sc: "scratch (settle s) ?dir {} w'"
    using mkdir_fresh [OF soundD(2) [OF r] ok _ free] root path by auto
  obtain r s1 where run: "on_world (sys_mkdir E ?dir) s = (r, s1)" by (metis surj_pair)
  with simD [OF direct(1) run] mk have s1: "r = Ok ()" "w' = settle s1" by simp_all
  then have "sys_mkdir E ?dir (snd s) = (Ok (), snd s1)" "fst s1 = fst s"
    using run by (auto simp: on_world_def split: prod.splits)
  then have new: "on_world (new_dir E ?dir) s = (Ok ?dir, s1)"
    by (cases s1) (simp add: on_world_def new_dir_made [OF path(2)])
  obtain s2 where b: "body ?dir s1 = (Ok (), s2)" "cleared (settle s) ?dir (settle s2)"
    using body [OF sc [unfolded s1(2)]] by (auto dest: wp_returns)
  obtain t w where s2: "s2 = (t, w)" by (cases s2)
  obtain P where P: "P \<subseteq> lasting ?dir" "scratch (settle s) ?dir P (settle s2)" using b(2) by (auto simp: cleared_def)
  show ?thesis
    unfolding passing_def in_async_temp_dir_def
    using b(1) temp_dir_dropped [OF soundD(2) [OF r] P(2,1)]
    by (intro exI [of _ "(t, temp_dir_drop E ?dir w)"]) (simp add: new st_bind_def s2 dropped_dir)
qed

lemma creating_run:
  assumes "succeeds (create_writer E p opts) (\<lambda>ow w. \<forall>aw s'. ow = as_writer aw \<longrightarrow> w = settle s' \<longrightarrow> Q aw s') (settle s)"
    and "co_compression opts = NoCompression"
  shows "succeeds (async_create_writer tk E p opts) Q s"
proof -
  obtain r s' where run: "async_create_writer tk E p opts s = (r, s')" by (metis surj_pair)
  show ?thesis
    using assms(1) creating [OF assms(2) run] by (cases r) (auto simp: wp_def run simp del: split_paired_All)
qed

lemma finishing_run:
  assumes "succeeds (finish E (as_writer aw)) (\<lambda>ob w. \<forall>s'. w = settle s' \<longrightarrow> Q ob s') (settle s)" and "aw_compression aw = NoCompression"
  shows "succeeds (fuelled (async_finish 2 tk E aw)) Q s"
  using assms(1) finishing [OF assms(2), of 0 s]
  by (auto simp: wp_def fuelled_def numeral_2_eq_2 split: res.splits simp del: async_finish.simps)

lemma updating_run:
  assumes "succeeds (set_metadata E md) (\<lambda>a x. \<forall>ob s'. x = (ob, settle s') \<longrightarrow> Q a (ob, s')) (ob, settle s)"
    and "compression_type (ob_header ob) = NoCompression"
  shows "succeeds (fuelled (async_set_metadata 2 tk E md)) Q (ob, s)"
  using assms(1) updating_metadata [OF assms(2), of 0 md s]
  by (auto simp: wp_def fuelled_def numeral_2_eq_2 split: res.splits simp del: async_finish.simps)

lemma reading_whole_run:
  assumes "succeeds (read_content_to_vec E) (\<lambda>a x. \<forall>ob s'. x = (ob, settle s') \<longrightarrow> Q a (ob, s')) (ob, settle s)"
    and "compression_type (ob_header ob) = NoCompression"
  shows "succeeds (async_read_content_to_vec tk E) Q (ob, s)"
proof -
  obtain r ob' s' where run: "async_read_content_to_vec tk E (ob, s) = (r, (ob', s'))" by (metis surj_pair)
  have "is_supported E (compression_type (ob_header ob))" "decode_closure E bs (compression_type (ob_header ob)) \<noteq> Panic" for bs
    by (simp_all add: assms(2) is_supported_def decode_closure_def)
  from content_to_vec [OF this run] assms(1) show ?thesis
    by (cases r) (auto simp: wp_def run simp del: split_paired_All)
qed

lemma owned_wp:
  "wp (into_content_reader tk ob) Q F s \<longleftrightarrow> wp (async_stored_content_reader tk) (\<lambda>a x. Q a (snd x)) (\<lambda>e x. F e (snd x)) (ob, s)"
  "wp (into_content_range_reader tk offset len ob) Q F s \<longleftrightarrow>
     wp (async_content_range_reader tk offset len) (\<lambda>a x. Q a (snd x)) (\<lambda>e x. F e (snd x)) (ob, s)"
  by (auto simp: wp_def owned_readers split: res.splits prod.splits)

lemma succeeds_via:
  "sim settle m m' \<Longrightarrow> succeeds m' (\<lambda>a w. \<forall>s'. w = settle s' \<longrightarrow> Q a s') (settle s) \<Longrightarrow> succeeds m Q s"
  "sim (map_prod g settle) n n' \<Longrightarrow> succeeds n' (\<lambda>a x. \<forall>ob s'. x = (g ob, settle s') \<longrightarrow> Q' a (ob, s')) (g ob, settle s) \<Longrightarrow>
     succeeds n Q' (ob, s)"
  by (erule via, erule wp_conseq; simp) (erule via_on, erule wp_conseq; simp)

lemma succeeds_via_id:
  "sim (map_prod id settle) n n' \<Longrightarrow> succeeds n' (\<lambda>a x. \<forall>ob s'. x = (ob, settle s') \<longrightarrow> Q' a (ob, s')) (ob, settle s) \<Longrightarrow>
     succeeds n Q' (ob, s)"
  using succeeds_via(2) [where g = id] by simp

lemma writing_all: "sim (map_prod as_writer settle) (async_write_all tk bs) (writer_write_all E bs)"
  unfolding async_write_all_def writer_write_all_def by (rule sim_write_all) (rule writing)

lemmas through = opens [THEN succeeds_via(1)] direct_stat(1) [THEN succeeds_via(1)] direct(4) [THEN succeeds_via(1)]
  aborting [THEN succeeds_via(1)] tag_reading(1) [THEN succeeds_via_id] tag_reading(2) [THEN succeeds_via_id]
  readers(1) [THEN succeeds_via_id] via_id [OF readers(2)] streams(1) [OF content_reading, THEN succeeds_via_id]
  sim_with_reader [OF streams(1) [OF content_reading], THEN succeeds_via(1)]
  writing_all [THEN succeeds_via(2)] creating_run finishing_run updating_run reading_whole_run

lemma plain:
  "writing E w0 dir P p lo l md t content (as_writer aw) w \<Longrightarrow> aw_compression aw = NoCompression"
  "opened E w0 dir P p md t content ob w \<Longrightarrow> compression_type (ob_header ob) = NoCompression"
  by (simp_all add: writing_def opened_def as_writer_def)

subsection \<open>Passing\<close>

lemma async_create_and_read_back_passes:
  assumes "ready E K" and "world_ok (settle s)" and "temp_root K \<in> set (w_dirs (settle s))"
    and "unused (async_temp_dir_path E K ''round-trip'') (settle s)"
  shows "passing settle s (async_create_and_read_back tk E K)"
  unfolding async_create_and_read_back_def Let_def
  by (rule async_test_run [OF ready_sound(1) [OF assms(1)] assms(2-4)])
     (use assms(1) in \<open>auto simp: async_facts owned_wp plain intro!: through elim!: step_rules clearedI
       simp del: split_paired_All\<close>)

lemma ranged_reads_stop_at_the_end_of_the_content_passes:
  assumes "ready E K" and "world_ok (settle s)" and "temp_root K \<in> set (w_dirs (settle s))"
    and "unused (async_temp_dir_path E K ''ranged'') (settle s)"
  shows "passing settle s (ranged_reads_stop_at_the_end_of_the_content tk E K)"
  unfolding ranged_reads_stop_at_the_end_of_the_content_def Let_def
  by (rule async_test_run [OF ready_sound(1) [OF assms(1)] assms(2-4)])
     (use assms(1) in \<open>auto simp: async_facts owned_wp plain intro!: through elim!: step_rules clearedI
       simp del: split_paired_All\<close>)

lemma an_owned_reader_outlives_the_object_handle_passes:
  assumes "ready E K" and "world_ok (settle s)" and "temp_root K \<in> set (w_dirs (settle s))"
    and "unused (async_temp_dir_path E K ''owned-reader'') (settle s)"
  shows "passing settle s (an_owned_reader_outlives_the_object_handle tk E K)"
  unfolding an_owned_reader_outlives_the_object_handle_def Let_def
  by (rule async_test_run [OF ready_sound(1) [OF assms(1)] assms(2-4)])
     (use assms(1) in \<open>auto simp: async_facts owned_wp plain intro!: through
       elim!: writing_steps held_open_run held_whole_run held_range_cases held_read_run clearedI simp del: split_paired_All\<close>)

lemma async_larger_content_round_trips_passes:
  assumes "ready E K" and "world_ok (settle s)" and "temp_root K \<in> set (w_dirs (settle s))"
    and "unused (async_temp_dir_path E K ''large'') (settle s)"
  shows "passing settle s (async_larger_content_round_trips tk E K)"
  unfolding async_larger_content_round_trips_def Let_def
  by (rule async_test_run [OF ready_sound(1) [OF assms(1)] assms(2-4)])
     (use assms(1) in \<open>auto simp: async_facts owned_wp plain intro!: through elim!: step_rules clearedI
       simp del: split_paired_All\<close>)

lemma publishes_atomically_passes:
  assumes "ready E K" and "world_ok (settle s)" and "temp_root K \<in> set (w_dirs (settle s))"
    and "unused (async_temp_dir_path E K ''atomic'') (settle s)"
  shows "passing settle s (publishes_atomically tk E K)"
  unfolding publishes_atomically_def Let_def
  by (rule async_test_run [OF ready_sound(1) [OF assms(1)] assms(2-4)])
     (use assms(1) in \<open>auto simp: async_facts owned_wp plain intro!: through elim!: step_rules clearedI
       simp del: split_paired_All\<close>)

lemma abort_removes_the_temp_file_passes:
  assumes "ready E K" and "world_ok (settle s)" and "temp_root K \<in> set (w_dirs (settle s))"
    and "unused (async_temp_dir_path E K ''abort'') (settle s)"
  shows "passing settle s (abort_removes_the_temp_file tk E K)"
  unfolding abort_removes_the_temp_file_def Let_def
  by (rule async_test_run [OF ready_sound(1) [OF assms(1)] assms(2-4)])
     (use assms(1) in \<open>auto simp: async_facts owned_wp plain intro!: through elim!: step_rules clearedI
       simp del: split_paired_All\<close>)

lemma metadata_updates_preserve_content_and_layout_passes:
  assumes "ready E K" and "world_ok (settle s)" and "temp_root K \<in> set (w_dirs (settle s))"
    and "unused (async_temp_dir_path E K ''metadata'') (settle s)"
  shows "passing settle s (metadata_updates_preserve_content_and_layout tk E K)"
  unfolding metadata_updates_preserve_content_and_layout_def Let_def
  by (rule async_test_run [OF ready_sound(1) [OF assms(1)] assms(2-4)])
     (use assms(1) in \<open>auto simp: async_facts owned_wp plain async_layouts intro!: through elim!: step_rules clearedI
       simp del: split_paired_All\<close>)

end

lemma unbuffered_std_calls: "std_calls_ok E snd"
  by (simp add: std_calls_ok_def sim_snd)

interpretation unbuffered_tests: tokio_tests E "unbuffered E" snd for E :: "'hn env"
  by unfold_locales (rule unbuffered_std_calls)

definition async_file_tests :: "('t, 'hn) async_file_test list" where
  "async_file_tests = [async_create_and_read_back,
     ranged_reads_stop_at_the_end_of_the_content,
     an_owned_reader_outlives_the_object_handle,
     async_larger_content_round_trips,
     publishes_atomically,
     abort_removes_the_temp_file,
     metadata_updates_preserve_content_and_layout]"

lemma async_temp_dir_path_unused: "unused (async_temp_dir_path test_env test_names name) empty_world"
  by (auto simp: unused_def below_def empty_world_def async_temp_dir_path_def test_names_def sample_dir_def)

text \<open>C27: The tests of the asynchronous file layer pass: on every runtime on which no call fails and which
  does to the world it will settle to what the blocking calls do, in any directory for temporary files in
  which the scratch directory of the test is new, each of seven tests runs to its end without a panic,
  every assertion holds, and the world it will settle to shows at every path what it showed before.\<close>

theorem async_file_tests_pass:
  assumes "ready E K" and "tokio_ok E tk settle" and "std_calls_ok E settle" and "world_ok (settle s)"
    and "temp_root K \<in> set (w_dirs (settle s))" and "\<And>name. unused (async_temp_dir_path E K name) (settle s)"
  shows "list_all (\<lambda>test. \<exists>s'. test tk E K s = (Ok (), s') \<and> view_of (settle s') = view_of (settle s)
    \<and> w_dirs (settle s') = w_dirs (settle s)) async_file_tests"
proof -
  have T: "tokio_tests E tk settle"
    using tokio_okD [OF assms(2) ready_sound(2) [OF assms(1)]] assms(3) by (simp add: tokio_tests_def tokio_tests_axioms_def)
  note passes = tokio_tests.async_create_and_read_back_passes [OF T]
    tokio_tests.ranged_reads_stop_at_the_end_of_the_content_passes [OF T]
    tokio_tests.an_owned_reader_outlives_the_object_handle_passes [OF T]
    tokio_tests.async_larger_content_round_trips_passes [OF T]
    tokio_tests.publishes_atomically_passes [OF T]
    tokio_tests.abort_removes_the_temp_file_passes [OF T]
    tokio_tests.metadata_updates_preserve_content_and_layout_passes [OF T]
  show ?thesis
    unfolding async_file_tests_def list.pred_inject passing_def [symmetric]
    by (intro conjI list.pred_inject(1) passes [OF assms(1,4-6)])
qed

theorem async_file_tests_pass_witness:
  "list_all (\<lambda>test. \<exists>s'. test (unbuffered test_env) test_env test_names ((), empty_world) = (Ok (), s')
     \<and> view_of (snd s') = view_of empty_world \<and> w_dirs (snd s') = w_dirs empty_world) async_file_tests"
  using async_file_tests_pass [OF test_env_ready unbuffered_ok unbuffered_std_calls, of "((), empty_world)"] worlds_ok(1)
    async_temp_dir_path_unused
  by (simp add: test_names_def empty_world_def)

end
