(* ===== verification/Spec2Isabelle.thy ===== *)
theory Spec2Isabelle
  imports Guarantees Handles Revisions Encoders DirectoryRuns HashMaps AsyncCodecs AsyncGuarantees AsyncSafety ChronoTypes
    Compression TimeTypes SizeInvariant CodecTests Conversions FileTestRuns AsyncFileTests
begin

text \<open>
  This library models \<open>tux-io-encoding\<close>, the encoding of objects stored on disk, and proves what
  makes it correct. An object file is a 32-byte header, a metadata section, a tag section, and the
  content; sections are padded so that they can grow without moving the content. The crate has three
  layers: codecs for values and maps (\<open>src/src/types*\<close>, \<open>value.rs\<close>, \<open>tags.rs\<close>, \<open>header.rs\<close>),
  object files over \<open>std::fs\<close> (\<open>src/src/fs\<close>), and asynchronous counterparts of both for tokio
  (\<open>tokio_io.rs\<close>, \<open>fs/async_io.rs\<close>).

  \<^bold>\<open>How the code is translated.\<close> A Rust call is a value of \<open>res\<close>: \<open>Ok\<close>, \<open>Err\<close> or \<open>Panic\<close>; the
  question mark is \<open>res_bind\<close>. Machine integers are words; arithmetic on \<open>usize\<close>, a 64-bit machine
  assumed, goes through checked operations that panic on overflow, as Rust does when overflow is
  checked. A reader is a cursor over bytes, a writer any sink of bytes (locale \<open>byte_sink\<close>). The
  object files run on a record \<open>world\<close> passed through every call (\<open>st\<close>, \<open>st_bind\<close>): directory
  entries, file contents, open files with their positions, and a trace of what every path has shown
  after each system call. The environment \<open>env\<close> decides, call by call, which call fails and how many
  bytes it transfers, so that a theorem that fixes no environment holds under all faults; \<open>reliable E\<close>
  says that no call fails. A \<open>Drop\<close> implementation is run where Rust runs it.

  \<^bold>\<open>Codecs.\<close>
  \<^item> \<open>Prelude\<close>: outcomes, checked arithmetic, little-endian bytes.
  \<^item> \<open>Encoding\<close> (\<open>src/lib.rs\<close>): errors, cursors, the defaults of the traits, and the contracts of a
  codec as locales: \<open>wire_type\<close> (what is written reads back), \<open>canonical_type\<close> (nothing else is read),
  \<open>measured_type\<close> (its size is measured), \<open>entry_codec\<close> (sequences of entries).
  \<^item> \<open>Primitives\<close> (\<open>types.rs\<close>, \<open>types/*.rs\<close>), \<open>TimeTypes\<close> (\<open>types/time.rs\<close> and the attribute parser of
  the macro \<open>ObjectType\<close>), \<open>Value\<close> (\<open>value.rs\<close> and the macro \<open>ValueEnum\<close>), \<open>Header\<close>
  (\<open>compression_types*\<close>, \<open>header.rs\<close>), \<open>Tags\<close> (\<open>tags.rs\<close>, \<open>tags/meta_key.rs\<close>), \<open>HashMaps\<close>
  (\<open>types/map.rs\<close>): each has its operations, then the interpretation of the contracts on them.
  \<^item> \<open>ChronoTypes\<close> (\<open>types/time/chrono_impl.rs\<close>): the chrono types, a parameter \<open>chrono_api\<close> with its
  documented behaviour \<open>chrono_ok\<close>.
  \<^item> \<open>AsyncCodecs\<close> (\<open>tokio_io.rs\<close> and the \<open>tokio_async\<close> modules): an asynchronous reader is a function of
  the bytes that are left; \<open>interchangeable\<close> says that it and a synchronous one agree on every input,
  and has a rule for each way the readers are composed.
  \<^item> \<open>SizeInvariant\<close> (the test module \<open>invariants\<close> of \<open>lib.rs\<close>): an implementation of the traits as a record of
  its methods, the check that size, length, \<open>read_size\<close> and \<open>const_size\<close> are one number as a function of
  it, and which types pass it on which values.
  \<^item> \<open>Conversions\<close> (the macro \<open>ValueEnum\<close>): the conversions between a value and the inner types.
  \<^item> \<open>CodecTests\<close>: the test modules of the codecs and of the layout, statement by statement; they pass.

  \<^bold>\<open>Object files.\<close>
  \<^item> \<open>Layout\<close> (\<open>fs/layout.rs\<close>, \<open>fs/error.rs\<close>): where the sections go. Sections a layout
  was computed for fit again, so that \<open>finish\<close> lays an object out at most twice.
  \<^item> \<open>FileSystem\<close>: the part of \<open>std::fs\<close> and \<open>std::io\<close> in use, with a weakest precondition \<open>wp\<close> for
  values, errors and panics, and one rule for each call.
  \<^item> \<open>Prefix\<close> (\<open>encode_prefix\<close> of \<open>fs/writer.rs\<close>), \<open>ObjectFile\<close> (\<open>fs/object.rs\<close>, \<open>fs/reader.rs\<close>) and
  \<open>Writer\<close> (\<open>fs/writer.rs\<close>): the operations. \<open>finish\<close> calls itself through the rewriting path; it is a
  total function, since a replacement has sections that fit. \<open>object_at\<close> and \<open>writer_at\<close> are the
  invariants of an opened object and of a writer.
  \<^item> \<open>Publishing\<close>, \<open>Finishing\<close>, \<open>Lifecycle\<close>, \<open>Updates\<close>: a rule for each operation of the writer and for
  the updates; \<open>quiet\<close> and \<open>atomic\<close> say which paths may show something else, and what.
  \<^item> \<open>Compression\<close> (\<open>fs/compression.rs\<close>): the content encoder, over any codec.
  \<^item> \<open>Store\<close>: the abstraction of a directory to a map from paths to objects, and the samples that the
  witnesses run on.
  \<^item> \<open>Guarantees\<close>, \<open>Handles\<close>, \<open>Revisions\<close>, \<open>Encoders\<close>: the properties of the writer, of opened objects, of
  updates and of the encoder.
  \<^item> \<open>InPlace\<close>: the update in place at every moment, on any handle. It is not crash safe, as the code says;
  but the header always says where the content is (\<open>headed\<close>), and the content is there.
  \<^item> \<open>Directory\<close>: writers and opened objects at work on one directory, in any order and under any faults.
  The relation \<open>step\<close> has a step for each outcome of creating a writer, streaming into it (\<open>write\<close>,
  \<open>write_all\<close>, handing out an encoder), editing its sections, finishing, aborting and dropping it, opening
  an object for reading or writing, reading it in every way, updating it by rewriting and in place
  (done, refused, or broken off), and closing it. The other methods are composed of these: a setter
  reads what it keeps and rewrites, \<open>open_optional\<close> opens, an encoder writes into its writer and edits the
  metadata. Sections are only asked to be what the Rust types guarantee (\<open>sections_typed\<close>: keys are
  distinct, strings are UTF-8, a uuid has 16 bytes); paths with the name of a temporary file are left
  to the writers. A step carries an \<open>event\<close>, which says what it does to the map of objects, and the
  state the bytes each writer was given, the content of each opened object, and the paths that an
  update in place has touched (\<open>sy_exposed\<close>) and may have left torn (\<open>sy_torn\<close>). The invariant
  \<open>system_ok\<close> is kept by every step.
  \<^item> \<open>DirectoryRuns\<close>: what follows for every run: the refinement to the map of objects, what is visible,
  and that nobody gets in the way of anybody else.

  \<^item> \<open>TestHarness\<close>, \<open>FileTests\<close>: the tests of \<open>fs/mod.rs\<close>, statement by statement, with the scratch directories
  they work in. \<open>ScratchRuns\<close> has one rule for each operation, what it leaves in such a directory when no
  call fails, and \<open>FileTestRuns\<close> runs the tests with them: they pass.

  \<^bold>\<open>Asynchronous object files.\<close>
  \<^item> \<open>AsyncFiles\<close> (\<open>fs/async_io.rs\<close>): the operations, over the file
  operations of tokio as a parameter \<open>tokio\<close> that acts on a state of the runtime and the world. Two
  rounds of recursion are enough for \<open>async_finish\<close>.
  \<^item> \<open>AsyncAgreement\<close>: a simulation \<open>sim\<close> with a rule for each composition and each operation.
  \<^item> \<open>AsyncGuarantees\<close>: the asynchronous operations agree with the blocking ones, and the two layers read
  what the other writes.
  \<^item> \<open>AsyncFaults\<close>: the locale \<open>deferring\<close>, what a runtime still promises that carries writes out behind its
  caller and reports a failure only at a later call; creating, writing and finishing in place under it.
  \<^item> \<open>AsyncCopying\<close>: the locale \<open>deferring_copies\<close> adds reads, and copies as a relation \<open>copying\<close> of reads,
  writes and flushes in any order; finishing by rewriting and the setters of an opened object under it.
  \<^item> \<open>WriteBehind\<close>: a runtime that keeps the last write until the next call and reports its failure late;
  both locales hold of it.
  \<^item> \<open>AsyncSafety\<close>: storing and updating objects asynchronously is safe on every such runtime.

  \<^item> \<open>AsyncFileTests\<close>: the tests of \<open>fs/async_io.rs\<close>, statement by statement. The locale \<open>tokio_tests\<close> carries a
  step of an asynchronous operation over to the rule of the blocking one; they pass.

  \<^bold>\<open>What is assumed.\<close> Of a codec: decoding what its encoder produced gives the content back
  (\<open>codec_ok\<close>). Of \<open>http::HeaderName\<close>: a name has at most 65535 bytes and is parsed from them
  (\<open>header_name_ok\<close>). Of chrono: \<open>chrono_ok\<close>, which says of a leap second off the end of a minute, which chrono
  can represent, that \<open>from_num_seconds_from_midnight_opt\<close> refuses it, and of every other time that it is
  rebuilt from its seconds and nanoseconds. Of tokio: \<open>tokio_ok\<close>, that a runtime on which no call
  fails does to the world it will settle to what the blocking calls do. An error of a write that tokio
  reports at a later call is outside that hypothesis, and is what \<open>deferring\<close> and
  \<open>deferring_copies\<close> are about. Of the calls of \<open>std::fs\<close> that the asynchronous tests make themselves:
  \<open>std_calls_ok\<close>, that they too act on the world the runtime will settle to.
  Each is shown to hold of a concrete instance.

  \<^bold>\<open>Bounds.\<close> Strings, byte blocks and maps hold at most 65535 bytes or entries; metadata ends below
  65536; a file offset stays below \<open>max_offset\<close>, the largest offset of a seek. Properties of writing
  carry these as hypotheses or state the refusal.

  \<^bold>\<open>Not modelled.\<close> The two tests of \<open>fs/mod.rs\<close> that need the codecs of the features \<open>zstd\<close> and \<open>gzip\<close>
  to make their sample smaller; the two tests of \<open>fs/async_io.rs\<close> in which one layer reads what the other
  wrote, which is \<open>async_store_round_trip\<close>; the examples of the documentation; the empty main function of \<open>cli/src/main.rs\<close>; \<open>Debug\<close> output and memory accounting
  (\<open>get-size2\<close>); the clock functions \<open>now_chrono_local\<close> and \<open>now_chrono_utc\<close>; accessors that return a
  field; conversions from references that repeat those from values; the token streams the macros print
  (which implementations they generate is modelled). The durability of a synchronised file over a
  crash of the machine is not modelled: the trace is what other processes see. A system call that fails
  has no effect, and no call reports \<open>Interrupted\<close>, so that the retries of \<open>std::io\<close> on it do not show.
\<close>

end
